(* ===== verification/Prelude.thy ===== *)
theory Prelude
  imports Main "HOL-Library.Word" "HOL-Library.Multiset" "HOL-Library.AList"
begin

text \<open>
  What every component of the model shares: the machine integers of Go, byte strings and
  their big-endian reading (\<^verbatim>\<open>encoding/binary\<close>), hexadecimal rendering (the verb
  \<^verbatim>\<open>%x\<close> of \<^verbatim>\<open>fmt\<close>), decimal rendering (\<^verbatim>\<open>%d\<close>), Go's \<^verbatim>\<open>copy\<close> into a
  sub-slice, and the generic lemmas on lists, maps and words that the component theories use.
\<close>

unbundle bit_operations_syntax

section \<open>Types\<close>

type_synonym u8 = "8 word"
type_synonym u16 = "16 word"
type_synonym u32 = "32 word"
type_synonym u64 = "64 word"
type_synonym i32 = "32 word"
type_synonym i64 = "64 word"
type_synonym bytes = "u8 list"

text \<open>A Go function that returns \<^verbatim>\<open>(T, error)\<close>: \<open>Inl\<close> the error, \<open>Inr\<close> the value.\<close>

type_synonym ('e, 'a) res = "'e + 'a"

named_theorems op_defs "definitions of the operations of a component"
named_theorems inv_intros "introduction rules for component invariants"

section \<open>Lists and slices\<close>

text \<open>\<open>splice i bs xs\<close> is \<^verbatim>\<open>copy(xs[i:], bs)\<close> where \<open>bs\<close> fits.\<close>

definition splice :: "nat \<Rightarrow> 'a list \<Rightarrow> 'a list \<Rightarrow> 'a list" where
  "splice i bs xs = take i xs @ bs @ drop (i + length bs) xs"

text \<open>\<open>slice i j xs\<close> is \<^verbatim>\<open>xs[i:j]\<close> for \<open>i \<le> j \<le> len(xs)\<close>.\<close>

definition slice :: "nat \<Rightarrow> nat \<Rightarrow> 'a list \<Rightarrow> 'a list" where
  "slice i j xs = take (j - i) (drop i xs)"

lemma length_splice [simp]: "i + length bs \<le> length xs \<Longrightarrow> length (splice i bs xs) = length xs"
  by (simp add: splice_def)

lemma length_slice [simp]: "j \<le> length xs \<Longrightarrow> length (slice i j xs) = j - i"
  by (simp add: slice_def)

lemma slice_append_left: "j \<le> length xs \<Longrightarrow> slice i j (xs @ ys) = slice i j xs"
  by (simp add: slice_def)

lemma slice_all [simp]: "slice 0 (length xs) xs = xs"
  by (simp add: slice_def)

lemma nth_splice:
  "i + length bs \<le> length xs \<Longrightarrow> k < length xs \<Longrightarrow>
   splice i bs xs ! k = (if i \<le> k \<and> k < i + length bs then bs ! (k - i) else xs ! k)"
  by (auto simp: splice_def nth_append min_def)

lemma nth_slice: "j \<le> length xs \<Longrightarrow> k < j - i \<Longrightarrow> slice i j xs ! k = xs ! (i + k)"
  by (simp add: slice_def)

lemma slice_splice_same:
  "i + length bs \<le> length xs \<Longrightarrow> j = i + length bs \<Longrightarrow> slice i j (splice i bs xs) = bs"
  by (simp add: slice_def splice_def)

lemma slice_splice_before:
  "j \<le> i \<Longrightarrow> i + length bs \<le> length xs \<Longrightarrow> slice k j (splice i bs xs) = slice k j xs"
  by (intro nth_equalityI) (auto simp: nth_slice nth_splice)

lemma slice_splice_after:
  "i + length bs \<le> k \<Longrightarrow> i + length bs \<le> length xs \<Longrightarrow> j \<le> length xs \<Longrightarrow>
   slice k j (splice i bs xs) = slice k j xs"
  by (intro nth_equalityI) (auto simp: nth_slice nth_splice)

lemma drop_splice_after: "i + length bs \<le> k \<Longrightarrow> i \<le> length xs \<Longrightarrow> drop k (splice i bs xs) = drop k xs"
  by (simp add: splice_def min_def)

lemma drop_splice_at: "i + length bs = length xs \<Longrightarrow> drop i (splice i bs xs) = bs"
  by (simp add: splice_def)

lemma take_splice_at: "i + length bs \<le> length xs \<Longrightarrow> take (i + length bs) (splice i bs xs) = take i xs @ bs"
  by (simp add: splice_def min_absorb2)

lemma slice_splice_extend:
  "h \<le> i \<Longrightarrow> i + length bs \<le> length xs \<Longrightarrow> slice h (i + length bs) (splice i bs xs) = slice h i xs @ bs"
  unfolding slice_def take_drop using take_splice_at [of i bs xs]
  by (simp add: drop_take min_absorb2)

lemma slice_Nil [simp]: "slice i i xs = []"
  by (simp add: slice_def)

lemma slice_0 [simp]: "slice 0 j xs = take j xs"
  by (simp add: slice_def)

lemma slice_to_end: "slice i (length xs) xs = drop i xs"
  by (simp add: slice_def)

lemma take_slice: "take n (slice i j xs) = slice i (min j (i + n)) xs"
  by (cases "j \<le> i + n") (auto simp: slice_def min_def intro: arg_cong2 [where f = take])

lemma drop_slice: "drop n (slice i j xs) = slice (i + n) j xs"
  by (simp add: slice_def drop_take add.commute)

text \<open>Removing the first occurrence of a key from a slice: the loop
  \<^verbatim>\<open>for i, k := range q { if k == key { q = append(q[:i], q[i+1:]...); break } }\<close>.\<close>

lemma remove1_distinct_set: "distinct xs \<Longrightarrow> set (remove1 x xs) = set xs - {x}"
  by (rule set_remove1_eq)

lemma length_filter_le_map: "length (filter P xs) \<le> length xs"
  by simp

text \<open>\<open>go_copy dst src\<close> is the contents of \<open>dst\<close> after \<^verbatim>\<open>copy(dst, src)\<close>, which moves the
  shorter of the two lengths.\<close>

definition go_copy :: "'a list \<Rightarrow> 'a list \<Rightarrow> 'a list" where
  "go_copy dst src = take (length dst) src @ drop (length src) dst"

lemma length_go_copy [simp]: "length (go_copy dst src) = length dst"
  by (simp add: go_copy_def min_def)

lemma take_go_copy: "length src \<le> length dst \<Longrightarrow> take (length src) (go_copy dst src) = src"
  by (simp add: go_copy_def)

lemma take_go_copy_le:
  "n \<le> length src \<Longrightarrow> n \<le> length dst \<Longrightarrow> take n (go_copy dst src) = take n src"
  by (simp add: go_copy_def min_def)

text \<open>A call that returns, or one that stops with a run-time panic.\<close>

datatype 'a outcome = Ret 'a | Panic

section \<open>Big-endian integers\<close>

lemma unat_u8_less [simp]: "unat (b :: u8) < 256"
  using unsigned_less [of b, where ?'a = nat] by simp

primrec be_enc :: "nat \<Rightarrow> nat \<Rightarrow> bytes" where
  "be_enc 0 v = []"
| "be_enc (Suc n) v = be_enc n (v div 256) @ [word_of_nat v]"

definition be_dec :: "bytes \<Rightarrow> nat" where
  "be_dec bs = foldl (\<lambda>a b. a * 256 + unat b) 0 bs"

lemma length_be_enc [simp]: "length (be_enc n v) = n"
  by (induction n arbitrary: v) auto

lemma be_dec_Nil [simp]: "be_dec [] = 0"
  by (simp add: be_dec_def)

lemma be_dec_snoc [simp]: "be_dec (bs @ [b]) = be_dec bs * 256 + unat b"
  by (simp add: be_dec_def)

lemma be_dec_be_enc: "be_dec (be_enc n v) = v mod 256 ^ n"
proof (induction n arbitrary: v)
  case 0
  then show ?case by simp
next
  case (Suc n)
  have "unat (word_of_nat v :: u8) = v mod 256"
    by (simp add: unat_of_nat)
  with Suc show ?case
    by (simp add: mod_mult2_eq mult.commute)
qed

lemma be_enc_be_dec: "be_enc (length bs) (be_dec bs) = bs"
proof (induction bs rule: rev_induct)
  case Nil
  then show ?case by simp
next
  case (snoc b bs)
  have "unat b < 256"
    by simp
  then have "(be_dec bs * 256 + unat b) div 256 = be_dec bs"
    by simp
  moreover have "(word_of_nat (be_dec bs * 256 + unat b) :: u8) = b"
  proof -
    have "(word_of_nat (be_dec bs * 256 + unat b) :: u8) = word_of_nat (unat b)"
      by (simp only: word_of_nat_eq_iff take_bit_eq_mod) simp
    then show ?thesis by simp
  qed
  ultimately show ?case
    using snoc by simp
qed

lemma be_dec_bound: "be_dec bs < 256 ^ length bs"
proof -
  have "be_dec (be_enc (length bs) (be_dec bs)) = be_dec bs mod 256 ^ length bs"
    by (rule be_dec_be_enc)
  then have "be_dec bs = be_dec bs mod 256 ^ length bs"
    by (simp add: be_enc_be_dec)
  then show ?thesis
    by (metis mod_less_divisor zero_less_numeral zero_less_power)
qed

lemma be_dec_inj: "length as = length bs \<Longrightarrow> be_dec as = be_dec bs \<Longrightarrow> as = bs"
  by (metis be_enc_be_dec)

lemma be_dec_append: "be_dec (as @ bs) = be_dec as * 256 ^ length bs + be_dec bs"
  by (induction bs rule: rev_induct) (auto simp: append_assoc [symmetric] algebra_simps simp del: append_assoc)

lemma be_dec_Cons: "be_dec (b # bs) = unat b * 256 ^ length bs + be_dec bs"
  using be_dec_append [of "[b]" bs] by (simp add: be_dec_def)

text \<open>\<^verbatim>\<open>binary.BigEndian\<close>\<close>

definition PutUint64 :: "u64 \<Rightarrow> bytes" where "PutUint64 w = be_enc 8 (unat w)"
definition PutUint32 :: "u32 \<Rightarrow> bytes" where "PutUint32 w = be_enc 4 (unat w)"
definition PutUint16 :: "u16 \<Rightarrow> bytes" where "PutUint16 w = be_enc 2 (unat w)"
definition Uint64 :: "bytes \<Rightarrow> u64" where "Uint64 bs = word_of_nat (be_dec bs)"
definition Uint32 :: "bytes \<Rightarrow> u32" where "Uint32 bs = word_of_nat (be_dec bs)"
definition Uint16 :: "bytes \<Rightarrow> u16" where "Uint16 bs = word_of_nat (be_dec bs)"

lemma length_Put [simp]:
  "length (PutUint64 a) = 8" "length (PutUint32 b) = 4" "length (PutUint16 c) = 2"
  by (simp_all add: PutUint64_def PutUint32_def PutUint16_def)

lemma Uint_Put [simp]: "Uint64 (PutUint64 a) = a" "Uint32 (PutUint32 b) = b" "Uint16 (PutUint16 c) = c"
proof -
  have "unat a < 256 ^ 8" "unat b < 256 ^ 4" "unat c < 256 ^ 2"
    using unsigned_less [of a, where ?'a = nat] unsigned_less [of b, where ?'a = nat]
      unsigned_less [of c, where ?'a = nat] by simp_all
  then show "Uint64 (PutUint64 a) = a" "Uint32 (PutUint32 b) = b" "Uint16 (PutUint16 c) = c"
    by (simp_all add: Uint64_def PutUint64_def Uint32_def PutUint32_def Uint16_def PutUint16_def
        be_dec_be_enc)
qed

section \<open>Association lists\<close>

lemma update_new: "i \<notin> fst ` set xs \<Longrightarrow> AList.update i r xs = xs @ [(i, r)]"
  by (induction xs) auto

lemma update_elems: "distinct (map fst xs) \<Longrightarrow> x \<in> set (AList.update k v xs) \<Longrightarrow> x = (k, v) \<or> x \<in> set xs"
proof (induction xs)
  case (Cons y xs)
  then show ?case by (cases y) (auto split: if_splits)
qed simp

lemma delete_length:
  "distinct (map fst xs) \<Longrightarrow> map_of xs k = Some v \<Longrightarrow> Suc (length (AList.delete k xs)) = length xs"
proof (induction xs)
  case (Cons x xs)
  show ?case
  proof (cases "fst x = k")
    case True
    then have "k \<notin> fst ` set xs" using Cons.prems(1) by auto
    then have "AList.delete k xs = xs" by (simp add: AList.delete_eq filter_id_conv image_iff) force
    with True show ?thesis by (cases x) (simp add: AList.delete_eq)
  next
    case False
    then show ?thesis using Cons by (cases x) (simp add: AList.delete_eq)
  qed
qed simp

section \<open>Rendering\<close>

definition hex_digit :: "nat \<Rightarrow> char" where
  "hex_digit n = ''0123456789abcdef'' ! (n mod 16)"

definition hex_byte :: "u8 \<Rightarrow> string" where
  "hex_byte b = [hex_digit (unat b div 16), hex_digit (unat b mod 16)]"

text \<open>\<^verbatim>\<open>fmt.Sprintf("%x", bytes)\<close>\<close>

definition hex_string :: "bytes \<Rightarrow> string" where
  "hex_string bs = concat (map hex_byte bs)"

text \<open>\<^verbatim>\<open>fmt.Sprintf("%d", n)\<close> for a natural number\<close>

fun dec_string :: "nat \<Rightarrow> string" where
  "dec_string n = (if n < 10 then [char_of (48 + n)] else dec_string (n div 10) @ [char_of (48 + n mod 10)])"

declare dec_string.simps [simp del]

lemma hex_digit_inj: "m < 16 \<Longrightarrow> n < 16 \<Longrightarrow> hex_digit m = hex_digit n \<Longrightarrow> m = n"
proof -
  have d: "distinct ''0123456789abcdef''" by simp
  assume "m < 16" "n < 16" "hex_digit m = hex_digit n"
  then show "m = n"
    using nth_eq_iff_index_eq [OF d, of m n] by (simp add: hex_digit_def)
qed

lemma hex_digit_in: "hex_digit n \<in> set ''0123456789abcdef''"
  unfolding hex_digit_def by (rule nth_mem) simp

lemma hex_byte_inj: "hex_byte a = hex_byte b \<Longrightarrow> a = b"
proof -
  assume h: "hex_byte a = hex_byte b"
  have "unat a div 16 < 16" "unat b div 16 < 16"
    by (simp_all add: less_mult_imp_div_less)
  with h have "unat a div 16 = unat b div 16" "unat a mod 16 = unat b mod 16"
    by (auto simp: hex_byte_def intro!: hex_digit_inj)
  then have "unat a = unat b"
    by (metis div_mult_mod_eq)
  then show "a = b" by (simp only: word_unat_eq_iff)
qed

lemma hex_string_Nil [simp]: "hex_string [] = []"
  by (simp add: hex_string_def)

lemma hex_string_Cons: "hex_string (b # bs) = hex_byte b @ hex_string bs"
  by (simp add: hex_string_def)

lemma length_hex_string [simp]: "length (hex_string bs) = 2 * length bs"
  by (induction bs) (auto simp: hex_string_Cons hex_byte_def)

lemma hex_string_inj: "hex_string as = hex_string bs \<Longrightarrow> as = bs"
proof (induction as arbitrary: bs)
  case Nil
  then have "length (hex_string bs) = 0" by simp
  then show ?case by simp
next
  case (Cons a as)
  then have "length (hex_string bs) = 2 + 2 * length as"
    by (metis length_Cons length_hex_string mult_Suc_right)
  then obtain b bs' where bs: "bs = b # bs'"
    by (cases bs) auto
  with Cons.prems have "hex_byte a @ hex_string as = hex_byte b @ hex_string bs'"
    by (simp add: hex_string_Cons)
  then have "hex_byte a = hex_byte b" "hex_string as = hex_string bs'"
    by (auto simp: hex_byte_def)
  then show ?case
    using bs Cons.IH hex_byte_inj by blast
qed

lemma hex_string_eq_iff [simp]: "hex_string as = hex_string bs \<longleftrightarrow> as = bs"
  using hex_string_inj by blast

lemma hex_string_chars: "set (hex_string bs) \<subseteq> set ''0123456789abcdef''"
proof (induction bs)
  case Nil
  then show ?case by simp
next
  case (Cons b bs)
  have "set (hex_byte b) \<subseteq> set ''0123456789abcdef''"
    unfolding hex_byte_def using hex_digit_in by (metis empty_set empty_subsetI insert_subset list.simps(15))
  with Cons show ?case by (simp only: hex_string_Cons set_append Un_least)
qed

lemma hex_string_empty_iff [simp]: "hex_string bs = [] \<longleftrightarrow> bs = []"
  by (metis hex_string_Nil hex_string_eq_iff)

section \<open>Words\<close>

text \<open>\<^verbatim>\<open>bits.TrailingZeros64\<close>: the number of zero bits below the lowest set bit, 64 for 0.\<close>

definition trailing_zeros64 :: "u64 \<Rightarrow> nat" where
  "trailing_zeros64 w = length (takeWhile (\<lambda>i. \<not> bit w i) [0..<64])"

lemma trailing_zeros64_push_bit: "n < 64 \<Longrightarrow> trailing_zeros64 (push_bit n 1) = n"
proof -
  assume n: "n < 64"
  have split: "[0..<64] = [0..<n] @ n # [Suc n..<64]"
    using n by (metis append_Cons append_Nil le_add_same_cancel1 less_imp_add_positive
        upt_conv_Cons upt_add_eq_append zero_le)
  have "takeWhile (\<lambda>i. \<not> bit (push_bit n 1 :: u64) i) [0..<64] = [0..<n]"
    unfolding split using n by (subst takeWhile_append2) (auto simp: bit_simps)
  then show ?thesis
    by (simp add: trailing_zeros64_def)
qed

section \<open>Machine integers as integers\<close>

text \<open>The result of a computation of type \<^verbatim>\<open>int\<close> or \<^verbatim>\<open>int64\<close> whose value as an integer is given.\<close>

definition int64 :: "int \<Rightarrow> int" where
  "int64 i = signed_take_bit 63 i"

lemma int64_id: "- (2 ^ 63) \<le> i \<Longrightarrow> i < 2 ^ 63 \<Longrightarrow> int64 i = i"
  unfolding int64_def by (rule signed_take_bit_int_eq_self) simp_all

section \<open>Byte slices and strings\<close>

text \<open>The conversions \<^verbatim>\<open>string(b)\<close> and \<^verbatim>\<open>[]byte(s)\<close>.\<close>

definition go_string :: "bytes \<Rightarrow> string" where
  "go_string bs = map (\<lambda>b. char_of (unat b)) bs"

definition go_bytes :: "string \<Rightarrow> bytes" where
  "go_bytes s = map (\<lambda>c. word_of_nat (of_char c)) s"

lemma go_string_Nil [simp]: "go_string [] = []"
  and go_string_append [simp]: "go_string (xs @ ys) = go_string xs @ go_string ys"
  and length_go_string [simp]: "length (go_string xs) = length xs"
  by (simp_all add: go_string_def)

lemma of_char_bound [simp]: "(of_char c :: nat) < 256"
proof -
  have "(of_char c :: nat) = of_char c mod 256" by simp
  also have "\<dots> < 256" by (rule mod_less_divisor) simp
  finally show ?thesis .
qed

lemma go_string_bytes [simp]: "go_string (go_bytes s) = s"
proof -
  have "char_of (unat (word_of_nat (of_char c) :: u8)) = c" for c
    by (simp add: unat_of_nat take_bit_eq_mod)
  then show ?thesis by (simp add: go_string_def go_bytes_def comp_def)
qed

lemma go_bytes_string [simp]: "go_bytes (go_string bs) = bs"
  by (induction bs) (simp_all add: go_string_def go_bytes_def)

end
