(* ===== verification/GlobalId.thy ===== *)
theory GlobalId
  imports Prelude "HOL-Library.List_Lexorder"
begin

text \<open>
  \<^verbatim>\<open>message/idgen.go\<close>: the 128-bit global message id, its packing into 16 big-endian
  bytes, the extractors, comparison and validity, the connection sequence generator, and the
  id generator as a machine of atomic steps (one step per atomic access or clock reading), so
  that one definition gives both the sequential call and the interleavings of several
  goroutines.  \<^verbatim>\<open>int64\<close> times are read as \<open>int\<close>; the one conversion where the width
  matters (\<^verbatim>\<open>uint64(now - Epoch)\<close>) is written with a 64-bit word.
\<close>

section \<open>Layout\<close>

definition Epoch :: int where "Epoch = 1704067200000"
definition MaxTimestamp :: u64 where "MaxTimestamp = 2 ^ 48 - 1"
definition MaxLoginID :: u8 where "MaxLoginID = 15"
definition MaxSequence :: u64 where "MaxSequence = 63"
definition MaxCustom :: u8 where "MaxCustom = 63"
definition GlobalIDLength :: nat where "GlobalIDLength = 16"

datatype global_id = GlobalID (id_bytes: bytes)

definition wf_id :: "global_id \<Rightarrow> bool" where
  "wf_id i \<longleftrightarrow> length (id_bytes i) = GlobalIDLength"

datatype id_error = InvalidIDLength nat

definition clampTimestamp :: "int \<Rightarrow> u64" where
  "clampTimestamp now =
     (let timestamp = word_of_int (now - Epoch) :: u64
      in if timestamp > MaxTimestamp then MaxTimestamp else timestamp)"

definition lastPart :: "u8 \<Rightarrow> u64 \<Rightarrow> u8 \<Rightarrow> u16" where
  "lastPart loginID sq custom =
     push_bit 12 (ucast (loginID AND MaxLoginID)) OR push_bit 6 (ucast (sq AND MaxSequence))
       OR ucast (custom AND MaxCustom)"

definition buildIDWithSeq :: "int \<Rightarrow> u32 \<Rightarrow> u32 \<Rightarrow> u8 \<Rightarrow> u8 \<Rightarrow> u64 \<Rightarrow> global_id" where
  "buildIDWithSeq now userID roomID loginID custom sq =
     (let id0 = replicate GlobalIDLength 0;
          id1 = splice 0 (PutUint64 (push_bit 16 (clampTimestamp now))) id0;
          id2 = splice 6 (PutUint32 userID) id1;
          id3 = splice 10 (PutUint32 roomID) id2;
          id4 = splice 14 (PutUint16 (lastPart loginID sq custom)) id3
      in GlobalID id4)"

definition ToBytes :: "global_id \<Rightarrow> bytes" where
  "ToBytes i = id_bytes i"

definition FromBytes :: "bytes \<Rightarrow> id_error + global_id" where
  "FromBytes data =
     (if length data \<noteq> GlobalIDLength then Inl (InvalidIDLength (length data))
      else Inr (GlobalID data))"

definition IdString :: "global_id \<Rightarrow> string" where
  "IdString i = hex_string (id_bytes i)"

definition ExtractTimestamp :: "global_id \<Rightarrow> int" where
  "ExtractTimestamp i = uint (drop_bit 16 (Uint64 (slice 0 8 (id_bytes i)))) + Epoch"

definition ExtractUserID :: "global_id \<Rightarrow> u32" where
  "ExtractUserID i = Uint32 (slice 6 10 (id_bytes i))"

definition ExtractRoomID :: "global_id \<Rightarrow> u32" where
  "ExtractRoomID i = Uint32 (slice 10 14 (id_bytes i))"

definition ExtractLoginID :: "global_id \<Rightarrow> u8" where
  "ExtractLoginID i = ucast (drop_bit 12 (Uint16 (slice 14 16 (id_bytes i))) AND 15)"

definition ExtractSequence :: "global_id \<Rightarrow> u8" where
  "ExtractSequence i = ucast (drop_bit 6 (Uint16 (slice 14 16 (id_bytes i))) AND 63)"

definition ExtractCustom :: "global_id \<Rightarrow> u8" where
  "ExtractCustom i = ucast (Uint16 (slice 14 16 (id_bytes i)) AND 63)"

definition ParseGlobalID :: "bytes \<Rightarrow> id_error + (int \<times> u32 \<times> u32 \<times> u8 \<times> u8 \<times> u8)" where
  "ParseGlobalID data =
     (case FromBytes data of
        Inl e \<Rightarrow> Inl e
      | Inr i \<Rightarrow> Inr (ExtractTimestamp i, ExtractUserID i, ExtractRoomID i,
                     ExtractLoginID i, ExtractSequence i, ExtractCustom i))"

definition IsZero :: "global_id \<Rightarrow> bool" where
  "IsZero i \<longleftrightarrow> list_all (\<lambda>b. b = 0) (id_bytes i)"

text \<open>\<open>now\<close> is the wall clock (Unix milliseconds) when the check runs.\<close>

definition IsValid :: "int \<Rightarrow> global_id \<Rightarrow> bool" where
  "IsValid now i =
     (if IsZero i then False
      else let timestamp = ExtractTimestamp i
           in if timestamp > now + 60 * 1000 then False
              else if now - timestamp > 30 * 24 * 60 * 60 * 1000 then False
              else True)"

fun compareBytes :: "bytes \<Rightarrow> bytes \<Rightarrow> int" where
  "compareBytes (a # as) (b # bs) =
     (if a < b then - 1 else if a > b then 1 else compareBytes as bs)"
| "compareBytes _ _ = 0"

definition Compare :: "global_id \<Rightarrow> global_id \<Rightarrow> int" where
  "Compare i other =
     (let ts1 = ExtractTimestamp i; ts2 = ExtractTimestamp other
      in if ts1 < ts2 then - 1
         else if ts1 > ts2 then 1
         else compareBytes (id_bytes i) (id_bytes other))"

definition IdEqual :: "global_id \<Rightarrow> global_id \<Rightarrow> bool" where
  "IdEqual i other \<longleftrightarrow> Compare i other = 0"

text \<open>Ids in the order of their bytes: the library's sorting then applies to them.\<close>

instantiation global_id :: linorder
begin

definition less_eq_global_id :: "global_id \<Rightarrow> global_id \<Rightarrow> bool" where
  "less_eq_global_id a b \<longleftrightarrow> id_bytes a \<le> id_bytes b"

definition less_global_id :: "global_id \<Rightarrow> global_id \<Rightarrow> bool" where
  "less_global_id a b \<longleftrightarrow> id_bytes a < id_bytes b"

instance
  by standard (auto simp: less_eq_global_id_def less_global_id_def global_id.expand)

end

section \<open>Connection sequence numbers\<close>

record conn_seq_gen =
  sequence :: u64

definition NewConnSeqGenerator :: conn_seq_gen where
  "NewConnSeqGenerator = \<lparr>sequence = 0\<rparr>"

definition SeqNext :: "conn_seq_gen \<Rightarrow> conn_seq_gen \<times> u64" where
  "SeqNext g = (let n = sequence g + 1 in (g\<lparr>sequence := n\<rparr>, n))"

definition SeqCurrent :: "conn_seq_gen \<Rightarrow> u64" where
  "SeqCurrent g = sequence g"

definition SeqReset :: "conn_seq_gen \<Rightarrow> conn_seq_gen" where
  "SeqReset g = g\<lparr>sequence := 0\<rparr>"

section \<open>The generator as atomic steps\<close>

record id_gen =
  lastTimestamp :: int
  seqMask :: u64

definition NewGlobalIDGenerator :: id_gen where
  "NewGlobalIDGenerator = \<lparr>lastTimestamp = 0, seqMask = 0\<rparr>"

text \<open>
  Where a goroutine stands inside \<^verbatim>\<open>GenerateGlobalID\<close>; each constructor carries the
  local variables (\<open>now\<close>, \<open>last\<close>, \<open>mask\<close>) that are live there.
\<close>

datatype gen_pc =
    ReadClock
  | LoadLast int
  | ClearMask int int
  | CasLast int int
  | CheckLast int
  | LoadMask int
  | WaitTick int
  | CasMask int u64
  | Returned int nat

definition lowestFreeBit :: "u64 \<Rightarrow> u64" where
  "lowestFreeBit m = NOT m AND (m + 1)"

text \<open>
  One atomic step.  \<open>clock\<close> is what \<^verbatim>\<open>time.Now().UnixMilli()\<close> shows at that moment;
  only \<open>ReadClock\<close> and \<open>WaitTick\<close> look at it.  Sleeping changes no state: it is the
  scheduler's choice not to run the goroutine.
\<close>

fun genStep :: "int \<Rightarrow> id_gen \<Rightarrow> gen_pc \<Rightarrow> id_gen \<times> gen_pc" where
  "genStep clock g ReadClock = (g, LoadLast clock)"
| "genStep clock g (LoadLast now) =
     (let prev = lastTimestamp g
      in if now < prev then (g, ReadClock)
         else if now > prev then (g, ClearMask now prev)
         else (g, CheckLast now))"
| "genStep clock g (ClearMask now prev) = (g\<lparr>seqMask := 0\<rparr>, CasLast now prev)"
| "genStep clock g (CasLast now prev) =
     (if lastTimestamp g = prev then (g\<lparr>lastTimestamp := now\<rparr>, CheckLast now)
      else (g, ReadClock))"
| "genStep clock g (CheckLast now) =
     (if lastTimestamp g \<noteq> now then (g, ReadClock) else (g, LoadMask now))"
| "genStep clock g (LoadMask now) =
     (let m = seqMask g
      in if m = NOT 0 then (g, WaitTick now) else (g, CasMask now m))"
| "genStep clock g (WaitTick now) =
     (if clock \<le> now then (g, WaitTick now) else (g, ReadClock))"
| "genStep clock g (CasMask now m) =
     (let bit' = lowestFreeBit m
      in if seqMask g = m
         then (g\<lparr>seqMask := m OR bit'\<rparr>, Returned now (trailing_zeros64 bit'))
         else (g, CheckLast now))"
| "genStep clock g (Returned now sq) = (g, Returned now sq)"

text \<open>
  A whole call by one goroutine: one clock value per atomic step; \<open>None\<close> when the given
  clock values run out before the call returns.
\<close>

fun genRun :: "int list \<Rightarrow> id_gen \<Rightarrow> gen_pc \<Rightarrow> (id_gen \<times> int \<times> nat) option" where
  "genRun ticks g (Returned now sq) = Some (g, now, sq)"
| "genRun [] g pc = None"
| "genRun (t # ticks) g pc = (let (g', pc') = genStep t g pc in genRun ticks g' pc')"

definition GenerateGlobalID ::
    "int list \<Rightarrow> id_gen \<Rightarrow> u32 \<Rightarrow> u32 \<Rightarrow> u8 \<Rightarrow> u8 \<Rightarrow> (id_gen \<times> global_id) option" where
  "GenerateGlobalID ticks g userID roomID loginID custom =
     map_option (\<lambda>(g', now, sq). (g', buildIDWithSeq now userID roomID loginID custom (word_of_nat sq)))
       (genRun ticks g ReadClock)"

text \<open>Several goroutines on one generator; \<open>issued\<close> is what they returned, oldest first.\<close>

record gen_sys =
  shared :: id_gen
  pcs :: "nat \<Rightarrow> gen_pc"
  issued :: "(int \<times> nat) list"

definition initSys :: gen_sys where
  "initSys = \<lparr>shared = NewGlobalIDGenerator, pcs = (\<lambda>_. ReadClock), issued = []\<rparr>"

text \<open>A schedule is a list of (goroutine, clock value) pairs.\<close>

definition sysStep :: "gen_sys \<Rightarrow> nat \<times> int \<Rightarrow> gen_sys" where
  "sysStep s ev =
     (case ev of (i, clock) \<Rightarrow>
       (case pcs s i of
          Returned now sq \<Rightarrow>
            s\<lparr>pcs := (pcs s)(i := ReadClock), issued := issued s @ [(now, sq)]\<rparr>
        | pc \<Rightarrow> (case genStep clock (shared s) pc of
                   (g', pc') \<Rightarrow> s\<lparr>shared := g', pcs := (pcs s)(i := pc')\<rparr>)))"

definition sysRun :: "(nat \<times> int) list \<Rightarrow> gen_sys" where
  "sysRun sched = foldl sysStep initSys sched"

section \<open>Packing and unpacking\<close>

lemma clamp_bound: "clampTimestamp now \<le> MaxTimestamp"
  by (auto simp: clampTimestamp_def Let_def)

lemma uint_word_of_int_u64: "0 \<le> x \<Longrightarrow> x < 2 ^ 64 \<Longrightarrow> uint (word_of_int x :: u64) = x"
  by (simp add: unsigned_of_int take_bit_int_eq_self)

lemma clamp_exact:
  assumes "Epoch \<le> now" "now \<le> Epoch + (2 ^ 48 - 1)"
  shows "uint (clampTimestamp now) = now - Epoch"
proof -
  have "uint (word_of_int (now - Epoch) :: u64) = now - Epoch"
    using assms by (intro uint_word_of_int_u64) simp_all
  with assms show ?thesis
    by (auto simp: clampTimestamp_def Let_def MaxTimestamp_def word_less_def)
qed

lemma high48_shift: "(w :: u64) \<le> MaxTimestamp \<Longrightarrow> drop_bit 16 (push_bit 16 w) = w"
proof -
  assume "w \<le> MaxTimestamp"
  then have "unat w < 2 ^ 48"
    by (simp add: MaxTimestamp_def word_le_nat_alt)
  then have "take_bit 48 w = w"
    by (simp add: word_unat_eq_iff unsigned_take_bit_eq take_bit_nat_eq_self)
  moreover have "drop_bit 16 (push_bit 16 w) = take_bit 48 w"
    by (rule bit_word_eqI) (auto simp: bit_simps)
  ultimately show ?thesis by simp
qed

lemma bit_small_mask: "bit (15 :: int) n \<longleftrightarrow> n < 4" "bit (63 :: int) n \<longleftrightarrow> n < 6"
  "bit (15 :: nat) n \<longleftrightarrow> n < 4" "bit (63 :: nat) n \<longleftrightarrow> n < 6"
proof -
  have "(15 :: int) = mask 4" "(63 :: int) = mask 6" "(15 :: nat) = mask 4" "(63 :: nat) = mask 6"
    by (simp_all add: mask_eq_exp_minus_1)
  then show "bit (15 :: int) n \<longleftrightarrow> n < 4" "bit (63 :: int) n \<longleftrightarrow> n < 6"
    "bit (15 :: nat) n \<longleftrightarrow> n < 4" "bit (63 :: nat) n \<longleftrightarrow> n < 6"
    by (simp_all only: bit_mask_iff) (auto simp: possible_bit_def)
qed

lemmas mask_defs = MaxLoginID_def MaxSequence_def MaxCustom_def

lemma lastPart_login: "(ucast (drop_bit 12 (lastPart l s c) AND 15) :: u8) = l AND 15"
  by (rule bit_word_eqI) (auto simp: lastPart_def mask_defs bit_simps bit_small_mask)

lemma lastPart_seq: "(ucast (drop_bit 6 (lastPart l s c) AND 63) :: u8) = ucast (s AND 63)"
  by (rule bit_word_eqI) (auto simp: lastPart_def mask_defs bit_simps bit_small_mask)

lemma lastPart_custom: "(ucast (lastPart l s c AND 63) :: u8) = c AND 63"
  by (rule bit_word_eqI) (auto simp: lastPart_def mask_defs bit_simps bit_small_mask)

text \<open>The bytes of a built id, slice by slice.\<close>

lemma slice_slice: "j \<le> l - k \<Longrightarrow> slice i j (slice k l xs) = slice (k + i) (k + j) xs"
  by (simp add: slice_def drop_take min_def add.commute)

lemma build_bytes:
  "id_bytes (buildIDWithSeq now u r l c s) =
     take 6 (PutUint64 (push_bit 16 (clampTimestamp now))) @ PutUint32 u @ PutUint32 r
       @ PutUint16 (lastPart l s c)"
  by (simp add: buildIDWithSeq_def Let_def splice_def GlobalIDLength_def)

lemma wf_buildID [simp]: "wf_id (buildIDWithSeq now u r l c s)"
  by (simp add: wf_id_def build_bytes GlobalIDLength_def)

lemma build_slices:
  "slice 0 6 (id_bytes (buildIDWithSeq now u r l c s)) = take 6 (PutUint64 (push_bit 16 (clampTimestamp now)))"
  "slice 6 10 (id_bytes (buildIDWithSeq now u r l c s)) = PutUint32 u"
  "slice 10 14 (id_bytes (buildIDWithSeq now u r l c s)) = PutUint32 r"
  "slice 14 16 (id_bytes (buildIDWithSeq now u r l c s)) = PutUint16 (lastPart l s c)"
  by (simp_all add: build_bytes slice_def)

lemma timestamp_bytes:
  assumes "length bs = 8"
  shows "uint (drop_bit 16 (Uint64 bs)) = int (be_dec (take 6 bs))"
proof -
  have split: "be_dec bs = be_dec (take 6 bs) * 256 ^ 2 + be_dec (drop 6 bs)"
    using be_dec_append [of "take 6 bs" "drop 6 bs"] assms by simp
  have "be_dec (drop 6 bs) < 256 ^ 2"
    using be_dec_bound [of "drop 6 bs"] assms by simp
  with split have div: "be_dec bs div 2 ^ 16 = be_dec (take 6 bs)"
    by simp
  have "be_dec bs < 2 ^ 64"
    using be_dec_bound [of bs] assms by simp
  then have "unat (Uint64 bs) = be_dec bs" "take_bit 64 (be_dec bs) = be_dec bs"
    by (simp_all add: Uint64_def unat_of_nat take_bit_nat_eq_self)
  then have "unat (drop_bit 16 (Uint64 bs)) = be_dec bs div 2 ^ 16"
    by (simp only: unsigned_drop_bit_eq) (simp add: drop_bit_eq_div)
  then show ?thesis
    by (metis div of_nat_unat)
qed

lemma ExtractTimestamp_bytes:
  "wf_id i \<Longrightarrow> ExtractTimestamp i = int (be_dec (slice 0 6 (id_bytes i))) + Epoch"
  by (simp add: ExtractTimestamp_def timestamp_bytes wf_id_def GlobalIDLength_def slice_def)

lemma ExtractTimestamp_build:
  "ExtractTimestamp (buildIDWithSeq now u r l c s) = uint (clampTimestamp now) + Epoch"
proof -
  let ?p = "PutUint64 (push_bit 16 (clampTimestamp now))"
  have "ExtractTimestamp (buildIDWithSeq now u r l c s) = int (be_dec (take 6 ?p)) + Epoch"
    by (simp add: ExtractTimestamp_bytes build_slices del: slice_0)
  also have "int (be_dec (take 6 ?p)) = uint (drop_bit 16 (Uint64 ?p))"
    by (rule timestamp_bytes [symmetric]) simp
  also have "\<dots> = uint (clampTimestamp now)"
    by (simp add: high48_shift clamp_bound)
  finally show ?thesis by simp
qed

lemmas Extract_build = ExtractTimestamp_build build_slices lastPart_login lastPart_seq lastPart_custom

text \<open>C39: the extractors read back what \<^verbatim>\<open>buildIDWithSeq\<close> packed, the narrow fields cut to
  their bit width and the time to 48 bits after the epoch.\<close>

theorem build_extract_roundtrip:
  "ParseGlobalID (ToBytes (buildIDWithSeq now userID roomID loginID custom sq)) =
     Inr (uint (clampTimestamp now) + Epoch, userID, roomID,
          loginID AND 15, ucast (sq AND 63), custom AND 63)"
  by (simp add: ParseGlobalID_def FromBytes_def ToBytes_def wf_buildID [unfolded wf_id_def]
      Extract_build ExtractUserID_def ExtractRoomID_def ExtractLoginID_def ExtractSequence_def
      ExtractCustom_def)

section \<open>Comparison\<close>

lemma compareBytes_sgn:
  "length as = length bs \<Longrightarrow> compareBytes as bs = sgn (int (be_dec as) - int (be_dec bs))"
proof (induction as bs rule: compareBytes.induct)
  case (1 a as b bs)
  let ?N = "256 ^ length bs :: nat"
  have len: "length as = length bs" using "1.prems" by simp
  have bnd: "be_dec as < ?N" "be_dec bs < ?N"
    using be_dec_bound [of as] be_dec_bound [of bs] len by simp_all
  have step: "x * ?N + be_dec p < y * ?N + be_dec q"
    if "x < y" "be_dec p < ?N" for x y p q
  proof -
    have "x * ?N + be_dec p < Suc x * ?N" using that by simp
    also have "Suc x * ?N \<le> y * ?N" using that by (intro mult_le_mono1) simp
    finally show ?thesis by simp
  qed
  show ?case
  proof (cases "unat a" "unat b" rule: linorder_cases)
    case less
    with step [OF less bnd(1), of bs] have "be_dec (a # as) < be_dec (b # bs)"
      by (simp add: be_dec_Cons len)
    with less show ?thesis
      by (simp add: word_less_nat_alt)
  next
    case equal
    then have "a = b" by (simp only: word_unat_eq_iff)
    with "1.IH" len show ?thesis by (simp add: be_dec_Cons)
  next
    case greater
    with step [OF greater bnd(2), of as] have "be_dec (b # bs) < be_dec (a # as)"
      by (simp add: be_dec_Cons len)
    with greater show ?thesis
      by (simp add: word_less_nat_alt)
  qed
qed auto

lemma compareBytes_lexord:
  "length as = length bs \<Longrightarrow> compareBytes as bs < 0 \<longleftrightarrow> as < bs"
  by (induction as bs rule: compareBytes.induct) (auto split: if_splits)

lemma be_dec_prefix:
  assumes "length as = length bs" "be_dec (take n as) < be_dec (take n bs)"
  shows "be_dec as < be_dec bs"
proof -
  let ?N = "256 ^ (length as - n) :: nat"
  have "be_dec as = be_dec (take n as) * ?N + be_dec (drop n as)"
    "be_dec bs = be_dec (take n bs) * ?N + be_dec (drop n bs)"
    using be_dec_append [of "take n as" "drop n as"] be_dec_append [of "take n bs" "drop n bs"] assms
    by simp_all
  moreover have "be_dec (drop n as) < ?N"
    using be_dec_bound [of "drop n as"] by simp
  moreover have "Suc (be_dec (take n as)) * ?N \<le> be_dec (take n bs) * ?N"
    using assms by (intro mult_le_mono1) simp
  ultimately show ?thesis by simp
qed

lemma Compare_num:
  assumes "wf_id i" "wf_id j"
  shows "Compare i j = sgn (int (be_dec (id_bytes i)) - int (be_dec (id_bytes j)))"
proof -
  have len: "length (id_bytes i) = length (id_bytes j)"
    using assms by (simp add: wf_id_def)
  have ts: "ExtractTimestamp i = int (be_dec (take 6 (id_bytes i))) + Epoch"
    "ExtractTimestamp j = int (be_dec (take 6 (id_bytes j))) + Epoch"
    using assms by (simp_all add: ExtractTimestamp_bytes slice_def)
  show ?thesis
    using be_dec_prefix [OF len, of 6] be_dec_prefix [OF len [symmetric], of 6]
    by (auto simp: Compare_def Let_def ts compareBytes_sgn len)
qed

text \<open>On ids of the right length \<^verbatim>\<open>Compare\<close> (time first, then byte by byte) is the sign of
  the difference of the ids read as 128-bit big-endian numbers; it therefore agrees with the
  linear order of the ids and is 0 exactly on equal ids.\<close>

theorem Compare_is_numeric_order:
  assumes "wf_id i" "wf_id j"
  shows "Compare i j = sgn (int (be_dec (id_bytes i)) - int (be_dec (id_bytes j)))
         \<and> (Compare i j < 0 \<longleftrightarrow> i < j) \<and> (IdEqual i j \<longleftrightarrow> i = j)"
proof -
  have len: "length (id_bytes i) = length (id_bytes j)"
    using assms by (simp add: wf_id_def)
  then have "Compare i j = compareBytes (id_bytes i) (id_bytes j)"
    by (simp add: Compare_num [OF assms] compareBytes_sgn)
  moreover have "Compare i j = 0 \<longleftrightarrow> i = j"
    using be_dec_inj [OF len] by (auto simp: Compare_num [OF assms] sgn_0_0 global_id.expand)
  ultimately show ?thesis
    using Compare_num [OF assms] compareBytes_lexord [OF len]
    by (auto simp: less_global_id_def IdEqual_def)
qed

theorem Compare_is_numeric_order_witness:
  "Compare (buildIDWithSeq (Epoch + 5) 1 2 3 0 4) (buildIDWithSeq (Epoch + 6) 1 2 3 0 0) = - 1
   \<and> buildIDWithSeq (Epoch + 5) 1 2 3 0 4 < buildIDWithSeq (Epoch + 6) 1 2 3 0 0"
proof -
  let ?i = "buildIDWithSeq (Epoch + 5) 1 2 3 0 4" and ?j = "buildIDWithSeq (Epoch + 6) 1 2 3 0 0"
  have "ExtractTimestamp ?i < ExtractTimestamp ?j"
    by (simp add: ExtractTimestamp_build clamp_exact)
  then have "Compare ?i ?j = - 1"
    by (simp add: Compare_def Let_def)
  moreover have "Compare ?i ?j < 0 \<longleftrightarrow> ?i < ?j"
    by (rule Compare_is_numeric_order [of ?i ?j, THEN conjunct2, THEN conjunct1]) simp_all
  ultimately show ?thesis by simp
qed

section \<open>The lowest free bit\<close>

lemma lowest_clear_bit:
  assumes "(m :: u64) \<noteq> NOT 0"
  obtains n where "n < 64" "\<not> bit m n" "\<And>i. i < n \<Longrightarrow> bit m i"
proof -
  have "\<exists>n. n < 64 \<and> \<not> bit m n"
  proof (rule ccontr)
    assume "\<not> ?thesis"
    then have "m = NOT 0"
      by (intro bit_word_eqI) (auto simp: bit_simps)
    with assms show False by simp
  qed
  then obtain n where n: "n < 64" "\<not> bit m n" by blast
  let ?l = "LEAST n. \<not> bit m n"
  have "?l < 64"
    using n Least_le [of "\<lambda>n. \<not> bit m n" n] by simp
  moreover have "\<not> bit m ?l"
    by (rule LeastI [of _ n]) (rule n)
  moreover have "\<And>i. i < ?l \<Longrightarrow> bit m i"
    using not_less_Least by blast
  ultimately show ?thesis by (rule that)
qed

lemma lowestFreeBit_eq:
  assumes "n < 64" "\<not> bit m n" "\<And>i. i < n \<Longrightarrow> bit m i"
  shows "lowestFreeBit m = push_bit n 1"
proof -
  let ?hi = "m AND NOT (mask n) :: u64"
  have "m = ?hi OR mask n"
  proof (rule bit_word_eqI)
    fix k assume "k < LENGTH(64)"
    then show "bit m k \<longleftrightarrow> bit (?hi OR mask n) k"
      using assms(2) assms(3) [of k] by (cases k n rule: linorder_cases) (simp_all add: bit_simps)
  qed
  also have "\<dots> = ?hi + mask n"
    by (rule disjunctive_add [symmetric]) (simp add: bit_simps)
  finally have "m + 1 = ?hi + (mask n + 1)"
    by (simp only: add.assoc [symmetric])
  also have "(mask n + 1 :: u64) = push_bit n 1"
    by (simp add: mask_eq_exp_minus_1 push_bit_eq_mult)
  also have "?hi + push_bit n 1 = ?hi OR push_bit n 1"
    using assms(2) by (intro disjunctive_add) (auto simp: bit_simps)
  finally have succ: "m + 1 = ?hi OR push_bit n 1" .
  show ?thesis
  proof (rule bit_word_eqI)
    fix k assume "k < LENGTH(64)"
    then show "bit (lowestFreeBit m) k \<longleftrightarrow> bit (push_bit n 1 :: u64) k"
      unfolding lowestFreeBit_def succ using assms(1,2) assms(3) [of k]
      by (cases k n rule: linorder_cases) (simp_all add: bit_simps)
  qed
qed

lemma lowestFreeBit_seq:
  assumes "m \<noteq> NOT 0"
  shows "trailing_zeros64 (lowestFreeBit m) < 64" "\<not> bit m (trailing_zeros64 (lowestFreeBit m))"
    "m OR lowestFreeBit m = Bit_Operations.set_bit (trailing_zeros64 (lowestFreeBit m)) m"
proof -
  obtain n where n: "n < 64" "\<not> bit m n" "\<And>i. i < n \<Longrightarrow> bit m i"
    using lowest_clear_bit [OF assms] by blast
  then have f: "lowestFreeBit m = push_bit n 1"
    by (intro lowestFreeBit_eq)
  then have e: "lowestFreeBit m = push_bit n 1" "trailing_zeros64 (lowestFreeBit m) = n"
    using trailing_zeros64_push_bit [OF n(1)] by simp_all
  then show "trailing_zeros64 (lowestFreeBit m) < 64"
    "\<not> bit m (trailing_zeros64 (lowestFreeBit m))"
    using n by simp_all
  show "m OR lowestFreeBit m = Bit_Operations.set_bit (trailing_zeros64 (lowestFreeBit m)) m"
    using e by (simp add: set_bit_eq_or)
qed

section \<open>One goroutine\<close>

text \<open>What holds at each program point when no other goroutine runs.  \<open>iss\<close> are the pairs
  returned so far.\<close>

definition taken :: "id_gen \<Rightarrow> (int \<times> nat) list \<Rightarrow> bool" where
  "taken g iss \<longleftrightarrow>
     (\<forall>(t, s) \<in> set iss. t \<le> lastTimestamp g \<and> (t = lastTimestamp g \<longrightarrow> bit (seqMask g) s))"

fun pcInv :: "id_gen \<Rightarrow> (int \<times> nat) list \<Rightarrow> gen_pc \<Rightarrow> bool" where
  "pcInv g iss (ClearMask now prev) = (prev = lastTimestamp g \<and> prev < now \<and> taken g iss)"
| "pcInv g iss (CasLast now prev) =
     (prev = lastTimestamp g \<and> prev < now \<and> (\<forall>(t, s) \<in> set iss. t \<le> lastTimestamp g))"
| "pcInv g iss (CheckLast now) = (now = lastTimestamp g \<and> taken g iss)"
| "pcInv g iss (LoadMask now) = (now = lastTimestamp g \<and> taken g iss)"
| "pcInv g iss (CasMask now m) = (now = lastTimestamp g \<and> m = seqMask g \<and> m \<noteq> NOT 0 \<and> taken g iss)"
| "pcInv g iss (Returned now sq) =
     (now = lastTimestamp g \<and> sq < 64 \<and> taken g ((now, sq) # iss) \<and> (now, sq) \<notin> set iss)"
| "pcInv g iss _ = taken g iss"

definition seqInv :: "gen_sys \<Rightarrow> bool" where
  "seqInv s \<longleftrightarrow> pcInv (shared s) (issued s) (pcs s 0) \<and> distinct (issued s) \<and>
     sorted (map fst (issued s)) \<and> (\<forall>(t, q) \<in> set (issued s). q < 64)"

lemma genStep_pcInv:
  assumes "pcInv g iss pc" "genStep clock g pc = (g', pc')"
  shows "pcInv g' iss pc'"
proof (cases pc)
  case (CasMask now m)
  with assms have inv: "now = lastTimestamp g" "m = seqMask g" "m \<noteq> NOT 0" "taken g iss"
    by auto
  note free = lowestFreeBit_seq [OF inv(3)]
  have g': "g' = g\<lparr>seqMask := Bit_Operations.set_bit (trailing_zeros64 (lowestFreeBit m)) m\<rparr>"
    "pc' = Returned now (trailing_zeros64 (lowestFreeBit m))"
    using assms CasMask inv free(3) by (simp_all add: Let_def)
  show ?thesis
    using inv free unfolding g' by (auto simp: taken_def bit_simps)
next
  case (CasLast now prev)
  with assms show ?thesis
    by (force simp: taken_def split: if_splits)
qed (use assms in \<open>auto simp: taken_def Let_def split: if_splits\<close>)

lemma sysStep_seqInv:
  assumes "seqInv s"
  shows "seqInv (sysStep s (0, clock))"
proof (cases "pcs s 0")
  case (Returned now sq)
  have "sorted (map fst (issued s) @ [now])"
    using assms Returned by (auto simp: seqInv_def taken_def sorted_append)
  with assms Returned show ?thesis
    by (auto simp: seqInv_def sysStep_def taken_def)
qed (use assms in \<open>auto simp: seqInv_def sysStep_def simp del: genStep.simps pcInv.simps
      split: prod.splits intro: genStep_pcInv\<close>)

lemma sysRun_snoc: "sysRun (sched @ [ev]) = sysStep (sysRun sched) ev"
  by (simp add: sysRun_def)

lemma sysRun_seqInv: "\<forall>(i, c) \<in> set sched. i = 0 \<Longrightarrow> seqInv (sysRun sched)"
proof (induction sched rule: rev_induct)
  case Nil
  then show ?case
    by (simp add: sysRun_def initSys_def seqInv_def taken_def NewGlobalIDGenerator_def)
next
  case (snoc ev sched)
  then show ?case
    by (auto simp: sysRun_snoc intro: sysStep_seqInv)
qed

lemma build_inj:
  assumes "buildIDWithSeq t u r l c (word_of_nat s) = buildIDWithSeq t' u r l c (word_of_nat s')"
    and "s < 64" "s' < 64"
    and "Epoch \<le> t" "t \<le> Epoch + (2 ^ 48 - 1)" "Epoch \<le> t'" "t' \<le> Epoch + (2 ^ 48 - 1)"
  shows "t = t' \<and> s = s'"
proof -
  have "(ucast (word_of_nat s AND 63 :: u64) :: u8) = ucast (word_of_nat s' AND 63 :: u64)"
    and ts: "uint (clampTimestamp t) = uint (clampTimestamp t')"
    using assms(1) build_extract_roundtrip [of t u r l c "word_of_nat s"]
      build_extract_roundtrip [of t' u r l c "word_of_nat s'"] by auto
  moreover have "(ucast (word_of_nat n AND 63 :: u64) :: u8) = word_of_nat n" if "n < 64" for n
  proof -
    have "(63 :: u64) = mask 6" by (simp add: mask_eq_exp_minus_1)
    then have "(word_of_nat n AND 63 :: u64) = take_bit 6 (word_of_nat n)"
      by (simp only: take_bit_eq_mask)
    also have "\<dots> = word_of_nat n"
      using that by (simp only: word_unat_eq_iff unsigned_take_bit_eq)
        (simp add: unat_of_nat take_bit_nat_eq_self)
    finally have "(word_of_nat n AND 63 :: u64) = word_of_nat n" .
    with that show ?thesis
      by (simp add: word_unat_eq_iff unat_of_nat unsigned_ucast_eq take_bit_nat_eq_self)
  qed
  ultimately have "(word_of_nat s :: u8) = word_of_nat s'"
    using assms by simp
  then have "s = s'"
    using assms by (simp add: word_unat_eq_iff unat_of_nat)
  with ts assms show ?thesis by (simp add: clamp_exact)
qed

text \<open>The range of the times matters: before the epoch every time is clamped to the same value, and so it is
  after the end of the 48-bit range.\<close>

lemma clamped_time:
  assumes "t < Epoch \<or> Epoch + (2 ^ 48 - 1) \<le> t" "\<bar>t - Epoch\<bar> < 2 ^ 63"
  shows "clampTimestamp t = MaxTimestamp"
proof -
  have m: "uint MaxTimestamp = 2 ^ 48 - 1" by (simp add: MaxTimestamp_def)
  have "(t - Epoch) mod 2 ^ 64 = (t - Epoch + 2 ^ 64) mod 2 ^ 64" by simp
  also have "\<dots> = (if t < Epoch then t - Epoch + 2 ^ 64 else t - Epoch)"
  proof (cases "t < Epoch")
    case True
    then have "(t - Epoch + 2 ^ 64) mod 2 ^ 64 = t - Epoch + 2 ^ 64" using assms(2) by (intro mod_pos_pos_trivial) auto
    with True show ?thesis by simp
  next
    case False
    then show ?thesis using assms(2) by simp
  qed
  finally have "(t - Epoch) mod 2 ^ 64 = (if t < Epoch then t - Epoch + 2 ^ 64 else t - Epoch)" .
  moreover have "uint (word_of_int (t - Epoch) :: u64) = (t - Epoch) mod 2 ^ 64"
    unfolding uint_word_of_int by simp
  ultimately have "uint (word_of_int (t - Epoch) :: u64) = (if t < Epoch then t - Epoch + 2 ^ 64 else t - Epoch)"
    by (simp only:)
  then have "uint MaxTimestamp \<le> uint (word_of_int (t - Epoch) :: u64)"
    using assms m by (auto split: if_splits)
  then have "MaxTimestamp \<le> (word_of_int (t - Epoch) :: u64)" by (simp only: word_le_def)
  then show ?thesis by (simp add: clampTimestamp_def Let_def)
qed

lemma clamped_ids_repeat:
  assumes "t < Epoch \<or> Epoch + (2 ^ 48 - 1) \<le> t" "\<bar>t - Epoch\<bar> < 2 ^ 63"
    and "t' < Epoch \<or> Epoch + (2 ^ 48 - 1) \<le> t'" "\<bar>t' - Epoch\<bar> < 2 ^ 63"
  shows "buildIDWithSeq t u r l c s = buildIDWithSeq t' u r l c s"
  unfolding buildIDWithSeq_def using clamped_time [OF assms(1,2)] clamped_time [OF assms(3,4)] by (simp only:)

text \<open>C2: used by one goroutine at a time, and as long as the times of the ids lie between the epoch and the end of
  the 48-bit range, the generator never repeats an id and the times of the ids never go back, also when the clock
  jumps back or stands still: the ids issued for one key are pairwise different.\<close>

theorem sequential_ids_unique:
  assumes "\<forall>(i, clock) \<in> set sched. i = 0 "
    and "\<forall>(t, s) \<in> set (issued (sysRun sched)). Epoch \<le> t \<and> t \<le> Epoch + (2 ^ 48 - 1)"
  shows "distinct (map (\<lambda>(t, s). buildIDWithSeq t u r l c (word_of_nat s)) (issued (sysRun sched)))
         \<and> sorted (map fst (issued (sysRun sched)))"
proof -
  have inv: "seqInv (sysRun sched)"
    using assms(1) by (intro sysRun_seqInv) auto
  then have "inj_on (\<lambda>(t, s). buildIDWithSeq t u r l c (word_of_nat s)) (set (issued (sysRun sched)))"
    using assms(2) by (auto simp: seqInv_def inj_on_def dest!: build_inj)
  with inv show ?thesis
    by (simp add: seqInv_def distinct_map)
qed

theorem sequential_ids_unique_witness:
  "let sched = replicate 18 (0, Epoch + 7) in
     issued (sysRun sched) = [(Epoch + 7, 0), (Epoch + 7, 1)] \<and>
     distinct (map (\<lambda>(t, s). buildIDWithSeq t 1 2 3 4 (word_of_nat s)) (issued (sysRun sched)))"
proof -
  let ?sched = "replicate 18 (0, Epoch + 7)"
  have run: "issued (sysRun ?sched) = [(Epoch + 7, 0), (Epoch + 7, 1)]"
    by code_simp
  have "distinct (map (\<lambda>(t, s). buildIDWithSeq t 1 2 3 4 (word_of_nat s)) (issued (sysRun ?sched)))"
    by (rule sequential_ids_unique [THEN conjunct1]) (simp_all only: run, simp_all)
  with run show ?thesis by (simp only: Let_def)
qed

section \<open>Several goroutines\<close>

text \<open>
  The comment in the source calls the clearing of the bitmap harmless when the following
  compare-and-swap fails.  It is not: the store of 0 can come after another goroutine has taken
  the millisecond and its first sequence numbers.
\<close>

definition raceSchedule :: "(nat \<times> int) list" where
  "raceSchedule =
     replicate 2 (1, Epoch + 7) @ replicate 8 (0, Epoch + 7) @ replicate 8 (1, Epoch + 7)"

text \<open>With two goroutines the generator can return the same time and sequence number twice,
  and so the same 16 bytes for the same key, although the clock stands still at one
  millisecond.\<close>

theorem concurrent_ids_can_repeat:
  "issued (sysRun raceSchedule) = [(Epoch + 7, 0), (Epoch + 7, 0)]"
  by code_simp

section \<open>Calls return\<close>

fun liveInv :: "int \<Rightarrow> id_gen \<Rightarrow> gen_pc \<Rightarrow> bool" where
  "liveInv t g (LoadLast now) = (lastTimestamp g < t \<and> now < t)"
| "liveInv t g (ClearMask now prev) = (prev = lastTimestamp g \<and> prev < now \<and> now < t)"
| "liveInv t g (CasLast now prev) = (prev = lastTimestamp g \<and> prev < now \<and> now < t)"
| "liveInv t g (CheckLast now) = (now = lastTimestamp g \<and> now < t)"
| "liveInv t g (LoadMask now) = (now = lastTimestamp g \<and> now < t)"
| "liveInv t g (WaitTick now) = (now = lastTimestamp g \<and> now < t)"
| "liveInv t g (CasMask now m) = (now = lastTimestamp g \<and> m = seqMask g \<and> now < t)"
| "liveInv t g _ = (lastTimestamp g < t)"

lemma genStep_liveInv:
  "liveInv t g pc \<Longrightarrow> clock < t \<Longrightarrow> genStep clock g pc = (g', pc') \<Longrightarrow> liveInv t g' pc'"
  by (cases pc) (auto simp: Let_def split: if_splits)

lemma genRun_Cons: "genRun (x # ts) g pc = (case genStep x g pc of (g', pc') \<Rightarrow> genRun ts g' pc')"
  by (cases pc) auto

lemma genRun_fresh_clock:
  assumes "liveInv t g pc"
  shows "\<exists>r. genRun (replicate 12 t) g pc = Some r"
proof -
  have "replicate 12 t = [t, t, t, t, t, t, t, t, t, t, t, t]"
    by (simp add: eval_nat_numeral)
  with assms show ?thesis
    by (cases pc) (simp_all add: genRun_Cons Let_def)
qed

lemma genRun_live:
  "liveInv t g pc \<Longrightarrow> \<forall>x \<in> set ts. x < t \<Longrightarrow> \<exists>r. genRun (ts @ replicate 12 t) g pc = Some r"
proof (induction ts arbitrary: g pc)
  case Nil
  then show ?case
    unfolding append_Nil by (intro genRun_fresh_clock)
next
  case (Cons x ts)
  obtain g' pc' where st: "genStep x g pc = (g', pc')" by fastforce
  with Cons.prems have "liveInv t g' pc'"
    by (auto intro: genStep_liveInv)
  with Cons.IH Cons.prems have "\<exists>r. genRun (ts @ replicate 12 t) g' pc' = Some r"
    by simp
  with st show ?case by (cases pc) auto
qed

text \<open>A call always returns: whatever values the clock showed while the call was running
  (set back, standing still, the 64 numbers of a millisecond used up), once it shows a later
  time than any before, twelve more atomic steps are enough.\<close>

theorem GenerateGlobalID_returns:
  assumes "lastTimestamp g < t" and "\<forall>x \<in> set ts. x < t"
  shows "\<exists>g' i. GenerateGlobalID (ts @ replicate 12 t) g u r l c = Some (g', i) \<and> wf_id i"
proof -
  have "liveInv t g ReadClock" using assms(1) by simp
  from genRun_live [OF this assms(2)] show ?thesis
    by (auto simp: GenerateGlobalID_def)
qed

theorem GenerateGlobalID_returns_witness:
  "\<exists>g' i. GenerateGlobalID ([Epoch - 3, Epoch] @ replicate 12 (Epoch + 1))
     \<lparr>lastTimestamp = Epoch, seqMask = NOT 0\<rparr> 1 2 3 0 = Some (g', i) \<and> wf_id i"
  by (rule GenerateGlobalID_returns) simp_all

end
