(* ===== verification/Envelope.thy ===== *)
theory Envelope
  imports GlobalId
begin

text \<open>
  The wire messages (\<^verbatim>\<open>message/message.proto\<close>, whose Go structs are generated) and the
  codec of \<^verbatim>\<open>message/codec.go\<close>: validation of envelopes and of each message kind,
  serialisation, construction of envelopes, extraction of the addressing fields.

  The protobuf library is not part of the repository: its \<^verbatim>\<open>Marshal\<close> and
  \<^verbatim>\<open>Unmarshal\<close> are the parameters \<open>marshal\<close> and \<open>unmarshal\<close> of the functions that call
  them (\<open>None\<close> is an error return).  The pointer inside a oneof is never nil: the validators,
  which test for nil, take an option, and the dispatch passes \<open>Some\<close>.  \<open>now\<close> is the wall clock
  in Unix milliseconds.
\<close>

section \<open>Messages\<close>

datatype AllocateRoomIdStatus = ALLOCATE_ROOM_ID_SUCCESS | ALLOCATE_ROOM_ID_FAILED
  | ALLOCATE_ROOM_ID_SERVICE_UNAVAILABLE
datatype CreateRoomStatus = CREATE_ROOM_SUCCESS | CREATE_ROOM_FAILED | CREATE_ROOM_ROOM_EXISTS
  | CREATE_ROOM_INVALID_PARAMS
datatype JoinRoomStatus = JOIN_ROOM_SUCCESS | JOIN_ROOM_FAILED | JOIN_ROOM_ROOM_NOT_FOUND
  | JOIN_ROOM_ROOM_FULL | JOIN_ROOM_WRONG_PASSWORD | JOIN_ROOM_ALREADY_IN_ROOM
datatype LeaveRoomStatus = LEAVE_ROOM_SUCCESS | LEAVE_ROOM_FAILED | LEAVE_ROOM_NOT_IN_ROOM
datatype CloseRoomStatus = CLOSE_ROOM_SUCCESS | CLOSE_ROOM_FAILED | CLOSE_ROOM_NOT_OWNER
  | CLOSE_ROOM_ROOM_NOT_FOUND
datatype ChatMessageStatus = CHAT_MESSAGE_SUCCESS | CHAT_MESSAGE_FAILED
  | CHAT_MESSAGE_USER_NOT_IN_ROOM | CHAT_MESSAGE_ROOM_NOT_FOUND | CHAT_MESSAGE_ROOM_CLOSED
  | CHAT_MESSAGE_CONTENT_TOO_LONG
datatype ContentType = MESSAGE_TYPE_TEXT | MESSAGE_TYPE_IMAGE | MESSAGE_TYPE_FILE
  | MESSAGE_TYPE_VOICE | MESSAGE_TYPE_VIDEO
datatype RoomMessageFetchStatus = ROOM_MESSAGE_FETCH_SUCCESS | ROOM_MESSAGE_FETCH_FAILED
  | ROOM_MESSAGE_FETCH_ROOM_NOT_FOUND | ROOM_MESSAGE_FETCH_ACCESS_DENIED
datatype MessageStatus = MESSAGE_STATUS_UNKNOWN | MESSAGE_STATUS_PENDING
  | MESSAGE_STATUS_PROCESSING | MESSAGE_STATUS_SUCCESS | MESSAGE_STATUS_FAILED
  | MESSAGE_STATUS_TIMEOUT

record CreateRoomMsg =
  cr_room_id :: u64
  cr_name :: string
  cr_max_members :: u32
  cr_password :: string

record ChatMessageMsg =
  cm_content :: string
  cm_type :: ContentType
  cm_reply_to :: u64

record MessageFetchRequestMsg =
  mfr_message_id :: bytes
  mfr_timestamp :: u64

record MessageContentMsg =
  mc_message_id :: bytes
  mc_room_id :: u64
  mc_user_id :: u64
  mc_content :: string
  mc_type :: ContentType
  mc_reply_to :: u64
  mc_timestamp :: u64
  mc_status :: MessageStatus

record MessageFetchResponseMsg =
  mfs_message_id :: bytes
  mfs_exists :: bool
  mfs_status :: MessageStatus
  mfs_reason :: string
  mfs_processed_at :: u64
  mfs_content :: "MessageContentMsg option"

record RoomMessageFetchRequestMsg =
  rfr_room_id :: u64
  rfr_before_message_id :: u64
  rfr_limit :: u32
  rfr_since_timestamp :: u64

record RoomMessageFetchResponseMsg =
  rfs_room_id :: u64
  rfs_messages :: "MessageContentMsg list"
  rfs_has_more :: bool
  rfs_next_before_id :: u64
  rfs_status :: RoomMessageFetchStatus
  rfs_reason :: string

datatype RoomStatusMsg = ROOM_STATUS_OPEN | ROOM_STATUS_CLOSED | ROOM_STATUS_FULL

record RoomInfoMsg =
  ri_room_id :: u64
  ri_name :: string
  ri_creator_id :: u64
  ri_max_members :: u32
  ri_current_members :: u32
  ri_created_at :: u64
  ri_status :: RoomStatusMsg
  ri_member_ids :: "u64 list"
  ri_password :: string

text \<open>The oneof of \<^verbatim>\<open>MessageEnvelope\<close>, one constructor per alternative.\<close>

datatype message =
    AllocateRoomId
  | AllocateRoomIdAck u64 AllocateRoomIdStatus string
  | CreateRoom CreateRoomMsg
  | CreateRoomAck u64 CreateRoomStatus string "string list"
  | JoinRoom string
  | JoinRoomAck u64 JoinRoomStatus string "RoomInfoMsg option" "string list"
  | LeaveRoom
  | LeaveRoomAck u64 LeaveRoomStatus string
  | CloseRoom
  | CloseRoomAck u64 CloseRoomStatus string
  | ChatMessage ChatMessageMsg
  | ChatMessageAck u64 ChatMessageStatus string
  | MessageFetchRequest MessageFetchRequestMsg
  | MessageFetchResponse MessageFetchResponseMsg
  | RoomMessageFetchRequest RoomMessageFetchRequestMsg
  | RoomMessageFetchResponse RoomMessageFetchResponseMsg
  | Heartbeat u64
  | HeartbeatAck u64 u64

record envelope =
  ConnectionSeqId :: u64
  MessageId :: bytes
  Message :: "message option"

section \<open>Validation\<close>

datatype codec_error =
    EnvelopeIsNil
  | ConnectionSeqIdRequired
  | InvalidMessageIdLength nat
  | InvalidMessageIdFormat id_error
  | InvalidMessageId
  | MessageContentRequired
  | MessageIsNil
  | RoomIdRequired
  | RoomNameRequired
  | MaxMembersZero
  | ContentRequired
  | ContentTooLong
  | FetchIdLength
  | LimitOutOfRange
  | TimestampRequired
  | HeartbeatInFuture
  | HeartbeatTooOld
  | EnvelopeValidationFailed codec_error
  | MarshalFailed
  | DataIsEmpty
  | UnmarshalFailed
  | DeserializedValidationFailed codec_error
  | UnsupportedMessageType

definition ValidateEnvelope :: "int \<Rightarrow> envelope option \<Rightarrow> codec_error + unit" where
  "ValidateEnvelope now envp =
     (case envp of
        None \<Rightarrow> Inl EnvelopeIsNil
      | Some e \<Rightarrow>
          if ConnectionSeqId e = 0 then Inl ConnectionSeqIdRequired
          else if length (MessageId e) \<noteq> GlobalIDLength
               then Inl (InvalidMessageIdLength (length (MessageId e)))
          else case FromBytes (MessageId e) of
                 Inl err \<Rightarrow> Inl (InvalidMessageIdFormat err)
               | Inr globalID \<Rightarrow>
                   if \<not> IsValid now globalID then Inl InvalidMessageId
                   else case Message e of
                          None \<Rightarrow> Inl MessageContentRequired
                        | Some _ \<Rightarrow> Inr ())"

definition validateCreateRoom :: "CreateRoomMsg option \<Rightarrow> codec_error + unit" where
  "validateCreateRoom m =
     (case m of
        None \<Rightarrow> Inl MessageIsNil
      | Some msg \<Rightarrow>
          if cr_room_id msg = 0 then Inl RoomIdRequired
          else if cr_name msg = [] then Inl RoomNameRequired
          else if cr_max_members msg = 0 then Inl MaxMembersZero
          else Inr ())"

definition validateJoinRoom :: "string option \<Rightarrow> codec_error + unit" where
  "validateJoinRoom m = (case m of None \<Rightarrow> Inl MessageIsNil | Some _ \<Rightarrow> Inr ())"

definition validateChatMessage :: "ChatMessageMsg option \<Rightarrow> codec_error + unit" where
  "validateChatMessage m =
     (case m of
        None \<Rightarrow> Inl MessageIsNil
      | Some msg \<Rightarrow>
          if cm_content msg = [] then Inl ContentRequired
          else if length (cm_content msg) > 4096 then Inl ContentTooLong
          else Inr ())"

definition validateMessageFetchRequest :: "MessageFetchRequestMsg option \<Rightarrow> codec_error + unit" where
  "validateMessageFetchRequest m =
     (case m of
        None \<Rightarrow> Inl MessageIsNil
      | Some msg \<Rightarrow>
          if length (mfr_message_id msg) \<noteq> GlobalIDLength then Inl FetchIdLength else Inr ())"

definition validateRoomMessageFetchRequest ::
    "RoomMessageFetchRequestMsg option \<Rightarrow> codec_error + unit" where
  "validateRoomMessageFetchRequest m =
     (case m of
        None \<Rightarrow> Inl MessageIsNil
      | Some msg \<Rightarrow>
          if rfr_room_id msg = 0 then Inl RoomIdRequired
          else if rfr_limit msg = 0 \<or> rfr_limit msg > 100 then Inl LimitOutOfRange
          else Inr ())"

text \<open>The comparisons of the heartbeat check are on \<^verbatim>\<open>uint64\<close>, where \<open>+\<close> wraps.\<close>

definition validateHeartbeat :: "int \<Rightarrow> u64 option \<Rightarrow> codec_error + unit" where
  "validateHeartbeat clock m =
     (case m of
        None \<Rightarrow> Inl MessageIsNil
      | Some timestamp \<Rightarrow>
          if timestamp = 0 then Inl TimestampRequired
          else let now = word_of_int clock :: u64
               in if timestamp > now + 60 * 1000 then Inl HeartbeatInFuture
                  else if now > timestamp + 60 * 1000 then Inl HeartbeatTooOld
                  else Inr ())"

definition ValidateSpecificMessage :: "int \<Rightarrow> envelope option \<Rightarrow> codec_error + unit" where
  "ValidateSpecificMessage now envp =
     (case ValidateEnvelope now envp of
        Inl err \<Rightarrow> Inl err
      | Inr _ \<Rightarrow>
          (case Option.bind envp Message of
             Some (CreateRoom msg) \<Rightarrow> validateCreateRoom (Some msg)
           | Some (JoinRoom msg) \<Rightarrow> validateJoinRoom (Some msg)
           | Some (ChatMessage msg) \<Rightarrow> validateChatMessage (Some msg)
           | Some (MessageFetchRequest msg) \<Rightarrow> validateMessageFetchRequest (Some msg)
           | Some (RoomMessageFetchRequest msg) \<Rightarrow> validateRoomMessageFetchRequest (Some msg)
           | Some (Heartbeat msg) \<Rightarrow> validateHeartbeat now (Some msg)
           | _ \<Rightarrow> Inr ()))"

section \<open>Serialisation\<close>

definition Serialize ::
    "(envelope \<Rightarrow> bytes option) \<Rightarrow> int \<Rightarrow> envelope option \<Rightarrow> codec_error + bytes" where
  "Serialize marshal now envp =
     (case ValidateEnvelope now envp of
        Inl err \<Rightarrow> Inl (EnvelopeValidationFailed err)
      | Inr _ \<Rightarrow>
          (case Option.bind envp marshal of
             None \<Rightarrow> Inl MarshalFailed
           | Some data \<Rightarrow> Inr data))"

definition Deserialize ::
    "(bytes \<Rightarrow> envelope option) \<Rightarrow> int \<Rightarrow> bytes \<Rightarrow> codec_error + envelope" where
  "Deserialize unmarshal now data =
     (if length data = 0 then Inl DataIsEmpty
      else case unmarshal data of
             None \<Rightarrow> Inl UnmarshalFailed
           | Some e \<Rightarrow>
               (case ValidateEnvelope now (Some e) of
                  Inl err \<Rightarrow> Inl (DeserializedValidationFailed err)
                | Inr _ \<Rightarrow> Inr e))"

text \<open>The \<^verbatim>\<open>interface{}\<close> argument: one of the message structs, or anything else.\<close>

datatype content = Known message | Unknown string

text \<open>\<open>None\<close> when the clock values given to the id generator run out before it returns.\<close>

definition CreateEnvelope ::
    "int list \<Rightarrow> id_gen \<Rightarrow> u32 \<Rightarrow> u32 \<Rightarrow> u8 \<Rightarrow> u64 \<Rightarrow> content
      \<Rightarrow> (id_gen \<times> (codec_error + envelope)) option" where
  "CreateEnvelope ticks g userID roomID loginID connSeqID c =
     map_option
       (\<lambda>(g', globalID).
          (g', case c of
                 Known msg \<Rightarrow> Inr \<lparr>ConnectionSeqId = connSeqID, MessageId = ToBytes globalID,
                                   Message = Some msg\<rparr>
               | Unknown _ \<Rightarrow> Inl UnsupportedMessageType))
       (GenerateGlobalID ticks g userID roomID loginID 0)"

definition ExtractMessageInfo ::
    "int \<Rightarrow> envelope option \<Rightarrow> codec_error + (u32 \<times> u32 \<times> u8 \<times> int)" where
  "ExtractMessageInfo now envp =
     (case ValidateEnvelope now envp of
        Inl err \<Rightarrow> Inl err
      | Inr _ \<Rightarrow>
          (case envp of
             None \<Rightarrow> Inl EnvelopeIsNil
           | Some e \<Rightarrow>
               (case FromBytes (MessageId e) of
                  Inl err \<Rightarrow> Inl (InvalidMessageIdFormat err)
                | Inr i \<Rightarrow> Inr (ExtractUserID i, ExtractRoomID i, ExtractLoginID i, ExtractTimestamp i))))"

section \<open>What validation guarantees\<close>

lemma ValidateEnvelope_ok_iff:
  "ValidateEnvelope now (Some e) = Inr () \<longleftrightarrow>
     ConnectionSeqId e \<noteq> 0 \<and> length (MessageId e) = GlobalIDLength \<and>
     IsValid now (GlobalID (MessageId e)) \<and> Message e \<noteq> None"
  by (auto simp: ValidateEnvelope_def FromBytes_def split: option.splits)

lemma IsZero_zero_bytes: "wf_id i \<Longrightarrow> IsZero i \<Longrightarrow> ExtractTimestamp i = Epoch"
proof -
  assume wf: "wf_id i" and z: "IsZero i"
  have "\<forall>b \<in> set (slice 0 6 (id_bytes i)). b = 0"
    using z by (auto simp: IsZero_def list_all_iff slice_def dest: in_set_takeD)
  moreover have "be_dec bs = 0" if "\<forall>b \<in> set bs. b = 0" for bs
    using that by (induction bs rule: rev_induct) auto
  ultimately show ?thesis by (simp add: ExtractTimestamp_bytes wf)
qed

text \<open>The validity window.  A message id passes validation exactly when it is not all zero
  and its time lies between 30 days before and one minute after the wall clock.\<close>

theorem IsValid_window:
  "IsValid now i \<longleftrightarrow>
     \<not> IsZero i \<and> now - 30 * 24 * 60 * 60 * 1000 \<le> ExtractTimestamp i \<and>
     ExtractTimestamp i \<le> now + 60 * 1000"
  by (auto simp: IsValid_def Let_def)

lemma u64_heartbeat_arith:
  assumes "0 \<le> clock" "clock < 2 ^ 64 - 60000"
  shows "uint (word_of_int clock + 60 * 1000 :: u64) = clock + 60000"
    "uint (word_of_int clock :: u64) = clock"
  using assms by (simp_all add: uint_word_of_int_u64 uint_word_ariths take_bit_int_eq_self)

text \<open>The heartbeat check accepts exactly the timestamps within a minute of the wall clock;
  the wrap-around of the unsigned sums never lets another one through.\<close>

theorem validateHeartbeat_window:
  assumes "0 < clock" "clock < 2 ^ 63"
  shows "validateHeartbeat clock (Some ts) = Inr () \<longleftrightarrow>
           ts \<noteq> 0 \<and> \<bar>uint ts - clock\<bar> \<le> 60000"
proof -
  have c: "uint (word_of_int clock + 60 * 1000 :: u64) = clock + 60000"
    "uint (word_of_int clock :: u64) = clock"
    by (rule u64_heartbeat_arith; use assms in simp)+
  have ts: "uint (ts + 60 * 1000) = uint ts + 60000" if "uint ts \<le> clock + 60000"
    using that assms uint_ge_0 [of ts]
    by (simp add: uint_word_ariths take_bit_int_eq_self)
  show ?thesis
  proof (cases "uint ts \<le> clock + 60000")
    case True
    with ts c show ?thesis
      by (auto simp: validateHeartbeat_def Let_def word_less_def)
  next
    case False
    with c show ?thesis
      by (auto simp: validateHeartbeat_def Let_def word_less_def)
  qed
qed

theorem validateHeartbeat_window_witness:
  "validateHeartbeat 1704067200000 (Some 1704067259999) = Inr ()"
  by (subst validateHeartbeat_window) simp_all

text \<open>A message that was serialised is read back unchanged, as long as the protobuf library
  restores what it wrote and the id is still inside its validity window; and what
  \<^verbatim>\<open>Deserialize\<close> accepts is always a valid envelope.\<close>

theorem Serialize_Deserialize:
  assumes "\<forall>e d. marshal e = Some d \<longrightarrow> d \<noteq> [] \<and> unmarshal d = Some e"
    and "Serialize marshal now (Some e) = Inr data"
    and "IsValid later (GlobalID (MessageId e))"
  shows "Deserialize unmarshal later data = Inr e"
proof -
  have "ValidateEnvelope now (Some e) = Inr ()" "marshal e = Some data"
    using assms(2) by (auto simp: Serialize_def split: sum.splits option.splits)
  with assms(1,3) show ?thesis
    by (auto simp: Deserialize_def ValidateEnvelope_ok_iff split: sum.splits)
       (metis ValidateEnvelope_ok_iff option.distinct(1) option.exhaust sum.distinct(1))
qed

text \<open>A protobuf library that knows one message is enough to see the hypotheses hold.\<close>

definition sampleEnvelope :: envelope where
  "sampleEnvelope = \<lparr>ConnectionSeqId = 7,
     MessageId = ToBytes (buildIDWithSeq (Epoch + 5) 1 2 3 0 4), Message = Some (Heartbeat 9)\<rparr>"

lemma sample_valid: "IsValid (Epoch + 5) (GlobalID (MessageId sampleEnvelope))"
proof -
  let ?i = "buildIDWithSeq (Epoch + 5) 1 2 3 0 4"
  have "ExtractTimestamp ?i = Epoch + 5"
    by (simp add: ExtractTimestamp_build clamp_exact)
  moreover from this have "\<not> IsZero ?i"
    using IsZero_zero_bytes [of ?i] by auto
  ultimately show ?thesis
    by (simp add: IsValid_window sampleEnvelope_def ToBytes_def)
qed

theorem Serialize_Deserialize_witness:
  "\<exists>data. Serialize (\<lambda>e. if e = sampleEnvelope then Some [1] else None) (Epoch + 5) (Some sampleEnvelope)
            = Inr data \<and>
          Deserialize (\<lambda>d. if d = [1] then Some sampleEnvelope else None) (Epoch + 5) data
            = Inr sampleEnvelope"
proof -
  let ?m = "\<lambda>e. if e = sampleEnvelope then Some [1 :: u8] else None"
  let ?u = "\<lambda>d. if d = [1 :: u8] then Some sampleEnvelope else None"
  have "ValidateEnvelope (Epoch + 5) (Some sampleEnvelope) = Inr ()"
    unfolding ValidateEnvelope_ok_iff using sample_valid
    by (simp add: sampleEnvelope_def ToBytes_def wf_buildID [unfolded wf_id_def])
  then have s: "Serialize ?m (Epoch + 5) (Some sampleEnvelope) = Inr [1]"
    by (simp add: Serialize_def)
  have "Deserialize ?u (Epoch + 5) [1] = Inr sampleEnvelope"
    by (rule Serialize_Deserialize [OF _ s sample_valid]) simp
  with s show ?thesis by blast
qed

section \<open>Created envelopes\<close>

fun pcClock :: "gen_pc \<Rightarrow> int set" where
  "pcClock ReadClock = {}"
| "pcClock (LoadLast now) = {now}"
| "pcClock (ClearMask now prev) = {now}"
| "pcClock (CasLast now prev) = {now}"
| "pcClock (CheckLast now) = {now}"
| "pcClock (LoadMask now) = {now}"
| "pcClock (WaitTick now) = {now}"
| "pcClock (CasMask now m) = {now}"
| "pcClock (Returned now sq) = {now}"

lemma genStep_pcClock: "genStep x g pc = (g', pc') \<Longrightarrow> pcClock pc' \<subseteq> insert x (pcClock pc)"
  by (cases pc) (auto simp: Let_def split: if_splits)

lemma genRun_clock:
  "genRun ts g pc = Some (g', t, s) \<Longrightarrow> t \<in> set ts \<union> pcClock pc"
proof (induction ts arbitrary: g pc)
  case Nil
  then show ?case by (cases pc) auto
next
  case (Cons x ts)
  obtain g1 pc1 where st: "genStep x g pc = (g1, pc1)" by fastforce
  with Cons.prems have "genRun ts g1 pc1 = Some (g', t, s)"
    by (simp add: genRun_Cons)
  with Cons.IH have "t \<in> set ts \<union> pcClock pc1" by blast
  with genStep_pcClock [OF st] show ?case by auto
qed

text \<open>An envelope made by \<^verbatim>\<open>CreateEnvelope\<close> passes \<^verbatim>\<open>ValidateEnvelope\<close> when the
  sequence number is not 0 and the clock it was made with is recent, and
  \<^verbatim>\<open>ExtractMessageInfo\<close> returns the user, the room, the low four bits of the login and the
  time it was made with.\<close>

theorem CreateEnvelope_valid:
  assumes "CreateEnvelope ticks g userID roomID loginID connSeqID (Known msg) = Some (g', r)"
    and "connSeqID \<noteq> 0"
    and "\<forall>t \<in> set ticks. Epoch < t \<and> t < Epoch + 2 ^ 48 \<and> t \<le> now \<and> now - t \<le> 30 * 24 * 60 * 60 * 1000"
  shows "\<exists>e t. r = Inr e \<and> Message e = Some msg \<and> t \<in> set ticks \<and>
           ValidateEnvelope now (Some e) = Inr () \<and>
           ExtractMessageInfo now (Some e) = Inr (userID, roomID, loginID AND 15, t)"
proof -
  obtain t s where run: "genRun ticks g ReadClock = Some (g', t, s)"
    and r: "r = Inr \<lparr>ConnectionSeqId = connSeqID,
              MessageId = ToBytes (buildIDWithSeq t userID roomID loginID 0 (word_of_nat s)),
              Message = Some msg\<rparr>" (is "r = Inr ?e")
    using assms(1) by (auto simp: CreateEnvelope_def GenerateGlobalID_def)
  let ?i = "buildIDWithSeq t userID roomID loginID 0 (word_of_nat s)"
  have t: "t \<in> set ticks"
    using genRun_clock [OF run] by simp
  with assms(3) have b: "Epoch < t" "t < Epoch + 2 ^ 48" "t \<le> now" "now - t \<le> 30 * 24 * 60 * 60 * 1000"
    by auto
  then have ts: "ExtractTimestamp ?i = t"
    by (simp add: ExtractTimestamp_build clamp_exact)
  then have "\<not> IsZero ?i"
    using IsZero_zero_bytes [of ?i] b by auto
  then have v: "ValidateEnvelope now (Some ?e) = Inr ()"
    using ts b assms(2) wf_buildID [of t userID roomID loginID 0 "word_of_nat s", unfolded wf_id_def]
    by (simp add: ValidateEnvelope_ok_iff IsValid_window ToBytes_def)
  have "ParseGlobalID (MessageId ?e) = Inr (t, userID, roomID, loginID AND 15,
          ucast (word_of_nat s AND 63 :: u64), 0)"
    using build_extract_roundtrip [of t userID roomID loginID 0 "word_of_nat s"] ts
    by (simp add: ExtractTimestamp_build)
  then have "ExtractMessageInfo now (Some ?e) = Inr (userID, roomID, loginID AND 15, t)"
    unfolding ExtractMessageInfo_def v by (auto simp: ParseGlobalID_def split: sum.splits)
  with r t v show ?thesis by (intro exI [of _ ?e] exI [of _ t]) simp
qed

theorem CreateEnvelope_valid_witness:
  "\<exists>g' e. CreateEnvelope (replicate 7 (Epoch + 9)) NewGlobalIDGenerator 11 22 3 1 (Known (Heartbeat 5))
            = Some (g', Inr e) \<and> ValidateEnvelope (Epoch + 10) (Some e) = Inr ()"
proof -
  let ?c = "CreateEnvelope (replicate 7 (Epoch + 9)) NewGlobalIDGenerator 11 22 3 1 (Known (Heartbeat 5))"
  have "?c \<noteq> None"
    by (simp add: CreateEnvelope_def GenerateGlobalID_def genRun_Cons eval_nat_numeral Let_def
        NewGlobalIDGenerator_def Epoch_def)
  then obtain g' r where c: "?c = Some (g', r)" by auto
  show ?thesis
    using CreateEnvelope_valid [OF c, of "Epoch + 10"] c by auto
qed

end
