(* ===== verification/Classifier.thy ===== *)
theory Classifier
  imports Envelope
begin

text \<open>
  \<^verbatim>\<open>router/message_classifier.go\<close>: which messages the router persists.  The classifier
  keeps two counters; its type switches are one case per constructor of the oneof.
\<close>

type_synonym MessageType = int

definition MessageTypeChatMessage :: MessageType where "MessageTypeChatMessage = 0"
definition MessageTypeSystemMessage :: MessageType where "MessageTypeSystemMessage = 1"

record classifier =
  chatMessagesClassified :: i64
  systemMessagesClassified :: i64

definition NewMessageClassifier :: classifier where
  "NewMessageClassifier = \<lparr>chatMessagesClassified = 0, systemMessagesClassified = 0\<rparr>"

definition countChat :: "classifier \<Rightarrow> classifier \<times> MessageType" where
  "countChat mc = (mc\<lparr>chatMessagesClassified := chatMessagesClassified mc + 1\<rparr>, MessageTypeChatMessage)"

definition countSystem :: "classifier \<Rightarrow> classifier \<times> MessageType" where
  "countSystem mc = (mc\<lparr>systemMessagesClassified := systemMessagesClassified mc + 1\<rparr>, MessageTypeSystemMessage)"

definition content_of :: "envelope option \<Rightarrow> message option" where
  "content_of envp = (case envp of None \<Rightarrow> None | Some e \<Rightarrow> Message e)"

definition ClassifyMessage :: "classifier \<Rightarrow> envelope option \<Rightarrow> classifier \<times> MessageType" where
  "ClassifyMessage mc envp =
     (case content_of envp of
        None \<Rightarrow> (mc, MessageTypeSystemMessage)
      | Some msg \<Rightarrow>
          (case msg of
             ChatMessage _ \<Rightarrow> countChat mc
           | CreateRoom _ \<Rightarrow> countChat mc
           | JoinRoom _ \<Rightarrow> countChat mc
           | LeaveRoom \<Rightarrow> countChat mc
           | CloseRoom \<Rightarrow> countChat mc
           | Heartbeat _ \<Rightarrow> countSystem mc
           | HeartbeatAck _ _ \<Rightarrow> countSystem mc
           | MessageFetchRequest _ \<Rightarrow> countSystem mc
           | MessageFetchResponse _ \<Rightarrow> countSystem mc
           | RoomMessageFetchRequest _ \<Rightarrow> countSystem mc
           | RoomMessageFetchResponse _ \<Rightarrow> countSystem mc
           | ChatMessageAck _ _ _ \<Rightarrow> countSystem mc
           | CreateRoomAck _ _ _ _ \<Rightarrow> countSystem mc
           | JoinRoomAck _ _ _ _ _ \<Rightarrow> countSystem mc
           | LeaveRoomAck _ _ _ \<Rightarrow> countSystem mc
           | CloseRoomAck _ _ _ \<Rightarrow> countSystem mc
           | AllocateRoomId \<Rightarrow> countSystem mc
           | AllocateRoomIdAck _ _ _ \<Rightarrow> countSystem mc))"

definition ShouldPersistToKafka :: "classifier \<Rightarrow> envelope option \<Rightarrow> classifier \<times> bool" where
  "ShouldPersistToKafka mc envp =
     (let (mc', t) = ClassifyMessage mc envp in (mc', t = MessageTypeChatMessage))"

definition ShouldPersistToRedis :: "envelope option \<Rightarrow> bool" where
  "ShouldPersistToRedis envp = True"

definition GetMessageTypeString :: "MessageType \<Rightarrow> string" where
  "GetMessageTypeString t =
     (if t = MessageTypeChatMessage then ''CHAT_MESSAGE''
      else if t = MessageTypeSystemMessage then ''SYSTEM_MESSAGE''
      else ''UNKNOWN'')"

definition GetClassificationReason :: "envelope option \<Rightarrow> string" where
  "GetClassificationReason envp =
     (case content_of envp of
        None \<Rightarrow> ''nil envelope or message''
      | Some msg \<Rightarrow>
          (case msg of
             ChatMessage _ \<Rightarrow> ''user chat message - needs persistence for compliance and history''
           | CreateRoom _ \<Rightarrow> ''room creation - part of chat session history''
           | JoinRoom _ \<Rightarrow> ''room join - part of chat session history''
           | LeaveRoom \<Rightarrow> ''room leave - part of chat session history''
           | CloseRoom \<Rightarrow> ''room close - part of chat session history''
           | Heartbeat _ \<Rightarrow> ''heartbeat - temporary system signal, no persistence needed''
           | HeartbeatAck _ _ \<Rightarrow> ''heartbeat ack - temporary system response''
           | MessageFetchRequest _ \<Rightarrow> ''message fetch request - temporary query operation''
           | MessageFetchResponse _ \<Rightarrow> ''message fetch response - temporary query result''
           | RoomMessageFetchRequest _ \<Rightarrow> ''room message fetch request - temporary query operation''
           | RoomMessageFetchResponse _ \<Rightarrow> ''room message fetch response - temporary query result''
           | ChatMessageAck _ _ _ \<Rightarrow> ''ack message - temporary confirmation, no persistence needed''
           | CreateRoomAck _ _ _ _ \<Rightarrow> ''ack message - temporary confirmation, no persistence needed''
           | JoinRoomAck _ _ _ _ _ \<Rightarrow> ''ack message - temporary confirmation, no persistence needed''
           | LeaveRoomAck _ _ _ \<Rightarrow> ''ack message - temporary confirmation, no persistence needed''
           | CloseRoomAck _ _ _ \<Rightarrow> ''ack message - temporary confirmation, no persistence needed''
           | AllocateRoomId \<Rightarrow> ''room id allocation - system operation, no persistence needed''
           | AllocateRoomIdAck _ _ _ \<Rightarrow> ''room id allocation ack - system response, no persistence needed''))"

text \<open>The two counters of \<^verbatim>\<open>GetStats\<close> and their sum; the ratio, a float, is left out.\<close>

definition GetStats :: "classifier \<Rightarrow> i64 \<times> i64 \<times> i64" where
  "GetStats mc = (chatMessagesClassified mc, systemMessagesClassified mc,
                  chatMessagesClassified mc + systemMessagesClassified mc)"

definition IsRoomManagementMessage :: "envelope option \<Rightarrow> bool" where
  "IsRoomManagementMessage envp =
     (case content_of envp of
        Some (CreateRoom _) \<Rightarrow> True | Some (JoinRoom _) \<Rightarrow> True
      | Some LeaveRoom \<Rightarrow> True | Some CloseRoom \<Rightarrow> True | _ \<Rightarrow> False)"

definition IsChatContentMessage :: "envelope option \<Rightarrow> bool" where
  "IsChatContentMessage envp = (case content_of envp of Some (ChatMessage _) \<Rightarrow> True | _ \<Rightarrow> False)"

definition IsSystemQueryMessage :: "envelope option \<Rightarrow> bool" where
  "IsSystemQueryMessage envp =
     (case content_of envp of
        Some (MessageFetchRequest _) \<Rightarrow> True | Some (RoomMessageFetchRequest _) \<Rightarrow> True | _ \<Rightarrow> False)"

definition IsHeartbeatMessage :: "envelope option \<Rightarrow> bool" where
  "IsHeartbeatMessage envp =
     (case content_of envp of Some (Heartbeat _) \<Rightarrow> True | Some (HeartbeatAck _ _) \<Rightarrow> True | _ \<Rightarrow> False)"

lemmas classify_defs = ClassifyMessage_def ShouldPersistToKafka_def countChat_def countSystem_def
  MessageTypeChatMessage_def MessageTypeSystemMessage_def IsRoomManagementMessage_def
  IsChatContentMessage_def IsSystemQueryMessage_def IsHeartbeatMessage_def content_of_def

definition classifyAll :: "classifier \<Rightarrow> envelope option list \<Rightarrow> classifier" where
  "classifyAll = foldl (\<lambda>mc e. fst (ClassifyMessage mc e))"

lemma ShouldPersist_cases:
  "snd (ShouldPersistToKafka mc envp) \<longleftrightarrow> IsChatContentMessage envp \<or> IsRoomManagementMessage envp"
  "snd (ClassifyMessage mc envp) = MessageTypeChatMessage \<longleftrightarrow> snd (ShouldPersistToKafka mc envp)"
  by (auto simp: classify_defs split: option.splits message.splits)

lemma Classify_counts:
  "chatMessagesClassified (fst (ClassifyMessage mc envp)) =
     chatMessagesClassified mc + (if snd (ShouldPersistToKafka mc envp) then 1 else 0)"
  "systemMessagesClassified (fst (ClassifyMessage mc envp)) =
     systemMessagesClassified mc
       + (if content_of envp \<noteq> None \<and> \<not> snd (ShouldPersistToKafka mc envp) then 1 else 0)"
  by (auto simp: classify_defs split: option.splits message.splits)

text \<open>After any sequence of messages the chat counter holds the number of chat and room
  management messages (which are exactly those sent to Kafka), the total the number of messages that
  had a content, as 64-bit integers; queries and heartbeats are never persisted.\<close>

theorem classification_counts:
  "GetStats (classifyAll NewMessageClassifier es) =
     (let chat = length (filter (\<lambda>e. IsChatContentMessage e \<or> IsRoomManagementMessage e) es);
          all = length (filter (\<lambda>e. content_of e \<noteq> None) es)
      in (of_nat chat, of_nat (all - chat), of_nat all))
   \<and> (snd (ShouldPersistToKafka mc e) \<longleftrightarrow> IsChatContentMessage e \<or> IsRoomManagementMessage e)
   \<and> \<not> (snd (ShouldPersistToKafka mc e) \<and> (IsSystemQueryMessage e \<or> IsHeartbeatMessage e))"
proof -
  let ?P = "\<lambda>e. IsChatContentMessage e \<or> IsRoomManagementMessage e"
  let ?Q = "\<lambda>e. content_of e \<noteq> None"
  have PQ: "?P e \<Longrightarrow> ?Q e" for e
    by (cases "content_of e") (simp_all add: IsChatContentMessage_def IsRoomManagementMessage_def)
  have le: "length (filter ?P es) \<le> length (filter ?Q es)" for es
    by (induction es) (auto dest: PQ [OF disjI1] PQ [OF disjI2])
  have c: "chatMessagesClassified (classifyAll mc es) = chatMessagesClassified mc + of_nat (length (filter ?P es))"
    for mc es
    by (induction es arbitrary: mc) (auto simp: classifyAll_def Classify_counts ShouldPersist_cases)
  have s: "systemMessagesClassified (classifyAll mc es) =
      systemMessagesClassified mc + of_nat (length (filter ?Q es) - length (filter ?P es))" for mc es
  proof (induction es arbitrary: mc)
    case Nil
    then show ?case by (simp add: classifyAll_def)
  next
    case (Cons e es)
    have "classifyAll mc (e # es) = classifyAll (fst (ClassifyMessage mc e)) es" by (simp add: classifyAll_def)
    with Cons.IH [of "fst (ClassifyMessage mc e)"] le [of es] PQ [of e] show ?case
      by (auto simp: Classify_counts ShouldPersist_cases Suc_diff_le)
  qed
  have "\<not> (?P e \<and> (IsSystemQueryMessage e \<or> IsHeartbeatMessage e))"
    by (auto simp: classify_defs split: option.splits message.splits)
  then show ?thesis
    using le [of es]
    by (simp add: GetStats_def c s NewMessageClassifier_def ShouldPersist_cases Let_def flip: of_nat_add)
qed

end
