(* ===== verification/RingBuffer.thy ===== *)
theory RingBuffer
  imports Prelude
begin

text \<open>
  \<^verbatim>\<open>util/net/base/buffer/ring_buffer.go\<close>: the byte ring buffer under every connection and
  parser.  Each exported method holds the buffer's mutex for its whole body, so a method is one
  transition of the record \<open>ring\<close>.  \<^verbatim>\<open>buf\<close> is always made by \<^verbatim>\<open>make([]byte, n)\<close>, so its
  length is its capacity.  The loop of \<^verbatim>\<open>writeFromSlice\<close> is a
  \<^theory_text>\<open>partial_function (option)\<close>: \<open>None\<close> means that the call does not return.
  Slice expressions out of range are \<open>Panic\<close>.
\<close>

section \<open>State\<close>

record ring =
  buf :: bytes
  head :: nat
  tail :: nat
  rsize :: nat
  initialCapacity :: nat
  maxCapacity :: nat

abbreviation rcap :: "ring \<Rightarrow> nat" where
  "rcap rb \<equiv> length (buf rb)"

definition NewRingBufferWithCapacity :: "int \<Rightarrow> int \<Rightarrow> ring" where
  "NewRingBufferWithCapacity initial maximum =
     (let initial' = (if initial \<le> 0 then 4096 else initial);
          maximum' = (if maximum \<le> 0 then 1024 * 1024 else maximum)
      in \<lparr>buf = replicate (nat initial') 0, head = 0, tail = 0, rsize = 0,
          initialCapacity = nat initial', maxCapacity = nat maximum'\<rparr>)"

definition NewRingBuffer :: "int \<Rightarrow> ring" where
  "NewRingBuffer initial =
     (let initial' = (if initial \<le> 0 then 4096 else initial)
      in \<lparr>buf = replicate (nat initial') 0, head = 0, tail = 0, rsize = 0,
          initialCapacity = nat initial', maxCapacity = 1024 * 1024\<rparr>)"

definition Size :: "ring \<Rightarrow> nat" where "Size rb = rsize rb"
definition Cap :: "ring \<Rightarrow> nat" where "Cap rb = rcap rb"
definition Available :: "ring \<Rightarrow> int" where "Available rb = int (rcap rb) - int (rsize rb)"

definition Reset :: "ring \<Rightarrow> ring" where
  "Reset rb = rb\<lparr>head := 0, tail := 0, rsize := 0\<rparr>"

section \<open>Copying out\<close>

text \<open>
  \<open>readToSlice rb m n\<close> is \<^verbatim>\<open>rb.readToSlice(dst, n)\<close> for a destination of length
  \<open>m\<close>: the moved buffer and the bytes copied (their number is the Go result).
\<close>

definition readToSlice :: "ring \<Rightarrow> nat \<Rightarrow> nat \<Rightarrow> (ring \<times> bytes) outcome" where
  "readToSlice rb m n =
     (if rsize rb = 0 \<or> n = 0 then Ret (rb, [])
      else let toRead = (if n > rsize rb then rsize rb else n)
      in if head rb < tail rb then
           (if head rb + toRead > rcap rb then Panic
            else let copied = take m (slice (head rb) (head rb + toRead) (buf rb))
                 in Ret (rb\<lparr>head := head rb + length copied\<rparr>, copied))
         else if head rb > rcap rb then Panic
         else let firstPart = rcap rb - head rb
              in if toRead \<le> firstPart then
                   let copied = take m (slice (head rb) (head rb + toRead) (buf rb));
                       head' = head rb + length copied
                   in Ret (rb\<lparr>head := if head' = rcap rb then 0 else head'\<rparr>, copied)
                 else
                   let copied = take m (drop (head rb) (buf rb));
                       remaining = toRead - length copied
                   in if remaining > 0 \<and> tail rb > 0 then
                        (if remaining > rcap rb then Panic
                         else let second = take (m - length copied) (take remaining (buf rb))
                              in Ret (rb\<lparr>head := length second\<rparr>, copied @ second))
                      else Ret (rb\<lparr>head := 0\<rparr>, copied))"

definition peekToSlice :: "ring \<Rightarrow> nat \<Rightarrow> nat \<Rightarrow> bytes outcome" where
  "peekToSlice rb m n =
     (if rsize rb = 0 \<or> n = 0 then Ret []
      else let toRead = (if n > rsize rb then rsize rb else n)
      in if head rb < tail rb then
           (if head rb + toRead > rcap rb then Panic
            else Ret (take m (slice (head rb) (head rb + toRead) (buf rb))))
         else if head rb > rcap rb then Panic
         else let firstPart = rcap rb - head rb
              in if toRead \<le> firstPart then
                   Ret (take m (slice (head rb) (head rb + toRead) (buf rb)))
                 else
                   let copied = take m (drop (head rb) (buf rb));
                       remaining = toRead - length copied
                   in if remaining > 0 then
                        (if remaining > rcap rb then Panic
                         else Ret (copied @ take (m - length copied) (take remaining (buf rb))))
                      else Ret copied)"

text \<open>\<^verbatim>\<open>Read(data)\<close> for \<open>m = len(data)\<close>\<close>

definition Read :: "ring \<Rightarrow> nat \<Rightarrow> (ring \<times> bytes) outcome" where
  "Read rb m =
     (if rsize rb = 0 \<or> m = 0 then Ret (rb, [])
      else let toRead = (if m > rsize rb then rsize rb else m)
      in case readToSlice rb m toRead of
           Panic \<Rightarrow> Panic
         | Ret (rb', copied) \<Rightarrow> Ret (rb'\<lparr>rsize := rsize rb' - length copied\<rparr>, copied))"

definition ReadAll :: "ring \<Rightarrow> (ring \<times> bytes) outcome" where
  "ReadAll rb =
     (if rsize rb = 0 then Ret (rb, [])
      else case readToSlice rb (rsize rb) (rsize rb) of
             Panic \<Rightarrow> Panic
           | Ret (rb', copied) \<Rightarrow>
               Ret (rb'\<lparr>rsize := 0\<rparr>, go_copy (replicate (rsize rb) 0) copied))"

definition Peek :: "ring \<Rightarrow> int \<Rightarrow> bytes outcome" where
  "Peek rb n =
     (if rsize rb = 0 \<or> n \<le> 0 then Ret []
      else let toPeek = (if n > int (rsize rb) then rsize rb else nat n)
      in case peekToSlice rb toPeek toPeek of
           Panic \<Rightarrow> Panic
         | Ret copied \<Rightarrow> Ret (go_copy (replicate toPeek 0) copied))"

definition Discard :: "ring \<Rightarrow> int \<Rightarrow> ring outcome" where
  "Discard rb n =
     (if rsize rb = 0 \<or> n \<le> 0 then Ret rb
      else let toDiscard = (if n > int (rsize rb) then rsize rb else nat n)
      in if rcap rb = 0 then Panic
         else Ret (rb\<lparr>head := (head rb + toDiscard) mod rcap rb,
                     rsize := rsize rb - toDiscard\<rparr>))"

definition ReadFrame :: "ring \<Rightarrow> int \<Rightarrow> (ring \<times> bytes option) outcome" where
  "ReadFrame rb frameLen =
     (if int (rsize rb) < frameLen \<or> frameLen \<le> 0 then Ret (rb, None)
      else case readToSlice rb (nat frameLen) (nat frameLen) of
             Panic \<Rightarrow> Panic
           | Ret (rb', frame) \<Rightarrow>
               if length frame = nat frameLen
               then Ret (rb'\<lparr>rsize := rsize rb' - length frame\<rparr>, Some frame)
               else Ret (rb', None))"

definition PeekFrame :: "ring \<Rightarrow> int \<Rightarrow> bytes option outcome" where
  "PeekFrame rb frameLen =
     (if int (rsize rb) < frameLen \<or> frameLen \<le> 0 then Ret None
      else case peekToSlice rb (nat frameLen) (nat frameLen) of
             Panic \<Rightarrow> Panic
           | Ret copied \<Rightarrow> Ret (Some (go_copy (replicate (nat frameLen) 0) copied)))"

text \<open>The vectors of \<^verbatim>\<open>PrepareIovecs\<close>, each as the bytes it covers.\<close>

definition PrepareIovecs :: "ring \<Rightarrow> bytes list" where
  "PrepareIovecs rb =
     (if rsize rb = 0 then []
      else if head rb < tail rb then [slice (head rb) (tail rb) (buf rb)]
      else (if head rb < rcap rb then [drop (head rb) (buf rb)] else [])
           @ (if tail rb > 0 then [take (tail rb) (buf rb)] else []))"

text \<open>\<^verbatim>\<open>Readv\<close> into vectors of the given lengths; the loop stops at the first short read.\<close>

fun readvLoop :: "nat list \<Rightarrow> ring \<Rightarrow> nat \<Rightarrow> (ring \<times> bytes list) outcome" where
  "readvLoop [] rb remaining = Ret (rb, [])"
| "readvLoop (len # lens) rb remaining =
     (if remaining = 0 then Ret (rb, [])
      else let toRead = (if len > remaining then remaining else len)
      in case readToSlice rb len toRead of
           Panic \<Rightarrow> Panic
         | Ret (rb', read) \<Rightarrow>
             if length read < toRead then Ret (rb', [read])
             else (case readvLoop lens rb' (remaining - length read) of
                     Panic \<Rightarrow> Panic
                   | Ret (rb'', reads) \<Rightarrow> Ret (rb'', read # reads)))"

definition Readv :: "ring \<Rightarrow> nat list \<Rightarrow> (ring \<times> bytes list) outcome" where
  "Readv rb lens =
     (if rsize rb = 0 then Ret (rb, [])
      else case readvLoop lens rb (rsize rb) of
             Panic \<Rightarrow> Panic
           | Ret (rb', reads) \<Rightarrow>
               Ret (rb'\<lparr>rsize := rsize rb' - length (concat reads)\<rparr>, reads))"

section \<open>Growing and shrinking\<close>

text \<open>The live bytes moved to the front of a fresh buffer.\<close>

definition relocate :: "ring \<Rightarrow> nat \<Rightarrow> bytes" where
  "relocate rb newCap =
     (let newBuf = replicate newCap 0
      in if rsize rb > 0 then
           if head rb < tail rb then go_copy newBuf (slice (head rb) (tail rb) (buf rb))
           else let n = min newCap (rcap rb - head rb)
                in take n (go_copy newBuf (drop (head rb) (buf rb)))
                     @ go_copy (drop n newBuf) (take (tail rb) (buf rb))
         else newBuf)"

definition grow :: "ring \<Rightarrow> nat \<Rightarrow> ring" where
  "grow rb additional =
     (let currentCap = rcap rb;
          newCap1 = currentCap * 2;
          newCap2 = (if newCap1 < currentCap + rsize rb + additional
                     then currentCap + rsize rb + additional else newCap1);
          newCap = (if newCap2 > maxCapacity rb then maxCapacity rb else newCap2)
      in if newCap \<le> currentCap then rb
         else rb\<lparr>buf := relocate rb newCap, head := 0, tail := rsize rb\<rparr>)"

definition Grow :: "ring \<Rightarrow> nat \<Rightarrow> ring" where
  "Grow rb additional = grow rb additional"

definition Shrink :: "ring \<Rightarrow> ring" where
  "Shrink rb =
     (let currentCap = rcap rb
      in if rsize rb < currentCap div 4 \<and> currentCap > initialCapacity rb then
           let newCap = (if currentCap div 2 < initialCapacity rb then initialCapacity rb
                         else currentCap div 2)
           in rb\<lparr>buf := relocate rb newCap, head := 0, tail := rsize rb\<rparr>
         else rb)"

section \<open>Copying in\<close>

datatype write_iter = Break | Continue ring nat | Crash

text \<open>
  One round of the loop of \<^verbatim>\<open>writeFromSlice\<close>.  The size field is not updated inside the
  loop.  With more bytes recorded than the capacity \<^verbatim>\<open>available\<close> is negative, and so is
  \<^verbatim>\<open>toWrite\<close>: each branch then slices \<^verbatim>\<open>src\<close> with a high bound below the low one and panics.
\<close>

definition writeIter :: "ring \<Rightarrow> bytes \<Rightarrow> nat \<Rightarrow> write_iter" where
  "writeIter rb src written =
     (if rsize rb = rcap rb then Break
      else if rsize rb > rcap rb \<or> tail rb > rcap rb then Crash
      else let available = rcap rb - rsize rb;
               rest = length src - written;
               toWrite = (if rest > available then available else rest)
      in if tail rb < head rb \<or> (tail rb \<ge> head rb \<and> rsize rb = 0) then
           let endSpace = rcap rb - tail rb
           in if toWrite \<le> endSpace then
                let tail' = tail rb + toWrite
                in Continue (rb\<lparr>buf := splice (tail rb) (slice written (written + toWrite) src) (buf rb),
                              tail := if tail' = rcap rb then 0 else tail'\<rparr>)
                     (written + toWrite)
              else
                let buf1 = splice (tail rb) (slice written (written + endSpace) src) (buf rb);
                    written1 = written + endSpace;
                    remaining = toWrite - endSpace
                in if head rb > rcap rb then Crash
                   else if remaining > 0 \<and> head rb > 0 then
                     let copied2 = min (head rb) remaining
                     in Continue (rb\<lparr>buf := splice 0 (slice written1 (written1 + copied2) src) buf1,
                                   tail := copied2\<rparr>) (written1 + copied2)
                   else Continue (rb\<lparr>buf := buf1, tail := 0\<rparr>) written1
         else
           let copied = min (rcap rb - tail rb) toWrite
           in Continue (rb\<lparr>buf := splice (tail rb) (slice written (written + copied) src) (buf rb),
                         tail := tail rb + copied\<rparr>) (written + copied))"

partial_function (option) writeLoop :: "ring \<Rightarrow> bytes \<Rightarrow> nat \<Rightarrow> (ring \<times> nat) outcome option" where
  "writeLoop rb src written =
     (if written < length src then
        (case writeIter rb src written of
           Break \<Rightarrow> Some (Ret (rb, written))
         | Crash \<Rightarrow> Some Panic
         | Continue rb' written' \<Rightarrow> writeLoop rb' src written')
      else Some (Ret (rb, written)))"

declare writeLoop.simps [code]

definition writeFromSlice :: "ring \<Rightarrow> bytes \<Rightarrow> (ring \<times> nat) outcome option" where
  "writeFromSlice rb src = (if length src = 0 then Some (Ret (rb, 0)) else writeLoop rb src 0)"

definition Write :: "ring \<Rightarrow> bytes \<Rightarrow> (ring \<times> nat) outcome option" where
  "Write rb data =
     (if length data = 0 then Some (Ret (rb, 0))
      else let rb1 = (if rsize rb + length data > rcap rb then grow rb (length data) else rb)
      in case writeFromSlice rb1 data of
           None \<Rightarrow> None
         | Some Panic \<Rightarrow> Some Panic
         | Some (Ret (rb2, written)) \<Rightarrow> Some (Ret (rb2\<lparr>rsize := rsize rb2 + written\<rparr>, written)))"

fun writevLoop :: "bytes list \<Rightarrow> ring \<Rightarrow> nat \<Rightarrow> (ring \<times> nat) outcome option" where
  "writevLoop [] rb sofar = Some (Ret (rb, sofar))"
| "writevLoop (v # vs) rb sofar =
     (if length v = 0 then writevLoop vs rb sofar
      else let rb1 = (if rsize rb + length v > rcap rb then grow rb (length v) else rb)
      in case writeFromSlice rb1 v of
           None \<Rightarrow> None
         | Some Panic \<Rightarrow> Some Panic
         | Some (Ret (rb2, written)) \<Rightarrow>
             if written < length v then Some (Ret (rb2, sofar + written))
             else writevLoop vs rb2 (sofar + written))"

definition Writev :: "ring \<Rightarrow> bytes list \<Rightarrow> (ring \<times> nat) outcome option" where
  "Writev rb vs =
     (case writevLoop vs rb 0 of
        None \<Rightarrow> None
      | Some Panic \<Rightarrow> Some Panic
      | Some (Ret (rb', n)) \<Rightarrow> Some (Ret (rb'\<lparr>rsize := rsize rb' + n\<rparr>, n)))"

section \<open>The queue of bytes a ring stands for\<close>

definition content :: "ring \<Rightarrow> bytes" where
  "content rb =
     (if rsize rb = 0 then []
      else if head rb < tail rb then slice (head rb) (tail rb) (buf rb)
      else drop (head rb) (buf rb) @ take (tail rb) (buf rb))"

definition ring_ok :: "ring \<Rightarrow> bool" where
  "ring_ok rb \<longleftrightarrow>
     0 < rcap rb \<and> head rb \<le> rcap rb \<and> tail rb \<le> rcap rb \<and> rsize rb \<le> rcap rb \<and>
     (if rsize rb = 0 then head rb = tail rb \<or> head rb = 0 \<and> tail rb = rcap rb
      else if head rb < tail rb then rsize rb = tail rb - head rb
      else rsize rb = rcap rb - head rb + tail rb)"

lemma length_content: "ring_ok rb \<Longrightarrow> length (content rb) = rsize rb"
  by (auto simp: ring_ok_def content_def)

lemma new_ring_ok: "ring_ok (NewRingBufferWithCapacity i m)" "content (NewRingBufferWithCapacity i m) = []"
  "ring_ok (NewRingBuffer i)" "content (NewRingBuffer i) = []"
  by (auto simp: NewRingBufferWithCapacity_def NewRingBuffer_def Let_def ring_ok_def content_def)

lemma Reset_ok: "ring_ok rb \<Longrightarrow> ring_ok (Reset rb) \<and> content (Reset rb) = []"
  by (auto simp: Reset_def ring_ok_def content_def)

subsection \<open>Reading\<close>

text \<open>What a copy out of a well-formed ring returns, and the ring once the size is adjusted.\<close>

lemma readToSlice_ok:
  assumes ok: "ring_ok rb" and nm: "n \<le> m"
  shows "\<exists>h. readToSlice rb m n = Ret (rb\<lparr>head := h\<rparr>, take n (content rb)) \<and>
             ring_ok (rb\<lparr>head := h, rsize := rsize rb - min n (rsize rb)\<rparr>) \<and>
             content (rb\<lparr>head := h, rsize := rsize rb - min n (rsize rb)\<rparr>) = drop n (content rb)"
proof (cases "rsize rb = 0 \<or> n = 0")
  case True
  then show ?thesis
    using ok by (intro exI [of _ "head rb"]) (auto simp: readToSlice_def content_def ring_ok_def)
next
  case False
  define r where "r = min n (rsize rb)"
  have r: "0 < r" "r \<le> rsize rb" "r \<le> n" "(if n > rsize rb then rsize rb else n) = r"
    using False by (auto simp: r_def)
  have tk: "take n (content rb) = take r (content rb)" "drop n (content rb) = drop r (content rb)"
    using length_content [OF ok] by (auto simp: r_def min_def)
  consider (contig) "head rb < tail rb"
    | (first) "\<not> head rb < tail rb" "r \<le> rcap rb - head rb"
    | (wrap) "\<not> head rb < tail rb" "r > rcap rb - head rb" by linarith
  then show ?thesis
  proof cases
    case contig
    then have b: "head rb + r \<le> tail rb" "tail rb \<le> rcap rb" "rsize rb = tail rb - head rb"
      using False ok r by (auto simp: ring_ok_def)
    then have c: "take r (content rb) = slice (head rb) (head rb + r) (buf rb)"
      "drop r (content rb) = slice (head rb + r) (tail rb) (buf rb)"
      using contig False by (auto simp: content_def take_slice drop_slice min_absorb2)
    have rd: "readToSlice rb m n = Ret (rb\<lparr>head := head rb + r\<rparr>, slice (head rb) (head rb + r) (buf rb))"
      using contig False b r nm by (simp add: readToSlice_def Let_def)
    show ?thesis
      unfolding tk r_def [symmetric] c rd using contig ok b r False
      by (intro exI [of _ "head rb + r"]) (auto simp: ring_ok_def content_def)
  next
    case first
    let ?h = "if head rb + r = rcap rb then 0 else head rb + r"
    have b: "head rb + r \<le> rcap rb" "tail rb \<le> head rb" "rsize rb = rcap rb - head rb + tail rb"
      using first False ok r by (auto simp: ring_ok_def)
    then have c: "take r (content rb) = slice (head rb) (head rb + r) (buf rb)"
      "drop r (content rb) = drop (head rb + r) (buf rb) @ take (tail rb) (buf rb)"
      using first False by (auto simp: content_def slice_def add.commute)
    have rd: "readToSlice rb m n = Ret (rb\<lparr>head := ?h\<rparr>, slice (head rb) (head rb + r) (buf rb))"
      using first False b r nm by (simp add: readToSlice_def Let_def)
    show ?thesis
      unfolding tk r_def [symmetric] c rd using first(1) ok b r False
      by (intro exI [of _ ?h]) (auto simp: ring_ok_def content_def)
  next
    case wrap
    let ?d = "rcap rb - head rb" let ?h = "r - ?d"
    have b: "head rb \<le> rcap rb" "tail rb \<le> head rb" "rsize rb = ?d + tail rb" "?h \<le> tail rb" "0 < ?h"
      using wrap False ok r by (auto simp: ring_ok_def)
    then have c: "take r (content rb) = drop (head rb) (buf rb) @ take ?h (buf rb)"
      "drop r (content rb) = slice ?h (tail rb) (buf rb)"
      using wrap False by (auto simp: content_def slice_def min_absorb1 min_absorb2 drop_take)
    have rd: "readToSlice rb m n = Ret (rb\<lparr>head := ?h\<rparr>, drop (head rb) (buf rb) @ take ?h (buf rb))"
      using wrap False b r nm by (simp add: readToSlice_def Let_def min_absorb1)
    show ?thesis
      unfolding tk r_def [symmetric] c rd using wrap(1) ok b r False
      by (intro exI [of _ ?h]) (auto simp: ring_ok_def content_def)
  qed
qed

lemma peekToSlice_ok:
  assumes ok: "ring_ok rb" and nm: "n \<le> m"
  shows "peekToSlice rb m n = Ret (take n (content rb))"
proof (cases "rsize rb = 0 \<or> n = 0")
  case True
  then show ?thesis by (auto simp: peekToSlice_def content_def)
next
  case False
  define r where "r = min n (rsize rb)"
  have r: "0 < r" "r \<le> rsize rb" "r \<le> m" "(if n > rsize rb then rsize rb else n) = r"
    using False nm by (auto simp: r_def)
  have tk: "take n (content rb) = take r (content rb)"
    using length_content [OF ok] by (auto simp: r_def min_def)
  consider (contig) "head rb < tail rb"
    | (first) "\<not> head rb < tail rb" "r \<le> rcap rb - head rb"
    | (wrap) "\<not> head rb < tail rb" "r > rcap rb - head rb" by linarith
  then show ?thesis
  proof cases
    case contig
    then have "head rb + r \<le> tail rb" "tail rb \<le> rcap rb"
      using False ok r by (auto simp: ring_ok_def)
    with contig False r show ?thesis
      unfolding tk by (simp add: peekToSlice_def Let_def content_def take_slice min_absorb2)
  next
    case first
    then have "head rb + r \<le> rcap rb"
      using False ok r by (auto simp: ring_ok_def)
    with first False r show ?thesis
      unfolding tk by (simp add: peekToSlice_def Let_def content_def slice_def)
  next
    case wrap
    let ?d = "rcap rb - head rb"
    have "head rb \<le> rcap rb" "tail rb \<le> rcap rb" "rsize rb = ?d + tail rb" "r - ?d \<le> tail rb" "0 < r - ?d"
      using wrap False ok r by (auto simp: ring_ok_def)
    with wrap False r show ?thesis
      unfolding tk by (simp add: peekToSlice_def Let_def content_def min_absorb1)
  qed
qed

text \<open>The reading operations as operations on the queue of bytes.\<close>

lemma Read_ok:
  assumes "ring_ok rb"
  shows "\<exists>rb'. Read rb m = Ret (rb', take m (content rb)) \<and> ring_ok rb' \<and> content rb' = drop m (content rb)"
proof (cases "rsize rb = 0 \<or> m = 0")
  case True
  with assms show ?thesis by (auto simp: Read_def content_def)
next
  case False
  let ?n = "if m > rsize rb then rsize rb else m"
  have len: "length (content rb) = rsize rb" by (rule length_content [OF assms])
  have le: "?n \<le> m" by simp
  obtain h where h: "readToSlice rb m ?n = Ret (rb\<lparr>head := h\<rparr>, take ?n (content rb))"
    "ring_ok (rb\<lparr>head := h, rsize := rsize rb - min ?n (rsize rb)\<rparr>)"
    "content (rb\<lparr>head := h, rsize := rsize rb - min ?n (rsize rb)\<rparr>) = drop ?n (content rb)"
    using readToSlice_ok [OF assms le] by blast
  have "take ?n (content rb) = take m (content rb)" "drop ?n (content rb) = drop m (content rb)"
    using len by auto
  with False h len show ?thesis
    unfolding Read_def Let_def by (auto simp: min_def)
qed

lemma ReadAll_ok:
  assumes "ring_ok rb"
  shows "\<exists>rb'. ReadAll rb = Ret (rb', content rb) \<and> ring_ok rb' \<and> content rb' = []"
proof (cases "rsize rb = 0")
  case True
  with assms show ?thesis by (auto simp: ReadAll_def content_def)
next
  case False
  have len: "length (content rb) = rsize rb" by (rule length_content [OF assms])
  obtain h where h: "readToSlice rb (rsize rb) (rsize rb) = Ret (rb\<lparr>head := h\<rparr>, content rb)"
    "ring_ok (rb\<lparr>head := h, rsize := 0\<rparr>)" "content (rb\<lparr>head := h, rsize := 0\<rparr>) = []"
    using readToSlice_ok [OF assms, of "rsize rb" "rsize rb"] len by auto
  with False len show ?thesis
    by (auto simp: ReadAll_def go_copy_def)
qed

lemma Peek_ok: "ring_ok rb \<Longrightarrow> Peek rb n = Ret (take (nat n) (content rb))"
  using length_content [of rb]
  by (auto simp: Peek_def Let_def peekToSlice_ok go_copy_def nat_le_iff min_def)

lemma ReadFrame_ok:
  assumes "ring_ok rb"
  shows "\<exists>rb'. ReadFrame rb n =
            Ret (rb', if 0 < n \<and> nat n \<le> length (content rb) then Some (take (nat n) (content rb)) else None)
          \<and> ring_ok rb' \<and>
          content rb' = (if 0 < n \<and> nat n \<le> length (content rb) then drop (nat n) (content rb) else content rb)"
proof (cases "int (rsize rb) < n \<or> n \<le> 0")
  case True
  with assms show ?thesis
    by (auto simp: ReadFrame_def length_content)
next
  case False
  then have len: "length (content rb) = rsize rb" "nat n \<le> rsize rb" "0 < n"
    using length_content [OF assms] by auto
  obtain h where "readToSlice rb (nat n) (nat n) = Ret (rb\<lparr>head := h\<rparr>, take (nat n) (content rb))"
    "ring_ok (rb\<lparr>head := h, rsize := rsize rb - nat n\<rparr>)"
    "content (rb\<lparr>head := h, rsize := rsize rb - nat n\<rparr>) = drop (nat n) (content rb)"
    using readToSlice_ok [OF assms, of "nat n" "nat n"] len by (auto simp: min_absorb1)
  with False len show ?thesis
    by (auto simp: ReadFrame_def min_absorb2)
qed

lemma PeekFrame_ok:
  "ring_ok rb \<Longrightarrow> PeekFrame rb n =
     Ret (if 0 < n \<and> nat n \<le> length (content rb) then Some (take (nat n) (content rb)) else None)"
  using length_content [of rb]
  by (auto simp: PeekFrame_def peekToSlice_ok go_copy_def)

lemma Discard_ok:
  assumes "ring_ok rb"
  shows "\<exists>rb'. Discard rb n = Ret rb' \<and> ring_ok rb' \<and> content rb' = drop (nat n) (content rb)"
proof (cases "rsize rb = 0 \<or> n \<le> 0")
  case True
  with assms show ?thesis by (auto simp: Discard_def content_def)
next
  case False
  define r where "r = (if n > int (rsize rb) then rsize rb else nat n)"
  have r: "0 < r" "r \<le> rsize rb" and cap: "0 < rcap rb"
    using False assms by (auto simp: r_def ring_ok_def)
  have dr: "drop (nat n) (content rb) = drop r (content rb)"
    using length_content [OF assms] False by (auto simp: r_def)
  let ?h = "(head rb + r) mod rcap rb"
  let ?rb = "rb\<lparr>head := ?h, rsize := rsize rb - r\<rparr>"
  have d: "Discard rb n = Ret ?rb"
    using False cap by (auto simp: Discard_def Let_def r_def)
  have "ring_ok ?rb \<and> content ?rb = drop r (content rb)"
  proof (cases "head rb + r < rcap rb")
    case True
    then have "?h = head rb + r" by simp
    with True assms False r show ?thesis
      by (auto simp: ring_ok_def content_def slice_def drop_take add.commute min_def split: if_splits)
  next
    case no: False
    show ?thesis
    proof (cases "head rb < tail rb")
      case True
      with no assms False r have "head rb + r = rcap rb" "tail rb = rcap rb" "r = rsize rb"
        by (auto simp: ring_ok_def)
      with True assms False length_content [OF assms] show ?thesis
        by (auto simp: ring_ok_def content_def)
    next
      case wr: False
      then have "head rb + r - rcap rb \<le> tail rb" "tail rb \<le> head rb" "rsize rb = rcap rb - head rb + tail rb"
        using assms False r by (auto simp: ring_ok_def)
      show ?thesis
      proof (cases "head rb + r - rcap rb < rcap rb")
        case True
        then have "?h = head rb + r - rcap rb"
          using no cap by (simp add: mod_if)
        with wr no True assms False r show ?thesis
          by (auto simp: ring_ok_def content_def slice_def drop_take add.commute split: if_splits)
      next
        case all: False
        with wr no assms r have "head rb = rcap rb" "tail rb = rcap rb" "r = rcap rb" "rsize rb = rcap rb"
          by (auto simp: ring_ok_def)
        with cap show ?thesis
          by (auto simp: ring_ok_def content_def)
      qed
    qed
  qed
  with d dr show ?thesis by auto
qed

lemma PrepareIovecs_ok: "concat (PrepareIovecs rb) = content rb"
  by (auto simp: PrepareIovecs_def content_def)

subsection \<open>Growing and shrinking keep the queue\<close>

lemma relocate_ok:
  assumes "ring_ok rb" "rsize rb \<le> n"
  shows "length (relocate rb n) = n" "take (rsize rb) (relocate rb n) = content rb"
proof -
  have "length (relocate rb n) = n \<and> take (rsize rb) (relocate rb n) = content rb"
  proof (cases "rsize rb = 0 \<or> head rb < tail rb")
    case True
    then show ?thesis
      using assms by (auto simp: relocate_def Let_def content_def ring_ok_def go_copy_def)
  next
    case False
    then have b: "tail rb \<le> head rb" "rsize rb = rcap rb - head rb + tail rb" "head rb \<le> rcap rb" "0 < rsize rb"
      using assms by (auto simp: ring_ok_def)
    with assms(2) have m: "min n (rcap rb - head rb) = rcap rb - head rb" by simp
    from b False assms show ?thesis
      unfolding relocate_def Let_def m by (auto simp: content_def go_copy_def)
  qed
  then show "length (relocate rb n) = n" "take (rsize rb) (relocate rb n) = content rb" by auto
qed

lemma move_ok:
  assumes "ring_ok rb" "rsize rb \<le> n" "0 < n"
  shows "ring_ok (rb\<lparr>buf := relocate rb n, head := 0, tail := rsize rb\<rparr>) \<and>
         content (rb\<lparr>buf := relocate rb n, head := 0, tail := rsize rb\<rparr>) = content rb"
  using relocate_ok [OF assms(1,2)] assms
  by (auto simp: ring_ok_def content_def)

definition growTarget :: "ring \<Rightarrow> nat \<Rightarrow> nat" where
  "growTarget rb k = min (maxCapacity rb) (max (2 * rcap rb) (rcap rb + rsize rb + k))"

lemma growTarget_le: "growTarget rb k \<le> maxCapacity rb"
  by (simp add: growTarget_def)

lemma grow_alt:
  "grow rb k = (if growTarget rb k \<le> rcap rb then rb
                else rb\<lparr>buf := relocate rb (growTarget rb k), head := 0, tail := rsize rb\<rparr>)"
proof -
  have "(if (if rcap rb * 2 < rcap rb + rsize rb + k then rcap rb + rsize rb + k else rcap rb * 2)
            > maxCapacity rb then maxCapacity rb
         else if rcap rb * 2 < rcap rb + rsize rb + k then rcap rb + rsize rb + k else rcap rb * 2)
        = growTarget rb k"
    unfolding growTarget_def by (auto simp: min_def max_def)
  then show ?thesis
    unfolding grow_def Let_def by simp
qed

lemma grow_ok:
  assumes "ring_ok rb"
  shows "ring_ok (grow rb k)" "content (grow rb k) = content rb"
    "rsize (grow rb k) = rsize rb" "maxCapacity (grow rb k) = maxCapacity rb"
    "rcap rb \<le> rcap (grow rb k)" "rcap (grow rb k) \<le> max (rcap rb) (maxCapacity rb)"
proof -
  have "rsize rb \<le> rcap rb" "0 < rcap rb" using assms by (auto simp: ring_ok_def)
  then have "growTarget rb k \<le> rcap rb \<or> rsize rb \<le> growTarget rb k \<and> 0 < growTarget rb k" by linarith
  then show "ring_ok (grow rb k)" "content (grow rb k) = content rb"
    "rsize (grow rb k) = rsize rb" "maxCapacity (grow rb k) = maxCapacity rb"
    "rcap rb \<le> rcap (grow rb k)" "rcap (grow rb k) \<le> max (rcap rb) (maxCapacity rb)"
    using move_ok [OF assms, of "growTarget rb k"] relocate_ok(1) [OF assms, of "growTarget rb k"]
      assms growTarget_le [of rb k]
    by (auto simp: grow_alt)
qed

lemma grow_fits:
  assumes "ring_ok rb" "rsize rb + k > rcap rb" "rsize rb + k \<le> maxCapacity rb"
  shows "head (grow rb k) = 0" "tail (grow rb k) = rsize rb" "rsize rb + k \<le> rcap (grow rb k)"
proof -
  have "rcap rb < growTarget rb k" "rsize rb + k \<le> growTarget rb k" "rsize rb \<le> growTarget rb k"
    using assms by (auto simp: growTarget_def ring_ok_def)
  then show "head (grow rb k) = 0" "tail (grow rb k) = rsize rb" "rsize rb + k \<le> rcap (grow rb k)"
    using relocate_ok(1) [OF assms(1), of "growTarget rb k"] by (simp_all add: grow_alt)
qed

lemma Shrink_ok:
  assumes "ring_ok rb"
  shows "ring_ok (Shrink rb) \<and> content (Shrink rb) = content rb"
proof (cases "rsize rb < rcap rb div 4 \<and> rcap rb > initialCapacity rb")
  case True
  let ?n = "if rcap rb div 2 < initialCapacity rb then initialCapacity rb else rcap rb div 2"
  have n: "rsize rb \<le> ?n" "0 < ?n" using True by auto
  show ?thesis
    using True move_ok [OF assms n] by (simp add: Shrink_def Let_def)
next
  case False
  with assms show ?thesis by (auto simp: Shrink_def Let_def)
qed

subsection \<open>Writing\<close>

text \<open>
  Where a write of \<open>n\<close> bytes into the present storage works: the bytes fit; a contiguous
  region does not have to wrap past the end of the storage; and a region that starts at the very
  end of the storage is not filled to the brim.
\<close>

definition room :: "ring \<Rightarrow> nat \<Rightarrow> bool" where
  "room rb n \<longleftrightarrow>
     rsize rb + n \<le> rcap rb \<and>
     (0 < rsize rb \<longrightarrow>
        (head rb < tail rb \<longrightarrow> tail rb + n \<le> rcap rb) \<and>
        (tail rb < head rb \<longrightarrow> head rb = rcap rb \<longrightarrow> rsize rb + n < rcap rb))"

definition can_write :: "ring \<Rightarrow> nat \<Rightarrow> bool" where
  "can_write rb n \<longleftrightarrow>
     n = 0 \<or> (if rsize rb + n > rcap rb then rsize rb + n \<le> maxCapacity rb else room rb n)"

lemma writeLoop_done: "writeLoop rb src (length src) = Some (Ret (rb, length src))"
  by (subst writeLoop.simps) simp

lemma writeLoop_step:
  "w < length src \<Longrightarrow> writeIter rb src w = Continue rb' w' \<Longrightarrow> writeLoop rb src w = writeLoop rb' src w'"
  by (subst writeLoop.simps) simp

lemma writeLoop_last:
  "w < length src \<Longrightarrow> writeIter rb src w = Continue rb' (length src) \<Longrightarrow>
   writeLoop rb src w = Some (Ret (rb', length src))"
  by (simp add: writeLoop_step writeLoop_done)

text \<open>The three ways a write goes in one or two rounds.\<close>

lemma write_contiguous:
  assumes "ring_ok rb" "0 < rsize rb" "head rb < tail rb" "d \<noteq> []" "tail rb + length d \<le> rcap rb"
  shows "writeLoop rb d 0 =
    Some (Ret (rb\<lparr>buf := splice (tail rb) d (buf rb), tail := tail rb + length d\<rparr>, length d))"
proof -
  have "0 < length d" "rsize rb = tail rb - head rb"
    using assms by (auto simp: ring_ok_def)
  with assms(3,5) have "rsize rb < rcap rb" "length d \<le> rcap rb - rsize rb"
    by linarith+
  with assms have "writeIter rb d 0 =
      Continue (rb\<lparr>buf := splice (tail rb) d (buf rb), tail := tail rb + length d\<rparr>) (length d)"
    by (auto simp: writeIter_def Let_def ring_ok_def min_def)
  with assms(4) show ?thesis by (intro writeLoop_last) auto
qed

lemma write_gap:
  assumes "ring_ok rb" "0 < rsize rb" "tail rb < head rb" "d \<noteq> []" "tail rb + length d \<le> head rb"
    "tail rb + length d < rcap rb"
  shows "writeLoop rb d 0 =
    Some (Ret (rb\<lparr>buf := splice (tail rb) d (buf rb), tail := tail rb + length d\<rparr>, length d))"
proof -
  have "rsize rb < rcap rb" "length d \<le> rcap rb - rsize rb" "length d \<le> rcap rb - tail rb"
    using assms by (auto simp: ring_ok_def)
  with assms have "writeIter rb d 0 =
      Continue (rb\<lparr>buf := splice (tail rb) d (buf rb), tail := tail rb + length d\<rparr>) (length d)"
    by (auto simp: writeIter_def Let_def ring_ok_def min_def)
  with assms(4) show ?thesis by (intro writeLoop_last) auto
qed

lemma write_empty_fits:
  assumes "0 < rcap rb" "rsize rb = 0" "head rb = tail rb" "d \<noteq> []" "tail rb + length d \<le> rcap rb"
  shows "writeLoop rb d 0 =
    Some (Ret (rb\<lparr>buf := splice (tail rb) d (buf rb),
                  tail := if tail rb + length d = rcap rb then 0 else tail rb + length d\<rparr>, length d))"
proof -
  have "writeIter rb d 0 =
      Continue (rb\<lparr>buf := splice (tail rb) d (buf rb),
                  tail := if tail rb + length d = rcap rb then 0 else tail rb + length d\<rparr>) (length d)"
    using assms by (auto simp: writeIter_def Let_def min_def)
  with assms(4) show ?thesis by (intro writeLoop_last) auto
qed

lemma write_empty_wraps:
  assumes "0 < rcap rb" "rsize rb = 0" "head rb = tail rb" "tail rb \<le> rcap rb"
    "tail rb + length d > rcap rb" "length d \<le> rcap rb"
  defines "e \<equiv> rcap rb - tail rb"
  shows "writeLoop rb d 0 =
    Some (Ret (rb\<lparr>buf := splice 0 (drop e d) (splice (tail rb) (take e d) (buf rb)),
                  tail := length d - e\<rparr>, length d))"
proof -
  have e: "e < length d" "length d - e \<le> head rb" "0 < head rb" "min (head rb) (length d - e) = length d - e"
    using assms by auto
  have "writeIter rb d 0 =
      Continue (rb\<lparr>buf := splice 0 (drop e d) (splice (tail rb) (take e d) (buf rb)),
                  tail := length d - e\<rparr>) (length d)"
    using assms(1-6) e unfolding writeIter_def Let_def e_def [symmetric]
    by (simp add: slice_to_end)
  with e show ?thesis by (intro writeLoop_last) auto
qed

lemma write_loop_restart:
  assumes "0 < rcap rb" "rsize rb = 0" "head rb = 0" "tail rb = rcap rb" "d \<noteq> []"
  shows "writeLoop rb d 0 = writeLoop (rb\<lparr>tail := 0\<rparr>) d 0"
proof -
  have s: "splice (rcap rb) [] (buf rb) = buf rb" by (simp add: splice_def)
  have "writeIter rb d 0 = Continue (rb\<lparr>tail := 0\<rparr>) 0"
    using assms s by (auto simp: writeIter_def Let_def)
  with assms(5) show ?thesis by (intro writeLoop_step) auto
qed

text \<open>Abbreviated: the ring after the loop with the size brought up to date.\<close>

definition wrote :: "ring \<Rightarrow> bytes \<Rightarrow> ring \<Rightarrow> bool" where
  "wrote rb d rb' \<longleftrightarrow>
     ring_ok rb' \<and> content rb' = content rb @ d \<and> head rb' = head rb \<and>
     rcap rb' = rcap rb \<and> maxCapacity rb' = maxCapacity rb \<and> rsize rb' = rsize rb + length d \<and>
     (head rb \<le> tail rb \<and> tail rb + length d < rcap rb \<or> tail rb < head rb \<longrightarrow>
        tail rb' = tail rb + length d)"

lemma wrote_empty:
  assumes ok: "ring_ok rb" and e: "rsize rb = 0" "head rb = tail rb" and d: "d \<noteq> []" "length d \<le> rcap rb"
  shows "\<exists>rb'. writeLoop rb d 0 = Some (Ret (rb', length d)) \<and> wrote rb d (rb'\<lparr>rsize := rsize rb' + length d\<rparr>)"
proof (cases "tail rb + length d \<le> rcap rb")
  case True
  have c: "0 < rcap rb" using ok by (auto simp: ring_ok_def)
  have l: "length (splice (tail rb) d (buf rb)) = rcap rb" using True by simp
  moreover have "splice (tail rb) d (buf rb) \<noteq> []" using l c by auto
  moreover have "drop (tail rb) (splice (tail rb) d (buf rb)) = d" if "tail rb + length d = rcap rb"
    using that by (rule drop_splice_at)
  moreover have "slice (tail rb) (tail rb + length d) (splice (tail rb) d (buf rb)) = d"
    using True by (intro slice_splice_same) auto
  ultimately show ?thesis
    unfolding write_empty_fits [OF c e d(1) True] using True e d ok
    by (auto simp: wrote_def ring_ok_def content_def)
next
  case False
  define x where "x = rcap rb - tail rb"
  have c: "0 < rcap rb" "tail rb \<le> rcap rb" "tail rb + length d > rcap rb"
    using False ok by (auto simp: ring_ok_def)
  then have x: "x < length d" "length d - x \<le> tail rb" "tail rb + x = rcap rb" "0 < length d - x"
    using d by (auto simp: x_def)
  let ?b1 = "splice (tail rb) (take x d) (buf rb)"
  let ?b2 = "splice 0 (drop x d) ?b1"
  have l: "length ?b1 = rcap rb" "length ?b2 = rcap rb" using x by simp_all
  have "drop (tail rb) ?b2 = drop (tail rb) ?b1"
    using x by (intro drop_splice_after) simp_all
  also have "\<dots> = take x d"
    using x by (intro drop_splice_at) simp
  finally have "drop (tail rb) ?b2 @ take (length d - x) ?b2 = d"
    using take_splice_at [of 0 "drop x d" ?b1] x l by simp
  with l x e d ok show ?thesis
    unfolding write_empty_wraps [OF c(1) e c(2,3) d(2), folded x_def]
    by (auto simp: wrote_def ring_ok_def content_def)
qed

lemma writeLoop_ok:
  assumes ok: "ring_ok rb" and d: "d \<noteq> []" and r: "room rb (length d)"
  shows "\<exists>rb'. writeLoop rb d 0 = Some (Ret (rb', length d)) \<and> wrote rb d (rb'\<lparr>rsize := rsize rb' + length d\<rparr>)"
proof -
  consider (empty) "rsize rb = 0" "head rb = tail rb"
    | (edge) "rsize rb = 0" "head rb = 0" "tail rb = rcap rb"
    | (contig) "0 < rsize rb" "head rb < tail rb"
    | (gap) "0 < rsize rb" "tail rb < head rb"
    | (full) "0 < rsize rb" "tail rb = head rb"
    using ok by (cases "rsize rb = 0"; cases "head rb" "tail rb" rule: linorder_cases) (auto simp: ring_ok_def)
  then show ?thesis
  proof cases
    case empty
    with ok d r show ?thesis by (intro wrote_empty) (auto simp: room_def)
  next
    case edge
    let ?rb = "rb\<lparr>tail := 0\<rparr>"
    have ok': "ring_ok ?rb" using ok edge by (auto simp: ring_ok_def)
    have "\<exists>rb'. writeLoop ?rb d 0 = Some (Ret (rb', length d)) \<and> wrote ?rb d (rb'\<lparr>rsize := rsize rb' + length d\<rparr>)"
      using r edge d by (intro wrote_empty [OF ok']) (auto simp: room_def)
    moreover have "writeLoop rb d 0 = writeLoop ?rb d 0"
      using ok edge d by (intro write_loop_restart) (auto simp: ring_ok_def)
    ultimately show ?thesis using edge by (auto simp: wrote_def content_def)
  next
    case contig
    then have t: "tail rb + length d \<le> rcap rb" using r by (simp add: room_def)
    have "slice (head rb) (tail rb + length d) (splice (tail rb) d (buf rb)) = slice (head rb) (tail rb) (buf rb) @ d"
      using contig t by (intro slice_splice_extend) auto
    moreover have "splice (tail rb) d (buf rb) \<noteq> []"
      using t contig d by (metis length_greater_0_conv length_splice add_leD2 le_zero_eq length_0_conv neq0_conv)
    ultimately show ?thesis unfolding write_contiguous [OF ok contig d t]
      using t contig ok d by (auto simp: wrote_def ring_ok_def content_def)
  next
    case gap
    then have t: "tail rb + length d \<le> head rb" "tail rb + length d < rcap rb"
      using r ok by (auto simp: room_def ring_ok_def)
    have "drop (head rb) (splice (tail rb) d (buf rb)) = drop (head rb) (buf rb)"
      using t gap ok by (intro drop_splice_after) (auto simp: ring_ok_def)
    moreover have "take (tail rb + length d) (splice (tail rb) d (buf rb)) = take (tail rb) (buf rb) @ d"
      using t by (intro take_splice_at) auto
    ultimately show ?thesis
      unfolding write_gap [OF ok gap d t] using t gap ok d
      by (auto simp: wrote_def ring_ok_def content_def)
  next
    case full
    with ok r d show ?thesis by (auto simp: ring_ok_def room_def)
  qed
qed

subsection \<open>The whole write\<close>

definition limit :: "ring \<Rightarrow> nat" where
  "limit rb = max (rcap rb) (maxCapacity rb)"

lemma limit_update: "limit (rb\<lparr>head := x\<rparr>) = limit rb"
  by (simp add: limit_def)

lemma readToSlice_limit: "readToSlice rb m n = Ret (rb', bs) \<Longrightarrow> limit rb' = limit rb"
  unfolding readToSlice_def Let_def
  by (auto simp only: outcome.inject outcome.distinct prod.inject limit_update split: if_split_asm)

lemma ReadAll_limit: "ReadAll rb = Ret (rb', bs) \<Longrightarrow> limit rb' = limit rb"
  by (auto simp: ReadAll_def limit_def dest: readToSlice_limit split: if_splits outcome.splits)

lemma limit_grow: "ring_ok rb \<Longrightarrow> limit (grow rb k) = limit rb"
  using grow_ok [of rb k] by (auto simp: limit_def)

lemma Write_wrote:
  assumes "ring_ok rb" "can_write rb (length d)" "d \<noteq> []"
  shows "\<exists>rb'. Write rb d = Some (Ret (rb', length d)) \<and>
    wrote (if rsize rb + length d > rcap rb then grow rb (length d) else rb) d rb'"
proof -
  let ?g = "if rsize rb + length d > rcap rb then grow rb (length d) else rb"
  have ok: "ring_ok ?g" using assms(1) grow_ok(1) by auto
  have "room ?g (length d)"
  proof (cases "rsize rb + length d > rcap rb")
    case True
    with assms have m: "rsize rb + length d \<le> maxCapacity rb" by (auto simp: can_write_def)
    have "head (grow rb (length d)) = 0 \<and> tail (grow rb (length d)) = rsize rb
        \<and> rsize rb + length d \<le> rcap (grow rb (length d)) \<and> rsize (grow rb (length d)) = rsize rb"
      using grow_fits [OF assms(1) True m] grow_ok(3) [OF assms(1)] by simp
    with True show ?thesis by (simp add: room_def)
  next
    case False
    with assms show ?thesis by (auto simp: can_write_def)
  qed
  from writeLoop_ok [OF ok assms(3) this] obtain rb' where
    "writeLoop ?g d 0 = Some (Ret (rb', length d))" "wrote ?g d (rb'\<lparr>rsize := rsize rb' + length d\<rparr>)"
    by blast
  with assms(3) show ?thesis
    by (intro exI [of _ "rb'\<lparr>rsize := rsize rb' + length d\<rparr>"])
      (simp add: Write_def Let_def writeFromSlice_def del: if_split)
qed

lemma Write_Nil: "Write rb [] = Some (Ret (rb, 0))"
  by (simp add: Write_def)

lemma Write_ok:
  assumes "ring_ok rb" "can_write rb (length d)"
  shows "\<exists>rb'. Write rb d = Some (Ret (rb', length d)) \<and> ring_ok rb' \<and> content rb' = content rb @ d
    \<and> limit rb' = limit rb"
proof (cases "d = []")
  case False
  from Write_wrote [OF assms this] show ?thesis
    using grow_ok(2) [OF assms(1)] limit_grow [OF assms(1)]
    by (auto simp: wrote_def limit_def split: if_splits)
qed (use assms in \<open>simp add: Write_Nil\<close>)

text \<open>
  A condition under which a whole series of writes works: the bytes fit in the largest storage, and
  the queue starts at the front, or needs no wrap, or has wrapped already.
\<close>

definition series_room :: "ring \<Rightarrow> nat \<Rightarrow> bool" where
  "series_room rb n \<longleftrightarrow>
     rsize rb + n \<le> limit rb \<and>
     (head rb = 0 \<or> head rb \<le> tail rb \<and> tail rb + n \<le> rcap rb \<or>
      0 < rsize rb \<and> tail rb \<le> head rb \<and> head rb < rcap rb)"

lemma series_room_write:
  assumes "ring_ok rb" "series_room rb n" "m \<le> n"
  shows "can_write rb m"
  using assms unfolding can_write_def series_room_def room_def ring_ok_def limit_def
  by (cases "0 < rsize rb"; cases "head rb" "tail rb" rule: linorder_cases) auto

lemma wrote_series_room:
  assumes ok: "ring_ok rb" and w: "wrote rb d rb'" and d: "d \<noteq> []" "length d \<le> k"
    and fits: "rsize rb + length d \<le> rcap rb" "rsize rb + k \<le> limit rb"
    and pos: "head rb = 0 \<or> head rb \<le> tail rb \<and> tail rb + k \<le> rcap rb \<or>
      0 < rsize rb \<and> tail rb \<le> head rb \<and> head rb < rcap rb"
  shows "series_room rb' (k - length d)"
proof -
  have e: "head rb' = head rb" "rcap rb' = rcap rb" "limit rb' = limit rb" "rsize rb' = rsize rb + length d"
    "ring_ok rb'" "0 < length d"
    and t: "head rb \<le> tail rb \<and> tail rb + length d < rcap rb \<or> tail rb < head rb \<Longrightarrow> tail rb' = tail rb + length d"
    using w d by (auto simp: wrote_def limit_def)
  have size: "rsize rb' + (k - length d) \<le> limit rb'" using e d fits by simp
  from pos consider "head rb = 0" | "head rb \<le> tail rb" "tail rb + k \<le> rcap rb" "0 < head rb"
    | "0 < rsize rb" "tail rb \<le> head rb" "head rb < rcap rb" by fastforce
  then show ?thesis
  proof cases
    case 2
    show ?thesis
    proof (cases "tail rb + length d < rcap rb")
      case True
      with 2 t e d size show ?thesis by (simp add: series_room_def)
    next
      case False
      then have "length d = k" "tail rb + k = rcap rb" using 2 d by auto
      with 2 e d size ok show ?thesis
        by (auto simp: series_room_def ring_ok_def split: if_splits)
    qed
  next
    case 3
    then have "rsize rb = rcap rb - head rb + tail rb" using ok by (auto simp: ring_ok_def)
    then have "tail rb < head rb" using 3 e(6) fits by linarith
    with t have "tail rb' = tail rb + length d" by blast
    moreover have "tail rb + length d \<le> head rb"
      using 3 \<open>tail rb < head rb\<close> ok fits by (auto simp: ring_ok_def)
    ultimately show ?thesis using 3 e size by (simp add: series_room_def)
  qed (use e size in \<open>simp add: series_room_def\<close>)
qed

lemma Write_series:
  assumes "ring_ok rb" "series_room rb n" "length d \<le> n"
  shows "\<exists>rb'. Write rb d = Some (Ret (rb', length d)) \<and> ring_ok rb' \<and> content rb' = content rb @ d
    \<and> limit rb' = limit rb \<and> series_room rb' (n - length d)"
proof (cases "d = []")
  case True
  with assms show ?thesis by (simp add: Write_Nil)
next
  case False
  let ?g = "if rsize rb + length d > rcap rb then grow rb (length d) else rb"
  have cw: "can_write rb (length d)" by (rule series_room_write [OF assms])
  obtain rb' where w: "Write rb d = Some (Ret (rb', length d))" "wrote ?g d rb'"
    using Write_wrote [OF assms(1) cw False] by blast
  have "ring_ok ?g" using assms(1) grow_ok(1) by auto
  moreover have "rsize ?g + length d \<le> rcap ?g" "rsize ?g + n \<le> limit ?g"
    "head ?g = 0 \<or> head ?g \<le> tail ?g \<and> tail ?g + n \<le> rcap ?g \<or>
      0 < rsize ?g \<and> tail ?g \<le> head ?g \<and> head ?g < rcap ?g"
  proof -
    have "rsize rb + length d \<le> maxCapacity rb" if "rsize rb + length d > rcap rb"
      using that assms by (auto simp: series_room_def limit_def)
    then show "rsize ?g + length d \<le> rcap ?g" "rsize ?g + n \<le> limit ?g"
      "head ?g = 0 \<or> head ?g \<le> tail ?g \<and> tail ?g + n \<le> rcap ?g \<or>
        0 < rsize ?g \<and> tail ?g \<le> head ?g \<and> head ?g < rcap ?g"
      using grow_fits [OF assms(1), of "length d"] grow_ok(3) [OF assms(1), of "length d"]
        limit_grow [OF assms(1), of "length d"] assms
      by (auto simp: series_room_def)
  qed
  ultimately have "series_room rb' (n - length d)"
    using wrote_series_room [OF _ w(2) False assms(3)] by blast
  with Write_ok [OF assms(1) cw] w(1) show ?thesis by force
qed

subsection \<open>Where the write goes wrong\<close>

text \<open>The state in which the loop of \<^verbatim>\<open>writeFromSlice\<close> turns for ever: a queue that ends at
  the end of the storage, with space only before it.\<close>

definition stuck :: "ring \<Rightarrow> bool" where
  "stuck rb \<longleftrightarrow> 0 < rsize rb \<and> rsize rb < rcap rb \<and> head rb < tail rb \<and> tail rb = rcap rb"

lemma stuck_iter: "stuck rb \<Longrightarrow> writeIter rb src w = Continue rb w"
  by (auto simp: stuck_def writeIter_def Let_def splice_def)

lemma stuck_loops:
  assumes "stuck rb" "w < length src"
  shows "writeLoop rb src w = None"
proof (rule ccontr)
  let ?P = "\<lambda>rb src w (y :: (ring \<times> nat) outcome). \<not> (stuck rb \<and> w < length src)"
  assume "writeLoop rb src w \<noteq> None"
  then obtain y where y: "writeLoop rb src w = Some y" by blast
  have "?P rb src w y"
  proof (rule writeLoop.raw_induct [of ?P, OF _ y])
    fix wl :: "ring \<Rightarrow> bytes \<Rightarrow> nat \<Rightarrow> (ring \<times> nat) outcome option" and rb src w y
    assume ih: "\<And>rb src w y. wl rb src w = Some y \<Longrightarrow> ?P rb src w y"
      and r: "(if w < length src
               then case writeIter rb src w of Break \<Rightarrow> Some (Ret (rb, w)) | Crash \<Rightarrow> Some Panic
                    | Continue rb' w' \<Rightarrow> wl rb' src w'
               else Some (Ret (rb, w))) = Some y"
    show "?P rb src w y"
    proof
      assume "stuck rb \<and> w < length src"
      with ih [of rb src w y] r stuck_iter [of rb src w] show False by simp
    qed
  qed
  with assms show False by blast
qed

text \<open>A queue in the middle of the storage, and a write that does not fit behind it and is not
  preceded by a growth.\<close>

lemma blocked_loops:
  assumes "ring_ok rb" "head rb < tail rb" "rsize rb < rcap rb" "0 < rsize rb" "tail rb + length d > rcap rb"
  shows "writeLoop rb d 0 = None"
proof -
  define e where "e = rcap rb - tail rb"
  let ?rb = "rb\<lparr>buf := splice (tail rb) (take e d) (buf rb), tail := rcap rb\<rparr>"
  have e: "e < length d" "tail rb + e = rcap rb" "e \<le> rcap rb - rsize rb" "rsize rb = tail rb - head rb"
    using assms by (auto simp: e_def ring_ok_def)
  have "writeIter rb d 0 = Continue ?rb e"
    using e assms unfolding writeIter_def Let_def e_def [symmetric]
    by (auto simp: ring_ok_def min_def)
  moreover have "stuck ?rb" using assms e by (auto simp: stuck_def)
  then have "writeLoop ?rb d e = None" using e(1) by (rule stuck_loops)
  moreover have "0 < length d" using e(1) by linarith
  ultimately show ?thesis using writeLoop_step [of 0 d rb ?rb e] by simp
qed

lemma grow_stays: "rcap rb \<ge> maxCapacity rb \<Longrightarrow> grow rb k = rb"
  using growTarget_le [of rb k] by (simp add: grow_alt)

text \<open>An empty ring with its indices at the front takes any number of bytes: every round starts
  again at the front, because the size field is only updated after the loop.\<close>

lemma empty_overwrites:
  "0 < rcap rb \<Longrightarrow> rsize rb = 0 \<Longrightarrow> head rb = 0 \<Longrightarrow> tail rb = 0 \<Longrightarrow> w \<le> length d \<Longrightarrow>
   \<exists>rb'. writeLoop rb d w = Some (Ret (rb', length d)) \<and> rsize rb' = 0 \<and> rcap rb' = rcap rb"
proof (induction "length d - w" arbitrary: rb w rule: less_induct)
  case less
  show ?case
  proof (cases "w < length d")
    case False
    with less.prems have "w = length d" by simp
    with less.prems show ?thesis by (simp add: writeLoop_done)
  next
    case True
    define k where "k = min (rcap rb) (length d - w)"
    let ?rb = "rb\<lparr>buf := splice 0 (slice w (w + k) d) (buf rb), tail := if k = rcap rb then 0 else k\<rparr>"
    have k: "0 < k" "k \<le> rcap rb" "w + k \<le> length d" using True less.prems(1) by (auto simp: k_def)
    have c: "rcap ?rb = rcap rb" using k by simp
    have "writeIter rb d w = Continue ?rb (w + k)"
      using less.prems True k by (auto simp: writeIter_def Let_def k_def min_def)
    then have s: "writeLoop rb d w = writeLoop ?rb d (w + k)" using True by (rule writeLoop_step [rotated])
    show ?thesis
    proof (cases "k = rcap rb")
      case True
      have dec: "length d - (w + k) < length d - w" using k \<open>w < length d\<close> by linarith
      have "\<exists>rb'. writeLoop ?rb d (w + k) = Some (Ret (rb', length d)) \<and> rsize rb' = 0 \<and> rcap rb' = rcap ?rb"
        using less.prems k c True \<open>w < length d\<close>
          by (intro less.hyps dec) simp_all
      with s c show ?thesis by simp
    next
      case False
      then have "w + k = length d" using k by (auto simp: k_def)
      with s c less.prems show ?thesis by (simp add: writeLoop_done)
    qed
  qed
qed

text \<open>C1: a write with room for it (growing the storage when the bytes do not fit) takes every
  byte, reports their number, keeps the ring well formed and appends the bytes to the queue.\<close>

theorem Write_appends:
  assumes "ring_ok rb" "can_write rb (length d)"
  shows "\<exists>rb'. Write rb d = Some (Ret (rb', length d)) \<and> ring_ok rb' \<and> content rb' = content rb @ d"
  using Write_ok [OF assms] by blast

theorem Write_appends_witness:
  "\<exists>rb'. Write (NewRingBufferWithCapacity 4 16) (replicate 5 7) = Some (Ret (rb', 5)) \<and> ring_ok rb'
     \<and> content rb' = replicate 5 7"
proof -
  have "can_write (NewRingBufferWithCapacity 4 16) (length (replicate 5 (7 :: 8 word)))"
    by (simp add: can_write_def NewRingBufferWithCapacity_def)
  from Write_appends [OF new_ring_ok(1) this] show ?thesis
    by (simp only: new_ring_ok length_replicate append_Nil)
qed

text \<open>C5: on a well-formed ring no reading operation panics, and each is the queue operation its
  name says: a read takes the longest available prefix, a frame is taken whole or not at all, the
  peeking operations return what the reading ones would and leave the ring alone, the vectors of
  \<^verbatim>\<open>PrepareIovecs\<close> spell the queue, discarding drops a prefix.\<close>

theorem reads_refine_queue:
  assumes "ring_ok rb"
  shows "(\<exists>rb'. Read rb m = Ret (rb', take m (content rb)) \<and> ring_ok rb' \<and> content rb' = drop m (content rb))
    \<and> (\<exists>rb'. ReadAll rb = Ret (rb', content rb) \<and> ring_ok rb' \<and> content rb' = [])
    \<and> (let whole = 0 < n \<and> nat n \<le> length (content rb)
       in PeekFrame rb n = Ret (if whole then Some (take (nat n) (content rb)) else None)
        \<and> (\<exists>rb'. ReadFrame rb n = Ret (rb', if whole then Some (take (nat n) (content rb)) else None)
            \<and> ring_ok rb' \<and> content rb' = (if whole then drop (nat n) (content rb) else content rb)))
    \<and> Peek rb n = Ret (take (nat n) (content rb))
    \<and> (\<exists>rb'. Discard rb n = Ret rb' \<and> ring_ok rb' \<and> content rb' = drop (nat n) (content rb))
    \<and> concat (PrepareIovecs rb) = content rb"
  unfolding Let_def
  by (intro conjI Read_ok ReadAll_ok ReadFrame_ok PeekFrame_ok Peek_ok Discard_ok PrepareIovecs_ok assms)

theorem reads_refine_queue_witness:
  "\<exists>rb'. ReadFrame \<lparr>buf = [4, 0, 2, 3], head = 2, tail = 1, rsize = 3, initialCapacity = 4, maxCapacity = 8\<rparr> 2
       = Ret (rb', Some [2, 3]) \<and> content rb' = [4]"
proof -
  let ?rb = "\<lparr>buf = [4, 0, 2, 3], head = 2, tail = 1, rsize = 3, initialCapacity = 4, maxCapacity = 8\<rparr> :: ring"
  have "ring_ok ?rb" "content ?rb = [2, 3, 4]" by (simp_all add: ring_ok_def content_def)
  with reads_refine_queue [of ?rb 0 2] show ?thesis by (auto simp: Let_def)
qed

text \<open>Growing and shrinking move the bytes to other storage and keep the queue; the storage
  never gets smaller by growing, nor larger than the limit.\<close>

theorem Grow_Shrink_keep_queue:
  assumes "ring_ok rb"
  shows "ring_ok (Grow rb k) \<and> content (Grow rb k) = content rb \<and> Cap rb \<le> Cap (Grow rb k)
    \<and> Cap (Grow rb k) \<le> max (Cap rb) (maxCapacity rb)
    \<and> ring_ok (Shrink rb) \<and> content (Shrink rb) = content rb"
  using grow_ok [OF assms] Shrink_ok [OF assms] by (simp add: Grow_def Cap_def)

theorem Grow_Shrink_keep_queue_witness:
  "content (Shrink (Grow \<lparr>buf = [4, 0, 2, 3], head = 2, tail = 1, rsize = 3, initialCapacity = 4, maxCapacity = 64\<rparr> 9))
     = [2, 3, 4]"
proof -
  let ?rb = "\<lparr>buf = [4, 0, 2, 3], head = 2, tail = 1, rsize = 3, initialCapacity = 4, maxCapacity = 64\<rparr> :: ring"
  have "ring_ok ?rb" "content ?rb = [2, 3, 4]" by (simp_all add: ring_ok_def content_def)
  with Grow_Shrink_keep_queue [of ?rb 9] Grow_Shrink_keep_queue [of "Grow ?rb 9"] show ?thesis by simp
qed

text \<open>C14: a write behind a queue that ends before the end of the storage, with bytes that fit in
  the free space but not before the end (or with the storage at its largest), never returns: when
  the tail reaches the end it is not set back to the front, and the loop goes on copying nothing.\<close>

theorem Write_never_returns:
  assumes "ring_ok rb" "head rb < tail rb" "0 < rsize rb" "rsize rb < Cap rb" "tail rb + length d > Cap rb"
    "rsize rb + length d \<le> Cap rb \<or> maxCapacity rb \<le> Cap rb"
  shows "Write rb d = None"
proof -
  have g: "(if rsize rb + length d > rcap rb then grow rb (length d) else rb) = rb"
    using assms(6) grow_stays [of rb] by (auto simp: Cap_def)
  have "length d \<noteq> 0" using assms(1,5) by (auto simp: Cap_def ring_ok_def)
  then show ?thesis
    using blocked_loops [of rb d] assms g by (simp add: Write_def Let_def writeFromSlice_def Cap_def)
qed

theorem Write_never_returns_witness:
  "Write \<lparr>buf = [0, 0, 1, 2, 3, 0], head = 2, tail = 5, rsize = 3, initialCapacity = 6, maxCapacity = 64\<rparr> [4, 5] = None"
  by (rule Write_never_returns) (simp_all add: ring_ok_def Cap_def)

text \<open>A write of more bytes than the largest storage holds, into an empty ring at the front,
  reports all of them as written and records more bytes than there is storage.\<close>

theorem Write_overflows:
  assumes "ring_ok rb" "rsize rb = 0" "head rb = 0" "tail rb = 0" "maxCapacity rb \<le> Cap rb" "Cap rb < length d"
  shows "\<exists>rb'. Write rb d = Some (Ret (rb', length d)) \<and> Size rb' = length d \<and> Cap rb' < Size rb'"
proof -
  have "0 < rcap rb" using assms(1) by (simp add: ring_ok_def)
  from empty_overwrites [OF this assms(2-4), of 0 d]
  obtain rb' where "writeLoop rb d 0 = Some (Ret (rb', length d))" "rsize rb' = 0" "rcap rb' = rcap rb" by auto
  with assms show ?thesis
    by (auto simp: Write_def Let_def writeFromSlice_def grow_stays Cap_def Size_def)
qed

theorem Write_overflows_witness:
  "\<exists>rb'. Write (NewRingBufferWithCapacity 4 4) (replicate 6 1) = Some (Ret (rb', 6)) \<and> Cap rb' < Size rb'"
  using Write_overflows [OF new_ring_ok(1), of 4 4 "replicate 6 1"]
  by (auto simp: NewRingBufferWithCapacity_def Cap_def)

text \<open>A sequence of calls on a ring: writes, then reads.\<close>

fun writeAllTo :: "ring \<Rightarrow> bytes list \<Rightarrow> ring option" where
  "writeAllTo rb [] = Some rb"
| "writeAllTo rb (d # ds) =
     (case Write rb d of Some (Ret (rb', _)) \<Rightarrow> writeAllTo rb' ds | _ \<Rightarrow> None)"

definition brimRun :: "bytes option" where
  "brimRun =
     (case writeAllTo (NewRingBufferWithCapacity 8 8) [[1, 2, 3, 4], [5, 6, 7, 8]] of
        None \<Rightarrow> None
      | Some rb1 \<Rightarrow>
          (case Read rb1 8 of
             Panic \<Rightarrow> None
           | Ret (rb2, _) \<Rightarrow>
               (case writeAllTo rb2 [[1, 2, 3, 4], [5, 6, 7, 8]] of
                  None \<Rightarrow> None
                | Some rb3 \<Rightarrow> (case ReadAll rb3 of Panic \<Rightarrow> None | Ret (_, data) \<Rightarrow> Some data))))"

definition writevRun :: "(nat \<times> nat \<times> nat) option" where
  "writevRun =
     (case Writev (NewRingBufferWithCapacity 8 8) [[1, 2, 3, 4, 5, 6], [7, 8, 9, 10, 11, 12]] of
        Some (Ret (rb, n)) \<Rightarrow> Some (n, Size rb, Cap rb)
      | _ \<Rightarrow> None)"

text \<open>Two runs on a ring of eight bytes that lose data.  A ring that was read to its last byte
  of storage and is then filled to the brim gives back eight zeros; and one \<^verbatim>\<open>Writev\<close> of two
  vectors of six bytes reports twelve bytes written and records twelve in eight bytes of storage,
  since the size is not updated between the vectors.\<close>

theorem brim_and_writev_lose_data:
  "brimRun = Some [0, 0, 0, 0, 0, 0, 0, 0] \<and> writevRun = Some (12, 12, 8)"
proof
  show "brimRun = Some [0, 0, 0, 0, 0, 0, 0, 0]" by code_simp
  show "writevRun = Some (12, 12, 8)" by code_simp
qed

end
