(* ===== verification/BufferUtils.thy ===== *)
theory BufferUtils
  imports RingBuffer
begin

text \<open>
  \<^verbatim>\<open>util/net/base/buffer/interfaces.go\<close> and \<^verbatim>\<open>utils.go\<close>: the interface \<^verbatim>\<open>Buffer\<close>
  as a record of its methods, and the functions that use it.  A writer is a function from its
  state and the bytes to the new state, the number of bytes taken and an error; a reader is the
  list of the results its calls give, \<^verbatim>\<open>io.EOF\<close> from then on.  The contract that the
  functions rely on is the locale \<open>fifo_buffer\<close>; the ring buffer interprets it.
\<close>

section \<open>The interface\<close>

datatype io_error = EOF | ShortWrite | OtherError string

record 'b Buffer =
  bWrite :: "'b \<Rightarrow> bytes \<Rightarrow> ('b \<times> nat) outcome option"
  bReadAll :: "'b \<Rightarrow> ('b \<times> bytes) outcome"
  bRead :: "'b \<Rightarrow> nat \<Rightarrow> ('b \<times> bytes) outcome"
  bPeek :: "'b \<Rightarrow> int \<Rightarrow> bytes outcome"
  bReadFrame :: "'b \<Rightarrow> int \<Rightarrow> ('b \<times> bytes option) outcome"
  bReset :: "'b \<Rightarrow> 'b"
  bSize :: "'b \<Rightarrow> nat"
  bCap :: "'b \<Rightarrow> nat"

type_synonym read_result = "bytes \<times> io_error option"
type_synonym 'w writer = "'w \<Rightarrow> bytes \<Rightarrow> 'w \<times> nat \<times> io_error option"

fun nextRead :: "read_result list \<Rightarrow> read_result \<times> read_result list" where
  "nextRead [] = (([], Some EOF), [])"
| "nextRead (r # rs) = (r, rs)"

text \<open>Sequencing of calls that may not return or panic.\<close>

fun andThen :: "'a outcome option \<Rightarrow> ('a \<Rightarrow> 'b outcome option) \<Rightarrow> 'b outcome option" where
  "andThen None f = None"
| "andThen (Some Panic) f = Some Panic"
| "andThen (Some (Ret x)) f = f x"

section \<open>The functions\<close>

fun writeFrameLoop :: "'b Buffer \<Rightarrow> 'b \<Rightarrow> bytes list \<Rightarrow> 'b outcome option" where
  "writeFrameLoop B b [] = Some (Ret b)"
| "writeFrameLoop B b (frame # frames) =
     andThen (bWrite B b frame) (\<lambda>(b', _). writeFrameLoop B b' frames)"

definition WriteFrames ::
  "'b Buffer \<Rightarrow> 'w writer \<Rightarrow> 'w \<Rightarrow> bytes list \<Rightarrow> 'b \<Rightarrow> ('b \<times> 'w \<times> io_error option) outcome option" where
  "WriteFrames B write w frames b =
     andThen (writeFrameLoop B (bReset B b) frames) (\<lambda>b1.
     andThen (Some (bReadAll B b1)) (\<lambda>(b2, data).
       let (w', _, err) = write w data in Some (Ret (b2, w', err))))"

fun fillLoop :: "'b Buffer \<Rightarrow> read_result list \<Rightarrow> int \<Rightarrow> 'b
    \<Rightarrow> ('b \<times> read_result list \<times> io_error option) outcome option" where
  "fillLoop B [] frameLen b =
     Some (Ret (b, [], if int (bSize B b) < frameLen then Some EOF else None))"
| "fillLoop B ((data, err) # rs) frameLen b =
     (if int (bSize B b) < frameLen then
        (case err of
           Some e \<Rightarrow> Some (Ret (b, rs, Some e))
         | None \<Rightarrow>
             if length data > 0 then andThen (bWrite B b data) (\<lambda>(b', _). fillLoop B rs frameLen b')
             else fillLoop B rs frameLen b)
      else Some (Ret (b, (data, err) # rs, None)))"

text \<open>\<^verbatim>\<open>ReadFrame(reader, frameLen, buf)\<close>: the frame (nil as \<open>None\<close>) and the error.\<close>

definition ReadFrameFrom :: "'b Buffer \<Rightarrow> read_result list \<Rightarrow> int \<Rightarrow> 'b
    \<Rightarrow> ('b \<times> read_result list \<times> bytes option \<times> io_error option) outcome option" where
  "ReadFrameFrom B reader frameLen b =
     (if frameLen \<le> 0 then Some (Ret (b, reader, None, None))
      else andThen (fillLoop B reader frameLen b) (\<lambda>(b1, reader', err).
        case err of
          Some e \<Rightarrow> Some (Ret (b1, reader', None, Some e))
        | None \<Rightarrow>
            andThen (Some (bReadFrame B b1 frameLen)) (\<lambda>(b2, frame).
              case frame of
                None \<Rightarrow> Some (Ret (b2, reader', None, Some EOF))
              | Some f \<Rightarrow> Some (Ret (b2, reader', Some f, None)))))"

text \<open>\<^verbatim>\<open>CopyBuffer(dst, src, buf)\<close>; the last component is the error.\<close>

fun CopyBuffer :: "'b Buffer \<Rightarrow> 'w writer \<Rightarrow> 'w \<Rightarrow> read_result list \<Rightarrow> 'b \<Rightarrow> nat
    \<Rightarrow> ('b \<times> 'w \<times> nat \<times> io_error option) outcome option" where
  "CopyBuffer B write w [] b written = Some (Ret (bReset B b, w, written, None))"
| "CopyBuffer B write w ((data, er) # rs) b written =
     (let b0 = bReset B b;
          end_or_next = (\<lambda>b w written.
            case er of
              None \<Rightarrow> CopyBuffer B write w rs b written
            | Some EOF \<Rightarrow> Some (Ret (b, w, written, None))
            | Some e \<Rightarrow> Some (Ret (b, w, written, Some e)))
      in if length data > 0 then
           andThen (bWrite B b0 data) (\<lambda>(b1, _).
           andThen (Some (bReadAll B b1)) (\<lambda>(b2, bs).
             let (w', nw, ew) = write w bs; written' = written + nw
             in case ew of
                  Some e \<Rightarrow> Some (Ret (b2, w', written', Some e))
                | None \<Rightarrow>
                    if length data \<noteq> nw then Some (Ret (b2, w', written', Some ShortWrite))
                    else end_or_next b2 w' written'))
         else end_or_next b0 w written)"

text \<open>\<^verbatim>\<open>BufferedWriter\<close>: the writer's state and the buffer.\<close>

definition BufferedWriter_Write :: "'b Buffer \<Rightarrow> 'w \<times> 'b \<Rightarrow> bytes \<Rightarrow> (('w \<times> 'b) \<times> nat) outcome option" where
  "BufferedWriter_Write B bw data =
     andThen (bWrite B (snd bw) data) (\<lambda>(b', n). Some (Ret ((fst bw, b'), n)))"

definition BufferedWriter_Flush :: "'b Buffer \<Rightarrow> 'w writer \<Rightarrow> 'w \<times> 'b
    \<Rightarrow> (('w \<times> 'b) \<times> io_error option) outcome option" where
  "BufferedWriter_Flush B write bw =
     andThen (Some (bReadAll B (snd bw))) (\<lambda>(b', data).
       if length data = 0 then Some (Ret ((fst bw, b'), None))
       else let (w', _, err) = write (fst bw) data in Some (Ret ((w', b'), err)))"

text \<open>\<^verbatim>\<open>BufferedReader.Read(data)\<close> for \<open>m = len(data)\<close>, and \<^verbatim>\<open>Peek\<close>.\<close>

definition BufferedReader_Read :: "'b Buffer \<Rightarrow> read_result list \<times> 'b \<Rightarrow> nat
    \<Rightarrow> ((read_result list \<times> 'b) \<times> bytes \<times> io_error option) outcome option" where
  "BufferedReader_Read B br m =
     (if bSize B (snd br) < m then
        (let ((data, err), reader') = nextRead (fst br)
         in if err \<noteq> None \<and> err \<noteq> Some EOF then Some (Ret ((reader', snd br), [], err))
            else andThen (if length data > 0 then bWrite B (snd br) data else Some (Ret (snd br, 0))) (\<lambda>(b', _).
                 andThen (Some (bRead B b' m)) (\<lambda>(b'', bs). Some (Ret ((reader', b''), bs, None)))))
      else andThen (Some (bRead B (snd br) m)) (\<lambda>(b'', bs). Some (Ret ((fst br, b''), bs, None))))"

definition BufferedReader_Peek :: "'b Buffer \<Rightarrow> read_result list \<times> 'b \<Rightarrow> int
    \<Rightarrow> ((read_result list \<times> 'b) \<times> bytes) outcome option" where
  "BufferedReader_Peek B br n =
     andThen (fillLoop B (fst br) n (snd br)) (\<lambda>(b1, reader', err).
       andThen (Some (bPeek B b1 (if err = None then n else int (bSize B b1))))
         (\<lambda>bs. Some (Ret ((reader', b1), bs))))"

section \<open>The contract and what follows from it\<close>

text \<open>
  A buffer is a queue of bytes.  \<open>room b n\<close> says that writes of \<open>n\<close> bytes in all
  work; after a reset it holds up to \<open>limit b\<close>.
\<close>

locale fifo_buffer =
  fixes B :: "'b Buffer"
    and ok :: "'b \<Rightarrow> bool"
    and queue :: "'b \<Rightarrow> bytes"
    and room :: "'b \<Rightarrow> nat \<Rightarrow> bool"
    and lim :: "'b \<Rightarrow> nat"
  assumes write_law: "ok b \<Longrightarrow> room b n \<Longrightarrow> length d \<le> n \<Longrightarrow>
      \<exists>b'. bWrite B b d = Some (Ret (b', length d)) \<and> ok b' \<and> queue b' = queue b @ d
        \<and> lim b' = lim b \<and> room b' (n - length d)"
    and readAll_law: "ok b \<Longrightarrow> \<exists>b'. bReadAll B b = Ret (b', queue b) \<and> ok b' \<and> queue b' = [] \<and> lim b' = lim b"
    and read_law: "ok b \<Longrightarrow> \<exists>b'. bRead B b m = Ret (b', take m (queue b)) \<and> ok b' \<and> queue b' = drop m (queue b)"
    and peek_law: "ok b \<Longrightarrow> bPeek B b k = Ret (take (nat k) (queue b))"
    and readFrame_law: "ok b \<Longrightarrow> 0 < k \<Longrightarrow> nat k \<le> length (queue b) \<Longrightarrow>
      \<exists>b'. bReadFrame B b k = Ret (b', Some (take (nat k) (queue b))) \<and> ok b' \<and> queue b' = drop (nat k) (queue b)"
    and reset_law: "ok b \<Longrightarrow> ok (bReset B b) \<and> queue (bReset B b) = [] \<and> lim (bReset B b) = lim b"
    and reset_room_law: "ok b \<Longrightarrow> n \<le> lim b \<Longrightarrow> room (bReset B b) n"
    and size_law: "ok b \<Longrightarrow> bSize B b = length (queue b)"
begin

lemma writeFrameLoop_ok:
  "ok b \<Longrightarrow> room b (length (concat frames)) \<Longrightarrow>
   \<exists>b'. writeFrameLoop B b frames = Some (Ret b') \<and> ok b' \<and> queue b' = queue b @ concat frames \<and> lim b' = lim b"
proof (induction frames arbitrary: b)
  case (Cons f fs)
  have "length f \<le> length (concat (f # fs))" by simp
  from write_law [OF Cons.prems this] obtain b1 where
    b1: "bWrite B b f = Some (Ret (b1, length f))" "ok b1" "queue b1 = queue b @ f" "lim b1 = lim b"
      "room b1 (length (concat (f # fs)) - length f)" by blast
  then have "room b1 (length (concat fs))" by simp
  from Cons.IH [OF b1(2) this] b1 show ?case by auto
qed simp

lemma WriteFrames_sends_all:
  assumes "ok b" "length (concat frames) \<le> lim b"
  shows "\<exists>b'. WriteFrames B send w frames b =
      Some (Ret (b', fst (send w (concat frames)), snd (snd (send w (concat frames))))) \<and> ok b' \<and> queue b' = []"
proof -
  have r: "ok (bReset B b)" "queue (bReset B b) = []" "room (bReset B b) (length (concat frames))"
    using reset_law [OF assms(1)] reset_room_law [OF assms] by auto
  from writeFrameLoop_ok [OF r(1,3)] obtain b1 where
    b1: "writeFrameLoop B (bReset B b) frames = Some (Ret b1)" "ok b1" "queue b1 = concat frames"
    using r(2) by auto
  from readAll_law [OF b1(2)] b1(3) obtain b2 where
    b2: "bReadAll B b1 = Ret (b2, concat frames)" "ok b2" "queue b2 = []" by auto
  with b1 show ?thesis by (simp add: WriteFrames_def split_beta)
qed

text \<open>The bytes of the calls that a reader answers without an error before the frame is complete.\<close>

lemma fillLoop_ok:
  "ok b \<Longrightarrow> room b (length (concat (map fst rs))) \<Longrightarrow> \<forall>r\<in>set rs. snd r = None \<Longrightarrow>
   frameLen \<le> int (length (queue b) + length (concat (map fst rs))) \<Longrightarrow>
   \<exists>b' rs1 rs2. fillLoop B rs frameLen b = Some (Ret (b', rs2, None)) \<and> rs = rs1 @ rs2 \<and> ok b' \<and>
      queue b' = queue b @ concat (map fst rs1) \<and> frameLen \<le> int (length (queue b'))"
proof (induction rs arbitrary: b)
  case Nil
  then show ?case by (simp add: size_law)
next
  case (Cons r rs)
  obtain d where r: "r = (d, None)" using Cons.prems(3) by (cases r) auto
  show ?case
  proof (cases "int (bSize B b) < frameLen")
    case False
    with Cons.prems(1) r show ?thesis
      by (intro exI [of _ b] exI [of _ "[]"] exI [of _ "r # rs"]) (simp add: size_law)
  next
    case True
    have "length d \<le> length (concat (map fst (r # rs)))" using r by simp
    from write_law [OF Cons.prems(1,2) this] obtain b1 where
      b1: "bWrite B b d = Some (Ret (b1, length d))" "ok b1" "queue b1 = queue b @ d"
        "room b1 (length (concat (map fst (r # rs))) - length d)" by blast
    define b2 where "b2 = (if length d > 0 then b1 else b)"
    have s: "fillLoop B (r # rs) frameLen b = fillLoop B rs frameLen b2"
      using True r b1(1) by (simp add: b2_def)
    have "ok b2" "queue b2 = queue b @ d" "room b2 (length (concat (map fst rs)))"
      using b1 Cons.prems(1,2) r by (auto simp: b2_def)
    with Cons.IH [of b2] Cons.prems r obtain b' rs1 rs2 where
      "fillLoop B rs frameLen b2 = Some (Ret (b', rs2, None))" "rs = rs1 @ rs2" "ok b'"
      "queue b' = queue b2 @ concat (map fst rs1)" "frameLen \<le> int (length (queue b'))" by auto
    with s r \<open>queue b2 = queue b @ d\<close> show ?thesis
      by (intro exI [of _ b'] exI [of _ "r # rs1"] exI [of _ rs2]) auto
  qed
qed

lemma ReadFrameFrom_ok:
  assumes "ok b" "room b (length (concat (map fst rs)))" "\<forall>r\<in>set rs. snd r = None" "0 < k"
    "k \<le> int (length (queue b @ concat (map fst rs)))"
  shows "\<exists>b' rs'. ReadFrameFrom B rs k b =
        Some (Ret (b', rs', Some (take (nat k) (queue b @ concat (map fst rs))), None)) \<and> ok b' \<and>
      queue b' @ concat (map fst rs') = drop (nat k) (queue b @ concat (map fst rs))"
proof -
  from fillLoop_ok [OF assms(1-3), of k] assms(5) obtain b1 rs1 rs2 where
    b1: "fillLoop B rs k b = Some (Ret (b1, rs2, None))" "rs = rs1 @ rs2" "ok b1"
      "queue b1 = queue b @ concat (map fst rs1)" "k \<le> int (length (queue b1))" by auto
  have "nat k \<le> length (queue b1)" using b1(5) by simp
  from readFrame_law [OF b1(3) assms(4) this] obtain b2 where
    "bReadFrame B b1 k = Ret (b2, Some (take (nat k) (queue b1)))" "ok b2" "queue b2 = drop (nat k) (queue b1)"
    by blast
  with b1 assms(4) show ?thesis by (auto simp: ReadFrameFrom_def)
qed

text \<open>Copying: the writer is given exactly the chunks the reader gives, in order.\<close>

lemma CopyBuffer_ok:
  assumes total: "\<And>w bs. snd (send w bs) = (length bs, None)"
  shows "ok b \<Longrightarrow> \<forall>r\<in>set rs. length (fst r) \<le> lim b \<and> snd r = None \<Longrightarrow>
   \<exists>b'. CopyBuffer B send w rs b n =
      Some (Ret (b', fold (\<lambda>bs w. fst (send w bs)) (filter (\<lambda>bs. bs \<noteq> []) (map fst rs)) w,
                 n + length (concat (map fst rs)), None)) \<and> ok b'"
proof (induction rs arbitrary: b w n)
  case Nil
  then show ?case by (simp add: reset_law)
next
  case (Cons r rs)
  obtain d where r: "r = (d, None)" "length d \<le> lim b" using Cons.prems(2) by (cases r) auto
  have b0: "ok (bReset B b)" "queue (bReset B b) = []" "room (bReset B b) (length d)" "lim (bReset B b) = lim b"
    using reset_law [OF Cons.prems(1)] reset_room_law [OF Cons.prems(1) r(2)] by auto
  show ?case
  proof (cases "d = []")
    case True
    with Cons.IH [OF b0(1), of w n] Cons.prems(2) b0(4) r show ?thesis by (simp add: Let_def)
  next
    case False
    from write_law [OF b0(1,3) order.refl] b0 obtain b1 where
      b1: "bWrite B (bReset B b) d = Some (Ret (b1, length d))" "ok b1" "queue b1 = d" "lim b1 = lim b" by auto
    from readAll_law [OF b1(2)] b1 obtain b2 where
      b2: "bReadAll B b1 = Ret (b2, d)" "ok b2" "lim b2 = lim b" by auto
    obtain w' where w': "send w d = (w', length d, None)"
      using total [of w d] by (metis prod.collapse)
    have "CopyBuffer B send w (r # rs) b n = CopyBuffer B send w' rs b2 (n + length d)"
      using False r b1 b2 w' by (simp add: Let_def)
    with Cons.IH [OF b2(2), of w' "n + length d"] Cons.prems(2) b2(3) r False w' show ?thesis
      by (simp add: add.assoc)
  qed
qed

lemma BufferedWriter_roundtrip:
  assumes "ok b" "room b (length d + length e)" "queue b = []"
  shows "\<exists>b1 b2 b3. BufferedWriter_Write B (w, b) d = Some (Ret ((w, b1), length d)) \<and>
     BufferedWriter_Write B (w, b1) e = Some (Ret ((w, b2), length e)) \<and>
     BufferedWriter_Flush B send (w, b2) =
       Some (Ret ((if d @ e = [] then w else fst (send w (d @ e)), b3),
                  if d @ e = [] then None else snd (snd (send w (d @ e))))) \<and> queue b3 = []"
proof -
  from write_law [OF assms(1,2), of d] assms(3) obtain b1 where
    b1: "bWrite B b d = Some (Ret (b1, length d))" "ok b1" "queue b1 = d" "room b1 (length e)" by auto
  from write_law [OF b1(2,4) order.refl] b1(3) obtain b2 where
    b2: "bWrite B b1 e = Some (Ret (b2, length e))" "ok b2" "queue b2 = d @ e" by auto
  from readAll_law [OF b2(2)] b2(3) obtain b3 where
    "bReadAll B b2 = Ret (b3, d @ e)" "queue b3 = []" by auto
  with b1 b2 show ?thesis
    by (intro exI [of _ b1] exI [of _ b2] exI [of _ b3])
      (simp add: BufferedWriter_Write_def BufferedWriter_Flush_def split_beta)
qed

end

section \<open>The ring buffer\<close>

definition ring_Buffer :: "ring Buffer" where
  "ring_Buffer = \<lparr>bWrite = Write, bReadAll = ReadAll, bRead = Read, bPeek = Peek, bReadFrame = ReadFrame,
     bReset = Reset, bSize = Size, bCap = Cap\<rparr>"

lemma ring_Buffer_simps [simp]:
  "bWrite ring_Buffer = Write" "bReadAll ring_Buffer = ReadAll" "bRead ring_Buffer = Read"
  "bPeek ring_Buffer = Peek" "bReadFrame ring_Buffer = ReadFrame" "bReset ring_Buffer = Reset"
  "bSize ring_Buffer = Size" "bCap ring_Buffer = Cap"
  by (simp_all add: ring_Buffer_def)

interpretation rbuf: fifo_buffer ring_Buffer ring_ok content series_room limit
proof unfold_locales
  fix b n and d :: bytes
  assume "ring_ok b" "series_room b n" "length d \<le> n"
  from Write_series [OF this]
  show "\<exists>b'. bWrite ring_Buffer b d = Some (Ret (b', length d)) \<and> ring_ok b' \<and> content b' = content b @ d
      \<and> limit b' = limit b \<and> series_room b' (n - length d)"
    by simp
next
  fix b :: ring
  assume "ring_ok b"
  then show "\<exists>b'. bReadAll ring_Buffer b = Ret (b', content b) \<and> ring_ok b' \<and> content b' = [] \<and> limit b' = limit b"
    using ReadAll_ok [of b] ReadAll_limit [of b] by (auto simp: limit_def)
next
  fix b :: ring and k
  assume "ring_ok b" "0 < k" "nat k \<le> length (content b)"
  then show "\<exists>b'. bReadFrame ring_Buffer b k = Ret (b', Some (take (nat k) (content b))) \<and> ring_ok b'
      \<and> content b' = drop (nat k) (content b)"
    using ReadFrame_ok [of b k] by simp
next
  fix b :: ring and n
  assume "ring_ok b" "n \<le> limit b"
  then show "series_room (bReset ring_Buffer b) n"
    by (simp add: series_room_def Reset_def limit_def)
next
  fix b :: ring
  assume "ring_ok b"
  then show "ring_ok (bReset ring_Buffer b) \<and> content (bReset ring_Buffer b) = [] \<and> limit (bReset ring_Buffer b) = limit b"
    using Reset_ok [of b] by (simp add: limit_def Reset_def)
qed (simp_all add: Read_ok Peek_ok length_content Size_def)

text \<open>\<^verbatim>\<open>WriteFrames\<close> over the ring buffer hands the writer all frames in one call,
  concatenated in order, and returns the writer's error, whenever they fit in the largest storage.\<close>

theorem WriteFrames_over_ring:
  assumes "ring_ok rb" "length (concat frames) \<le> limit rb"
  shows "\<exists>rb'. WriteFrames ring_Buffer send w frames rb =
      Some (Ret (rb', fst (send w (concat frames)), snd (snd (send w (concat frames)))))
    \<and> ring_ok rb' \<and> content rb' = []"
  using assms by (rule rbuf.WriteFrames_sends_all)

theorem WriteFrames_over_ring_witness:
  "\<exists>rb'. WriteFrames ring_Buffer (\<lambda>w bs. (w @ [bs], length bs, None)) [] [[1, 2], [], [3]] (NewRingBuffer 4)
     = Some (Ret (rb', [[1, 2, 3]], None))"
proof -
  have "length (concat [[1 :: 8 word, 2], [], [3]]) \<le> limit (NewRingBuffer 4)"
    by (simp add: limit_def NewRingBuffer_def)
  from WriteFrames_over_ring [OF new_ring_ok(3) this, of "\<lambda>w bs. (w @ [bs], length bs, None)" "[]"]
  show ?thesis by auto
qed

text \<open>\<^verbatim>\<open>CopyBuffer\<close> over the ring buffer copies: as long as the reader gives chunks that fit
  the buffer and the writer takes them whole, the writer is called with every non-empty chunk in order,
  and the number of bytes reported is the number read.\<close>

theorem CopyBuffer_copies:
  assumes "ring_ok rb" "\<And>w bs. snd (send w bs) = (length bs, None)"
    "\<forall>r\<in>set rs. length (fst r) \<le> Cap rb \<and> snd r = None"
  shows "\<exists>rb'. CopyBuffer ring_Buffer send w rs rb 0 =
      Some (Ret (rb', fold (\<lambda>bs w. fst (send w bs)) (filter (\<lambda>bs. bs \<noteq> []) (map fst rs)) w,
                 length (concat (map fst rs)), None)) \<and> ring_ok rb'"
proof -
  have "\<forall>r\<in>set rs. length (fst r) \<le> limit rb \<and> snd r = None"
    using assms(3) by (auto simp: limit_def Cap_def le_max_iff_disj)
  from rbuf.CopyBuffer_ok [of send, OF assms(2,1) this, where n = 0] show ?thesis by simp
qed

theorem CopyBuffer_copies_witness:
  "\<exists>rb'. CopyBuffer ring_Buffer (\<lambda>w bs. (w @ bs, length bs, None)) [] [([1, 2], None), ([], None), ([3], None)]
      (NewRingBuffer 4) 0 = Some (Ret (rb', [1, 2, 3], 3, None))"
  using CopyBuffer_copies [OF new_ring_ok(3), of "\<lambda>w bs. (w @ bs, length bs, None)"
      "[([1, 2], None), ([], None), ([3], None)]" 4 "[]"]
  by (auto simp: Cap_def NewRingBuffer_def)

text \<open>\<^verbatim>\<open>ReadFrame\<close> over the ring buffer cuts the byte stream: with the queue and the
  chunks to come holding the frame, and room for them, the frame is the first \<^verbatim>\<open>frameLen\<close>
  bytes of the stream, and the stream that is left follows it without loss.\<close>

theorem ReadFrameFrom_cuts_stream:
  assumes "ring_ok rb" "series_room rb (length (concat (map fst rs)))" "\<forall>r\<in>set rs. snd r = None" "0 < frameLen"
    "frameLen \<le> int (length (content rb @ concat (map fst rs)))"
  shows "\<exists>rb' rs'. ReadFrameFrom ring_Buffer rs frameLen rb =
      Some (Ret (rb', rs', Some (take (nat frameLen) (content rb @ concat (map fst rs))), None)) \<and> ring_ok rb' \<and>
    content rb' @ concat (map fst rs') = drop (nat frameLen) (content rb @ concat (map fst rs))"
  using assms by (rule rbuf.ReadFrameFrom_ok)

theorem ReadFrameFrom_cuts_stream_witness:
  "\<exists>rb' rs'. ReadFrameFrom ring_Buffer [([1, 2], None), ([3, 4], None), ([5], None)] 3 (NewRingBuffer 4) =
      Some (Ret (rb', rs', Some [1, 2, 3], None)) \<and> content rb' @ concat (map fst rs') = [4, 5]"
proof -
  let ?rs = "[([1, 2], None), ([3, 4], None), ([5], None)] :: read_result list"
  have "series_room (NewRingBuffer 4) (length (concat (map fst ?rs)))"
    by (simp add: series_room_def limit_def NewRingBuffer_def)
  from ReadFrameFrom_cuts_stream [OF new_ring_ok(3) this, of 3] show ?thesis
    by (auto simp: new_ring_ok)
qed

end
