(* ===== verification/BufferPool.thy ===== *)
theory BufferPool
  imports RingBuffer
begin

text \<open>
  The pool of ring buffers of \<^verbatim>\<open>util/net/base/buffer/pool.go\<close>: one \<^verbatim>\<open>sync.Pool\<close> per level of size.  A \<^verbatim>\<open>sync.Pool\<close> may
  hand out any buffer that was put into it, or make a new one, so the operation that takes a buffer has the choice as an
  argument.  What the lemmas show: every level holds empty, well-formed buffers of at least its size, and a buffer that is
  taken has the size that was asked for.
\<close>

section \<open>The pool\<close>

record buffer_pool =
  bpPools :: "ring list list"
  bpSizes :: "int list"
  bpMax :: int

definition defaultSizes :: "int list" where
  "defaultSizes = [512, 1024, 2048, 4096, 8192, 16384, 32768, 65536, 131072, 262144, 524288, 1048576]"

definition NewBufferPoolWithSizes :: "int list \<Rightarrow> buffer_pool" where
  "NewBufferPoolWithSizes sizes =
     (let s = (if sizes = [] then defaultSizes else sizes)
      in \<lparr>bpPools = map (\<lambda>_. []) s, bpSizes = s, bpMax = last s\<rparr>)"

definition NewBufferPool :: buffer_pool where
  "NewBufferPool = NewBufferPoolWithSizes defaultSizes"

primrec firstIndex :: "('a \<Rightarrow> bool) \<Rightarrow> 'a list \<Rightarrow> nat option" where
  "firstIndex P [] = None"
| "firstIndex P (x # xs) = (if P x then Some 0 else map_option Suc (firstIndex P xs))"

definition findPoolIndex :: "buffer_pool \<Rightarrow> int \<Rightarrow> nat option" where
  "findPoolIndex bp n = firstIndex (\<lambda>s. n \<le> s) (bpSizes bp)"

definition findExactPoolIndex :: "buffer_pool \<Rightarrow> int \<Rightarrow> nat option" where
  "findExactPoolIndex bp capacity = firstIndex (\<lambda>s. capacity = s \<or> capacity = s * 2) (bpSizes bp)"

text \<open>\<open>pick\<close>: the buffer of the level that the \<^verbatim>\<open>sync.Pool\<close> gives; with no such buffer it makes a new one.\<close>

definition pool_Get :: "int \<Rightarrow> nat option \<Rightarrow> buffer_pool \<Rightarrow> buffer_pool \<times> ring" where
  "pool_Get wanted pick bp =
     (let n = (if wanted \<le> 0 then defaultSizes ! 0 else wanted)
      in if n > bpMax bp then (bp, NewRingBufferWithCapacity n (n * 2))
         else case findPoolIndex bp n of
                None \<Rightarrow> (bp, NewRingBufferWithCapacity n (n * 2))
              | Some i \<Rightarrow>
                  let level = bpPools bp ! i; s = bpSizes bp ! i
                  in case pick of
                       Some j \<Rightarrow>
                         if j < length level
                         then (bp\<lparr>bpPools := (bpPools bp)[i := take j level @ drop (Suc j) level]\<rparr>, Reset (level ! j))
                         else (bp, Reset (NewRingBufferWithCapacity s (s * 2)))
                     | None \<Rightarrow> (bp, Reset (NewRingBufferWithCapacity s (s * 2))))"

definition pool_Put :: "ring \<Rightarrow> buffer_pool \<Rightarrow> buffer_pool" where
  "pool_Put rb bp =
     (case findExactPoolIndex bp (int (Cap rb)) of
        None \<Rightarrow> bp
      | Some i \<Rightarrow> bp\<lparr>bpPools := (bpPools bp)[i := Shrink (Reset rb) # bpPools bp ! i]\<rparr>)"

definition pool_Clear :: "buffer_pool \<Rightarrow> buffer_pool" where
  "pool_Clear bp = bp\<lparr>bpPools := map (\<lambda>_. []) (bpPools bp)\<rparr>"

section \<open>The invariant of the pool\<close>

definition pooled :: "int \<Rightarrow> ring \<Rightarrow> bool" where
  "pooled s rb \<longleftrightarrow> ring_ok rb \<and> content rb = [] \<and> s \<le> int (rcap rb)"

definition pool_ok :: "buffer_pool \<Rightarrow> bool" where
  "pool_ok bp \<longleftrightarrow>
     bpSizes bp = defaultSizes \<and> bpMax bp = 1048576 \<and>
     list_all2 (\<lambda>s level. list_all (pooled s) level) (bpSizes bp) (bpPools bp)"

text \<open>The smallest level takes a buffer of its own capacity, which shrinks to half unless it was made with more.\<close>

definition returnable :: "ring \<Rightarrow> bool" where
  "returnable rb \<longleftrightarrow> ring_ok rb \<and> (rcap rb = 512 \<longrightarrow> 512 \<le> initialCapacity rb)"

lemma firstIndex_SomeD:
  "firstIndex P xs = Some i \<Longrightarrow> i < length xs \<and> P (xs ! i) \<and> (\<forall>j < i. \<not> P (xs ! j))"
  by (induction xs arbitrary: i) (auto split: if_splits simp: less_Suc_eq_0_disj nth_Cons')

lemma firstIndex_None: "firstIndex P xs = None \<longleftrightarrow> (\<forall>x \<in> set xs. \<not> P x)"
  by (induction xs) auto

lemma New_pool_ok: "pool_ok NewBufferPool"
  by (simp add: pool_ok_def NewBufferPool_def NewBufferPoolWithSizes_def defaultSizes_def)

lemma pooled_Reset: "pooled s rb \<Longrightarrow> pooled s (Reset rb)"
  using Reset_ok by (auto simp: pooled_def Reset_def)

lemma pooled_New: "0 < s \<Longrightarrow> pooled s (NewRingBufferWithCapacity s m)"
  unfolding pooled_def by (simp add: new_ring_ok) (simp add: NewRingBufferWithCapacity_def Let_def)

lemma Shrink_half: "rcap rb div 2 \<le> rcap (Shrink rb)" if "ring_ok rb" "rsize rb = 0"
  using that by (auto simp: Shrink_def Let_def relocate_def)

lemma Shrink_initial: "rcap rb \<le> initialCapacity rb \<Longrightarrow> Shrink rb = rb"
  by (simp add: Shrink_def Let_def)

lemma level_sizes:
  assumes "i < length defaultSizes" "c = defaultSizes ! i" "\<forall>j < i. c \<noteq> defaultSizes ! j * 2"
  shows "i = 0"
proof (rule ccontr)
  assume "i \<noteq> 0"
  then obtain k where k: "i = Suc k" by (cases i) auto
  then have "k < 11" using assms(1) by (simp add: defaultSizes_def)
  then have "defaultSizes ! Suc k = defaultSizes ! k * 2"
    by (auto simp: defaultSizes_def less_Suc_eq numeral_eq_Suc)
  with assms(2,3) k show False by auto
qed

lemma put_pooled:
  assumes ok: "returnable rb" and i: "findExactPoolIndex bp (int (Cap rb)) = Some i" and bp: "bpSizes bp = defaultSizes"
  shows "i < length defaultSizes" "pooled (defaultSizes ! i) (Shrink (Reset rb))"
proof -
  have r: "ring_ok (Reset rb)" "rcap (Reset rb) = rcap rb" "initialCapacity (Reset rb) = initialCapacity rb"
    "rsize (Reset rb) = 0" "ring_ok rb" "content (Reset rb) = []"
    using ok Reset_ok by (auto simp: returnable_def Reset_def)
  have s: "ring_ok (Shrink (Reset rb))" "content (Shrink (Reset rb)) = []" using Shrink_ok [OF r(1)] r(6) by auto
  note f = firstIndex_SomeD [OF i [unfolded findExactPoolIndex_def bp Cap_def]]
  then show i': "i < length defaultSizes" by blast
  have "defaultSizes ! i \<le> int (rcap (Shrink (Reset rb)))"
  proof (cases "int (rcap rb) = defaultSizes ! i * 2")
    case True
    with Shrink_half [OF r(1,4)] r(2) show ?thesis by linarith
  next
    case False
    then have c: "int (rcap rb) = defaultSizes ! i" using f by blast
    have "i = 0" by (rule level_sizes [OF i' c]) (use f in auto)
    then have "rcap rb = 512" using c by (simp add: defaultSizes_def)
    with ok r(2,3) have "Shrink (Reset rb) = Reset rb" by (intro Shrink_initial) (simp add: returnable_def)
    with c r(2) show ?thesis by simp
  qed
  with s show "pooled (defaultSizes ! i) (Shrink (Reset rb))" by (simp add: pooled_def)
qed

lemma list_all2_update:
  assumes "list_all2 P xs ys" "P (xs ! i) y"
  shows "list_all2 P xs (ys[i := y])"
  using assms by (auto simp: list_all2_conv_all_nth nth_list_update split: if_splits) (metis nth_list_update_eq nth_list_update_neq)

lemma pool_Put_ok:
  assumes "pool_ok bp" "returnable rb"
  shows "pool_ok (pool_Put rb bp)"
proof (cases "findExactPoolIndex bp (int (Cap rb))")
  case None
  with assms show ?thesis by (simp add: pool_Put_def)
next
  case (Some i)
  have bp: "bpSizes bp = defaultSizes" using assms(1) by (simp add: pool_ok_def)
  note p = put_pooled [OF assms(2) Some bp]
  have "list_all (pooled (defaultSizes ! i)) (bpPools bp ! i)"
    using assms(1) p(1) bp by (auto simp: pool_ok_def list_all2_conv_all_nth)
  with p Some assms(1) bp show ?thesis
    by (simp add: pool_Put_def pool_ok_def list_all2_update)
qed

lemma default_positive: "i < length defaultSizes \<Longrightarrow> 0 < defaultSizes ! i"
  using nth_mem [of i defaultSizes] by (auto simp: defaultSizes_def)

lemma pool_Get_ok:
  assumes ok: "pool_ok bp" and w: "0 < wanted" and g: "pool_Get wanted pick bp = (bp', rb)"
  shows "pool_ok bp' \<and> pooled wanted rb"
proof -
  have bp: "bpSizes bp = defaultSizes" using ok by (simp add: pool_ok_def)
  have new: "pooled wanted (NewRingBufferWithCapacity wanted m)" for m by (rule pooled_New [OF w])
  have level: "pool_ok bp' \<and> pooled (defaultSizes ! i) rb" "wanted \<le> defaultSizes ! i"
    if i: "findPoolIndex bp wanted = Some i" and le: "\<not> wanted > bpMax bp" for i
  proof -
    note f = firstIndex_SomeD [OF i [unfolded findPoolIndex_def bp]]
    have made: "pooled (defaultSizes ! i) (Reset (NewRingBufferWithCapacity (defaultSizes ! i) m))" for m
      using f default_positive by (intro pooled_Reset pooled_New) simp
    have lv: "list_all (pooled (defaultSizes ! i)) (bpPools bp ! i)"
      using ok f bp by (auto simp: pool_ok_def list_all2_conv_all_nth)
    then have rest: "list_all (pooled (defaultSizes ! i)) (take j (bpPools bp ! i) @ drop (Suc j) (bpPools bp ! i))" for j
      by (auto simp: list_all_iff dest: in_set_takeD in_set_dropD)
    have given: "pooled (defaultSizes ! i) (Reset (bpPools bp ! i ! j))" if "j < length (bpPools bp ! i)" for j
      using lv that by (intro pooled_Reset) (simp add: list_all_length)
    show "wanted \<le> defaultSizes ! i" using f by blast
    show "pool_ok bp' \<and> pooled (defaultSizes ! i) rb"
    proof (cases "\<exists>j. pick = Some j \<and> j < length (bpPools bp ! i)")
      case True
      with g i le w bp show ?thesis using ok rest given
        by (auto simp: pool_Get_def Let_def pool_ok_def intro!: list_all2_update)
    next
      case False
      with g i le w bp have "bp' = bp \<and> rb = Reset (NewRingBufferWithCapacity (defaultSizes ! i) (defaultSizes ! i * 2))"
        by (auto simp: pool_Get_def Let_def split: option.splits if_splits)
      with ok made show ?thesis by simp
    qed
  qed
  show ?thesis
  proof (cases "wanted > bpMax bp \<or> findPoolIndex bp wanted = None")
    case True
    with g w new ok show ?thesis by (auto simp: pool_Get_def split: if_splits)
  next
    case False
    then obtain i where "findPoolIndex bp wanted = Some i" "\<not> wanted > bpMax bp" by auto
    from level [OF this] show ?thesis by (auto simp: pooled_def)
  qed
qed

section \<open>What the pool gives\<close>

datatype pool_op = TakeOut int "nat option" | PutBack ring

primrec poolRun :: "buffer_pool \<Rightarrow> pool_op list \<Rightarrow> buffer_pool" where
  "poolRun bp [] = bp"
| "poolRun bp (p # ps) = poolRun (case p of TakeOut n pick \<Rightarrow> fst (pool_Get n pick bp) | PutBack rb \<Rightarrow> pool_Put rb bp) ps"

definition pool_use :: "pool_op \<Rightarrow> bool" where
  "pool_use p \<longleftrightarrow> (case p of TakeOut n _ \<Rightarrow> 0 < n | PutBack rb \<Rightarrow> returnable rb)"

lemma poolRun_ok: "pool_ok bp \<Longrightarrow> list_all pool_use ps \<Longrightarrow> pool_ok (poolRun bp ps)"
proof (induction ps arbitrary: bp)
  case (Cons p ps)
  have "pool_ok (fst (pool_Get n pick bp))" if "0 < n" for n pick
    using pool_Get_ok [OF Cons.prems(1) that, of pick] by (cases "pool_Get n pick bp") auto
  with Cons show ?case by (auto simp: pool_use_def pool_Put_ok split: pool_op.splits)
qed simp

text \<open>After any use of the pool of buffers - taking buffers out, and putting back buffers of the sizes the connections
  use, grown or not and with whatever they still hold - a buffer that is taken out is well-formed and empty and has room
  for at least the size that was asked for.  No connection gets bytes of the connection that had the buffer before.\<close>

theorem pool_gives_clean_buffers:
  assumes "list_all pool_use ps" "0 < wanted"
  shows "ring_ok (snd (pool_Get wanted pick (poolRun NewBufferPool ps)))
    \<and> content (snd (pool_Get wanted pick (poolRun NewBufferPool ps))) = []
    \<and> wanted \<le> int (rcap (snd (pool_Get wanted pick (poolRun NewBufferPool ps))))"
  using pool_Get_ok [OF poolRun_ok [OF New_pool_ok assms(1)] assms(2), of pick]
  by (cases "pool_Get wanted pick (poolRun NewBufferPool ps)") (auto simp: pooled_def)

definition usedRing :: ring where
  "usedRing = \<lparr>buf = replicate 1024 7, head = 0, tail = 1024, rsize = 1024, initialCapacity = 512, maxCapacity = 1024\<rparr>"

theorem pool_gives_clean_buffers_witness:
  "content (snd (pool_Get 512 (Some 0) (poolRun NewBufferPool [PutBack usedRing]))) = []"
proof -
  have "list_all pool_use [PutBack usedRing]"
    by (simp add: pool_use_def returnable_def usedRing_def ring_ok_def)
  from pool_gives_clean_buffers [OF this, of 512 "Some 0"] show ?thesis by simp
qed

end
