(* ===== verification/GoStrings.thy ===== *)
theory GoStrings
  imports Prelude "HOL-Library.Sublist"
begin

text \<open>
  The part of Go's \<^verbatim>\<open>strings\<close>, \<^verbatim>\<open>bytes\<close>, \<^verbatim>\<open>strconv\<close> and \<^verbatim>\<open>bufio\<close> packages that the HTTP code uses.
  A Go string is a sequence of bytes and so is an Isabelle \<^typ>\<open>string\<close>: a \<^typ>\<open>char\<close> is eight bits.
  Where a function of \<^verbatim>\<open>strings\<close> works on Unicode, the ASCII strings are modelled and the tables for the
  others are a parameter.
\<close>

section \<open>Searching and splitting\<close>

text \<open>\<^verbatim>\<open>strings.Index\<close>, \<^verbatim>\<open>bytes.Index\<close>: the result -1 is \<^const>\<open>None\<close>.\<close>

fun Index :: "'a list \<Rightarrow> 'a list \<Rightarrow> nat option" where
  "Index [] pat = (if pat = [] then Some 0 else None)"
| "Index (x # xs) pat = (if prefix pat (x # xs) then Some 0 else map_option Suc (Index xs pat))"

lemma Index_prefix: "Index s pat = Some i \<Longrightarrow> prefix pat (drop i s)"
proof (induction s arbitrary: i)
  case (Cons x s)
  then show ?case by (cases "prefix pat (x # s)") auto
qed (simp split: if_splits)

lemma Index_le: "Index s pat = Some i \<Longrightarrow> i \<le> length s"
proof (induction s arbitrary: i)
  case (Cons x s)
  then show ?case by (cases "prefix pat (x # s)") auto
qed (simp split: if_splits)

lemma Index_Some_split:
  assumes "Index s pat = Some i"
  shows "s = take i s @ pat @ drop (i + length pat) s \<and> i + length pat \<le> length s"
proof -
  obtain r where r: "drop i s = pat @ r" using Index_prefix [OF assms] by (auto simp: prefix_def)
  have "s = take i s @ pat @ r" using append_take_drop_id [of i s] r by simp
  moreover have "drop (i + length pat) s = drop (length pat) (drop i s)" by (simp add: add.commute)
  then have "drop (i + length pat) s = r" using r by simp
  moreover have "length (drop i s) = length pat + length r" using r by simp
  ultimately show ?thesis using Index_le [OF assms] by simp
qed

lemma Index_Some_less: "Index s pat = Some i \<Longrightarrow> i + length pat \<le> length s"
  using Index_Some_split by blast

lemma prefix_of_append: "prefix pat xs \<Longrightarrow> prefix pat (xs @ ys)"
  by (auto simp: prefix_def)

text \<open>More input does not move the first occurrence.\<close>

lemma prefix_long: "prefix pat (xs @ ys) \<Longrightarrow> length pat \<le> length xs \<Longrightarrow> prefix pat xs"
  by (rule prefix_length_prefix [of pat "xs @ ys" xs]) simp_all

lemma Index_append: "Index s pat = Some i \<Longrightarrow> Index (s @ t) pat = Some i"
proof (induction s arbitrary: i)
  case Nil
  then show ?case by (cases t) (auto split: if_splits)
next
  case (Cons x s)
  show ?case
  proof (cases "prefix pat (x # s)")
    case True
    then have "prefix pat ((x # s) @ t)" by (rule prefix_of_append)
    then show ?thesis using True Cons.prems by simp
  next
    case False
    with Cons.prems obtain j where j: "Index s pat = Some j" "i = Suc j" by auto
    have "length pat \<le> length s" using Index_Some_less [OF j(1)] by simp
    then have "\<not> prefix pat ((x # s) @ t)" using False prefix_long [of pat "x # s" t] by (metis length_Cons le_SucI)
    then show ?thesis using Cons.IH [OF j(1)] j(2) by simp
  qed
qed

text \<open>The separator starts with a character that the text before it lacks.\<close>

lemma Index_sep: "a \<notin> set u \<Longrightarrow> Index (u @ (a # p) @ t) (a # p) = Some (length u)"
  by (induction u) auto

lemma Index_None: "a \<notin> set u \<Longrightarrow> Index u (a # p) = None"
  by (induction u) auto

text \<open>\<^verbatim>\<open>strings.SplitN\<close> and \<^verbatim>\<open>strings.Split\<close> with a separator of one character.\<close>

fun SplitN :: "string \<Rightarrow> char \<Rightarrow> nat \<Rightarrow> string list" where
  "SplitN s c 0 = []"
| "SplitN s c (Suc 0) = [s]"
| "SplitN s c (Suc (Suc n)) =
     (if c \<in> set s then takeWhile (\<lambda>x. x \<noteq> c) s # SplitN (tl (dropWhile (\<lambda>x. x \<noteq> c) s)) c (Suc n) else [s])"

fun Split :: "string \<Rightarrow> char \<Rightarrow> string list" where
  "Split [] c = [[]]"
| "Split (x # xs) c =
     (if x = c then [] # Split xs c
      else (case Split xs c of [] \<Rightarrow> [[x]] | p # ps \<Rightarrow> (x # p) # ps))"

lemma Split_not_Nil [simp]: "Split s c \<noteq> []"
  by (induction s) (auto split: list.split)

lemma takeWhile_sep: "c \<notin> set u \<Longrightarrow> takeWhile (\<lambda>x. x \<noteq> c) (u @ c # t) = u"
  by (induction u) auto

lemma dropWhile_sep: "c \<notin> set u \<Longrightarrow> dropWhile (\<lambda>x. x \<noteq> c) (u @ c # t) = c # t"
  by (induction u) auto

lemma SplitN_sep [simp]: "c \<notin> set u \<Longrightarrow> SplitN (u @ c # t) c (Suc (Suc n)) = u # SplitN t c (Suc n)"
  by (simp add: takeWhile_sep dropWhile_sep)

lemma Split_sep: "c \<notin> set u \<Longrightarrow> Split (u @ c # t) c = u # Split t c"
  by (induction u) auto

lemma Split_none: "c \<notin> set u \<Longrightarrow> Split u c = [u]"
  by (induction u) auto

text \<open>\<^verbatim>\<open>strings.Split\<close> with the separator CR LF.\<close>

abbreviation CR :: char where "CR \<equiv> CHR 0x0D"
abbreviation LF :: char where "LF \<equiv> CHR 0x0A"
abbreviation CRLF :: string where "CRLF \<equiv> [CR, LF]"

fun SplitCRLF :: "string \<Rightarrow> string list" where
  "SplitCRLF [] = [[]]"
| "SplitCRLF [x] = [[x]]"
| "SplitCRLF (x # y # ys) =
     (if x = CR \<and> y = LF then [] # SplitCRLF ys
      else (case SplitCRLF (y # ys) of [] \<Rightarrow> [[x]] | p # ps \<Rightarrow> (x # p) # ps))"

lemma SplitCRLF_not_Nil [simp]: "SplitCRLF s \<noteq> []"
  by (induction s rule: SplitCRLF.induct) (auto split: list.split)

lemma SplitCRLF_sep: "CR \<notin> set u \<Longrightarrow> SplitCRLF (u @ CRLF @ t) = u # SplitCRLF t"
proof (induction u)
  case (Cons x u)
  then show ?case by (cases u) auto
qed simp

text \<open>\<^verbatim>\<open>strings.Join\<close>\<close>

fun Join :: "string list \<Rightarrow> string \<Rightarrow> string" where
  "Join [] sep = []"
| "Join [x] sep = x"
| "Join (x # y # ys) sep = x @ sep @ Join (y # ys) sep"

section \<open>Case and white space\<close>

record unicode =
  lower_unicode :: "string \<Rightarrow> string"
  trim_unicode :: "string \<Rightarrow> string"

definition is_ascii :: "string \<Rightarrow> bool" where
  "is_ascii s \<longleftrightarrow> list_all (\<lambda>c. (of_char c :: int) < 128) s"

definition ascii_lower :: "char \<Rightarrow> char" where
  "ascii_lower c = (let n = of_char c :: int in if 65 \<le> n \<and> n \<le> 90 then char_of (n + 32) else c)"

definition ToLower :: "unicode \<Rightarrow> string \<Rightarrow> string" where
  "ToLower U s = (if is_ascii s then map ascii_lower s else lower_unicode U s)"

definition is_space :: "char \<Rightarrow> bool" where
  "is_space c \<longleftrightarrow> c \<in> {CHR 0x09, CHR 0x0A, CHR 0x0B, CHR 0x0C, CHR 0x0D, CHR 0x20}"

definition trim_ascii :: "string \<Rightarrow> string" where
  "trim_ascii s = rev (dropWhile is_space (rev (dropWhile is_space s)))"

definition TrimSpace :: "unicode \<Rightarrow> string \<Rightarrow> string" where
  "TrimSpace U s = (if is_ascii s then trim_ascii s else trim_unicode U s)"

lemma dropWhile_hd: "(s \<noteq> [] \<Longrightarrow> \<not> P (hd s)) \<Longrightarrow> dropWhile P s = s"
  by (cases s) auto

text \<open>A text that neither begins nor ends with white space.\<close>

definition trimmed :: "string \<Rightarrow> bool" where
  "trimmed s \<longleftrightarrow> s = [] \<or> (\<not> is_space (hd s) \<and> \<not> is_space (List.last s))"

lemma trim_trimmed: "trimmed s \<Longrightarrow> trim_ascii s = s"
  unfolding trim_ascii_def trimmed_def by (cases "s = []") (simp_all add: dropWhile_hd hd_rev)

lemma trim_space_trimmed: "trimmed s \<Longrightarrow> trim_ascii (CHR 0x20 # s) = s"
  unfolding trim_ascii_def trimmed_def by (cases "s = []") (simp_all add: is_space_def dropWhile_hd hd_rev)

lemma is_ascii_Nil [simp]: "is_ascii []" and is_ascii_Cons [simp]: "is_ascii (c # s) \<longleftrightarrow> (of_char c :: int) < 128 \<and> is_ascii s"
  and is_ascii_append [simp]: "is_ascii (s @ t) \<longleftrightarrow> is_ascii s \<and> is_ascii t"
  by (auto simp: is_ascii_def)

section \<open>Numbers\<close>

definition digit_val :: "char \<Rightarrow> int option" where
  "digit_val c = (let n = of_char c :: int in
     if 48 \<le> n \<and> n \<le> 57 then Some (n - 48)
     else if 97 \<le> n \<and> n \<le> 122 then Some (n - 87)
     else if 65 \<le> n \<and> n \<le> 90 then Some (n - 55)
     else None)"

fun digits :: "int \<Rightarrow> int \<Rightarrow> string \<Rightarrow> int option" where
  "digits base acc [] = Some acc"
| "digits base acc (c # cs) =
     (case digit_val c of
        Some d \<Rightarrow> if d < base then digits base (acc * base + d) cs else None
      | None \<Rightarrow> None)"

text \<open>\<^verbatim>\<open>strconv.ParseInt(s, base, 64)\<close> with a base between 2 and 36; \<^verbatim>\<open>strconv.Atoi\<close> is the base ten.\<close>

definition ParseInt :: "string \<Rightarrow> int \<Rightarrow> int option" where
  "ParseInt s base =
     (let neg = (s \<noteq> [] \<and> hd s = CHR ''-'');
          ds = (if s \<noteq> [] \<and> (hd s = CHR ''-'' \<or> hd s = CHR ''+'') then tl s else s)
      in if ds = [] then None
         else case digits base 0 ds of
                None \<Rightarrow> None
              | Some n \<Rightarrow> if neg then (if n \<le> 2 ^ 63 then Some (- n) else None)
                          else (if n < 2 ^ 63 then Some n else None))"

abbreviation Atoi :: "string \<Rightarrow> int option" where "Atoi s \<equiv> ParseInt s 10"

definition Itoa :: "int \<Rightarrow> string" where
  "Itoa i = (if i < 0 then CHR ''-'' # dec_string (nat (- i)) else dec_string (nat i))"

lemma digit_val_nonneg: "digit_val c = Some d \<Longrightarrow> 0 \<le> d"
  by (auto simp: digit_val_def Let_def split: if_splits)

lemma digits_nonneg: "digits base acc s = Some n \<Longrightarrow> 0 \<le> acc \<Longrightarrow> 0 \<le> base \<Longrightarrow> 0 \<le> n"
  by (induction s arbitrary: acc) (auto split: option.splits if_splits dest: digit_val_nonneg)

lemma ParseInt_range:
  assumes "ParseInt s base = Some k" "0 \<le> base"
  shows "- (2 ^ 63) \<le> k \<and> k < 2 ^ 63"
  using assms digits_nonneg [of base 0]
  by (auto simp: ParseInt_def Let_def split: option.splits if_splits dest!: digits_nonneg)

lemma digits_append: "digits base acc (s @ t) = Option.bind (digits base acc s) (\<lambda>a. digits base a t)"
  by (induction s arbitrary: acc) (auto split: option.split)

lemma of_char_of_small: "n < 256 \<Longrightarrow> (of_char (char_of (n :: nat)) :: int) = int n"
  by (metis mod_less of_char_of of_nat_of_char)

lemma digit_val_dec: "n < 10 \<Longrightarrow> digit_val (char_of (48 + n)) = Some (int n)"
  using of_char_of_small [of "48 + n"] by (simp add: digit_val_def)

lemma digits_dec_string: "digits 10 0 (dec_string n) = Some (int n)"
proof (induction n rule: dec_string.induct)
  case (1 n)
  show ?case
  proof (cases "n < 10")
    case True
    then show ?thesis by (simp add: dec_string.simps [of n] digit_val_dec)
  next
    case False
    have "digit_val (char_of (48 + n mod 10)) = Some (int (n mod 10))" by (rule digit_val_dec) simp
    moreover have "int (n div 10) * 10 + int (n mod 10) = int n" using div_mult_mod_eq [of n 10] by linarith
    ultimately show ?thesis using 1 False by (simp add: dec_string.simps [of n] digits_append)
  qed
qed

lemma dec_string_chars: "c \<in> set (dec_string n) \<Longrightarrow> 48 \<le> (of_char c :: nat) \<and> (of_char c :: nat) \<le> 57"
proof (induction n rule: dec_string.induct)
  case (1 n)
  then show ?case
    by (subst (asm) (2) dec_string.simps) (auto split: if_splits)
qed

lemma dec_string_not_Nil [simp]: "dec_string n \<noteq> []"
  by (subst dec_string.simps) simp

lemma ParseInt_dec_string: "n < 2 ^ 63 \<Longrightarrow> ParseInt (dec_string n) 10 = Some (int n)"
proof -
  assume n: "n < 2 ^ 63"
  have "hd (dec_string n) \<noteq> CHR ''-''" "hd (dec_string n) \<noteq> CHR ''+''"
    using dec_string_chars [of "hd (dec_string n)" n] by auto
  then show ?thesis using n by (simp add: ParseInt_def digits_dec_string)
qed

section \<open>Lines\<close>

text \<open>
  The lines of a \<^verbatim>\<open>bufio.Scanner\<close>: a line ends at LF or at the end of the text, a CR at its end is
  dropped, and a line that does not fit into the buffer of \<^verbatim>\<open>MaxScanTokenSize\<close> bytes ends the scan.
\<close>

definition MaxScanTokenSize :: int where "MaxScanTokenSize = 64 * 1024"

definition dropCR :: "string \<Rightarrow> string" where
  "dropCR s = (if s \<noteq> [] \<and> List.last s = CR then butlast s else s)"

function ScanLines :: "string \<Rightarrow> string list" where
  "ScanLines s =
     (if s = [] then []
      else let line = takeWhile (\<lambda>c. c \<noteq> LF) s
           in if MaxScanTokenSize \<le> int (length line) then []
              else dropCR line # ScanLines (drop (Suc (length line)) s))"
  by pat_completeness auto
termination by (relation "measure length") auto

declare ScanLines.simps [simp del]

lemma ScanLines_Nil [simp]: "ScanLines [] = []"
  by (simp add: ScanLines.simps)

lemma ScanLines_line:
  assumes "CR \<notin> set u" "LF \<notin> set u" "int (length u) < MaxScanTokenSize - 1"
  shows "ScanLines (u @ CRLF @ t) = u # ScanLines t"
proof -
  have "takeWhile (\<lambda>c. c \<noteq> LF) (u @ CRLF @ t) = u @ [CR]" using assms(2) takeWhile_sep [of LF "u @ [CR]" t] by simp
  then show ?thesis using assms(3) by (subst ScanLines.simps) (simp add: Let_def dropCR_def)
qed

lemma ScanLines_last:
  assumes "CR \<notin> set u" "LF \<notin> set u" "u \<noteq> []" "int (length u) < MaxScanTokenSize"
  shows "ScanLines u = [u]"
proof -
  have tw: "takeWhile (\<lambda>c. c \<noteq> LF) u = u" using assms(2) by (simp add: takeWhile_eq_all_conv) metis
  have "List.last u \<noteq> CR" using assms(1,3) last_in_set by metis
  then have "dropCR u = u" by (simp add: dropCR_def)
  then show ?thesis using assms(3,4) by (subst ScanLines.simps) (simp add: Let_def tw)
qed

section \<open>UTF-8\<close>

text \<open>\<^verbatim>\<open>utf8.Valid\<close>\<close>

definition cont_byte :: "u8 \<Rightarrow> bool" where
  "cont_byte b \<longleftrightarrow> 0x80 \<le> b \<and> b \<le> 0xBF"

fun utf8_Valid :: "bytes \<Rightarrow> bool" where
  "utf8_Valid [] = True"
| "utf8_Valid (b # bs) =
     (if b < 0x80 then utf8_Valid bs
      else (case bs of
              [] \<Rightarrow> False
            | c # cs \<Rightarrow>
                if 0xC2 \<le> b \<and> b \<le> 0xDF then cont_byte c \<and> utf8_Valid cs
                else (case cs of
                        [] \<Rightarrow> False
                      | d # ds \<Rightarrow>
                          if 0xE0 \<le> b \<and> b \<le> 0xEF then
                            cont_byte c \<and> (b = 0xE0 \<longrightarrow> 0xA0 \<le> c) \<and> (b = 0xED \<longrightarrow> c \<le> 0x9F)
                              \<and> cont_byte d \<and> utf8_Valid ds
                          else (case ds of
                                  [] \<Rightarrow> False
                                | e # es \<Rightarrow>
                                    0xF0 \<le> b \<and> b \<le> 0xF4 \<and> cont_byte c \<and> (b = 0xF0 \<longrightarrow> 0x90 \<le> c)
                                      \<and> (b = 0xF4 \<longrightarrow> c \<le> 0x8F) \<and> cont_byte d \<and> cont_byte e \<and> utf8_Valid es))))"

end
