(* ===== verification/Protocol.thy ===== *)
theory Protocol
  imports Complex_Main GoStrings "HOL-Library.AList"
begin

text \<open>
  \<^verbatim>\<open>util/net/protocol/protocol.go\<close>: protocol types and errors, the base message, the detector that
  recognises a protocol by the bytes it starts with, and the registry of protocols.  A Go map that the
  code iterates over is an association list in the order of the iteration.  The confidence of the
  detector only takes the values 0 and 1, which are exact.  The parser contract at the end is what a
  connection relies on when it feeds a parser the bytes as they arrive.
\<close>

section \<open>Types and errors\<close>

datatype protocol_type = ProtocolUnknown | ProtocolHTTP | ProtocolWebSocket | ProtocolTCP | ProtocolUDP

fun protocol_String :: "protocol_type \<Rightarrow> string" where
  "protocol_String ProtocolHTTP = ''HTTP''"
| "protocol_String ProtocolWebSocket = ''WebSocket''"
| "protocol_String ProtocolTCP = ''TCP''"
| "protocol_String ProtocolUDP = ''UDP''"
| "protocol_String ProtocolUnknown = ''Unknown''"

record protocol_error =
  errType :: protocol_type
  errCode :: string
  errMessage :: string
  errCause :: "string option"

definition Error :: "protocol_error \<Rightarrow> string" where
  "Error e = ''protocol '' @ protocol_String (errType e) @ '' error ['' @ errCode e @ '']: '' @ errMessage e @
     (case errCause e of Some c \<Rightarrow> '', cause: '' @ c | None \<Rightarrow> [])"

definition Unwrap :: "protocol_error \<Rightarrow> string option" where "Unwrap e = errCause e"

abbreviation ErrCodeUnknownProtocol :: string where "ErrCodeUnknownProtocol \<equiv> ''UNKNOWN_PROTOCOL''"
abbreviation ErrCodeParseError :: string where "ErrCodeParseError \<equiv> ''PARSE_ERROR''"
abbreviation ErrCodeUpgradeError :: string where "ErrCodeUpgradeError \<equiv> ''UPGRADE_ERROR''"
abbreviation ErrCodeInvalidMessage :: string where "ErrCodeInvalidMessage \<equiv> ''INVALID_MESSAGE''"
abbreviation ErrCodeNotSupported :: string where "ErrCodeNotSupported \<equiv> ''NOT_SUPPORTED''"
abbreviation ErrCodeProtocolMismatch :: string where "ErrCodeProtocolMismatch \<equiv> ''PROTOCOL_MISMATCH''"
abbreviation ErrCodeInvalidState :: string where "ErrCodeInvalidState \<equiv> ''INVALID_STATE''"

definition protocol_err :: "protocol_type \<Rightarrow> string \<Rightarrow> string \<Rightarrow> protocol_error" where
  "protocol_err t code msg = \<lparr>errType = t, errCode = code, errMessage = msg, errCause = None\<rparr>"

section \<open>The base message\<close>

text \<open>A nil slice and a nil map are \<^const>\<open>None\<close>; the values of the metadata are of any type.\<close>

type_synonym header = "(string \<times> string) list"

record 'v base_message =
  bType :: string
  bPayload :: "string option"
  bHeaders :: "header option"
  bMetadata :: "(string \<times> 'v) list option"

definition GetPayload :: "'v base_message \<Rightarrow> string option" where "GetPayload m = bPayload m"

definition GetHeaders :: "'v base_message \<Rightarrow> 'v base_message \<times> header" where
  "GetHeaders m = (case bHeaders m of None \<Rightarrow> (m\<lparr>bHeaders := Some []\<rparr>, []) | Some h \<Rightarrow> (m, h))"

definition GetMetadata :: "'v base_message \<Rightarrow> 'v base_message \<times> (string \<times> 'v) list" where
  "GetMetadata m = (case bMetadata m of None \<Rightarrow> (m\<lparr>bMetadata := Some []\<rparr>, []) | Some h \<Rightarrow> (m, h))"

text \<open>The copy of a map holds the same entries.\<close>

definition base_Clone :: "'v base_message \<Rightarrow> 'v base_message" where
  "base_Clone m = \<lparr>bType = bType m, bPayload = Some (case bPayload m of None \<Rightarrow> [] | Some b \<Rightarrow> b),
     bHeaders = bHeaders m, bMetadata = bMetadata m\<rparr>"

definition emptyBase :: "unit base_message" where
  "emptyBase = \<lparr>bType = [], bPayload = None, bHeaders = None, bMetadata = None\<rparr>"

section \<open>The detector\<close>

record detection_pattern =
  Pattern :: bytes
  Offset :: int
  Mask :: "bytes option"
  Weight :: rat

definition maskAt :: "bytes option \<Rightarrow> nat \<Rightarrow> u8 \<Rightarrow> u8" where
  "maskAt mask_opt i b =
     (case mask_opt of
        Some ms \<Rightarrow> if i < length ms then and b (ms ! i) else b
      | None \<Rightarrow> b)"

text \<open>The loop of \<^verbatim>\<open>matchPattern\<close> from the index \<open>i\<close> on; an index outside of the data panics.\<close>

fun matchFrom :: "bytes \<Rightarrow> int \<Rightarrow> bytes option \<Rightarrow> nat \<Rightarrow> bytes \<Rightarrow> bool outcome" where
  "matchFrom data start ms i [] = Ret True"
| "matchFrom data start ms i (b # bs) =
     (let k = int64 (start + int i)
      in if k < 0 \<or> int (length data) \<le> k then Panic
         else if maskAt ms i (data ! nat k) \<noteq> maskAt ms i b then Ret False
         else matchFrom data start ms (Suc i) bs)"

definition matchPattern :: "bytes \<Rightarrow> detection_pattern \<Rightarrow> bool outcome" where
  "matchPattern data p =
     (if int (length data) < int64 (Offset p + int (length (Pattern p))) then Ret False
      else matchFrom data (Offset p) (Mask p) 0 (Pattern p))"

fun calculateConfidence :: "bytes \<Rightarrow> detection_pattern list \<Rightarrow> rat outcome" where
  "calculateConfidence data [] = Ret 0"
| "calculateConfidence data (p # ps) =
     (case matchPattern data p of
        Panic \<Rightarrow> Panic
      | Ret True \<Rightarrow> Ret 1
      | Ret False \<Rightarrow> calculateConfidence data ps)"

type_synonym detector = "(protocol_type \<times> detection_pattern list) list"

fun bestMatch :: "bytes \<Rightarrow> detector \<Rightarrow> protocol_type \<Rightarrow> rat \<Rightarrow> (protocol_type \<times> rat) outcome" where
  "bestMatch data [] best conf = Ret (best, conf)"
| "bestMatch data ((t, ps) # ds) best conf =
     (case calculateConfidence data ps of
        Panic \<Rightarrow> Panic
      | Ret c \<Rightarrow> if c > conf then bestMatch data ds t c else bestMatch data ds best conf)"

definition Detect :: "detector \<Rightarrow> bytes \<Rightarrow> protocol_type outcome" where
  "Detect d data =
     (if data = [] then Ret ProtocolUnknown
      else case bestMatch data d ProtocolUnknown 0 of
             Panic \<Rightarrow> Panic
           | Ret (t, c) \<Rightarrow> Ret (if c < 1 / 2 then ProtocolUnknown else t))"

definition AddPattern :: "protocol_type \<Rightarrow> detection_pattern list \<Rightarrow> detector \<Rightarrow> detector" where
  "AddPattern t ps d = AList.update t ps d"

definition RemovePattern :: "protocol_type \<Rightarrow> detector \<Rightarrow> detector" where
  "RemovePattern t d = AList.delete t d"

definition GetConfidence :: "detector \<Rightarrow> bytes \<Rightarrow> protocol_type \<Rightarrow> rat outcome" where
  "GetConfidence d data t = (case map_of d t of None \<Rightarrow> Ret 0 | Some ps \<Rightarrow> calculateConfidence data ps)"

definition startPattern :: "string \<Rightarrow> detection_pattern" where
  "startPattern s = \<lparr>Pattern = go_bytes s, Offset = 0, Mask = None, Weight = 1\<rparr>"

definition httpStarts :: "string list" where
  "httpStarts = [''GET '', ''POST '', ''PUT '', ''DELETE '', ''HEAD '', ''OPTIONS '', ''TRACE '', ''CONNECT '',
     ''PATCH '', ''HTTP/1.'', ''HTTP/2'']"

definition NewSmartDetector :: detector where
  "NewSmartDetector = AddPattern ProtocolHTTP (map startPattern httpStarts) []"

section \<open>The registry\<close>

text \<open>A factory is the protocol that it makes; a nil factory is \<^const>\<open>None\<close>.\<close>

record 'p registry =
  factories :: "(protocol_type \<times> 'p) list"
  regDetector :: detector

definition NewRegistry :: "'p registry" where
  "NewRegistry = \<lparr>factories = [], regDetector = NewSmartDetector\<rparr>"

definition Register :: "protocol_type \<Rightarrow> 'p option \<Rightarrow> 'p registry \<Rightarrow> 'p registry \<times> (protocol_error + unit)" where
  "Register t factory r =
     (case factory of
        None \<Rightarrow> (r, Inl (protocol_err t ErrCodeInvalidMessage ''protocol factory cannot be nil''))
      | Some f \<Rightarrow> (r\<lparr>factories := AList.update t f (factories r)\<rparr>, Inr ()))"

definition Unregister :: "protocol_type \<Rightarrow> 'p registry \<Rightarrow> 'p registry" where
  "Unregister t r = r\<lparr>factories := AList.delete t (factories r)\<rparr>"

definition Get :: "'p registry \<Rightarrow> protocol_type \<Rightarrow> protocol_error + 'p" where
  "Get r t =
     (case map_of (factories r) t of
        None \<Rightarrow> Inl (protocol_err t ErrCodeUnknownProtocol ''protocol not registered'')
      | Some f \<Rightarrow> Inr f)"

text \<open>\<open>parser_of\<close> is the method \<^verbatim>\<open>GetParser\<close> of a protocol, and \<open>builder_of\<close> is \<^verbatim>\<open>GetBuilder\<close>.\<close>

definition GetParser :: "('p \<Rightarrow> 'q) \<Rightarrow> 'p registry \<Rightarrow> protocol_type \<Rightarrow> protocol_error + 'q" where
  "GetParser parser_of r t = (case Get r t of Inl e \<Rightarrow> Inl e | Inr p \<Rightarrow> Inr (parser_of p))"

definition GetBuilder :: "('p \<Rightarrow> 'b) \<Rightarrow> 'p registry \<Rightarrow> protocol_type \<Rightarrow> protocol_error + 'b" where
  "GetBuilder builder_of r t = (case Get r t of Inl e \<Rightarrow> Inl e | Inr p \<Rightarrow> Inr (builder_of p))"

definition registry_List :: "'p registry \<Rightarrow> protocol_type list" where
  "registry_List r = map fst (factories r)"

definition registry_Detect :: "'p registry \<Rightarrow> bytes \<Rightarrow> (protocol_type \<times> (protocol_error + 'p)) outcome" where
  "registry_Detect r data =
     (case Detect (regDetector r) data of
        Panic \<Rightarrow> Panic
      | Ret t \<Rightarrow>
          Ret (if t = ProtocolUnknown
               then (ProtocolUnknown, Inl (protocol_err ProtocolUnknown ErrCodeUnknownProtocol ''unable to detect protocol''))
               else (t, Get r t)))"

text \<open>
  The global functions of the package call the same methods on the registry in the variable
  \<^verbatim>\<open>globalRegistry\<close>, which \<^verbatim>\<open>SetGlobalRegistry\<close> replaces.
\<close>

definition DetectProtocol :: "'p registry \<Rightarrow> bytes \<Rightarrow> protocol_type outcome" where
  "DetectProtocol global data = Detect (regDetector global) data"

definition DetectAndGet :: "'p registry \<Rightarrow> bytes \<Rightarrow> (protocol_type \<times> (protocol_error + 'p)) outcome" where
  "DetectAndGet global data = registry_Detect global data"

definition SetGlobalRegistry :: "'p registry \<Rightarrow> 'p registry \<Rightarrow> 'p registry" where
  "SetGlobalRegistry r global = r"

section \<open>What detection recognises\<close>

lemma maskAt_None [simp]: "maskAt None i b = b"
  by (simp add: maskAt_def)

lemma matchFrom_unmasked:
  assumes "i + length bs \<le> length data" "length data < 2 ^ 63"
  shows "matchFrom data 0 None i bs = Ret (take (length bs) (drop i data) = bs)"
  using assms
proof (induction bs arbitrary: i)
  case (Cons b bs)
  have i: "i < length data" using Cons.prems by simp
  have "int64 (0 + int i) = int i" using i Cons.prems(2) by (simp add: int64_id)
  moreover have "take (length (b # bs)) (drop i data) = data ! i # take (length bs) (drop (Suc i) data)"
    using Cons_nth_drop_Suc [OF i] by (metis length_Cons take_Suc_Cons)
  ultimately show ?case using Cons.IH [of "Suc i"] Cons.prems i by simp
qed simp

lemma matchPattern_start:
  assumes "length data < 2 ^ 63" "length s < 2 ^ 63"
  shows "matchPattern data (startPattern s) = Ret (prefix (go_bytes s) data)"
proof -
  let ?p = "go_bytes s"
  have l: "length ?p = length s" by (simp add: go_bytes_def)
  have o: "int64 (int (length s)) = int (length s)" using assms(2) by (simp add: int64_id)
  have pre: "prefix ?p data \<longleftrightarrow> length ?p \<le> length data \<and> take (length ?p) data = ?p"
    by (metis append_eq_conv_conj prefix_def prefix_length_le take_is_prefix)
  show ?thesis
  proof (cases "length data < length s")
    case True
    then show ?thesis using pre l o by (simp add: matchPattern_def startPattern_def)
  next
    case False
    then have "matchFrom data 0 None 0 ?p = Ret (take (length ?p) (drop 0 data) = ?p)"
      by (intro matchFrom_unmasked) (use l assms(1) in simp_all)
    with False show ?thesis using pre l o by (simp add: matchPattern_def startPattern_def)
  qed
qed

lemma calculateConfidence_starts:
  assumes "length data < 2 ^ 63" "\<forall>s \<in> set ss. length s < 2 ^ 63"
  shows "calculateConfidence data (map startPattern ss) = Ret (if \<exists>s \<in> set ss. prefix (go_bytes s) data then 1 else 0)"
  using assms(2) by (induction ss) (use assms(1) in \<open>auto simp: matchPattern_start split: bool.split\<close>)

definition startsHTTP :: "bytes \<Rightarrow> bool" where
  "startsHTTP data \<longleftrightarrow> list_ex (\<lambda>s. prefix (go_bytes s) data) httpStarts"

lemma confidence_default:
  "length data < 2 ^ 63 \<Longrightarrow>
   calculateConfidence data (map startPattern httpStarts) = Ret (if startsHTTP data then 1 else 0)"
  by (subst calculateConfidence_starts) (simp_all add: httpStarts_def startsHTTP_def)

lemma Detect_default:
  assumes "length data < 2 ^ 63"
  shows "Detect NewSmartDetector data = Ret (if startsHTTP data then ProtocolHTTP else ProtocolUnknown)"
proof -
  have "\<not> startsHTTP []" by (simp add: startsHTTP_def httpStarts_def go_bytes_def)
  then show ?thesis
    using confidence_default [OF assms]
    by (simp add: Detect_def NewSmartDetector_def AddPattern_def)
qed

section \<open>The registry returns what was registered\<close>

lemma Get_Register [simp]:
  "Get (fst (Register t (Some f) r)) t' = (if t' = t then Inr f else Get r t')"
  by (simp add: Get_def Register_def AList.update_conv')

lemma Get_Unregister [simp]:
  "Get (Unregister t r) t' =
     (if t' = t then Inl (protocol_err t ErrCodeUnknownProtocol ''protocol not registered'') else Get r t')"
  by (simp add: Get_def Unregister_def AList.delete_conv')

section \<open>The contract of a stream parser\<close>

text \<open>
  A parser keeps a state of its own and is given the bytes that have arrived.  What it promises: where
  the input is cut makes no difference as long as no call has failed.
\<close>

text \<open>Feeding one chunk after the other, up to the first failure.\<close>

primrec feedAll :: "('s \<Rightarrow> bytes \<Rightarrow> 's \<times> ('e + 'm list)) \<Rightarrow> 's \<Rightarrow> bytes list \<Rightarrow> 's \<times> ('e + 'm list)" where
  "feedAll parse s [] = (s, Inr [])"
| "feedAll parse s (a # as) =
     (case parse s a of
        (t, Inl e) \<Rightarrow> (t, Inl e)
      | (t, Inr ms) \<Rightarrow> (case feedAll parse t as of (u, Inl e) \<Rightarrow> (u, Inl e) | (u, Inr ns) \<Rightarrow> (u, Inr (ms @ ns))))"

locale stream_parser =
  fixes parse :: "'s \<Rightarrow> bytes \<Rightarrow> 's \<times> ('e + 'm list)"
    and ready :: "'s \<Rightarrow> bool"
  assumes parse_ready: "ready s \<Longrightarrow> parse s a = (s', Inr ms) \<Longrightarrow> ready s'"
    and parse_append: "ready s \<Longrightarrow> parse s a = (s', Inr ms) \<Longrightarrow>
      parse s (a @ b) = (case parse s' b of (t, Inr ns) \<Rightarrow> (t, Inr (ms @ ns)) | (t, Inl e) \<Rightarrow> (t, Inl e))"
begin

lemma feedAll_concat:
  "ready s \<Longrightarrow> feedAll parse s (a # as) = (t, Inr ms) \<Longrightarrow> parse s (concat (a # as)) = (t, Inr ms)"
proof (induction as arbitrary: s a ms)
  case Nil
  then show ?case by (auto split: prod.splits sum.splits)
next
  case (Cons b as)
  from Cons.prems(2) obtain s1 ms1 ms2 where
    a: "parse s a = (s1, Inr ms1)" "feedAll parse s1 (b # as) = (t, Inr ms2)" "ms = ms1 @ ms2"
    by (auto split: prod.splits sum.splits)
  have "parse s1 (concat (b # as)) = (t, Inr ms2)"
    using Cons.IH [OF parse_ready [OF Cons.prems(1) a(1)] a(2)] .
  then show ?case using parse_append [OF Cons.prems(1) a(1), of "concat (b # as)"] a(3) by simp
qed

end

end
