(* ===== verification/WebSocket.thy ===== *)
theory WebSocket
  imports Protocol GoStrings
begin

text \<open>
  \<^verbatim>\<open>util/net/protocol/websocket/websocket.go\<close> and \<^verbatim>\<open>builder.go\<close>: the parser of
  WebSocket frames, with fragmentation, and the builder.  The parser's methods hold its mutex, so
  they are transitions of the record \<open>ws_parser\<close>.  The random mask of a client frame is an
  argument of the builder.  \<^verbatim>\<open>protocol.go\<close> puts a parser and a builder into the handle that the
  registry of protocols gives out.  \<^verbatim>\<open>utf8.Valid\<close> of the standard library is in \<open>GoStrings\<close>.
\<close>

unbundle bit_operations_syntax

section \<open>Frames and messages\<close>

abbreviation OpCodeContinuation :: u8 where "OpCodeContinuation \<equiv> 0x0"
abbreviation OpCodeText :: u8 where "OpCodeText \<equiv> 0x1"
abbreviation OpCodeBinary :: u8 where "OpCodeBinary \<equiv> 0x2"
abbreviation OpCodeClose :: u8 where "OpCodeClose \<equiv> 0x8"
abbreviation OpCodePing :: u8 where "OpCodePing \<equiv> 0x9"
abbreviation OpCodePong :: u8 where "OpCodePong \<equiv> 0xA"

abbreviation CloseNormalClosure :: u16 where "CloseNormalClosure \<equiv> 1000"
abbreviation CloseGoingAway :: u16 where "CloseGoingAway \<equiv> 1001"
abbreviation CloseProtocolError :: u16 where "CloseProtocolError \<equiv> 1002"
abbreviation CloseNoStatusRcvd :: u16 where "CloseNoStatusRcvd \<equiv> 1005"
abbreviation CloseMessageTooBig :: u16 where "CloseMessageTooBig \<equiv> 1009"
abbreviation CloseInternalError :: u16 where "CloseInternalError \<equiv> 1011"

record ws_message =
  wType :: string
  Payload :: bytes
  OpCode :: u8
  Masked :: bool
  MaskKey :: "bytes option"
  Final :: bool
  CloseCode :: u16
  CloseReason :: bytes

definition IsControlFrame :: "ws_message \<Rightarrow> bool" where "IsControlFrame m \<longleftrightarrow> OpCode m \<ge> 8"
definition IsDataFrame :: "ws_message \<Rightarrow> bool" where "IsDataFrame m \<longleftrightarrow> OpCode m \<le> 2"

datatype ws_error =
    FeedFrameTooLarge
  | ClientFrameNotMasked
  | ServerFrameMasked
  | LengthMSBSet
  | FramePayloadTooLarge int
  | InvalidOpCode u8
  | ControlFrameFragmented
  | ControlFrameTooLarge
  | TextNotUTF8
  | UnexpectedFragmentStart
  | FragmentedMessageTooLarge
  | FragmentedTextNotUTF8
  | FragmentInvalidOpCode
  | PingTooLarge
  | PongTooLarge

definition isValidOpCode :: "u8 \<Rightarrow> bool" where
  "isValidOpCode opCode \<longleftrightarrow>
     opCode = OpCodeContinuation \<or> opCode = OpCodeText \<or> opCode = OpCodeBinary \<or>
     opCode = OpCodeClose \<or> opCode = OpCodePing \<or> opCode = OpCodePong"

definition isControlFrame :: "u8 \<Rightarrow> bool" where
  "isControlFrame opCode \<longleftrightarrow> opCode \<ge> 0x8"

definition getMessageType :: "u8 \<Rightarrow> string" where
  "getMessageType opCode =
     (if opCode = OpCodeText then ''websocket_text''
      else if opCode = OpCodeBinary then ''websocket_binary''
      else if opCode = OpCodeClose then ''websocket_close''
      else if opCode = OpCodePing then ''websocket_ping''
      else if opCode = OpCodePong then ''websocket_pong''
      else ''websocket_unknown'')"

section \<open>The parser\<close>

record ws_parser =
  wbuf :: bytes
  isServer :: bool
  maxFrameSize :: int
  maxMsgSize :: int
  fragmentBuffer :: bytes
  fragmentOpCode :: u8

definition NewWebSocketParser :: "bool \<Rightarrow> ws_parser" where
  "NewWebSocketParser server =
     \<lparr>wbuf = [], isServer = server, maxFrameSize = 65536, maxMsgSize = 1048576,
      fragmentBuffer = [], fragmentOpCode = 0\<rparr>"

definition Feed :: "ws_parser \<Rightarrow> bytes \<Rightarrow> ws_parser \<times> (ws_error + unit)" where
  "Feed p data =
     (let p' = p\<lparr>wbuf := wbuf p @ data\<rparr>
      in (p', if int (length (wbuf p')) > maxFrameSize p then Inl FeedFrameTooLarge else Inr ()))"

definition validateFrame :: "u8 \<Rightarrow> bytes \<Rightarrow> bool \<Rightarrow> ws_error + unit" where
  "validateFrame opCode payload fin =
     (if \<not> isValidOpCode opCode then Inl (InvalidOpCode opCode)
      else if isControlFrame opCode \<and> \<not> fin then Inl ControlFrameFragmented
      else if isControlFrame opCode \<and> length payload > 125 then Inl ControlFrameTooLarge
      else if opCode = OpCodeText \<and> \<not> utf8_Valid payload then Inl TextNotUTF8
      else Inr ())"

definition parseCloseFrame :: "ws_message \<Rightarrow> bytes \<Rightarrow> ws_message" where
  "parseCloseFrame msg payload =
     (if length payload \<ge> 2 then
        let msg1 = msg\<lparr>CloseCode := Uint16 (take 2 payload)\<rparr>
        in if length payload > 2 then msg1\<lparr>CloseReason := drop 2 payload\<rparr> else msg1
      else msg\<lparr>CloseCode := CloseNoStatusRcvd\<rparr>)"

text \<open>A parsed frame is the message, if it completes one, and the number of bytes consumed.\<close>

type_synonym parsed = "ws_error + (ws_message option \<times> nat)"

definition handleFragmentation ::
  "ws_parser \<Rightarrow> u8 \<Rightarrow> bytes \<Rightarrow> bool \<Rightarrow> bytes option \<Rightarrow> nat \<Rightarrow> ws_parser \<times> parsed" where
  "handleFragmentation p opCode payload fin maskKey totalLen =
     (if opCode \<noteq> OpCodeContinuation \<and> length (fragmentBuffer p) > 0 then (p, Inl UnexpectedFragmentStart)
      else let p1 = (if opCode \<noteq> OpCodeContinuation
                     then p\<lparr>fragmentOpCode := opCode, fragmentBuffer := []\<rparr> else p);
               p2 = p1\<lparr>fragmentBuffer := fragmentBuffer p1 @ payload\<rparr>
           in if int (length (fragmentBuffer p2)) > maxMsgSize p2 then
                (p2\<lparr>fragmentBuffer := []\<rparr>, Inl FragmentedMessageTooLarge)
              else if fin then
                let msg = \<lparr>wType = getMessageType (fragmentOpCode p2), Payload = fragmentBuffer p2,
                           OpCode = fragmentOpCode p2,
                           Masked = (case maskKey of None \<Rightarrow> False | Some k \<Rightarrow> length k > 0),
                           MaskKey = maskKey, Final = True, CloseCode = 0, CloseReason = []\<rparr>
                in if fragmentOpCode p2 = OpCodeText \<and> \<not> utf8_Valid (Payload msg) then
                     (p2\<lparr>fragmentBuffer := []\<rparr>, Inl FragmentedTextNotUTF8)
                   else (p2\<lparr>fragmentBuffer := [], fragmentOpCode := 0\<rparr>, Inr (Some msg, totalLen))
              else (p2, Inr (None, totalLen)))"

text \<open>\<^verbatim>\<open>payload[i] ^= maskKey[i%4]\<close>\<close>

definition applyMask :: "bytes \<Rightarrow> bytes \<Rightarrow> bytes" where
  "applyMask key data = map (\<lambda>i. data ! i XOR key ! (i mod 4)) [0..<length data]"

text \<open>The extended payload length: the length and the header length so far.\<close>

datatype ws_len = NeedMore | BadLength ws_error | Len int nat

definition payloadLength :: "bytes \<Rightarrow> ws_len" where
  "payloadLength b =
     (let payloadLen = uint (b ! 1 AND 0x7F)
      in if payloadLen = 126 then
           (if length b < 4 then NeedMore else Len (uint (Uint16 (slice 2 4 b))) 4)
         else if payloadLen = 127 then
           (if length b < 10 then NeedMore
            else let rawLen = Uint64 (slice 2 10 b)
                 in if rawLen AND push_bit 63 1 \<noteq> 0 then BadLength LengthMSBSet
                    else Len (sint rawLen) 10)
         else Len payloadLen 2)"

text \<open>The end of \<^verbatim>\<open>parseFrame\<close>: a complete, unmasked frame is validated and made a message
  or a fragment.\<close>

definition acceptFrame ::
  "ws_parser \<Rightarrow> u8 \<Rightarrow> bytes \<Rightarrow> bool \<Rightarrow> bool \<Rightarrow> bytes option \<Rightarrow> nat \<Rightarrow> ws_parser \<times> parsed" where
  "acceptFrame p opCode payload fin masked maskKey totalLen =
     (case validateFrame opCode payload fin of
        Inl e \<Rightarrow> (p, Inl e)
      | Inr _ \<Rightarrow>
          if opCode = OpCodeContinuation \<or> (\<not> fin \<and> (opCode = OpCodeText \<or> opCode = OpCodeBinary))
          then handleFragmentation p opCode payload fin maskKey totalLen
          else let msg = \<lparr>wType = getMessageType opCode, Payload = payload, OpCode = opCode,
                     Masked = masked, MaskKey = maskKey, Final = fin, CloseCode = 0, CloseReason = []\<rparr>;
                   msg' = (if opCode = OpCodeClose then parseCloseFrame msg payload else msg)
               in (p, Inr (Some msg', totalLen)))"

definition frameBody :: "ws_parser \<Rightarrow> int \<Rightarrow> nat \<Rightarrow> ws_parser \<times> parsed" where
  "frameBody p payloadLen headerLen =
     (let b = wbuf p;
          fin = (b ! 0 AND 0x80 \<noteq> 0);
          opCode = b ! 0 AND 0x0F;
          masked = (b ! 1 AND 0x80 \<noteq> 0)
      in if masked \<and> length b < headerLen + 4 then (p, Inr (None, 0))
         else let maskKey = (if masked then Some (slice headerLen (headerLen + 4) b) else None);
                  headerLen' = (if masked then headerLen + 4 else headerLen);
                  totalLen = headerLen' + nat payloadLen
              in if length b < totalLen then (p, Inr (None, 0))
                 else let raw = slice headerLen' totalLen b;
                          payload = (case maskKey of None \<Rightarrow> raw | Some k \<Rightarrow> applyMask k raw)
                      in acceptFrame p opCode payload fin masked maskKey totalLen)"

definition parseFrame :: "ws_parser \<Rightarrow> ws_parser \<times> parsed" where
  "parseFrame p =
     (if length (wbuf p) < 2 then (p, Inr (None, 0))
      else let masked = (wbuf p ! 1 AND 0x80 \<noteq> 0)
      in if isServer p \<and> \<not> masked then (p, Inl ClientFrameNotMasked)
         else if \<not> isServer p \<and> masked then (p, Inl ServerFrameMasked)
         else (case payloadLength (wbuf p) of
                 NeedMore \<Rightarrow> (p, Inr (None, 0))
               | BadLength e \<Rightarrow> (p, Inl e)
               | Len payloadLen headerLen \<Rightarrow>
                   if payloadLen > maxFrameSize p then (p, Inl (FramePayloadTooLarge payloadLen))
                   else frameBody p payloadLen headerLen))"

lemma handleFragmentation_wbuf: "wbuf (fst (handleFragmentation p opCode payload fin k n)) = wbuf p"
  by (simp add: handleFragmentation_def Let_def)

lemma acceptFrame_wbuf: "wbuf (fst (acceptFrame p opCode payload fin masked k n)) = wbuf p"
  by (auto simp: acceptFrame_def Let_def handleFragmentation_wbuf split: sum.splits)

lemma frameBody_wbuf: "wbuf (fst (frameBody p n h)) = wbuf p"
  by (simp add: frameBody_def Let_def acceptFrame_wbuf)

lemma parseFrame_wbuf: "wbuf (fst (parseFrame p)) = wbuf p"
  by (auto simp: parseFrame_def Let_def frameBody_wbuf split: ws_len.splits)

text \<open>
  The loop of \<^verbatim>\<open>Parse\<close> over the bytes in the parser.  It returns \<^verbatim>\<open>nil, err\<close> on an
  error: the messages found before it are gone.
\<close>

function parseLoop :: "ws_parser \<Rightarrow> ws_message list \<Rightarrow> ws_parser \<times> (ws_error + ws_message list)" where
  "parseLoop p messages =
     (if length (wbuf p) \<ge> 2 then
        (case parseFrame p of
           (p', Inl e) \<Rightarrow> (p', Inl e)
         | (p', Inr (msg, consumed)) \<Rightarrow>
             if consumed = 0 then (p', Inr messages)
             else parseLoop (p'\<lparr>wbuf := drop consumed (wbuf p')\<rparr>)
                    (messages @ (case msg of None \<Rightarrow> [] | Some m \<Rightarrow> [m])))
      else (p, Inr messages))"
  by pat_completeness auto
termination
proof (relation "measure (\<lambda>(p, _). length (wbuf p))", goal_cases)
  case (2 p messages x)
  then show ?case using parseFrame_wbuf [of p] by (cases "parseFrame p") auto
qed simp

declare parseLoop.simps [simp del]

definition Parse :: "ws_parser \<Rightarrow> bytes \<Rightarrow> ws_parser \<times> (ws_error + ws_message list)" where
  "Parse p data = parseLoop (p\<lparr>wbuf := wbuf p @ data\<rparr>) []"

definition HasPendingMessage :: "ws_parser \<Rightarrow> bool" where
  "HasPendingMessage p \<longleftrightarrow> length (wbuf p) \<ge> 2"

definition ws_Reset :: "ws_parser \<Rightarrow> ws_parser" where
  "ws_Reset p = p\<lparr>wbuf := [], fragmentBuffer := [], fragmentOpCode := 0\<rparr>"

definition ws_Close :: "ws_parser \<Rightarrow> ws_parser" where
  "ws_Close p = p\<lparr>wbuf := [], fragmentBuffer := []\<rparr>"

section \<open>The builder\<close>

text \<open>\<open>server\<close> is the builder's \<^verbatim>\<open>isServer\<close>, \<open>key\<close> the random mask of a client.\<close>

definition buildFrame :: "bool \<Rightarrow> bytes \<Rightarrow> u8 \<Rightarrow> bytes \<Rightarrow> bool \<Rightarrow> ws_error + bytes" where
  "buildFrame server key opCode payload fin =
     (if \<not> isValidOpCode opCode then Inl (InvalidOpCode opCode)
      else if isControlFrame opCode \<and> length payload > 125 then Inl ControlFrameTooLarge
      else let payloadLen = length payload;
               first = (if fin then opCode OR 0x80 else opCode);
               second = (if \<not> server then 0x80 else 0);
               lenBytes = (if payloadLen \<ge> 65536 then (second OR 127) # PutUint64 (of_nat payloadLen)
                           else if payloadLen \<ge> 126 then (second OR 126) # PutUint16 (of_nat payloadLen)
                           else [second OR of_nat payloadLen])
           in Inr (first # lenBytes @ (if server then payload else key @ applyMask key payload)))"

definition BuildTextFrame where "BuildTextFrame server key data = buildFrame server key OpCodeText data True"
definition BuildBinaryFrame where "BuildBinaryFrame server key data = buildFrame server key OpCodeBinary data True"

definition BuildCloseFrame :: "bool \<Rightarrow> bytes \<Rightarrow> u16 \<Rightarrow> bytes \<Rightarrow> ws_error + bytes" where
  "BuildCloseFrame server key code reason = buildFrame server key OpCodeClose (PutUint16 code @ reason) True"

definition BuildPingFrame :: "bool \<Rightarrow> bytes \<Rightarrow> bytes \<Rightarrow> ws_error + bytes" where
  "BuildPingFrame server key data =
     (if length data > 125 then Inl PingTooLarge else buildFrame server key OpCodePing data True)"

definition BuildPongFrame :: "bool \<Rightarrow> bytes \<Rightarrow> bytes \<Rightarrow> ws_error + bytes" where
  "BuildPongFrame server key data =
     (if length data > 125 then Inl PongTooLarge else buildFrame server key OpCodePong data True)"

definition BuildError :: "bool \<Rightarrow> bytes \<Rightarrow> int \<Rightarrow> bytes \<Rightarrow> ws_error + bytes" where
  "BuildError server key statusCode message =
     BuildCloseFrame server key
       (if statusCode = 400 then CloseProtocolError
        else if statusCode = 413 then CloseMessageTooBig else CloseInternalError) message"

text \<open>The loop of \<^verbatim>\<open>BuildFragmentedFrames\<close>; \<open>keys i\<close> is the mask of the \<open>i\<close>-th frame.\<close>

function fragmentLoop :: "bool \<Rightarrow> (nat \<Rightarrow> bytes) \<Rightarrow> u8 \<Rightarrow> bytes \<Rightarrow> nat \<Rightarrow> nat \<Rightarrow> nat \<Rightarrow> ws_error + bytes list" where
  "fragmentLoop server keys opCode data mfs i n =
     (if mfs > 0 \<and> i < length data then
        let endp = (if i + mfs > length data then length data else i + mfs);
            frameOpCode = (if i = 0 then opCode else OpCodeContinuation);
            fin = (endp = length data)
        in case buildFrame server (keys n) frameOpCode (slice i endp data) fin of
             Inl e \<Rightarrow> Inl e
           | Inr frame \<Rightarrow>
               (case fragmentLoop server keys opCode data mfs (i + mfs) (Suc n) of
                  Inl e \<Rightarrow> Inl e
                | Inr frames \<Rightarrow> Inr (frame # frames))
      else Inr [])"
  by pat_completeness auto
termination
  by (relation "measure (\<lambda>(server, keys, opCode, data, mfs, i, n). length data - i)") auto

declare fragmentLoop.simps [simp del]

definition BuildFragmentedFrames ::
  "bool \<Rightarrow> (nat \<Rightarrow> bytes) \<Rightarrow> u8 \<Rightarrow> bytes \<Rightarrow> int \<Rightarrow> ws_error + bytes list" where
  "BuildFragmentedFrames server keys opCode data maxSize =
     (let mfs = (if maxSize \<le> 0 then 32768 else nat maxSize)
      in if \<not> isValidOpCode opCode \<or> isControlFrame opCode then Inl FragmentInvalidOpCode
         else fragmentLoop server keys opCode data mfs 0 0)"

section \<open>Chunks do not matter\<close>

text \<open>\<open>p\<close> with more bytes behind those it holds.\<close>

abbreviation more :: "ws_parser \<Rightarrow> bytes \<Rightarrow> ws_parser" where
  "more p b \<equiv> p\<lparr>wbuf := wbuf p @ b\<rparr>"

lemma msb_clear: "(w :: u64) AND push_bit 63 1 = 0 \<longleftrightarrow> \<not> bit w 63"
  by (simp only: push_bit_of_1 and_exp_eq_0_iff_not_bit)

lemma slice_append1: "j \<le> length a \<Longrightarrow> slice i j (a @ b) = slice i j a"
  by (rule slice_append_left)

lemma payloadLength_append:
  "2 \<le> length a \<Longrightarrow> payloadLength a \<noteq> NeedMore \<Longrightarrow> payloadLength (a @ b) = payloadLength a"
  by (auto simp: payloadLength_def Let_def nth_append slice_append1 split: if_splits)

lemma payloadLength_header:
  "payloadLength a = Len n h \<Longrightarrow> 2 \<le> length a \<Longrightarrow> 2 \<le> h \<and> h \<le> length a \<and> 0 \<le> n"
proof -
  assume a: "payloadLength a = Len n h" "2 \<le> length a"
  have msb: "0 \<le> sint w" if "w AND push_bit 63 1 = 0" for w :: u64
    using that by (simp only: msb_clear) (simp add: sint_uint signed_take_bit_nonnegative_iff bit_uint_iff)
  show ?thesis
    using a msb by (auto simp: payloadLength_def Let_def split: if_splits)
qed

lemma handleFragmentation_more:
  "handleFragmentation (more p b) opCode payload fin k n =
     (more (fst (handleFragmentation p opCode payload fin k n)) b, snd (handleFragmentation p opCode payload fin k n))"
  by (auto simp: handleFragmentation_def Let_def)

lemma acceptFrame_more:
  "acceptFrame (more p b) opCode payload fin masked k n =
     (more (fst (acceptFrame p opCode payload fin masked k n)) b, snd (acceptFrame p opCode payload fin masked k n))"
  by (cases "validateFrame opCode payload fin") (auto simp: acceptFrame_def Let_def handleFragmentation_more)

lemma frameBody_more:
  assumes "2 \<le> length (wbuf p)" "h \<le> length (wbuf p)" "snd (frameBody p n h) \<noteq> Inr (None, 0)"
  shows "frameBody (more p b) n h = (more (fst (frameBody p n h)) b, snd (frameBody p n h))"
  using assms
  by (auto simp: frameBody_def Let_def acceptFrame_more nth_append slice_append1 split: if_splits)

lemma parseFrame_more:
  assumes "2 \<le> length (wbuf p)" "snd (parseFrame p) \<noteq> Inr (None, 0)"
  shows "parseFrame (more p b) = (more (fst (parseFrame p)) b, snd (parseFrame p))"
proof -
  have nth: "(wbuf p @ b) ! Suc 0 = wbuf p ! Suc 0" using assms(1) by (simp add: nth_append)
  show ?thesis
  proof (cases "payloadLength (wbuf p)")
    case (Len n h)
    with assms payloadLength_header [OF Len assms(1)] payloadLength_append [OF assms(1), of b] nth
      frameBody_more [OF assms(1), of h n b]
    show ?thesis by (auto simp: parseFrame_def)
  qed (use assms nth payloadLength_append [OF assms(1), of b] in \<open>auto simp: parseFrame_def\<close>)
qed

lemma acceptFrame_consumed: "snd (acceptFrame p op pl fin ms k n) = Inr (m, c) \<Longrightarrow> c = n"
proof -
  have hf: "snd (handleFragmentation p op pl fin k n) = Inr (m', c') \<Longrightarrow> c' = n" for op pl fin k n m' c'
    by (auto simp: handleFragmentation_def Let_def split: if_splits)
  show "snd (acceptFrame p op pl fin ms k n) = Inr (m, c) \<Longrightarrow> c = n"
    by (auto simp: acceptFrame_def Let_def dest: hf split: sum.splits if_splits)
qed

lemma acceptFrame_zero: "acceptFrame p op pl fin ms k n = (p', Inr (m, 0)) \<Longrightarrow> n = 0"
  using acceptFrame_consumed [of p op pl fin ms k n m 0] by simp

lemma parseFrame_consumed:
  assumes "snd (parseFrame p) = Inr (m, c)"
  shows "c \<le> length (wbuf p)" "c = 0 \<Longrightarrow> m = None"
proof -
  have "c \<le> length (wbuf p) \<and> (c = 0 \<longrightarrow> m = None)"
  proof (cases "length (wbuf p) < 2")
    case False
    then have two: "2 \<le> length (wbuf p)" by simp
    show ?thesis
    proof (cases "payloadLength (wbuf p)")
      case (Len n h)
      with assms False payloadLength_header [OF Len two] show ?thesis
        by (auto simp: parseFrame_def frameBody_def Let_def dest!: acceptFrame_consumed split: if_splits)
    qed (use assms False in \<open>auto simp: parseFrame_def Let_def split: if_splits\<close>)
  qed (use assms in \<open>simp add: parseFrame_def\<close>)
  then show "c \<le> length (wbuf p)" "c = 0 \<Longrightarrow> m = None" by auto
qed

abbreviation rest_after :: "ws_parser \<Rightarrow> nat \<Rightarrow> ws_parser" where
  "rest_after p c \<equiv> p\<lparr>wbuf := drop c (wbuf p)\<rparr>"

abbreviation opt_list :: "'a option \<Rightarrow> 'a list" where
  "opt_list x \<equiv> (case x of None \<Rightarrow> [] | Some m \<Rightarrow> [m])"

lemma parseLoop_step:
  "2 \<le> length (wbuf p) \<Longrightarrow> parseFrame p = (p', Inr (m, c)) \<Longrightarrow> 0 < c \<Longrightarrow>
   parseLoop p ms = parseLoop (rest_after p' c) (ms @ opt_list m)"
  by (subst parseLoop.simps) simp

lemma parseLoop_error:
  "2 \<le> length (wbuf p) \<Longrightarrow> parseFrame p = (p', Inl e) \<Longrightarrow> parseLoop p ms = (p', Inl e)"
  by (subst parseLoop.simps) simp

lemma parseLoop_stop:
  "length (wbuf p) < 2 \<or> parseFrame p = (p, Inr (None, 0)) \<Longrightarrow> parseLoop p ms = (p, Inr ms)"
  by (subst parseLoop.simps) auto

lemma parseFrame_stop: "parseFrame p = (p', Inr (m, 0)) \<Longrightarrow> p' = p \<and> m = None"
proof -
  assume a: "parseFrame p = (p', Inr (m, 0))"
  have "p' = p"
  proof (cases "length (wbuf p) < 2")
    case False
    then have two: "2 \<le> length (wbuf p)" by simp
    show ?thesis
    proof (cases "payloadLength (wbuf p)")
      case (Len n h)
      with a False payloadLength_header [OF Len two] show ?thesis
        by (auto simp: parseFrame_def frameBody_def Let_def dest!: acceptFrame_zero split: if_splits)
    qed (use a False in \<open>auto simp: parseFrame_def Let_def split: if_splits\<close>)
  qed (use a in \<open>simp add: parseFrame_def\<close>)
  moreover have "m = None" using parseFrame_consumed(2) [of p m 0] a by simp
  ultimately show ?thesis by simp
qed

text \<open>The messages found so far are only carried along.\<close>

lemma parseLoop_acc:
  "parseLoop p ms = (fst (parseLoop p []), case snd (parseLoop p []) of Inl e \<Rightarrow> Inl e | Inr ms' \<Rightarrow> Inr (ms @ ms'))"
proof (induction "length (wbuf p)" arbitrary: p ms rule: less_induct)
  case less
  obtain p' r where pf: "parseFrame p = (p', r)" by (cases "parseFrame p")
  have b: "wbuf p' = wbuf p" using parseFrame_wbuf [of p] pf by simp
  show ?case
  proof (cases "2 \<le> length (wbuf p)")
    case two: True
    show ?thesis
    proof (cases r)
      case (Inr x)
      obtain m c where x: "x = (m, c)" by (cases x)
      show ?thesis
      proof (cases "c = 0")
        case True
        with pf Inr x parseFrame_stop [of p p' m] show ?thesis by (simp add: parseLoop_stop)
      next
        case False
        have l: "length (wbuf (rest_after p' c)) < length (wbuf p)" using False two b by simp
        show ?thesis
          using less.hyps [OF l, of "ms @ opt_list m"] less.hyps [OF l, of "opt_list m"] two pf Inr x False
          by (auto simp: parseLoop_step split: sum.splits)
      qed
    qed (use pf two in \<open>simp add: parseLoop_error\<close>)
  qed (simp add: parseLoop_stop)
qed

lemma parseLoop_more:
  "parseLoop (more p b) [] =
     (case parseLoop p [] of
        (p1, Inl e) \<Rightarrow> (more p1 b, Inl e)
      | (p1, Inr ms1) \<Rightarrow> parseLoop (more p1 b) ms1)"
proof (induction "length (wbuf p)" arbitrary: p rule: less_induct)
  case less
  obtain p' r where pf: "parseFrame p = (p', r)" by (cases "parseFrame p")
  have b: "wbuf p' = wbuf p" using parseFrame_wbuf [of p] pf by simp
  show ?case
  proof (cases "2 \<le> length (wbuf p)")
    case two: True
    then have two': "2 \<le> length (wbuf (more p b))" by simp
    show ?thesis
    proof (cases r)
      case (Inl e)
      with parseFrame_more [OF two, of b] pf have "parseFrame (more p b) = (more p' b, Inl e)" by simp
      with Inl pf two two' show ?thesis by (simp add: parseLoop_error del: length_append)
    next
      case (Inr x)
      obtain m c where x: "x = (m, c)" by (cases x)
      show ?thesis
      proof (cases "c = 0")
        case True
        with pf Inr x parseFrame_stop [of p p' m] show ?thesis by (simp add: parseLoop_stop)
      next
        case False
        have c: "c \<le> length (wbuf p)" using parseFrame_consumed(1) [of p m c] pf Inr x by simp
        have m: "parseFrame (more p b) = (more p' b, Inr (m, c))"
          using parseFrame_more [OF two, of b] pf Inr x False by simp
        have d: "rest_after (more p' b) c = more (rest_after p' c) b" using c b by simp
        have l: "length (wbuf (rest_after p' c)) < length (wbuf p)" using False two b by simp
        have "parseLoop (more p b) [] = parseLoop (more (rest_after p' c) b) (opt_list m)"
          using parseLoop_step [OF two' m, of "[]"] False d by simp
        also have "\<dots> = (case parseLoop (rest_after p' c) (opt_list m) of
            (p1, Inl e) \<Rightarrow> (more p1 b, Inl e) | (p1, Inr ms1) \<Rightarrow> parseLoop (more p1 b) ms1)"
        proof -
          obtain p1 y where y: "parseLoop (rest_after p' c) [] = (p1, y)" by (cases "parseLoop (rest_after p' c) []")
          then show ?thesis
            unfolding parseLoop_acc [of "more (rest_after p' c) b" "opt_list m"]
              parseLoop_acc [of "rest_after p' c" "opt_list m"] less.hyps [OF l] y
            using parseLoop_acc [of "more p1 b" "projr y"] parseLoop_acc [of "more p1 b" "opt_list m @ projr y"]
            by (cases y) (auto split: sum.splits)
        qed
        also have "parseLoop (rest_after p' c) (opt_list m) = parseLoop p []"
          using parseLoop_step [OF two, of p' m c "[]"] pf Inr x False by simp
        finally show ?thesis .
      qed
    qed
  qed (simp add: parseLoop_stop)
qed

text \<open>C9: one read of all the bytes compared with two reads.  When the bytes parse without an error, how they are cut
  does not matter: two reads give the messages of one read, in order, and leave the parser in its state.  When they do
  not, both ways give the same error at the same place; but the read that fails returns no messages, so one read loses
  those before the bad frame, and two reads have already delivered those of the first part.\<close>

theorem Parse_chunks:
  "Parse p (a @ b) =
     (case Parse p a of
        (p1, Inl e) \<Rightarrow> (p1\<lparr>wbuf := wbuf p1 @ b\<rparr>, Inl e)
      | (p1, Inr ms1) \<Rightarrow>
          (case Parse p1 b of
             (p2, Inl e) \<Rightarrow> (p2, Inl e)
           | (p2, Inr ms2) \<Rightarrow> (p2, Inr (ms1 @ ms2))))"
proof -
  have "Parse p (a @ b) = parseLoop (more (more p a) b) []" by (simp add: Parse_def)
  also have "\<dots> = (case Parse p a of (p1, Inl e) \<Rightarrow> (more p1 b, Inl e) | (p1, Inr ms1) \<Rightarrow> parseLoop (more p1 b) ms1)"
    unfolding parseLoop_more [of "more p a"] Parse_def ..
  also have "\<dots> = (case Parse p a of
        (p1, Inl e) \<Rightarrow> (p1\<lparr>wbuf := wbuf p1 @ b\<rparr>, Inl e)
      | (p1, Inr ms1) \<Rightarrow>
          (case Parse p1 b of (p2, Inl e) \<Rightarrow> (p2, Inl e) | (p2, Inr ms2) \<Rightarrow> (p2, Inr (ms1 @ ms2))))"
    using parseLoop_acc [of "more (fst (Parse p a)) b"]
    by (auto simp: Parse_def split: prod.splits sum.splits)
  finally show ?thesis .
qed

lemma Parse_then:
  "Parse p a = (p1, Inr ms) \<Longrightarrow>
   Parse p (a @ b) = (case Parse p1 b of (p2, Inr ns) \<Rightarrow> (p2, Inr (ms @ ns)) | (p2, Inl e) \<Rightarrow> (p2, Inl e))"
  using parseLoop_more [of "more p a" b] parseLoop_acc [of "more p1 b" ms]
  by (auto simp: Parse_def split: prod.splits sum.splits)

lemma error_drops_messages:
  "Parse p a = (p1, Inr ms) \<Longrightarrow> Parse p1 b = (p2, Inl e) \<Longrightarrow> Parse p (a @ b) = (p2, Inl e)"
  using Parse_then [of p a p1 ms b] by simp

interpretation ws: stream_parser Parse "\<lambda>_. True"
  by unfold_locales (simp_all add: Parse_then)

section \<open>Frames of the builder are read back\<close>

lemma length_applyMask [simp]: "length (applyMask key d) = length d"
  by (simp add: applyMask_def)

lemma applyMask_twice [simp]: "applyMask key (applyMask key d) = d"
  by (intro nth_equalityI) (auto simp: applyMask_def xor.assoc)

lemma u8_small: "w < 128 \<Longrightarrow> (w :: u8) AND 0x7F = w" "w < 128 \<Longrightarrow> (w :: u8) AND 0x80 = 0"
proof -
  assume "w < 128"
  then have "unat w < 2 ^ 7" by (simp add: word_less_nat_alt)
  then have "take_bit 7 w = w" by (simp add: word_unat_eq_iff unsigned_take_bit_eq take_bit_nat_eq_self)
  moreover have "take_bit 7 w = w AND 0x7F" by (simp add: take_bit_eq_mask mask_eq_exp_minus_1)
  ultimately show e: "w AND 0x7F = w" by simp
  have "w AND 0x80 = (w AND 0x7F) AND 0x80" by (simp only: e)
  also have "\<dots> = 0" by (simp add: and.assoc)
  finally show "w AND 0x80 = 0" .
qed

lemma u8_marked:
  assumes "w < 128"
  shows "(0x80 OR w :: u8) AND 0x7F = w" "(0x80 OR w :: u8) AND 0x80 = 0x80"
  by (simp_all add: bit.conj_disj_distrib2 u8_small [OF assms])

lemma opcode_bits:
  assumes "isValidOpCode op"
  shows "op AND 0x0F = op" "(op OR 0x80) AND 0x0F = op" "op AND 0x80 = 0" "(op OR 0x80) AND 0x80 \<noteq> 0"
  using assms by (auto simp: isValidOpCode_def)

text \<open>The second byte and the extended length, read back.\<close>

definition lengthBytes :: "u8 \<Rightarrow> nat \<Rightarrow> bytes" where
  "lengthBytes second n =
     (if n \<ge> 65536 then (second OR 127) # PutUint64 (of_nat n)
      else if n \<ge> 126 then (second OR 126) # PutUint16 (of_nat n)
      else [second OR of_nat n])"

lemma small_of_nat: "n < 126 \<Longrightarrow> (of_nat n :: u8) < 128" "n < 126 \<Longrightarrow> uint (of_nat n :: u8) = int n"
  by (simp_all add: word_less_nat_alt unat_of_nat uint_nat)

lemma lengthBytes_ok:
  assumes "n < 2 ^ 63" "second = (if masked then 0x80 else 0)"
  shows "payloadLength (x # lengthBytes second n @ rest) = Len (int n) (Suc (length (lengthBytes second n)))"
    and "(lengthBytes second n ! 0 AND 0x80 \<noteq> 0) = masked"
    and "0 < length (lengthBytes second n)"
proof -
  have big: "(second OR w) AND 0x7F = w" "((second OR w) AND 0x80 \<noteq> 0) = masked" if "w < 128" for w
    using that assms(2) u8_marked [of w] u8_small [of w] by auto
  have "payloadLength (x # lengthBytes second n @ rest) = Len (int n) (Suc (length (lengthBytes second n))) \<and>
      (lengthBytes second n ! 0 AND 0x80 \<noteq> 0) = masked"
  proof -
    consider "n \<ge> 65536" | "126 \<le> n" "n < 65536" | "n < 126" by linarith
    then show ?thesis
    proof cases
      case 1
      have u: "unat (of_nat n :: u64) = n" using assms(1) by (simp add: unat_of_nat)
      then have ui: "uint (of_nat n :: u64) = int n" by (metis uint_nat)
      then have nb: "\<not> bit (of_nat n :: u64) 63"
      proof -
        have "int n div 2 ^ 63 = 0" using assms(1) by simp
        then have "\<not> bit (uint (of_nat n :: u64)) 63" unfolding ui bit_iff_odd by simp
        then show ?thesis by (simp add: bit_uint_iff)
      qed
      then have b: "(of_nat n :: u64) AND push_bit 63 1 = 0"
        unfolding msb_clear .
      have "sint (of_nat n :: u64) = int n"
        using assms(1) ui by (simp add: sint_uint signed_take_bit_int_eq_self)
      with 1 b big(1,2) [of 127] show ?thesis
        by (simp add: lengthBytes_def payloadLength_def Let_def slice_def)
    next
      case 2
      then have "uint (of_nat n :: u16) = int n" by (simp add: uint_nat unat_of_nat)
      with 2 big(1,2) [of 126] show ?thesis
        by (simp add: lengthBytes_def payloadLength_def Let_def slice_def)
    next
      case 3
      with small_of_nat [OF 3] big [of "of_nat n"] show ?thesis
        by (simp add: lengthBytes_def payloadLength_def Let_def)
    qed
  qed
  then show "payloadLength (x # lengthBytes second n @ rest) = Len (int n) (Suc (length (lengthBytes second n)))"
    "(lengthBytes second n ! 0 AND 0x80 \<noteq> 0) = masked" by auto
  show "0 < length (lengthBytes second n)" by (simp add: lengthBytes_def)
qed

lemma buildFrame_bytes:
  assumes "buildFrame server key op payload fin = Inr f"
  shows "isValidOpCode op"
    "f = (if fin then op OR 0x80 else op) # lengthBytes (if \<not> server then 0x80 else 0) (length payload)
       @ (if server then payload else key @ applyMask key payload)"
  using assms by (auto simp: buildFrame_def Let_def lengthBytes_def split: if_splits)

text \<open>What the parser makes of a frame of its peer's builder.\<close>

lemma parse_built:
  assumes f: "buildFrame (\<not> isServer p) key op payload fin = Inr f" and key: "length key = 4"
    and len: "int (length payload) \<le> maxFrameSize p" "length payload < 2 ^ 63" and w: "wbuf p = f @ rest"
  shows "parseFrame p =
    acceptFrame p op payload fin (isServer p) (if isServer p then Some key else None) (length f)"
proof -
  note fb = buildFrame_bytes [OF f]
  let ?lb = "lengthBytes (if isServer p then 0x80 else 0) (length payload)"
  let ?body = "if isServer p then key @ applyMask key payload else payload"
  have f': "f = (if fin then op OR 0x80 else op) # ?lb @ ?body" using fb(2) by simp
  note lb = lengthBytes_ok [OF len(2) refl, where masked = "isServer p"]
  have wb: "wbuf p = (if fin then op OR 0x80 else op) # ?lb @ (?body @ rest)"
    using w f' by simp
  have pl: "payloadLength (wbuf p) = Len (int (length payload)) (Suc (length ?lb))"
    unfolding wb by (rule lb(1))
  have b0: "wbuf p ! 0 AND 0x0F = op" "(wbuf p ! 0 AND 0x80 \<noteq> 0) = fin"
    using opcode_bits [OF fb(1)] by (auto simp: wb)
  have b1: "(wbuf p ! Suc 0 AND 0x80 \<noteq> 0) = isServer p"
    using lb(2,3) by (simp add: wb nth_append)
  have n: "2 \<le> length (wbuf p)" unfolding wb length_Cons length_append using lb(3) by linarith
  let ?h = "Suc (length ?lb)"
  have sl: "slice ?h (?h + 4) (wbuf p) = key \<and>
      slice (?h + 4) (?h + 4 + length payload) (wbuf p) = applyMask key payload" if "isServer p"
    using that unfolding wb slice_def key [symmetric] by simp
  have sl': "slice ?h (?h + length payload) (wbuf p) = payload" if "\<not> isServer p"
    using that by (simp add: wb slice_def)
  have lw: "length (wbuf p) = length f + length rest" "length f = (if isServer p then ?h + 4 else ?h) + length payload"
    using w key by (simp_all add: f')
  have "frameBody p (int (length payload)) (Suc (length ?lb)) =
      acceptFrame p op payload fin (isServer p) (if isServer p then Some key else None) (length f)"
    using sl sl' unfolding frameBody_def Let_def One_nat_def b0 b1 lw
    by (cases "isServer p") simp_all
  with pl n b1 len show ?thesis by (auto simp: parseFrame_def Let_def)
qed

section \<open>Whole messages\<close>

text \<open>The message that a peer's parser makes of an unfragmented frame.\<close>

definition frameMessage :: "bool \<Rightarrow> bytes \<Rightarrow> u8 \<Rightarrow> bytes \<Rightarrow> ws_message" where
  "frameMessage server key op payload =
     (let msg = \<lparr>wType = getMessageType op, Payload = payload, OpCode = op, Masked = \<not> server,
                 MaskKey = (if \<not> server then Some key else None), Final = True,
                 CloseCode = 0, CloseReason = []\<rparr>
      in if op = OpCodeClose then parseCloseFrame msg payload else msg)"

lemma acceptFrame_plain:
  assumes "isValidOpCode op" "op \<noteq> OpCodeContinuation" "isControlFrame op \<longrightarrow> length payload \<le> 125"
    "op = OpCodeText \<longrightarrow> utf8_Valid payload"
  shows "acceptFrame p op payload True (isServer p) (if isServer p then Some key else None) n =
    (p, Inr (Some (frameMessage (\<not> isServer p) key op payload), n))"
  using assms by (auto simp: acceptFrame_def validateFrame_def frameMessage_def Let_def)

lemma buildFrame_control: "buildFrame server key op payload fin = Inr f \<Longrightarrow> isControlFrame op \<longrightarrow> length payload \<le> 125"
  by (auto simp: buildFrame_def split: if_splits)

lemma buildFrame_length: "buildFrame server key op payload fin = Inr f \<Longrightarrow> 2 \<le> length f"
proof -
  assume a: "buildFrame server key op payload fin = Inr f"
  have "0 < length (lengthBytes (if \<not> server then 0x80 else 0) (length payload))" by (simp add: lengthBytes_def)
  then show "2 \<le> length f"
    unfolding buildFrame_bytes(2) [OF a] length_Cons length_append by linarith
qed

text \<open>A frame to send: the mask, the operation code, the payload.\<close>

type_synonym out_frame = "bytes \<times> u8 \<times> bytes"

definition sendable :: "ws_parser \<Rightarrow> out_frame \<Rightarrow> bool" where
  "sendable p x \<longleftrightarrow>
     (case x of (key, op, payload) \<Rightarrow>
        length key = 4 \<and> op \<noteq> OpCodeContinuation \<and> (op = OpCodeText \<longrightarrow> utf8_Valid payload) \<and>
        int (length payload) \<le> maxFrameSize p \<and> length payload < 2 ^ 63)"

fun encodeFrames :: "bool \<Rightarrow> out_frame list \<Rightarrow> ws_error + bytes" where
  "encodeFrames server [] = Inr []"
| "encodeFrames server ((key, op, payload) # xs) =
     (case buildFrame server key op payload True of
        Inl e \<Rightarrow> Inl e
      | Inr f \<Rightarrow> (case encodeFrames server xs of Inl e \<Rightarrow> Inl e | Inr fs \<Rightarrow> Inr (f @ fs)))"

lemma parseLoop_frames:
  "encodeFrames (\<not> isServer p) xs = Inr bs \<Longrightarrow> \<forall>x\<in>set xs. sendable p x \<Longrightarrow> wbuf p = bs \<Longrightarrow>
   parseLoop p ms = (p\<lparr>wbuf := []\<rparr>,
     Inr (ms @ map (\<lambda>(key, op, payload). frameMessage (\<not> isServer p) key op payload) xs))"
proof (induction xs arbitrary: p bs ms)
  case Nil
  then show ?case by (simp add: parseLoop_stop)
next
  case (Cons x xs)
  obtain key op payload where x: "x = (key, op, payload)" by (cases x)
  from Cons.prems(1) x obtain f fs where
    f: "buildFrame (\<not> isServer p) key op payload True = Inr f" "encodeFrames (\<not> isServer p) xs = Inr fs" "bs = f @ fs"
    by (auto split: sum.splits)
  have s: "length key = 4" "op \<noteq> OpCodeContinuation" "op = OpCodeText \<longrightarrow> utf8_Valid payload"
    "int (length payload) \<le> maxFrameSize p" "length payload < 2 ^ 63"
    using Cons.prems(2) x by (auto simp: sendable_def)
  have w: "wbuf p = f @ fs" using Cons.prems(3) f(3) by simp
  have l: "2 \<le> length f" by (rule buildFrame_length [OF f(1)])
  have "parseFrame p = (p, Inr (Some (frameMessage (\<not> isServer p) key op payload), length f))"
    using parse_built [OF f(1) s(1,4,5) w]
      acceptFrame_plain [OF buildFrame_bytes(1) [OF f(1)] s(2) buildFrame_control [OF f(1)] s(3), of p key "length f"]
    by simp
  then have "parseLoop p ms = parseLoop (rest_after p (length f)) (ms @ [frameMessage (\<not> isServer p) key op payload])"
    using l w by (subst parseLoop_step) auto
  also have "rest_after p (length f) = p\<lparr>wbuf := fs\<rparr>" using w by simp
  finally have step: "parseLoop p ms = parseLoop (p\<lparr>wbuf := fs\<rparr>) (ms @ [frameMessage (\<not> isServer p) key op payload])" .
  have "\<forall>x\<in>set xs. sendable (p\<lparr>wbuf := fs\<rparr>) x" using Cons.prems(2) by (simp add: sendable_def)
  with Cons.IH [of "p\<lparr>wbuf := fs\<rparr>" fs] f(2) step x show ?case by simp
qed

text \<open>C18: what a builder sends its peer's parser reads: the bytes of any sequence of complete frames
  are parsed into exactly the messages they were built from, in order, with the mask undone, nothing is
  left in the buffer and no error is raised.\<close>

theorem frames_roundtrip:
  assumes "encodeFrames (\<not> isServer p) xs = Inr bs" "\<forall>x\<in>set xs. sendable p x" "wbuf p = []"
  shows "Parse p bs = (p, Inr (map (\<lambda>(key, op, payload). frameMessage (\<not> isServer p) key op payload) xs))"
proof -
  have "p\<lparr>wbuf := []\<rparr> = p" using assms(3) by simp
  with parseLoop_frames [of "p\<lparr>wbuf := bs\<rparr>" xs bs "[]"] assms show ?thesis
    by (simp add: Parse_def sendable_def)
qed

theorem frames_roundtrip_witness:
  "Parse (NewWebSocketParser True) [0x81, 0x82, 1, 2, 3, 4, 0x69, 0x6B, 0x89, 0x80, 5, 6, 7, 8] =
     (NewWebSocketParser True,
      Inr [frameMessage False [1, 2, 3, 4] OpCodeText [0x68, 0x69], frameMessage False [5, 6, 7, 8] OpCodePing []])"
proof -
  have "encodeFrames False [([1, 2, 3, 4], OpCodeText, [0x68, 0x69]), ([5, 6, 7, 8], OpCodePing, [])]
      = Inr [0x81, 0x82, 1, 2, 3, 4, 0x69, 0x6B, 0x89, 0x80, 5, 6, 7, 8]"
    by (simp add: buildFrame_def isValidOpCode_def isControlFrame_def applyMask_def upt_rec Let_def)
  with frames_roundtrip [of "NewWebSocketParser True" "[([1, 2, 3, 4], OpCodeText, [0x68, 0x69]), ([5, 6, 7, 8], OpCodePing, [])]"]
  show ?thesis by (simp add: NewWebSocketParser_def sendable_def)
qed

section \<open>Fragmented messages\<close>

definition chunkEnd :: "bytes \<Rightarrow> nat \<Rightarrow> nat \<Rightarrow> nat" where
  "chunkEnd data i mfs = (if i + mfs > length data then length data else i + mfs)"

lemma chunkEnd_bounds: "i < length data \<Longrightarrow> 0 < mfs \<Longrightarrow> i < chunkEnd data i mfs \<and> chunkEnd data i mfs \<le> length data"
  by (auto simp: chunkEnd_def)

lemma fragmentLoop_unfold:
  assumes "fragmentLoop server keys op data mfs i n = Inr frames" "0 < mfs" "i < length data"
  obtains f fs where
    "buildFrame server (keys n) (if i = 0 then op else OpCodeContinuation) (slice i (chunkEnd data i mfs) data)
       (chunkEnd data i mfs = length data) = Inr f"
    "fragmentLoop server keys op data mfs (i + mfs) (Suc n) = Inr fs" "frames = f # fs"
    "chunkEnd data i mfs = length data \<Longrightarrow> fs = []"
proof -
  have e: "chunkEnd data i mfs = length data \<Longrightarrow> fragmentLoop server keys op data mfs (i + mfs) (Suc n) = Inr []"
    by (subst fragmentLoop.simps) (auto simp: chunkEnd_def split: if_splits)
  show ?thesis
    using assms e that
    by (subst (asm) fragmentLoop.simps) (auto simp: Let_def chunkEnd_def [symmetric] split: sum.splits)
qed

text \<open>The peer's parser is set up for the fragments of \<open>data\<close>.\<close>

definition fragmentable :: "ws_parser \<Rightarrow> (nat \<Rightarrow> bytes) \<Rightarrow> u8 \<Rightarrow> bytes \<Rightarrow> nat \<Rightarrow> bool" where
  "fragmentable p keys op data mfs \<longleftrightarrow>
     (\<forall>k. length (keys k) = 4) \<and> (op = OpCodeText \<or> op = OpCodeBinary) \<and>
     (op = OpCodeText \<longrightarrow> utf8_Valid data) \<and> data \<noteq> [] \<and>
     int (length data) \<le> maxMsgSize p \<and> length data < 2 ^ 63 \<and> 0 < mfs \<and> int mfs \<le> maxFrameSize p"

definition wholeMessage :: "ws_message \<Rightarrow> u8 \<Rightarrow> bytes \<Rightarrow> bool" where
  "wholeMessage m op data \<longleftrightarrow>
     Payload m = data \<and> OpCode m = op \<and> wType m = getMessageType op \<and> Final m"

lemma valid_ops: "isValidOpCode OpCodeContinuation" "isValidOpCode OpCodeText" "isValidOpCode OpCodeBinary"
  "\<not> isControlFrame OpCodeContinuation" "\<not> isControlFrame OpCodeText" "\<not> isControlFrame OpCodeBinary"
  by (simp_all add: isValidOpCode_def isControlFrame_def word_le_nat_alt)

lemma take_chunk: "i \<le> j \<Longrightarrow> take i data @ slice i j data = take j data"
  by (simp add: slice_def) (metis le_add_diff_inverse take_add)

lemma parse_chunk:
  assumes fr: "fragmentable p keys op data mfs" and i: "i < length data"
    and b: "buildFrame (\<not> isServer p) (keys n) op' (slice i (chunkEnd data i mfs) data) fin = Inr f"
    and w: "wbuf p = f @ rest"
  shows "parseFrame p = acceptFrame p op' (slice i (chunkEnd data i mfs) data) fin (isServer p)
    (if isServer p then Some (keys n) else None) (length f)"
proof -
  have l: "length (slice i (chunkEnd data i mfs) data) \<le> mfs"
    "length (slice i (chunkEnd data i mfs) data) \<le> length data"
    using i by (auto simp: chunkEnd_def slice_def)
  with fr show ?thesis
    by (intro parse_built [OF b _ _ _ w]) (auto simp: fragmentable_def)
qed

lemma parseLoop_next:
  assumes "wbuf p = f @ rest" "2 \<le> length f" "parseFrame p = (p', Inr (m, length f))"
  shows "parseLoop p ms = parseLoop (p'\<lparr>wbuf := rest\<rparr>) (ms @ opt_list m)"
proof -
  have "wbuf p' = f @ rest" using parseFrame_wbuf [of p] assms(1,3) by simp
  then have r: "rest_after p' (length f) = p'\<lparr>wbuf := rest\<rparr>" by simp
  have "2 \<le> length (wbuf p)" "0 < length f" using assms(1,2) by (simp, linarith)
  from parseLoop_step [OF this(1) assms(3) this(2), of ms] show ?thesis unfolding r .
qed

lemma fragment_next:
  assumes "fragmentBuffer p @ payload = x" "int (length x) \<le> maxMsgSize p"
  shows "handleFragmentation p OpCodeContinuation payload False k n = (p\<lparr>fragmentBuffer := x\<rparr>, Inr (None, n))"
  using assms(2) unfolding assms(1) [symmetric] by (simp add: handleFragmentation_def Let_def)

lemma fragment_last:
  assumes "fragmentBuffer p @ payload = x" "int (length x) \<le> maxMsgSize p"
    "fragmentOpCode p = op" "op = OpCodeText \<longrightarrow> utf8_Valid x"
  shows "\<exists>m. handleFragmentation p OpCodeContinuation payload True k n =
    (p\<lparr>fragmentBuffer := [], fragmentOpCode := 0\<rparr>, Inr (Some m, n)) \<and> wholeMessage m op x"
  using assms(2-4) unfolding assms(1) [symmetric]
  by (auto simp: handleFragmentation_def Let_def wholeMessage_def)

lemma parse_rest:
  "fragmentLoop (\<not> isServer p) keys op data mfs i n = Inr frames \<Longrightarrow> fragmentable p keys op data mfs \<Longrightarrow>
   0 < i \<Longrightarrow> i < length data \<Longrightarrow> fragmentBuffer p = take i data \<Longrightarrow> fragmentOpCode p = op \<Longrightarrow>
   wbuf p = concat frames \<Longrightarrow>
   \<exists>m. parseLoop p [] = (p\<lparr>wbuf := [], fragmentBuffer := [], fragmentOpCode := 0\<rparr>, Inr [m]) \<and> wholeMessage m op data"
proof (induction "length data - i" arbitrary: p i n frames rule: less_induct)
  case less
  note fr = less.prems(2)
  have mfs: "0 < mfs" and op: "op = OpCodeText \<longrightarrow> utf8_Valid data"
    and size: "int (length data) \<le> maxMsgSize p"
    using fr by (auto simp: fragmentable_def)
  define e where "e = chunkEnd data i mfs"
  from fragmentLoop_unfold [OF less.prems(1) mfs less.prems(4), folded e_def] obtain f fs where
    f0: "buildFrame (\<not> isServer p) (keys n) (if i = 0 then op else OpCodeContinuation) (slice i e data) (e = length data) = Inr f"
      "fragmentLoop (\<not> isServer p) keys op data mfs (i + mfs) (Suc n) = Inr fs" "frames = f # fs"
      "e = length data \<Longrightarrow> fs = []" by blast
  then have f: "buildFrame (\<not> isServer p) (keys n) OpCodeContinuation (slice i e data) (e = length data) = Inr f"
    using less.prems(3) by simp
  have w: "wbuf p = f @ concat fs" using less.prems(7) f0(3) by simp
  have two: "2 \<le> length f" by (rule buildFrame_length [OF f])
  let ?k = "if isServer p then Some (keys n) else None"
  have pf: "parseFrame p = handleFragmentation p OpCodeContinuation (slice i e data) (e = length data) ?k (length f)"
    unfolding parse_chunk [OF fr less.prems(4) f [unfolded e_def] w, folded e_def]
    by (simp add: acceptFrame_def validateFrame_def valid_ops)
  have e: "i < e" "e \<le> length data" using chunkEnd_bounds [OF less.prems(4) mfs] by (simp_all add: e_def)
  have buf: "fragmentBuffer p @ slice i e data = take e data"
    using less.prems(5) e by (simp add: take_chunk)
  show ?case
  proof (cases "e = length data")
    case True
    have "fragmentBuffer p @ slice i e data = data" using buf True by simp
    from fragment_last [OF this size less.prems(6) op, of ?k "length f"] obtain m where
      m0: "handleFragmentation p OpCodeContinuation (slice i e data) True ?k (length f) =
        (p\<lparr>fragmentBuffer := [], fragmentOpCode := 0\<rparr>, Inr (Some m, length f))" "wholeMessage m op data" by blast
    then have m: "parseFrame p = (p\<lparr>fragmentBuffer := [], fragmentOpCode := 0\<rparr>, Inr (Some m, length f))"
      "wholeMessage m op data" using pf True by simp_all
    with parseLoop_next [OF w two m(1), of "[]"] f0(4) [OF True] show ?thesis by (simp add: parseLoop_stop)
  next
    case False
    then have e': "e = i + mfs" using less.prems(4) by (auto simp: e_def chunkEnd_def split: if_splits)
    let ?q = "p\<lparr>fragmentBuffer := take e data, wbuf := concat fs\<rparr>"
    have "int (length (take e data)) \<le> maxMsgSize p" using size e by simp
    from fragment_next [OF buf this] pf False
    have "parseFrame p = (p\<lparr>fragmentBuffer := take e data\<rparr>, Inr (None, length f))" by simp
    from parseLoop_next [OF w two this, of "[]"] have s: "parseLoop p [] = parseLoop ?q []" by simp
    have "fragmentable ?q keys op data mfs" using fr by (simp add: fragmentable_def)
    then have "\<exists>m. parseLoop ?q [] = (?q\<lparr>wbuf := [], fragmentBuffer := [], fragmentOpCode := 0\<rparr>, Inr [m])
        \<and> wholeMessage m op data"
      using e e' False less.prems(4,6) f0(2) by (intro less.hyps [of e ?q "Suc n" fs]) auto
    with s show ?thesis by auto
  qed
qed

abbreviation frameSize :: "int \<Rightarrow> nat" where
  "frameSize maxSize \<equiv> if maxSize \<le> 0 then 32768 else nat maxSize"

text \<open>C29: a message cut into fragments comes back whole: the parser of the peer reads the frames of
  \<^verbatim>\<open>BuildFragmentedFrames\<close> as exactly one message, with the operation code and the bytes of
  the original, and is ready for the next; for a text the first fragment has to end between two
  characters.\<close>

theorem fragments_roundtrip:
  assumes "BuildFragmentedFrames (\<not> isServer p) keys op data maxSize = Inr frames"
    "fragmentable p keys op data (frameSize maxSize)" "wbuf p = []" "fragmentBuffer p = []"
    "op = OpCodeText \<longrightarrow> utf8_Valid (take (frameSize maxSize) data)"
  shows "\<exists>p' m. Parse p (concat frames) = (p', Inr [m]) \<and> wholeMessage m op data
    \<and> wbuf p' = [] \<and> fragmentBuffer p' = []"
proof -
  define mfs where "mfs = frameSize maxSize"
  define e where "e = chunkEnd data 0 mfs"
  have fr: "fragmentable p keys op data mfs" using assms(2) by (simp only: mfs_def)
  then have mfs: "0 < mfs" and op: "op = OpCodeText \<or> op = OpCodeBinary" and d: "0 < length data"
    and utf: "op = OpCodeText \<longrightarrow> utf8_Valid data" "op = OpCodeText \<longrightarrow> utf8_Valid (take mfs data)"
    and size: "int (length data) \<le> maxMsgSize p"
    using assms(5) by (auto simp: fragmentable_def mfs_def)
  have "fragmentLoop (\<not> isServer p) keys op data mfs 0 0 = Inr frames"
    using assms(1) unfolding BuildFragmentedFrames_def Let_def mfs_def by (simp split: if_splits)
  from fragmentLoop_unfold [OF this mfs d, folded e_def] obtain f fs where
    f0: "buildFrame (\<not> isServer p) (keys 0) (if (0::nat) = 0 then op else OpCodeContinuation) (slice 0 e data) (e = length data) = Inr f"
      "fragmentLoop (\<not> isServer p) keys op data mfs (0 + mfs) (Suc 0) = Inr fs" "frames = f # fs"
      "e = length data \<Longrightarrow> fs = []" by blast
  let ?p = "p\<lparr>wbuf := concat frames\<rparr>"
  have fr': "fragmentable ?p keys op data mfs" using fr by (simp add: fragmentable_def)
  have f: "buildFrame (\<not> isServer ?p) (keys 0) op (slice 0 e data) (e = length data) = Inr f" using f0(1) by simp
  have w: "wbuf ?p = f @ concat fs" using f0(3) by simp
  have two: "2 \<le> length f" by (rule buildFrame_length [OF f])
  let ?k = "if isServer ?p then Some (keys 0) else None"
  note pf = parse_chunk [OF fr' d f [unfolded e_def] w, folded e_def]
  have e: "0 < e" "e \<le> length data" using chunkEnd_bounds [OF d mfs] by (simp_all add: e_def)
  have P: "Parse p (concat frames) = parseLoop ?p []" using assms(3) by (simp add: Parse_def)
  have v: "isValidOpCode op" "\<not> isControlFrame op" "op \<noteq> OpCodeContinuation" using op valid_ops by auto
  show ?thesis
  proof (cases "e = length data")
    case True
    have "parseFrame ?p = (?p, Inr (Some (frameMessage (\<not> isServer ?p) (keys 0) op data), length f))"
      unfolding pf True using acceptFrame_plain [of op data ?p "keys 0" "length f"] v utf by simp
    from parseLoop_next [OF w two this, of "[]"] f0(4) [OF True]
    have "parseLoop ?p [] = (p\<lparr>wbuf := []\<rparr>, Inr [frameMessage (\<not> isServer ?p) (keys 0) op data])"
      by (simp add: parseLoop_stop)
    moreover have "wholeMessage (frameMessage (\<not> isServer ?p) (keys 0) op data) op data"
      using op by (auto simp: wholeMessage_def frameMessage_def Let_def)
    ultimately show ?thesis using P assms(4) by simp
  next
    case False
    then have e': "e = mfs" by (auto simp: e_def chunkEnd_def split: if_splits)
    let ?q = "p\<lparr>fragmentBuffer := take mfs data, fragmentOpCode := op, wbuf := concat fs\<rparr>"
    have "validateFrame op (take mfs data) False = Inr ()" using v utf by (simp add: validateFrame_def)
    then have "acceptFrame ?p op (slice 0 e data) False (isServer ?p) ?k (length f) =
        handleFragmentation ?p op (take mfs data) False ?k (length f)"
      using op by (simp add: acceptFrame_def e')
    also have "\<dots> = (?p\<lparr>fragmentBuffer := take mfs data, fragmentOpCode := op\<rparr>, Inr (None, length f))"
      using v size assms(4) e e' by (simp add: handleFragmentation_def Let_def)
    finally have "parseFrame ?p = (?p\<lparr>fragmentBuffer := take mfs data, fragmentOpCode := op\<rparr>, Inr (None, length f))"
      using pf False by simp
    from parseLoop_next [OF w two this, of "[]"] have s: "parseLoop ?p [] = parseLoop ?q []" by simp
    have "fragmentable ?q keys op data mfs" using fr by (simp add: fragmentable_def)
    with parse_rest [of ?q keys op data mfs mfs "Suc 0" fs] f0(2) e e' False mfs
    obtain m where "parseLoop ?q [] = (?q\<lparr>wbuf := [], fragmentBuffer := [], fragmentOpCode := 0\<rparr>, Inr [m])"
      "wholeMessage m op data" by auto
    with s P show ?thesis by simp
  qed
qed

theorem fragments_roundtrip_witness:
  "\<exists>p' m. Parse (NewWebSocketParser False) (concat [[0x02, 3, 1, 2, 3], [0x00, 3, 4, 5, 6], [0x80, 1, 7]]) = (p', Inr [m])
     \<and> wholeMessage m OpCodeBinary [1, 2, 3, 4, 5, 6, 7] \<and> wbuf p' = [] \<and> fragmentBuffer p' = []"
proof -
  have "BuildFragmentedFrames True (\<lambda>_. [0, 0, 0, 0]) OpCodeBinary [1, 2, 3, 4, 5, 6, 7] 3
      = Inr [[0x02, 3, 1, 2, 3], [0x00, 3, 4, 5, 6], [0x80, 1, 7]]"
    by (simp add: BuildFragmentedFrames_def valid_ops fragmentLoop.simps buildFrame_def Let_def slice_def)
  with fragments_roundtrip [of "NewWebSocketParser False" "\<lambda>_. [0, 0, 0, 0]" OpCodeBinary "[1, 2, 3, 4, 5, 6, 7]" 3]
  show ?thesis by (simp add: NewWebSocketParser_def fragmentable_def)
qed

text \<open>A valid text cut inside a character is refused: the parser checks the encoding of the first
  fragment alone, so what \<^verbatim>\<open>BuildFragmentedFrames\<close> makes of such a text gives an error, and
  since the frame stays in the buffer every later call gives it again.\<close>

theorem split_character_refused:
  assumes "BuildFragmentedFrames (\<not> isServer p) keys OpCodeText data maxSize = Inr frames"
    "fragmentable p keys OpCodeText data (frameSize maxSize)" "wbuf p = []"
    "frameSize maxSize < length data" "\<not> utf8_Valid (take (frameSize maxSize) data)"
  shows "Parse p (concat frames) = (p\<lparr>wbuf := concat frames\<rparr>, Inl TextNotUTF8) \<and>
    Parse (p\<lparr>wbuf := concat frames\<rparr>) more_data = (p\<lparr>wbuf := concat frames @ more_data\<rparr>, Inl TextNotUTF8)"
proof -
  define mfs where "mfs = frameSize maxSize"
  have fr: "fragmentable p keys OpCodeText data mfs" and bad: "mfs < length data" "\<not> utf8_Valid (take mfs data)"
    using assms(2,4,5) unfolding mfs_def by blast+
  then have mfs: "0 < mfs" and d: "0 < length data" by (auto simp: fragmentable_def)
  have "fragmentLoop (\<not> isServer p) keys OpCodeText data mfs 0 0 = Inr frames"
    using assms(1) unfolding BuildFragmentedFrames_def Let_def mfs_def by (simp split: if_splits)
  from fragmentLoop_unfold [OF this mfs d] obtain f fs where
    f0: "buildFrame (\<not> isServer p) (keys 0) (if (0::nat) = 0 then OpCodeText else OpCodeContinuation)
          (slice 0 (chunkEnd data 0 mfs) data) (chunkEnd data 0 mfs = length data) = Inr f" "frames = f # fs"
    by blast
  have e: "chunkEnd data 0 mfs = mfs" using bad by (simp add: chunkEnd_def)
  have two: "2 \<le> length f" by (rule buildFrame_length [OF f0(1)])
  have P: "Parse p (concat frames @ x) = (p\<lparr>wbuf := concat frames @ x\<rparr>, Inl TextNotUTF8)" for x
  proof -
    let ?p = "p\<lparr>wbuf := concat frames @ x\<rparr>"
    have fr': "fragmentable ?p keys OpCodeText data mfs" using fr by (simp add: fragmentable_def)
    have w: "wbuf ?p = f @ (concat fs @ x)" using f0(2) by simp
    have f: "buildFrame (\<not> isServer ?p) (keys 0) OpCodeText (slice 0 (chunkEnd data 0 mfs) data) False = Inr f"
      using f0(1) e bad by simp
    have "validateFrame OpCodeText (take mfs data) False = Inl TextNotUTF8"
      using bad valid_ops by (simp add: validateFrame_def)
    then have "parseFrame ?p = (?p, Inl TextNotUTF8)"
      using parse_chunk [OF fr' d f w] by (simp add: acceptFrame_def e)
    moreover have "2 \<le> length (wbuf ?p)" using two w by simp
    ultimately show ?thesis using assms(3) by (simp add: Parse_def parseLoop_error)
  qed
  from P [of "[]"] P [of more_data] assms(3) show ?thesis by (simp add: Parse_def)
qed

theorem split_character_refused_witness:
  "Parse (NewWebSocketParser False) (concat [[0x01, 1, 0xC3], [0x80, 1, 0xA9]]) =
     (NewWebSocketParser False\<lparr>wbuf := [0x01, 1, 0xC3, 0x80, 1, 0xA9]\<rparr>, Inl TextNotUTF8)"
proof -
  have "BuildFragmentedFrames True (\<lambda>_. [0, 0, 0, 0]) OpCodeText [0xC3, 0xA9] 1
      = Inr [[0x01, 1, 0xC3], [0x80, 1, 0xA9]]"
    by (simp add: BuildFragmentedFrames_def valid_ops fragmentLoop.simps buildFrame_def Let_def slice_def)
  with split_character_refused [of "NewWebSocketParser False" "\<lambda>_. [0, 0, 0, 0]" "[0xC3, 0xA9]" 1 "[[0x01, 1, 0xC3], [0x80, 1, 0xA9]]"]
  show ?thesis by (simp add: NewWebSocketParser_def fragmentable_def cont_byte_def)
qed

text \<open>The limits of the parser.\<close>

definition bounded :: "ws_parser \<Rightarrow> bool" where
  "bounded p \<longleftrightarrow> 0 \<le> maxMsgSize p \<and> int (length (fragmentBuffer p)) \<le> maxMsgSize p"

definition within_limits :: "ws_parser \<Rightarrow> ws_message \<Rightarrow> bool" where
  "within_limits p m \<longleftrightarrow> int (length (Payload m)) \<le> max (maxMsgSize p) (maxFrameSize p)"

definition same_limits :: "ws_parser \<Rightarrow> ws_parser \<Rightarrow> bool" where
  "same_limits p p' \<longleftrightarrow> maxMsgSize p' = maxMsgSize p \<and> maxFrameSize p' = maxFrameSize p"

lemma handleFragmentation_bounded:
  assumes "handleFragmentation p op pl fin k n = (p', r)" "bounded p"
  shows "bounded p' \<and> same_limits p p' \<and> (\<forall>m c. r = Inr (Some m, c) \<longrightarrow> within_limits p m)"
  using assms by (auto simp: handleFragmentation_def Let_def bounded_def same_limits_def within_limits_def split: if_splits)

lemma parseCloseFrame_Payload: "Payload (parseCloseFrame m pl) = Payload m"
  by (simp add: parseCloseFrame_def Let_def)

lemma acceptFrame_bounded:
  assumes "acceptFrame p op pl fin ms k n = (p', r)" "bounded p" "int (length pl) \<le> maxFrameSize p"
  shows "bounded p' \<and> same_limits p p' \<and> (\<forall>m c. r = Inr (Some m, c) \<longrightarrow> within_limits p m)"
proof (cases "validateFrame op pl fin")
  case (Inl e)
  with assms show ?thesis by (auto simp: acceptFrame_def same_limits_def)
next
  case (Inr u)
  show ?thesis
  proof (cases "op = OpCodeContinuation \<or> (\<not> fin \<and> (op = OpCodeText \<or> op = OpCodeBinary))")
    case True
    with assms Inr show ?thesis by (intro handleFragmentation_bounded) (auto simp: acceptFrame_def)
  next
    case False
    with assms Inr show ?thesis
      by (auto simp: acceptFrame_def Let_def same_limits_def within_limits_def parseCloseFrame_Payload split: if_splits)
  qed
qed

lemma frameBody_cases:
  assumes "frameBody p n h = (p', r)"
  obtains (waiting) "p' = p" "r = Inr (None, 0)"
    | (accepted) op pl fin ms k c where "acceptFrame p op pl fin ms k c = (p', r)" "length pl = nat n"
proof (cases "length (wbuf p) < (if wbuf p ! 1 AND 0x80 \<noteq> 0 then h + 4 else h) + nat n")
  case True
  with assms show ?thesis by (intro waiting) (auto simp: frameBody_def Let_def split: if_splits)
next
  case False
  with assms show ?thesis
    by (cases "wbuf p ! 1 AND 0x80 \<noteq> 0") (auto simp: frameBody_def Let_def intro: accepted)
qed

lemma parseFrame_bounded:
  assumes pf: "parseFrame p = (p', r)" and b: "bounded p"
  shows "bounded p' \<and> same_limits p p' \<and> (\<forall>m c. r = Inr (Some m, c) \<longrightarrow> within_limits p m)"
proof -
  have same: "bounded p \<and> same_limits p p" using b by (simp add: same_limits_def)
  show ?thesis
  proof (cases "2 \<le> length (wbuf p)")
    case two: True
    show ?thesis
    proof (cases "payloadLength (wbuf p)")
      case (Len n h)
      have n: "0 \<le> n" using payloadLength_header [OF Len two] by simp
      show ?thesis
      proof (cases "frameBody p n h = (p', r) \<and> n \<le> maxFrameSize p")
        case True
        then have fb: "frameBody p n h = (p', r)" by simp
        show ?thesis
        proof (rule frameBody_cases [OF fb])
          assume "p' = p" "r = Inr (None, 0)"
          then show ?thesis using same by simp
        next
          fix op pl fin ms k c
          assume a: "acceptFrame p op pl fin ms k c = (p', r)" "length pl = nat n"
          show ?thesis using True n a(2) by (intro acceptFrame_bounded [OF a(1) b]) simp
        qed
      next
        case False
        with pf Len two same show ?thesis by (auto simp: parseFrame_def Let_def split: if_splits)
      qed
    qed (use pf two same in \<open>auto simp: parseFrame_def Let_def split: if_splits\<close>)
  qed (use pf same in \<open>auto simp: parseFrame_def\<close>)
qed

lemma parseLoop_bounded:
  "bounded p \<Longrightarrow> \<forall>m\<in>set ms. within_limits p m \<Longrightarrow>
   bounded (fst (parseLoop p ms)) \<and> (\<forall>ms'. snd (parseLoop p ms) = Inr ms' \<longrightarrow> (\<forall>m\<in>set ms'. within_limits p m))"
proof (induction "length (wbuf p)" arbitrary: p ms rule: less_induct)
  case less
  obtain p' r where pf: "parseFrame p = (p', r)" by (cases "parseFrame p")
  note pb = parseFrame_bounded [OF pf less.prems(1)]
  have b: "wbuf p' = wbuf p" using parseFrame_wbuf [of p] pf by simp
  show ?case
  proof (cases "2 \<le> length (wbuf p)")
    case two: True
    show ?thesis
    proof (cases r)
      case (Inr x)
      obtain m c where x: "x = (m, c)" by (cases x)
      show ?thesis
      proof (cases "c = 0")
        case True
        with pf Inr x parseFrame_stop [of p p' m] less.prems show ?thesis by (simp add: parseLoop_stop)
      next
        case False
        let ?q = "rest_after p' c"
        have w: "within_limits ?q = within_limits p" using pb by (auto simp: within_limits_def same_limits_def)
        have "length (wbuf ?q) < length (wbuf p)" using False two b by simp
        moreover have "bounded ?q" using pb by (simp add: bounded_def)
        moreover have "\<forall>y\<in>set (ms @ opt_list m). within_limits ?q y"
          unfolding w using less.prems(2) pb Inr x by (auto split: option.splits)
        ultimately show ?thesis
          using less.hyps [of ?q "ms @ opt_list m"] w parseLoop_step [OF two, of p' m c ms] pf Inr x False by simp
      qed
    qed (use pf two pb in \<open>simp add: parseLoop_error\<close>)
  qed (use less.prems in \<open>simp add: parseLoop_stop\<close>)
qed

text \<open>The memory a peer can make the parser hold is bounded: no call of \<^verbatim>\<open>Parse\<close> leaves
  more than the maximal message size in the fragment buffer, whatever bytes come in and whether or not
  it fails, and no returned message is larger than a message or a frame may be.\<close>

theorem Parse_bounded:
  assumes "bounded p"
  shows "bounded (fst (Parse p data)) \<and>
    (\<forall>ms. snd (Parse p data) = Inr ms \<longrightarrow> (\<forall>m\<in>set ms. within_limits p m))"
  using parseLoop_bounded [of "p\<lparr>wbuf := wbuf p @ data\<rparr>" "[]"] assms
  by (simp add: Parse_def bounded_def within_limits_def)

theorem Parse_bounded_witness:
  "bounded (fst (Parse (NewWebSocketParser True) [0x01, 0x80])) \<and> bounded (NewWebSocketParser True)"
proof -
  have "bounded (NewWebSocketParser True)" by (simp add: bounded_def NewWebSocketParser_def)
  with Parse_bounded [OF this, of "[0x01, 0x80]"] show ?thesis by blast
qed

text \<open>A continuation frame that continues nothing is not refused: a parser with no fragment under
  way takes it, and a final one comes out as a message of its own with operation code 0.\<close>

theorem orphan_continuation_accepted:
  assumes "buildFrame (\<not> isServer p) key OpCodeContinuation payload True = Inr f" "length key = 4"
    "int (length payload) \<le> min (maxFrameSize p) (maxMsgSize p)" "length payload < 2 ^ 63"
    "wbuf p = []" "fragmentBuffer p = []" "fragmentOpCode p = 0"
  shows "\<exists>p' m. Parse p f = (p', Inr [m]) \<and> OpCode m = 0 \<and> Payload m = payload \<and> wType m = ''websocket_unknown''"
proof -
  let ?p = "p\<lparr>wbuf := f\<rparr>" let ?k = "if isServer ?p then Some key else None"
  have w: "wbuf ?p = f @ []" by simp
  have two: "2 \<le> length f" by (rule buildFrame_length [OF assms(1)])
  have "parseFrame ?p = acceptFrame ?p OpCodeContinuation payload True (isServer ?p) ?k (length f)"
    using assms by (intro parse_built [OF _ _ _ _ w]) simp_all
  also have "\<dots> = handleFragmentation ?p OpCodeContinuation payload True ?k (length f)"
    by (simp add: acceptFrame_def validateFrame_def valid_ops)
  also have "\<exists>m. \<dots> = (?p\<lparr>fragmentBuffer := [], fragmentOpCode := 0\<rparr>, Inr (Some m, length f)) \<and> wholeMessage m 0 payload"
    using assms by (intro fragment_last) simp_all
  finally obtain m where m: "parseFrame ?p = (?p\<lparr>fragmentBuffer := [], fragmentOpCode := 0\<rparr>, Inr (Some m, length f))"
    "wholeMessage m 0 payload" by blast
  from parseLoop_next [OF w two m(1), of "[]"] assms(5)
  have "Parse p f = (p\<lparr>wbuf := f\<rparr>\<lparr>fragmentBuffer := [], fragmentOpCode := 0\<rparr>\<lparr>wbuf := []\<rparr>, Inr [m])"
    by (simp add: Parse_def parseLoop_stop)
  with m(2) show ?thesis by (auto simp: wholeMessage_def getMessageType_def)
qed

theorem orphan_continuation_accepted_witness:
  "\<exists>p' m. Parse (NewWebSocketParser False) [0x80, 1, 7] = (p', Inr [m]) \<and> OpCode m = 0 \<and> Payload m = [7]"
proof -
  have "buildFrame True [0, 0, 0, 0] OpCodeContinuation [7] True = Inr [0x80, 1, 7]"
    by (simp add: buildFrame_def valid_ops)
  with orphan_continuation_accepted [of "NewWebSocketParser False" "[0, 0, 0, 0]" "[7]" "[0x80, 1, 7]"]
  show ?thesis by (auto simp: NewWebSocketParser_def)
qed

section \<open>The handle of the protocol\<close>

text \<open>The parser and the builder are nil after \<^verbatim>\<open>Close\<close>; a builder is the side it builds frames for.\<close>

record ws_protocol =
  wpParser :: "ws_parser option"
  wpBuilder :: "bool option"
  wpIsServer :: bool
  wpClosed :: bool

definition NewWebSocketProtocol :: "bool \<Rightarrow> ws_protocol" where
  "NewWebSocketProtocol server = \<lparr>wpParser = Some (NewWebSocketParser server), wpBuilder = Some server,
     wpIsServer = server, wpClosed = False\<rparr>"

definition ws_GetParser :: "ws_protocol \<Rightarrow> ws_parser option" where "ws_GetParser p = wpParser p"
definition ws_GetBuilder :: "ws_protocol \<Rightarrow> bool option" where "ws_GetBuilder p = wpBuilder p"

definition ws_CanHandle :: "bytes \<Rightarrow> bool" where
  "ws_CanHandle data \<longleftrightarrow> \<not> length data < 2 \<and> isValidOpCode (hd data AND 0x0F)"

definition ws_HandleUpgrade :: "protocol_error" where
  "ws_HandleUpgrade = protocol_err Protocol.ProtocolWebSocket ErrCodeNotSupported
     ''WebSocket protocol does not support further upgrades''"

definition ws_protocol_Close :: "ws_protocol \<Rightarrow> ws_protocol" where
  "ws_protocol_Close p =
     (if wpClosed p then p else p\<lparr>wpParser := None, wpBuilder := None, wpClosed := True\<rparr>)"

definition ws_Clone :: "ws_protocol \<Rightarrow> ws_protocol" where
  "ws_Clone p = NewWebSocketProtocol (wpIsServer p)"

definition ws_IsServer :: "ws_protocol \<Rightarrow> bool" where "ws_IsServer p = wpIsServer p"

definition NewServerWebSocketProtocol :: ws_protocol where "NewServerWebSocketProtocol = NewWebSocketProtocol True"
definition NewClientWebSocketProtocol :: ws_protocol where "NewClientWebSocketProtocol = NewWebSocketProtocol False"

lemma ws_Close_idem: "ws_protocol_Close (ws_protocol_Close p) = ws_protocol_Close p"
  by (simp add: ws_protocol_Close_def)

text \<open>Every frame of the builder with a defined opcode is recognised as one.\<close>

lemma ws_CanHandle_frame:
  assumes "buildFrame server key op payload fin = Inr frame"
  shows "ws_CanHandle frame"
proof -
  have op: "isValidOpCode op" using assms by (auto simp: buildFrame_def split: if_splits)
  then have low: "op AND 0x0F = op" "(op OR 0x80) AND 0x0F = op" by (auto simp: isValidOpCode_def)
  have "2 \<le> length frame \<and> (hd frame = op \<or> hd frame = op OR 0x80)"
    using assms by (auto simp: buildFrame_def Let_def split: if_splits)
  then show ?thesis using op low by (auto simp: ws_CanHandle_def)
qed

end
