(* ===== verification/TimerWheel.thy ===== *)
theory TimerWheel
  imports Prelude "HOL-Library.Multiset"
begin

text \<open>
  \<^verbatim>\<open>util/net/base/timer/timer.go\<close>: the timer wheel, which is a binary heap of timers
  ordered by deadline, polled every 10 ms.  \<^verbatim>\<open>container/heap\<close> of the standard library is
  modelled with its sifting loops.  Times and durations are integers (nanoseconds), the clock is an
  argument.  A callback started with \<^verbatim>\<open>go\<close> is recorded in the list of started callbacks.
  The contract of a priority queue is the locale \<open>priority_queue\<close>, interpreted by the heap.
\<close>

section \<open>The heap of the standard library\<close>

record 'c timer =
  tid :: u64
  deadline :: int
  callback :: 'c
  interval :: int
  canceled :: bool

definition Less :: "'c timer list \<Rightarrow> nat \<Rightarrow> nat \<Rightarrow> bool" where
  "Less h i j \<longleftrightarrow> deadline (h ! i) < deadline (h ! j)"

definition Swap :: "nat \<Rightarrow> nat \<Rightarrow> 'c timer list \<Rightarrow> 'c timer list" where
  "Swap i j h = h[i := h ! j, j := h ! i]"

fun up :: "'c timer list \<Rightarrow> nat \<Rightarrow> 'c timer list" where
  "up h j =
     (let i = (j - 1) div 2
      in if j = 0 \<or> \<not> Less h j i then h else up (Swap i j h) i)"

declare up.simps [simp del]

function down :: "'c timer list \<Rightarrow> nat \<Rightarrow> nat \<Rightarrow> 'c timer list" where
  "down h i n =
     (let j1 = 2 * i + 1
      in if j1 \<ge> n then h
         else let j = (if j1 + 1 < n \<and> Less h (j1 + 1) j1 then j1 + 1 else j1)
              in if \<not> Less h j i then h else down (Swap i j h) j n)"
  by pat_completeness auto
termination
  by (relation "measure (\<lambda>(h, i, n). n - i)") (auto simp: Let_def split: if_splits)

declare down.simps [simp del]

definition heap_Push :: "'c timer list \<Rightarrow> 'c timer \<Rightarrow> 'c timer list" where
  "heap_Push h x = up (h @ [x]) (length h)"

text \<open>\<^verbatim>\<open>heap.Pop\<close>, for a heap that is not empty: the first element goes to the end, the
  rest is repaired, the end is cut off.\<close>

definition heap_Pop :: "'c timer list \<Rightarrow> 'c timer list \<times> 'c timer" where
  "heap_Pop h =
     (let n = length h - 1;
          h' = down (Swap 0 n h) 0 n
      in (take n h', h' ! n))"

subsection \<open>Multisets and lengths\<close>

lemma length_Swap [simp]: "length (Swap i j h) = length h"
  by (simp add: Swap_def)

lemma nth_Swap: "i < length h \<Longrightarrow> j < length h \<Longrightarrow>
   Swap i j h ! k = (if k = i then h ! j else if k = j then h ! i else h ! k)"
  by (cases "k = i"; cases "k = j") (simp_all add: Swap_def nth_list_update)

lemma mset_Swap [simp]: "i < length h \<Longrightarrow> j < length h \<Longrightarrow> mset (Swap i j h) = mset h"
  unfolding Swap_def by (rule mset_swap)

lemma length_up [simp]: "length (up h j) = length h"
  by (induction h j rule: up.induct) (subst up.simps, simp add: Let_def)

lemma mset_up: "j < length h \<Longrightarrow> mset (up h j) = mset h"
proof (induction h j rule: up.induct)
  case (1 h j)
  have "(j - 1) div 2 < length h" using 1(2) by linarith
  with 1 show ?case by (subst up.simps) (simp add: Let_def)
qed

lemma length_down [simp]: "length (down h i n) = length h"
proof (induction h i n rule: down.induct)
  case (1 h i n)
  show ?case
    by (subst down.simps) (use 1 in \<open>simp add: Let_def\<close>)
qed

lemma down_step:
  assumes "2 * i + 1 < n"
  obtains j where "j = 2 * i + 1 \<or> j = 2 * i + 2" "j < n" "i < j" "(j - 1) div 2 = i"
    "\<And>k. 0 < k \<Longrightarrow> k < n \<Longrightarrow> (k - 1) div 2 = i \<Longrightarrow> deadline (h ! j) \<le> deadline (h ! k)"
    "down h i n = (if \<not> Less h j i then h else down (Swap i j h) j n)"
proof -
  let ?j = "if 2 * i + 2 < n \<and> Less h (2 * i + 2) (2 * i + 1) then 2 * i + 2 else 2 * i + 1"
  have min: "deadline (h ! ?j) \<le> deadline (h ! k)" if "0 < k" "k < n" "(k - 1) div 2 = i" for k
  proof -
    have "k = 2 * i + 1 \<or> k = 2 * i + 2" using that by linarith
    with that show ?thesis by (auto simp: Less_def)
  qed
  have "down h i n = (if \<not> Less h ?j i then h else down (Swap i ?j h) ?j n)"
    using assms by (subst down.simps) (simp add: Let_def)
  moreover have "?j = 2 * i + 1 \<or> ?j = 2 * i + 2" "?j < n" "i < ?j" "(?j - 1) div 2 = i"
    using assms by auto
  ultimately show ?thesis using min that by blast
qed

lemma down_leaf: "n \<le> 2 * i + 1 \<Longrightarrow> down h i n = h"
  by (subst down.simps) simp

lemma mset_down: "n \<le> length h \<Longrightarrow> mset (down h i n) = mset h"
proof (induction "n - i" arbitrary: h i rule: less_induct)
  case less
  show ?case
  proof (cases "2 * i + 1 < n")
    case True
    then show ?thesis
    proof (rule down_step [of i n h])
      fix j
      assume j: "j < n" "i < j" "down h i n = (if \<not> Less h j i then h else down (Swap i j h) j n)"
      have "mset (down (Swap i j h) j n) = mset (Swap i j h)" using less j by simp
      with j less.prems show ?thesis by simp
    qed
  qed (simp add: down_leaf)
qed

lemma nth_down_beyond: "n \<le> length h \<Longrightarrow> n \<le> k \<Longrightarrow> down h i n ! k = h ! k"
proof (induction "n - i" arbitrary: h i rule: less_induct)
  case less
  show ?case
  proof (cases "2 * i + 1 < n")
    case True
    then show ?thesis
    proof (rule down_step [of i n h])
      fix j
      assume j: "j < n" "i < j" "down h i n = (if \<not> Less h j i then h else down (Swap i j h) j n)"
      have "down (Swap i j h) j n ! k = Swap i j h ! k" using less j by simp
      with j less.prems show ?thesis by (simp add: nth_Swap)
    qed
  qed (simp add: down_leaf)
qed

subsection \<open>The heap order\<close>

definition heap_on :: "nat \<Rightarrow> 'c timer list \<Rightarrow> bool" where
  "heap_on n h \<longleftrightarrow> (\<forall>k. 0 < k \<longrightarrow> k < n \<longrightarrow> deadline (h ! ((k - 1) div 2)) \<le> deadline (h ! k))"

abbreviation is_heap :: "'c timer list \<Rightarrow> bool" where
  "is_heap h \<equiv> heap_on (length h) h"

lemma heap_min: "heap_on n h \<Longrightarrow> k < n \<Longrightarrow> deadline (h ! 0) \<le> deadline (h ! k)"
proof (induction k rule: less_induct)
  case (less k)
  show ?case
  proof (cases "k = 0")
    case False
    then have "(k - 1) div 2 < k" by linarith
    with less False have "deadline (h ! 0) \<le> deadline (h ! ((k - 1) div 2))" by simp
    also have "\<dots> \<le> deadline (h ! k)" using less.prems False by (simp add: heap_on_def)
    finally show ?thesis .
  qed simp
qed

text \<open>Heaps but for the element at \<open>j\<close>, which may be too small or, dually, too large.\<close>

definition heap_above :: "nat \<Rightarrow> 'c timer list \<Rightarrow> bool" where
  "heap_above j h \<longleftrightarrow>
     (\<forall>k. 0 < k \<longrightarrow> k < length h \<longrightarrow> k \<noteq> j \<longrightarrow> deadline (h ! ((k - 1) div 2)) \<le> deadline (h ! k)) \<and>
     (\<forall>k. 0 < k \<longrightarrow> k < length h \<longrightarrow> (k - 1) div 2 = j \<longrightarrow> 0 < j \<longrightarrow>
        deadline (h ! ((j - 1) div 2)) \<le> deadline (h ! k))"

definition heap_below :: "nat \<Rightarrow> nat \<Rightarrow> 'c timer list \<Rightarrow> bool" where
  "heap_below n i h \<longleftrightarrow>
     (\<forall>k. 0 < k \<longrightarrow> k < n \<longrightarrow> (k - 1) div 2 \<noteq> i \<longrightarrow> deadline (h ! ((k - 1) div 2)) \<le> deadline (h ! k)) \<and>
     (\<forall>k. 0 < k \<longrightarrow> k < n \<longrightarrow> (k - 1) div 2 = i \<longrightarrow> 0 < i \<longrightarrow>
        deadline (h ! ((i - 1) div 2)) \<le> deadline (h ! k))"

lemma up_step:
  "0 < j \<Longrightarrow> Less h j ((j - 1) div 2) \<Longrightarrow> up h j = up (Swap ((j - 1) div 2) j h) ((j - 1) div 2)"
  by (subst up.simps) (simp add: Let_def)

lemma up_stop: "j = 0 \<or> \<not> Less h j ((j - 1) div 2) \<Longrightarrow> up h j = h"
  by (subst up.simps) (simp add: Let_def)

lemma heap_above_swap:
  assumes h: "heap_above j h" and j: "j < length h" "0 < j" and p: "p = (j - 1) div 2" and less: "Less h j p"
  shows "heap_above p (Swap p j h)"
proof -
  have pj: "p < j" "p < length h" using j p by linarith+
  note sw = nth_Swap [OF pj(2) j(1)]
  have lt: "deadline (h ! j) < deadline (h ! p)" using less by (simp add: Less_def)
  have par: "deadline (h ! ((k - 1) div 2)) \<le> deadline (h ! k)" if "0 < k" "k < length h" "k \<noteq> j" for k
    using h that unfolding heap_above_def by blast
  have chi: "deadline (h ! p) \<le> deadline (h ! k)" if "0 < k" "k < length h" "(k - 1) div 2 = j" for k
    using h that j(2) unfolding heap_above_def p by blast
  show ?thesis
    unfolding heap_above_def length_Swap
  proof (intro conjI allI impI)
    fix k assume k: "0 < k" "k < length h" "k \<noteq> p"
    consider "k = j" | "k \<noteq> j" "(k - 1) div 2 = j" | "k \<noteq> j" "(k - 1) div 2 = p"
      | "k \<noteq> j" "(k - 1) div 2 \<noteq> j" "(k - 1) div 2 \<noteq> p" by blast
    then show "deadline (Swap p j h ! ((k - 1) div 2)) \<le> deadline (Swap p j h ! k)"
    proof cases
      case 1
      then show ?thesis unfolding sw using pj(1) lt p by simp
    next
      case 2
      then show ?thesis unfolding sw using k(3) pj(1) chi [OF k(1,2)] by simp
    next
      case 3
      with par [OF k(1,2)] have "deadline (h ! p) \<le> deadline (h ! k)" by simp
      with 3 show ?thesis unfolding sw using k(3) lt by simp
    next
      case 4
      with par [OF k(1,2)] show ?thesis unfolding sw using k(3) by simp
    qed
  next
    fix k assume k: "0 < k" "k < length h" "(k - 1) div 2 = p" "0 < p"
    have gp: "deadline (h ! ((p - 1) div 2)) \<le> deadline (h ! p)"
      using par [OF k(4) pj(2)] pj(1) by simp
    have ne: "(p - 1) div 2 \<noteq> p" "(p - 1) div 2 \<noteq> j" "k \<noteq> p" using k(3,4) pj by linarith+
    show "deadline (Swap p j h ! ((p - 1) div 2)) \<le> deadline (Swap p j h ! k)"
    proof (cases "k = j")
      case True
      then show ?thesis unfolding sw using ne gp by simp
    next
      case False
      with par [OF k(1,2)] k(3) have "deadline (h ! p) \<le> deadline (h ! k)" by simp
      with False show ?thesis unfolding sw using ne gp by simp
    qed
  qed
qed

lemma up_heap: "heap_above j h \<Longrightarrow> j < length h \<Longrightarrow> is_heap (up h j)"
proof (induction j arbitrary: h rule: less_induct)
  case (less j)
  let ?p = "(j - 1) div 2"
  show ?case
  proof (cases "j = 0 \<or> \<not> Less h j ?p")
    case True
    have "is_heap h"
      unfolding heap_on_def
    proof (intro allI impI)
      fix k assume k: "0 < k" "k < length h"
      show "deadline (h ! ((k - 1) div 2)) \<le> deadline (h ! k)"
      proof (cases "k = j")
        case j: True
        with True k show ?thesis by (simp add: Less_def)
      next
        case False
        with less.prems(1) k show ?thesis unfolding heap_above_def by blast
      qed
    qed
    with up_stop [OF True] show ?thesis by simp
  next
    case False
    then have j: "0 < j" "Less h j ?p" by simp_all
    then have p: "?p < j" "?p < length h" using less.prems(2) by linarith+
    have "heap_above ?p (Swap ?p j h)"
      by (rule heap_above_swap [OF less.prems j(1) refl j(2)])
    moreover have "?p < length (Swap ?p j h)" using p(2) by simp
    ultimately have "is_heap (up (Swap ?p j h) ?p)" by (rule less.IH [OF p(1)])
    then show ?thesis unfolding up_step [OF j] length_up length_Swap .
  qed
qed

lemma down_heap: "heap_below n i h \<Longrightarrow> n \<le> length h \<Longrightarrow> heap_on n (down h i n)"
proof (induction "n - i" arbitrary: h i rule: less_induct)
  case less
  show ?case
  proof (cases "2 * i + 1 < n")
    case False
    have "heap_on n h"
      unfolding heap_on_def
    proof (intro allI impI)
      fix k assume k: "0 < k" "k < n"
      then have "(k - 1) div 2 \<noteq> i" using False by linarith
      with less.prems(1) k show "deadline (h ! ((k - 1) div 2)) \<le> deadline (h ! k)" by (simp add: heap_below_def)
    qed
    with False show ?thesis by (simp add: down_leaf)
  next
    case True
    then show ?thesis
    proof (rule down_step [of i n h])
      fix j
      assume j: "j < n" "i < j" "(j - 1) div 2 = i"
        and min: "\<And>k. 0 < k \<Longrightarrow> k < n \<Longrightarrow> (k - 1) div 2 = i \<Longrightarrow> deadline (h ! j) \<le> deadline (h ! k)"
        and d: "down h i n = (if \<not> Less h j i then h else down (Swap i j h) j n)"
      show ?thesis
      proof (cases "Less h j i")
        case False
        have "heap_on n h"
          unfolding heap_on_def
        proof (intro allI impI)
          fix k assume k: "0 < k" "k < n"
          show "deadline (h ! ((k - 1) div 2)) \<le> deadline (h ! k)"
          proof (cases "(k - 1) div 2 = i")
            case True
            with min [OF k] False show ?thesis by (simp add: Less_def)
          next
            case False
            with less.prems(1) k show ?thesis by (simp add: heap_below_def)
          qed
        qed
        with d False show ?thesis by simp
      next
        case True
        have ij: "i < length h" "j < length h" using j less.prems by linarith+
        note sw = nth_Swap [OF ij]
        have "heap_below n j (Swap i j h)"
          unfolding heap_below_def
        proof (intro conjI allI impI)
          fix k assume k: "0 < k" "k < n" "(k - 1) div 2 \<noteq> j"
          have a: "deadline (h ! ((k - 1) div 2)) \<le> deadline (h ! k)" if "(k - 1) div 2 \<noteq> i"
            using less.prems(1) k that by (simp add: heap_below_def)
          have b: "deadline (h ! ((i - 1) div 2)) \<le> deadline (h ! j)" if "0 < i"
            using less.prems(1) j that by (auto simp: heap_below_def)
          have c: "deadline (h ! j) \<le> deadline (h ! k)" if "(k - 1) div 2 = i" using min k that by blast
          show "deadline (Swap i j h ! ((k - 1) div 2)) \<le> deadline (Swap i j h ! k)"
          proof -
            consider "k = i" | "k = j" | "k \<noteq> i" "k \<noteq> j" "(k - 1) div 2 = i"
              | "k \<noteq> i" "k \<noteq> j" "(k - 1) div 2 \<noteq> i" by blast
            then show ?thesis
            proof cases
              case 1
              then have "(k - 1) div 2 \<noteq> i" "0 < i" using k(1) by linarith+
              then show ?thesis unfolding sw using 1 k(3) b j(2) by simp
            next
              case 2
              then show ?thesis unfolding sw using j(2,3) True by (simp add: Less_def)
            next
              case 3
              then show ?thesis unfolding sw using c by simp
            next
              case 4
              then show ?thesis unfolding sw using a k(3) by simp
            qed
          qed
        next
          fix k assume k: "0 < k" "k < n" "(k - 1) div 2 = j" "0 < j"
          have "deadline (h ! j) \<le> deadline (h ! k)"
            using less.prems(1) k j by (auto simp: heap_below_def)
          moreover have "k \<noteq> i" "k \<noteq> j" using k j by linarith+
          ultimately show "deadline (Swap i j h ! ((j - 1) div 2)) \<le> deadline (Swap i j h ! k)"
            unfolding sw j(3) by simp
        qed
        then have "heap_on n (down (Swap i j h) j n)" using less j by simp
        with d True show ?thesis by simp
      qed
    qed
  qed
qed

lemma heap_Push_ok: "is_heap h \<Longrightarrow> is_heap (heap_Push h x) \<and> mset (heap_Push h x) = add_mset x (mset h)"
proof -
  assume h: "is_heap h"
  have "heap_above (length h) (h @ [x])"
    unfolding heap_above_def
  proof (intro conjI allI impI)
    fix k assume k: "0 < k" "k < length (h @ [x])" "k \<noteq> length h"
    then have "k < length h" "(k - 1) div 2 < length h" by auto
    with h k show "deadline ((h @ [x]) ! ((k - 1) div 2)) \<le> deadline ((h @ [x]) ! k)"
      by (simp add: heap_on_def nth_append)
  qed auto
  then have "is_heap (up (h @ [x]) (length h))" by (rule up_heap) simp
  then show ?thesis by (simp add: heap_Push_def mset_up)
qed

lemma mset_heap_Pop:
  assumes "h \<noteq> []" "heap_Pop h = (h', x)"
  shows "mset h = add_mset x (mset h')" "x = h ! 0"
proof -
  let ?n = "length h - 1" let ?d = "down (Swap 0 ?n h) 0 ?n"
  have n: "0 < length h" "?n < length h" using assms(1) by simp_all
  have e: "h' = take ?n ?d" "x = ?d ! ?n" using assms(2) by (auto simp: heap_Pop_def Let_def)
  have "?d ! ?n = Swap 0 ?n h ! ?n" by (rule nth_down_beyond) simp_all
  then show "x = h ! 0" using e n by (simp add: nth_Swap)
  have l: "length ?d = Suc ?n" using n by simp
  then have "take (Suc ?n) ?d = take ?n ?d @ [?d ! ?n]"
    by (intro take_Suc_conv_app_nth) simp
  then have "?d = take ?n ?d @ [?d ! ?n]" using l by simp
  then have "mset ?d = mset (take ?n ?d @ [?d ! ?n])" by (rule arg_cong)
  then have "mset ?d = add_mset (?d ! ?n) (mset (take ?n ?d))" by simp
  moreover have "mset ?d = mset h" using n by (simp add: mset_down)
  ultimately show "mset h = add_mset x (mset h')" by (simp add: e)
qed

lemma heap_Pop_ok:
  assumes "is_heap h" "h \<noteq> []" "heap_Pop h = (h', x)"
  shows "is_heap h'" "mset h = add_mset x (mset h')" "x = h ! 0" "length h' < length h"
proof -
  let ?n = "length h - 1" let ?d = "down (Swap 0 ?n h) 0 ?n"
  have n: "0 < length h" "?n < length h" using assms(2) by simp_all
  have e: "h' = take ?n ?d" "x = ?d ! ?n" using assms(3) by (auto simp: heap_Pop_def Let_def)
  show "mset h = add_mset x (mset h')" "x = h ! 0" by (rule mset_heap_Pop [OF assms(2,3)])+
  have "heap_below ?n 0 (Swap 0 ?n h)"
    unfolding heap_below_def
  proof (intro conjI allI impI)
    fix k assume k: "0 < k" "k < ?n" "(k - 1) div 2 \<noteq> 0"
    then have "(k - 1) div 2 \<noteq> ?n" by linarith
    with k assms(1) n show "deadline (Swap 0 ?n h ! ((k - 1) div 2)) \<le> deadline (Swap 0 ?n h ! k)"
      by (simp add: nth_Swap heap_on_def)
  qed simp
  then have "heap_on ?n ?d" by (rule down_heap) simp
  then show "is_heap h'" by (simp add: e(1) heap_on_def)
  show "length h' < length h" using n by (simp add: e(1))
qed

section \<open>The wheel\<close>

record 'c wheel =
  heap :: "'c timer list"
  nextID :: u64
  running :: bool
  stopClosed :: bool

definition NewTimerWheel :: "'c wheel" where
  "NewTimerWheel = \<lparr>heap = [], nextID = 1, running = False, stopClosed = False\<rparr>"

definition addTimer :: "int \<Rightarrow> 'c wheel \<Rightarrow> int \<Rightarrow> int \<Rightarrow> 'c \<Rightarrow> 'c wheel \<times> u64" where
  "addTimer now tw delay rep cb =
     (let i = nextID tw;
          t = \<lparr>tid = i, deadline = now + delay, callback = cb, interval = rep, canceled = False\<rparr>
      in (tw\<lparr>heap := heap_Push (heap tw) t, nextID := i + 1\<rparr>, i))"

definition AddTimer where "AddTimer now tw delay cb = addTimer now tw delay 0 cb"
definition AddRepeatingTimer where "AddRepeatingTimer now tw delay rep cb = addTimer now tw delay rep cb"

text \<open>The first timer with the id is marked.\<close>

fun markCanceled :: "u64 \<Rightarrow> 'c timer list \<Rightarrow> 'c timer list option" where
  "markCanceled i [] = None"
| "markCanceled i (t # ts) =
     (if tid t = i then Some (t\<lparr>canceled := True\<rparr> # ts)
      else map_option (\<lambda>ts'. t # ts') (markCanceled i ts))"

definition CancelTimer :: "'c wheel \<Rightarrow> u64 \<Rightarrow> 'c wheel \<times> bool" where
  "CancelTimer tw i =
     (case markCanceled i (heap tw) of
        None \<Rightarrow> (tw, False)
      | Some h \<Rightarrow> (tw\<lparr>heap := h\<rparr>, True))"

text \<open>
  The loop of \<^verbatim>\<open>processTick\<close>: the heap and the timers whose callbacks were started, in
  order.  A repeating timer goes back with a later deadline, so the number of due timers falls.
\<close>

definition due :: "int \<Rightarrow> 'c timer list \<Rightarrow> nat" where
  "due now h = size (filter_mset (\<lambda>t. deadline t \<le> now) (mset h))"

lemma mset_heap_Push: "mset (heap_Push h x) = add_mset x (mset h)"
  by (simp add: heap_Push_def mset_up)

function tickLoop :: "int \<Rightarrow> 'c timer list \<Rightarrow> 'c timer list \<times> 'c timer list" where
  "tickLoop now h =
     (if h = [] \<or> deadline (h ! 0) > now then (h, [])
      else let (h1, t) = heap_Pop h
           in if canceled t then tickLoop now h1
              else let h2 = (if interval t > 0
                             then heap_Push h1 (t\<lparr>deadline := now + interval t, canceled := False\<rparr>) else h1);
                       (h3, fired) = tickLoop now h2
                   in (h3, t # fired))"
  by pat_completeness auto
termination
proof (relation "measure (\<lambda>(now, h). due now h)", goal_cases)
  case (2 now h x h1 t)
  from 2 have "mset h = add_mset t (mset h1)" "deadline t \<le> now"
    using mset_heap_Pop [of h h1 t] by auto
  then show ?case by (simp add: due_def)
next
  case (3 now h x h1 t h2)
  from 3 have "mset h = add_mset t (mset h1)" "deadline t \<le> now"
    using mset_heap_Pop [of h h1 t] by auto
  with 3 show ?case by (simp add: due_def mset_heap_Push)
qed simp

declare tickLoop.simps [simp del]

definition processTick :: "int \<Rightarrow> 'c wheel \<Rightarrow> 'c wheel \<times> 'c timer list" where
  "processTick now tw = (let (h, fired) = tickLoop now (heap tw) in (tw\<lparr>heap := h\<rparr>, fired))"

section \<open>The contract of a priority queue\<close>

locale priority_queue =
  fixes push :: "'q \<Rightarrow> 't \<Rightarrow> 'q"
    and pop :: "'q \<Rightarrow> 'q \<times> 't"
    and top :: "'q \<Rightarrow> 't"
    and elems :: "'q \<Rightarrow> 't multiset"
    and key :: "'t \<Rightarrow> int"
    and ok :: "'q \<Rightarrow> bool"
  assumes push_law: "ok q \<Longrightarrow> ok (push q x) \<and> elems (push q x) = add_mset x (elems q)"
    and pop_law: "ok q \<Longrightarrow> elems q \<noteq> {#} \<Longrightarrow> pop q = (q', x) \<Longrightarrow>
      ok q' \<and> elems q = add_mset x (elems q') \<and> x = top q"
    and top_law: "ok q \<Longrightarrow> t \<in># elems q \<Longrightarrow> key (top q) \<le> key t"
begin

lemma pop_least:
  "ok q \<Longrightarrow> elems q \<noteq> {#} \<Longrightarrow> pop q = (q', x) \<Longrightarrow> t \<in># elems q' \<Longrightarrow> key x \<le> key t"
  using pop_law [of q q' x] top_law [of q t] by auto

lemma none_due:
  "ok q \<Longrightarrow> elems q = {#} \<or> now < key (top q) \<Longrightarrow> filter_mset (\<lambda>t. key t \<le> now) (elems q) = {#}"
  using top_law [of q] by (fastforce simp: filter_mset_eq_conv)

end

interpretation pq: priority_queue heap_Push heap_Pop "\<lambda>h. h ! 0" mset deadline is_heap
proof unfold_locales
  fix q :: "'a timer list" and x
  assume "is_heap q"
  then show "is_heap (heap_Push q x) \<and> mset (heap_Push q x) = add_mset x (mset q)" by (rule heap_Push_ok)
next
  fix q q' :: "'a timer list" and x
  assume "is_heap q" "mset q \<noteq> {#}" "heap_Pop q = (q', x)"
  then show "is_heap q' \<and> mset q = add_mset x (mset q') \<and> x = q ! 0"
    using heap_Pop_ok [of q q' x] by simp
next
  fix q :: "'a timer list" and t
  assume "is_heap q" "t \<in># mset q"
  then show "deadline (q ! 0) \<le> deadline t"
    by (auto simp: in_set_conv_nth intro: heap_min)
qed

section \<open>A tick\<close>

definition resched :: "int \<Rightarrow> 'c timer \<Rightarrow> 'c timer" where
  "resched now t = t\<lparr>deadline := now + interval t, canceled := False\<rparr>"

abbreviation dues :: "int \<Rightarrow> 'c timer multiset \<Rightarrow> 'c timer multiset" where
  "dues now M \<equiv> filter_mset (\<lambda>t. deadline t \<le> now) M"

abbreviation live_dues :: "int \<Rightarrow> 'c timer multiset \<Rightarrow> 'c timer multiset" where
  "live_dues now M \<equiv> filter_mset (\<lambda>t. deadline t \<le> now \<and> \<not> canceled t) M"

definition after_tick :: "int \<Rightarrow> 'c timer multiset \<Rightarrow> 'c timer multiset" where
  "after_tick now M =
     filter_mset (\<lambda>t. now < deadline t) M + image_mset (resched now) (filter_mset (\<lambda>t. 0 < interval t) (live_dues now M))"

lemma tickLoop_none: "h = [] \<or> now < deadline (h ! 0) \<Longrightarrow> tickLoop now h = (h, [])"
  by (subst tickLoop.simps) simp

lemma tickLoop_canceled:
  "h \<noteq> [] \<Longrightarrow> deadline (h ! 0) \<le> now \<Longrightarrow> heap_Pop h = (h1, t) \<Longrightarrow> canceled t \<Longrightarrow> tickLoop now h = tickLoop now h1"
  by (subst tickLoop.simps) simp

lemma tickLoop_fire:
  "h \<noteq> [] \<Longrightarrow> deadline (h ! 0) \<le> now \<Longrightarrow> heap_Pop h = (h1, t) \<Longrightarrow> \<not> canceled t \<Longrightarrow>
   tickLoop now h =
     (let (h3, fired) = tickLoop now (if 0 < interval t then heap_Push h1 (resched now t) else h1) in (h3, t # fired))"
  by (subst tickLoop.simps) (simp add: resched_def Let_def)

lemma tickLoop_ok:
  "is_heap h \<Longrightarrow> tickLoop now h = (h', fired) \<Longrightarrow>
   is_heap h' \<and> mset fired = live_dues now (mset h) \<and> sorted (map deadline fired) \<and> mset h' = after_tick now (mset h)"
proof (induction "due now h" arbitrary: h h' fired rule: less_induct)
  case less
  show ?case
  proof (cases "h = [] \<or> now < deadline (h ! 0)")
    case True
    have none: "dues now (mset h) = {#}"
      using pq.none_due [OF less.prems(1), of now] True by simp
    then have all: "\<forall>t\<in>#mset h. now < deadline t" by (auto simp: filter_mset_eq_conv not_le)
    then have "live_dues now (mset h) = filter_mset (\<lambda>_. False) (mset h)"
      by (intro filter_mset_cong) auto
    then have l: "live_dues now (mset h) = {#}" by simp
    have "{#t \<in># mset h. now < deadline t#} = mset h" using all by (simp add: filter_mset_eq_conv)
    then have "after_tick now (mset h) = mset h" unfolding after_tick_def l by simp
    note l = l this
    with less.prems tickLoop_none [OF True] l show ?thesis by simp
  next
    case False
    then have ne: "h \<noteq> []" "deadline (h ! 0) \<le> now" by auto
    obtain h1 t where pop: "heap_Pop h = (h1, t)" by (cases "heap_Pop h")
    have p: "is_heap h1" "mset h = add_mset t (mset h1)" "deadline t \<le> now"
      using pq.pop_law [OF less.prems(1) _ pop] ne by auto
    have least: "\<forall>u\<in>#mset h1. deadline t \<le> deadline u"
      using pq.pop_least [OF less.prems(1) _ pop] ne by auto
    show ?thesis
    proof (cases "canceled t")
      case True
      have "due now h1 < due now h" using p by (simp add: due_def)
      from less.hyps [OF this p(1)] less.prems(2) tickLoop_canceled [OF ne pop True]
      have "is_heap h' \<and> mset fired = live_dues now (mset h1) \<and> sorted (map deadline fired)
          \<and> mset h' = after_tick now (mset h1)" by simp
      with p(2,3) True show ?thesis by (simp add: after_tick_def)
    next
      case nc: False
      define h2 where "h2 = (if 0 < interval t then heap_Push h1 (resched now t) else h1)"
      obtain h3 fired' where rec: "tickLoop now h2 = (h3, fired')" by (cases "tickLoop now h2")
      have res: "h' = h3" "fired = t # fired'"
        using less.prems(2) tickLoop_fire [OF ne pop nc] rec by (auto simp: h2_def)
      have h2: "is_heap h2" "mset h2 = (if 0 < interval t then add_mset (resched now t) (mset h1) else mset h1)"
        using pq.push_law [OF p(1)] p(1) by (auto simp: h2_def)
      have r: "0 < interval t \<Longrightarrow> now < deadline (resched now t)" by (simp add: resched_def)
      have d: "dues now (mset h2) = dues now (mset h1)" "live_dues now (mset h2) = live_dues now (mset h1)"
        using h2(2) r by (cases "0 < interval t"; simp)+
      have "due now h2 < due now h" using p d by (simp add: due_def)
      from less.hyps [OF this h2(1) rec] have ih: "is_heap h3" "mset fired' = live_dues now (mset h1)"
        "sorted (map deadline fired')" "mset h3 = after_tick now (mset h2)" using d by auto
      have "set fired' \<subseteq> set_mset (mset h1)" using ih(2) by (metis multiset_filter_subset set_mset_mono set_mset_mset)
      then have "sorted (map deadline fired)" using res least ih(3) by auto
      moreover have "mset h3 = after_tick now (mset h)"
        using ih(4) h2(2) d r p(2,3) nc by (auto simp: after_tick_def)
      ultimately show ?thesis using res ih p nc by simp
    qed
  qed
qed

text \<open>C6: a tick does what it should: with the timers in heap order it starts the callbacks of exactly
  the timers that are due and not cancelled, in the order of their deadlines; it keeps the timers that
  are not due, drops the cancelled ones, and puts every repeating one back for one interval from now.\<close>

theorem processTick_correct:
  assumes "is_heap (heap tw)" "processTick now tw = (tw', fired)"
  shows "is_heap (heap tw') \<and> mset fired = live_dues now (mset (heap tw)) \<and> sorted (map deadline fired)
    \<and> mset (heap tw') = after_tick now (mset (heap tw)) \<and> nextID tw' = nextID tw"
  using assms tickLoop_ok [of "heap tw" now]
  by (cases "tickLoop now (heap tw)") (auto simp: processTick_def)

theorem processTick_correct_witness:
  "\<exists>tw. heap tw = [\<lparr>tid = 1, deadline = 15, callback = (), interval = 5, canceled = False\<rparr>] \<and>
     processTick 10 \<lparr>heap = [\<lparr>tid = 1, deadline = 7, callback = (), interval = 5, canceled = False\<rparr>],
                     nextID = 2, running = True, stopClosed = False\<rparr>
       = (tw, [\<lparr>tid = 1, deadline = 7, callback = (), interval = 5, canceled = False\<rparr>])"
proof -
  let ?t = "\<lparr>tid = 1, deadline = 7, callback = (), interval = 5, canceled = False\<rparr>"
  let ?w = "\<lparr>heap = [?t], nextID = 2, running = True, stopClosed = False\<rparr>"
  obtain tw' fired where p: "processTick 10 ?w = (tw', fired)" by (cases "processTick 10 ?w")
  have "is_heap (heap ?w)" by (simp add: heap_on_def)
  from processTick_correct [OF this p] have "mset fired = {#?t#}" "mset (heap tw') = {#resched 10 ?t#}"
    by (auto simp: after_tick_def)
  then have "fired = [?t]" "heap tw' = [resched 10 ?t]" by simp_all
  with p show ?thesis by (auto simp: resched_def)
qed

section \<open>Runs of the wheel\<close>

datatype 'c wheel_op = Add int int 'c | Cancel u64 | Tick

definition wheelStep :: "'c wheel \<Rightarrow> int \<times> 'c wheel_op \<Rightarrow> 'c wheel \<times> 'c timer list" where
  "wheelStep tw x =
     (case snd x of
        Add delay rep cb \<Rightarrow> (fst (addTimer (fst x) tw delay rep cb), [])
      | Cancel i \<Rightarrow> (fst (CancelTimer tw i), [])
      | Tick \<Rightarrow> processTick (fst x) tw)"

fun wheelRun :: "'c wheel \<Rightarrow> (int \<times> 'c wheel_op) list \<Rightarrow> 'c wheel \<times> 'c timer list" where
  "wheelRun tw [] = (tw, [])"
| "wheelRun tw (x # xs) =
     (let (tw1, fired1) = wheelStep tw x; (tw2, fired2) = wheelRun tw1 xs in (tw2, fired1 @ fired2))"

definition wheel_ok :: "'c wheel \<Rightarrow> bool" where
  "wheel_ok tw \<longleftrightarrow> is_heap (heap tw) \<and> distinct (map tid (heap tw)) \<and> (\<forall>t\<in>set (heap tw). tid t < nextID tw)"

lemma distinct_submset: "mset xs \<subseteq># mset ys \<Longrightarrow> distinct ys \<Longrightarrow> distinct xs"
proof -
  assume s: "mset xs \<subseteq># mset ys" and d: "distinct ys"
  have "count (mset xs) a \<le> 1" for a
  proof -
    have "count (mset ys) a \<le> 1"
      using d by (cases "a \<in> set ys") (auto simp: distinct_count_atmost_1 count_mset_0_iff)
    with mset_subset_eq_count [OF s, of a] show ?thesis by linarith
  qed
  then show "distinct xs"
    unfolding distinct_count_atmost_1
    by (metis One_nat_def Suc_leI count_greater_zero_iff count_mset_0_iff le_antisym set_mset_mset)
qed

lemma markCanceled_nth:
  "markCanceled i h = Some h' \<Longrightarrow> length h' = length h \<and> map deadline h' = map deadline h \<and> map tid h' = map tid h"
  by (induction h arbitrary: h') (auto split: if_splits)

lemma markCanceled_marks:
  "markCanceled i h = Some h' \<Longrightarrow> distinct (map tid h) \<Longrightarrow> \<forall>t\<in>set h'. tid t = i \<longrightarrow> canceled t"
proof (induction h arbitrary: h')
  case (Cons t ts)
  show ?case
  proof (cases "tid t = i")
    case True
    with Cons.prems show ?thesis by (auto simp: image_iff) metis
  next
    case False
    with Cons show ?thesis by auto
  qed
qed simp

lemma markCanceled_keeps:
  "markCanceled j h = Some h' \<Longrightarrow> \<forall>t\<in>set h. tid t = i \<longrightarrow> canceled t \<Longrightarrow> \<forall>t\<in>set h'. tid t = i \<longrightarrow> canceled t"
  by (induction h arbitrary: h') (auto split: if_splits)

lemma markCanceled_subset_ids: "markCanceled i h = Some h' \<Longrightarrow> tid ` set h' = tid ` set h"
  using markCanceled_nth [of i h h'] by (metis list.set_map)

lemma CancelTimer_ok:
  assumes "wheel_ok tw" "CancelTimer tw i = (tw', r)"
  shows "wheel_ok tw'" "nextID tw' = nextID tw"
    "r \<Longrightarrow> \<forall>t\<in>set (heap tw'). tid t = i \<longrightarrow> canceled t"
    "\<forall>t\<in>set (heap tw). tid t = k \<longrightarrow> canceled t \<Longrightarrow> \<forall>t\<in>set (heap tw'). tid t = k \<longrightarrow> canceled t"
proof -
  show "wheel_ok tw'"
  proof (cases "markCanceled i (heap tw)")
    case (Some h)
    note nth = markCanceled_nth [OF Some]
    have "deadline (h ! k) = deadline (heap tw ! k)" if "k < length h" for k
      using nth that by (metis nth_map)
    then have "is_heap h" using assms(1) nth by (simp add: wheel_ok_def heap_on_def)
    moreover have "\<forall>t\<in>set h. tid t < nextID tw"
      using assms(1) markCanceled_subset_ids [OF Some] unfolding wheel_ok_def by (metis image_iff)
    ultimately show ?thesis using assms Some nth by (auto simp: wheel_ok_def CancelTimer_def)
  qed (use assms in \<open>auto simp: CancelTimer_def\<close>)
  show "nextID tw' = nextID tw" using assms(2) by (auto simp: CancelTimer_def split: option.splits)
  show "r \<Longrightarrow> \<forall>t\<in>set (heap tw'). tid t = i \<longrightarrow> canceled t"
    using assms markCanceled_marks [of i "heap tw"] by (auto simp: CancelTimer_def wheel_ok_def split: option.splits)
  show "\<forall>t\<in>set (heap tw). tid t = k \<longrightarrow> canceled t \<Longrightarrow> \<forall>t\<in>set (heap tw'). tid t = k \<longrightarrow> canceled t"
    using assms(2) markCanceled_keeps [of i "heap tw" _ k] by (auto simp: CancelTimer_def split: option.splits)
qed

lemma next_less: "i \<noteq> - 1 \<Longrightarrow> (i :: u64) < i + 1"
proof -
  assume i: "i \<noteq> - 1"
  have m: "unat (- 1 :: u64) = 2 ^ 64 - 1" by (simp add: unsigned_minus_1_eq_mask mask_eq_exp_minus_1)
  have "unat i \<noteq> 2 ^ 64 - 1" using i unfolding m [symmetric] by (simp only: word_unat_eq_iff) simp
  moreover have "unat i < 2 ^ 64" using unsigned_less [of i, where ?'a = nat] by simp
  ultimately have "unat i + 1 < 2 ^ 64" by linarith
  then have "unat (i + 1) = unat i + 1" by (simp add: unat_word_ariths)
  then show ?thesis by (simp add: word_less_nat_alt)
qed

lemma addTimer_ok:
  assumes "wheel_ok tw" "nextID tw \<noteq> - 1" "addTimer now tw d rep cb = (tw', j)"
  shows "wheel_ok tw'" "nextID tw' = nextID tw + 1" "j = nextID tw"
    "i < nextID tw \<Longrightarrow> \<forall>t\<in>set (heap tw). tid t = i \<longrightarrow> canceled t \<Longrightarrow> \<forall>t\<in>set (heap tw'). tid t = i \<longrightarrow> canceled t"
proof -
  let ?t = "\<lparr>tid = nextID tw, deadline = now + d, callback = cb, interval = rep, canceled = False\<rparr>"
  have tw': "tw' = tw\<lparr>heap := heap_Push (heap tw) ?t, nextID := nextID tw + 1\<rparr>" "j = nextID tw"
    using assms(3) by (auto simp: addTimer_def Let_def)
  have m: "is_heap (heap_Push (heap tw) ?t)" "mset (heap_Push (heap tw) ?t) = add_mset ?t (mset (heap tw))"
    using assms(1) heap_Push_ok [of "heap tw" ?t] by (auto simp: wheel_ok_def)
  then have s: "set (heap_Push (heap tw) ?t) = insert ?t (set (heap tw))"
    by (metis set_mset_add_mset_insert set_mset_mset)
  have "mset (map tid (heap_Push (heap tw) ?t)) = mset (map tid (?t # heap tw))"
    using m(2) by simp
  then have "distinct (map tid (heap_Push (heap tw) ?t)) = distinct (map tid (?t # heap tw))"
    by (rule mset_eq_imp_distinct_iff)
  moreover have "distinct (map tid (?t # heap tw))"
    using assms(1) by (auto simp: wheel_ok_def)
  moreover have "\<forall>t\<in>set (heap tw). tid t < nextID tw + 1"
    using assms(1) next_less [OF assms(2)] by (auto simp: wheel_ok_def intro: less_trans)
  ultimately show "wheel_ok tw'"
    using m(1) s next_less [OF assms(2)] by (simp add: wheel_ok_def tw')
  show "nextID tw' = nextID tw + 1" "j = nextID tw" using tw' by simp_all
  show "i < nextID tw \<Longrightarrow> \<forall>t\<in>set (heap tw). tid t = i \<longrightarrow> canceled t \<Longrightarrow> \<forall>t\<in>set (heap tw'). tid t = i \<longrightarrow> canceled t"
    using s by (auto simp: tw')
qed

lemma processTick_ok:
  assumes "wheel_ok tw" "processTick now tw = (tw', fired)"
  shows "wheel_ok tw'" "nextID tw' = nextID tw"
    "\<forall>t\<in>set (heap tw). tid t = i \<longrightarrow> canceled t \<Longrightarrow>
       (\<forall>t\<in>set (heap tw'). tid t = i \<longrightarrow> canceled t) \<and> i \<notin> tid ` set fired"
proof -
  obtain h where l: "tickLoop now (heap tw) = (h, fired)" "tw' = tw\<lparr>heap := h\<rparr>"
    using assms(2) by (cases "tickLoop now (heap tw)") (auto simp: processTick_def)
  have t: "is_heap h" "mset fired = live_dues now (mset (heap tw))" "mset h = after_tick now (mset (heap tw))"
    using tickLoop_ok [OF _ l(1)] assms(1) by (auto simp: wheel_ok_def)
  let ?M = "mset (heap tw)"
  have "image_mset tid (after_tick now ?M) \<subseteq># image_mset tid ?M"
  proof -
    have "image_mset tid (after_tick now ?M) =
        image_mset tid (filter_mset (\<lambda>t. now < deadline t) ?M + filter_mset (\<lambda>t. 0 < interval t) (live_dues now ?M))"
      by (simp add: after_tick_def multiset.map_comp comp_def resched_def)
    also have "\<dots> \<subseteq># image_mset tid (filter_mset (\<lambda>t. now < deadline t) ?M + dues now ?M)"
      by (intro image_mset_subseteq_mono mset_subset_eq_mono_add order.refl)
        (auto simp: filter_filter_mset intro!: filter_mset_mono_strong)
    also have "filter_mset (\<lambda>t. now < deadline t) ?M + dues now ?M = ?M"
      by (simp add: not_less [symmetric] add.commute multiset_partition [symmetric])
    finally show ?thesis .
  qed
  with t(3) have sub: "mset (map tid h) \<subseteq># mset (map tid (heap tw))" by simp
  have d: "distinct (map tid h)" using distinct_submset [OF sub] assms(1) by (simp add: wheel_ok_def)
  have "set (map tid h) \<subseteq> set (map tid (heap tw))" using set_mset_mono [OF sub] by simp
  then have "\<forall>t\<in>set h. tid t < nextID tw" using assms(1) by (fastforce simp: wheel_ok_def)
  with t(1) d show "wheel_ok tw'" by (simp add: wheel_ok_def l(2))
  show "nextID tw' = nextID tw" by (simp add: l(2))
  show "(\<forall>t\<in>set (heap tw'). tid t = i \<longrightarrow> canceled t) \<and> i \<notin> tid ` set fired"
    if c: "\<forall>t\<in>set (heap tw). tid t = i \<longrightarrow> canceled t"
  proof -
    have f: "set fired = {t \<in> set (heap tw). deadline t \<le> now \<and> \<not> canceled t}"
      using t(2) by (metis set_mset_filter set_mset_mset)
    have "set h \<subseteq> set (heap tw) \<union> resched now ` {t \<in> set (heap tw). \<not> canceled t}"
      using arg_cong [OF t(3), of set_mset] by (auto simp: after_tick_def)
    with c f show ?thesis by (auto simp: l(2) resched_def)
  qed
qed

lemma wheelStep_ok:
  assumes "wheel_ok tw" "nextID tw \<noteq> - 1" "wheelStep tw x = (tw', fired)" "i < nextID tw"
    "\<forall>t\<in>set (heap tw). tid t = i \<longrightarrow> canceled t"
  shows "wheel_ok tw' \<and> (nextID tw' = nextID tw \<or> nextID tw' = nextID tw + 1)
    \<and> (\<forall>t\<in>set (heap tw'). tid t = i \<longrightarrow> canceled t) \<and> i \<notin> tid ` set fired"
proof (cases "snd x")
  case (Add d rep cb)
  obtain tw1 j where a: "addTimer (fst x) tw d rep cb = (tw1, j)" by (cases "addTimer (fst x) tw d rep cb")
  from addTimer_ok(1,2,4) [OF assms(1,2) a] assms Add a show ?thesis by (auto simp: wheelStep_def)
next
  case (Cancel j)
  obtain tw1 r where a: "CancelTimer tw j = (tw1, r)" by (cases "CancelTimer tw j")
  from CancelTimer_ok(1,2,4) [OF assms(1) a] assms Cancel a show ?thesis by (auto simp: wheelStep_def)
next
  case Tick
  with processTick_ok(1,2) [OF assms(1), of "fst x" tw' fired] processTick_ok(3) [OF assms(1), of "fst x" tw' fired i] assms show ?thesis by (auto simp: wheelStep_def)
qed

lemma wheelRun_ok:
  assumes "wheel_ok tw" "i < nextID tw" "unat (nextID tw) + length xs < 2 ^ 64"
    "\<forall>t\<in>set (heap tw). tid t = i \<longrightarrow> canceled t"
  shows "i \<notin> tid ` set (snd (wheelRun tw xs))"
  using assms
proof (induction xs arbitrary: tw)
  case (Cons x xs)
  have m: "unat (- 1 :: u64) = 2 ^ 64 - 1" by (simp add: unsigned_minus_1_eq_mask mask_eq_exp_minus_1)
  have n: "unat (nextID tw) < 2 ^ 64 - 1" using Cons.prems(3) by simp
  then have ne: "nextID tw \<noteq> - 1" using m by auto
  obtain tw1 f1 where st: "wheelStep tw x = (tw1, f1)" by (cases "wheelStep tw x")
  note ok = wheelStep_ok [OF Cons.prems(1) ne st Cons.prems(2,4)]
  have u: "unat (nextID tw + 1) = unat (nextID tw) + 1" using n by (simp add: unat_word_ariths)
  have "i < nextID tw1" "unat (nextID tw1) + length xs < 2 ^ 64"
    using ok Cons.prems(2,3) next_less [OF ne] u by (auto intro: less_trans)
  with Cons.IH [of tw1] ok have "i \<notin> tid ` set (snd (wheelRun tw1 xs))" by blast
  with st ok show ?case by (auto simp: Let_def split_beta)
qed simp

lemma CancelTimer_found: "CancelTimer tw i = (tw', True) \<Longrightarrow> i \<in> tid ` set (heap tw)"
proof -
  have "markCanceled i h = Some h' \<Longrightarrow> i \<in> tid ` set h" for h h' :: "'a timer list"
    by (induction h arbitrary: h') (auto split: if_splits)
  then show "CancelTimer tw i = (tw', True) \<Longrightarrow> i \<in> tid ` set (heap tw)"
    by (auto simp: CancelTimer_def split: option.splits)
qed

text \<open>C31: a cancellation that reports success is final: whatever is added, cancelled and polled
  afterwards, at whatever times, the callback of that timer is never started (as long as the 64-bit
  id counter does not wrap), repeating timers included.\<close>

theorem cancel_is_final:
  assumes "wheel_ok tw" "CancelTimer tw i = (tw', True)" "unat (nextID tw) + length xs < 2 ^ 64"
  shows "i \<notin> tid ` set (snd (wheelRun tw' xs))"
proof (rule wheelRun_ok)
  show "wheel_ok tw'" by (rule CancelTimer_ok(1) [OF assms(1,2)])
  have n: "nextID tw' = nextID tw" by (rule CancelTimer_ok(2) [OF assms(1,2)])
  show "i < nextID tw'" using CancelTimer_found [OF assms(2)] assms(1) n by (auto simp: wheel_ok_def)
  show "unat (nextID tw') + length xs < 2 ^ 64" using assms(3) n by simp
  show "\<forall>t\<in>set (heap tw'). tid t = i \<longrightarrow> canceled t" using CancelTimer_ok(3) [OF assms(1,2)] by simp
qed

lemma NewTimerWheel_ok: "wheel_ok NewTimerWheel"
  by (simp add: wheel_ok_def NewTimerWheel_def heap_on_def)

theorem cancel_is_final_witness:
  "let tw = fst (AddRepeatingTimer 0 NewTimerWheel 3 3 ()) in
     snd (CancelTimer tw 1) \<and> 1 \<notin> tid ` set (snd (wheelRun (fst (CancelTimer tw 1)) [(10, Tick), (20, Tick)]))"
proof -
  let ?t = "\<lparr>tid = 1, deadline = 3, callback = (), interval = 3, canceled = False\<rparr>"
  let ?tw = "\<lparr>heap = [?t], nextID = 2, running = False, stopClosed = False\<rparr>"
  have tw: "fst (AddRepeatingTimer 0 NewTimerWheel 3 3 ()) = ?tw"
    by (simp add: AddRepeatingTimer_def addTimer_def NewTimerWheel_def heap_Push_def up_stop Let_def)
  have "wheel_ok ?tw" by (simp add: wheel_ok_def heap_on_def)
  moreover have c: "CancelTimer ?tw 1 = (?tw\<lparr>heap := [?t\<lparr>canceled := True\<rparr>]\<rparr>, True)" by (simp add: CancelTimer_def)
  ultimately have "1 \<notin> tid ` set (snd (wheelRun (?tw\<lparr>heap := [?t\<lparr>canceled := True\<rparr>]\<rparr>) [(10, Tick), (20, Tick)]))"
    using cancel_is_final [of ?tw 1 _ "[(10, Tick), (20, Tick)]"] by simp
  with c show ?thesis unfolding tw Let_def by simp
qed

section \<open>Starting and stopping\<close>

text \<open>
  \<^verbatim>\<open>Stop\<close> keeps the mutex while it waits for the goroutine of \<^verbatim>\<open>run\<close>, and a tick needs the
  mutex.  The state: who holds the mutex, where the goroutine is, where the caller of \<^verbatim>\<open>Stop\<close>
  is, and the wheel.
\<close>

datatype run_pc = NotStarted | Selecting | TickWantsLock int | Exited
datatype stop_pc = Idle | Waiting | Stopped

record 'c wheel_sys =
  wheel :: "'c wheel"
  runner :: run_pc
  stopper :: stop_pc

definition lock_free :: "'c wheel_sys \<Rightarrow> bool" where
  "lock_free s \<longleftrightarrow> stopper s \<noteq> Waiting"

inductive sys_step :: "'c wheel_sys \<Rightarrow> 'c wheel_sys \<Rightarrow> bool" where
  Start: "lock_free s \<Longrightarrow> \<not> running (wheel s) \<Longrightarrow> runner s = NotStarted \<Longrightarrow>
    sys_step s (s\<lparr>wheel := (wheel s)\<lparr>running := True\<rparr>, runner := Selecting\<rparr>)"
| TickArrives: "runner s = Selecting \<Longrightarrow> sys_step s (s\<lparr>runner := TickWantsLock now\<rparr>)"
| TickRuns: "lock_free s \<Longrightarrow> runner s = TickWantsLock now \<Longrightarrow>
    sys_step s (s\<lparr>wheel := fst (processTick now (wheel s)), runner := Selecting\<rparr>)"
| RunExits: "runner s = Selecting \<Longrightarrow> stopClosed (wheel s) \<Longrightarrow> sys_step s (s\<lparr>runner := Exited\<rparr>)"
| StopCalled: "lock_free s \<Longrightarrow> stopper s = Idle \<Longrightarrow> running (wheel s) \<Longrightarrow>
    sys_step s (s\<lparr>wheel := (wheel s)\<lparr>running := False, stopClosed := True\<rparr>, stopper := Waiting\<rparr>)"
| StopReturns: "stopper s = Waiting \<Longrightarrow> runner s = Exited \<Longrightarrow> sys_step s (s\<lparr>stopper := Stopped\<rparr>)"

inductive_cases sys_step_cases: "sys_step s s'"

lemma stuck_system: "stopper s = Waiting \<Longrightarrow> runner s = TickWantsLock now \<Longrightarrow> \<not> sys_step s s'"
  by (auto elim!: sys_step_cases simp: lock_free_def)

definition started :: "'c wheel_sys" where
  "started = \<lparr>wheel = NewTimerWheel\<lparr>running := True\<rparr>, runner = Selecting, stopper = Idle\<rparr>"

text \<open>C36: stopping a running wheel can deadlock: when a tick has arrived and \<^verbatim>\<open>Stop\<close> gets the
  mutex first, it waits for ever for the goroutine, which waits for the mutex; no step is left and
  \<^verbatim>\<open>Stop\<close> has not returned.\<close>

theorem Stop_can_deadlock:
  "\<exists>s :: 'c wheel_sys. sys_step\<^sup>*\<^sup>* started s \<and> stopper s = Waiting \<and> (\<forall>s'. \<not> sys_step s s')"
proof -
  let ?s1 = "(started :: 'c wheel_sys)\<lparr>runner := TickWantsLock 0\<rparr>"
  let ?s2 = "?s1\<lparr>wheel := (wheel ?s1)\<lparr>running := False, stopClosed := True\<rparr>, stopper := Waiting\<rparr>"
  have "sys_step started ?s1" by (rule TickArrives) (simp add: started_def)
  moreover have "sys_step ?s1 ?s2" by (rule StopCalled) (simp_all add: started_def lock_free_def)
  ultimately have "sys_step\<^sup>*\<^sup>* started ?s2" by (meson rtranclp.rtrancl_into_rtrancl rtranclp.rtrancl_refl)
  moreover have "stopper ?s2 = Waiting" "\<forall>s'. \<not> sys_step ?s2 s'"
    using stuck_system [of ?s2 0] by simp_all
  ultimately show ?thesis by blast
qed

text \<open>\<^verbatim>\<open>Start\<close> and \<^verbatim>\<open>Stop\<close> as the caller sees them: closing a closed channel panics.\<close>

definition Start_wheel :: "'c wheel \<Rightarrow> 'c wheel" where
  "Start_wheel tw = (if running tw then tw else tw\<lparr>running := True\<rparr>)"

definition Stop_wheel :: "'c wheel \<Rightarrow> 'c wheel outcome" where
  "Stop_wheel tw =
     (if \<not> running tw then Ret tw
      else if stopClosed tw then Panic
      else Ret (tw\<lparr>running := False, stopClosed := True\<rparr>))"

text \<open>A wheel cannot be used again after \<^verbatim>\<open>Stop\<close>: the channel is not made anew, so after a
  second start the next stop closes it twice and panics.\<close>

theorem restarted_wheel_panics:
  assumes "Stop_wheel (Start_wheel tw) = Ret tw'"
  shows "Stop_wheel (Start_wheel tw') = Panic"
  using assms by (auto simp: Start_wheel_def Stop_wheel_def split: if_splits)

theorem restarted_wheel_panics_witness:
  "\<exists>tw'. Stop_wheel (Start_wheel (NewTimerWheel :: unit wheel)) = Ret tw' \<and> Stop_wheel (Start_wheel tw') = Panic"
proof -
  have "Stop_wheel (Start_wheel (NewTimerWheel :: unit wheel)) = Ret (NewTimerWheel\<lparr>stopClosed := True\<rparr>)"
    by (simp add: Start_wheel_def Stop_wheel_def NewTimerWheel_def)
  with restarted_wheel_panics [OF this] show ?thesis by blast
qed

section \<open>The delay executor\<close>

text \<open>
  A task of \<^verbatim>\<open>DelayExecutor\<close> is a timer whose callback removes its key and runs the task.
  The callback is started by a tick and takes the executor's mutex later, so calls of
  \<^verbatim>\<open>Schedule\<close> can come between: started callbacks wait in \<open>pending\<close>.
\<close>

record ('k, 'a) delay_exec =
  dwheel :: "('k \<times> 'a) wheel"
  tasks :: "'k \<Rightarrow> u64 option"
  pending :: "('k \<times> 'a) list"
  ran :: "'a list"

definition NewDelayExecutor :: "('k, 'a) delay_exec" where
  "NewDelayExecutor = \<lparr>dwheel = NewTimerWheel, tasks = (\<lambda>_. None), pending = [], ran = []\<rparr>"

definition Schedule :: "int \<Rightarrow> ('k, 'a) delay_exec \<Rightarrow> 'k \<Rightarrow> int \<Rightarrow> 'a \<Rightarrow> ('k, 'a) delay_exec" where
  "Schedule now de key delay task =
     (let w1 = (case tasks de key of None \<Rightarrow> dwheel de | Some old \<Rightarrow> fst (CancelTimer (dwheel de) old));
          (w2, i) = AddTimer now w1 delay (key, task)
      in de\<lparr>dwheel := w2, tasks := (tasks de)(key \<mapsto> i)\<rparr>)"

definition CancelTask :: "('k, 'a) delay_exec \<Rightarrow> 'k \<Rightarrow> ('k, 'a) delay_exec \<times> bool" where
  "CancelTask de key =
     (case tasks de key of
        None \<Rightarrow> (de, False)
      | Some i \<Rightarrow> (let (w, r) = CancelTimer (dwheel de) i
                  in (de\<lparr>dwheel := w, tasks := (tasks de)(key := None)\<rparr>, r)))"

definition tickDE :: "int \<Rightarrow> ('k, 'a) delay_exec \<Rightarrow> ('k, 'a) delay_exec" where
  "tickDE now de =
     (let (w, fired) = processTick now (dwheel de)
      in de\<lparr>dwheel := w, pending := pending de @ map callback fired\<rparr>)"

definition runCallback :: "('k, 'a) delay_exec \<Rightarrow> ('k, 'a) delay_exec" where
  "runCallback de =
     (case pending de of
        [] \<Rightarrow> de
      | (key, task) # rest \<Rightarrow> de\<lparr>tasks := (tasks de)(key := None), pending := rest, ran := ran de @ [task]\<rparr>)"

text \<open>Schedule a task, let it fall due, schedule it again before the callback takes the mutex, let the
  callback run; then try to cancel the new task, and poll.\<close>

definition staleRun :: "(string, nat) delay_exec \<times> bool" where
  "staleRun =
     (let de1 = Schedule 0 NewDelayExecutor ''room'' 5 1;
          de2 = tickDE 10 de1;
          de3 = Schedule 10 de2 ''room'' 5 2;
          de4 = runCallback de3;
          (de5, r) = CancelTask de4 ''room''
      in (runCallback (tickDE 20 de5), r))"

text \<open>A callback of the delay executor removes whatever task is registered under its key: when a
  task is rescheduled while its old callback is on its way, the old callback unregisters the new task,
  which then cannot be cancelled and runs.\<close>

theorem stale_callback_unregisters:
  "snd staleRun = False \<and> ran (fst staleRun) = [1, 2]"
proof
  show "snd staleRun = False" by code_simp
  show "ran (fst staleRun) = [1, 2]" by code_simp
qed

end
