(* ===== verification/RoomManager.thy ===== *)
theory RoomManager
  imports Prelude "HOL-Library.AList"
begin

text \<open>
  \<^verbatim>\<open>connection/room_manager.go\<close>: the rooms of a connection node.  The map of rooms is an
  association list with distinct keys; every method is one transition, with the wall clock
  (nanoseconds) as an argument.  Redis is a parameter: a record of operations on a state of its own.
  What is written to it is the JSON of a room, which leaves out the unexported map of members.
\<close>

section \<open>Rooms\<close>

datatype RoomStatus = RoomStatusOpen | RoomStatusClosed | RoomStatusFull

record room =
  ID :: u64
  Name :: string
  CreatorID :: u32
  MaxMembers :: u32
  Password :: string
  CreatedAt :: int
  UpdatedAt :: int
  Status :: RoomStatus
  MemberCount :: u32
  LastActivity :: int
  members :: "string set"

definition HasMember :: "room \<Rightarrow> string \<Rightarrow> bool" where
  "HasMember r connID \<longleftrightarrow> connID \<in> members r"

text \<open>What \<^verbatim>\<open>json.Marshal\<close> and \<^verbatim>\<open>json.Unmarshal\<close> keep of a room.\<close>

definition exported :: "room \<Rightarrow> room" where
  "exported r = r\<lparr>members := {}\<rparr>"

text \<open>Redis, restricted to the keys \<^verbatim>\<open>rooms:<id>\<close>.\<close>

record 'r Redis =
  rget :: "'r \<Rightarrow> u64 \<Rightarrow> room option"
  rset :: "'r \<Rightarrow> u64 \<Rightarrow> room \<Rightarrow> 'r"
  rdel :: "'r \<Rightarrow> u64 \<Rightarrow> 'r"
  rkeys :: "'r \<Rightarrow> u64 list option"

section \<open>The manager\<close>

record 'r room_manager =
  rooms :: "(u64 \<times> room) list"
  redis :: 'r
  maxRooms :: int
  totalRooms :: i64
  activeRooms :: i64

datatype room_error =
    RoomExists u64 | MaxRoomsReached | RoomNotFound u64 | RoomClosed u64 | RoomFull u64
  | InvalidPassword u64 | AlreadyInRoom string | NotInRoom string | NotCreator u32

definition NewRoomManager :: "int \<Rightarrow> 'r \<Rightarrow> 'r room_manager" where
  "NewRoomManager limit r = \<lparr>rooms = [], redis = r, maxRooms = limit, totalRooms = 0, activeRooms = 0\<rparr>"

definition saveRoomToRedis :: "'r Redis \<Rightarrow> 'r room_manager \<Rightarrow> room \<Rightarrow> 'r room_manager" where
  "saveRoomToRedis R rm r = rm\<lparr>redis := rset R (redis rm) (ID r) (exported r)\<rparr>"

definition loadRoomFromRedis :: "'r Redis \<Rightarrow> 'r room_manager \<Rightarrow> u64 \<Rightarrow> room option" where
  "loadRoomFromRedis R rm roomID = map_option exported (rget R (redis rm) roomID)"

definition putRoom :: "u64 \<Rightarrow> room \<Rightarrow> 'r room_manager \<Rightarrow> 'r room_manager" where
  "putRoom roomID r rm = rm\<lparr>rooms := AList.update roomID r (rooms rm)\<rparr>"

definition CreateRoom :: "'r Redis \<Rightarrow> int \<Rightarrow> 'r room_manager \<Rightarrow> u64 \<Rightarrow> string \<Rightarrow> u32 \<Rightarrow> u32 \<Rightarrow> string
    \<Rightarrow> 'r room_manager \<times> (room_error + room)" where
  "CreateRoom R now rm roomID name creatorID maxMembers password =
     (if map_of (rooms rm) roomID \<noteq> None then (rm, Inl (RoomExists roomID))
      else if int (length (rooms rm)) \<ge> maxRooms rm then (rm, Inl MaxRoomsReached)
      else let r = \<lparr>ID = roomID, Name = name, CreatorID = creatorID, MaxMembers = maxMembers,
                    Password = password, CreatedAt = now, UpdatedAt = now, Status = RoomStatusOpen,
                    MemberCount = 0, LastActivity = now, members = {}\<rparr>;
               rm1 = putRoom roomID r rm;
               rm2 = rm1\<lparr>totalRooms := totalRooms rm1 + 1, activeRooms := activeRooms rm1 + 1\<rparr>
           in (saveRoomToRedis R rm2 r, Inr r))"

definition GetRoom :: "'r Redis \<Rightarrow> 'r room_manager \<Rightarrow> u64 \<Rightarrow> 'r room_manager \<times> room option" where
  "GetRoom R rm roomID =
     (case map_of (rooms rm) roomID of
        Some r \<Rightarrow> (rm, Some r)
      | None \<Rightarrow>
          (case loadRoomFromRedis R rm roomID of
             Some r \<Rightarrow> (putRoom roomID r rm, Some r)
           | None \<Rightarrow> (rm, None)))"

definition JoinRoom :: "'r Redis \<Rightarrow> int \<Rightarrow> 'r room_manager \<Rightarrow> u64 \<Rightarrow> string \<Rightarrow> string
    \<Rightarrow> 'r room_manager \<times> (room_error + unit)" where
  "JoinRoom R now rm roomID connID password =
     (let (rm1, found) = GetRoom R rm roomID
      in case found of
           None \<Rightarrow> (rm1, Inl (RoomNotFound roomID))
         | Some r \<Rightarrow>
             if Status r = RoomStatusClosed then (rm1, Inl (RoomClosed roomID))
             else if Status r = RoomStatusFull then (rm1, Inl (RoomFull roomID))
             else if Password r \<noteq> [] \<and> Password r \<noteq> password then (rm1, Inl (InvalidPassword roomID))
             else if connID \<in> members r then (rm1, Inl (AlreadyInRoom connID))
             else if MemberCount r \<ge> MaxMembers r
             then (putRoom roomID (r\<lparr>Status := RoomStatusFull\<rparr>) rm1, Inl (RoomFull roomID))
             else let r1 = r\<lparr>members := insert connID (members r), MemberCount := MemberCount r + 1,
                             LastActivity := now, UpdatedAt := now\<rparr>;
                      r2 = (if MemberCount r1 \<ge> MaxMembers r1 then r1\<lparr>Status := RoomStatusFull\<rparr> else r1)
                  in (saveRoomToRedis R (putRoom roomID r2 rm1) r2, Inr ()))"

definition LeaveRoom :: "'r Redis \<Rightarrow> int \<Rightarrow> 'r room_manager \<Rightarrow> u64 \<Rightarrow> string
    \<Rightarrow> 'r room_manager \<times> (room_error + unit)" where
  "LeaveRoom R now rm roomID connID =
     (let (rm1, found) = GetRoom R rm roomID
      in case found of
           None \<Rightarrow> (rm1, Inl (RoomNotFound roomID))
         | Some r \<Rightarrow>
             if connID \<notin> members r then (rm1, Inl (NotInRoom connID))
             else let r1 = r\<lparr>members := members r - {connID}, MemberCount := MemberCount r - 1,
                             LastActivity := now, UpdatedAt := now\<rparr>;
                      r2 = (if Status r1 = RoomStatusFull \<and> MemberCount r1 < MaxMembers r1
                            then r1\<lparr>Status := RoomStatusOpen\<rparr> else r1)
                  in (saveRoomToRedis R (putRoom roomID r2 rm1) r2, Inr ()))"

definition CloseRoom :: "'r Redis \<Rightarrow> int \<Rightarrow> 'r room_manager \<Rightarrow> u64 \<Rightarrow> u32
    \<Rightarrow> 'r room_manager \<times> (room_error + unit)" where
  "CloseRoom R now rm roomID creatorID =
     (let (rm1, found) = GetRoom R rm roomID
      in case found of
           None \<Rightarrow> (rm1, Inl (RoomNotFound roomID))
         | Some r \<Rightarrow>
             if CreatorID r \<noteq> creatorID then (rm1, Inl (NotCreator creatorID))
             else let r1 = r\<lparr>Status := RoomStatusClosed, UpdatedAt := now, members := {}, MemberCount := 0\<rparr>
                  in (saveRoomToRedis R (putRoom roomID r1 rm1) r1, Inr ()))"

definition GetRoomMembers :: "'r Redis \<Rightarrow> 'r room_manager \<Rightarrow> u64 \<Rightarrow> 'r room_manager \<times> string set option" where
  "GetRoomMembers R rm roomID = (let (rm1, found) = GetRoom R rm roomID in (rm1, map_option members found))"

definition GetUserRooms :: "'r room_manager \<Rightarrow> string \<Rightarrow> room list" where
  "GetUserRooms rm connID = filter (\<lambda>r. connID \<in> members r) (map snd (rooms rm))"

text \<open>\<^verbatim>\<open>10*time.Minute\<close> in nanoseconds\<close>

definition tenMinutes :: int where "tenMinutes = 10 * 60 * 1000000000"

definition removable :: "int \<Rightarrow> room \<Rightarrow> bool" where
  "removable now r \<longleftrightarrow>
     (MemberCount r = 0 \<and> now - LastActivity r > tenMinutes) \<or> Status r = RoomStatusClosed"

definition removeRoom :: "'r Redis \<Rightarrow> 'r room_manager \<Rightarrow> u64 \<Rightarrow> 'r room_manager" where
  "removeRoom R rm roomID =
     rm\<lparr>rooms := AList.delete roomID (rooms rm), activeRooms := activeRooms rm - 1,
        redis := rdel R (redis rm) roomID\<rparr>"

definition CleanupEmptyRooms :: "'r Redis \<Rightarrow> int \<Rightarrow> 'r room_manager \<Rightarrow> 'r room_manager" where
  "CleanupEmptyRooms R now rm =
     (let emptyRooms = map fst (filter (\<lambda>(_, r). removable now r) (rooms rm))
      in foldl (removeRoom R) rm emptyRooms)"

definition loadStep :: "'r Redis \<Rightarrow> 'r room_manager \<times> nat \<Rightarrow> u64 \<Rightarrow> 'r room_manager \<times> nat" where
  "loadStep R x key =
     (case rget R (redis (fst x)) key of
        None \<Rightarrow> x
      | Some r \<Rightarrow> (putRoom (ID r) (exported r) (fst x), Suc (snd x)))"

definition loadRoomsFromRedis :: "'r Redis \<Rightarrow> 'r room_manager \<Rightarrow> 'r room_manager" where
  "loadRoomsFromRedis R rm =
     (case rkeys R (redis rm) of
        None \<Rightarrow> rm
      | Some keys \<Rightarrow>
          let (rm', loaded) = foldl (loadStep R) (rm, 0) keys
          in rm'\<lparr>activeRooms := of_nat loaded\<rparr>)"

definition saveRoomsToRedis :: "'r Redis \<Rightarrow> 'r room_manager \<Rightarrow> 'r room_manager" where
  "saveRoomsToRedis R rm = foldl (\<lambda>m x. saveRoomToRedis R m (snd x)) rm (rooms rm)"

text \<open>A restart of the node: \<^verbatim>\<open>Stop\<close>, then \<^verbatim>\<open>Start\<close> of a new manager on the same Redis.\<close>

definition restart :: "'r Redis \<Rightarrow> 'r room_manager \<Rightarrow> 'r room_manager" where
  "restart R rm = loadRoomsFromRedis R (NewRoomManager (maxRooms rm) (redis (saveRoomsToRedis R rm)))"

section \<open>Runs\<close>

datatype room_op =
    OpCreate u64 string u32 u32 string
  | OpGet u64
  | OpJoin u64 string string
  | OpLeave u64 string
  | OpClose u64 u32
  | OpCleanup

fun roomStep :: "'r Redis \<Rightarrow> 'r room_manager \<Rightarrow> int \<times> room_op \<Rightarrow> 'r room_manager" where
  "roomStep R rm (now, OpCreate i name c m pw) = fst (CreateRoom R now rm i name c m pw)"
| "roomStep R rm (now, OpGet i) = fst (GetRoom R rm i)"
| "roomStep R rm (now, OpJoin i conn pw) = fst (JoinRoom R now rm i conn pw)"
| "roomStep R rm (now, OpLeave i conn) = fst (LeaveRoom R now rm i conn)"
| "roomStep R rm (now, OpClose i c) = fst (CloseRoom R now rm i c)"
| "roomStep R rm (now, OpCleanup) = CleanupEmptyRooms R now rm"

definition roomRun :: "'r Redis \<Rightarrow> 'r room_manager \<Rightarrow> (int \<times> room_op) list \<Rightarrow> 'r room_manager" where
  "roomRun R = foldl (roomStep R)"

section \<open>The member count\<close>

text \<open>What Redis promises: a key holds what was written last to it, or nothing (it expires, and a
  write may fail when the key held nothing); a deleted key holds nothing.\<close>

definition redis_contract :: "'r Redis \<Rightarrow> bool" where
  "redis_contract R \<longleftrightarrow>
     (\<forall>r k v k' x. rget R (rset R r k v) k' = Some x \<longrightarrow> k' = k \<or> rget R r k' = Some x) \<and>
     (\<forall>r k k' x. rget R (rdel R r k) k' = Some x \<longrightarrow> k' \<noteq> k \<and> rget R r k' = Some x)"

definition room_ok :: "room \<Rightarrow> bool" where
  "room_ok r \<longleftrightarrow>
     finite (members r) \<and> unat (MemberCount r) = card (members r) \<and> MemberCount r \<le> MaxMembers r \<and>
     (Status r = RoomStatusFull \<longrightarrow> MemberCount r = MaxMembers r) \<and>
     (Status r = RoomStatusClosed \<longrightarrow> members r = {})"

definition manager_ok :: "'r Redis \<Rightarrow> 'r room_manager \<Rightarrow> bool" where
  "manager_ok R rm \<longleftrightarrow>
     distinct (map fst (rooms rm)) \<and>
     (\<forall>(i, r)\<in>set (rooms rm). ID r = i \<and> room_ok r) \<and>
     (\<forall>k x. rget R (redis rm) k = Some x \<longrightarrow> k \<in> fst ` set (rooms rm)) \<and>
     activeRooms rm = of_nat (length (rooms rm))"

lemma room_ok_join:
  fixes t :: int
  assumes "room_ok r" "Status r = RoomStatusOpen" "c \<notin> members r" "MemberCount r < MaxMembers r"
  defines "r1 \<equiv> r\<lparr>members := insert c (members r), MemberCount := MemberCount r + 1, LastActivity := t, UpdatedAt := t\<rparr>"
  shows "room_ok (if MemberCount r1 \<ge> MaxMembers r1 then r1\<lparr>Status := RoomStatusFull\<rparr> else r1)"
proof -
  have "unat (MemberCount r) < unat (MaxMembers r)" using assms(4) by (simp add: word_less_nat_alt)
  moreover have "unat (MaxMembers r) < 2 ^ 32" using unsigned_less [of "MaxMembers r", where ?'a = nat] by simp
  ultimately have u: "unat (MemberCount r + 1) = unat (MemberCount r) + 1" "unat (MemberCount r) + 1 \<le> unat (MaxMembers r)"
    by (simp_all add: unat_word_ariths)
  then have "MemberCount r + 1 \<le> MaxMembers r" by (simp add: word_le_nat_alt)
  with assms u show ?thesis by (auto simp: room_ok_def r1_def)
qed

lemma room_ok_leave:
  fixes t :: int
  assumes "room_ok r" "c \<in> members r"
  defines "r1 \<equiv> r\<lparr>members := members r - {c}, MemberCount := MemberCount r - 1, LastActivity := t, UpdatedAt := t\<rparr>"
  shows "room_ok (if Status r1 = RoomStatusFull \<and> MemberCount r1 < MaxMembers r1
                  then r1\<lparr>Status := RoomStatusOpen\<rparr> else r1)"
proof -
  have c: "card (members r) \<noteq> 0" "finite (members r)" using assms by (auto simp: room_ok_def)
  then have pos: "0 < unat (MemberCount r)" using assms(1) by (simp add: room_ok_def card_gt_0_iff)
  then have nz: "MemberCount r \<noteq> 0" by auto
  then have u: "unat (MemberCount r - 1) = unat (MemberCount r) - 1"
    by (rule unat_minus_one)
  have lt: "MemberCount r - 1 < MaxMembers r"
  proof -
    have "unat (MemberCount r) \<le> unat (MaxMembers r)" using assms(1) by (simp add: room_ok_def word_le_nat_alt)
    with pos u show ?thesis by (simp add: word_less_nat_alt)
  qed
  have "Status r \<noteq> RoomStatusClosed" using assms by (auto simp: room_ok_def)
  with assms(1,2) c u lt show ?thesis by (auto simp: room_ok_def r1_def card_Diff_singleton less_imp_le)
qed

lemma GetRoom_known:
  assumes "manager_ok R rm" "GetRoom R rm i = (rm', x)"
  shows "rm' = rm \<and> x = map_of (rooms rm) i"
proof (cases "map_of (rooms rm) i")
  case None
  then have "rget R (redis rm) i = None"
    using assms(1) by (cases "rget R (redis rm) i") (auto simp: manager_ok_def map_of_eq_None_iff)
  with assms(2) None show ?thesis by (simp add: GetRoom_def loadRoomFromRedis_def)
qed (use assms(2) in \<open>simp add: GetRoom_def\<close>)

lemma update_keys: "map_of xs i \<noteq> None \<Longrightarrow> map fst (AList.update i r xs) = map fst xs"
  by (simp add: AList.update_keys map_of_eq_None_iff)

lemma update_set: "distinct (map fst xs) \<Longrightarrow> set (AList.update i r xs) \<subseteq> insert (i, r) {x \<in> set xs. fst x \<noteq> i}"
proof (induction xs)
  case (Cons x xs)
  then show ?case by (cases x) (auto simp: image_iff)
qed simp

lemma manager_ok_put:
  assumes R: "redis_contract R" and ok: "manager_ok R rm" and i: "map_of (rooms rm) i \<noteq> None"
    and r: "room_ok r" "ID r = i"
  shows "manager_ok R (putRoom i r rm)" "manager_ok R (saveRoomToRedis R (putRoom i r rm) r)"
proof -
  have keys: "map fst (AList.update i r (rooms rm)) = map fst (rooms rm)" by (rule update_keys [OF i])
  then have len: "length (AList.update i r (rooms rm)) = length (rooms rm)" by (metis length_map)
  have fs: "fst ` set (AList.update i r (rooms rm)) = fst ` set (rooms rm)" using keys by (metis list.set_map)
  have "set (AList.update i r (rooms rm)) \<subseteq> insert (i, r) (set (rooms rm))"
    using update_set [of "rooms rm" i r] ok by (auto simp: manager_ok_def)
  then have all: "\<forall>(j, q)\<in>set (AList.update i r (rooms rm)). ID q = j \<and> room_ok q"
    using ok r unfolding manager_ok_def by blast
  then show 1: "manager_ok R (putRoom i r rm)"
    using ok unfolding manager_ok_def putRoom_def by (simp add: keys len fs)
  have "i \<in> fst ` set (rooms rm)" using i by (auto simp: map_of_eq_None_iff)
  then have rg: "rget R (rset R (redis rm) i (exported r)) k = Some x \<Longrightarrow> k \<in> fst ` set (rooms rm)" for k x
    using R ok unfolding redis_contract_def manager_ok_def by blast
  show "manager_ok R (saveRoomToRedis R (putRoom i r rm) r)"
    using 1 rg r(2) unfolding manager_ok_def saveRoomToRedis_def putRoom_def by (simp add: fs)
qed

lemma JoinRoom_ok:
  assumes R: "redis_contract R" and ok: "manager_ok R rm"
  shows "manager_ok R (fst (JoinRoom R now rm i c pw))"
proof (cases "map_of (rooms rm) i")
  case None
  with GetRoom_known [OF ok, of i] ok show ?thesis by (cases "GetRoom R rm i") (simp add: JoinRoom_def)
next
  case (Some r)
  then have g: "GetRoom R rm i = (rm, Some r)" by (simp add: GetRoom_def)
  have r: "room_ok r" "ID r = i" using ok map_of_SomeD [OF Some] by (auto simp: manager_ok_def)
  have ne: "map_of (rooms rm) i \<noteq> None" using Some by simp
  show ?thesis
  proof (cases "Status r = RoomStatusOpen \<and> (Password r = [] \<or> Password r = pw) \<and> c \<notin> members r")
    case False
    then have "fst (JoinRoom R now rm i c pw) = rm"
      using RoomStatus.exhaust [of "Status r"] by (auto simp: JoinRoom_def g)
    with ok show ?thesis by simp
  next
    case open_room: True
    show ?thesis
    proof (cases "MemberCount r \<ge> MaxMembers r")
      case True
      then have "room_ok (r\<lparr>Status := RoomStatusFull\<rparr>)" using r by (auto simp: room_ok_def)
      then have "manager_ok R (putRoom i (r\<lparr>Status := RoomStatusFull\<rparr>) rm)"
        using manager_ok_put(1) [OF R ok ne] r(2) by simp
      with open_room True show ?thesis by (auto simp: JoinRoom_def g)
    next
      case False
      define r1 where "r1 = r\<lparr>members := insert c (members r), MemberCount := MemberCount r + 1,
        LastActivity := now, UpdatedAt := now\<rparr>"
      define r2 where "r2 = (if MemberCount r1 \<ge> MaxMembers r1 then r1\<lparr>Status := RoomStatusFull\<rparr> else r1)"
      have "room_ok r2"
        unfolding r2_def r1_def using room_ok_join [of r c now] r open_room False by (simp add: not_le)
      moreover have "ID r2 = i" using r(2) by (simp add: r2_def r1_def)
      ultimately have "manager_ok R (saveRoomToRedis R (putRoom i r2 rm) r2)"
        using manager_ok_put(2) [OF R ok ne] by simp
      moreover have "fst (JoinRoom R now rm i c pw) = saveRoomToRedis R (putRoom i r2 rm) r2"
        using open_room False unfolding JoinRoom_def g r2_def r1_def by (auto simp: Let_def)
      ultimately show ?thesis by simp
    qed
  qed
qed

lemma LeaveRoom_ok:
  assumes R: "redis_contract R" and ok: "manager_ok R rm"
  shows "manager_ok R (fst (LeaveRoom R now rm i c))"
proof (cases "map_of (rooms rm) i")
  case None
  with GetRoom_known [OF ok, of i] ok show ?thesis by (cases "GetRoom R rm i") (simp add: LeaveRoom_def)
next
  case (Some r)
  then have g: "GetRoom R rm i = (rm, Some r)" by (simp add: GetRoom_def)
  have r: "room_ok r" "ID r = i" using ok map_of_SomeD [OF Some] by (auto simp: manager_ok_def)
  have ne: "map_of (rooms rm) i \<noteq> None" using Some by simp
  show ?thesis
  proof (cases "c \<in> members r")
    case False
    with ok show ?thesis by (simp add: LeaveRoom_def g)
  next
    case True
    define r1 where "r1 = r\<lparr>members := members r - {c}, MemberCount := MemberCount r - 1,
      LastActivity := now, UpdatedAt := now\<rparr>"
    define r2 where "r2 = (if Status r1 = RoomStatusFull \<and> MemberCount r1 < MaxMembers r1
                           then r1\<lparr>Status := RoomStatusOpen\<rparr> else r1)"
    have "room_ok r2" unfolding r2_def r1_def by (rule room_ok_leave [OF r(1) True])
    moreover have "ID r2 = i" using r(2) by (simp add: r2_def r1_def)
    ultimately have "manager_ok R (saveRoomToRedis R (putRoom i r2 rm) r2)"
      using manager_ok_put(2) [OF R ok ne] by simp
    moreover have "fst (LeaveRoom R now rm i c) = saveRoomToRedis R (putRoom i r2 rm) r2"
      using True unfolding LeaveRoom_def g r2_def r1_def by (auto simp: Let_def)
    ultimately show ?thesis by simp
  qed
qed

lemma CloseRoom_ok:
  assumes R: "redis_contract R" and ok: "manager_ok R rm"
  shows "manager_ok R (fst (CloseRoom R now rm i c))"
proof (cases "map_of (rooms rm) i")
  case None
  with GetRoom_known [OF ok, of i] ok show ?thesis by (cases "GetRoom R rm i") (simp add: CloseRoom_def)
next
  case (Some r)
  then have g: "GetRoom R rm i = (rm, Some r)" by (simp add: GetRoom_def)
  have r: "ID r = i" using ok map_of_SomeD [OF Some] by (auto simp: manager_ok_def)
  have ne: "map_of (rooms rm) i \<noteq> None" using Some by simp
  let ?r = "r\<lparr>Status := RoomStatusClosed, UpdatedAt := now, members := {}, MemberCount := 0\<rparr>"
  have "room_ok ?r" by (simp add: room_ok_def)
  then have "manager_ok R (saveRoomToRedis R (putRoom i ?r rm) ?r)"
    using manager_ok_put(2) [OF R ok ne] r by simp
  with ok show ?thesis by (auto simp: CloseRoom_def g Let_def)
qed

lemma CreateRoom_ok:
  assumes R: "redis_contract R" and ok: "manager_ok R rm"
  shows "manager_ok R (fst (CreateRoom R now rm i name c m pw))"
proof (cases "map_of (rooms rm) i \<noteq> None \<or> int (length (rooms rm)) \<ge> maxRooms rm")
  case True
  with ok show ?thesis by (auto simp: CreateRoom_def)
next
  case False
  then have i: "i \<notin> fst ` set (rooms rm)" by (simp add: map_of_eq_None_iff)
  let ?r = "\<lparr>ID = i, Name = name, CreatorID = c, MaxMembers = m, Password = pw, CreatedAt = now, UpdatedAt = now,
             Status = RoomStatusOpen, MemberCount = 0, LastActivity = now, members = {}\<rparr>"
  have u: "AList.update i ?r (rooms rm) = rooms rm @ [(i, ?r)]" using i by (rule update_new)
  have rg: "rget R (rset R (redis rm) i (exported ?r)) k = Some x \<Longrightarrow> k = i \<or> k \<in> fst ` set (rooms rm)" for k x
    using R ok unfolding redis_contract_def manager_ok_def by blast
  have "room_ok ?r" by (simp add: room_ok_def)
  with ok i rg have "manager_ok R (rm\<lparr>rooms := rooms rm @ [(i, ?r)], totalRooms := totalRooms rm + 1,
      activeRooms := activeRooms rm + 1, redis := rset R (redis rm) i (exported ?r)\<rparr>)"
    unfolding manager_ok_def by (auto simp: add.commute)
  moreover have "fst (CreateRoom R now rm i name c m pw) = rm\<lparr>rooms := rooms rm @ [(i, ?r)],
      totalRooms := totalRooms rm + 1, activeRooms := activeRooms rm + 1, redis := rset R (redis rm) i (exported ?r)\<rparr>"
    using False by (auto simp: CreateRoom_def Let_def saveRoomToRedis_def putRoom_def u)
  ultimately show ?thesis by simp
qed

lemma delete_keys: "map fst (AList.delete i xs) = filter (\<lambda>k. k \<noteq> i) (map fst xs)"
  by (induction xs) (auto simp: AList.delete_eq)

lemma removeRoom_ok:
  assumes R: "redis_contract R" and ok: "manager_ok R rm" and i: "i \<in> fst ` set (rooms rm)"
  shows "manager_ok R (removeRoom R rm i)" "fst ` set (rooms (removeRoom R rm i)) = fst ` set (rooms rm) - {i}"
proof -
  have keys: "map fst (AList.delete i (rooms rm)) = filter (\<lambda>k. k \<noteq> i) (map fst (rooms rm))"
    by (rule delete_keys)
  have d: "distinct (map fst (rooms rm))" using ok by (simp add: manager_ok_def)
  have "length (AList.delete i (rooms rm)) = length (filter (\<lambda>k. k \<noteq> i) (map fst (rooms rm)))"
    using keys by (metis length_map)
  also have "filter (\<lambda>k. k \<noteq> i) (map fst (rooms rm)) = remove1 i (map fst (rooms rm))"
    using d by (simp add: distinct_remove1_removeAll removeAll_filter_not_eq eq_commute)
  also have "length \<dots> = length (rooms rm) - 1" using i by (simp add: length_remove1)
  finally have len: "length (AList.delete i (rooms rm)) = length (rooms rm) - 1" .
  have pos: "0 < length (rooms rm)" using i by auto
  then have "Suc (length (rooms rm) - 1) = length (rooms rm)" by simp
  then have c: "of_nat (length (rooms rm)) - 1 = (of_nat (length (rooms rm) - 1) :: i64)"
    by (metis of_nat_Suc add_diff_cancel_left')
  have sub: "set (AList.delete i (rooms rm)) \<subseteq> set (rooms rm)" by (auto simp: AList.delete_eq)
  have fs: "fst ` set (AList.delete i (rooms rm)) = fst ` set (rooms rm) - {i}" by (auto simp: AList.delete_eq)
  then show "fst ` set (rooms (removeRoom R rm i)) = fst ` set (rooms rm) - {i}" by (simp add: removeRoom_def)
  have rg: "rget R (rdel R (redis rm) i) k = Some x \<Longrightarrow> k \<noteq> i \<and> k \<in> fst ` set (rooms rm)" for k x
    using R ok unfolding redis_contract_def manager_ok_def by blast
  have all: "\<forall>(j, q)\<in>set (AList.delete i (rooms rm)). ID q = j \<and> room_ok q"
    using ok sub unfolding manager_ok_def by blast
  show "manager_ok R (removeRoom R rm i)"
    using d ok rg all unfolding manager_ok_def removeRoom_def by (simp add: keys len c fs)
qed

lemma removeRooms_ok:
  "redis_contract R \<Longrightarrow> manager_ok R rm \<Longrightarrow> distinct ks \<Longrightarrow> set ks \<subseteq> fst ` set (rooms rm) \<Longrightarrow>
   manager_ok R (foldl (removeRoom R) rm ks)"
proof (induction ks arbitrary: rm)
  case (Cons k ks)
  have k: "k \<in> fst ` set (rooms rm)" using Cons.prems(4) by simp
  have "set ks \<subseteq> fst ` set (rooms (removeRoom R rm k))"
    using Cons.prems(3,4) unfolding removeRoom_ok(2) [OF Cons.prems(1,2) k] by auto
  with Cons.IH [OF Cons.prems(1) removeRoom_ok(1) [OF Cons.prems(1,2) k]] Cons.prems(3) show ?case by simp
qed simp

lemma CleanupEmptyRooms_ok:
  assumes "redis_contract R" "manager_ok R rm"
  shows "manager_ok R (CleanupEmptyRooms R now rm)"
proof -
  let ?ks = "map fst (filter (\<lambda>(_, r). removable now r) (rooms rm))"
  have "distinct ?ks" using assms(2) by (simp add: manager_ok_def distinct_map_filter)
  moreover have "set ?ks \<subseteq> fst ` set (rooms rm)" by auto
  ultimately show ?thesis unfolding CleanupEmptyRooms_def Let_def by (rule removeRooms_ok [OF assms])
qed

lemma roomStep_ok: "redis_contract R \<Longrightarrow> manager_ok R rm \<Longrightarrow> manager_ok R (roomStep R rm x)"
proof -
  assume a: "redis_contract R" "manager_ok R rm"
  obtain now op where x: "x = (now, op)" by (cases x)
  show ?thesis
  proof (cases op)
    case (OpGet i)
    with a x GetRoom_known [OF a(2), of i] show ?thesis by (cases "GetRoom R rm i") simp
  qed (use a x CreateRoom_ok JoinRoom_ok LeaveRoom_ok CloseRoom_ok CleanupEmptyRooms_ok in simp_all)
qed

lemma roomRun_ok: "redis_contract R \<Longrightarrow> manager_ok R rm \<Longrightarrow> manager_ok R (roomRun R rm ops)"
  by (induction ops arbitrary: rm) (simp_all add: roomRun_def roomStep_ok)

text \<open>C3: a node that starts with an empty Redis counts right for ever: after any sequence of
  creations, joins, leaves, closings and clean-ups, in every room the counter is the number of members,
  it never passes the maximum, a full room is really full, a closed one is empty, and the number of
  active rooms is the number of rooms.\<close>

theorem member_count_invariant:
  assumes "redis_contract R" "\<forall>k. rget R empty_redis k = None"
    "rm = roomRun R (NewRoomManager limit empty_redis) ops"
  shows "(\<forall>i r. map_of (rooms rm) i = Some r \<longrightarrow>
      finite (members r) \<and> unat (MemberCount r) = card (members r) \<and> MemberCount r \<le> MaxMembers r \<and>
      (Status r = RoomStatusFull \<longrightarrow> MemberCount r = MaxMembers r) \<and>
      (Status r = RoomStatusClosed \<longrightarrow> members r = {})) \<and> activeRooms rm = of_nat (length (rooms rm))"
proof -
  have "manager_ok R (NewRoomManager limit empty_redis)"
    using assms(2) by (simp add: manager_ok_def NewRoomManager_def)
  then have ok: "manager_ok R rm" unfolding assms(3) by (rule roomRun_ok [OF assms(1)])
  then have "\<And>i r. map_of (rooms rm) i = Some r \<Longrightarrow> room_ok r"
    by (auto simp: manager_ok_def dest!: map_of_SomeD)
  with ok show ?thesis by (auto simp: room_ok_def manager_ok_def)
qed

text \<open>A Redis that loses nothing, as an association list.\<close>

definition listRedis :: "(u64 \<times> room) list Redis" where
  "listRedis = \<lparr>rget = map_of, rset = (\<lambda>r k v. AList.update k v r), rdel = (\<lambda>r k. AList.delete k r),
                rkeys = (\<lambda>r. Some (map fst r))\<rparr>"

lemma listRedis_contract: "redis_contract listRedis"
  by (auto simp: redis_contract_def listRedis_def AList.update_conv' AList.delete_conv' split: if_splits)

definition twoMembers :: "(int \<times> room_op) list" where
  "twoMembers = [(0, OpCreate 7 ''lobby'' 1 2 []), (1, OpJoin 7 ''a'' []), (2, OpJoin 7 ''b'' []), (3, OpJoin 7 ''c'' [])]"

lemmas room_eval = roomRun_def NewRoomManager_def CreateRoom_def JoinRoom_def LeaveRoom_def GetRoom_def
  saveRoomToRedis_def loadRoomFromRedis_def putRoom_def listRedis_def exported_def Let_def

theorem member_count_invariant_witness:
  "\<exists>r. map_of (rooms (roomRun listRedis (NewRoomManager 10 []) twoMembers)) 7 = Some r \<and>
     Status r = RoomStatusFull \<and> card (members r) = 2 \<and> MemberCount r = MaxMembers r"
proof -
  let ?rm = "roomRun listRedis (NewRoomManager 10 []) twoMembers"
  have "\<exists>r. map_of (rooms ?rm) 7 = Some r \<and> Status r = RoomStatusFull \<and> MemberCount r = 2"
    by (simp add: room_eval twoMembers_def word_le_nat_alt)
  then obtain r where r: "map_of (rooms ?rm) 7 = Some r" "Status r = RoomStatusFull" "MemberCount r = 2" by blast
  have "\<forall>k. rget listRedis [] k = None" by (simp add: listRedis_def)
  from member_count_invariant [OF listRedis_contract this refl, of 10 twoMembers] r
  have "unat (MemberCount r) = card (members r) \<and> MemberCount r = MaxMembers r" by blast
  with r show ?thesis by auto
qed

section \<open>After a restart\<close>

text \<open>A room read back from Redis while it was full: full, and without members.\<close>

definition ghost :: "room \<Rightarrow> bool" where
  "ghost r \<longleftrightarrow> Status r = RoomStatusFull \<and> members r = {} \<and> MemberCount r \<noteq> 0"

definition ghost_at :: "u64 \<Rightarrow> 'r room_manager \<Rightarrow> bool" where
  "ghost_at i rm \<longleftrightarrow> (\<exists>r. map_of (rooms rm) i = Some r \<and> ghost r)"

fun harmless :: "u64 \<Rightarrow> room_op \<Rightarrow> bool" where
  "harmless i (OpClose j c) = (i \<noteq> j)"
| "harmless i op = True"

lemma ghost_put: "ghost_at i rm \<Longrightarrow> j \<noteq> i \<Longrightarrow> ghost_at i (putRoom j r rm)"
  by (simp add: ghost_at_def putRoom_def AList.update_conv')

lemma ghost_save: "ghost_at i (saveRoomToRedis R rm r) = ghost_at i rm"
  by (simp add: ghost_at_def saveRoomToRedis_def)

lemma ghost_get: "ghost_at i rm \<Longrightarrow> GetRoom R rm j = (rm', x) \<Longrightarrow> ghost_at i rm'"
proof (cases "map_of (rooms rm) j")
  case None
  then have "ghost_at i rm \<Longrightarrow> j \<noteq> i" by (auto simp: ghost_at_def)
  then show "ghost_at i rm \<Longrightarrow> GetRoom R rm j = (rm', x) \<Longrightarrow> ghost_at i rm'"
    using None by (auto simp: GetRoom_def ghost_put split: option.splits)
qed (auto simp: GetRoom_def)

lemma ghost_removeRooms:
  "i \<notin> set ks \<Longrightarrow> ghost_at i rm \<Longrightarrow> ghost_at i (foldl (removeRoom R) rm ks)"
  by (induction ks arbitrary: rm) (auto simp: ghost_at_def removeRoom_def AList.delete_conv')

lemma ghost_step:
  assumes g: "ghost_at i rm" and d: "distinct (map fst (rooms rm))" and h: "harmless i op"
  shows "ghost_at i (roomStep R rm (now, op))"
proof (cases op)
  case (OpCreate j name c m pw)
  have "j \<noteq> i" if "map_of (rooms rm) j = None" using g that by (auto simp: ghost_at_def)
  with g OpCreate show ?thesis
    by (auto simp: CreateRoom_def Let_def ghost_save ghost_at_def putRoom_def AList.update_conv' saveRoomToRedis_def)
next
  case (OpGet j)
  with g show ?thesis by (cases "GetRoom R rm j") (simp add: ghost_get)
next
  case (OpJoin j c pw)
  obtain rm1 x where gr: "GetRoom R rm j = (rm1, x)" by (cases "GetRoom R rm j")
  have g1: "ghost_at i rm1" by (rule ghost_get [OF g gr])
  show ?thesis
  proof (cases "j = i")
    case True
    from g obtain r where r: "map_of (rooms rm) i = Some r" "ghost r" by (auto simp: ghost_at_def)
    then have "rm1 = rm" "x = Some r" using gr True by (auto simp: GetRoom_def)
    with r g OpJoin gr True show ?thesis by (auto simp: JoinRoom_def ghost_def)
  next
    case False
    with g1 OpJoin gr show ?thesis
      by (auto simp: JoinRoom_def Let_def ghost_save ghost_put split: option.split)
  qed
next
  case (OpLeave j c)
  obtain rm1 x where gr: "GetRoom R rm j = (rm1, x)" by (cases "GetRoom R rm j")
  have g1: "ghost_at i rm1" by (rule ghost_get [OF g gr])
  show ?thesis
  proof (cases "j = i")
    case True
    from g obtain r where r: "map_of (rooms rm) i = Some r" "ghost r" by (auto simp: ghost_at_def)
    then have "rm1 = rm" "x = Some r" using gr True by (auto simp: GetRoom_def)
    with r g OpLeave gr True show ?thesis by (auto simp: LeaveRoom_def ghost_def)
  next
    case False
    with g1 OpLeave gr show ?thesis
      by (auto simp: LeaveRoom_def Let_def ghost_save ghost_put split: option.split)
  qed
next
  case (OpClose j c)
  obtain rm1 x where gr: "GetRoom R rm j = (rm1, x)" by (cases "GetRoom R rm j")
  have g1: "ghost_at i rm1" by (rule ghost_get [OF g gr])
  from h OpClose have "j \<noteq> i" by auto
  with g1 OpClose gr show ?thesis
    by (auto simp: CloseRoom_def Let_def ghost_save ghost_put split: option.split)
next
  case OpCleanup
  from g obtain r where r: "map_of (rooms rm) i = Some r" "ghost r" by (auto simp: ghost_at_def)
  have "i \<notin> set (map fst (filter (\<lambda>(_, r). removable now r) (rooms rm)))"
  proof
    assume "i \<in> set (map fst (filter (\<lambda>(_, r). removable now r) (rooms rm)))"
    then obtain q where q: "(i, q) \<in> set (rooms rm)" "removable now q" by auto
    with d r have "q = r" by simp
    with q(2) r(2) show False by (simp add: removable_def ghost_def)
  qed
  from ghost_removeRooms [OF this g] OpCleanup show ?thesis by (simp add: CleanupEmptyRooms_def Let_def)
qed

lemma put_distinct: "distinct (map fst (rooms rm)) \<Longrightarrow> distinct (map fst (rooms (putRoom i r rm)))"
  by (simp add: putRoom_def AList.distinct_update)

lemma save_rooms [simp]: "rooms (saveRoomToRedis R rm r) = rooms rm"
  by (simp add: saveRoomToRedis_def)

lemma get_distinct: "distinct (map fst (rooms rm)) \<Longrightarrow> distinct (map fst (rooms (fst (GetRoom R rm i))))"
  by (auto simp: GetRoom_def put_distinct split: option.split)

lemma removeRooms_distinct:
  "distinct (map fst (rooms rm)) \<Longrightarrow> distinct (map fst (rooms (foldl (removeRoom R) rm ks)))"
  by (induction ks arbitrary: rm) (simp_all add: removeRoom_def delete_keys)

lemma step_distinct:
  assumes d: "distinct (map fst (rooms rm))"
  shows "distinct (map fst (rooms (roomStep R rm (now, op))))"
proof -
  note g = get_distinct [OF d]
  show ?thesis
  proof (cases op)
    case (OpCreate i name c m pw)
    with d show ?thesis by (auto simp: CreateRoom_def Let_def putRoom_def AList.distinct_update)
  next
    case (OpGet i)
    with g show ?thesis by simp
  next
    case (OpJoin i c pw)
    with g [of R i] show ?thesis
      by (cases "GetRoom R rm i") (auto simp: JoinRoom_def Let_def put_distinct split: option.split)
  next
    case (OpLeave i c)
    with g [of R i] show ?thesis
      by (cases "GetRoom R rm i") (auto simp: LeaveRoom_def Let_def put_distinct split: option.split)
  next
    case (OpClose i c)
    with g [of R i] show ?thesis
      by (cases "GetRoom R rm i") (auto simp: CloseRoom_def Let_def put_distinct split: option.split)
  next
    case OpCleanup
    with d show ?thesis by (simp add: CleanupEmptyRooms_def Let_def removeRooms_distinct)
  qed
qed

lemma ghost_run:
  "ghost_at i rm \<Longrightarrow> distinct (map fst (rooms rm)) \<Longrightarrow> \<forall>x\<in>set ops. harmless i (snd x) \<Longrightarrow> ghost_at i (roomRun R rm ops)"
proof (induction ops arbitrary: rm)
  case (Cons x ops)
  obtain now op where x: "x = (now, op)" by (cases x)
  have "ghost_at i (roomStep R rm x)" "distinct (map fst (rooms (roomStep R rm x)))"
    using ghost_step [OF Cons.prems(1,2)] step_distinct [OF Cons.prems(2)] Cons.prems(3) x by simp_all
  with Cons.IH [of "roomStep R rm x"] Cons.prems(3) show ?case by (simp add: roomRun_def)
qed (simp add: roomRun_def)

text \<open>C22: a room that was full is lost by a restart: read back from Redis it is still full but has no
  members, and from then on, whatever is done short of closing it, every join is refused as full, every
  leave as not a member, and the clean-up never removes it.\<close>

theorem reloaded_full_room_is_stuck:
  assumes "rget R r i = Some x" "Status x = RoomStatusFull" "MemberCount x \<noteq> 0"
    "\<forall>y\<in>set ops. harmless i (snd y)"
    "rm = roomRun R (fst (GetRoom R (NewRoomManager limit r) i)) ops"
  shows "snd (JoinRoom R now rm i c pw) = Inl (RoomFull i) \<and> snd (LeaveRoom R now rm i c) = Inl (NotInRoom c)
    \<and> map_of (rooms (CleanupEmptyRooms R now rm)) i \<noteq> None"
proof -
  let ?rm0 = "fst (GetRoom R (NewRoomManager limit r) i)"
  have "ghost_at i ?rm0" "distinct (map fst (rooms ?rm0))"
    using assms(1-3)
    by (simp_all add: ghost_at_def ghost_def GetRoom_def NewRoomManager_def loadRoomFromRedis_def putRoom_def exported_def)
  then have g: "ghost_at i rm" and g': "ghost_at i (roomRun R ?rm0 (ops @ [(now, OpCleanup)]))"
    using ghost_run [of i ?rm0 ops R] ghost_run [of i ?rm0 "ops @ [(now, OpCleanup)]" R] assms(4,5) by auto
  from g' have "map_of (rooms (CleanupEmptyRooms R now rm)) i \<noteq> None"
    using assms(5) by (auto simp: ghost_at_def roomRun_def)
  moreover from g obtain q where "map_of (rooms rm) i = Some q" "ghost q" by (auto simp: ghost_at_def)
  then have "snd (JoinRoom R now rm i c pw) = Inl (RoomFull i)" "snd (LeaveRoom R now rm i c) = Inl (NotInRoom c)"
    by (simp_all add: JoinRoom_def LeaveRoom_def GetRoom_def ghost_def)
  ultimately show ?thesis by blast
qed

theorem reloaded_full_room_is_stuck_witness:
  "let r = redis (roomRun listRedis (NewRoomManager 10 []) twoMembers);
       rm = roomRun listRedis (fst (GetRoom listRedis (NewRoomManager 10 r) 7)) [(50, OpLeave 7 ''a''), (60, OpCleanup)]
   in snd (JoinRoom listRedis 70 rm 7 ''a'' []) = Inl (RoomFull 7)"
proof -
  let ?r = "redis (roomRun listRedis (NewRoomManager 10 []) twoMembers)"
  have "\<exists>x. rget listRedis ?r 7 = Some x \<and> Status x = RoomStatusFull \<and> MemberCount x = 2"
    by (simp add: room_eval twoMembers_def word_le_nat_alt)
  then obtain x where x: "rget listRedis ?r 7 = Some x" "Status x = RoomStatusFull" "MemberCount x \<noteq> 0" by auto
  from reloaded_full_room_is_stuck [OF x _ refl, of "[(50, OpLeave 7 ''a''), (60, OpCleanup)]"]
  show ?thesis by (simp add: Let_def)
qed

end
