(* ===== verification/ClientReliability.thy ===== *)
theory ClientReliability
  imports Envelope "HOL-Library.AList"
begin

text \<open>
  \<^verbatim>\<open>client/reliability.go\<close>: the client keeps every sent message until the server confirms it,
  retries it, and asks for it with a fetch request before giving up.  The server's acknowledgements
  carry only a room, so the manager keeps the order of sending per room and confirms the head of the
  queue.  A method is one transition; timers that are set, stopped, data that is sent and the calls of
  the event handler are recorded in \<open>trace\<close>.  The client's connections are a parameter: a record of
  operations on a state of their own.  A Go mutex is not reentrant: a goroutine that locks a mutex it
  holds is blocked for ever, which is the value \<open>BlockedForever\<close>.
\<close>

section \<open>State\<close>

record pending_message =
  pEnvelope :: envelope
  pData :: bytes
  sentTime :: int
  retries :: int
  hasTimer :: bool

datatype rm_error =
    SendHeartbeatFailed | SendFailed | AllConnectionsFailed | NoConnectionForFetch | CreateFetchFailed
  | SerializeFetchFailed | SendFetchFailed | FetchTimeout | NotFoundOnServer

datatype rm_event =
    Transmit bytes
  | OnMessageSent envelope
  | OnMessageDelivered envelope
  | OnMessageFailed envelope rm_error
  | SetTimeout string
  | SetFetchTimeout string
  | StopTimer string

text \<open>The client's connections: sending on the active one, switching to the next available one, and
  building the data of a fetch request for a message id at a time.\<close>

record 'n Net =
  nsend :: "'n \<Rightarrow> bytes \<Rightarrow> 'n \<times> bool"
  nswitch :: "'n \<Rightarrow> 'n \<times> bool"
  nfetch :: "'n \<Rightarrow> bytes \<Rightarrow> int \<Rightarrow> 'n \<times> (rm_error + bytes)"

text \<open>A missing entry of the two maps of rooms is the empty queue and the empty string, as in Go.\<close>

record 'n reliability =
  pendingMessages :: "(string \<times> pending_message) list"
  roomPendingQueues :: "u32 \<Rightarrow> string list"
  allocateQueue :: "string list"
  roomFetchPending :: "u32 \<Rightarrow> string"
  totalRetries :: i64
  totalFetches :: i64
  MaxRetries :: int
  hasHandler :: bool
  net :: 'n
  trace :: "rm_event list"

datatype progress = Finished | BlockedForever

definition NewReliabilityManager :: "int \<Rightarrow> bool \<Rightarrow> 'n \<Rightarrow> 'n reliability" where
  "NewReliabilityManager limit handler n =
     \<lparr>pendingMessages = [], roomPendingQueues = (\<lambda>_. []), allocateQueue = [], roomFetchPending = (\<lambda>_. []),
      totalRetries = 0, totalFetches = 0, MaxRetries = limit, hasHandler = handler, net = n, trace = []\<rparr>"

definition emit :: "rm_event \<Rightarrow> 'n reliability \<Rightarrow> 'n reliability" where
  "emit ev rm = rm\<lparr>trace := trace rm @ [ev]\<rparr>"

text \<open>A call of the event handler, if there is one.\<close>

definition notify :: "rm_event \<Rightarrow> 'n reliability \<Rightarrow> 'n reliability" where
  "notify ev rm = (if hasHandler rm then emit ev rm else rm)"

definition sendToActiveConnection :: "'n Net \<Rightarrow> 'n reliability \<Rightarrow> bytes \<Rightarrow> 'n reliability \<times> bool" where
  "sendToActiveConnection N rm data =
     (let (n, sent) = nsend N (net rm) data
      in ((if sent then emit (Transmit data) else id) (rm\<lparr>net := n\<rparr>), sent))"

definition switchConnection :: "'n Net \<Rightarrow> 'n reliability \<Rightarrow> 'n reliability \<times> bool" where
  "switchConnection N rm = (let (n, r) = nswitch N (net rm) in (rm\<lparr>net := n\<rparr>, r))"

section \<open>Keys and rooms\<close>

definition getMessageKey :: "envelope \<Rightarrow> string" where
  "getMessageKey e = hex_string (MessageId e)"

definition idRoom :: "envelope \<Rightarrow> u32 option" where
  "idRoom e = (case FromBytes (MessageId e) of Inl _ \<Rightarrow> None | Inr gid \<Rightarrow> Some (ExtractRoomID gid))"

definition getEnvelopeRoom :: "envelope \<Rightarrow> u32 option" where
  "getEnvelopeRoom e =
     (case Message e of
        Some (CreateRoom m) \<Rightarrow> Some (ucast (cr_room_id m))
      | Some (JoinRoom _) \<Rightarrow> idRoom e
      | Some LeaveRoom \<Rightarrow> idRoom e
      | Some CloseRoom \<Rightarrow> idRoom e
      | Some (ChatMessage _) \<Rightarrow> idRoom e
      | _ \<Rightarrow> None)"

definition isACKMessage :: "envelope \<Rightarrow> bool" where
  "isACKMessage e =
     (case Message e of
        Some (AllocateRoomIdAck _ _ _) \<Rightarrow> True | Some (CreateRoomAck _ _ _ _) \<Rightarrow> True
      | Some (JoinRoomAck _ _ _ _ _) \<Rightarrow> True | Some (LeaveRoomAck _ _ _) \<Rightarrow> True
      | Some (CloseRoomAck _ _ _) \<Rightarrow> True | Some (ChatMessageAck _ _ _) \<Rightarrow> True
      | Some (MessageFetchResponse _) \<Rightarrow> True | Some (RoomMessageFetchResponse _) \<Rightarrow> True
      | Some (HeartbeatAck _ _) \<Rightarrow> True
      | _ \<Rightarrow> False)"

section \<open>The queues\<close>

definition enqueueForACKMatching :: "envelope \<Rightarrow> string \<Rightarrow> 'n reliability \<Rightarrow> 'n reliability" where
  "enqueueForACKMatching e key rm =
     (case Message e of
        Some AllocateRoomId \<Rightarrow> rm\<lparr>allocateQueue := allocateQueue rm @ [key]\<rparr>
      | Some (RoomMessageFetchRequest _) \<Rightarrow>
          (case idRoom e of
             Some r \<Rightarrow> rm\<lparr>roomFetchPending := (roomFetchPending rm)(r := key)\<rparr>
           | None \<Rightarrow> rm)
      | _ \<Rightarrow>
          (case getEnvelopeRoom e of
             Some r \<Rightarrow> rm\<lparr>roomPendingQueues := (roomPendingQueues rm)(r := roomPendingQueues rm r @ [key])\<rparr>
           | None \<Rightarrow> rm))"

definition dequeue :: "envelope \<Rightarrow> string \<Rightarrow> 'n reliability \<Rightarrow> 'n reliability" where
  "dequeue e key rm =
     (case Message e of
        Some AllocateRoomId \<Rightarrow> rm\<lparr>allocateQueue := remove1 key (allocateQueue rm)\<rparr>
      | Some (RoomMessageFetchRequest _) \<Rightarrow>
          (case idRoom e of
             Some r \<Rightarrow> if roomFetchPending rm r = key
                       then rm\<lparr>roomFetchPending := (roomFetchPending rm)(r := [])\<rparr> else rm
           | None \<Rightarrow> rm)
      | _ \<Rightarrow>
          (case getEnvelopeRoom e of
             Some r \<Rightarrow> rm\<lparr>roomPendingQueues := (roomPendingQueues rm)(r := remove1 key (roomPendingQueues rm r))\<rparr>
           | None \<Rightarrow> rm))"

definition removePendingMessage :: "'n reliability \<Rightarrow> string \<Rightarrow> 'n reliability \<times> pending_message option" where
  "removePendingMessage rm key =
     (case map_of (pendingMessages rm) key of
        None \<Rightarrow> (rm, None)
      | Some p \<Rightarrow>
          (dequeue (pEnvelope p) key (rm\<lparr>pendingMessages := AList.delete key (pendingMessages rm)\<rparr>), Some p))"

section \<open>Sending, confirming, failing\<close>

definition stopTimer :: "pending_message \<Rightarrow> string \<Rightarrow> 'n reliability \<Rightarrow> 'n reliability" where
  "stopTimer p key rm = (if hasTimer p then emit (StopTimer key) rm else rm)"

definition setPending :: "string \<Rightarrow> pending_message \<Rightarrow> 'n reliability \<Rightarrow> 'n reliability" where
  "setPending key p rm = rm\<lparr>pendingMessages := AList.update key p (pendingMessages rm)\<rparr>"

definition SendMessage :: "'n Net \<Rightarrow> int \<Rightarrow> 'n reliability \<Rightarrow> envelope \<Rightarrow> bytes \<Rightarrow> 'n reliability \<times> (rm_error + unit)" where
  "SendMessage N now rm e data =
     (case Message e of
        Some (Heartbeat _) \<Rightarrow>
          (let (rm1, sent) = sendToActiveConnection N rm data
           in (rm1, if sent then Inr () else Inl SendHeartbeatFailed))
      | _ \<Rightarrow>
          (let key = getMessageKey e;
               p = \<lparr>pEnvelope = e, pData = data, sentTime = now, retries = 0, hasTimer = False\<rparr>;
               rm1 = enqueueForACKMatching e key (setPending key p rm);
               (rm2, sent) = sendToActiveConnection N rm1 data
           in if \<not> sent then (fst (removePendingMessage rm2 key), Inl SendFailed)
              else let rm3 = emit (SetTimeout key) (setPending key (p\<lparr>hasTimer := True\<rparr>) rm2)
                   in (notify (OnMessageSent e) rm3, Inr ())))"

definition confirmMessage :: "pending_message \<Rightarrow> string \<Rightarrow> 'n reliability \<Rightarrow> 'n reliability" where
  "confirmMessage p key rm = notify (OnMessageDelivered (pEnvelope p)) (stopTimer p key rm)"

definition removeAndConfirm :: "'n reliability \<Rightarrow> string \<Rightarrow> 'n reliability" where
  "removeAndConfirm rm key =
     (case removePendingMessage rm key of
        (rm1, None) \<Rightarrow> rm1
      | (rm1, Some p) \<Rightarrow> confirmMessage p key rm1)"

text \<open>
  \<open>held\<close>: the calling goroutine holds the mutex of the pending message, which
  \<^verbatim>\<open>handleMessageFailure\<close> locks after it has removed the message.
\<close>

definition handleMessageFailure :: "bool \<Rightarrow> 'n reliability \<Rightarrow> string \<Rightarrow> rm_error \<Rightarrow> 'n reliability \<times> progress" where
  "handleMessageFailure held rm key err =
     (case removePendingMessage rm key of
        (rm1, None) \<Rightarrow> (rm1, Finished)
      | (rm1, Some p) \<Rightarrow>
          if held then (rm1, BlockedForever)
          else (notify (OnMessageFailed (pEnvelope p) err) (stopTimer p key rm1), Finished))"

text \<open>Called with the mutex of the pending message held.\<close>

definition attemptFetchConfirmation ::
  "'n Net \<Rightarrow> int \<Rightarrow> 'n reliability \<Rightarrow> string \<Rightarrow> pending_message \<Rightarrow> 'n reliability \<times> progress" where
  "attemptFetchConfirmation N now rm key p =
     (let rm0 = rm\<lparr>totalFetches := totalFetches rm + 1\<rparr>;
          (rm1, switched) = switchConnection N rm0
      in if \<not> switched then handleMessageFailure True rm1 key NoConnectionForFetch
         else case nfetch N (net rm1) (MessageId (pEnvelope p)) now of
                (n, Inl err) \<Rightarrow> handleMessageFailure True (rm1\<lparr>net := n\<rparr>) key err
              | (n, Inr fetchData) \<Rightarrow>
                  (let (rm2, sent) = sendToActiveConnection N (rm1\<lparr>net := n\<rparr>) fetchData
                   in if \<not> sent then handleMessageFailure True rm2 key SendFetchFailed
                      else (emit (SetFetchTimeout key) (setPending key (p\<lparr>hasTimer := True\<rparr>) rm2), Finished)))"

definition handleMessageTimeout :: "'n Net \<Rightarrow> int \<Rightarrow> 'n reliability \<Rightarrow> string \<Rightarrow> 'n reliability \<times> progress" where
  "handleMessageTimeout N now rm key =
     (case map_of (pendingMessages rm) key of
        None \<Rightarrow> (rm, Finished)
      | Some p0 \<Rightarrow>
          let p = p0\<lparr>retries := retries p0 + 1\<rparr>;
              rm1 = (setPending key p rm)\<lparr>totalRetries := totalRetries rm + 1\<rparr>
          in if retries p \<le> MaxRetries rm1 then
               let (rm2, sent) = sendToActiveConnection N rm1 (pData p);
                   (rm3, going) = (if sent then (rm2, True) else switchConnection N rm2)
               in if going
                  then (emit (SetTimeout key) (setPending key (p\<lparr>hasTimer := True\<rparr>) (stopTimer p key rm3)), Finished)
                  else handleMessageFailure True rm3 key AllConnectionsFailed
             else attemptFetchConfirmation N now rm1 key p)"

definition handleFetchTimeout :: "'n reliability \<Rightarrow> string \<Rightarrow> 'n reliability \<times> progress" where
  "handleFetchTimeout rm key = handleMessageFailure False rm key FetchTimeout"

section \<open>Acknowledgements\<close>

definition handleMessageFetchResponse :: "'n reliability \<Rightarrow> MessageFetchResponseMsg \<Rightarrow> 'n reliability \<times> progress" where
  "handleMessageFetchResponse rm response =
     (let key = hex_string (mfs_message_id response)
      in case map_of (pendingMessages rm) key of
           None \<Rightarrow> (rm, Finished)
         | Some p \<Rightarrow>
             if mfs_exists response then (confirmMessage p key (fst (removePendingMessage rm key)), Finished)
             else handleMessageFailure False rm key NotFoundOnServer)"

definition handleRoomFetchResponse :: "'n reliability \<Rightarrow> RoomMessageFetchResponseMsg \<Rightarrow> 'n reliability" where
  "handleRoomFetchResponse rm response =
     (let r = ucast (rfs_room_id response) :: u32;
          key = roomFetchPending rm r;
          rm1 = rm\<lparr>roomFetchPending := (roomFetchPending rm)(r := [])\<rparr>
      in if key = [] then rm1 else removeAndConfirm rm1 key)"

text \<open>The room of a room acknowledgement.\<close>

definition ackRoom :: "envelope \<Rightarrow> u32 option" where
  "ackRoom e =
     (case Message e of
        Some (CreateRoomAck r _ _ _) \<Rightarrow> Some (ucast r)
      | Some (JoinRoomAck r _ _ _ _) \<Rightarrow> Some (ucast r)
      | Some (LeaveRoomAck r _ _) \<Rightarrow> Some (ucast r)
      | Some (CloseRoomAck r _ _) \<Rightarrow> Some (ucast r)
      | Some (ChatMessageAck r _ _) \<Rightarrow> Some (ucast r)
      | _ \<Rightarrow> None)"

text \<open>The empty string is the key of an acknowledgement that matches nothing.\<close>

definition getOriginalMessageKey :: "'n reliability \<Rightarrow> envelope \<Rightarrow> 'n reliability \<times> string" where
  "getOriginalMessageKey rm e =
     (case Message e of
        Some (AllocateRoomIdAck _ _ _) \<Rightarrow>
          (case allocateQueue rm of
             [] \<Rightarrow> (rm, [])
           | key # keys \<Rightarrow> (rm\<lparr>allocateQueue := keys\<rparr>, key))
      | Some (HeartbeatAck _ _) \<Rightarrow> (rm, [])
      | _ \<Rightarrow>
          (case ackRoom e of
             None \<Rightarrow> (rm, hex_string (MessageId e))
           | Some r \<Rightarrow> (case roomPendingQueues rm r of [] \<Rightarrow> (rm, []) | key # _ \<Rightarrow> (rm, key))))"

text \<open>\<^verbatim>\<open>HandleACK\<close>: the new state, whether the message was one, and the progress.\<close>

definition HandleACK :: "'n reliability \<Rightarrow> envelope \<Rightarrow> 'n reliability \<times> bool \<times> progress" where
  "HandleACK rm e =
     (if \<not> isACKMessage e then (rm, False, Finished)
      else case Message e of
             Some (MessageFetchResponse resp) \<Rightarrow>
               (let (rm1, pr) = handleMessageFetchResponse rm resp in (rm1, True, pr))
           | Some (RoomMessageFetchResponse resp) \<Rightarrow> (handleRoomFetchResponse rm resp, True, Finished)
           | _ \<Rightarrow>
               (let (rm1, key) = getOriginalMessageKey rm e
                in if key = [] then (rm1, True, Finished) else (removeAndConfirm rm1 key, True, Finished)))"

definition HandleFetchResponse :: "'n reliability \<Rightarrow> envelope \<Rightarrow> 'n reliability \<times> progress" where
  "HandleFetchResponse rm e =
     (case Message e of Some (MessageFetchResponse resp) \<Rightarrow> handleMessageFetchResponse rm resp | _ \<Rightarrow> (rm, Finished))"

definition GetStats :: "'n reliability \<Rightarrow> i64 \<times> i64 \<times> nat" where
  "GetStats rm = (totalRetries rm, totalFetches rm, length (pendingMessages rm))"

text \<open>\<^verbatim>\<open>5 * time.Minute\<close> in nanoseconds\<close>

definition maxAge :: int where "maxAge = 5 * 60 * 1000000000"

definition cleanup :: "int \<Rightarrow> 'n reliability \<Rightarrow> 'n reliability" where
  "cleanup now rm =
     (let expired = map fst (filter (\<lambda>(_, p). now - sentTime p > maxAge) (pendingMessages rm))
      in foldl (\<lambda>m key. fst (removePendingMessage m key)) rm expired)"

section \<open>Consistency of the queues\<close>

text \<open>How a message is matched with its acknowledgement.\<close>

datatype match_class = MAlloc | MFetch u32 | MRoom u32 | MNone

definition classOf :: "envelope \<Rightarrow> match_class" where
  "classOf e =
     (case Message e of
        Some AllocateRoomId \<Rightarrow> MAlloc
      | Some (RoomMessageFetchRequest _) \<Rightarrow> (case idRoom e of Some r \<Rightarrow> MFetch r | None \<Rightarrow> MNone)
      | _ \<Rightarrow> (case getEnvelopeRoom e of Some r \<Rightarrow> MRoom r | None \<Rightarrow> MNone))"

lemma enqueue_class:
  "enqueueForACKMatching e key rm =
     (case classOf e of
        MAlloc \<Rightarrow> rm\<lparr>allocateQueue := allocateQueue rm @ [key]\<rparr>
      | MFetch r \<Rightarrow> rm\<lparr>roomFetchPending := (roomFetchPending rm)(r := key)\<rparr>
      | MRoom r \<Rightarrow> rm\<lparr>roomPendingQueues := (roomPendingQueues rm)(r := roomPendingQueues rm r @ [key])\<rparr>
      | MNone \<Rightarrow> rm)"
proof (cases "Message e")
  case (Some m)
  then show ?thesis
    by (cases m) (auto simp: enqueueForACKMatching_def classOf_def getEnvelopeRoom_def split: option.split)
qed (simp add: enqueueForACKMatching_def classOf_def getEnvelopeRoom_def)

lemma dequeue_class:
  "dequeue e key rm =
     (case classOf e of
        MAlloc \<Rightarrow> rm\<lparr>allocateQueue := remove1 key (allocateQueue rm)\<rparr>
      | MFetch r \<Rightarrow> if roomFetchPending rm r = key
                   then rm\<lparr>roomFetchPending := (roomFetchPending rm)(r := [])\<rparr> else rm
      | MRoom r \<Rightarrow> rm\<lparr>roomPendingQueues := (roomPendingQueues rm)(r := remove1 key (roomPendingQueues rm r))\<rparr>
      | MNone \<Rightarrow> rm)"
proof (cases "Message e")
  case (Some m)
  then show ?thesis
    by (cases m) (auto simp: dequeue_def classOf_def getEnvelopeRoom_def split: option.split)
qed (simp add: dequeue_def classOf_def getEnvelopeRoom_def)

definition keysIn :: "(string \<times> pending_message) list \<Rightarrow> match_class \<Rightarrow> string set" where
  "keysIn ps c = {k. \<exists>p. map_of ps k = Some p \<and> classOf (pEnvelope p) = c}"

definition queues_ok :: "'n reliability \<Rightarrow> bool" where
  "queues_ok rm \<longleftrightarrow>
     distinct (map fst (pendingMessages rm)) \<and> map_of (pendingMessages rm) [] = None \<and>
     (\<forall>r. distinct (roomPendingQueues rm r) \<and> set (roomPendingQueues rm r) = keysIn (pendingMessages rm) (MRoom r)) \<and>
     distinct (allocateQueue rm) \<and> set (allocateQueue rm) = keysIn (pendingMessages rm) MAlloc \<and>
     (\<forall>r. roomFetchPending rm r \<noteq> [] \<longrightarrow> roomFetchPending rm r \<in> keysIn (pendingMessages rm) (MFetch r))"

text \<open>The part of the state the queues live in.\<close>

definition same_queues :: "'n reliability \<Rightarrow> 'm reliability \<Rightarrow> bool" where
  "same_queues rm rm' \<longleftrightarrow>
     pendingMessages rm' = pendingMessages rm \<and> roomPendingQueues rm' = roomPendingQueues rm \<and>
     allocateQueue rm' = allocateQueue rm \<and> roomFetchPending rm' = roomFetchPending rm"

lemma queues_ok_cong: "same_queues rm rm' \<Longrightarrow> queues_ok rm' = queues_ok rm"
  by (simp add: same_queues_def queues_ok_def)

lemma same_queues_effects [simp]:
  "same_queues rm (emit ev rm)" "same_queues rm (notify ev rm)" "same_queues rm (stopTimer p key rm)"
  "same_queues rm (confirmMessage p key rm)"
  by (simp_all add: same_queues_def emit_def notify_def stopTimer_def confirmMessage_def)

lemma queues_ok_effects [simp]:
  "queues_ok (emit ev rm) = queues_ok rm" "queues_ok (notify ev rm) = queues_ok rm"
  "queues_ok (stopTimer p key rm) = queues_ok rm" "queues_ok (confirmMessage p key rm) = queues_ok rm"
  "queues_ok (rm\<lparr>net := n\<rparr>) = queues_ok rm" "queues_ok (rm\<lparr>totalRetries := x\<rparr>) = queues_ok rm"
  "queues_ok (rm\<lparr>totalFetches := x\<rparr>) = queues_ok rm"
  by (simp_all only: queues_ok_cong [OF same_queues_effects(1)] queues_ok_cong [OF same_queues_effects(2)]
      queues_ok_cong [OF same_queues_effects(3)] queues_ok_cong [OF same_queues_effects(4)])
    (simp_all add: queues_ok_def)

lemma same_queues_send: "sendToActiveConnection N rm d = (rm', sent) \<Longrightarrow> same_queues rm rm'"
  by (auto simp: sendToActiveConnection_def same_queues_def emit_def split: prod.splits if_splits)

lemma same_queues_switch: "switchConnection N rm = (rm', r) \<Longrightarrow> same_queues rm rm'"
  by (auto simp: switchConnection_def same_queues_def split: prod.splits)

lemma keysIn_delete: "keysIn (AList.delete k ps) c = keysIn ps c - {k}"
  by (auto simp: keysIn_def AList.delete_conv' split: if_splits)

lemma keysIn_update_new:
  "map_of ps k = None \<Longrightarrow> keysIn (AList.update k p ps) c = (if classOf (pEnvelope p) = c then insert k (keysIn ps c) else keysIn ps c)"
  by (auto simp: keysIn_def AList.update_conv' split: if_splits)

lemma keysIn_update_same:
  "map_of ps k = Some q \<Longrightarrow> pEnvelope p = pEnvelope q \<Longrightarrow> keysIn (AList.update k p ps) c = keysIn ps c"
  by (auto simp: keysIn_def AList.update_conv' split: if_splits)

lemma keysIn_class: "map_of ps k = Some p \<Longrightarrow> k \<in> keysIn ps c \<longleftrightarrow> classOf (pEnvelope p) = c"
  by (simp add: keysIn_def)

lemma queues_ok_remove:
  assumes "queues_ok rm"
  shows "queues_ok (fst (removePendingMessage rm k))"
proof (cases "map_of (pendingMessages rm) k")
  case (Some p)
  let ?ps = "pendingMessages rm"
  have d: "distinct (map fst (AList.delete k ?ps))" "map_of (AList.delete k ?ps) [] = None"
    using assms by (simp_all add: queues_ok_def AList.distinct_delete AList.delete_conv')
  have rq: "distinct (roomPendingQueues rm r)" "set (roomPendingQueues rm r) = keysIn ?ps (MRoom r)" for r
    using assms by (simp_all add: queues_ok_def)
  have aq: "distinct (allocateQueue rm)" "set (allocateQueue rm) = keysIn ?ps MAlloc"
    using assms by (simp_all add: queues_ok_def)
  have fq: "roomFetchPending rm r \<noteq> [] \<Longrightarrow> roomFetchPending rm r \<in> keysIn ?ps (MFetch r)" for r
    using assms by (simp add: queues_ok_def)
  note kc = keysIn_class [OF Some]
  show ?thesis
  proof (cases "classOf (pEnvelope p)")
    case MAlloc
    then have "keysIn ?ps (MRoom r) - {k} = keysIn ?ps (MRoom r)" "k \<notin> keysIn ?ps (MFetch r)" for r
      using kc by auto
    with MAlloc Some d rq aq fq show ?thesis
      by (auto simp: removePendingMessage_def dequeue_class queues_ok_def keysIn_delete set_remove1_eq)
  next
    case (MFetch f)
    then have "keysIn ?ps (MRoom r) - {k} = keysIn ?ps (MRoom r)" "keysIn ?ps MAlloc - {k} = keysIn ?ps MAlloc"
      and nk: "r \<noteq> f \<Longrightarrow> k \<notin> keysIn ?ps (MFetch r)" for r
      using kc by auto
    moreover have "r \<noteq> f \<Longrightarrow> roomFetchPending rm r \<noteq> [] \<Longrightarrow> roomFetchPending rm r \<noteq> k" for r
      using fq [of r] nk [of r] by metis
    then have "roomFetchPending rm f \<noteq> k \<Longrightarrow> roomFetchPending rm r \<noteq> [] \<Longrightarrow> roomFetchPending rm r \<noteq> k"
      "r \<noteq> f \<Longrightarrow> roomFetchPending rm r \<noteq> [] \<Longrightarrow> roomFetchPending rm r \<noteq> k" for r
      by (cases "r = f"; blast)+
    ultimately show ?thesis using MFetch Some d rq aq fq
      by (simp add: removePendingMessage_def dequeue_class queues_ok_def keysIn_delete)
  next
    case (MRoom f)
    then have "keysIn ?ps MAlloc - {k} = keysIn ?ps MAlloc" "k \<notin> keysIn ?ps (MFetch r)"
      "r \<noteq> f \<Longrightarrow> keysIn ?ps (MRoom r) - {k} = keysIn ?ps (MRoom r)" for r
      using kc by auto
    with MRoom Some d rq aq fq show ?thesis
      by (auto simp: removePendingMessage_def dequeue_class queues_ok_def keysIn_delete set_remove1_eq)
  next
    case MNone
    then have "keysIn ?ps c - {k} = keysIn ?ps c" if "c \<noteq> MNone" for c
      using kc that by auto
    with MNone Some d rq aq fq show ?thesis
      by (simp add: removePendingMessage_def dequeue_class queues_ok_def keysIn_delete)
  qed
qed (use assms in \<open>simp add: removePendingMessage_def\<close>)

lemma queues_ok_enqueue:
  assumes "queues_ok rm" "map_of (pendingMessages rm) k = None" "k \<noteq> []"
  shows "queues_ok (enqueueForACKMatching (pEnvelope p) k (setPending k p rm))"
proof -
  let ?ps = "pendingMessages rm"
  have d: "distinct (map fst (AList.update k p ?ps))" "map_of (AList.update k p ?ps) [] = None"
    using assms by (simp_all add: queues_ok_def AList.distinct_update AList.update_conv')
  note ku = keysIn_update_new [OF assms(2), of p]
  have new: "k \<notin> keysIn ?ps c" for c using assms(2) by (simp add: keysIn_def)
  have "k \<notin> set (roomPendingQueues rm r)" "k \<notin> set (allocateQueue rm)" for r
    using assms(1) new by (simp_all add: queues_ok_def)
  with assms(1) d ku show ?thesis
    by (cases "classOf (pEnvelope p)") (auto simp: enqueue_class setPending_def queues_ok_def)
qed

lemma queues_ok_update:
  assumes "queues_ok rm" "map_of (pendingMessages rm) k = Some q" "pEnvelope p = pEnvelope q"
  shows "queues_ok (setPending k p rm)"
proof -
  have "k \<noteq> []" using assms(1,2) by (auto simp: queues_ok_def)
  then show ?thesis
    using assms(1) keysIn_update_same [OF assms(2,3)]
    by (simp add: setPending_def queues_ok_def AList.distinct_update AList.update_conv')
qed

lemma handleMessageFailure_ok: "queues_ok rm \<Longrightarrow> queues_ok (fst (handleMessageFailure held rm k err))"
  using queues_ok_remove [of rm k] by (auto simp: handleMessageFailure_def split: prod.split option.split)

lemma removeAndConfirm_ok: "queues_ok rm \<Longrightarrow> queues_ok (removeAndConfirm rm k)"
  using queues_ok_remove [of rm k] by (auto simp: removeAndConfirm_def split: prod.split option.split)

lemma attemptFetch_ok:
  assumes "queues_ok rm" "map_of (pendingMessages rm) k = Some q" "pEnvelope p = pEnvelope q"
  shows "queues_ok (fst (attemptFetchConfirmation N now rm k p))"
proof -
  obtain rm1 sw where s: "switchConnection N (rm\<lparr>totalFetches := totalFetches rm + 1\<rparr>) = (rm1, sw)"
    by (cases "switchConnection N (rm\<lparr>totalFetches := totalFetches rm + 1\<rparr>)")
  note same1 = same_queues_switch [OF s]
  have ok1: "queues_ok rm1" using queues_ok_cong [OF same1] assms(1) by simp
  obtain n r where f: "nfetch N (net rm1) (MessageId (pEnvelope p)) now = (n, r)"
    by (cases "nfetch N (net rm1) (MessageId (pEnvelope p)) now")
  show ?thesis
  proof (cases "sw \<and> (\<exists>d. r = Inr d)")
    case False
    with ok1 s f show ?thesis
      by (cases r) (auto simp: attemptFetchConfirmation_def Let_def handleMessageFailure_ok)
  next
    case True
    then obtain d where r: "r = Inr d" "sw" by (cases r) auto
    obtain rm2 sent where t: "sendToActiveConnection N (rm1\<lparr>net := n\<rparr>) d = (rm2, sent)"
      by (cases "sendToActiveConnection N (rm1\<lparr>net := n\<rparr>) d")
    have ok2: "queues_ok rm2" using queues_ok_cong [OF same_queues_send [OF t]] ok1 by simp
    have "map_of (pendingMessages rm2) k = Some q"
      using same_queues_send [OF t] same1 assms(2) by (simp add: same_queues_def)
    from queues_ok_update [OF ok2 this, of "p\<lparr>hasTimer := True\<rparr>"] assms(3)
    have "queues_ok (setPending k (p\<lparr>hasTimer := True\<rparr>) rm2)" by simp
    with ok2 s f r t show ?thesis
      by (auto simp: attemptFetchConfirmation_def Let_def handleMessageFailure_ok)
  qed
qed

lemma handleMessageTimeout_ok:
  assumes ok: "queues_ok rm"
  shows "queues_ok (fst (handleMessageTimeout N now rm k))"
proof (cases "map_of (pendingMessages rm) k")
  case (Some p0)
  define p where "p = p0\<lparr>retries := retries p0 + 1\<rparr>"
  define rm1 where "rm1 = (setPending k p rm)\<lparr>totalRetries := totalRetries rm + 1\<rparr>"
  have e: "pEnvelope p = pEnvelope p0" by (simp add: p_def)
  have ok1: "queues_ok rm1" using queues_ok_update [OF ok Some e] by (simp add: rm1_def)
  have m1: "map_of (pendingMessages rm1) k = Some p" by (simp add: rm1_def setPending_def AList.update_conv')
  obtain rm2 sent where t: "sendToActiveConnection N rm1 (pData p) = (rm2, sent)"
    by (cases "sendToActiveConnection N rm1 (pData p)")
  obtain rm3 going where g: "(if sent then (rm2, True) else switchConnection N rm2) = (rm3, going)"
    by (cases "if sent then (rm2, True) else switchConnection N rm2")
  have "same_queues rm2 rm3" using g by (cases sent) (auto simp: same_queues_def dest: same_queues_switch [unfolded same_queues_def])
  with same_queues_send [OF t] have same: "same_queues rm1 rm3" by (simp add: same_queues_def)
  have ok3: "queues_ok rm3" using queues_ok_cong [OF same] ok1 by simp
  have "map_of (pendingMessages (stopTimer p k rm3)) k = Some p"
    using same m1 by (simp add: same_queues_def stopTimer_def emit_def)
  from queues_ok_update [OF _ this, of "p\<lparr>hasTimer := True\<rparr>"] ok3
  have "queues_ok (setPending k (p\<lparr>hasTimer := True\<rparr>) (stopTimer p k rm3))" by simp
  with ok3 attemptFetch_ok [OF ok1 m1 refl, of N now] Some t g show ?thesis
    unfolding handleMessageTimeout_def Some p_def [symmetric] rm1_def [symmetric] Let_def option.case
    by (simp add: handleMessageFailure_ok)
qed (use ok in \<open>simp add: handleMessageTimeout_def\<close>)

lemma SendMessage_ok:
  assumes ok: "queues_ok rm" and fresh: "map_of (pendingMessages rm) (getMessageKey e) = None" "getMessageKey e \<noteq> []"
  shows "queues_ok (fst (SendMessage N now rm e d))"
proof -
  define k where "k = getMessageKey e"
  define p where "p = \<lparr>pEnvelope = e, pData = d, sentTime = now, retries = 0, hasTimer = False\<rparr>"
  define rm1 where "rm1 = enqueueForACKMatching e k (setPending k p rm)"
  have pe: "pEnvelope p = e" by (simp add: p_def)
  have ok1: "queues_ok rm1" using queues_ok_enqueue [OF ok, of k p] fresh by (simp add: rm1_def k_def pe)
  have m1: "map_of (pendingMessages rm1) k = Some p"
    by (simp add: rm1_def enqueue_class setPending_def AList.update_conv' split: match_class.split)
  obtain rm2 sent where t: "sendToActiveConnection N rm1 d = (rm2, sent)" by (cases "sendToActiveConnection N rm1 d")
  have ok2: "queues_ok rm2" using queues_ok_cong [OF same_queues_send [OF t]] ok1 by simp
  have m2: "map_of (pendingMessages rm2) k = Some p" using same_queues_send [OF t] m1 by (simp add: same_queues_def)
  from queues_ok_update [OF ok2 m2, of "p\<lparr>hasTimer := True\<rparr>"]
  have ok3: "queues_ok (setPending k (p\<lparr>hasTimer := True\<rparr>) rm2)" by simp
  obtain rh sh where h: "sendToActiveConnection N rm d = (rh, sh)" by (cases "sendToActiveConnection N rm d")
  have okh: "queues_ok rh" using queues_ok_cong [OF same_queues_send [OF h]] ok by simp
  have main: "queues_ok (fst (let key = getMessageKey e;
               p = \<lparr>pEnvelope = e, pData = d, sentTime = now, retries = 0, hasTimer = False\<rparr>;
               rm1 = enqueueForACKMatching e key (setPending key p rm);
               (rm2, sent) = sendToActiveConnection N rm1 d
           in if \<not> sent then (fst (removePendingMessage rm2 key), Inl SendFailed)
              else let rm3 = emit (SetTimeout key) (setPending key (p\<lparr>hasTimer := True\<rparr>) rm2)
                   in (notify (OnMessageSent e) rm3, Inr () :: rm_error + unit)))"
    unfolding Let_def k_def [symmetric] p_def [symmetric] rm1_def [symmetric] t
    using ok3 queues_ok_remove [OF ok2] by simp
  show ?thesis
  proof (cases "\<exists>t. Message e = Some (Heartbeat t)")
    case True
    with h okh show ?thesis by (auto simp: SendMessage_def)
  next
    case False
    then show ?thesis
      unfolding SendMessage_def using main by (auto split: option.split message.split)
  qed
qed

lemma HandleACK_plain:
  assumes "queues_ok rm" "isACKMessage e"
    "\<And>x. Message e \<noteq> Some (MessageFetchResponse x)" "\<And>x. Message e \<noteq> Some (RoomMessageFetchResponse x)"
  shows "HandleACK rm e =
    (if snd (getOriginalMessageKey rm e) = [] then fst (getOriginalMessageKey rm e)
     else removeAndConfirm (fst (getOriginalMessageKey rm e)) (snd (getOriginalMessageKey rm e)), True, Finished)"
  using assms(2-4) by (auto simp: HandleACK_def split: option.split message.split prod.split)

lemma alloc_pop:
  assumes ok: "queues_ok rm" and q: "allocateQueue rm = k # ks"
  shows "removeAndConfirm (rm\<lparr>allocateQueue := ks\<rparr>) k = removeAndConfirm rm k"
proof -
  have "k \<in> keysIn (pendingMessages rm) MAlloc" using ok q by (auto simp: queues_ok_def)
  then obtain p where p: "map_of (pendingMessages rm) k = Some p" "classOf (pEnvelope p) = MAlloc"
    by (auto simp: keysIn_def)
  have "k \<notin> set ks" using ok q by (simp add: queues_ok_def)
  then have "removePendingMessage (rm\<lparr>allocateQueue := ks\<rparr>) k = removePendingMessage rm k"
    using p q by (simp add: removePendingMessage_def dequeue_class remove1_idem)
  then show ?thesis by (simp add: removeAndConfirm_def)
qed

lemma roomFetch_pop:
  assumes ok: "queues_ok rm" and k: "roomFetchPending rm r = k" "k \<noteq> []"
  shows "removeAndConfirm (rm\<lparr>roomFetchPending := (roomFetchPending rm)(r := [])\<rparr>) k = removeAndConfirm rm k"
proof -
  have "k \<in> keysIn (pendingMessages rm) (MFetch r)" using ok k by (auto simp: queues_ok_def)
  then obtain p where p: "map_of (pendingMessages rm) k = Some p" "classOf (pEnvelope p) = MFetch r"
    by (auto simp: keysIn_def)
  then have "removePendingMessage (rm\<lparr>roomFetchPending := (roomFetchPending rm)(r := [])\<rparr>) k = removePendingMessage rm k"
    using k by (simp add: removePendingMessage_def dequeue_class)
  then show ?thesis by (simp add: removeAndConfirm_def)
qed

lemma HandleACK_ok:
  assumes ok: "queues_ok rm"
  shows "queues_ok (fst (HandleACK rm e))"
proof (cases "isACKMessage e")
  case ack: True
  consider (fetch) resp where "Message e = Some (MessageFetchResponse resp)"
    | (rfetch) resp where "Message e = Some (RoomMessageFetchResponse resp)"
    | (plain) "\<And>x. Message e \<noteq> Some (MessageFetchResponse x)" "\<And>x. Message e \<noteq> Some (RoomMessageFetchResponse x)"
    by blast
  then show ?thesis
  proof cases
    case fetch
    then show ?thesis
      using queues_ok_remove [OF ok] ok ack
        handleMessageFailure_ok [OF ok, of False "hex_string (mfs_message_id resp)" NotFoundOnServer]
      by (auto simp: HandleACK_def handleMessageFetchResponse_def Let_def split: option.split prod.split)
  next
    case rfetch
    let ?r = "ucast (rfs_room_id resp) :: u32"
    have "rm\<lparr>roomFetchPending := (roomFetchPending rm)(?r := [])\<rparr> = rm" if "roomFetchPending rm ?r = []"
      using that by (simp add: fun_upd_idem)
    then show ?thesis
      using roomFetch_pop [OF ok refl, of ?r] removeAndConfirm_ok [OF ok] ok ack rfetch
      by (auto simp: HandleACK_def handleRoomFetchResponse_def Let_def)
  next
    case plain
    note h = HandleACK_plain [OF ok ack plain]
    show ?thesis
    proof (cases "\<exists>a b c. Message e = Some (AllocateRoomIdAck a b c)")
      case alloc: True
      show ?thesis
      proof (cases "allocateQueue rm")
        case Nil
        with h ok alloc show ?thesis by (auto simp: getOriginalMessageKey_def)
      next
        case (Cons k ks)
        have "k \<in> keysIn (pendingMessages rm) MAlloc" using ok Cons by (auto simp: queues_ok_def)
        then have "queues_ok (removeAndConfirm (rm\<lparr>allocateQueue := ks\<rparr>) k)"
          using alloc_pop [OF ok Cons] removeAndConfirm_ok [OF ok] by simp
        moreover have "k \<noteq> []" using \<open>k \<in> keysIn _ _\<close> ok by (auto simp: keysIn_def queues_ok_def)
        ultimately show ?thesis using h alloc Cons by (auto simp: getOriginalMessageKey_def)
      qed
    next
      case False
      then have "fst (getOriginalMessageKey rm e) = rm"
        by (auto simp: getOriginalMessageKey_def split: option.split message.split list.split)
      with h ok removeAndConfirm_ok [OF ok] show ?thesis by simp
    qed
  qed
qed (use ok in \<open>simp add: HandleACK_def\<close>)

lemma cleanup_ok: "queues_ok rm \<Longrightarrow> queues_ok (cleanup now rm)"
proof -
  have "queues_ok rm \<Longrightarrow> queues_ok (foldl (\<lambda>m key. fst (removePendingMessage m key)) rm ks)" for ks
    by (induction ks arbitrary: rm) (simp_all add: queues_ok_remove)
  then show "queues_ok rm \<Longrightarrow> queues_ok (cleanup now rm)" by (simp add: cleanup_def Let_def)
qed

section \<open>Reachable states\<close>

text \<open>The steps of a client: message ids are new when they are sent (the generator does not repeat
  them), timers may fire and acknowledgements arrive at any time.\<close>

inductive rm_step :: "'n Net \<Rightarrow> 'n reliability \<Rightarrow> 'n reliability \<Rightarrow> bool" for N where
  Send: "getMessageKey e \<noteq> [] \<Longrightarrow> map_of (pendingMessages rm) (getMessageKey e) = None \<Longrightarrow>
    rm_step N rm (fst (SendMessage N now rm e d))"
| Ack: "rm_step N rm (fst (HandleACK rm e))"
| Timeout: "rm_step N rm (fst (handleMessageTimeout N now rm k))"
| FetchExpired: "rm_step N rm (fst (handleFetchTimeout rm k))"
| Clean: "rm_step N rm (cleanup now rm)"

lemma rm_step_ok: "rm_step N rm rm' \<Longrightarrow> queues_ok rm \<Longrightarrow> queues_ok rm'"
  by (induction rule: rm_step.induct)
    (simp_all add: SendMessage_ok HandleACK_ok handleMessageTimeout_ok handleFetchTimeout_def
      handleMessageFailure_ok cleanup_ok)

lemma rm_reachable_ok: "(rm_step N)\<^sup>*\<^sup>* rm rm' \<Longrightarrow> queues_ok rm \<Longrightarrow> queues_ok rm'"
  by (induction rule: rtranclp_induct) (auto intro: rm_step_ok)

lemma NewReliabilityManager_ok: "queues_ok (NewReliabilityManager limit h n)"
  by (simp add: queues_ok_def NewReliabilityManager_def keysIn_def)

text \<open>C7: in every reachable state the matching queues and the pending messages agree: each queue of
  a room holds, once each, exactly the keys of the pending messages of that room, the allocation queue
  those of the pending allocations, and a recorded fetch of a room is pending.\<close>

theorem queues_match_pending:
  assumes "(rm_step N)\<^sup>*\<^sup>* (NewReliabilityManager limit handler n) rm"
  shows "(\<forall>r. distinct (roomPendingQueues rm r) \<and>
      set (roomPendingQueues rm r) = keysIn (pendingMessages rm) (MRoom r)) \<and>
    distinct (allocateQueue rm) \<and> set (allocateQueue rm) = keysIn (pendingMessages rm) MAlloc \<and>
    (\<forall>r. roomFetchPending rm r \<noteq> [] \<longrightarrow> roomFetchPending rm r \<in> keysIn (pendingMessages rm) (MFetch r))"
  using rm_reachable_ok [OF assms NewReliabilityManager_ok] by (simp add: queues_ok_def)

section \<open>First in, first out\<close>

text \<open>The abstract state: for each room the messages that are not confirmed, oldest first.\<close>

definition backlog :: "'n reliability \<Rightarrow> u32 \<Rightarrow> envelope list" where
  "backlog rm r = map (\<lambda>k. pEnvelope (the (map_of (pendingMessages rm) k))) (roomPendingQueues rm r)"

lemma backlog_same: "same_queues rm rm' \<Longrightarrow> backlog rm' = backlog rm"
  by (rule ext) (simp add: backlog_def same_queues_def)

lemma backlog_remove_head:
  assumes ok: "queues_ok rm" and q: "roomPendingQueues rm r = k # ks"
  shows "\<exists>p rm1. removePendingMessage rm k = (rm1, Some p) \<and> backlog rm r = pEnvelope p # backlog rm1 r \<and>
    (\<forall>r'. r' \<noteq> r \<longrightarrow> backlog rm1 r' = backlog rm r') \<and> trace rm1 = trace rm \<and> hasHandler rm1 = hasHandler rm"
proof -
  have "k \<in> keysIn (pendingMessages rm) (MRoom r)" using ok q unfolding queues_ok_def by (metis list.set_intros(1))
  then obtain p where p: "map_of (pendingMessages rm) k = Some p" "classOf (pEnvelope p) = MRoom r"
    by (auto simp: keysIn_def)
  let ?rm = "rm\<lparr>pendingMessages := AList.delete k (pendingMessages rm),
                roomPendingQueues := (roomPendingQueues rm)(r := ks)\<rparr>"
  have rem: "removePendingMessage rm k = (?rm, Some p)"
    using p q by (simp add: removePendingMessage_def dequeue_class)
  have "k \<notin> set ks" using ok q unfolding queues_ok_def by (metis distinct.simps(2))
  then have h: "backlog rm r = pEnvelope p # backlog ?rm r"
    using p q by (auto simp: backlog_def AList.delete_conv')
  have "k \<notin> set (roomPendingQueues rm r')" if "r' \<noteq> r" for r'
    using ok keysIn_class [OF p(1), of "MRoom r'"] p(2) that by (auto simp: queues_ok_def)
  then have "\<forall>r'. r' \<noteq> r \<longrightarrow> backlog ?rm r' = backlog rm r'"
    by (auto simp: backlog_def AList.delete_conv')
  with rem h show ?thesis by auto
qed

lemma ack_pops:
  assumes "queues_ok rm" "ackRoom ack = Some r" "hasHandler rm" "backlog rm r = e # es"
  shows "\<exists>rm' pre. HandleACK rm ack = (rm', True, Finished) \<and> backlog rm' r = es \<and>
    (\<forall>r'. r' \<noteq> r \<longrightarrow> backlog rm' r' = backlog rm r') \<and> trace rm' = trace rm @ pre @ [OnMessageDelivered e]
    \<and> hasHandler rm' = hasHandler rm"
proof -
  obtain k ks where q: "roomPendingQueues rm r = k # ks" using assms(4) by (auto simp: backlog_def)
  from backlog_remove_head [OF assms(1) q] obtain p rm1 where
    rm1: "removePendingMessage rm k = (rm1, Some p)" "backlog rm r = pEnvelope p # backlog rm1 r"
      "\<forall>r'. r' \<noteq> r \<longrightarrow> backlog rm1 r' = backlog rm r'" "trace rm1 = trace rm" "hasHandler rm1 = hasHandler rm" by blast
  have "k \<in> keysIn (pendingMessages rm) (MRoom r)" using assms(1) q unfolding queues_ok_def by (metis list.set_intros(1))
  then have "k \<noteq> []" using assms(1) by (auto simp: keysIn_def queues_ok_def)
  moreover have "isACKMessage ack" "\<And>x. Message ack \<noteq> Some (MessageFetchResponse x)"
    "\<And>x. Message ack \<noteq> Some (RoomMessageFetchResponse x)"
    using assms(2) by (auto simp: ackRoom_def isACKMessage_def split: option.splits message.splits)
  moreover have "getOriginalMessageKey rm ack = (rm, k)"
    using assms(2) q by (auto simp: getOriginalMessageKey_def ackRoom_def split: option.splits message.splits)
  ultimately have "HandleACK rm ack = (confirmMessage p k rm1, True, Finished)"
    using HandleACK_plain [OF assms(1), of ack] rm1(1) by (simp add: removeAndConfirm_def)
  moreover have "backlog (confirmMessage p k rm1) = backlog rm1" by (rule backlog_same) simp
  moreover have "pEnvelope p = e" using rm1(2) assms(4) by simp
  then have "trace (confirmMessage p k rm1) = trace rm @ (if hasTimer p then [StopTimer k] else []) @ [OnMessageDelivered e]"
    using rm1(4,5) assms(3) by (simp add: confirmMessage_def notify_def stopTimer_def emit_def)
  moreover have "hasHandler (confirmMessage p k rm1) = hasHandler rm1"
    by (simp add: confirmMessage_def notify_def stopTimer_def emit_def)
  ultimately show ?thesis using rm1 assms(4) by auto
qed

lemma send_appends:
  assumes ok: "queues_ok rm" and fresh: "map_of (pendingMessages rm) (getMessageKey e) = None" "getMessageKey e \<noteq> []"
    and c: "classOf e = MRoom r" and s: "SendMessage N now rm e d = (rm', Inr ())"
  shows "backlog rm' r = backlog rm r @ [e] \<and> (\<forall>r'. r' \<noteq> r \<longrightarrow> backlog rm' r' = backlog rm r')"
proof -
  define k where "k = getMessageKey e"
  define p where "p = \<lparr>pEnvelope = e, pData = d, sentTime = now, retries = 0, hasTimer = False\<rparr>"
  define rm1 where "rm1 = enqueueForACKMatching e k (setPending k p rm)"
  have hb: "Message e \<noteq> Some (Heartbeat t)" for t
    using c by (auto simp: classOf_def getEnvelopeRoom_def)
  obtain rm2 sent where t: "sendToActiveConnection N rm1 d = (rm2, sent)" by (cases "sendToActiveConnection N rm1 d")
  have "SendMessage N now rm e d =
      (if \<not> sent then (fst (removePendingMessage rm2 k), Inl SendFailed)
       else (notify (OnMessageSent e) (emit (SetTimeout k) (setPending k (p\<lparr>hasTimer := True\<rparr>) rm2)), Inr ()))"
    using hb t unfolding SendMessage_def Let_def k_def [symmetric] p_def [symmetric] rm1_def [symmetric]
    by (simp split: option.split message.split)
  with s have rm': "rm' = notify (OnMessageSent e) (emit (SetTimeout k) (setPending k (p\<lparr>hasTimer := True\<rparr>) rm2))"
    by (simp split: if_splits)
  have same: "same_queues rm1 rm2" by (rule same_queues_send [OF t])
  have new: "k \<notin> set (roomPendingQueues rm r')" for r'
    using ok fresh(1) by (auto simp: queues_ok_def keysIn_def k_def)
  have "pendingMessages rm' = AList.update k (p\<lparr>hasTimer := True\<rparr>) (AList.update k p (pendingMessages rm))"
    "roomPendingQueues rm' = (roomPendingQueues rm)(r := roomPendingQueues rm r @ [k])"
    using same c by (simp_all add: rm' notify_def emit_def setPending_def same_queues_def rm1_def enqueue_class)
  with new show ?thesis
    by (auto simp: backlog_def AList.update_conv' p_def)
qed

text \<open>C10: per room the manager is a first-in-first-out queue: a successful send of a room message
  appends it to the backlog of its room; an acknowledgement of the room takes the oldest message off and
  reports it to the application as delivered; neither touches another room.\<close>

theorem room_backlog_refinement:
  assumes "queues_ok rm" "hasHandler rm"
  shows "(\<forall>e d r rm' now. map_of (pendingMessages rm) (getMessageKey e) = None \<longrightarrow> getMessageKey e \<noteq> [] \<longrightarrow>
      classOf e = MRoom r \<longrightarrow> SendMessage N now rm e d = (rm', Inr ()) \<longrightarrow>
      backlog rm' r = backlog rm r @ [e] \<and> (\<forall>r'. r' \<noteq> r \<longrightarrow> backlog rm' r' = backlog rm r')) \<and>
    (\<forall>ack r e es. ackRoom ack = Some r \<longrightarrow> backlog rm r = e # es \<longrightarrow>
      (\<exists>rm' pre. HandleACK rm ack = (rm', True, Finished) \<and> backlog rm' r = es \<and>
        (\<forall>r'. r' \<noteq> r \<longrightarrow> backlog rm' r' = backlog rm r') \<and> trace rm' = trace rm @ pre @ [OnMessageDelivered e]))"
  using send_appends [OF assms(1)] ack_pops [OF assms(1) _ assms(2)] by blast

section \<open>A witness\<close>

text \<open>A connection that counts what it sends and never fails.\<close>

definition goodNet :: "nat Net" where
  "goodNet = \<lparr>nsend = (\<lambda>n d. (Suc n, True)), nswitch = (\<lambda>n. (n, True)), nfetch = (\<lambda>n i t. (n, Inr i))\<rparr>"

definition badNet :: "nat Net" where
  "badNet = \<lparr>nsend = (\<lambda>n d. (n, False)), nswitch = (\<lambda>n. (n, False)), nfetch = (\<lambda>n i t. (n, Inr i))\<rparr>"

definition chatEnvelope :: "nat \<Rightarrow> envelope" where
  "chatEnvelope i = \<lparr>ConnectionSeqId = 1, MessageId = replicate 15 0 @ [of_nat i],
     Message = Some (ChatMessage \<lparr>cm_content = ''hi'', cm_type = MESSAGE_TYPE_TEXT, cm_reply_to = 0\<rparr>)\<rparr>"

definition chatAck :: envelope where
  "chatAck = \<lparr>ConnectionSeqId = 2, MessageId = replicate 16 9, Message = Some (ChatMessageAck 0 CHAT_MESSAGE_SUCCESS [])\<rparr>"

definition sentTwo :: "nat reliability" where
  "sentTwo = fst (SendMessage goodNet 1 (fst (SendMessage goodNet 0 (NewReliabilityManager 3 True 0) (chatEnvelope 1) [1])) (chatEnvelope 2) [2])"

lemma sentTwo_facts:
  "map fst (pendingMessages sentTwo) = [getMessageKey (chatEnvelope 1), getMessageKey (chatEnvelope 2)]"
  "backlog sentTwo 0 = [chatEnvelope 1, chatEnvelope 2]" "hasHandler sentTwo" "ackRoom chatAck = Some 0"
  by code_simp+

lemma sentTwo_reachable: "(rm_step goodNet)\<^sup>*\<^sup>* (NewReliabilityManager 3 True 0) sentTwo"
proof -
  let ?s0 = "NewReliabilityManager 3 True 0 :: nat reliability"
  let ?s1 = "fst (SendMessage goodNet 0 ?s0 (chatEnvelope 1) [1])"
  have k: "getMessageKey (chatEnvelope i) \<noteq> []" for i by (simp add: getMessageKey_def chatEnvelope_def)
  have "rm_step goodNet ?s0 ?s1" by (rule Send) (use k in \<open>simp_all add: NewReliabilityManager_def\<close>)
  moreover have "map_of (pendingMessages ?s1) (getMessageKey (chatEnvelope 2)) = None" by code_simp
  then have "rm_step goodNet ?s1 sentTwo" unfolding sentTwo_def by (intro Send) (use k in auto)
  ultimately show ?thesis by (meson rtranclp.rtrancl_into_rtrancl rtranclp.rtrancl_refl)
qed

theorem queues_match_pending_witness:
  "keysIn (pendingMessages sentTwo) (MRoom 0) = set (roomPendingQueues sentTwo 0) \<and> distinct (roomPendingQueues sentTwo 0)"
  using queues_match_pending [OF sentTwo_reachable] by blast

theorem room_backlog_refinement_witness:
  "\<exists>rm'. HandleACK sentTwo chatAck = (rm', True, Finished) \<and> backlog rm' 0 = [chatEnvelope 2]
     \<and> OnMessageDelivered (chatEnvelope 1) \<in> set (trace rm')"
proof -
  have "queues_ok sentTwo" by (rule rm_reachable_ok [OF sentTwo_reachable NewReliabilityManager_ok])
  from room_backlog_refinement [OF this sentTwo_facts(3), of goodNet] sentTwo_facts(2,4)
  obtain rm' pre where "HandleACK sentTwo chatAck = (rm', True, Finished)" "backlog rm' 0 = [chatEnvelope 2]"
    "trace rm' = trace sentTwo @ pre @ [OnMessageDelivered (chatEnvelope 1)]" by blast
  then show ?thesis by auto
qed

text \<open>An acknowledgement that arrives twice (the message was sent again and the server answered
  both copies) confirms a message nobody acknowledged: with two messages waiting in the room the second
  copy reports the second message as delivered.\<close>

theorem duplicate_ack_confirms_next:
  assumes "queues_ok rm" "hasHandler rm" "ackRoom ack = Some r" "backlog rm r = e1 # e2 # es"
  shows "\<exists>rm1 rm2. HandleACK rm ack = (rm1, True, Finished) \<and> HandleACK rm1 ack = (rm2, True, Finished) \<and>
    OnMessageDelivered e2 \<in> set (trace rm2) \<and> backlog rm2 r = es"
proof -
  from ack_pops [OF assms(1,3,2,4)] obtain rm1 where
    rm1: "HandleACK rm ack = (rm1, True, Finished)" "backlog rm1 r = e2 # es" "hasHandler rm1" using assms(2) by auto
  have "queues_ok rm1" using HandleACK_ok [OF assms(1), of ack] rm1(1) by simp
  from ack_pops [OF this assms(3) rm1(3,2)] rm1(1) show ?thesis by auto
qed

theorem duplicate_ack_confirms_next_witness:
  "\<exists>rm1 rm2. HandleACK sentTwo chatAck = (rm1, True, Finished) \<and> HandleACK rm1 chatAck = (rm2, True, Finished)
     \<and> OnMessageDelivered (chatEnvelope 2) \<in> set (trace rm2)"
proof -
  have "queues_ok sentTwo" by (rule rm_reachable_ok [OF sentTwo_reachable NewReliabilityManager_ok])
  from duplicate_ack_confirms_next [OF this sentTwo_facts(3,4,2)] show ?thesis by blast
qed

section \<open>Giving up\<close>

lemma remove_gone: "removePendingMessage rm k = (rm1, x) \<Longrightarrow> queues_ok rm \<Longrightarrow> map_of (pendingMessages rm1) k = None"
proof -
  have "pendingMessages (dequeue e k rm) = pendingMessages rm" for e and rm :: "'a reliability"
    by (simp add: dequeue_class split: match_class.split)
  then show "removePendingMessage rm k = (rm1, x) \<Longrightarrow> queues_ok rm \<Longrightarrow> map_of (pendingMessages rm1) k = None"
    by (auto simp: removePendingMessage_def AList.delete_conv' split: option.splits)
qed

lemma remove_trace: "trace (fst (removePendingMessage rm k)) = trace rm"
  by (auto simp: removePendingMessage_def dequeue_class split: option.split match_class.split)

definition quiet :: "'n reliability \<Rightarrow> 'n reliability \<Rightarrow> bool" where
  "quiet rm rm' \<longleftrightarrow> (\<exists>evs. trace rm' = trace rm @ evs \<and> (\<forall>e err. OnMessageFailed e err \<notin> set evs))"

lemma quiet_refl [simp]: "quiet rm rm"
  by (simp add: quiet_def)

lemma quiet_trans: "quiet a b \<Longrightarrow> quiet b c \<Longrightarrow> quiet a c"
  unfolding quiet_def by fastforce

lemma quiet_same_trace: "trace rm' = trace rm \<Longrightarrow> quiet rm rm'"
  by (simp add: quiet_def)

lemma quiet_emit: "(\<And>e err. ev \<noteq> OnMessageFailed e err) \<Longrightarrow> quiet rm (emit ev rm)"
  by (simp add: quiet_def emit_def) metis

lemma quiet_send: "sendToActiveConnection N rm d = (rm', sent) \<Longrightarrow> quiet rm rm'"
  by (auto simp: sendToActiveConnection_def quiet_def emit_def split: prod.splits if_splits)

lemma quiet_switch: "switchConnection N rm = (rm', r) \<Longrightarrow> quiet rm rm'"
  by (auto simp: switchConnection_def quiet_def split: prod.splits)

lemma failure_held:
  assumes "handleMessageFailure True rm k err = (rm', pr)"
  shows "quiet rm rm' \<and> (pr = BlockedForever \<longleftrightarrow> map_of (pendingMessages rm) k \<noteq> None)"
  using assms remove_trace [of rm k]
  by (cases "map_of (pendingMessages rm) k")
    (auto simp: handleMessageFailure_def removePendingMessage_def intro: quiet_same_trace split: prod.splits)


lemma failure_held_quiet: "handleMessageFailure True rm k err = (rm', pr) \<Longrightarrow> quiet rm rm'"
  using failure_held by blast

lemma failure_held_gone:
  "handleMessageFailure True rm k err = (rm', pr) \<Longrightarrow> pr = Finished \<Longrightarrow> map_of (pendingMessages rm) k = None"
  using failure_held [of rm k err rm' pr] by auto

lemma send_pending: "sendToActiveConnection N rm d = (rm', sent) \<Longrightarrow> pendingMessages rm' = pendingMessages rm"
  by (auto simp: sendToActiveConnection_def emit_def split: prod.splits if_splits)

lemma switch_pending: "switchConnection N rm = (rm', r) \<Longrightarrow> pendingMessages rm' = pendingMessages rm"
  by (auto simp: switchConnection_def split: prod.splits)

text \<open>What holds of every step of a timeout that is not the failure itself: nothing is reported and the
  message stays pending.\<close>

definition keeps :: "string \<Rightarrow> 'n reliability \<Rightarrow> 'n reliability \<Rightarrow> bool" where
  "keeps k rm rm' \<longleftrightarrow> quiet rm rm' \<and> (map_of (pendingMessages rm) k \<noteq> None \<longrightarrow> map_of (pendingMessages rm') k \<noteq> None)"

lemma keeps_trans: "keeps k a b \<Longrightarrow> keeps k b c \<Longrightarrow> keeps k a c"
  unfolding keeps_def using quiet_trans by blast

lemma keeps_send: "sendToActiveConnection N rm d = (rm', sent) \<Longrightarrow> keeps k rm rm'"
  using send_pending quiet_send unfolding keeps_def by metis

lemma keeps_switch: "switchConnection N rm = (rm', r) \<Longrightarrow> keeps k rm rm'"
  using switch_pending quiet_switch unfolding keeps_def by metis

lemma keeps_setPending: "keeps k rm (setPending k p rm)"
  by (simp add: keeps_def setPending_def quiet_def AList.update_conv')

lemma keeps_emit: "(\<And>e err. ev \<noteq> OnMessageFailed e err) \<Longrightarrow> keeps k rm (emit ev rm)"
  using quiet_emit [of ev rm] unfolding keeps_def by (simp add: emit_def)

lemma keeps_stop: "keeps k rm (stopTimer p k rm)"
  by (simp add: stopTimer_def keeps_emit) (simp add: keeps_def)

lemma keeps_fields:
  "keeps k rm (rm\<lparr>net := n\<rparr>)" "keeps k rm (rm\<lparr>totalFetches := i\<rparr>)" "keeps k rm (rm\<lparr>totalRetries := i\<rparr>)"
  by (simp_all add: keeps_def quiet_def)

definition timeout_outcome :: "string \<Rightarrow> 'n reliability \<Rightarrow> 'n reliability \<times> progress \<Rightarrow> bool" where
  "timeout_outcome k rm = (\<lambda>(rm', pr). quiet rm rm' \<and>
     (map_of (pendingMessages rm) k \<noteq> None \<longrightarrow> pr = Finished \<longrightarrow> map_of (pendingMessages rm') k \<noteq> None))"

lemma outcome_failure: "keeps k rm rm0 \<Longrightarrow> timeout_outcome k rm (handleMessageFailure True rm0 k err)"
proof -
  assume k: "keeps k rm rm0"
  obtain rm1 pr where e: "handleMessageFailure True rm0 k err = (rm1, pr)" by fastforce
  have "quiet rm rm1" using failure_held_quiet [OF e] k quiet_trans unfolding keeps_def by blast
  moreover have "map_of (pendingMessages rm) k \<noteq> None \<Longrightarrow> pr \<noteq> Finished"
    using failure_held_gone [OF e] k failure_held [OF e] unfolding keeps_def by blast
  ultimately show ?thesis by (auto simp: timeout_outcome_def e)
qed

lemma outcome_keeps: "keeps k rm rm0 \<Longrightarrow> timeout_outcome k rm (rm0, Finished)"
  by (simp add: timeout_outcome_def keeps_def)

lemma fetch_outcome: "keeps k rm rm0 \<Longrightarrow> timeout_outcome k rm (attemptFetchConfirmation N now rm0 k p)"
proof -
  assume k0: "keeps k rm rm0"
  obtain rm1 sw where s: "switchConnection N (rm0\<lparr>totalFetches := totalFetches rm0 + 1\<rparr>) = (rm1, sw)" by fastforce
  obtain n r where f: "nfetch N (net rm1) (MessageId (pEnvelope p)) now = (n, r)" by fastforce
  have k1: "keeps k rm rm1" by (rule keeps_trans [OF keeps_trans [OF k0 keeps_fields(2)] keeps_switch [OF s]])
  have k2: "keeps k rm (rm1\<lparr>net := n\<rparr>)" by (rule keeps_trans [OF k1 keeps_fields(1)])
  show ?thesis
  proof (cases r)
    case (Inl e)
    with k1 k2 s f show ?thesis by (simp add: attemptFetchConfirmation_def outcome_failure)
  next
    case (Inr d)
    obtain rm2 sent where d: "sendToActiveConnection N (rm1\<lparr>net := n\<rparr>) d = (rm2, sent)" by fastforce
    have k3: "keeps k rm rm2" by (rule keeps_trans [OF k2 keeps_send [OF d]])
    have "keeps k rm (emit (SetFetchTimeout k) (setPending k (p\<lparr>hasTimer := True\<rparr>) rm2))"
      by (rule keeps_trans [OF keeps_trans [OF k3 keeps_setPending] keeps_emit]) simp
    with Inr k1 k3 s f d show ?thesis by (simp add: attemptFetchConfirmation_def outcome_failure outcome_keeps)
  qed
qed

lemma timeout_outcome: "timeout_outcome k rm (handleMessageTimeout N now rm k)"
proof (cases "map_of (pendingMessages rm) k")
  case None
  then show ?thesis by (simp add: handleMessageTimeout_def timeout_outcome_def)
next
  case (Some p0)
  define p where "p = p0\<lparr>retries := retries p0 + 1\<rparr>"
  define rm1 where "rm1 = (setPending k p rm)\<lparr>totalRetries := totalRetries rm + 1\<rparr>"
  have k1: "keeps k rm rm1" unfolding rm1_def by (rule keeps_trans [OF keeps_setPending keeps_fields(3)])
  obtain rm2 sent where s: "sendToActiveConnection N rm1 (pData p) = (rm2, sent)" by fastforce
  obtain rm3 going where g: "(if sent then (rm2, True) else switchConnection N rm2) = (rm3, going)" by fastforce
  have k2: "keeps k rm rm2" by (rule keeps_trans [OF k1 keeps_send [OF s]])
  have k3: "keeps k rm rm3"
  proof (cases sent)
    case False
    with g have "switchConnection N rm2 = (rm3, going)" by simp
    then show ?thesis by (rule keeps_trans [OF k2 keeps_switch])
  qed (use g k2 in simp)
  have k4: "keeps k rm (emit (SetTimeout k) (setPending k (p\<lparr>hasTimer := True\<rparr>) (stopTimer p k rm3)))"
    by (rule keeps_trans [OF keeps_trans [OF keeps_trans [OF k3 keeps_stop] keeps_setPending] keeps_emit]) simp
  have "handleMessageTimeout N now rm k =
      (if retries p \<le> MaxRetries rm1
       then if going then (emit (SetTimeout k) (setPending k (p\<lparr>hasTimer := True\<rparr>) (stopTimer p k rm3)), Finished)
            else handleMessageFailure True rm3 k AllConnectionsFailed
       else attemptFetchConfirmation N now rm1 k p)"
    unfolding handleMessageTimeout_def Let_def using Some s g by (simp add: p_def rm1_def)
  then show ?thesis using fetch_outcome [OF k1] outcome_failure [OF k3] outcome_keeps [OF k4] by simp
qed

text \<open>C26: the timeout of a message never tells the client that the message failed: whatever the
  connections do, no failure is reported, and when the timeout gives the message up its goroutine blocks
  for ever on the mutex it holds.\<close>

theorem timeout_never_reports_failure:
  assumes "handleMessageTimeout N now rm k = (rm', pr)"
  shows "(\<exists>evs. trace rm' = trace rm @ evs \<and> (\<forall>e err. OnMessageFailed e err \<notin> set evs)) \<and>
    (map_of (pendingMessages rm) k \<noteq> None \<and> map_of (pendingMessages rm') k = None \<longrightarrow> pr = BlockedForever)"
  using timeout_outcome [of k rm N now] assms by (cases pr) (auto simp: timeout_outcome_def quiet_def)

theorem timeout_never_reports_failure_witness:
  "\<exists>rm' pr. handleMessageTimeout badNet 5 sentTwo (getMessageKey (chatEnvelope 1)) = (rm', pr) \<and> pr = BlockedForever"
proof -
  obtain rm' pr where e: "handleMessageTimeout badNet 5 sentTwo (getMessageKey (chatEnvelope 1)) = (rm', pr)" by fastforce
  have "map_of (pendingMessages sentTwo) (getMessageKey (chatEnvelope 1)) \<noteq> None"
    "map_of (pendingMessages (fst (handleMessageTimeout badNet 5 sentTwo (getMessageKey (chatEnvelope 1))))) (getMessageKey (chatEnvelope 1)) = None"
    by code_simp+
  with timeout_never_reports_failure [OF e] e show ?thesis by auto
qed

end
