(* ===== verification/Http.thy ===== *)
theory Http
  imports Protocol
begin

text \<open>
  \<^verbatim>\<open>util/net/protocol/http/http.go\<close>: the incremental HTTP parser.  Its buffer holds the bytes as
  characters.  A step of \<^verbatim>\<open>parseNext\<close> gives the new parser and an error, or the message it completed
  and the number of bytes to remove; \<^const>\<open>Panic\<close> is a run-time panic of Go.  The record \<open>unicode\<close>
  holds the tables for the names and values of headers that are not ASCII.
\<close>

section \<open>Messages\<close>

text \<open>The members that requests and responses have in common come first.  A nil slice is \<^const>\<open>None\<close>.\<close>

record http_common =
  Base :: "unit base_message"
  Version :: string
  Body :: "string option"
  Connection :: string
  ContentType :: string
  ContentLength :: int
  Upgrade :: string
  WebSocketProtocol :: string

record http_request = http_common +
  Method :: string
  Path :: string
  URI :: string
  RawPath :: string
  Query :: "header option"
  Fragment :: string
  Host :: string
  WebSocketKey :: string
  WebSocketVersion :: string

record http_response = http_common +
  StatusCode :: int
  StatusText :: string
  WebSocketAccept :: string

datatype http_message = RequestMsg http_request | ResponseMsg http_response

definition IsWebSocketUpgrade :: "unicode \<Rightarrow> http_request \<Rightarrow> bool" where
  "IsWebSocketUpgrade U r \<longleftrightarrow>
     ToLower U (Connection r) = ''upgrade'' \<and> ToLower U (Upgrade r) = ''websocket'' \<and> WebSocketKey r \<noteq> []"

text \<open>The copies of a body and of a payload are slices of the same length, never nil.\<close>

definition copy_slice :: "string option \<Rightarrow> string option" where
  "copy_slice b = Some (case b of None \<Rightarrow> [] | Some s \<Rightarrow> s)"

definition request_Clone :: "http_request \<Rightarrow> http_request" where
  "request_Clone r = r\<lparr>Body := copy_slice (Body r), Base := base_Clone (Base r)\<rparr>"

definition response_Clone :: "http_response \<Rightarrow> http_response" where
  "response_Clone r = r\<lparr>Body := copy_slice (Body r), Base := base_Clone (Base r)\<rparr>"

section \<open>The parser\<close>

datatype parse_state = stateRequestLine | stateResponseLine | stateHeaders | stateBody | stateChunkedBody | stateComplete

record http_parser =
  hstate :: parse_state
  hbuf :: string
  headerComplete :: bool
  bodyComplete :: bool
  contentLength :: int
  chunked :: bool
  currentRequest :: "http_request option"
  currentResponse :: "http_response option"
  maxHeaderSize :: int
  maxBodySize :: int
  maxRequestLine :: int

definition NewHTTPParser :: http_parser where
  "NewHTTPParser = \<lparr>hstate = stateRequestLine, hbuf = [], headerComplete = False, bodyComplete = False,
     contentLength = 0, chunked = False, currentRequest = None, currentResponse = None,
     maxHeaderSize = 8192, maxBodySize = 10485760, maxRequestLine = 8192\<rparr>"

abbreviation http_err :: "string \<Rightarrow> string \<Rightarrow> protocol_error" where
  "http_err \<equiv> protocol_err ProtocolHTTP"

definition Feed :: "http_parser \<Rightarrow> bytes \<Rightarrow> http_parser \<times> (protocol_error + unit)" where
  "Feed p data =
     (let p1 = p\<lparr>hbuf := hbuf p @ go_string data\<rparr>
      in (p1, if int (length (hbuf p1)) > maxHeaderSize p + maxBodySize p
              then Inl (http_err ErrCodeParseError ''buffer size exceeded'') else Inr ()))"

type_synonym step = "http_parser \<times> (protocol_error + http_message option \<times> nat) outcome"

definition more :: "http_parser \<Rightarrow> step" where "more p = (p, Ret (Inr (None, 0)))"

definition bad :: "http_parser \<Rightarrow> string \<Rightarrow> step" where
  "bad p msg = (p, Ret (Inl (http_err ErrCodeParseError msg)))"

definition parseQuery :: "string \<Rightarrow> header" where
  "parseQuery query =
     (if query = [] then []
      else foldl (\<lambda>result pair.
             if pair = [] then result
             else let parts = SplitN pair CHR ''='' 2
                  in AList.update (parts ! 0) (if length parts = 2 then parts ! 1 else []) result)
           [] (Split query CHR ''&''))"

definition newResponse :: "string \<Rightarrow> int \<Rightarrow> string \<Rightarrow> http_response" where
  "newResponse version code statusText = \<lparr>Base = emptyBase, Version = version, Body = None, Connection = [],
     ContentType = [], ContentLength = 0, Upgrade = [], WebSocketProtocol = [],
     StatusCode = code, StatusText = statusText, WebSocketAccept = []\<rparr>"

definition newRequest :: "string \<Rightarrow> string \<Rightarrow> string \<Rightarrow> http_request" where
  "newRequest method path version = \<lparr>Base = emptyBase, Version = version, Body = None, Connection = [],
     ContentType = [], ContentLength = 0, Upgrade = [], WebSocketProtocol = [],
     Method = method, Path = path, URI = path, RawPath = [], Query = None, Fragment = [], Host = [],
     WebSocketKey = [], WebSocketVersion = []\<rparr>"

definition parseResponseLine :: "http_parser \<Rightarrow> step" where
  "parseResponseLine p =
     (case Index (hbuf p) CRLF of
        None \<Rightarrow> if int (length (hbuf p)) > maxRequestLine p then bad p ''response line too long'' else more p
      | Some lineEnd \<Rightarrow>
          let parts = SplitN (take lineEnd (hbuf p)) CHR '' '' 3
          in if length parts < 2 then bad p ''invalid response line format''
             else case Atoi (parts ! 1) of
                    None \<Rightarrow> bad p ''invalid status code''
                  | Some code \<Rightarrow>
                      (p\<lparr>currentResponse := Some (newResponse (parts ! 0) code (if length parts = 3 then parts ! 2 else [])),
                         hstate := stateHeaders\<rparr>,
                       Ret (Inr (None, lineEnd + 2))))"

definition withQuery :: "http_request \<Rightarrow> http_request" where
  "withQuery r =
     (case Index (URI r) ''?'' of
        None \<Rightarrow> r
      | Some i \<Rightarrow> r\<lparr>Path := take i (URI r), Query := Some (parseQuery (drop (i + 1) (URI r)))\<rparr>)"

definition parseRequestLine :: "http_parser \<Rightarrow> step" where
  "parseRequestLine p =
     (case Index (hbuf p) CRLF of
        None \<Rightarrow> if int (length (hbuf p)) > maxRequestLine p then bad p ''request line too long'' else more p
      | Some lineEnd \<Rightarrow>
          let parts = SplitN (take lineEnd (hbuf p)) CHR '' '' 3
          in if length parts \<noteq> 3 then bad p ''invalid request line format''
             else if prefix ''HTTP/'' (parts ! 0) then parseResponseLine (p\<lparr>hstate := stateResponseLine\<rparr>)
             else (p\<lparr>currentRequest := Some (withQuery (newRequest (parts ! 0) (parts ! 1) (parts ! 2))),
                     hstate := stateHeaders\<rparr>,
                   Ret (Inr (None, lineEnd + 2))))"

section \<open>Headers\<close>

text \<open>A missing entry of the map is the empty string.\<close>

definition hget :: "header \<Rightarrow> string \<Rightarrow> string" where
  "hget h k = (case map_of h k of None \<Rightarrow> [] | Some v \<Rightarrow> v)"

definition headerLine :: "unicode \<Rightarrow> header \<Rightarrow> string \<Rightarrow> header" where
  "headerLine U h line =
     (if line = [] then h
      else case Index line '':'' of
             None \<Rightarrow> h
           | Some i \<Rightarrow> AList.update (ToLower U (TrimSpace U (take i line))) (TrimSpace U (drop (i + 1) line)) h)"

definition readHeaders :: "unicode \<Rightarrow> string \<Rightarrow> header" where
  "readHeaders U headerData = foldl (headerLine U) [] (ScanLines headerData)"

definition setIf :: "string \<Rightarrow> string \<Rightarrow> string" where
  "setIf new old = (if new \<noteq> [] then new else old)"

text \<open>\<^verbatim>\<open>Content-Length\<close> and \<^verbatim>\<open>Transfer-Encoding\<close> also set members of the parser.\<close>

definition lengthHeader :: "header \<Rightarrow> int option" where
  "lengthHeader h = (if hget h ''content-length'' = [] then None else ParseInt (hget h ''content-length'') 10)"

definition setLimits :: "header \<Rightarrow> http_parser \<Rightarrow> http_parser" where
  "setLimits h p =
     p\<lparr>contentLength := (case lengthHeader h of Some l \<Rightarrow> l | None \<Rightarrow> contentLength p),
       chunked := (chunked p \<or> hget h ''transfer-encoding'' = ''chunked'')\<rparr>"

definition setRequestHeaders :: "http_request \<Rightarrow> header \<Rightarrow> http_request" where
  "setRequestHeaders r h =
     r\<lparr>Base := (Base r)\<lparr>bHeaders := Some h\<rparr>,
       Host := setIf (hget h ''host'') (Host r),
       Connection := setIf (hget h ''connection'') (Connection r),
       ContentType := setIf (hget h ''content-type'') (ContentType r),
       ContentLength := (case lengthHeader h of Some l \<Rightarrow> l | None \<Rightarrow> ContentLength r),
       Upgrade := setIf (hget h ''upgrade'') (Upgrade r),
       WebSocketKey := setIf (hget h ''sec-websocket-key'') (WebSocketKey r),
       WebSocketVersion := setIf (hget h ''sec-websocket-version'') (WebSocketVersion r),
       WebSocketProtocol := setIf (hget h ''sec-websocket-protocol'') (WebSocketProtocol r)\<rparr>"

definition setResponseHeaders :: "http_response \<Rightarrow> header \<Rightarrow> http_response" where
  "setResponseHeaders r h =
     r\<lparr>Base := (Base r)\<lparr>bHeaders := Some h\<rparr>,
       Connection := setIf (hget h ''connection'') (Connection r),
       ContentType := setIf (hget h ''content-type'') (ContentType r),
       ContentLength := (case lengthHeader h of Some l \<Rightarrow> l | None \<Rightarrow> ContentLength r),
       Upgrade := setIf (hget h ''upgrade'') (Upgrade r),
       WebSocketAccept := setIf (hget h ''sec-websocket-accept'') (WebSocketAccept r),
       WebSocketProtocol := setIf (hget h ''sec-websocket-protocol'') (WebSocketProtocol r)\<rparr>"

definition shouldParseBody :: "http_parser \<Rightarrow> bool" where
  "shouldParseBody p \<longleftrightarrow> chunked p \<or> (0 < contentLength p \<and> contentLength p \<le> maxBodySize p)"

definition setHeaders :: "http_parser \<Rightarrow> header \<Rightarrow> http_parser" where
  "setHeaders p h =
     (case currentRequest p of
        Some r \<Rightarrow> (setLimits h p)\<lparr>currentRequest := Some (setRequestHeaders r h)\<rparr>
      | None \<Rightarrow>
          (case currentResponse p of
             Some r \<Rightarrow> (setLimits h p)\<lparr>currentResponse := Some (setResponseHeaders r h)\<rparr>
           | None \<Rightarrow> p))"

definition parseHeaders :: "unicode \<Rightarrow> http_parser \<Rightarrow> step" where
  "parseHeaders U p =
     (case Index (hbuf p) (CRLF @ CRLF) of
        None \<Rightarrow> if int (length (hbuf p)) > maxHeaderSize p then bad p ''headers too large'' else more p
      | Some headerEnd \<Rightarrow>
          let p1 = (setHeaders p (readHeaders U (take headerEnd (hbuf p))))\<lparr>headerComplete := True\<rparr>
          in (p1\<lparr>hstate := (if shouldParseBody p1 then if chunked p1 then stateChunkedBody else stateBody
                            else stateComplete)\<rparr>,
              Ret (Inr (None, headerEnd + 4))))"

section \<open>Bodies\<close>

definition completeMessage :: "http_parser \<Rightarrow> http_message option" where
  "completeMessage p =
     (case currentRequest p of
        Some r \<Rightarrow>
          Some (RequestMsg (r\<lparr>Base := (Base r)\<lparr>bType := ''http_request'',
            bPayload := (if Body r \<noteq> None then Body r else bPayload (Base r))\<rparr>\<rparr>))
      | None \<Rightarrow>
          (case currentResponse p of
             Some r \<Rightarrow>
               Some (ResponseMsg (r\<lparr>Base := (Base r)\<lparr>bType := ''http_response'',
                 bPayload := (if Body r \<noteq> None then Body r else bPayload (Base r))\<rparr>\<rparr>))
           | None \<Rightarrow> None))"

definition finishMessage :: "http_parser \<Rightarrow> http_parser" where
  "finishMessage p = p\<lparr>hstate := stateRequestLine, headerComplete := False, bodyComplete := False,
     contentLength := 0, chunked := False, currentRequest := None, currentResponse := None\<rparr>"

definition setBody :: "string option \<Rightarrow> http_parser \<Rightarrow> http_parser" where
  "setBody body p =
     (case currentRequest p of
        Some r \<Rightarrow> p\<lparr>currentRequest := Some (r\<lparr>Body := body\<rparr>)\<rparr>
      | None \<Rightarrow>
          (case currentResponse p of
             Some r \<Rightarrow> p\<lparr>currentResponse := Some (r\<lparr>Body := body\<rparr>)\<rparr>
           | None \<Rightarrow> p))"

definition parseBody :: "http_parser \<Rightarrow> step" where
  "parseBody p =
     (if contentLength p = 0 then
        (let p1 = p\<lparr>hstate := stateComplete\<rparr> in (finishMessage p1, Ret (Inr (completeMessage p1, 0))))
      else if int (length (hbuf p)) < contentLength p then more p
      else if contentLength p < 0 then (p, Panic)
      else ((setBody (Some (take (nat (contentLength p)) (hbuf p))) p)\<lparr>bodyComplete := True, hstate := stateComplete\<rparr>,
            Ret (Inr (None, nat (contentLength p)))))"

datatype chunk_result = ChunkMore | ChunkInvalid | ChunkPanic | ChunkDone "string option" nat

text \<open>
  The loop of \<^verbatim>\<open>parseChunkedBody\<close>.  \<^verbatim>\<open>make([]byte, n)\<close> panics for a negative or too large \<open>n\<close>, and a slice that
  begins after the end of the buffer panics; the sum \<^verbatim>\<open>int(chunkSize)+2\<close> wraps.
\<close>

function chunkLoop :: "string \<Rightarrow> nat \<Rightarrow> string option \<Rightarrow> chunk_result" where
  "chunkLoop buf consumed body =
     (case Index buf CRLF of
        None \<Rightarrow> ChunkMore
      | Some lineEnd \<Rightarrow>
          (case ParseInt (hd (Split (take lineEnd buf) CHR '';'')) 16 of
             None \<Rightarrow> ChunkInvalid
           | Some chunkSize \<Rightarrow>
               let rest = drop (lineEnd + 2) buf;
                   consumed1 = consumed + lineEnd + 2
               in if chunkSize = 0 then (if length rest < 2 then ChunkMore else ChunkDone body (consumed1 + 2))
                  else if int (length rest) < int64 (chunkSize + 2) then ChunkMore
                  else if chunkSize < 0 \<or> int (length rest) < chunkSize + 2 then ChunkPanic
                  else let n = nat chunkSize
                       in chunkLoop (drop (n + 2) rest) (consumed1 + n + 2)
                            (Some ((case body of None \<Rightarrow> [] | Some b \<Rightarrow> b) @ take n rest))))"
  by pat_completeness auto
termination
  by (relation "measure (\<lambda>(buf, _, _). length buf)") (auto dest: Index_Some_less)

declare chunkLoop.simps [simp del]

definition parseChunkedBody :: "http_parser \<Rightarrow> step" where
  "parseChunkedBody p =
     (case chunkLoop (hbuf p) 0 None of
        ChunkMore \<Rightarrow> more p
      | ChunkInvalid \<Rightarrow> bad p ''invalid chunk size''
      | ChunkPanic \<Rightarrow> (p, Panic)
      | ChunkDone body consumed \<Rightarrow>
          ((setBody body p)\<lparr>bodyComplete := True, hstate := stateComplete\<rparr>, Ret (Inr (None, consumed))))"

section \<open>The loop over the buffer\<close>

definition parseNext :: "unicode \<Rightarrow> http_parser \<Rightarrow> step" where
  "parseNext U p =
     (if hstate p = stateComplete then (finishMessage p, Ret (Inr (completeMessage p, 0)))
      else if hbuf p = [] then more p
      else case hstate p of
             stateRequestLine \<Rightarrow> parseRequestLine p
           | stateResponseLine \<Rightarrow> parseResponseLine p
           | stateHeaders \<Rightarrow> parseHeaders U p
           | stateBody \<Rightarrow> parseBody p
           | stateChunkedBody \<Rightarrow> parseChunkedBody p
           | stateComplete \<Rightarrow> (p, Ret (Inl (http_err ErrCodeInvalidState ''invalid parser state''))))"

text \<open>What every step keeps: the buffer is removed only by the loop, and never beyond its end.\<close>

definition step_ok :: "http_parser \<Rightarrow> step \<Rightarrow> bool" where
  "step_ok p = (\<lambda>(p1, r). hbuf p1 = hbuf p \<and>
     (case r of
        Ret (Inr (m, consumed)) \<Rightarrow> consumed \<le> length (hbuf p) \<and> (consumed \<noteq> 0 \<longrightarrow> m = None) \<and>
          (m \<noteq> None \<longrightarrow> hstate p \<in> {stateComplete, stateBody} \<and> hstate p1 = stateRequestLine)
      | _ \<Rightarrow> True))"

lemma hbuf_set [simp]: "hbuf (setHeaders p h) = hbuf p" "hbuf (setBody b p) = hbuf p" "hbuf (finishMessage p) = hbuf p"
  by (auto simp: setHeaders_def setLimits_def setBody_def finishMessage_def split: option.split)

lemma hstate_finish [simp]: "hstate (finishMessage p) = stateRequestLine"
  by (simp add: finishMessage_def)

lemma step_ok_more [simp]: "step_ok p (more p)" and step_ok_bad [simp]: "step_ok p (bad p e)"
  and step_ok_panic [simp]: "step_ok p (p, Panic)"
  by (simp_all add: step_ok_def more_def bad_def)

lemma response_step: "hbuf p = hbuf q \<Longrightarrow> step_ok p (parseResponseLine q)"
  using Index_Some_less [of "hbuf q" CRLF]
  by (auto simp: parseResponseLine_def step_ok_def more_def bad_def Let_def split: option.split)

lemma request_step: "step_ok p (parseRequestLine p)"
  using Index_Some_less [of "hbuf p" CRLF] response_step [of p "p\<lparr>hstate := stateResponseLine\<rparr>"]
  unfolding parseRequestLine_def Let_def
  by (cases "Index (hbuf p) CRLF") (simp_all, simp add: step_ok_def bad_def)

lemma headers_step: "step_ok p (parseHeaders U p)"
  using Index_Some_less [of "hbuf p" "CRLF @ CRLF"]
  unfolding parseHeaders_def Let_def
  by (cases "Index (hbuf p) (CRLF @ CRLF)") (simp_all, simp add: step_ok_def)

lemma body_step: "hstate p = stateBody \<Longrightarrow> step_ok p (parseBody p)"
  by (auto simp: parseBody_def step_ok_def more_def Let_def)

text \<open>One round of the loop on a complete chunk-size line.\<close>

lemma chunk_round:
  assumes "Index buf CRLF = Some e" "take e buf = line" "drop (e + 2) buf = rest"
    "ParseInt (hd (Split line CHR '';'')) 16 = Some k"
  shows "chunkLoop buf c body =
    (if k = 0 then (if length rest < 2 then ChunkMore else ChunkDone body (c + e + 2 + 2))
     else if int (length rest) < int64 (k + 2) then ChunkMore
     else if k < 0 \<or> int (length rest) < k + 2 then ChunkPanic
     else chunkLoop (drop (nat k + 2) rest) (c + e + 2 + nat k + 2)
          (Some ((case body of None \<Rightarrow> [] | Some b \<Rightarrow> b) @ take (nat k) rest)))"
  unfolding chunkLoop.simps [of buf] assms(1) option.case assms(2-4) Let_def by (simp add: add.assoc)

lemma chunk_line:
  assumes "chunkLoop buf c body = ChunkDone b n"
  obtains e k where "Index buf CRLF = Some e" "ParseInt (hd (Split (take e buf) CHR '';'')) 16 = Some k"
  using assms by (subst (asm) chunkLoop.simps) (auto split: option.splits)

lemma chunk_consumed: "chunkLoop buf c body = ChunkDone b n \<Longrightarrow> c < n \<and> n \<le> c + length buf"
proof (induction buf c body rule: chunkLoop.induct)
  case (1 buf c body)
  from "1.prems" obtain e k where e: "Index buf CRLF = Some e"
    and k: "ParseInt (hd (Split (take e buf) CHR '';'')) 16 = Some k" by (rule chunk_line)
  define rest where "rest = drop (e + 2) buf"
  have l: "length buf = e + 2 + length rest" using Index_Some_less [OF e] by (simp add: rest_def)
  note step = chunk_round [OF e refl rest_def [symmetric] k, of c body]
  show ?case
  proof (cases "k = 0")
    case True
    then show ?thesis using "1.prems" step l by (auto split: if_splits)
  next
    case False
    then have n1: "\<not> int (length rest) < int64 (k + 2)" "\<not> (k < 0 \<or> int (length rest) < k + 2)"
      using "1.prems" step by (auto split: if_splits)
    have "nat k + 2 \<le> length rest" using n1(2) by linarith
    then show ?thesis using "1.IH" [OF e k rest_def refl False n1 refl] "1.prems" step n1 False l by simp arith
  qed
qed

lemma chunked_step: "step_ok p (parseChunkedBody p)"
  using chunk_consumed [of "hbuf p" 0 None]
  by (auto simp: parseChunkedBody_def step_ok_def more_def bad_def split: chunk_result.split)

lemma parseNext_ok: "step_ok p (parseNext U p)"
  using response_step [of p p] request_step [of p] headers_step [of p U] body_step [of p] chunked_step [of p]
  unfolding parseNext_def
  by (cases "hstate p") (simp_all, simp_all add: step_ok_def)

lemma parseNext_stepD:
  assumes "parseNext U p = (p1, Ret (Inr (m, consumed)))"
  shows "hbuf p1 = hbuf p" "consumed \<le> length (hbuf p)" "consumed \<noteq> 0 \<Longrightarrow> m = None"
    "m \<noteq> None \<Longrightarrow> hstate p \<in> {stateComplete, stateBody} \<and> hstate p1 = stateRequestLine"
  using parseNext_ok [of p U] assms by (auto simp: step_ok_def)

definition work :: "http_parser \<Rightarrow> nat" where
  "work p = 2 * length (hbuf p) + (if hstate p \<in> {stateComplete, stateBody} then 1 else 0)"

lemma work_message: "parseNext U p = (p1, Ret (Inr (Some m, c))) \<Longrightarrow> work p1 < work p"
  using parseNext_stepD [of U p p1 "Some m" c] by (auto simp: work_def)

lemma work_bytes: "parseNext U p = (p1, Ret (Inr (m, c))) \<Longrightarrow> 0 < c \<Longrightarrow> work (p1\<lparr>hbuf := drop c (hbuf p1)\<rparr>) < work p"
  using parseNext_stepD [of U p p1 m c] by (auto simp: work_def)

definition addMessage :: "http_message option \<Rightarrow> http_message list \<Rightarrow> http_message list" where
  "addMessage m msgs = (case m of None \<Rightarrow> msgs | Some x \<Rightarrow> msgs @ [x])"

type_synonym parsed = "http_parser \<times> (protocol_error + http_message list) outcome"

text \<open>The loop of \<^verbatim>\<open>Parse\<close>; it ends because a round removes bytes or leaves the state of a complete message.\<close>

function (sequential) parseLoop :: "unicode \<Rightarrow> http_parser \<Rightarrow> http_message list \<Rightarrow> parsed" where
  "parseLoop U p msgs =
     (case parseNext U p of
        (p1, Panic) \<Rightarrow> (p1, Panic)
      | (p1, Ret (Inl e)) \<Rightarrow> (p1, Ret (Inl e))
      | (p1, Ret (Inr (m, consumed))) \<Rightarrow>
          if consumed = 0 then
            (if m \<noteq> None \<and> hbuf p1 \<noteq> [] then parseLoop U p1 (addMessage m msgs) else (p1, Ret (Inr (addMessage m msgs))))
          else parseLoop U (p1\<lparr>hbuf := drop consumed (hbuf p1)\<rparr>) (addMessage m msgs))"
  by pat_completeness auto
termination
  by (relation "measure (\<lambda>(U, p, _). work p)") (auto intro: work_message [OF sym] work_bytes [OF sym])

declare parseLoop.simps [simp del]

definition Parse :: "unicode \<Rightarrow> http_parser \<Rightarrow> bytes \<Rightarrow> parsed" where
  "Parse U p data = parseLoop U (p\<lparr>hbuf := hbuf p @ go_string data\<rparr>) []"

definition HasPendingMessage :: "http_parser \<Rightarrow> bool" where
  "HasPendingMessage p \<longleftrightarrow> hstate p = stateComplete"

definition http_Reset :: "http_parser \<Rightarrow> http_parser" where
  "http_Reset p = (finishMessage p)\<lparr>hbuf := []\<rparr>"

definition http_Close :: "http_parser \<Rightarrow> http_parser" where
  "http_Close p = p\<lparr>hbuf := [], currentRequest := None, currentResponse := None\<rparr>"

definition GetState :: "http_parser \<Rightarrow> parse_state \<times> nat \<times> bool \<times> bool \<times> int \<times> bool" where
  "GetState p = (hstate p, length (hbuf p), headerComplete p, bodyComplete p, contentLength p, chunked p)"

end
