(* ===== verification/HttpCorrect.thy ===== *)
theory HttpCorrect
  imports Http
begin

text \<open>
  What makes the parser of \<^verbatim>\<open>util/net/protocol/http/http.go\<close> correct: its states are well formed and
  stay so, where the input is cut does not matter, and which inputs it fails on.
\<close>

section \<open>Well-formed parsers\<close>

text \<open>Which message is being read, and which of the members that describe its body are set, in each state.\<close>

definition wf_parser :: "http_parser \<Rightarrow> bool" where
  "wf_parser p \<longleftrightarrow>
     (case hstate p of
        stateRequestLine \<Rightarrow> currentRequest p = None \<and> currentResponse p = None \<and> contentLength p = 0 \<and> \<not> chunked p
      | stateResponseLine \<Rightarrow> currentRequest p = None \<and> currentResponse p = None \<and> contentLength p = 0 \<and> \<not> chunked p
      | stateHeaders \<Rightarrow> (currentRequest p = None) \<noteq> (currentResponse p = None) \<and> contentLength p = 0 \<and> \<not> chunked p
      | stateBody \<Rightarrow> (currentRequest p = None) \<noteq> (currentResponse p = None) \<and>
          0 < contentLength p \<and> contentLength p \<le> maxBodySize p \<and> \<not> chunked p
      | stateChunkedBody \<Rightarrow> (currentRequest p = None) \<noteq> (currentResponse p = None) \<and> chunked p
      | stateComplete \<Rightarrow> (currentRequest p = None) \<noteq> (currentResponse p = None))"

text \<open>A message as the parser delivers it.\<close>

fun wf_message :: "http_message \<Rightarrow> bool" where
  "wf_message (RequestMsg r) \<longleftrightarrow> bType (Base r) = ''http_request'' \<and> (Body r \<noteq> None \<longrightarrow> bPayload (Base r) = Body r)"
| "wf_message (ResponseMsg r) \<longleftrightarrow> bType (Base r) = ''http_response'' \<and> (Body r \<noteq> None \<longrightarrow> bPayload (Base r) = Body r)"

definition parse_error :: "protocol_error \<Rightarrow> bool" where
  "parse_error e \<longleftrightarrow> errCode e = ErrCodeParseError"

definition typed_step :: "step \<Rightarrow> bool" where
  "typed_step = (\<lambda>(p1, r). wf_parser p1 \<and>
     (case r of
        Panic \<Rightarrow> hstate p1 = stateChunkedBody
      | Ret (Inl e) \<Rightarrow> parse_error e
      | Ret (Inr (m, c)) \<Rightarrow> (\<forall>x. m = Some x \<longrightarrow> wf_message x)))"

lemma wf_New [simp]: "wf_parser NewHTTPParser"
  by (simp add: wf_parser_def NewHTTPParser_def)

lemma wf_hbuf [simp]: "wf_parser (p\<lparr>hbuf := b\<rparr>) = wf_parser p"
  by (cases "hstate p") (simp_all add: wf_parser_def)

lemma wf_finish [simp]: "wf_parser (finishMessage p)"
  by (simp add: wf_parser_def finishMessage_def)

lemma wf_Feed: "wf_parser p \<Longrightarrow> wf_parser (fst (Feed p data))"
  by (simp add: Feed_def Let_def)

lemma wf_Reset: "wf_parser (http_Reset p)"
  by (simp add: http_Reset_def)

lemma typed_more [simp]: "typed_step (more p) = wf_parser p"
  and typed_bad [simp]: "typed_step (bad p e) = wf_parser p"
  by (simp_all add: typed_step_def more_def bad_def parse_error_def protocol_err_def)

lemma typed_response:
  "currentRequest p = None \<Longrightarrow> contentLength p = 0 \<Longrightarrow> \<not> chunked p \<Longrightarrow> wf_parser p \<Longrightarrow>
   typed_step (parseResponseLine p)"
  by (auto simp: parseResponseLine_def typed_step_def wf_parser_def Let_def more_def bad_def parse_error_def
      protocol_err_def split: option.split)

lemma typed_request: "hstate p = stateRequestLine \<Longrightarrow> wf_parser p \<Longrightarrow> typed_step (parseRequestLine p)"
  using typed_response [of "p\<lparr>hstate := stateResponseLine\<rparr>"]
  unfolding parseRequestLine_def Let_def
  by (cases "Index (hbuf p) CRLF") (simp_all add: wf_parser_def, simp_all add: typed_step_def wf_parser_def)

lemma setHeaders_fields [simp]:
  "hstate (setHeaders p h) = hstate p" "maxBodySize (setHeaders p h) = maxBodySize p"
  "(currentRequest (setHeaders p h) = None) = (currentRequest p = None)"
  "(currentResponse (setHeaders p h) = None) = (currentResponse p = None)"
  by (auto simp: setHeaders_def setLimits_def split: option.split)

lemma typed_headers: "hstate p = stateHeaders \<Longrightarrow> wf_parser p \<Longrightarrow> typed_step (parseHeaders U p)"
  unfolding parseHeaders_def Let_def
  by (cases "Index (hbuf p) (CRLF @ CRLF)")
    (simp_all, simp add: typed_step_def wf_parser_def shouldParseBody_def)

lemma setBody_fields [simp]:
  "hstate (setBody b p) = hstate p" "chunked (setBody b p) = chunked p"
  "(currentRequest (setBody b p) = None) = (currentRequest p = None)"
  "(currentResponse (setBody b p) = None) = (currentResponse p = None)"
  by (auto simp: setBody_def split: option.split)

lemma typed_body: "hstate p = stateBody \<Longrightarrow> wf_parser p \<Longrightarrow> typed_step (parseBody p)"
  unfolding parseBody_def by (auto simp: typed_step_def wf_parser_def more_def)

lemma typed_chunked: "hstate p = stateChunkedBody \<Longrightarrow> wf_parser p \<Longrightarrow> typed_step (parseChunkedBody p)"
  unfolding parseChunkedBody_def
  by (cases "chunkLoop (hbuf p) 0 None") (simp_all, simp_all add: typed_step_def wf_parser_def)

lemma completeMessage_wf: "completeMessage p = Some m \<Longrightarrow> wf_message m"
  by (auto simp: completeMessage_def split: option.splits)

lemma completeMessage_Some: "currentRequest p \<noteq> None \<or> currentResponse p \<noteq> None \<Longrightarrow> completeMessage p \<noteq> None"
  by (auto simp: completeMessage_def split: option.splits)

lemma parseNext_typed: "wf_parser p \<Longrightarrow> typed_step (parseNext U p)"
proof (cases "hstate p")
  case stateResponseLine
  then show "wf_parser p \<Longrightarrow> ?thesis" using typed_response [of p] by (simp add: parseNext_def) (simp add: wf_parser_def)
next
  case stateComplete
  then show ?thesis using completeMessage_wf by (simp add: parseNext_def typed_step_def)
qed (simp_all add: parseNext_def typed_request typed_headers typed_body typed_chunked)

lemma parseLoop_typed:
  "wf_parser p \<Longrightarrow> list_all wf_message msgs \<Longrightarrow> parseLoop U p msgs = (p', r) \<Longrightarrow>
   wf_parser p' \<and> (case r of Panic \<Rightarrow> hstate p' = stateChunkedBody | Ret (Inl e) \<Rightarrow> parse_error e
     | Ret (Inr ms) \<Rightarrow> list_all wf_message ms)"
proof (induction U p msgs rule: parseLoop.induct)
  case (1 U p msgs)
  obtain p1 s where s: "parseNext U p = (p1, s)" by fastforce
  have t: "typed_step (p1, s)" using parseNext_typed [OF "1.prems"(1), of U] s by simp
  show ?case
  proof (cases s)
    case Panic
    then show ?thesis using "1.prems"(3) s t by (auto simp: parseLoop.simps [of U p msgs] typed_step_def)
  next
    case (Ret x)
    show ?thesis
    proof (cases x)
      case (Inl e)
      then show ?thesis using "1.prems"(3) s t Ret by (auto simp: parseLoop.simps [of U p msgs] typed_step_def)
    next
      case (Inr y)
      obtain m c where y: "y = (m, c)" by fastforce
      note eq = parseLoop.simps [of U p msgs, unfolded s Ret Inr y, simplified]
      have wf: "wf_parser p1" and ms: "list_all wf_message (addMessage m msgs)"
        using t Ret Inr y "1.prems"(2) by (auto simp: typed_step_def addMessage_def split: option.split)
      note IH = "1.IH" [OF s [symmetric] Ret Inr y [symmetric]]
      show ?thesis
      proof (cases "c = 0")
        case True
        show ?thesis
        proof (cases "m \<noteq> None \<and> hbuf p1 \<noteq> []")
          case t2: True
          then show ?thesis using IH(1) [OF True t2 wf ms] "1.prems"(3) eq True by simp
        next
          case False
          then have "(p', r) = (p1, Ret (Inr (addMessage m msgs)))" using "1.prems"(3) eq True by auto
          then show ?thesis using wf ms by simp
        qed
      next
        case False
        then show ?thesis using IH(2) [OF False _ ms] wf "1.prems"(3) eq by simp
      qed
    qed
  qed
qed

text \<open>C15: a well-formed parser stays well formed whatever bytes it is given.  It never reaches an
  invalid state: the only errors are parse errors, every message it delivers is a request or a response of
  that type whose payload is its body, and the only panic is in a chunked body.\<close>

theorem parser_type_soundness:
  assumes "wf_parser p" "Parse U p data = (p', r)"
  shows "wf_parser p' \<and>
    (case r of
       Panic \<Rightarrow> hstate p' = stateChunkedBody
     | Ret (Inl e) \<Rightarrow> errCode e = ErrCodeParseError
     | Ret (Inr msgs) \<Rightarrow> list_all wf_message msgs)"
  using parseLoop_typed [of "p\<lparr>hbuf := hbuf p @ go_string data\<rparr>" "[]" U p' r, unfolded parse_error_def] assms
  by (simp add: Parse_def)

section \<open>Where the input is cut\<close>

definition grow :: "string \<Rightarrow> http_parser \<Rightarrow> http_parser" where
  "grow t p = p\<lparr>hbuf := hbuf p @ t\<rparr>"

lemma grow_fields [simp]: "hbuf (grow t p) = hbuf p @ t" "hstate (grow t p) = hstate p" "contentLength (grow t p) = contentLength p"
  "chunked (grow t p) = chunked p" "maxBodySize (grow t p) = maxBodySize p" "currentRequest (grow t p) = currentRequest p"
  "currentResponse (grow t p) = currentResponse p" "wf_parser (grow t p) = wf_parser p"
  by (simp_all add: grow_def)

lemma grow_Nil [simp]: "grow [] p = p"
  by (simp add: grow_def)

text \<open>A step that removes bytes or completes a message does the same when more bytes have arrived.\<close>

definition grows :: "string \<Rightarrow> step \<Rightarrow> step \<Rightarrow> bool" where
  "grows t = (\<lambda>(p1, r) s'. case r of
     Ret (Inr (m, c)) \<Rightarrow> (c \<noteq> 0 \<or> m \<noteq> None) \<longrightarrow> s' = (grow t p1, Ret (Inr (m, c)))
   | _ \<Rightarrow> True)"

lemma grows_more [simp]: "grows t (more p) s" and grows_bad [simp]: "grows t (bad p e) s" and grows_panic [simp]: "grows t (p, Panic) s"
  by (simp_all add: grows_def more_def bad_def)

lemma response_grows: "grows t (parseResponseLine p) (parseResponseLine (grow t p))"
proof (cases "Index (hbuf p) CRLF")
  case None
  then show ?thesis by (simp add: parseResponseLine_def)
next
  case (Some e)
  then have "Index (hbuf (grow t p)) CRLF = Some e" "take e (hbuf (grow t p)) = take e (hbuf p)"
    using Index_append [OF Some] Index_le [OF Some] by auto
  then show ?thesis using Some
    by (auto simp: parseResponseLine_def Let_def split: option.split) (simp_all add: grows_def grow_def)
qed

lemma request_grows: "grows t (parseRequestLine p) (parseRequestLine (grow t p))"
proof (cases "Index (hbuf p) CRLF")
  case None
  then show ?thesis by (simp add: parseRequestLine_def)
next
  case (Some e)
  then have e: "Index (hbuf (grow t p)) CRLF = Some e" "take e (hbuf (grow t p)) = take e (hbuf p)"
    using Index_append [OF Some] Index_le [OF Some] by auto
  have "grow t (p\<lparr>hstate := stateResponseLine\<rparr>) = (grow t p)\<lparr>hstate := stateResponseLine\<rparr>" by (simp add: grow_def)
  with response_grows [of t "p\<lparr>hstate := stateResponseLine\<rparr>"] show ?thesis
    unfolding parseRequestLine_def Let_def e(1) Some option.case e(2) by (simp, simp add: grows_def grow_def)
qed

lemma setHeaders_grow [simp]: "setHeaders (grow t p) h = grow t (setHeaders p h)"
  by (simp add: setHeaders_def setLimits_def grow_def split: option.split)

lemma headers_grows: "grows t (parseHeaders U p) (parseHeaders U (grow t p))"
proof (cases "Index (hbuf p) (CRLF @ CRLF)")
  case None
  then show ?thesis by (simp add: parseHeaders_def)
next
  case (Some e)
  then have e: "Index (hbuf (grow t p)) (CRLF @ CRLF) = Some e" "take e (hbuf (grow t p)) = take e (hbuf p)"
    using Index_append [OF Some] Index_le [OF Some] by auto
  show ?thesis
    unfolding parseHeaders_def Let_def e(1) Some option.case e(2)
    by (simp add: grows_def shouldParseBody_def) (simp add: grow_def)
qed

lemma setBody_grow [simp]: "setBody b (grow t p) = grow t (setBody b p)"
  by (simp add: setBody_def grow_def split: option.split)

lemma body_grows:
  assumes "0 < contentLength p"
  shows "grows t (parseBody p) (parseBody (grow t p))"
proof (cases "int (length (hbuf p)) < contentLength p")
  case False
  then have "take (nat (contentLength p)) (hbuf p @ t) = take (nat (contentLength p)) (hbuf p)" by simp
  with False assms show ?thesis by (simp add: parseBody_def grows_def) (simp add: grow_def)
qed (use assms in \<open>simp add: parseBody_def\<close>)

lemma chunkLoop_append: "chunkLoop buf c body = ChunkDone b n \<Longrightarrow> chunkLoop (buf @ t) c body = ChunkDone b n"
proof (induction buf c body rule: chunkLoop.induct)
  case (1 buf c body)
  from "1.prems" obtain e k where e: "Index buf CRLF = Some e"
    and k: "ParseInt (hd (Split (take e buf) CHR '';'')) 16 = Some k" by (rule chunk_line)
  define rest where "rest = drop (e + 2) buf"
  have "e + 2 \<le> length buf" using Index_Some_less [OF e] by simp
  then have et: "take e (buf @ t) = take e buf" "drop (e + 2) (buf @ t) = rest @ t" by (auto simp: rest_def)
  note step = chunk_round [OF e refl rest_def [symmetric] k, of c body]
  note stept = chunk_round [OF Index_append [OF e, of t] et k, of c body]
  show ?case
  proof (cases "k = 0")
    case True
    then show ?thesis using "1.prems" step stept by (auto split: if_splits)
  next
    case False
    then have n1: "\<not> int (length rest) < int64 (k + 2)" "\<not> (k < 0 \<or> int (length rest) < k + 2)"
      using "1.prems" step by (auto split: if_splits)
    then have "nat k + 2 \<le> length rest" by linarith
    then have "drop (nat k + 2) (rest @ t) = drop (nat k + 2) rest @ t" "take (nat k) (rest @ t) = take (nat k) rest" by auto
    then show ?thesis
      using "1.IH" [OF e k rest_def refl False n1 refl] "1.prems" step stept n1 False by (simp del: take_append drop_append)
  qed
qed

lemma chunked_grows: "grows t (parseChunkedBody p) (parseChunkedBody (grow t p))"
proof (cases "chunkLoop (hbuf p) 0 None")
  case (ChunkDone b n)
  then show ?thesis using chunkLoop_append [OF ChunkDone, of t]
    by (simp add: parseChunkedBody_def grows_def) (simp add: grow_def)
qed (simp_all add: parseChunkedBody_def)

lemma complete_grow [simp]: "completeMessage (grow t p) = completeMessage p" "finishMessage (grow t p) = grow t (finishMessage p)"
  unfolding completeMessage_def finishMessage_def grow_fields by (rule refl, simp add: grow_def)

lemma parseNext_grows:
  assumes "wf_parser p"
  shows "grows t (parseNext U p) (parseNext U (grow t p))"
proof (cases "hstate p = stateComplete")
  case True
  then show ?thesis by (simp add: parseNext_def grows_def)
next
  case False
  show ?thesis
  proof (cases "hbuf p = []")
    case True
    then show ?thesis using False by (simp add: parseNext_def)
  next
    case ne: False
    then show ?thesis using False assms
      by (cases "hstate p")
        (simp_all add: parseNext_def request_grows response_grows headers_grows body_grows chunked_grows wf_parser_def)
  qed
qed

lemma parseNext_wf: "wf_parser p \<Longrightarrow> parseNext U p = (p1, r) \<Longrightarrow> wf_parser p1"
  using parseNext_typed [of p U] by (simp add: typed_step_def)

lemma parseNext_stays:
  assumes "wf_parser p" "parseNext U p = (p1, Ret (Inr (None, 0)))"
  shows "p1 = p"
proof -
  have resp: "parseResponseLine q = (p1, Ret (Inr (None, 0))) \<Longrightarrow> Index (hbuf q) CRLF = None \<and> p1 = q" for q
    by (auto simp: parseResponseLine_def more_def bad_def Let_def split: option.splits if_splits)
  show ?thesis
  proof (cases "hstate p")
    case stateRequestLine
    then show ?thesis using assms resp [of "p\<lparr>hstate := stateResponseLine\<rparr>"]
      by (auto simp: parseNext_def parseRequestLine_def more_def bad_def Let_def split: option.splits if_splits)
  next
    case stateResponseLine
    then show ?thesis using assms resp [of p] by (auto simp: parseNext_def more_def split: if_splits)
  next
    case stateHeaders
    then show ?thesis using assms
      by (auto simp: parseNext_def parseHeaders_def more_def bad_def Let_def split: option.splits if_splits)
  next
    case stateBody
    then show ?thesis using assms
      by (auto simp: parseNext_def parseBody_def more_def bad_def Let_def wf_parser_def split: if_splits)
  next
    case stateChunkedBody
    then show ?thesis using assms chunk_consumed [of "hbuf p" 0 None]
      by (auto simp: parseNext_def parseChunkedBody_def more_def bad_def split: chunk_result.splits if_splits)
  next
    case stateComplete
    then have "currentRequest p \<noteq> None \<or> currentResponse p \<noteq> None" using assms(1) by (auto simp: wf_parser_def)
    then show ?thesis using assms(2) stateComplete completeMessage_Some [of p] by (auto simp: parseNext_def)
  qed
qed

text \<open>A parser with an empty buffer that is not at the end of a message does nothing.\<close>

lemma parseLoop_idle:
  assumes "hbuf p = []" "hstate p = stateRequestLine"
  shows "parseLoop U p msgs = (p, Ret (Inr msgs))"
  using assms by (simp add: parseLoop.simps [of U p] parseNext_def more_def addMessage_def)

lemma parseLoop_grow:
  "wf_parser p \<Longrightarrow> parseLoop U p msgs = (p', Ret (Inr ms)) \<Longrightarrow>
   parseLoop U (grow t p) msgs = parseLoop U (grow t p') ms"
proof (induction U p msgs rule: parseLoop.induct)
  case (1 U p msgs)
  obtain p1 s where s: "parseNext U p = (p1, s)" by fastforce
  from "1.prems"(2) s obtain m c where y: "s = Ret (Inr (m, c))"
    by (subst (asm) parseLoop.simps) (auto split: outcome.splits sum.splits)
  have eq: "parseLoop U p msgs =
      (if c = 0 then if m \<noteq> None \<and> hbuf p1 \<noteq> [] then parseLoop U p1 (addMessage m msgs) else (p1, Ret (Inr (addMessage m msgs)))
       else parseLoop U (p1\<lparr>hbuf := drop c (hbuf p1)\<rparr>) (addMessage m msgs))"
    unfolding parseLoop.simps [of U p] s y by simp
  note b = parseNext_stepD [OF s [unfolded y]]
  have wf1: "wf_parser p1" by (rule parseNext_wf [OF "1.prems"(1) s])
  note IH = "1.IH" [OF s [symmetric] y refl refl]
  show ?case
  proof (cases "c = 0 \<and> m = None")
    case True
    then have "p1 = p" using parseNext_stays [OF "1.prems"(1), of U p1] s y by simp
    then show ?thesis using "1.prems"(2) eq True by (simp add: addMessage_def)
  next
    case False
    then have next_grow: "parseNext U (grow t p) = (grow t p1, Ret (Inr (m, c)))"
      using parseNext_grows [OF "1.prems"(1), of t U] s y by (auto simp: grows_def)
    have eqt: "parseLoop U (grow t p) msgs =
      (if c = 0 then if m \<noteq> None \<and> hbuf (grow t p1) \<noteq> [] then parseLoop U (grow t p1) (addMessage m msgs)
         else (grow t p1, Ret (Inr (addMessage m msgs)))
       else parseLoop U ((grow t p1)\<lparr>hbuf := drop c (hbuf (grow t p1))\<rparr>) (addMessage m msgs))"
      unfolding parseLoop.simps [of U "grow t p"] next_grow by simp
    show ?thesis
    proof (cases "c = 0")
      case True
      with False have m: "m \<noteq> None" by simp
      show ?thesis
      proof (cases "hbuf p1 = []")
        case empty: True
        then have "p' = p1" "ms = addMessage m msgs" using "1.prems"(2) eq True by auto
        moreover have "hstate p1 = stateRequestLine" using b(4) m by simp
        ultimately show ?thesis using eqt True m empty
          by (cases "t = []") (simp_all add: parseLoop_idle)
      next
        case ne: False
        then show ?thesis using IH(1) [OF True _ wf1] m "1.prems"(2) eq eqt True by simp
      qed
    next
      case c: False
      have d: "grow t (p1\<lparr>hbuf := drop c (hbuf p1)\<rparr>) = (grow t p1)\<lparr>hbuf := drop c (hbuf (grow t p1))\<rparr>"
        using b(1,2) by (simp add: grow_def)
      have "parseLoop U (grow t (p1\<lparr>hbuf := drop c (hbuf p1)\<rparr>)) (addMessage m msgs) = parseLoop U (grow t p') ms"
        by (rule IH(2) [OF c]) (use wf1 "1.prems"(2) eq c in auto)
      then show ?thesis using eqt c unfolding d by simp
    qed
  qed
qed

text \<open>The messages found so far do not influence the parser.\<close>

definition prepend :: "http_message list \<Rightarrow> parsed \<Rightarrow> parsed" where
  "prepend ms = (\<lambda>(p, r). (p, case r of Ret (Inr ns) \<Rightarrow> Ret (Inr (ms @ ns)) | _ \<Rightarrow> r))"

lemma parseLoop_prepend: "parseLoop U p (ms @ ns) = prepend ms (parseLoop U p ns)"
proof (induction U p ns rule: parseLoop.induct)
  case (1 U p ns)
  obtain p1 s where s: "parseNext U p = (p1, s)" by fastforce
  have add: "addMessage m (ms @ ns) = ms @ addMessage m ns" for m
    by (simp add: addMessage_def split: option.split)
  show ?case
  proof (cases s)
    case Panic
    then show ?thesis by (simp add: parseLoop.simps [of U p] s prepend_def)
  next
    case (Ret x)
    show ?thesis
    proof (cases x)
      case (Inl e)
      then show ?thesis by (simp add: parseLoop.simps [of U p] s Ret prepend_def)
    next
      case (Inr y)
      obtain m c where y: "y = (m, c)" by fastforce
      note IH = "1.IH" [OF s [symmetric] Ret Inr y [symmetric]]
      show ?thesis
        unfolding parseLoop.simps [of U p] s Ret Inr y using IH by (auto simp: add prepend_def)
    qed
  qed
qed

lemma Parse_append:
  assumes "wf_parser p" "Parse U p a = (p', Ret (Inr ms))"
  shows "Parse U p (a @ b) = prepend ms (Parse U p' b)"
proof -
  let ?pa = "p\<lparr>hbuf := hbuf p @ go_string a\<rparr>"
  have "parseLoop U ?pa [] = (p', Ret (Inr ms))" using assms(2) by (simp add: Parse_def)
  then have "parseLoop U (grow (go_string b) ?pa) [] = parseLoop U (grow (go_string b) p') ms"
    using parseLoop_grow [of ?pa U "[]"] assms(1) by simp
  then show ?thesis using parseLoop_prepend [of U _ ms "[]"] by (simp add: Parse_def grow_def)
qed

text \<open>The parser as a stream parser; a panic counts as a failed call.\<close>

definition http_stream :: "unicode \<Rightarrow> http_parser \<Rightarrow> bytes \<Rightarrow> http_parser \<times> (protocol_error option + http_message list)" where
  "http_stream U p data =
     (case Parse U p data of
        (p', Panic) \<Rightarrow> (p', Inl None)
      | (p', Ret (Inl e)) \<Rightarrow> (p', Inl (Some e))
      | (p', Ret (Inr ms)) \<Rightarrow> (p', Inr ms))"

lemma http_stream_Inr: "http_stream U p a = (p', Inr ms) \<longleftrightarrow> Parse U p a = (p', Ret (Inr ms))"
  by (auto simp: http_stream_def split: prod.split outcome.split sum.split)

interpretation http: stream_parser "http_stream U" wf_parser for U
proof
  show "wf_parser s \<Longrightarrow> http_stream U s a = (s', Inr ms) \<Longrightarrow> wf_parser s'" for s a s' ms
    using parseLoop_typed [of "s\<lparr>hbuf := hbuf s @ go_string a\<rparr>" "[]" U s'] by (simp add: http_stream_Inr Parse_def)
  show "wf_parser s \<Longrightarrow> http_stream U s a = (s', Inr ms) \<Longrightarrow> http_stream U s (a @ b) =
      (case http_stream U s' b of (t, Inr ns) \<Rightarrow> (t, Inr (ms @ ns)) | (t, Inl e) \<Rightarrow> (t, Inl e))" for s a s' ms b
    using Parse_append [of s U a s' ms b]
    by (auto simp: http_stream_Inr) (auto simp: http_stream_def prepend_def split: prod.split outcome.split sum.split)
qed

text \<open>How the bytes of a connection are cut into reads does not matter: a well-formed parser that is
  given them one read after the other delivers the messages, and ends in the state, of a parser that is
  given all of them at once.\<close>

theorem http_reads_concat:
  assumes "wf_parser p" "feedAll (http_stream U) p (a # as) = (p', Inr msgs)"
  shows "Parse U p (concat (a # as)) = (p', Ret (Inr msgs))"
  using http.feedAll_concat [OF assms] by (simp only: http_stream_Inr)

definition asciiOnly :: unicode where
  "asciiOnly = \<lparr>lower_unicode = id, trim_unicode = id\<rparr>"

definition read1 :: string where "read1 = ''POST /a HTTP/1.1'' @ CRLF @ ''Content-''"
definition read2 :: string where "read2 = ''Length: 2'' @ CRLF @ CRLF @ ''ab''"
definition after1 :: http_parser where "after1 = fst (parseLoop asciiOnly (NewHTTPParser\<lparr>hbuf := read1\<rparr>) [])"

lemma Parse_string: "Parse U p (go_bytes s) = parseLoop U (p\<lparr>hbuf := hbuf p @ s\<rparr>) []"
  by (simp add: Parse_def)

declare chunkLoop.simps [code] parseLoop.simps [code] ScanLines.simps [code]

text \<open>Executable tests of the outcome of a parse.\<close>

definition delivers :: "parsed \<Rightarrow> (http_message list \<Rightarrow> bool) \<Rightarrow> bool" where
  "delivers r P = (case snd r of Ret (Inr ms) \<Rightarrow> P ms | _ \<Rightarrow> False)"

definition oneRequest :: "(http_request \<Rightarrow> bool) \<Rightarrow> http_message list \<Rightarrow> bool" where
  "oneRequest P ms \<longleftrightarrow> length ms = 1 \<and> (case hd ms of RequestMsg r \<Rightarrow> P r | ResponseMsg _ \<Rightarrow> False)"

lemma oneRequestE: "oneRequest P ms \<Longrightarrow> (\<And>r. ms = [RequestMsg r] \<Longrightarrow> P r \<Longrightarrow> thesis) \<Longrightarrow> thesis"
  by (cases ms) (auto simp: oneRequest_def split: http_message.splits)

lemma deliversE: "delivers r P \<Longrightarrow> (\<And>p ms. r = (p, Ret (Inr ms)) \<Longrightarrow> P ms \<Longrightarrow> thesis) \<Longrightarrow> thesis"
  by (cases r) (auto simp: delivers_def split: outcome.splits sum.splits)

lemma read_runs:
  "delivers (parseLoop asciiOnly (NewHTTPParser\<lparr>hbuf := read1\<rparr>) []) (\<lambda>ms. ms = [])"
  "delivers (parseLoop asciiOnly (after1\<lparr>hbuf := hbuf after1 @ read2\<rparr>) [])
     (oneRequest (\<lambda>r. Method r = ''POST'' \<and> Body r = Some ''ab''))"
  by code_simp+

lemma twoReads_run:
  obtains p' r where "feedAll (http_stream asciiOnly) NewHTTPParser [go_bytes read1, go_bytes read2] = (p', Inr [RequestMsg r])"
    "Method r = ''POST''" "Body r = Some ''ab''"
proof -
  have "Parse asciiOnly NewHTTPParser (go_bytes read1) = (after1, Ret (Inr []))"
    by (rule deliversE [OF read_runs(1)]) (simp add: Parse_string after1_def NewHTTPParser_def)
  moreover obtain p' r where "Parse asciiOnly after1 (go_bytes read2) = (p', Ret (Inr [RequestMsg r]))"
    "Method r = ''POST''" "Body r = Some ''ab''"
    by (rule deliversE [OF read_runs(2)]) (auto simp: Parse_string elim: oneRequestE)
  ultimately show ?thesis using that by (simp add: http_stream_Inr [symmetric])
qed

theorem http_reads_concat_witness:
  "\<exists>p' r. Parse asciiOnly NewHTTPParser (concat [go_bytes read1, go_bytes read2]) = (p', Ret (Inr [RequestMsg r]))
     \<and> Method r = ''POST'' \<and> Body r = Some ''ab''"
  by (rule twoReads_run) (use http_reads_concat [OF wf_New] in blast)

theorem parser_type_soundness_witness:
  "case Parse asciiOnly NewHTTPParser (go_bytes read1) of
     (p', Ret (Inr msgs)) \<Rightarrow> wf_parser p' \<and> list_all wf_message msgs | _ \<Rightarrow> True"
  using parser_type_soundness [OF wf_New, of asciiOnly "go_bytes read1"]
  by (auto split: prod.split outcome.split sum.split)

section \<open>Inputs that the parser fails on\<close>

text \<open>An error is about the size of what has arrived so far, or about its format.\<close>

definition sizeError :: "protocol_error \<Rightarrow> bool" where
  "sizeError e \<longleftrightarrow> errMessage e \<in> {''request line too long'', ''response line too long'', ''headers too large''}"

definition sticks :: "string \<Rightarrow> unicode \<Rightarrow> step \<Rightarrow> bool" where
  "sticks t U = (\<lambda>(p1, r). \<forall>e. r = Ret (Inl e) \<longrightarrow> \<not> sizeError e \<longrightarrow> parseNext U (grow t p1) = (grow t p1, Ret (Inl e)))"

lemma sticks_more [simp]: "sticks t U (more p)"
  by (simp add: sticks_def more_def)

lemma sticks_Inr [simp]: "sticks t U (p, Ret (Inr x))"
  by (simp add: sticks_def)

lemma sticks_bad:
  "(\<not> sizeError (http_err ErrCodeParseError msg) \<Longrightarrow> parseNext U (grow t p) = bad (grow t p) msg) \<Longrightarrow> sticks t U (bad p msg)"
  by (simp add: sticks_def bad_def)

lemma sizeErrors [simp]:
  "sizeError (http_err c ''request line too long'')" "sizeError (http_err c ''response line too long'')"
  "sizeError (http_err c ''headers too large'')"
  by (simp_all add: sizeError_def protocol_err_def)

lemma Index_ne: "Index s CRLF = Some e \<Longrightarrow> s \<noteq> []"
  by auto

lemma sticks_response:
  assumes "hstate p = stateResponseLine"
  shows "sticks t U (parseResponseLine p)"
proof (cases "Index (hbuf p) CRLF")
  case None
  then show ?thesis by (auto simp: parseResponseLine_def intro: sticks_bad)
next
  case (Some e)
  have e: "Index (hbuf p @ t) CRLF = Some e" "take e (hbuf p @ t) = take e (hbuf p)"
    using Index_append [OF Some] Index_le [OF Some] by auto
  have n: "parseNext U (grow t p) = parseResponseLine (grow t p)"
    using assms Index_ne [OF Some] by (simp add: parseNext_def)
  show ?thesis
    unfolding parseResponseLine_def [of p] Some option.case Let_def
    by (auto simp: n parseResponseLine_def [of "grow t p"] e(1) Let_def e(2) simp del: take_append
        split: option.split intro!: sticks_bad)
qed

lemma sticks_request:
  assumes "hstate p = stateRequestLine"
  shows "sticks t U (parseRequestLine p)"
proof (cases "Index (hbuf p) CRLF")
  case None
  then show ?thesis by (auto simp: parseRequestLine_def intro: sticks_bad)
next
  case (Some e)
  have e: "Index (hbuf p @ t) CRLF = Some e" "take e (hbuf p @ t) = take e (hbuf p)"
    using Index_append [OF Some] Index_le [OF Some] by auto
  have n: "parseNext U (grow t p) = parseRequestLine (grow t p)"
    using assms Index_ne [OF Some] by (simp add: parseNext_def)
  show ?thesis
    unfolding parseRequestLine_def [of p] Some option.case Let_def
    by (auto simp: n parseRequestLine_def [of "grow t p"] e(1) Let_def e(2) sticks_response simp del: take_append
        intro!: sticks_bad)
qed

lemma chunk_invalid_append: "chunkLoop buf c body = ChunkInvalid \<Longrightarrow> chunkLoop (buf @ t) c body = ChunkInvalid"
proof (induction buf c body rule: chunkLoop.induct)
  case (1 buf c body)
  from "1.prems" obtain e where e: "Index buf CRLF = Some e"
    by (subst (asm) chunkLoop.simps) (auto split: option.splits)
  define rest where "rest = drop (e + 2) buf"
  have "e + 2 \<le> length buf" using Index_Some_less [OF e] by simp
  then have et: "take e (buf @ t) = take e buf" "drop (e + 2) (buf @ t) = rest @ t" by (auto simp: rest_def)
  show ?case
  proof (cases "ParseInt (hd (Split (take e buf) CHR '';'')) 16")
    case None
    then show ?thesis
      unfolding chunkLoop.simps [of "buf @ t"] Index_append [OF e, of t] option.case et(1) by simp
  next
    case k: (Some k)
    note step = chunk_round [OF e refl rest_def [symmetric] k, of c body]
    note stept = chunk_round [OF Index_append [OF e, of t] et k, of c body]
    have n1: "k \<noteq> 0" "\<not> int (length rest) < int64 (k + 2)" "\<not> (k < 0 \<or> int (length rest) < k + 2)"
      using "1.prems" step by (auto split: if_splits)
    then have "nat k + 2 \<le> length rest" by linarith
    then have "drop (nat k + 2) (rest @ t) = drop (nat k + 2) rest @ t" "take (nat k) (rest @ t) = take (nat k) rest" by auto
    then show ?thesis
      using "1.IH" [OF e k rest_def refl n1 refl] "1.prems" step stept n1 by (simp del: take_append drop_append)
  qed
qed

lemma sticks_chunked:
  assumes "hstate p = stateChunkedBody" "hbuf p \<noteq> []"
  shows "sticks t U (parseChunkedBody p)"
proof (cases "chunkLoop (hbuf p) 0 None")
  case ChunkInvalid
  then have "parseNext U (grow t p) = bad (grow t p) ''invalid chunk size''"
    using assms chunk_invalid_append [OF ChunkInvalid, of t] by (simp add: parseNext_def parseChunkedBody_def)
  then show ?thesis using ChunkInvalid by (simp add: parseChunkedBody_def sticks_bad)
qed (simp_all add: parseChunkedBody_def, simp add: sticks_def)

lemma parseNext_sticks: "sticks t U (parseNext U p)"
proof (cases "hstate p = stateComplete \<or> hbuf p = []")
  case True
  then show ?thesis by (auto simp: parseNext_def)
next
  case False
  then show ?thesis
  proof (cases "hstate p")
    case stateHeaders
    then show ?thesis using False
      by (auto simp: parseNext_def parseHeaders_def Let_def split: option.split intro!: sticks_bad)
  next
    case stateBody
    then show ?thesis using False by (auto simp: parseNext_def parseBody_def Let_def sticks_def more_def)
  qed (auto simp: parseNext_def sticks_request sticks_response sticks_chunked)
qed

lemma parseLoop_failed:
  "parseLoop U p msgs = (p', Ret (Inl e)) \<Longrightarrow> \<exists>q. parseNext U q = (p', Ret (Inl e))"
proof (induction U p msgs rule: parseLoop.induct)
  case (1 U p msgs)
  obtain p1 s where s: "parseNext U p = (p1, s)" by fastforce
  show ?case
  proof (cases "\<exists>e. s = Ret (Inl e)")
    case True
    then show ?thesis using "1.prems" s by (auto simp: parseLoop.simps [of U p])
  next
    case False
    with "1.prems" s obtain m c where y: "s = Ret (Inr (m, c))"
      by (subst (asm) parseLoop.simps) (auto split: outcome.splits sum.splits)
    note IH = "1.IH" [OF s [symmetric] y refl refl]
    show ?thesis using "1.prems" IH unfolding parseLoop.simps [of U p] s y by (auto split: if_splits)
  qed
qed

text \<open>After a malformed request line, status line or chunk size the parser is stuck: it keeps the
  bad bytes in its buffer and every later call gives the same error, until it is reset.\<close>

theorem format_error_sticks:
  assumes "Parse U p a = (p', Ret (Inl e))"
    "errMessage e \<notin> {''request line too long'', ''response line too long'', ''headers too large''}"
  shows "Parse U p' b = (p'\<lparr>hbuf := hbuf p' @ go_string b\<rparr>, Ret (Inl e))"
proof -
  from parseLoop_failed obtain q where "parseNext U q = (p', Ret (Inl e))"
    using assms(1) unfolding Parse_def by blast
  then have "parseNext U (grow (go_string b) p') = (grow (go_string b) p', Ret (Inl e))"
    using parseNext_sticks [of "go_string b" U q] assms(2) by (simp add: sticks_def sizeError_def)
  then show ?thesis by (simp add: Parse_def parseLoop.simps [of U "p'\<lparr>hbuf := hbuf p' @ go_string b\<rparr>"] grow_def)
qed

lemma malformed_run:
  "(case snd (parseLoop asciiOnly (NewHTTPParser\<lparr>hbuf := ''BAD'' @ CRLF\<rparr>) []) of
      Ret (Inl e) \<Rightarrow> errMessage e = ''invalid request line format'' | _ \<Rightarrow> False)"
  by code_simp

theorem format_error_sticks_witness:
  "\<exists>p' e. snd (Parse asciiOnly p' (go_bytes (''GET / HTTP/1.1'' @ CRLF @ CRLF))) = Ret (Inl e)
     \<and> Parse asciiOnly NewHTTPParser (go_bytes (''BAD'' @ CRLF)) = (p', Ret (Inl e))"
proof -
  obtain p' r where p: "Parse asciiOnly NewHTTPParser (go_bytes (''BAD'' @ CRLF)) = (p', r)" by fastforce
  then have "parseLoop asciiOnly (NewHTTPParser\<lparr>hbuf := ''BAD'' @ CRLF\<rparr>) [] = (p', r)"
    by (simp add: Parse_string NewHTTPParser_def)
  then obtain e where e: "r = Ret (Inl e)" "errMessage e = ''invalid request line format''"
    using malformed_run by (auto split: outcome.splits sum.splits)
  with format_error_sticks [OF p [unfolded e(1)], of "go_bytes (''GET / HTTP/1.1'' @ CRLF @ CRLF)"] p show ?thesis
    by auto
qed

text \<open>A negative chunk size crashes the goroutine that reads the connection: the check that the
  chunk has arrived passes and the slice for its data is made with a negative length.\<close>

theorem negative_chunk_panics:
  assumes "hstate p = stateChunkedBody" "hbuf p @ go_string data = line @ CRLF @ rest" "CR \<notin> set line"
    "ParseInt (hd (Split line CHR '';'')) 16 = Some k" "k < 0" "rest \<noteq> []"
  shows "snd (Parse U p data) = Panic"
proof -
  let ?p = "p\<lparr>hbuf := line @ CRLF @ rest\<rparr>"
  have i: "Index (line @ CRLF @ rest) CRLF = Some (length line)" using Index_sep [of CR line "[LF]" rest] assms(3) by simp
  have "- (2 ^ 63) \<le> k" using ParseInt_range [OF assms(4)] by simp
  then have k: "int64 (k + 2) = k + 2" using assms(5) by (simp add: int64_id)
  have "1 \<le> int (length rest)" using assms(6) by (cases rest) auto
  then have "\<not> int (length rest) < k + 2" using assms(5) by linarith
  then have "chunkLoop (hbuf ?p) 0 None = ChunkPanic"
    using chunk_round [of "line @ CRLF @ rest" "length line" line rest k 0 None] i assms(4,5) k by simp
  then have "parseNext U ?p = (?p, Panic)" using assms(1) by (simp add: parseNext_def parseChunkedBody_def)
  then have "parseLoop U ?p [] = (?p, Panic)" by (subst parseLoop.simps) simp
  then show ?thesis using assms(2) by (simp add: Parse_def)
qed

definition chunkedStart :: string where
  "chunkedStart = ''POST /a HTTP/1.1'' @ CRLF @ ''Transfer-Encoding: chunked'' @ CRLF @ CRLF"

definition chunkedParser :: http_parser where
  "chunkedParser = fst (Parse asciiOnly NewHTTPParser (go_bytes chunkedStart))"

lemma chunkedParser_eq: "chunkedParser = fst (parseLoop asciiOnly (NewHTTPParser\<lparr>hbuf := chunkedStart\<rparr>) [])"
  by (simp add: chunkedParser_def Parse_string NewHTTPParser_def)

lemma chunkedParser_facts: "hstate chunkedParser = stateChunkedBody" "hbuf chunkedParser = []"
  unfolding chunkedParser_eq by code_simp+

theorem negative_chunk_panics_witness:
  "snd (Parse asciiOnly (fst (Parse asciiOnly NewHTTPParser (go_bytes chunkedStart))) (go_bytes (''-1'' @ CRLF @ ''x''))) = Panic"
proof -
  have "hbuf chunkedParser @ go_string (go_bytes (''-1'' @ CRLF @ ''x'')) = ''-1'' @ CRLF @ ''x''"
    by (simp only: chunkedParser_facts go_string_bytes append_Nil)
  moreover have "ParseInt (hd (Split ''-1'' CHR '';'')) 16 = Some (-1)" by code_simp
  ultimately show ?thesis
    using negative_chunk_panics [OF chunkedParser_facts(1), of _ "''-1''" "''x''" "-1" asciiOnly]
    unfolding chunkedParser_def [symmetric] by simp
qed

text \<open>A message whose \<^verbatim>\<open>Content-Length\<close> exceeds the limit is neither rejected nor read to its end: it is
  delivered without a body, and the bytes of its body are parsed as the messages that follow it.\<close>

theorem oversized_body_becomes_messages:
  assumes "hstate p = stateHeaders" "wf_parser p" "currentRequest p = Some r"
    "hbuf p = headerData @ CRLF @ CRLF @ body" "Index (hbuf p) (CRLF @ CRLF) = Some (length headerData)" "body \<noteq> []"
    "lengthHeader (readHeaders U headerData) = Some l" "maxBodySize p < l"
    "hget (readHeaders U headerData) ''transfer-encoding'' \<noteq> ''chunked''"
  shows "\<exists>r'. Method r' = Method r \<and> Path r' = Path r \<and> Body r' = Body r \<and>
    parseLoop U p msgs = parseLoop U ((finishMessage p)\<lparr>hbuf := body\<rparr>) (msgs @ [RequestMsg r'])"
proof -
  let ?h = "readHeaders U headerData"
  let ?r = "setRequestHeaders r ?h"
  let ?p1 = "((setLimits ?h p)\<lparr>currentRequest := Some ?r\<rparr>)\<lparr>headerComplete := True, hstate := stateComplete\<rparr>"
  let ?p2 = "?p1\<lparr>hbuf := body\<rparr>"
  let ?r' = "?r\<lparr>Base := (Base ?r)\<lparr>bType := ''http_request'', bPayload := (if Body ?r \<noteq> None then Body ?r else bPayload (Base ?r))\<rparr>\<rparr>"
  have ne: "hbuf p \<noteq> []" using assms(4) by simp
  have t: "take (length headerData) (hbuf p) = headerData" using assms(4) by simp
  have "\<not> chunked p" using assms(1,2) by (simp add: wf_parser_def)
  then have nobody: "\<not> shouldParseBody ((setHeaders p ?h)\<lparr>headerComplete := True\<rparr>)"
    using assms(3,7,8,9) by (simp add: shouldParseBody_def setHeaders_def setLimits_def)
  have "parseNext U p = (?p1, Ret (Inr (None, length headerData + 4)))"
    using assms(1) ne nobody
    unfolding parseNext_def parseHeaders_def assms(5) option.case t Let_def
    by simp (simp add: setHeaders_def assms(3))
  moreover have "drop (length headerData + 4) (hbuf ?p1) = body"
    using assms(4) by (simp add: setLimits_def eval_nat_numeral)
  ultimately have "parseLoop U p msgs = parseLoop U ?p2 msgs"
    by (subst parseLoop.simps) (simp add: addMessage_def)
  also have "parseNext U ?p2 = (finishMessage ?p2, Ret (Inr (Some (RequestMsg ?r'), 0)))"
    by (simp add: parseNext_def completeMessage_def)
  then have "parseLoop U ?p2 msgs = parseLoop U (finishMessage ?p2) (msgs @ [RequestMsg ?r'])"
    using assms(6) by (subst parseLoop.simps) (simp add: addMessage_def)
  also have "finishMessage ?p2 = (finishMessage p)\<lparr>hbuf := body\<rparr>"
    by (simp add: finishMessage_def setLimits_def)
  finally show ?thesis by (intro exI [of _ ?r']) (simp add: setRequestHeaders_def)
qed

definition bigHeaders :: http_parser where
  "bigHeaders = NewHTTPParser\<lparr>hstate := stateHeaders, currentRequest := Some (newRequest ''POST'' ''/a'' ''HTTP/1.1''),
     hbuf := ''Content-Length: 10485761'' @ CRLF @ CRLF @ ''GET /admin HTTP/1.1'' @ CRLF @ CRLF\<rparr>"

theorem oversized_body_becomes_messages_witness:
  "\<exists>r'. Method r' = ''POST'' \<and> parseLoop asciiOnly bigHeaders [] =
     parseLoop asciiOnly ((finishMessage bigHeaders)\<lparr>hbuf := ''GET /admin HTTP/1.1'' @ CRLF @ CRLF\<rparr>) [RequestMsg r']"
proof -
  have "Index (hbuf bigHeaders) (CRLF @ CRLF) = Some (length ''Content-Length: 10485761'')" by code_simp
  moreover have "lengthHeader (readHeaders asciiOnly ''Content-Length: 10485761'') = Some 10485761" by code_simp
  moreover have "hget (readHeaders asciiOnly ''Content-Length: 10485761'') ''transfer-encoding'' \<noteq> ''chunked''" by code_simp
  ultimately show ?thesis
    using oversized_body_becomes_messages [of bigHeaders "newRequest ''POST'' ''/a'' ''HTTP/1.1''"
        "''Content-Length: 10485761''" "''GET /admin HTTP/1.1'' @ CRLF @ CRLF" asciiOnly 10485761 "[]"]
    by (auto simp: bigHeaders_def wf_parser_def NewHTTPParser_def newRequest_def)
qed

end
