(* ===== verification/GoCrypto.thy ===== *)
theory GoCrypto
  imports Prelude
begin

text \<open>
  The two functions of Go's standard library that the WebSocket handshake uses: \<^verbatim>\<open>crypto/sha1\<close> and
  \<^verbatim>\<open>base64.StdEncoding\<close>.
\<close>

unbundle bit_operations_syntax

section \<open>SHA-1\<close>

text \<open>The bytes of a word, the most significant first, and back.\<close>

definition word_bytes :: "nat \<Rightarrow> u64 \<Rightarrow> bytes" where
  "word_bytes n w = map (\<lambda>i. ucast (drop_bit (8 * i) w)) (rev [0..<n])"

definition bytes_word :: "u8 \<Rightarrow> u8 \<Rightarrow> u8 \<Rightarrow> u8 \<Rightarrow> u32" where
  "bytes_word a b c d = push_bit 24 (ucast a) OR push_bit 16 (ucast b) OR push_bit 8 (ucast c) OR ucast d"

definition sha1_pad :: "bytes \<Rightarrow> bytes" where
  "sha1_pad msg =
     msg @ [0x80] @ replicate (nat ((55 - int (length msg)) mod 64)) 0 @ word_bytes 8 (word_of_int (8 * int (length msg)))"

fun sha1_words :: "bytes \<Rightarrow> u32 list" where
  "sha1_words (a # b # c # d # bs) = bytes_word a b c d # sha1_words bs"
| "sha1_words _ = []"

text \<open>The words of the schedule, the newest first.\<close>

primrec sha1_extend :: "nat \<Rightarrow> u32 list \<Rightarrow> u32 list" where
  "sha1_extend 0 ws = ws"
| "sha1_extend (Suc n) ws =
     sha1_extend n (word_rotl 1 (ws ! 2 XOR ws ! 7 XOR ws ! 13 XOR ws ! 15) # ws)"

type_synonym sha1_state = "u32 \<times> u32 \<times> u32 \<times> u32 \<times> u32"

definition sha1_f :: "int \<Rightarrow> u32 \<Rightarrow> u32 \<Rightarrow> u32 \<Rightarrow> u32" where
  "sha1_f t b c d =
     (if t < 20 then (b AND c) OR (NOT b AND d)
      else if t < 40 then b XOR c XOR d
      else if t < 60 then (b AND c) OR (b AND d) OR (c AND d)
      else b XOR c XOR d)"

definition sha1_k :: "int \<Rightarrow> u32" where
  "sha1_k t = (if t < 20 then 0x5A827999 else if t < 40 then 0x6ED9EBA1 else if t < 60 then 0x8F1BBCDC else 0xCA62C1D6)"

fun sha1_rounds :: "int \<Rightarrow> u32 list \<Rightarrow> sha1_state \<Rightarrow> sha1_state" where
  "sha1_rounds t [] s = s"
| "sha1_rounds t (w # ws) (a, b, c, d, e) =
     sha1_rounds (t + 1) ws (word_rotl 5 a + sha1_f t b c d + e + w + sha1_k t, a, word_rotl 30 b, c, d)"

definition sha1_block :: "sha1_state \<Rightarrow> u32 list \<Rightarrow> sha1_state" where
  "sha1_block s ws =
     (let (a0, b0, c0, d0, e0) = s;
          (a, b, c, d, e) = sha1_rounds 0 (rev (sha1_extend 64 (rev ws))) s
      in (a0 + a, b0 + b, c0 + c, d0 + d, e0 + e))"

function sha1_blocks :: "sha1_state \<Rightarrow> u32 list \<Rightarrow> sha1_state" where
  "sha1_blocks s ws = (if length ws < 16 then s else sha1_blocks (sha1_block s (take 16 ws)) (drop 16 ws))"
  by pat_completeness auto
termination by (relation "measure (\<lambda>(s, ws). length ws)") auto

declare sha1_blocks.simps [simp del]

definition sha1 :: "bytes \<Rightarrow> bytes" where
  "sha1 msg =
     (let (a, b, c, d, e) = sha1_blocks (0x67452301, 0xEFCDAB89, 0x98BADCFE, 0x10325476, 0xC3D2E1F0) (sha1_words (sha1_pad msg))
      in concat (map (\<lambda>w. word_bytes 4 (ucast w)) [a, b, c, d, e]))"

lemma length_sha1 [simp]: "length (sha1 msg) = 20"
  by (simp add: sha1_def word_bytes_def split: prod.split)

section \<open>Base64\<close>

definition base64_table :: string where
  "base64_table = ''ABCDEFGHIJKLMNOPQRSTUVWXYZabcdefghijklmnopqrstuvwxyz0123456789+/''"

definition b64 :: "nat \<Rightarrow> char" where "b64 n = base64_table ! n"

fun base64 :: "bytes \<Rightarrow> string" where
  "base64 [] = []"
| "base64 [a] = (let n = unat a in [b64 (n div 4), b64 (n mod 4 * 16), CHR ''='', CHR ''=''])"
| "base64 [a, b] =
     (let m = unat a; n = unat b in [b64 (m div 4), b64 (m mod 4 * 16 + n div 16), b64 (n mod 16 * 4), CHR ''=''])"
| "base64 (a # b # c # bs) =
     (let m = unat a; n = unat b; k = unat c
      in [b64 (m div 4), b64 (m mod 4 * 16 + n div 16), b64 (n mod 16 * 4 + k div 64), b64 (k mod 64)] @ base64 bs)"

lemma b64_in: "n < 64 \<Longrightarrow> b64 n \<in> set base64_table"
proof -
  have "length base64_table = 64" by (simp add: base64_table_def)
  then show "n < 64 \<Longrightarrow> b64 n \<in> set base64_table" unfolding b64_def by (metis nth_mem)
qed

lemma sextets:
  fixes a b c :: u8
  shows "unat a div 4 < 64" "unat a mod 4 * 16 < 64" "unat a mod 4 * 16 + unat b div 16 < 64"
    "unat b mod 16 * 4 < 64" "unat b mod 16 * 4 + unat c div 64 < 64" "unat c mod 64 < 64"
proof -
  have "unat a < 256" "unat b < 256" "unat c < 256" by simp_all
  then show "unat a div 4 < 64" "unat a mod 4 * 16 < 64" "unat a mod 4 * 16 + unat b div 16 < 64"
    "unat b mod 16 * 4 < 64" "unat b mod 16 * 4 + unat c div 64 < 64" "unat c mod 64 < 64" by linarith+
qed

lemma base64_chars: "set (base64 bs) \<subseteq> insert CHR ''='' (set base64_table)"
  by (induction bs rule: base64.induct) (auto simp: Let_def b64_in sextets)

lemma base64_not_Nil: "bs \<noteq> [] \<Longrightarrow> base64 bs \<noteq> []"
  by (cases bs rule: base64.cases) (auto simp: Let_def)

end
