(* ===== verification/HttpBuilder.thy ===== *)
theory HttpBuilder
  imports HttpCorrect GoCrypto
begin

text \<open>
  \<^verbatim>\<open>util/net/protocol/http/builder.go\<close> and \<^verbatim>\<open>protocol.go\<close>: building requests and responses, and the
  handle of the protocol with the upgrade to WebSocket.  Go iterates over a map of headers in an
  unspecified order: \<open>order\<close> gives the entries of a map in the order of the iteration.  The text of
  the current time is the argument \<open>date\<close>.
\<close>

section \<open>The builder\<close>

record http_builder =
  statusCode :: int
  statusText :: string
  version :: string
  headers :: "header option"
  body :: "string option"
  serverName :: string
  autoHeaders :: bool
  websocketMagic :: string

definition NewHTTPBuilder :: http_builder where
  "NewHTTPBuilder = \<lparr>statusCode = 0, statusText = [], version = ''HTTP/1.1'', headers = Some [], body = None,
     serverName = ''NetServer/1.0'', autoHeaders = True, websocketMagic = ''258EAFA5-E914-47DA-95CA-C5AB0DC85B11''\<rparr>"

type_synonym order = "header \<Rightarrow> header"

definition addHeader :: "string \<Rightarrow> string \<Rightarrow> header \<Rightarrow> header" where
  "addHeader name val h = (if map_of h name = None then AList.update name val h else h)"

definition lengthHeaders :: "string \<Rightarrow> header \<Rightarrow> header" where
  "lengthHeaders bod h = (if bod \<noteq> [] then addHeader ''Content-Length'' (dec_string (length bod)) h else h)"

definition headerText :: "string \<times> string \<Rightarrow> string" where
  "headerText = (\<lambda>(name, val). name @ '': '' @ val @ CRLF)"

definition requestHeaders :: "http_builder \<Rightarrow> header \<Rightarrow> string \<Rightarrow> header" where
  "requestHeaders b h bod =
     (if autoHeaders b
      then lengthHeaders bod (addHeader ''Accept'' ''*/*'' (addHeader ''User-Agent'' ''NetClient/1.0'' h))
      else h)"

definition BuildRequest :: "order \<Rightarrow> http_builder \<Rightarrow> string \<Rightarrow> string \<Rightarrow> header \<Rightarrow> string \<Rightarrow> bytes" where
  "BuildRequest order b method path h bod =
     (let method1 = (if method = [] then ''GET'' else method);
          path1 = (if path = [] then ''/'' else path)
      in go_bytes (method1 @ '' '' @ path1 @ '' HTTP/1.1'' @ CRLF @
           concat (map headerText (order (requestHeaders b h bod))) @ CRLF @ bod))"

definition statusTexts :: "(int \<times> string) list" where
  "statusTexts = [(100, ''Continue''), (101, ''Switching Protocols''), (200, ''OK''), (201, ''Created''),
     (202, ''Accepted''), (204, ''No Content''), (301, ''Moved Permanently''), (302, ''Found''),
     (304, ''Not Modified''), (400, ''Bad Request''), (401, ''Unauthorized''), (403, ''Forbidden''),
     (404, ''Not Found''), (405, ''Method Not Allowed''), (406, ''Not Acceptable''), (408, ''Request Timeout''),
     (409, ''Conflict''), (410, ''Gone''), (411, ''Length Required''), (413, ''Payload Too Large''),
     (414, ''URI Too Long''), (415, ''Unsupported Media Type''), (426, ''Upgrade Required''),
     (429, ''Too Many Requests''), (500, ''Internal Server Error''), (501, ''Not Implemented''),
     (502, ''Bad Gateway''), (503, ''Service Unavailable''), (504, ''Gateway Timeout''),
     (505, ''HTTP Version Not Supported'')]"

definition getStatusText :: "int \<Rightarrow> string" where
  "getStatusText code = (case map_of statusTexts code of Some t \<Rightarrow> t | None \<Rightarrow> ''Unknown'')"

definition responseHeaders :: "string \<Rightarrow> http_builder \<Rightarrow> header \<Rightarrow> string \<Rightarrow> header" where
  "responseHeaders date b h bod =
     (if autoHeaders b
      then addHeader ''Connection'' ''keep-alive''
             (lengthHeaders bod
               (addHeader ''Date'' date (if serverName b \<noteq> [] then addHeader ''Server'' (serverName b) h else h)))
      else h)"

definition BuildResponse :: "order \<Rightarrow> string \<Rightarrow> http_builder \<Rightarrow> int \<Rightarrow> string \<Rightarrow> header \<Rightarrow> string \<Rightarrow> bytes" where
  "BuildResponse order date b code txt h bod =
     (let code1 = (if code = 0 then 200 else code);
          txt1 = (if txt = [] then getStatusText code1 else txt)
      in go_bytes (''HTTP/1.1 '' @ Itoa code1 @ '' '' @ txt1 @ CRLF @
           concat (map headerText (order (responseHeaders date b h bod))) @ CRLF @ bod))"

definition unlines :: "string list \<Rightarrow> string" where
  "unlines ls = Join ls [LF]"

definition BuildError :: "order \<Rightarrow> string \<Rightarrow> http_builder \<Rightarrow> int \<Rightarrow> string \<Rightarrow> bytes" where
  "BuildError order date b code msg =
     (let code1 = (if code = 0 then 500 else code);
          msg1 = (if msg = [] then getStatusText code1 else msg);
          title = Itoa code1 @ '' '' @ getStatusText code1;
          html = unlines [''<!DOCTYPE html>'', ''<html>'', ''<head>'', ''    <title>'' @ title @ ''</title>'', ''</head>'',
            ''<body>'', ''    <h1>'' @ title @ ''</h1>'', ''    <p>'' @ msg1 @ ''</p>'', ''    <hr>'',
            ''    <p><small>'' @ serverName b @ ''</small></p>'', ''</body>'', ''</html>'']
      in BuildResponse order date b code1 (getStatusText code1) [(''Content-Type'', ''text/html; charset=utf-8'')] html)"

definition builder_Reset :: "http_builder \<Rightarrow> http_builder" where
  "builder_Reset b = b\<lparr>statusCode := 0, statusText := [], version := ''HTTP/1.1'', headers := Some [], body := None\<rparr>"

definition builder_Close :: "http_builder \<Rightarrow> http_builder" where
  "builder_Close b = b\<lparr>headers := None, body := None\<rparr>"

definition opt_list :: "string option \<Rightarrow> string" where
  "opt_list x = (case x of None \<Rightarrow> [] | Some s \<Rightarrow> s)"

definition message_headers :: "'m http_common_scheme \<Rightarrow> header" where
  "message_headers r = snd (GetHeaders (Base r))"

definition buildRequest :: "order \<Rightarrow> http_builder \<Rightarrow> http_request \<Rightarrow> bytes" where
  "buildRequest order b r = BuildRequest order b (Method r) (Path r) (message_headers r) (opt_list (Body r))"

definition buildResponse :: "order \<Rightarrow> string \<Rightarrow> http_builder \<Rightarrow> http_response \<Rightarrow> bytes" where
  "buildResponse order date b r =
     BuildResponse order date b (StatusCode r) (StatusText r) (message_headers r) (opt_list (Body r))"

text \<open>
  A message of another type is a request with a method and a path, a response with a status, or neither.
\<close>

datatype any_message =
    HttpMessage http_message
  | OtherRequest string string header string
  | OtherResponse int string header string
  | OtherMessage

definition BuildMessage :: "order \<Rightarrow> string \<Rightarrow> http_builder \<Rightarrow> any_message \<Rightarrow> protocol_error + bytes" where
  "BuildMessage order date b m =
     (case m of
        HttpMessage (RequestMsg r) \<Rightarrow> Inr (buildRequest order b r)
      | HttpMessage (ResponseMsg r) \<Rightarrow> Inr (buildResponse order date b r)
      | OtherRequest method path h payload \<Rightarrow> Inr (BuildRequest order b method path h payload)
      | OtherResponse code txt h payload \<Rightarrow> Inr (BuildResponse order date b code txt h payload)
      | OtherMessage \<Rightarrow> Inl (http_err ErrCodeInvalidMessage ''unsupported message type for HTTP builder''))"

definition generateWebSocketAccept :: "http_builder \<Rightarrow> string \<Rightarrow> string" where
  "generateWebSocketAccept b key = base64 (sha1 (go_bytes key @ go_bytes (websocketMagic b)))"

definition BuildWebSocketUpgradeResponse :: "order \<Rightarrow> string \<Rightarrow> http_builder \<Rightarrow> string \<Rightarrow> string \<Rightarrow> protocol_error + bytes" where
  "BuildWebSocketUpgradeResponse order date b key wsProtocol =
     (if key = [] then Inl (http_err ErrCodeInvalidMessage ''WebSocket key cannot be empty'')
      else let h = [(''Connection'', ''Upgrade''), (''Upgrade'', ''websocket''),
                    (''Sec-WebSocket-Accept'', generateWebSocketAccept b key)];
               h1 = (if wsProtocol \<noteq> [] then h @ [(''Sec-WebSocket-Protocol'', wsProtocol)] else h)
           in Inr (BuildResponse order date b 101 ''Switching Protocols'' h1 []))"

definition SetServerName :: "string \<Rightarrow> http_builder \<Rightarrow> http_builder" where "SetServerName n b = b\<lparr>serverName := n\<rparr>"
definition SetAutoHeaders :: "bool \<Rightarrow> http_builder \<Rightarrow> http_builder" where "SetAutoHeaders a b = b\<lparr>autoHeaders := a\<rparr>"

definition BuildOK :: "order \<Rightarrow> string \<Rightarrow> http_builder \<Rightarrow> string \<Rightarrow> string \<Rightarrow> bytes" where
  "BuildOK order date b contentType bod =
     BuildResponse order date b 200 ''OK'' (if contentType \<noteq> [] then [(''Content-Type'', contentType)] else []) bod"

definition BuildNotFound :: "order \<Rightarrow> string \<Rightarrow> http_builder \<Rightarrow> string \<Rightarrow> bytes" where
  "BuildNotFound order date b msg =
     BuildError order date b 404 (if msg = [] then ''The requested resource was not found'' else msg)"

definition BuildBadRequest :: "order \<Rightarrow> string \<Rightarrow> http_builder \<Rightarrow> string \<Rightarrow> bytes" where
  "BuildBadRequest order date b msg =
     BuildError order date b 400 (if msg = [] then ''The request was malformed'' else msg)"

definition BuildInternalServerError :: "order \<Rightarrow> string \<Rightarrow> http_builder \<Rightarrow> string \<Rightarrow> bytes" where
  "BuildInternalServerError order date b msg =
     BuildError order date b 500 (if msg = [] then ''An internal server error occurred'' else msg)"

definition BuildMethodNotAllowed :: "order \<Rightarrow> string \<Rightarrow> http_builder \<Rightarrow> string list \<Rightarrow> bytes" where
  "BuildMethodNotAllowed order date b allowed =
     BuildResponse order date b 405 ''Method Not Allowed'' (if allowed \<noteq> [] then [(''Allow'', Join allowed '', '')] else [])
       ''Method Not Allowed''"

definition BuildRedirect :: "order \<Rightarrow> string \<Rightarrow> http_builder \<Rightarrow> string \<Rightarrow> bool \<Rightarrow> bytes" where
  "BuildRedirect order date b location permanent =
     (let code = (if permanent then 301 else 302);
          title = Itoa code @ '' '' @ getStatusText code;
          html = unlines [''<!DOCTYPE html>'', ''<html>'', ''<head>'', ''    <title>'' @ title @ ''</title>'', ''</head>'',
            ''<body>'', ''    <h1>'' @ title @ ''</h1>'',
            ''    <p>The document has moved <a href=\"'' @ location @ ''\">here</a>.</p>'', ''</body>'', ''</html>'']
      in BuildResponse order date b code (getStatusText code)
           [(''Location'', location), (''Content-Type'', ''text/html; charset=utf-8'')] html)"

section \<open>The handle of the protocol\<close>

text \<open>The parser and the builder are nil after \<^verbatim>\<open>Close\<close>.\<close>

record http_protocol =
  hpParser :: "http_parser option"
  hpBuilder :: "http_builder option"
  hpClosed :: bool

definition NewHTTPProtocol :: http_protocol where
  "NewHTTPProtocol = \<lparr>hpParser = Some NewHTTPParser, hpBuilder = Some NewHTTPBuilder, hpClosed = False\<rparr>"

definition http_GetParser :: "http_protocol \<Rightarrow> http_parser option" where "http_GetParser p = hpParser p"
definition http_GetBuilder :: "http_protocol \<Rightarrow> http_builder option" where "http_GetBuilder p = hpBuilder p"

definition httpMethods :: "string list" where
  "httpMethods = [''GET '', ''POST'', ''PUT '', ''DELE'', ''HEAD'', ''OPTI'', ''TRAC'', ''CONN'', ''PATC'']"

definition CanHandle :: "bytes \<Rightarrow> bool" where
  "CanHandle data \<longleftrightarrow>
     \<not> length data < 4 \<and>
     (let dataStr = go_string (take (min (length data) 16) data)
      in list_ex (\<lambda>m. prefix m dataStr) httpMethods \<or> prefix ''HTTP/'' dataStr)"

definition extractWebSocketAccept :: "unicode \<Rightarrow> bytes \<Rightarrow> string" where
  "extractWebSocketAccept U responseData =
     (case filter (\<lambda>line. prefix ''sec-websocket-accept:'' (ToLower U line) \<and> length (SplitN line CHR '':'' 2) = 2)
             (SplitCRLF (go_string responseData)) of
        [] \<Rightarrow> []
      | line # _ \<Rightarrow> TrimSpace U (SplitN line CHR '':'' 2 ! 1))"

definition upgradeResponse :: "string \<Rightarrow> string \<Rightarrow> http_response" where
  "upgradeResponse accept wsProtocol =
     \<lparr>Base = emptyBase\<lparr>bType := ''http_response'',
        bHeaders := Some ([(''connection'', ''Upgrade''), (''upgrade'', ''websocket''), (''sec-websocket-accept'', accept)] @
          (if wsProtocol \<noteq> [] then [(''sec-websocket-protocol'', wsProtocol)] else []))\<rparr>,
      Version = ''HTTP/1.1'', Body = None, Connection = ''Upgrade'', ContentType = [], ContentLength = 0,
      Upgrade = ''websocket'', WebSocketProtocol = wsProtocol,
      StatusCode = 101, StatusText = ''Switching Protocols'', WebSocketAccept = accept\<rparr>"

text \<open>
  \<^verbatim>\<open>HandleUpgrade\<close> of a request that is an \<^verbatim>\<open>HTTPRequest\<close> (\<^const>\<open>Some\<close>) or another \<^verbatim>\<open>Request\<close>.  A nil
  builder is dereferenced.  \<open>reg\<close> is the global registry of protocols.
\<close>

definition HandleUpgrade ::
  "unicode \<Rightarrow> order \<Rightarrow> string \<Rightarrow> 'p registry \<Rightarrow> http_protocol \<Rightarrow> http_request option \<Rightarrow>
   (protocol_error + 'p \<times> http_response) outcome" where
  "HandleUpgrade U order date reg p request =
     (case request of
        None \<Rightarrow> Ret (Inl (http_err ErrCodeProtocolMismatch ''request is not HTTP request''))
      | Some r \<Rightarrow>
          if \<not> IsWebSocketUpgrade U r then Ret (Inl (http_err ErrCodeUpgradeError ''not a WebSocket upgrade request''))
          else case hpBuilder p of
                 None \<Rightarrow> Panic
               | Some b \<Rightarrow>
                   (case BuildWebSocketUpgradeResponse order date b (WebSocketKey r) (WebSocketProtocol r) of
                      Inl e \<Rightarrow> Ret (Inl ((http_err ErrCodeUpgradeError ''failed to build upgrade response'')\<lparr>errCause := Some (Error e)\<rparr>))
                    | Inr responseData \<Rightarrow>
                        let response = upgradeResponse (extractWebSocketAccept U responseData) (WebSocketProtocol r)
                        in case Get reg Protocol.ProtocolWebSocket of
                             Inl e \<Rightarrow> Ret (Inl ((http_err ErrCodeUpgradeError ''WebSocket protocol not available'')\<lparr>errCause := Some (Error e)\<rparr>))
                           | Inr ws \<Rightarrow> Ret (Inr (ws, response))))"

definition IsUpgradeRequest :: "unicode \<Rightarrow> http_request option \<Rightarrow> bool" where
  "IsUpgradeRequest U request = (case request of None \<Rightarrow> False | Some r \<Rightarrow> IsWebSocketUpgrade U r)"

definition GetUpgradeTarget :: "unicode \<Rightarrow> http_request option \<Rightarrow> protocol_type" where
  "GetUpgradeTarget U request =
     (if \<not> IsUpgradeRequest U request then ProtocolUnknown
      else case request of
             None \<Rightarrow> ProtocolUnknown
           | Some r \<Rightarrow> if IsWebSocketUpgrade U r then Protocol.ProtocolWebSocket else ProtocolUnknown)"

definition http_protocol_Close :: "http_protocol \<Rightarrow> http_protocol" where
  "http_protocol_Close p = (if hpClosed p then p else p\<lparr>hpParser := None, hpBuilder := None, hpClosed := True\<rparr>)"

end
