(* ===== verification/HttpRoundtrip.thy ===== *)
theory HttpRoundtrip
  imports HttpBuilder
begin

text \<open>
  The two directions of the HTTP code against each other: a request that the builder writes is read
  back by the parser, the key of a WebSocket upgrade is answered as the code of the builder computes it,
  and what the detector takes for HTTP the handle accepts.
\<close>

section \<open>Clean headers\<close>

text \<open>
  A header that survives: an ASCII name without a colon, no line ends, no white space at the ends, and
  short enough for the scanner of lines.
\<close>

definition clean :: "string \<Rightarrow> bool" where
  "clean s \<longleftrightarrow> is_ascii s \<and> CR \<notin> set s \<and> LF \<notin> set s \<and> trimmed s"

definition clean_header :: "string \<times> string \<Rightarrow> bool" where
  "clean_header = (\<lambda>(n, v). clean n \<and> n \<noteq> [] \<and> CHR '':'' \<notin> set n \<and> clean v \<and>
     int (length n + length v + 2) < MaxScanTokenSize - 1)"

definition header_line :: "string \<times> string \<Rightarrow> string" where
  "header_line = (\<lambda>(n, v). n @ '': '' @ v)"

abbreviation lower :: "string \<Rightarrow> string" where "lower \<equiv> map ascii_lower"

lemma headerText_line: "headerText nv = header_line nv @ CRLF"
  by (simp add: headerText_def header_line_def split: prod.split)

lemma clean_line:
  assumes "clean_header nv"
  shows "CR \<notin> set (header_line nv)" "LF \<notin> set (header_line nv)" "header_line nv \<noteq> []"
    "int (length (header_line nv)) < MaxScanTokenSize - 1"
  using assms by (auto simp: clean_header_def header_line_def clean_def split: prod.splits)

lemma headerLine_clean:
  assumes "clean_header (n, v)"
  shows "headerLine U h (header_line (n, v)) = AList.update (lower n) v h"
proof -
  let ?l = "header_line (n, v)"
  have c: "CHR '':'' \<notin> set n" "clean n" "clean v" using assms by (auto simp: clean_header_def)
  have i: "Index ?l '':'' = Some (length n)"
    using Index_sep [of "CHR '':''" n "[]" "CHR '' '' # v"] c(1) by (simp add: header_line_def)
  have "drop (length n + 1) ?l = CHR '' '' # v" "take (length n) ?l = n" by (simp_all add: header_line_def)
  moreover have "TrimSpace U n = n" "ToLower U n = lower n" "TrimSpace U (CHR '' '' # v) = v"
    using c(2,3) trim_trimmed trim_space_trimmed by (auto simp: clean_def TrimSpace_def ToLower_def)
  ultimately show ?thesis
    using clean_line(3) [OF assms] i by (simp add: headerLine_def)
qed

lemma headers_of_lines:
  assumes "\<forall>nv \<in> set hs. clean_header nv" "distinct (map (lower \<circ> fst) hs)"
    "fst ` set acc \<inter> (lower \<circ> fst) ` set hs = {}"
  shows "foldl (headerLine U) acc (map header_line hs) = acc @ map (\<lambda>(n, v). (lower n, v)) hs"
  using assms
proof (induction hs arbitrary: acc)
  case (Cons nv hs)
  obtain n v where nv: "nv = (n, v)" by fastforce
  have "headerLine U acc (header_line nv) = acc @ [(lower n, v)]"
    using headerLine_clean [of n v U acc] update_new [of "lower n" acc v] Cons.prems nv by auto
  moreover have "foldl (headerLine U) (acc @ [(lower n, v)]) (map header_line hs) =
      (acc @ [(lower n, v)]) @ map (\<lambda>(n, v). (lower n, v)) hs"
    by (rule Cons.IH) (use Cons.prems nv in auto)
  ultimately show ?case using nv by simp
qed simp

section \<open>The lines of the headers\<close>

lemma scan_headers:
  assumes "\<forall>nv \<in> set hs. clean_header nv" "hs \<noteq> []"
  shows "ScanLines (Join (map header_line hs) CRLF) = map header_line hs"
  using assms
proof (induction hs)
  case (Cons nv hs)
  note c = clean_line [of nv]
  have cl: "clean_header nv" using Cons.prems by simp
  show ?case
  proof (cases hs)
    case Nil
    then show ?thesis using ScanLines_last [of "header_line nv"] c [OF cl] by simp
  next
    case (Cons nv2 hs2)
    then have "ScanLines (Join (map header_line (nv # hs)) CRLF) =
        header_line nv # ScanLines (Join (map header_line hs) CRLF)"
      using ScanLines_line [of "header_line nv" "Join (map header_line hs) CRLF"] c [OF cl] by simp
    then show ?thesis using Cons.IH Cons.prems Cons by simp
  qed
qed simp

lemma headers_join: "hs \<noteq> [] \<Longrightarrow> concat (map headerText hs) = Join (map header_line hs) CRLF @ CRLF"
proof (induction hs)
  case (Cons nv hs)
  then show ?case by (cases hs) (simp_all add: headerText_line)
qed simp

text \<open>The end of the headers is the first empty line.\<close>

lemma Index_past:
  assumes "a \<notin> set u"
  shows "Index (u @ s) (a # p) = map_option (\<lambda>i. length u + i) (Index s (a # p))"
  using assms
proof (induction u)
  case Nil
  then show ?case by (cases "Index s (a # p)") auto
next
  case (Cons x u)
  then show ?case by (cases "Index s (a # p)") auto
qed

lemma header_end:
  assumes "\<forall>nv \<in> set hs. clean_header nv" "hs \<noteq> []"
  shows "Index (Join (map header_line hs) CRLF @ CRLF @ CRLF @ t) (CRLF @ CRLF) = Some (length (Join (map header_line hs) CRLF))"
  using assms
proof (induction hs)
  case (Cons nv hs)
  have cl: "clean_header nv" using Cons.prems by simp
  note c = clean_line(1) [OF cl]
  show ?case
  proof (cases hs)
    case Nil
    have "Index (header_line nv @ CRLF @ CRLF @ t) (CRLF @ CRLF) = map_option (\<lambda>i. length (header_line nv) + i) (Index (CRLF @ CRLF @ t) (CRLF @ CRLF))"
      using Index_past [OF c, of "CRLF @ CRLF @ t" "[LF, CR, LF]"] by simp
    then show ?thesis using Nil by simp
  next
    case (Cons nv2 hs2)
    define j where "j = Join (map header_line hs) CRLF"
    have j: "j @ CRLF @ CRLF @ t \<noteq> []" "hd (j @ CRLF @ CRLF @ t) \<noteq> CR"
    proof -
      have cl2: "clean_header nv2" using Cons.prems Cons by simp
      have "j \<noteq> [] \<and> hd j = hd (header_line nv2)"
        using clean_line(3) [OF cl2] Cons by (cases hs2) (simp_all add: j_def)
      moreover have "hd (header_line nv2) \<noteq> CR" using clean_line(1,3) [OF cl2] by (metis hd_in_set)
      ultimately show "j @ CRLF @ CRLF @ t \<noteq> []" "hd (j @ CRLF @ CRLF @ t) \<noteq> CR" by simp_all
    qed
    then obtain x xs where x: "j @ CRLF @ CRLF @ t = x # xs" "x \<noteq> CR" by (cases "j @ CRLF @ CRLF @ t") auto
    have IH: "Index (x # xs) (CRLF @ CRLF) = Some (length j)" using Cons.IH Cons.prems Cons x(1) by (simp add: j_def)
    have "Index (header_line nv @ CRLF @ x # xs) (CRLF @ CRLF) =
        map_option (\<lambda>i. length (header_line nv) + i) (Index (CRLF @ x # xs) (CRLF @ CRLF))"
      using Index_past [OF c, of "CRLF @ x # xs" "[LF, CR, LF]"] by simp
    also have "Index (CRLF @ x # xs) (CRLF @ CRLF) = Some (2 + length j)"
      using IH x(2) by simp
    finally show ?thesis using Cons x(1) by (simp add: j_def)
  qed
qed simp

lemma readHeaders_built:
  assumes "\<forall>nv \<in> set hs. clean_header nv" "hs \<noteq> []" "distinct (map (lower \<circ> fst) hs)"
  shows "readHeaders U (Join (map header_line hs) CRLF) = map (\<lambda>(n, v). (lower n, v)) hs"
  using headers_of_lines [OF assms(1,3), of "[]" U] scan_headers [OF assms(1,2)] by (simp add: readHeaders_def)

section \<open>The headers that the builder adds\<close>

lemma length_dec_string: "0 < k \<Longrightarrow> n < 10 ^ k \<Longrightarrow> length (dec_string n) \<le> k"
proof (induction n arbitrary: k rule: dec_string.induct)
  case (1 n)
  show ?case
  proof (cases "n < 10")
    case True
    then show ?thesis using "1.prems"(1) by (simp add: dec_string.simps [of n])
  next
    case False
    with "1.prems" obtain m where k: "k = Suc m" "0 < m" by (cases k; cases "k - 1") auto
    then have "n div 10 < 10 ^ m" using "1.prems"(2) by (simp add: less_mult_imp_div_less mult.commute)
    then show ?thesis using "1.IH" [OF False k(2)] k False by (simp add: dec_string.simps [of n])
  qed
qed

lemma clean_dec_string: "clean (dec_string n)"
proof -
  have c: "48 \<le> (of_char c :: nat) \<and> (of_char c :: nat) \<le> 57" if "c \<in> set (dec_string n)" for c
    using dec_string_chars that .
  have "(of_char c :: int) < 128" if "c \<in> set (dec_string n)" for c
    using c [OF that] of_nat_of_char [of c, where ?'a = int] by linarith
  then have "is_ascii (dec_string n)" by (simp add: is_ascii_def list_all_iff)
  moreover have ws: "\<not> is_space c" if "c \<in> set (dec_string n)" for c
    using c [OF that] by (auto simp: is_space_def)
  have "CR \<notin> set (dec_string n)" "LF \<notin> set (dec_string n)" using ws [of CR] ws [of LF] by (auto simp: is_space_def)
  moreover have "trimmed (dec_string n)"
    using ws [OF hd_in_set [OF dec_string_not_Nil]] ws [OF last_in_set [OF dec_string_not_Nil]] by (simp add: trimmed_def)
  ultimately show ?thesis by (simp add: clean_def)
qed

definition reserved :: "string list" where
  "reserved = [''user-agent'', ''accept'', ''content-length'', ''transfer-encoding'']"

text \<open>Headers that a client may pass: clean, of different names whatever their case, and none of those the builder sets.\<close>

definition user_headers :: "header \<Rightarrow> bool" where
  "user_headers h \<longleftrightarrow> list_all clean_header h \<and> distinct (map (lower \<circ> fst) h) \<and>
     list_all (\<lambda>nv. lower (fst nv) \<notin> set reserved) h"

definition auto_headers :: "string \<Rightarrow> header" where
  "auto_headers bod = [(''User-Agent'', ''NetClient/1.0''), (''Accept'', ''*/*'')] @
     (if bod \<noteq> [] then [(''Content-Length'', dec_string (length bod))] else [])"

lemma addHeader_new: "k \<notin> fst ` set h \<Longrightarrow> addHeader k v h = h @ [(k, v)]"
  by (simp add: addHeader_def update_new map_of_eq_None_iff)

lemma lower_autos:
  "lower ''User-Agent'' = ''user-agent''" "lower ''Accept'' = ''accept''" "lower ''Content-Length'' = ''content-length''"
  by code_simp+

lemma requestHeaders_user:
  assumes "user_headers h" "autoHeaders b"
  shows "requestHeaders b h bod = h @ auto_headers bod"
proof -
  have n: "lower k \<in> set reserved \<Longrightarrow> k \<notin> fst ` set h" for k
    using assms(1) by (force simp: user_headers_def list_all_iff)
  have "''User-Agent'' \<notin> fst ` set h" "''Accept'' \<notin> fst ` set h" "''Content-Length'' \<notin> fst ` set h"
    by (rule n, simp only: lower_autos, simp add: reserved_def)+
  then show ?thesis using assms(2)
    by (simp add: requestHeaders_def lengthHeaders_def auto_headers_def addHeader_new)
qed

lemma auto_names_eq:
  "map (lower \<circ> fst) (auto_headers bod) = [''user-agent'', ''accept''] @ (if bod \<noteq> [] then [''content-length''] else [])"
  by (cases "bod = []") (simp_all add: auto_headers_def ascii_lower_def char_of_def)

lemma auto_names:
  "distinct (map (lower \<circ> fst) (auto_headers bod))" "set (map (lower \<circ> fst) (auto_headers bod)) \<subseteq> set reserved"
  unfolding auto_names_eq by (auto simp: reserved_def)

lemma clean_autos:
  assumes "length bod < 10 ^ 20"
  shows "list_all clean_header (auto_headers bod)"
proof -
  have "clean_header (''User-Agent'', ''NetClient/1.0'')" "clean_header (''Accept'', ''*/*'')" by code_simp+
  moreover have "length (dec_string (length bod)) \<le> 20" using length_dec_string [of 20] assms by simp
  then have "int (length ''Content-Length'' + length (dec_string (length bod)) + 2) < MaxScanTokenSize - 1"
    by (simp add: MaxScanTokenSize_def)
  moreover have "clean ''Content-Length'' \<and> CHR '':'' \<notin> set ''Content-Length''" by code_simp
  ultimately show ?thesis
    using clean_dec_string by (simp add: auto_headers_def) (simp add: clean_header_def)
qed

lemma request_headers_ok:
  assumes "user_headers h" "length bod < 10 ^ 20" "mset hs = mset (h @ auto_headers bod)"
  shows "\<forall>nv \<in> set hs. clean_header nv" "hs \<noteq> []" "distinct (map (lower \<circ> fst) hs)"
    "set hs = set h \<union> set (auto_headers bod)"
proof -
  show s: "set hs = set h \<union> set (auto_headers bod)" using mset_eq_setD [OF assms(3)] by simp
  show "\<forall>nv \<in> set hs. clean_header nv"
    using clean_autos [OF assms(2)] assms(1) s by (auto simp: user_headers_def list_all_iff)
  show "hs \<noteq> []" using s by (auto simp: auto_headers_def)
  have "lower (fst nv) \<notin> set (map (lower \<circ> fst) (auto_headers bod))" if "nv \<in> set h" for nv
    using assms(1) that auto_names [of bod] by (auto simp: user_headers_def list_all_iff)
  then have "distinct (map (lower \<circ> fst) (h @ auto_headers bod))"
    using assms(1) auto_names [of bod] by (auto simp: user_headers_def)
  moreover have "mset (map (lower \<circ> fst) hs) = mset (map (lower \<circ> fst) (h @ auto_headers bod))"
    using assms(3) by (metis mset_map)
  ultimately show "distinct (map (lower \<circ> fst) hs)" using mset_eq_imp_distinct_iff by blast
qed

section \<open>A request is read back\<close>

text \<open>A request line that survives: no spaces and no CR in its parts, and not the start of a response.\<close>

definition clean_line_parts :: "string \<Rightarrow> string \<Rightarrow> bool" where
  "clean_line_parts meth path \<longleftrightarrow> meth \<noteq> [] \<and> path \<noteq> [] \<and> CHR '' '' \<notin> set meth \<and> CHR '' '' \<notin> set path \<and>
     CR \<notin> set meth \<and> CR \<notin> set path \<and> \<not> prefix ''HTTP/'' meth"

lemma take_length: "take (length xs) (xs @ ys) = xs"
  by simp

lemma drop_length2: "drop (length xs + 2) (xs @ [a, b] @ ys) = ys"
  by simp

lemma request_line_read:
  assumes "clean_line_parts meth path" "hstate p = stateRequestLine"
    "hbuf p = meth @ '' '' @ path @ '' HTTP/1.1'' @ CRLF @ rest"
  shows "parseLoop U p msgs =
    parseLoop U (p\<lparr>currentRequest := Some (withQuery (newRequest meth path ''HTTP/1.1'')), hstate := stateHeaders, hbuf := rest\<rparr>) msgs"
proof -
  let ?line = "meth @ '' '' @ path @ '' HTTP/1.1''"
  let ?p1 = "p\<lparr>currentRequest := Some (withQuery (newRequest meth path ''HTTP/1.1'')), hstate := stateHeaders\<rparr>"
  have buf: "hbuf p = ?line @ CRLF @ rest" using assms(3) by simp
  have "CR \<notin> set ?line" using assms(1) by (auto simp: clean_line_parts_def)
  then have i: "Index (hbuf p) CRLF = Some (length ?line)" unfolding buf using Index_sep [of CR ?line "[LF]" rest] by simp
  have t: "take (length ?line) (hbuf p) = ?line" unfolding buf by (rule take_length)
  have parts: "SplitN ?line CHR '' '' 3 = [meth, path, ''HTTP/1.1'']"
    using assms(1) SplitN_sep [of "CHR '' ''" meth "path @ '' HTTP/1.1''" 1] SplitN_sep [of "CHR '' ''" path "''HTTP/1.1''" 0]
    by (simp add: clean_line_parts_def eval_nat_numeral)
  have ne: "hbuf p \<noteq> []" using buf by simp
  have "parseRequestLine p = (?p1, Ret (Inr (None, length ?line + 2)))"
    unfolding parseRequestLine_def i option.case t parts Let_def
    using assms(1) by (simp add: clean_line_parts_def)
  then have "parseNext U p = (?p1, Ret (Inr (None, length ?line + 2)))"
    using assms(2) ne by (simp add: parseNext_def)
  moreover have "drop (length ?line + 2) (?line @ CRLF @ rest) = rest" by (rule drop_length2)
  then have "drop (length ?line + 2) (hbuf ?p1) = rest" using buf by simp
  ultimately show ?thesis by (subst parseLoop.simps) (simp add: addMessage_def)
qed

lemma headers_read:
  assumes "hstate p = stateHeaders" "currentRequest p = Some r" "Body r = None" "\<not> chunked p" "contentLength p = 0"
    "hbuf p = hdr @ CRLF @ CRLF @ bod" "Index (hbuf p) (CRLF @ CRLF) = Some (length hdr)"
    "lengthHeader (readHeaders U hdr) = (if bod = [] then None else Some (int (length bod)))"
    "hget (readHeaders U hdr) ''transfer-encoding'' = []" "int (length bod) \<le> maxBodySize p"
  shows "\<exists>p' r'. parseLoop U p msgs = (p', Ret (Inr (msgs @ [RequestMsg r']))) \<and> Method r' = Method r \<and> URI r' = URI r \<and>
    Path r' = Path r \<and> Query r' = Query r \<and> Body r' = (if bod = [] then None else Some bod) \<and>
    bHeaders (Base r') = Some (readHeaders U hdr) \<and> hbuf p' = []"
proof -
  let ?h = "readHeaders U hdr"
  let ?r = "setRequestHeaders r ?h"
  let ?p1 = "((setLimits ?h p)\<lparr>currentRequest := Some ?r\<rparr>)\<lparr>headerComplete := True, hstate := (if bod = [] then stateComplete else stateBody)\<rparr>"
  have ne: "hbuf p \<noteq> []" using assms(6) by simp
  have t: "take (length hdr) (hbuf p) = hdr" using assms(6) by simp
  have lim: "contentLength (setLimits ?h p) = int (length bod)" "\<not> chunked (setLimits ?h p)"
    using assms(4,5,8,9) by (auto simp: setLimits_def)
  have set: "setHeaders p ?h = (setLimits ?h p)\<lparr>currentRequest := Some ?r\<rparr>"
    by (simp add: setHeaders_def assms(2))
  have should: "shouldParseBody (((setLimits ?h p)\<lparr>currentRequest := Some ?r\<rparr>)\<lparr>headerComplete := True\<rparr>) = (bod \<noteq> [])"
    using lim assms(10) by (auto simp: shouldParseBody_def setLimits_def)
  have "parseHeaders U p = (?p1, Ret (Inr (None, length hdr + 4)))"
    unfolding parseHeaders_def assms(7) option.case t Let_def set should using lim by simp
  then have "parseNext U p = (?p1, Ret (Inr (None, length hdr + 4)))"
    using assms(1) ne by (simp add: parseNext_def)
  moreover have "drop (length hdr + 4) (hbuf ?p1) = bod"
    using assms(6) by (simp add: setLimits_def eval_nat_numeral)
  ultimately have a: "parseLoop U p msgs = parseLoop U (?p1\<lparr>hbuf := bod\<rparr>) msgs"
    by (subst parseLoop.simps) (simp add: addMessage_def)
  define q where "q = (if bod = [] then ?p1\<lparr>hbuf := bod\<rparr>
    else (setBody (Some bod) (?p1\<lparr>hbuf := bod\<rparr>))\<lparr>bodyComplete := True, hstate := stateComplete, hbuf := []\<rparr>)"
  have b: "parseLoop U (?p1\<lparr>hbuf := bod\<rparr>) msgs = parseLoop U q msgs"
  proof (cases "bod = []")
    case False
    let ?pb = "?p1\<lparr>hbuf := bod\<rparr>"
    have "hstate ?pb = stateBody" "contentLength ?pb = int (length bod)" "hbuf ?pb = bod"
      using False lim by simp_all
    then have "parseNext U ?pb = ((setBody (Some bod) ?pb)\<lparr>bodyComplete := True, hstate := stateComplete\<rparr>, Ret (Inr (None, length bod)))"
      using False by (simp only: parseNext_def parseBody_def) simp
    then show ?thesis using False by (subst parseLoop.simps) (simp add: addMessage_def q_def)
  qed (simp add: q_def)
  have q: "hstate q = stateComplete" "hbuf q = []"
    "currentRequest q = Some (?r\<lparr>Body := (if bod = [] then None else Some bod)\<rparr>)"
    using assms(3) by (auto simp: q_def setBody_def setRequestHeaders_def)
  let ?m = "?r\<lparr>Body := (if bod = [] then None else Some bod)\<rparr>"
  let ?r' = "?m\<lparr>Base := (Base ?m)\<lparr>bType := ''http_request'', bPayload := (if Body ?m \<noteq> None then Body ?m else bPayload (Base ?m))\<rparr>\<rparr>"
  have "parseNext U q = (finishMessage q, Ret (Inr (Some (RequestMsg ?r'), 0)))"
    using q by (simp add: parseNext_def completeMessage_def)
  then have "parseLoop U q msgs = (finishMessage q, Ret (Inr (msgs @ [RequestMsg ?r'])))"
    using q(2) by (subst parseLoop.simps) (simp add: addMessage_def)
  then show ?thesis
    unfolding a b by (intro exI [of _ "finishMessage q"] exI [of _ ?r']) (simp add: setRequestHeaders_def q(2))
qed

lemma map_of_lower:
  assumes "distinct (map (lower \<circ> fst) hs)" "(n, v) \<in> set hs"
  shows "map_of (map (\<lambda>(n, v). (lower n, v)) hs) (lower n) = Some v"
proof -
  have "map fst (map (\<lambda>(n, v). (lower n, v)) hs) = map (lower \<circ> fst) hs" by (induction hs) auto
  moreover have "(lower n, v) \<in> set (map (\<lambda>(n, v). (lower n, v)) hs)" using assms(2) by force
  ultimately show ?thesis using assms(1) by (metis map_of_is_SomeI)
qed

lemma map_of_lower_None:
  "k \<notin> (lower \<circ> fst) ` set hs \<Longrightarrow> map_of (map (\<lambda>(n, v). (lower n, v)) hs) k = None"
  by (induction hs) auto

text \<open>C19: a request that the builder writes is read back by a new parser as exactly one message with the
  method, the target, the query, the body and every header of the request, in whatever order Go iterates
  over the map of headers.\<close>

theorem request_roundtrip:
  assumes "clean_line_parts meth path" "user_headers h" "int (length bod) \<le> 10485760" "autoHeaders b"
    "\<forall>x. mset (order x) = mset x"
  shows "\<exists>p' r. Parse U NewHTTPParser (BuildRequest order b meth path h bod) = (p', Ret (Inr [RequestMsg r])) \<and>
    Method r = meth \<and> URI r = path \<and> Query r = Query (withQuery (newRequest meth path ''HTTP/1.1'')) \<and>
    Body r = (if bod = [] then None else Some bod) \<and>
    (\<forall>(n, v) \<in> set h. hget (the (bHeaders (Base r))) (map ascii_lower n) = v) \<and> hbuf p' = []"
proof -
  define hs where "hs = order (h @ auto_headers bod)"
  define hdr where "hdr = Join (map header_line hs) CRLF"
  let ?rq = "withQuery (newRequest meth path ''HTTP/1.1'')"
  let ?p1 = "NewHTTPParser\<lparr>currentRequest := Some ?rq, hstate := stateHeaders, hbuf := hdr @ CRLF @ CRLF @ bod\<rparr>"
  have "length bod < 10 ^ 20" using assms(3) by simp
  note ok = request_headers_ok [OF assms(2) this, of hs]
  have m: "mset hs = mset (h @ auto_headers bod)" using assms(5) by (simp add: hs_def)
  have ne: "meth \<noteq> []" "path \<noteq> []" using assms(1) by (auto simp: clean_line_parts_def)
  have "hbuf (NewHTTPParser\<lparr>hbuf := go_string (BuildRequest order b meth path h bod)\<rparr>) =
      meth @ '' '' @ path @ '' HTTP/1.1'' @ CRLF @ hdr @ CRLF @ CRLF @ bod"
    using ne headers_join [OF ok(2) [OF m]] requestHeaders_user [OF assms(2,4)]
    by (simp add: BuildRequest_def hdr_def hs_def [symmetric])
  note line = request_line_read [OF assms(1) _ this, of U "[]"]
  have run: "Parse U NewHTTPParser (BuildRequest order b meth path h bod) = parseLoop U ?p1 []"
    using line by (simp add: Parse_def) (simp add: NewHTTPParser_def)
  have h: "readHeaders U hdr = map (\<lambda>(n, v). (lower n, v)) hs"
    unfolding hdr_def by (rule readHeaders_built [OF ok(1) [OF m] ok(2) [OF m] ok(3) [OF m]])
  have names: "(lower \<circ> fst) ` set hs = (lower \<circ> fst) ` set h \<union>
      set ([''user-agent'', ''accept''] @ (if bod \<noteq> [] then [''content-length''] else []))"
    unfolding auto_names_eq [symmetric] set_map ok(4) [OF m] by (rule image_Un)
  have user: "k \<in> set reserved \<Longrightarrow> k \<notin> (lower \<circ> fst) ` set h" for k
    using assms(2) by (auto simp: user_headers_def list_all_iff)
  have te: "hget (readHeaders U hdr) ''transfer-encoding'' = []"
    unfolding h hget_def using user [of "''transfer-encoding''"]
    by (subst map_of_lower_None) (simp_all add: names reserved_def del: comp_apply)
  have len: "lengthHeader (readHeaders U hdr) = (if bod = [] then None else Some (int (length bod)))"
  proof (cases "bod = []")
    case True
    then have "hget (readHeaders U hdr) ''content-length'' = []"
      unfolding h hget_def using user [of "''content-length''"] True
      by (subst map_of_lower_None) (simp_all add: names reserved_def del: comp_apply)
    then show ?thesis using True by (simp add: lengthHeader_def)
  next
    case False
    then have "(''Content-Length'', dec_string (length bod)) \<in> set hs" using ok(4) [OF m] by (simp add: auto_headers_def)
    from map_of_lower [OF ok(3) [OF m] this]
    have "hget (readHeaders U hdr) ''content-length'' = dec_string (length bod)"
      unfolding lower_autos h hget_def by simp
    moreover have "ParseInt (dec_string (length bod)) 10 = Some (int (length bod))"
      using assms(3) by (intro ParseInt_dec_string) simp
    ultimately show ?thesis using False by (simp add: lengthHeader_def)
  qed
  have "Body ?rq = None" "Method ?rq = meth" "URI ?rq = path"
    by (auto simp: withQuery_def newRequest_def split: option.split)
  moreover have "Index (hbuf ?p1) (CRLF @ CRLF) = Some (length hdr)"
    using header_end [OF ok(1) [OF m] ok(2) [OF m], of bod] by (simp add: hdr_def)
  ultimately obtain p' r where r: "parseLoop U ?p1 [] = (p', Ret (Inr [RequestMsg r]))" "Method r = meth" "URI r = path"
    "Query r = Query ?rq" "Body r = (if bod = [] then None else Some bod)" "bHeaders (Base r) = Some (readHeaders U hdr)" "hbuf p' = []"
    using headers_read [of ?p1 ?rq hdr bod U "[]", OF _ _ _ _ _ _ _ len te] assms(3) by (auto simp: NewHTTPParser_def)
  have "hget (the (bHeaders (Base r))) (lower n) = v" if "(n, v) \<in> set h" for n v
    using map_of_lower [OF ok(3) [OF m], of n v] that ok(4) [OF m] unfolding r(6) h by (simp add: hget_def)
  then have "\<forall>(n, v) \<in> set h. hget (the (bHeaders (Base r))) (lower n) = v" by blast
  then show ?thesis using run r by auto
qed

theorem request_roundtrip_witness:
  "\<exists>p' r. Parse asciiOnly NewHTTPParser (BuildRequest rev NewHTTPBuilder ''POST'' ''/chat?room=7'' [(''Host'', ''example'')] ''hi'')
     = (p', Ret (Inr [RequestMsg r])) \<and> Body r = Some ''hi'' \<and> Query r = Some [(''room'', ''7'')]
     \<and> hget (the (bHeaders (Base r))) (map ascii_lower ''Host'') = ''example''"
proof -
  have "clean_line_parts ''POST'' ''/chat?room=7''" by code_simp
  moreover have "user_headers [(''Host'', ''example'')]" by code_simp
  moreover have "Query (withQuery (newRequest ''POST'' ''/chat?room=7'' ''HTTP/1.1'')) = Some [(''room'', ''7'')]" by code_simp
  moreover have "\<forall>x. mset (rev x) = mset (x :: header)" by simp
  ultimately show ?thesis
    using request_roundtrip [of "''POST''" "''/chat?room=7''" "[(''Host'', ''example'')]" "''hi''" NewHTTPBuilder rev asciiOnly]
    by (auto simp: NewHTTPBuilder_def)
qed

section \<open>The answer to a WebSocket upgrade\<close>

lemma split_headers:
  assumes "\<forall>nv \<in> set hs. CR \<notin> set (header_line nv)"
  shows "SplitCRLF (concat (map headerText hs) @ CRLF) = map header_line hs @ [[], []]"
  using assms
proof (induction hs)
  case (Cons nv hs)
  then show ?case using SplitCRLF_sep [of "header_line nv" "concat (map headerText hs) @ CRLF"]
    by (simp add: headerText_line [of nv])
qed simp

lemma prefix_to_sep: "a \<notin> set x \<Longrightarrow> a \<notin> set y \<Longrightarrow> prefix (x @ [a]) (y @ a # z) \<longleftrightarrow> x = y"
proof (induction x arbitrary: y)
  case Nil
  then show ?case by (cases y) auto
next
  case (Cons b x)
  then show ?case by (cases y) auto
qed

lemma ascii_lower_colon: "ascii_lower c = CHR '':'' \<longleftrightarrow> c = CHR '':''"
proof
  assume l: "ascii_lower c = CHR '':''"
  show "c = CHR '':''"
  proof (cases "65 \<le> (of_char c :: int) \<and> (of_char c :: int) \<le> 90")
    case True
    then have "(of_char (ascii_lower c) :: int) = of_char c + 32" by (simp add: ascii_lower_def Let_def)
    then show ?thesis using True l by simp
  next
    case False
    then show ?thesis using l by (simp add: ascii_lower_def Let_def split: if_splits)
  qed
qed (simp add: ascii_lower_def)

lemma accept_line:
  assumes "is_ascii n" "is_ascii v" "CHR '':'' \<notin> set n"
  shows "prefix ''sec-websocket-accept:'' (ToLower U (header_line (n, v))) \<longleftrightarrow> lower n = ''sec-websocket-accept''"
proof -
  have "CHR '':'' \<notin> set (lower n)" using assms(3) ascii_lower_colon by (metis imageE set_map)
  moreover have "ToLower U (header_line (n, v)) = lower n @ CHR '':'' # lower (CHR '' '' # v)"
    using assms(1,2) ascii_lower_colon by (simp add: header_line_def ToLower_def)
  ultimately show ?thesis
    using prefix_to_sep [of "CHR '':''" "''sec-websocket-accept''" "lower n" "lower (CHR '' '' # v)"] by simp metis
qed

lemma base64_clean: "clean (base64 bs)"
proof -
  have all: "list_all (\<lambda>c. (of_char c :: int) < 128 \<and> \<not> is_space c) (CHR ''='' # base64_table)" by code_simp
  then have c: "(of_char c :: int) < 128 \<and> \<not> is_space c" if "c \<in> set (base64 bs)" for c
    using base64_chars [of bs] that unfolding list_all_iff by (metis (no_types, lifting) list.simps(15) subsetD)
  then have "is_ascii (base64 bs)" by (simp add: is_ascii_def list_all_iff)
  moreover have "CR \<notin> set (base64 bs)" "LF \<notin> set (base64 bs)" using c [of CR] c [of LF] by (auto simp: is_space_def)
  moreover have "trimmed (base64 bs)" unfolding trimmed_def using c hd_in_set last_in_set by metis
  ultimately show ?thesis by (simp add: clean_def)
qed

definition upgrade_headers :: "string \<Rightarrow> string \<Rightarrow> string \<Rightarrow> header" where
  "upgrade_headers date accept proto =
     [(''Connection'', ''Upgrade''), (''Upgrade'', ''websocket''), (''Sec-WebSocket-Accept'', accept)] @
     (if proto \<noteq> [] then [(''Sec-WebSocket-Protocol'', proto)] else []) @ [(''Server'', ''NetServer/1.0''), (''Date'', date)]"

lemma addHeader_absent: "n \<notin> fst ` set h \<Longrightarrow> addHeader n v h = h @ [(n, v)]"
  by (simp add: addHeader_def update_new map_of_eq_None_iff)

lemma addHeader_present: "n \<in> fst ` set h \<Longrightarrow> addHeader n v h = h"
  by (auto simp: addHeader_def map_of_eq_None_iff)

lemma responseHeaders_upgrade:
  "responseHeaders date NewHTTPBuilder
     ([(''Connection'', ''Upgrade''), (''Upgrade'', ''websocket''), (''Sec-WebSocket-Accept'', a)] @
      (if proto \<noteq> [] then [(''Sec-WebSocket-Protocol'', proto)] else [])) [] = upgrade_headers date a proto"
proof -
  let ?h = "[(''Connection'', ''Upgrade''), (''Upgrade'', ''websocket''), (''Sec-WebSocket-Accept'', a)] @
      (if proto \<noteq> [] then [(''Sec-WebSocket-Protocol'', proto)] else [])"
  have names: "fst ` set ?h \<subseteq> {''Connection'', ''Upgrade'', ''Sec-WebSocket-Accept'', ''Sec-WebSocket-Protocol''}" by auto
  have "''Server'' \<notin> {''Connection'', ''Upgrade'', ''Sec-WebSocket-Accept'', ''Sec-WebSocket-Protocol''}"
    "''Date'' \<notin> {''Connection'', ''Upgrade'', ''Sec-WebSocket-Accept'', ''Sec-WebSocket-Protocol''}" "''Date'' \<noteq> ''Server''"
    by simp_all
  then have "''Server'' \<notin> fst ` set ?h" "''Date'' \<notin> fst ` set (?h @ [(''Server'', ''NetServer/1.0'')])" using names by auto
  note new = this [THEN addHeader_absent]
  have s: "addHeader ''Server'' ''NetServer/1.0'' ?h = ?h @ [(''Server'', ''NetServer/1.0'')]"
    "addHeader ''Date'' date (?h @ [(''Server'', ''NetServer/1.0'')]) = (?h @ [(''Server'', ''NetServer/1.0'')]) @ [(''Date'', date)]"
    by (rule new(1), rule new(2))
  have c: "addHeader ''Connection'' ''keep-alive'' ((?h @ [(''Server'', ''NetServer/1.0'')]) @ [(''Date'', date)]) =
      (?h @ [(''Server'', ''NetServer/1.0'')]) @ [(''Date'', date)]" by (rule addHeader_present) simp
  note c = this [unfolded append_assoc append.simps]
  have b: "autoHeaders NewHTTPBuilder" "serverName NewHTTPBuilder = ''NetServer/1.0''" by (simp_all add: NewHTTPBuilder_def)
  have n: "''NetServer/1.0'' \<noteq> []" by simp
  show ?thesis unfolding responseHeaders_def lengthHeaders_def b if_P [OF n] s upgrade_headers_def
    by (simp only: b if_True HOL.simp_thms if_False c append_assoc append.simps)
qed

lemma upgrade_headers_all:
  assumes "clean date" "clean proto" "clean a"
  shows "list_all (\<lambda>(n, v). clean n \<and> clean v \<and> CHR '':'' \<notin> set n) (upgrade_headers date a proto)"
proof -
  have "clean ''Connection''" "clean ''Upgrade''" "clean ''websocket''" "clean ''Sec-WebSocket-Accept''"
    "clean ''Sec-WebSocket-Protocol''" "clean ''Server''" "clean ''NetServer/1.0''" "clean ''Date''"
    by code_simp+
  then show ?thesis using assms by (simp add: upgrade_headers_def)
qed

lemma upgrade_headers_clean:
  assumes "clean date" "clean proto" "clean a" "(n, v) \<in> set (upgrade_headers date a proto)"
  shows "clean n" "clean v" "CHR '':'' \<notin> set n"
  using upgrade_headers_all [OF assms(1-3)] assms(4) unfolding list_all_iff by blast+

lemma upgrade_accept_only:
  "filter (\<lambda>nv. lower (fst nv) = ''sec-websocket-accept'') (upgrade_headers date a proto) = [(''Sec-WebSocket-Accept'', a)]"
proof -
  have "lower ''Connection'' \<noteq> ''sec-websocket-accept''" "lower ''Upgrade'' \<noteq> ''sec-websocket-accept''"
    "lower ''Sec-WebSocket-Accept'' = ''sec-websocket-accept''" "lower ''Sec-WebSocket-Protocol'' \<noteq> ''sec-websocket-accept''"
    "lower ''Server'' \<noteq> ''sec-websocket-accept''" "lower ''Date'' \<noteq> ''sec-websocket-accept''"
    by code_simp+
  then show ?thesis
    by (simp only: upgrade_headers_def filter_append filter.simps fst_conv if_True if_False append.simps split: if_split) simp
qed

lemma mset_singleton: "mset xs = mset [x] \<Longrightarrow> xs = [x]"
  by simp

lemma extract_accept:
  assumes "clean date" "clean proto" "clean a" "mset hs = mset (upgrade_headers date a proto)"
  shows "extractWebSocketAccept U (go_bytes (''HTTP/1.1 101 Switching Protocols'' @ CRLF @ concat (map headerText hs) @ CRLF)) = a"
proof -
  have s: "set hs = set (upgrade_headers date a proto)" by (rule mset_eq_setD [OF assms(4)])
  note c = upgrade_headers_clean [OF assms(1-3)]
  have ok: "is_ascii (fst nv)" "is_ascii (snd nv)" "CHR '':'' \<notin> set (fst nv)" "CR \<notin> set (header_line nv)" if "nv \<in> set hs" for nv
    using c [of "fst nv" "snd nv"] that s by (auto simp: clean_def header_line_def split: prod.splits)
  let ?P = "\<lambda>line. prefix ''sec-websocket-accept:'' (ToLower U line) \<and> length (SplitN line CHR '':'' 2) = 2"
  have split: "SplitN (header_line nv) CHR '':'' 2 = [fst nv, CHR '' '' # snd nv]" if "nv \<in> set hs" for nv
    using SplitN_sep [of "CHR '':''" "fst nv" "CHR '' '' # snd nv" 0] ok(3) [OF that]
    by (cases nv) (simp add: header_line_def eval_nat_numeral)
  have P: "?P (header_line nv) \<longleftrightarrow> lower (fst nv) = ''sec-websocket-accept''" if "nv \<in> set hs" for nv
    using accept_line [of "fst nv" "snd nv" U] ok(1-3) [OF that] split [OF that] by simp
  have "mset (filter (\<lambda>nv. lower (fst nv) = ''sec-websocket-accept'') hs) = mset [(''Sec-WebSocket-Accept'', a)]"
    using assms(4) upgrade_accept_only [of date a proto] by (metis mset_filter)
  then have f: "filter (\<lambda>nv. lower (fst nv) = ''sec-websocket-accept'') hs = [(''Sec-WebSocket-Accept'', a)]"
    by (rule mset_singleton)
  have inh: "(''Sec-WebSocket-Accept'', a) \<in> set hs" using s by (simp add: upgrade_headers_def)
  have "filter (\<lambda>nv. ?P (header_line nv)) hs = filter (\<lambda>nv. lower (fst nv) = ''sec-websocket-accept'') hs"
    by (rule filter_cong [OF refl]) (rule P)
  then have "filter ?P (map header_line hs) = map header_line (filter (\<lambda>nv. lower (fst nv) = ''sec-websocket-accept'') hs)"
    unfolding filter_map comp_def by (rule arg_cong)
  then have fh: "filter ?P (map header_line hs @ [[], []]) = [header_line (''Sec-WebSocket-Accept'', a)]"
    unfolding f by (simp add: ToLower_def)
  have "is_ascii ''HTTP/1.1 101 Switching Protocols''" "\<not> prefix ''sec-websocket-accept:'' (lower ''HTTP/1.1 101 Switching Protocols'')"
    by code_simp+
  then have first: "\<not> ?P ''HTTP/1.1 101 Switching Protocols''" unfolding ToLower_def by (simp only: if_True simp_thms)
  have "SplitCRLF (''HTTP/1.1 101 Switching Protocols'' @ CRLF @ concat (map headerText hs) @ CRLF) =
      ''HTTP/1.1 101 Switching Protocols'' # map header_line hs @ [[], []]"
    using SplitCRLF_sep [of "''HTTP/1.1 101 Switching Protocols''" "concat (map headerText hs) @ CRLF"] split_headers ok(4) by simp
  then have "filter ?P (SplitCRLF (''HTTP/1.1 101 Switching Protocols'' @ CRLF @ concat (map headerText hs) @ CRLF)) =
      [header_line (''Sec-WebSocket-Accept'', a)]"
    by (simp only: filter.simps(2) first fh if_False)
  moreover have "TrimSpace U (CHR '' '' # a) = a"
    using assms(3) trim_space_trimmed by (auto simp: clean_def TrimSpace_def)
  ultimately show ?thesis
    unfolding extractWebSocketAccept_def go_string_bytes using split [OF inh] by simp
qed

text \<open>C32: a WebSocket upgrade is answered with the accept key of RFC 6455, the Base64 text of the SHA-1 of
  the client's key and the magic string, taken from the response the builder wrote, in whatever order Go
  iterates over its headers.\<close>

theorem upgrade_accept_key:
  assumes "IsWebSocketUpgrade U r" "hpBuilder p = Some NewHTTPBuilder" "Get reg Protocol.ProtocolWebSocket = Inr ws"
    "\<forall>x. mset (order x) = mset x" "clean date" "clean (WebSocketProtocol r)"
  shows "\<exists>resp. HandleUpgrade U order date reg p (Some r) = Ret (Inr (ws, resp)) \<and> StatusCode resp = 101 \<and>
    WebSocketAccept resp = base64 (sha1 (go_bytes (WebSocketKey r @ ''258EAFA5-E914-47DA-95CA-C5AB0DC85B11''))) \<and>
    hget (the (bHeaders (Base resp))) ''sec-websocket-accept'' = WebSocketAccept resp \<and>
    WebSocketProtocol resp = WebSocketProtocol r"
proof -
  let ?a = "generateWebSocketAccept NewHTTPBuilder (WebSocketKey r)"
  let ?h = "upgrade_headers date ?a (WebSocketProtocol r)"
  have a: "?a = base64 (sha1 (go_bytes (WebSocketKey r @ ''258EAFA5-E914-47DA-95CA-C5AB0DC85B11'')))"
    by (simp add: generateWebSocketAccept_def NewHTTPBuilder_def go_bytes_def)
  have k: "WebSocketKey r \<noteq> []" using assms(1) by (simp add: IsWebSocketUpgrade_def)
  have code: "Itoa 101 = ''101''" by code_simp
  have "BuildWebSocketUpgradeResponse order date NewHTTPBuilder (WebSocketKey r) (WebSocketProtocol r) =
      Inr (go_bytes (''HTTP/1.1 101 Switching Protocols'' @ CRLF @ concat (map headerText (order ?h)) @ CRLF))"
    using k responseHeaders_upgrade [of date ?a "WebSocketProtocol r"]
    by (cases "WebSocketProtocol r = []") (simp_all add: BuildWebSocketUpgradeResponse_def BuildResponse_def Let_def code)
  moreover have "extractWebSocketAccept U (go_bytes (''HTTP/1.1 101 Switching Protocols'' @ CRLF @ concat (map headerText (order ?h)) @ CRLF)) = ?a"
    by (rule extract_accept [OF assms(5,6)]) (use assms(4) base64_clean a in auto)
  ultimately obtain data where "BuildWebSocketUpgradeResponse order date NewHTTPBuilder (WebSocketKey r) (WebSocketProtocol r) = Inr data"
    "extractWebSocketAccept U data = ?a" by blast
  then have "HandleUpgrade U order date reg p (Some r) = Ret (Inr (ws, upgradeResponse ?a (WebSocketProtocol r)))"
    unfolding HandleUpgrade_def option.case assms(2) using assms(1,3) by simp
  moreover have "hget [(''connection'', ''Upgrade''), (''upgrade'', ''websocket''), (''sec-websocket-accept'', x)] ''sec-websocket-accept'' = x"
    "hget [(''connection'', ''Upgrade''), (''upgrade'', ''websocket''), (''sec-websocket-accept'', x), (''sec-websocket-protocol'', y)]
      ''sec-websocket-accept'' = x" for x y
    by (simp_all add: hget_def)
  then have "hget (the (bHeaders (Base (upgradeResponse x y)))) ''sec-websocket-accept'' = x" for x y
    by (simp add: upgradeResponse_def)
  moreover have "StatusCode (upgradeResponse x y) = 101" "WebSocketAccept (upgradeResponse x y) = x"
    "WebSocketProtocol (upgradeResponse x y) = y" for x y
    by (simp_all add: upgradeResponse_def)
  ultimately show ?thesis using a by metis
qed

definition upgradeRequest :: http_request where
  "upgradeRequest = (newRequest ''GET'' ''/chat'' ''HTTP/1.1'')\<lparr>Connection := ''Upgrade'', Upgrade := ''websocket'',
     WebSocketKey := ''dGhlIHNhbXBsZSBub25jZQ==''\<rparr>"

definition wsRegistry :: "nat registry" where
  "wsRegistry = fst (Register Protocol.ProtocolWebSocket (Some 1) NewRegistry)"

theorem upgrade_accept_key_witness:
  "\<exists>resp. HandleUpgrade asciiOnly id ''Mon, 02 Jan 2006 15:04:05 UTC'' wsRegistry NewHTTPProtocol (Some upgradeRequest) = Ret (Inr (1, resp))
     \<and> StatusCode resp = 101"
proof -
  have "IsWebSocketUpgrade asciiOnly upgradeRequest" "clean ''Mon, 02 Jan 2006 15:04:05 UTC''" "clean (WebSocketProtocol upgradeRequest)"
    by code_simp+
  moreover have "Get wsRegistry Protocol.ProtocolWebSocket = Inr 1" by (simp add: wsRegistry_def)
  ultimately show ?thesis
    using upgrade_accept_key [of asciiOnly upgradeRequest NewHTTPProtocol wsRegistry 1 id "''Mon, 02 Jan 2006 15:04:05 UTC''"]
    by (auto simp: NewHTTPProtocol_def)
qed

section \<open>Detection\<close>

lemma start_handled:
  assumes "prefix (go_bytes s) data" "prefix m s" "length m \<le> 16"
  shows "prefix m (go_string (take (min (length data) 16) data))"
proof -
  obtain rest ms where r: "data = go_bytes s @ rest" "s = m @ ms" using assms by (auto simp: prefix_def)
  have "go_string data = m @ ms @ go_string rest" using r by simp
  moreover have "go_string (take k data) = take k (go_string data)" for k by (simp add: go_string_def take_map)
  moreover have "length m \<le> length data" using r by (simp add: go_bytes_def)
  ultimately show ?thesis using assms(3) by (simp add: min_def)
qed

text \<open>What the default detector takes for HTTP is the data that begins with one of the eleven known
  words, everything else is unknown, and the HTTP handle accepts all that is detected.\<close>

theorem detected_is_handled:
  assumes "length data < 2 ^ 63"
  shows "Detect NewSmartDetector data =
      Ret (if \<exists>s \<in> set httpStarts. prefix (go_bytes s) data then ProtocolHTTP else ProtocolUnknown) \<and>
    (Detect NewSmartDetector data = Ret ProtocolHTTP \<longrightarrow> CanHandle data)"
proof -
  have d: "Detect NewSmartDetector data = Ret (if \<exists>s \<in> set httpStarts. prefix (go_bytes s) data then ProtocolHTTP else ProtocolUnknown)"
    using Detect_default [OF assms] by (simp add: startsHTTP_def list_ex_iff)
  have "CanHandle data" if "s \<in> set httpStarts" "prefix (go_bytes s) data" for s
  proof -
    have "list_all (\<lambda>s. 4 \<le> length s \<and> list_ex (\<lambda>m. prefix m s \<and> length m \<le> 16) (''HTTP/'' # httpMethods)) httpStarts" by code_simp
    then have "4 \<le> length s" "\<exists>m \<in> set (''HTTP/'' # httpMethods). prefix m s \<and> length m \<le> 16"
      using that(1) unfolding list_all_iff list_ex_iff by blast+
    moreover have "length s \<le> length data" using prefix_length_le [OF that(2)] by (simp add: go_bytes_def)
    ultimately show ?thesis using start_handled [OF that(2)] by (auto simp: CanHandle_def Let_def list_ex_iff)
  qed
  then show ?thesis using d by auto
qed

theorem detected_is_handled_witness: "CanHandle (go_bytes ''GET / HTTP/1.1'')"
proof -
  have "prefix (go_bytes ''GET '') (go_bytes ''GET / HTTP/1.1'')" by (simp add: go_bytes_def)
  then have "\<exists>s \<in> set httpStarts. prefix (go_bytes s) (go_bytes ''GET / HTTP/1.1'')" by (auto simp: httpStarts_def)
  then show ?thesis using detected_is_handled [of "go_bytes ''GET / HTTP/1.1''"] by (simp add: go_bytes_def)
qed

end
