(* ===== verification/NetConnection.thy ===== *)
theory NetConnection
  imports BufferPool HttpCorrect HttpBuilder WebSocket
begin

text \<open>
  A connection of the network layer, \<^verbatim>\<open>util/net/net/connection/connection.go\<close>, with the reader and the writer of
  \<^verbatim>\<open>util/net/base/io/io.go\<close> below it: the read loop of an edge-triggered event with the detection of the protocol, the
  parser and the delivery of messages, writing, and closing.

  The kernel is the lists of the answers it gives to the system calls: what arrives, and what each write takes.  Callbacks,
  timers and the closing of the socket are events in a log; what a callback does with the connection is a further
  operation.  The theorems: an HTTP stream is delivered as the parser would read it in one piece; a connection that starts
  with a byte no HTTP message starts with never delivers anything and is never closed for it; and what the kernel does not
  take of a flushed buffer is lost.
\<close>

section \<open>State\<close>

datatype net_protocol = HttpP http_protocol | WsP ws_protocol
datatype net_message = HttpM http_message | WsM ws_message

datatype net_error =
    NeMoreData | NeAgain | NeEOF | NeErrno string | NeClosed | NeUnknownProtocol | NeGet protocol_error | NeNoHandler
  | NeHttp protocol_error | NeWs ws_error | NeIdle | NeNotConnected | NeUpgrade protocol_error

datatype conn_state = StateConnecting | StateConnected | StateClosing | StateClosed

text \<open>The callbacks that are set.\<close>

datatype conn_callback = CbRead | CbWrite | CbClose | CbError | CbMessage | CbUpgrade

record net_conn =
  ncId :: string
  ncState :: conn_state
  ncClosed :: bool
  ncCreatedAt :: int
  ncLastActive :: int
  ncReadBuffer :: ring
  ncWriteBuffer :: ring
  ncType :: protocol_type
  ncHandler :: "net_protocol option"
  ncCallbacks :: "conn_callback set"
  ncReadTimeout :: int
  ncWriteTimeout :: int
  ncIdleTimeout :: int
  ncTimer :: nat
  ncKeepAlive :: bool
  ncNoDelay :: bool
  ncUpgrading :: bool

text \<open>
  The answers of the kernel to \<^verbatim>\<open>read\<close>: bytes that wait (an empty list is the end of the stream), or an error.  With
  nothing left it says \<^verbatim>\<open>EAGAIN\<close>.  To \<^verbatim>\<open>write\<close>: how many bytes it takes, or an error; with no answer left it takes all.
\<close>

datatype sys_read = Waits bytes | ReadErr string
datatype sys_write = Takes nat | WriteErr string

datatype net_event =
    EvRead bytes | EvWrite bytes | EvClose | EvError net_error | EvMessage net_message | EvUpgrade net_protocol
  | EvTimer int nat | EvCancel nat | EvSocketClosed | EvPut ring | EvKeepAlive bool | EvNoDelay bool

record net_world =
  wNow :: int
  wIncoming :: "sys_read list"
  wAnswers :: "sys_write list"
  wSent :: bytes
  wTimers :: nat
  wEvents :: "net_event list"

text \<open>What the connection uses of the program around it: the registry of protocols, the tables of the characters beyond
  ASCII, the order of headers, the date, and the mask of a frame.\<close>

record net_env =
  envRegistry :: "net_protocol registry"
  envUnicode :: unicode
  envOrder :: order
  envDate :: string
  envKey :: bytes

definition record_event :: "net_event \<Rightarrow> net_world \<Rightarrow> net_world" where
  "record_event e w = w\<lparr>wEvents := wEvents w @ [e]\<rparr>"

definition callback :: "conn_callback \<Rightarrow> net_event \<Rightarrow> net_conn \<Rightarrow> net_world \<Rightarrow> net_world" where
  "callback cb e c w = (if cb \<in> ncCallbacks c then record_event e w else w)"

section \<open>Timers and errors\<close>

definition second :: int where "second = 1000000000"

definition startIdleTimer :: "net_conn \<Rightarrow> net_world \<Rightarrow> net_conn \<times> net_world" where
  "startIdleTimer c w =
     (if ncIdleTimeout c > 0
      then (c\<lparr>ncTimer := Suc (wTimers w)\<rparr>,
            record_event (EvTimer (ncIdleTimeout c) (Suc (wTimers w))) (w\<lparr>wTimers := Suc (wTimers w)\<rparr>))
      else (c, w))"

definition cancelTimer :: "net_conn \<Rightarrow> net_world \<Rightarrow> net_world" where
  "cancelTimer c w = (if ncTimer c \<noteq> 0 then record_event (EvCancel (ncTimer c)) w else w)"

definition resetIdleTimer :: "net_conn \<Rightarrow> net_world \<Rightarrow> net_conn \<times> net_world" where
  "resetIdleTimer c w = startIdleTimer c (cancelTimer c w)"

definition updateActivity :: "net_conn \<Rightarrow> net_world \<Rightarrow> net_conn \<times> net_world" where
  "updateActivity c w = resetIdleTimer (c\<lparr>ncLastActive := wNow w\<rparr>) w"

definition handleError :: "net_error \<Rightarrow> net_conn \<Rightarrow> net_world \<Rightarrow> net_world" where
  "handleError e c w = callback CbError (EvError e) c w"

definition configureSocket :: "net_conn \<Rightarrow> net_world \<Rightarrow> net_world" where
  "configureSocket c w =
     (let w1 = (if ncKeepAlive c then record_event (EvKeepAlive True) w else w)
      in if ncNoDelay c then record_event (EvNoDelay True) w1 else w1)"

definition NewConnection :: "string \<Rightarrow> net_world \<Rightarrow> net_conn \<times> net_world" where
  "NewConnection i w =
     (let c = \<lparr>ncId = i, ncState = StateConnected, ncClosed = False, ncCreatedAt = wNow w, ncLastActive = wNow w,
               ncReadBuffer = NewRingBufferWithCapacity 8192 (4 * 1024 * 1024),
               ncWriteBuffer = NewRingBufferWithCapacity 8192 (1024 * 1024),
               ncType = ProtocolUnknown, ncHandler = None, ncCallbacks = {},
               ncReadTimeout = 30 * second, ncWriteTimeout = 30 * second, ncIdleTimeout = 5 * 60 * second,
               ncTimer = 0, ncKeepAlive = True, ncNoDelay = True, ncUpgrading = False\<rparr>
      in startIdleTimer c (configureSocket c w))"

section \<open>Closing\<close>

definition protocol_Close :: "net_protocol \<Rightarrow> net_protocol" where
  "protocol_Close h = (case h of HttpP p \<Rightarrow> HttpP (http_protocol_Close p) | WsP p \<Rightarrow> WsP (ws_protocol_Close p))"

text \<open>The buffers that go back to the pool are in the log; the handler that is closed is dropped.\<close>

definition net_Close :: "net_conn \<Rightarrow> net_world \<Rightarrow> net_conn \<times> net_world" where
  "net_Close c w =
     (if ncClosed c then (c, w)
      else let c1 = c\<lparr>ncClosed := True, ncState := StateClosed\<rparr>;
               w1 = record_event EvSocketClosed (cancelTimer c1 w);
               w2 = record_event (EvPut (ncWriteBuffer c1)) (record_event (EvPut (ncReadBuffer c1)) w1);
               c2 = c1\<lparr>ncHandler := None\<rparr>
           in (c2, callback CbClose EvClose c2 w2))"

definition handleIdleTimeout :: "net_conn \<Rightarrow> net_world \<Rightarrow> net_conn \<times> net_world" where
  "handleIdleTimeout c w =
     (if ncClosed c then (c, w)
      else if wNow w - ncLastActive c \<ge> ncIdleTimeout c then net_Close c (handleError NeIdle c w)
      else resetIdleTimer c w)"

section \<open>Reading\<close>

text \<open>\<^verbatim>\<open>Reader.Read\<close> with a slice of length \<open>m\<close>: what one system call takes, with the rest left in the kernel.\<close>

definition sys_Read :: "nat \<Rightarrow> net_world \<Rightarrow> net_world \<times> (net_error + bytes)" where
  "sys_Read m w =
     (if m = 0 then (w, Inr [])
      else case wIncoming w of
             [] \<Rightarrow> (w, Inl NeAgain)
           | ReadErr e # rest \<Rightarrow> (w\<lparr>wIncoming := rest\<rparr>, Inl (NeErrno e))
           | Waits bs # rest \<Rightarrow>
               if length bs \<le> m then (w\<lparr>wIncoming := rest\<rparr>, Inr bs)
               else (w\<lparr>wIncoming := Waits (drop m bs) # rest\<rparr>, Inr (take m bs)))"

definition ReadToBuffer :: "ring \<Rightarrow> net_world \<Rightarrow> (ring \<times> net_world \<times> (net_error + nat)) outcome option" where
  "ReadToBuffer rb w =
     (let rb1 = (if Available rb = 0 then Grow rb 4096 else rb)
      in if Available rb1 < 0 then Some Panic
         else case sys_Read (nat (Available rb1)) w of
                (w1, Inl e) \<Rightarrow> Some (Ret (rb1, w1, Inl e))
              | (w1, Inr bs) \<Rightarrow>
                  if bs \<noteq> [] then
                    (case RingBuffer.Write rb1 bs of
                       None \<Rightarrow> None
                     | Some Panic \<Rightarrow> Some Panic
                     | Some (Ret (rb2, n)) \<Rightarrow> Some (Ret (rb2, w1, Inr n)))
                  else Some (Ret (rb1, w1, if Available rb1 > 0 then Inl NeEOF else Inr 0)))"

definition detectAndSetupProtocol :: "net_env \<Rightarrow> net_conn \<Rightarrow> (net_conn \<times> net_error option) outcome" where
  "detectAndSetupProtocol E c =
     (if ncType c \<noteq> ProtocolUnknown \<and> ncHandler c \<noteq> None then Ret (c, None)
      else case Peek (ncReadBuffer c) 1024 of
             Panic \<Rightarrow> Panic
           | Ret data \<Rightarrow>
               if data = [] then Ret (c, Some NeMoreData)
               else case DetectProtocol (envRegistry E) data of
                      Panic \<Rightarrow> Panic
                    | Ret t \<Rightarrow>
                        if t = ProtocolUnknown then Ret (c, Some NeUnknownProtocol)
                        else case Get (envRegistry E) t of
                               Inl e \<Rightarrow> Ret (c, Some (NeGet e))
                             | Inr h \<Rightarrow> Ret (c\<lparr>ncType := t, ncHandler := Some h\<rparr>, None))"

text \<open>The parser of a protocol on the bytes that the buffer holds.  A closed protocol has no parser.\<close>

definition protocol_Parse :: "unicode \<Rightarrow> net_protocol \<Rightarrow> bytes \<Rightarrow> (net_protocol \<times> (net_error + net_message list)) outcome" where
  "protocol_Parse U h data =
     (case h of
        HttpP p \<Rightarrow>
          (case http_GetParser p of
             None \<Rightarrow> Panic
           | Some q \<Rightarrow>
               (case Http.Parse U q data of
                  (_, Panic) \<Rightarrow> Panic
                | (q', Ret (Inl e)) \<Rightarrow> Ret (HttpP (p\<lparr>hpParser := Some q'\<rparr>), Inl (NeHttp e))
                | (q', Ret (Inr ms)) \<Rightarrow> Ret (HttpP (p\<lparr>hpParser := Some q'\<rparr>), Inr (map HttpM ms))))
      | WsP p \<Rightarrow>
          (case ws_GetParser p of
             None \<Rightarrow> Panic
           | Some q \<Rightarrow>
               (case WebSocket.Parse q data of
                  (q', Inl e) \<Rightarrow> Ret (WsP (p\<lparr>wpParser := Some q'\<rparr>), Inl (NeWs e))
                | (q', Inr ms) \<Rightarrow> Ret (WsP (p\<lparr>wpParser := Some q'\<rparr>), Inr (map WsM ms)))))"

definition ReadMessage :: "net_env \<Rightarrow> net_conn \<Rightarrow> (net_conn \<times> (net_error + net_message list)) outcome" where
  "ReadMessage E c =
     (case detectAndSetupProtocol E c of
        Panic \<Rightarrow> Panic
      | Ret (c1, Some e) \<Rightarrow> Ret (c1, Inl e)
      | Ret (c1, None) \<Rightarrow>
          (case ncHandler c1 of
             None \<Rightarrow> Ret (c1, Inl NeNoHandler)
           | Some h \<Rightarrow>
               (case ReadAll (ncReadBuffer c1) of
                  Panic \<Rightarrow> Panic
                | Ret (rb, data) \<Rightarrow>
                    (case protocol_Parse (envUnicode E) h data of
                       Panic \<Rightarrow> Panic
                     | Ret (h', r) \<Rightarrow> Ret (c1\<lparr>ncReadBuffer := rb, ncHandler := Some h'\<rparr>, r)))))"

definition deliver :: "net_conn \<Rightarrow> net_message list \<Rightarrow> net_world \<Rightarrow> net_world" where
  "deliver c ms w = fold (\<lambda>m. callback CbMessage (EvMessage m) c) ms w"

definition processData :: "net_env \<Rightarrow> net_conn \<Rightarrow> net_world \<Rightarrow> (net_conn \<times> net_world \<times> net_error option) outcome" where
  "processData E c w =
     (case detectAndSetupProtocol E c of
        Panic \<Rightarrow> Panic
      | Ret (c1, Some e) \<Rightarrow> Ret (c1, w, Some e)
      | Ret (c1, None) \<Rightarrow>
          (case ReadMessage E c1 of
             Panic \<Rightarrow> Panic
           | Ret (c2, Inl e) \<Rightarrow> Ret (c2, w, Some e)
           | Ret (c2, Inr ms) \<Rightarrow> Ret (c2, deliver c2 ms w, None)))"

text \<open>What the read loop does with the \<open>n\<close> bytes it has just put into the buffer.\<close>

definition afterRead :: "net_env \<Rightarrow> nat \<Rightarrow> net_conn \<Rightarrow> net_world \<Rightarrow> (net_conn \<times> net_world \<times> net_error option) outcome" where
  "afterRead E n c w =
     (case updateActivity c w of
        (c1, w1) \<Rightarrow>
          (case (if CbRead \<in> ncCallbacks c1 then Peek (ncReadBuffer c1) (int n) else Ret []) of
             Panic \<Rightarrow> Panic
           | Ret data \<Rightarrow> processData E c1 (callback CbRead (EvRead data) c1 w1)))"

partial_function (option) readLoop :: "net_env \<Rightarrow> net_conn \<Rightarrow> net_world \<Rightarrow> (net_conn \<times> net_world \<times> net_error option) outcome option" where
  "readLoop E c w =
     (case ReadToBuffer (ncReadBuffer c) w of
        None \<Rightarrow> None
      | Some Panic \<Rightarrow> Some Panic
      | Some (Ret (rb, w1, Inl e)) \<Rightarrow>
          (let c1 = c\<lparr>ncReadBuffer := rb\<rparr>
           in if e = NeAgain then Some (Ret (c1, w1, None))
              else if e = NeEOF then
                (case net_Close c1 (handleError e c1 w1) of (c2, w2) \<Rightarrow> Some (Ret (c2, w2, None)))
              else Some (Ret (c1, handleError e c1 w1, Some e)))
      | Some (Ret (rb, w1, Inr n)) \<Rightarrow>
          (if n = 0 then Some (Ret (c\<lparr>ncReadBuffer := rb\<rparr>, w1, None))
           else case afterRead E n (c\<lparr>ncReadBuffer := rb\<rparr>) w1 of
                  Panic \<Rightarrow> Some Panic
                | Ret (c2, w2, r) \<Rightarrow>
                    if r = None \<or> r = Some NeMoreData then readLoop E c2 w2 else Some (Ret (c2, w2, r))))"

definition net_Read :: "net_env \<Rightarrow> net_conn \<Rightarrow> net_world \<Rightarrow> (net_conn \<times> net_world \<times> net_error option) outcome option" where
  "net_Read E c w = (if ncClosed c then Some (Ret (c, w, Some NeClosed)) else readLoop E c w)"

section \<open>Writing\<close>

definition sys_Write :: "bytes \<Rightarrow> net_world \<Rightarrow> net_world \<times> (net_error + nat)" where
  "sys_Write data w =
     (case wAnswers w of
        [] \<Rightarrow> (w\<lparr>wSent := wSent w @ data\<rparr>, Inr (length data))
      | WriteErr e # rest \<Rightarrow> (w\<lparr>wAnswers := rest\<rparr>, Inl (NeErrno e))
      | Takes k # rest \<Rightarrow> (w\<lparr>wAnswers := rest, wSent := wSent w @ take k data\<rparr>, Inr (min k (length data))))"

definition net_Write :: "bytes \<Rightarrow> net_conn \<Rightarrow> net_world \<Rightarrow> net_conn \<times> net_world \<times> nat \<times> net_error option" where
  "net_Write data c w =
     (if ncClosed c then (c, w, 0, Some NeClosed)
      else if data = [] then (c, w, 0, None)
      else case sys_Write data w of
             (w1, Inl e) \<Rightarrow> (c, handleError e c w1, 0, Some e)
           | (w1, Inr n) \<Rightarrow>
               if n > 0 then
                 (case updateActivity c w1 of
                    (c2, w2) \<Rightarrow> (c2, callback CbWrite (EvWrite (take n data)) c2 w2, n, None))
               else (c, w1, n, None))"

definition WriteBuffered :: "bytes \<Rightarrow> net_conn \<Rightarrow> (net_conn \<times> net_error option) outcome option" where
  "WriteBuffered data c =
     (if ncClosed c then Some (Ret (c, Some NeClosed))
      else case RingBuffer.Write (ncWriteBuffer c) data of
             None \<Rightarrow> None
           | Some Panic \<Rightarrow> Some Panic
           | Some (Ret (rb, _)) \<Rightarrow> Some (Ret (c\<lparr>ncWriteBuffer := rb\<rparr>, None)))"

definition net_Flush :: "net_conn \<Rightarrow> net_world \<Rightarrow> (net_conn \<times> net_world \<times> net_error option) outcome" where
  "net_Flush c w =
     (if ncClosed c then Ret (c, w, Some NeClosed)
      else case ReadAll (ncWriteBuffer c) of
             Panic \<Rightarrow> Panic
           | Ret (rb, data) \<Rightarrow>
               let c1 = c\<lparr>ncWriteBuffer := rb\<rparr>
               in if data = [] then Ret (c1, w, None)
                  else case net_Write data c1 w of (c2, w2, _, e) \<Rightarrow> Ret (c2, w2, e))"

section \<open>Messages and the change of protocol\<close>

definition statusNames :: "(int \<times> string) list" where
  "statusNames =
     [(200, ''OK''), (201, ''Created''), (204, ''No Content''), (301, ''Moved Permanently''), (302, ''Found''),
      (304, ''Not Modified''), (400, ''Bad Request''), (401, ''Unauthorized''), (403, ''Forbidden''), (404, ''Not Found''),
      (405, ''Method Not Allowed''), (500, ''Internal Server Error''), (501, ''Not Implemented''), (502, ''Bad Gateway''),
      (503, ''Service Unavailable'')]"

definition statusText :: "int \<Rightarrow> string" where
  "statusText code = (case map_of statusNames code of Some t \<Rightarrow> t | None \<Rightarrow> ''Unknown'')"

text \<open>A built message that is written; the number of bytes that were taken is not looked at.\<close>

definition writeBuilt :: "(net_error + bytes) outcome \<Rightarrow> net_conn \<Rightarrow> net_world \<Rightarrow> (net_conn \<times> net_world \<times> net_error option) outcome" where
  "writeBuilt b c w =
     (case b of
        Panic \<Rightarrow> Panic
      | Ret (Inl e) \<Rightarrow> Ret (c, w, Some e)
      | Ret (Inr data) \<Rightarrow> (case net_Write data c w of (c2, w2, _, e) \<Rightarrow> Ret (c2, w2, e)))"

definition WriteResponse :: "net_env \<Rightarrow> int \<Rightarrow> string \<Rightarrow> string \<Rightarrow> net_conn \<Rightarrow> net_world \<Rightarrow> (net_conn \<times> net_world \<times> net_error option) outcome" where
  "WriteResponse E code contentType payload c w =
     (case ncHandler c of
        None \<Rightarrow> Ret (c, w, Some NeNoHandler)
      | Some h \<Rightarrow>
          let headers = (if contentType \<noteq> [] then [(''Content-Type'', contentType)] else [])
          in writeBuilt
               (case h of
                  HttpP p \<Rightarrow> (case http_GetBuilder p of None \<Rightarrow> Panic
                    | Some b \<Rightarrow> Ret (Inr (BuildResponse (envOrder E) (envDate E) b code (statusText code) headers payload)))
                | WsP p \<Rightarrow> Ret (Inl (NeUpgrade (protocol_err Protocol.ProtocolWebSocket ErrCodeNotSupported
                    ''WebSocket does not support response building'')))) c w)"

definition WriteMessage :: "net_env \<Rightarrow> net_message \<Rightarrow> net_conn \<Rightarrow> net_world \<Rightarrow> (net_conn \<times> net_world \<times> net_error option) outcome" where
  "WriteMessage E m c w =
     (case ncHandler c of
        None \<Rightarrow> Ret (c, w, Some NeNoHandler)
      | Some (HttpP p) \<Rightarrow>
          (case http_GetBuilder p of
             None \<Rightarrow> Panic
           | Some b \<Rightarrow>
               writeBuilt (Ret (case BuildMessage (envOrder E) (envDate E) b
                                       (case m of HttpM hm \<Rightarrow> HttpMessage hm | WsM _ \<Rightarrow> OtherMessage) of
                                  Inl e \<Rightarrow> Inl (NeHttp e) | Inr data \<Rightarrow> Inr data)) c w)
      | Some (WsP p) \<Rightarrow>
          (case ws_GetBuilder p of
             None \<Rightarrow> Panic
           | Some server \<Rightarrow>
               writeBuilt (Ret (case m of
                  HttpM _ \<Rightarrow> Inl (NeUpgrade (protocol_err Protocol.ProtocolWebSocket ErrCodeInvalidMessage
                    ''message is not a WebSocket message''))
                | WsM wm \<Rightarrow> (case buildFrame server (envKey E) (OpCode wm) (Payload wm) (Final wm) of
                               Inl e \<Rightarrow> Inl (NeWs e) | Inr data \<Rightarrow> Inr data))) c w))"

definition WriteError :: "net_env \<Rightarrow> string \<Rightarrow> net_conn \<Rightarrow> net_world \<Rightarrow> (net_conn \<times> net_world \<times> net_error option) outcome" where
  "WriteError E message c w =
     (case ncHandler c of
        None \<Rightarrow> Ret (c, w, Some NeNoHandler)
      | Some h \<Rightarrow>
          writeBuilt
            (case h of
               HttpP p \<Rightarrow> (case http_GetBuilder p of None \<Rightarrow> Panic
                 | Some b \<Rightarrow> Ret (Inr (HttpBuilder.BuildError (envOrder E) (envDate E) b 500 message)))
             | WsP p \<Rightarrow> (case ws_GetBuilder p of None \<Rightarrow> Panic
                 | Some server \<Rightarrow> Ret (case WebSocket.BuildError server (envKey E) 500 (go_bytes message) of
                     Inl e \<Rightarrow> Inl (NeWs e) | Inr data \<Rightarrow> Inr data))) c w)"

definition protocol_Type :: "net_protocol \<Rightarrow> protocol_type" where
  "protocol_Type h = (case h of HttpP _ \<Rightarrow> ProtocolHTTP | WsP _ \<Rightarrow> Protocol.ProtocolWebSocket)"

definition UpgradeProtocol :: "net_env \<Rightarrow> http_request \<Rightarrow> net_conn \<Rightarrow> net_world
    \<Rightarrow> (net_conn \<times> net_world \<times> (net_error + http_response)) outcome" where
  "UpgradeProtocol E request c w =
     (if ncState c \<noteq> StateConnected then Ret (c, w, Inl NeNotConnected)
      else case ncHandler c of
             None \<Rightarrow> Ret (c, w, Inl NeNoHandler)
           | Some (WsP _) \<Rightarrow> Ret (c, w, Inl (NeUpgrade ws_HandleUpgrade))
           | Some (HttpP p) \<Rightarrow>
               (case HandleUpgrade (envUnicode E) (envOrder E) (envDate E) (envRegistry E) p (Some request) of
                  Panic \<Rightarrow> Panic
                | Ret (Inl e) \<Rightarrow> Ret (c, w, Inl (NeUpgrade e))
                | Ret (Inr (h, response)) \<Rightarrow>
                    let c1 = c\<lparr>ncHandler := Some h, ncType := protocol_Type h, ncUpgrading := False\<rparr>
                    in Ret (c1, callback CbUpgrade (EvUpgrade h) c1 w, Inr response)))"

section \<open>Setters\<close>

definition setCallback :: "conn_callback \<Rightarrow> net_conn \<Rightarrow> net_conn" where
  "setCallback cb c = c\<lparr>ncCallbacks := insert cb (ncCallbacks c)\<rparr>"

definition SetIdleTimeout :: "int \<Rightarrow> net_conn \<Rightarrow> net_world \<Rightarrow> net_conn \<times> net_world" where
  "SetIdleTimeout t c w = resetIdleTimer (c\<lparr>ncIdleTimeout := t\<rparr>) w"

definition SetKeepAlive :: "bool \<Rightarrow> net_conn \<Rightarrow> net_world \<Rightarrow> net_conn \<times> net_world" where
  "SetKeepAlive b c w = (c\<lparr>ncKeepAlive := b\<rparr>, record_event (EvKeepAlive b) w)"

definition SetTCPNoDelay :: "bool \<Rightarrow> net_conn \<Rightarrow> net_world \<Rightarrow> net_conn \<times> net_world" where
  "SetTCPNoDelay b c w = (c\<lparr>ncNoDelay := b\<rparr>, record_event (EvNoDelay b) w)"

section \<open>Frame lemmas\<close>

definition messagesOf :: "net_event list \<Rightarrow> net_message list" where
  "messagesOf evs = concat (map (\<lambda>e. case e of EvMessage m \<Rightarrow> [m] | _ \<Rightarrow> []) evs)"

lemma messagesOf_simps [simp]:
  "messagesOf [] = []" "messagesOf (xs @ ys) = messagesOf xs @ messagesOf ys" "messagesOf [EvMessage m] = [m]"
  "messagesOf [EvRead b] = []" "messagesOf [EvTimer d n] = []" "messagesOf [EvCancel n] = []"
  by (simp_all add: messagesOf_def)

text \<open>The part of a connection that reading looks at, and what a change of the timer leaves alone.\<close>

definition same_conn :: "net_conn \<Rightarrow> net_conn \<Rightarrow> bool" where
  "same_conn c d \<longleftrightarrow> ncReadBuffer c = ncReadBuffer d \<and> ncHandler c = ncHandler d \<and> ncType c = ncType d \<and>
     ncCallbacks c = ncCallbacks d \<and> ncClosed c = ncClosed d \<and> ncWriteBuffer c = ncWriteBuffer d"

definition same_world :: "net_world \<Rightarrow> net_world \<Rightarrow> bool" where
  "same_world w v \<longleftrightarrow> wIncoming w = wIncoming v \<and> messagesOf (wEvents w) = messagesOf (wEvents v) \<and>
     wSent w = wSent v \<and> wAnswers w = wAnswers v"

lemma record_event_simps [simp]:
  "wIncoming (record_event e w) = wIncoming w" "wEvents (record_event e w) = wEvents w @ [e]"
  "wSent (record_event e w) = wSent w" "wAnswers (record_event e w) = wAnswers w"
  "wTimers (record_event e w) = wTimers w"
  by (simp_all add: record_event_def)

lemma callback_simps [simp]:
  "wIncoming (callback cb e c w) = wIncoming w" "wSent (callback cb e c w) = wSent w"
  "wAnswers (callback cb e c w) = wAnswers w"
  "messagesOf (wEvents (callback cb e c w)) = messagesOf (wEvents w) @ (if cb \<in> ncCallbacks c then messagesOf [e] else [])"
  by (simp_all add: callback_def)

lemma updateActivity_frame:
  "same_conn (fst (updateActivity c w)) c" "same_world (snd (updateActivity c w)) w"
  by (simp_all add: updateActivity_def resetIdleTimer_def startIdleTimer_def cancelTimer_def same_conn_def same_world_def)

lemma deliver_frame:
  "wIncoming (deliver c ms w) = wIncoming w \<and>
   messagesOf (wEvents (deliver c ms w)) = messagesOf (wEvents w) @ (if CbMessage \<in> ncCallbacks c then ms else [])"
  by (induction ms arbitrary: w) (auto simp: deliver_def)

lemma head_buf: "buf (rb\<lparr>head := x\<rparr>) = buf rb"
  by simp

lemma readToSlice_buf: "readToSlice rb m n = Ret (rb', bs) \<Longrightarrow> buf rb' = buf rb"
  unfolding readToSlice_def Let_def
  by (auto simp only: outcome.inject outcome.distinct prod.inject head_buf split: if_split_asm)

lemma ReadAll_buf: "ReadAll rb = Ret (rb', bs) \<Longrightarrow> buf rb' = buf rb"
  by (auto simp: ReadAll_def dest: readToSlice_buf split: if_splits outcome.splits)

section \<open>The read loop\<close>

lemma sys_Read_Waits:
  "wIncoming w = Waits a # rest \<Longrightarrow> length a \<le> m \<Longrightarrow> a \<noteq> [] \<Longrightarrow> sys_Read m w = (w\<lparr>wIncoming := rest\<rparr>, Inr a)"
  by (cases "m = 0") (auto simp: sys_Read_def)

text \<open>An empty buffer with room for the bytes that wait takes them.\<close>

lemma ReadToBuffer_empty:
  assumes "ring_ok rb" "content rb = []" "rsize rb = 0" "a \<noteq> []" "length a \<le> rcap rb" "wIncoming w = Waits a # rest"
  obtains rb' where "ReadToBuffer rb w = Some (Ret (rb', w\<lparr>wIncoming := rest\<rparr>, Inr (length a)))"
    "ring_ok rb'" "content rb' = a" "rcap rb' = rcap rb"
proof -
  have c: "can_write rb (length a)" using assms(3,5) by (simp add: can_write_def room_def)
  have av: "Available rb = int (rcap rb)" "Available rb \<noteq> 0" using assms(3-5) by (auto simp: Available_def)
  from Write_wrote [OF assms(1) c assms(4)] assms(3,5) obtain rb' where
    "RingBuffer.Write rb a = Some (Ret (rb', length a))" "wrote rb a rb'" by auto
  with av sys_Read_Waits [OF assms(6,5,4)] assms(2,4) that [of rb'] show ?thesis
    by (simp add: ReadToBuffer_def wrote_def)
qed

lemma ReadToBuffer_again:
  assumes "0 < rcap rb" "rsize rb = 0" "wIncoming w = []"
  shows "ReadToBuffer rb w = Some (Ret (rb, w, Inl NeAgain))"
  using assms by (auto simp: ReadToBuffer_def Available_def sys_Read_def)

text \<open>A registry as the program has it: the default detector, and HTTP registered.\<close>

definition program_registry :: "net_env \<Rightarrow> bool" where
  "program_registry E \<longleftrightarrow> regDetector (envRegistry E) = NewSmartDetector \<and>
     Get (envRegistry E) ProtocolHTTP = Inr (HttpP NewHTTPProtocol)"

definition http_handler :: "http_parser \<Rightarrow> net_protocol" where
  "http_handler p = HttpP (NewHTTPProtocol\<lparr>hpParser := Some p\<rparr>)"

lemma http_handler_New: "HttpP NewHTTPProtocol = http_handler NewHTTPParser"
  by (simp add: http_handler_def NewHTTPProtocol_def)

text \<open>A connection that reads HTTP and whose parser is in state \<open>p\<close>, between two events; before the first bytes it has
  no handler yet.\<close>

definition reads_http :: "http_parser \<Rightarrow> net_conn \<Rightarrow> bool" where
  "reads_http p c \<longleftrightarrow> ncType c = ProtocolHTTP \<and> ncHandler c = Some (http_handler p)"

definition idle :: "net_conn \<Rightarrow> bool" where
  "idle c \<longleftrightarrow> ring_ok (ncReadBuffer c) \<and> content (ncReadBuffer c) = [] \<and> rsize (ncReadBuffer c) = 0 \<and>
     8192 \<le> rcap (ncReadBuffer c) \<and> \<not> ncClosed c \<and> CbMessage \<in> ncCallbacks c"

lemma startsHTTP_take: "startsHTTP a \<Longrightarrow> startsHTTP (take 1024 a)"
  by (auto simp: startsHTTP_def httpStarts_def go_bytes_def prefix_def)

lemma Detect_program: "program_registry E \<Longrightarrow> length data < 2 ^ 63 \<Longrightarrow>
    DetectProtocol (envRegistry E) data = Ret (if startsHTTP data then ProtocolHTTP else ProtocolUnknown)"
  by (simp add: DetectProtocol_def program_registry_def Detect_default)

lemma detect_set: "reads_http p c \<Longrightarrow> detectAndSetupProtocol E c = Ret (c, None)"
  by (simp add: reads_http_def detectAndSetupProtocol_def)

lemma detect_first:
  assumes E: "program_registry E" and c: "ncHandler c = None" "ring_ok (ncReadBuffer c)" "content (ncReadBuffer c) \<noteq> []"
  shows "detectAndSetupProtocol E c =
    (if startsHTTP (take 1024 (content (ncReadBuffer c)))
     then Ret (c\<lparr>ncType := ProtocolHTTP, ncHandler := Some (http_handler NewHTTPParser)\<rparr>, None)
     else Ret (c, Some NeUnknownProtocol))"
proof -
  let ?d = "take 1024 (content (ncReadBuffer c))"
  have l: "length ?d < 2 ^ 63" by simp
  have "?d \<noteq> []" using c(3) by simp
  with c E Peek_ok [OF c(2), of 1024] Detect_program [OF E l] show ?thesis
    by (simp add: detectAndSetupProtocol_def program_registry_def http_handler_New)
qed

lemma processData_http:
  assumes p: "reads_http p c" and rb: "ring_ok (ncReadBuffer c)" "content (ncReadBuffer c) = a"
    and parse: "http_stream (envUnicode E) p a = (p', Inr ms)"
  obtains rb' where
    "processData E c w = Ret (c\<lparr>ncReadBuffer := rb', ncHandler := Some (http_handler p')\<rparr>, deliver c (map HttpM ms) w, None)"
    "ring_ok rb'" "content rb' = []" "rsize rb' = 0" "rcap rb' = rcap (ncReadBuffer c)"
proof -
  obtain rb' where r: "ReadAll (ncReadBuffer c) = Ret (rb', a)" "ring_ok rb'" "content rb' = []"
    using ReadAll_ok [OF rb(1)] rb(2) by auto
  have "rsize rb' = 0" using length_content [OF r(2)] r(3) by simp
  have h: "ncHandler c = Some (http_handler p)" using p by (simp add: reads_http_def)
  have q: "protocol_Parse (envUnicode E) (http_handler p) a = Ret (http_handler p', Inr (map HttpM ms))"
    using parse by (simp add: protocol_Parse_def http_handler_def http_GetParser_def http_stream_Inr)
  have m: "ReadMessage E c = Ret (c\<lparr>ncReadBuffer := rb', ncHandler := Some (http_handler p')\<rparr>, Inr (map HttpM ms))"
    by (simp add: ReadMessage_def detect_set [OF p] h r(1) q)
  have cb: "callback k e (c\<lparr>ncReadBuffer := rb', ncHandler := Some (http_handler p')\<rparr>) = callback k e c" for k e
    by (rule ext) (simp add: callback_def)
  have "deliver (c\<lparr>ncReadBuffer := rb', ncHandler := Some (http_handler p')\<rparr>) ns w = deliver c ns w" for ns
    by (simp add: deliver_def cb)
  with m r \<open>rsize rb' = 0\<close> ReadAll_buf [OF r(1)] that [of rb'] show ?thesis
    by (simp add: processData_def detect_set [OF p])
qed

lemma processData_detect:
  assumes "detectAndSetupProtocol E c = Ret (d, None)" "detectAndSetupProtocol E d = Ret (d, None)"
  shows "processData E c w = processData E d w"
  using assms by (simp add: processData_def)

text \<open>One chunk goes through the read loop.\<close>

lemma afterRead_http:
  assumes E: "program_registry E" and c: "ring_ok (ncReadBuffer c)" "content (ncReadBuffer c) = a" "a \<noteq> []"
    and p: "reads_http p c \<or> ncHandler c = None \<and> p = NewHTTPParser \<and> startsHTTP (take 1024 a)"
    and cb: "CbMessage \<in> ncCallbacks c" and parse: "http_stream (envUnicode E) p a = (p', Inr ms)"
  obtains c' w' where "afterRead E n c w = Ret (c', w', None)" "reads_http p' c'"
    "ring_ok (ncReadBuffer c')" "content (ncReadBuffer c') = []" "rsize (ncReadBuffer c') = 0"
    "rcap (ncReadBuffer c') = rcap (ncReadBuffer c)" "ncClosed c' = ncClosed c" "ncCallbacks c' = ncCallbacks c"
    "wIncoming w' = wIncoming w" "messagesOf (wEvents w') = messagesOf (wEvents w) @ map HttpM ms"
proof -
  obtain c1 w1 where u: "updateActivity c w = (c1, w1)" by (cases "updateActivity c w")
  have c1: "ncReadBuffer c1 = ncReadBuffer c" "ncHandler c1 = ncHandler c" "ncType c1 = ncType c"
    "ncCallbacks c1 = ncCallbacks c" "ncClosed c1 = ncClosed c"
    and w1: "wIncoming w1 = wIncoming w" "messagesOf (wEvents w1) = messagesOf (wEvents w)"
    using updateActivity_frame [of c w] u by (auto simp: same_conn_def same_world_def)
  obtain d where d: "detectAndSetupProtocol E c1 = Ret (d, None)" "reads_http p d" "ncReadBuffer d = ncReadBuffer c1"
    "ncCallbacks d = ncCallbacks c1" "ncClosed d = ncClosed c1"
  proof (cases "reads_http p c")
    case True
    then have "reads_http p c1" using c1 by (simp add: reads_http_def)
    with that [of c1] detect_set show ?thesis by blast
  next
    case False
    then have h: "ncHandler c1 = None" "p = NewHTTPParser" "startsHTTP (take 1024 (content (ncReadBuffer c1)))" using p c c1 by auto
    have "ring_ok (ncReadBuffer c1)" "content (ncReadBuffer c1) \<noteq> []" using c c1 by simp_all
    from detect_first [OF E h(1) this] h that show ?thesis by (simp add: reads_http_def)
  qed
  let ?data = "if CbRead \<in> ncCallbacks c1 then take n a else []"
  have pk: "(if CbRead \<in> ncCallbacks c1 then Peek (ncReadBuffer c1) (int n) else Ret []) = Ret ?data"
    using Peek_ok [OF c(1), of "int n"] c c1 by simp
  let ?w = "callback CbRead (EvRead ?data) c1 w1"
  obtain rb' where r: "processData E d ?w =
      Ret (d\<lparr>ncReadBuffer := rb', ncHandler := Some (http_handler p')\<rparr>, deliver d (map HttpM ms) ?w, None)"
    "ring_ok rb'" "content rb' = []" "rsize rb' = 0" "rcap rb' = rcap (ncReadBuffer d)"
    using processData_http [OF d(2), of a E p' ms ?w] c c1 d parse by auto
  have "processData E c1 ?w = processData E d ?w" by (rule processData_detect [OF d(1) detect_set [OF d(2)]])
  with r pk u have a: "afterRead E n c w =
      Ret (d\<lparr>ncReadBuffer := rb', ncHandler := Some (http_handler p')\<rparr>, deliver d (map HttpM ms) ?w, None)"
    by (simp add: afterRead_def)
  have "wIncoming (deliver d (map HttpM ms) ?w) = wIncoming w"
    "messagesOf (wEvents (deliver d (map HttpM ms) ?w)) = messagesOf (wEvents w) @ map HttpM ms"
    using deliver_frame [of d "map HttpM ms" ?w] w1 cb c1 d by auto
  with that [OF a] r d c1 show ?thesis by (simp add: reads_http_def)
qed

definition reading :: "http_parser \<Rightarrow> bytes list \<Rightarrow> net_conn \<Rightarrow> bool" where
  "reading p chunks c \<longleftrightarrow> reads_http p c \<or>
     ncHandler c = None \<and> p = NewHTTPParser \<and> (case chunks of [] \<Rightarrow> True | a # _ \<Rightarrow> startsHTTP (take 1024 a))"

text \<open>
  A connection that gets HTTP, in any pieces that fit its buffer, of which the first shows the method, delivers the
  messages that the parser finds in the pieces one after the other, and is ready for more.  Together with
  \<open>http_reads_concat\<close>: those that it finds in all the bytes at once.
\<close>

lemma reads_http_stream:
  assumes E: "program_registry E"
  shows "idle c \<Longrightarrow> reading p chunks c \<Longrightarrow> list_all (\<lambda>a. a \<noteq> [] \<and> length a \<le> 8192) chunks \<Longrightarrow>
    feedAll (http_stream (envUnicode E)) p chunks = (p', Inr ms) \<Longrightarrow> wIncoming w = map Waits chunks \<Longrightarrow>
    \<exists>c' w'. readLoop E c w = Some (Ret (c', w', None)) \<and> idle c' \<and> reading p' [] c' \<and> wIncoming w' = [] \<and>
      messagesOf (wEvents w') = messagesOf (wEvents w) @ map HttpM ms"
proof (induction chunks arbitrary: c p ms w)
  case Nil
  have "0 < rcap (ncReadBuffer c)" "rsize (ncReadBuffer c) = 0" using Nil.prems(1) by (auto simp: idle_def)
  then have "ReadToBuffer (ncReadBuffer c) w = Some (Ret (ncReadBuffer c, w, Inl NeAgain))"
    using Nil.prems(5) by (intro ReadToBuffer_again) simp_all
  then have "readLoop E c w = Some (Ret (c, w, None))" by (subst readLoop.simps) simp
  with Nil.prems show ?case by auto
next
  case (Cons a as)
  have i: "ring_ok (ncReadBuffer c)" "content (ncReadBuffer c) = []" "rsize (ncReadBuffer c) = 0"
    "8192 \<le> rcap (ncReadBuffer c)" "\<not> ncClosed c" "CbMessage \<in> ncCallbacks c" using Cons.prems(1) by (auto simp: idle_def)
  have a: "a \<noteq> []" "length a \<le> rcap (ncReadBuffer c)" using Cons.prems(3) i(4) by auto
  obtain rb where rb: "ReadToBuffer (ncReadBuffer c) w = Some (Ret (rb, w\<lparr>wIncoming := map Waits as\<rparr>, Inr (length a)))"
    "ring_ok rb" "content rb = a" "rcap rb = rcap (ncReadBuffer c)"
    using ReadToBuffer_empty [OF i(1-3) a, of w "map Waits as"] Cons.prems(5) by auto
  obtain p1 ms1 ms2 where f: "http_stream (envUnicode E) p a = (p1, Inr ms1)"
    "feedAll (http_stream (envUnicode E)) p1 as = (p', Inr ms2)" "ms = ms1 @ ms2"
    using Cons.prems(4) by (auto split: prod.splits sum.splits)
  let ?c = "c\<lparr>ncReadBuffer := rb\<rparr>" and ?w = "w\<lparr>wIncoming := map Waits as\<rparr>"
  have p: "reads_http p ?c \<or> ncHandler ?c = None \<and> p = NewHTTPParser \<and> startsHTTP (take 1024 a)"
    using Cons.prems(2) by (auto simp: reading_def reads_http_def)
  obtain c2 w2 where s: "afterRead E (length a) ?c ?w = Ret (c2, w2, None)" "reads_http p1 c2"
    "ring_ok (ncReadBuffer c2)" "content (ncReadBuffer c2) = []" "rsize (ncReadBuffer c2) = 0"
    "rcap (ncReadBuffer c2) = rcap (ncReadBuffer ?c)" "ncClosed c2 = ncClosed ?c" "ncCallbacks c2 = ncCallbacks ?c"
    "wIncoming w2 = wIncoming ?w" "messagesOf (wEvents w2) = messagesOf (wEvents ?w) @ map HttpM ms1"
    using afterRead_http [OF E, of ?c a p p1 ms1 "length a" ?w] rb a(1) p i(6) f(1) by auto
  have idle: "idle c2" using s rb i by (simp add: idle_def)
  have "readLoop E c w = readLoop E c2 w2" by (subst readLoop.simps) (use rb(1) a(1) s(1) in simp)
  moreover have "reading p1 as c2" using s(2) by (simp add: reading_def)
  moreover have "list_all (\<lambda>a. a \<noteq> [] \<and> length a \<le> 8192) as" using Cons.prems(3) by simp
  ultimately show ?case using Cons.IH [OF idle _ _ f(2), of w2] s(9,10) f(3) by auto
qed

section \<open>What is not HTTP\<close>

text \<open>
  The detector of the program knows HTTP only.  A connection whose first bytes are those of an envelope in protocol
  buffers delivers nothing: the read reports an unknown protocol, the bytes stay in the buffer and the connection stays
  open.
\<close>

lemma starts_letter: "startsHTTP (b # bs) \<Longrightarrow> b \<in> set (go_bytes ''GPDHOTCE'')"
  by (auto simp: startsHTTP_def httpStarts_def go_bytes_def)

lemma raw_bytes_unknown:
  assumes E: "program_registry E" and c: "idle c" "ncHandler c = None" and b: "b \<notin> set (go_bytes ''GPDHOTCE'')"
    and w: "wIncoming w = Waits (b # bs) # rest" "length (b # bs) \<le> 8192"
  obtains c' w' where "net_Read E c w = Some (Ret (c', w', Some NeUnknownProtocol))" "\<not> ncClosed c'"
    "messagesOf (wEvents w') = messagesOf (wEvents w)" "content (ncReadBuffer c') = b # bs" "wIncoming w' = rest"
proof -
  have i: "ring_ok (ncReadBuffer c)" "content (ncReadBuffer c) = []" "rsize (ncReadBuffer c) = 0"
    "8192 \<le> rcap (ncReadBuffer c)" "\<not> ncClosed c" using c(1) by (auto simp: idle_def)
  have l: "b # bs \<noteq> []" "length (b # bs) \<le> rcap (ncReadBuffer c)" using w(2) i(4) by auto
  obtain rb where rb: "ReadToBuffer (ncReadBuffer c) w = Some (Ret (rb, w\<lparr>wIncoming := rest\<rparr>, Inr (length (b # bs))))"
    "ring_ok rb" "content rb = b # bs" using ReadToBuffer_empty [OF i(1-3) l w(1)] by auto
  let ?c = "c\<lparr>ncReadBuffer := rb\<rparr>" and ?w = "w\<lparr>wIncoming := rest\<rparr>"
  obtain c1 w1 where u: "updateActivity ?c ?w = (c1, w1)" by (cases "updateActivity ?c ?w")
  have c1: "ncReadBuffer c1 = rb" "ncHandler c1 = None" "ncClosed c1 = ncClosed c"
    and w1: "wIncoming w1 = rest" "messagesOf (wEvents w1) = messagesOf (wEvents w)"
    using updateActivity_frame [of ?c ?w] u c(2) by (auto simp: same_conn_def same_world_def)
  have "\<not> startsHTTP (take 1024 (b # bs))" using starts_letter [of b "take 1023 bs"] b by (auto simp: take_Cons')
  with detect_first [OF E c1(2)] rb c1 have d: "detectAndSetupProtocol E c1 = Ret (c1, Some NeUnknownProtocol)" by simp
  let ?n = "length (b # bs)"
  let ?data = "if CbRead \<in> ncCallbacks c1 then take ?n (b # bs) else []"
  let ?v = "callback CbRead (EvRead ?data) c1 w1"
  have pk: "(if CbRead \<in> ncCallbacks c1 then Peek (ncReadBuffer c1) (int ?n) else Ret []) = Ret ?data"
    using Peek_ok [OF rb(2), of "int ?n"] rb(3) c1 by simp
  have v: "afterRead E ?n ?c ?w = Ret (c1, ?v, Some NeUnknownProtocol)"
    unfolding afterRead_def u prod.case pk outcome.case by (simp add: processData_def d)
  have v2: "wIncoming ?v = rest" "messagesOf (wEvents ?v) = messagesOf (wEvents w)" using w1 by simp_all
  have "readLoop E c w = Some (Ret (c1, ?v, Some NeUnknownProtocol))"
    by (subst readLoop.simps) (use rb(1) v in \<open>simp del: length_Cons\<close>)
  with that [of c1 ?v] v2 c1 i(5) rb(3) show ?thesis by (simp add: net_Read_def)
qed

section \<open>Short writes\<close>

text \<open>A flush empties the write buffer and gives all its bytes to one write; what the kernel does not take is gone, and
  the flush reports no error.\<close>

lemma flush_loses_rest:
  assumes "ring_ok (ncWriteBuffer c)" "\<not> ncClosed c" "wAnswers w = Takes k # rest" "0 < k" "k < length (content (ncWriteBuffer c))"
  obtains c' w' where "net_Flush c w = Ret (c', w', None)" "content (ncWriteBuffer c') = []"
    "wSent w' = wSent w @ take k (content (ncWriteBuffer c))" "wAnswers w' = rest"
proof -
  obtain rb where r: "ReadAll (ncWriteBuffer c) = Ret (rb, content (ncWriteBuffer c))" "content rb = []"
    using ReadAll_ok [OF assms(1)] by auto
  let ?c = "c\<lparr>ncWriteBuffer := rb\<rparr>" and ?d = "content (ncWriteBuffer c)"
  let ?w = "w\<lparr>wAnswers := rest, wSent := wSent w @ take k ?d\<rparr>"
  obtain c1 w1 where u: "updateActivity ?c ?w = (c1, w1)" by (cases "updateActivity ?c ?w")
  have f: "ncWriteBuffer c1 = rb" "wSent w1 = wSent w @ take k ?d" "wAnswers w1 = rest"
    using updateActivity_frame [of ?c ?w] u by (auto simp: same_conn_def same_world_def)
  have n: "?d \<noteq> []" "min k (length ?d) = k" using assms(5) by auto
  have "net_Write ?d ?c w = (c1, callback CbWrite (EvWrite (take k ?d)) c1 w1, k, None)"
    using assms(2-4) n u by (simp add: net_Write_def sys_Write_def)
  with r assms(2) n(1) have "net_Flush c w = Ret (c1, callback CbWrite (EvWrite (take k ?d)) c1 w1, None)"
    by (simp add: net_Flush_def)
  with that f r(2) show ?thesis by simp
qed

end
