(* ===== verification/NetEngine.thy ===== *)
theory NetEngine
  imports Prelude "HOL-Library.AList" "HOL-Library.Signed_Division"
begin

text \<open>
  How the network layer accepts and forgets connections: \<^verbatim>\<open>util/net/net/listener/listener.go\<close> (a new socket),
  \<^verbatim>\<open>util/net/net/engine/engine.go\<close> (the choice of a reactor), \<^verbatim>\<open>util/net/net/reactor/reactor.go\<close> (connections by file
  descriptor), \<^verbatim>\<open>util/net/net/connection/manager.go\<close> (connections by id and by file descriptor), with what
  \<^verbatim>\<open>Connection.Close\<close> does to them.  Connections are pointers, so they are addresses into a store; \<open>NetConnection\<close> has what
  a connection itself does.  A close handler is a value, because each part that sets one replaces or wraps the one before.
  The counters are integers (an \<^verbatim>\<open>int64\<close> that counts connections does not wrap).

  What the lemmas show: the listener never counts a connection as gone, so a server accepts no more connections in its
  whole life than its limit; and a reactor keeps the file descriptors of closed connections, so it refuses a new
  connection to which the kernel gives such a descriptor again.
\<close>

section \<open>State\<close>

datatype close_handler = NoHandler | ListenerHandler | EngineHandler | Chained close_handler nat

record net_sock =
  nsId :: string
  nsFd :: int
  nsClosed :: bool
  nsLastActive :: int
  nsOnClose :: close_handler

record net_manager =
  mgById :: "(string \<times> nat) list"
  mgByFd :: "(int \<times> nat) list"
  mgMax :: int
  mgIdle :: int

record net_reactor =
  rcManager :: net_manager
  rcConns :: "(int \<times> nat) list"
  rcCount :: int
  rcStopping :: bool

record net_engine =
  enSocks :: "nat \<Rightarrow> net_sock"
  enFree :: nat
  enReactors :: "net_reactor list"
  enNext :: int
  enTotal :: int
  enErrors :: int
  lsMax :: int
  lsCount :: int
  svAccepted :: "nat list"
  svClosed :: "nat list"

datatype engine_error =
    MaxReached | IdExists | FdExists | ConnNotFound | ReactorStopping | FdInReactor | EpollFailed | NoReactor | Refused string

definition NewManager :: "int \<Rightarrow> net_manager" where
  "NewManager n = \<lparr>mgById = [], mgByFd = [], mgMax = (if n \<le> 0 then 10000 else n), mgIdle = 5 * 60 * 1000000000\<rparr>"

definition NewReactor :: net_reactor where
  "NewReactor = \<lparr>rcManager = NewManager 10000, rcConns = [], rcCount = 0, rcStopping = False\<rparr>"

section \<open>The connection manager\<close>

text \<open>The \<^verbatim>\<open>onConnect\<close> and \<^verbatim>\<open>onDisconnect\<close> of a reactor's manager are never set.\<close>

definition mgr_AddConnection :: "nat \<Rightarrow> net_sock \<Rightarrow> net_manager \<Rightarrow> net_manager \<times> engine_error option" where
  "mgr_AddConnection a s m =
     (if int (length (mgById m)) \<ge> mgMax m then (m, Some MaxReached)
      else if map_of (mgById m) (nsId s) \<noteq> None then (m, Some IdExists)
      else if map_of (mgByFd m) (nsFd s) \<noteq> None then (m, Some FdExists)
      else (m\<lparr>mgById := (nsId s, a) # mgById m, mgByFd := (nsFd s, a) # mgByFd m\<rparr>, None))"

definition setupConnectionHandlers :: "nat \<Rightarrow> net_sock \<Rightarrow> net_sock" where
  "setupConnectionHandlers k s = s\<lparr>nsOnClose := Chained (nsOnClose s) k\<rparr>"

definition mgr_RemoveConnection :: "net_sock \<Rightarrow> net_manager \<Rightarrow> net_manager \<times> engine_error option" where
  "mgr_RemoveConnection s m =
     (if map_of (mgById m) (nsId s) = None then (m, Some ConnNotFound)
      else (m\<lparr>mgById := AList.delete (nsId s) (mgById m), mgByFd := AList.delete (nsFd s) (mgByFd m)\<rparr>, None))"

definition onManager :: "nat \<Rightarrow> (net_manager \<Rightarrow> net_manager) \<Rightarrow> net_engine \<Rightarrow> net_engine" where
  "onManager k f st =
     (if k < length (enReactors st)
      then st\<lparr>enReactors := (enReactors st)[k := (enReactors st ! k)\<lparr>rcManager := f (rcManager (enReactors st ! k))\<rparr>]\<rparr>
      else st)"

section \<open>Closing\<close>

text \<open>\<^verbatim>\<open>Connection.Close\<close> closes the socket, which sets its descriptor to -1, before it runs the close handler.\<close>

primrec runOnClose :: "close_handler \<Rightarrow> nat \<Rightarrow> net_engine \<Rightarrow> net_engine" where
  "runOnClose NoHandler a st = st"
| "runOnClose ListenerHandler a st = st\<lparr>lsCount := lsCount st - 1\<rparr>"
| "runOnClose EngineHandler a st = st\<lparr>svClosed := svClosed st @ [a], enTotal := enTotal st - 1\<rparr>"
| "runOnClose (Chained h k) a st =
     (let st1 = runOnClose h a st
      in onManager k (\<lambda>m. fst (mgr_RemoveConnection (enSocks st1 a) m)) st1)"

definition socket_Close :: "net_sock \<Rightarrow> net_sock" where
  "socket_Close s = s\<lparr>nsFd := -1\<rparr>"

definition conn_Close :: "nat \<Rightarrow> net_engine \<Rightarrow> net_engine" where
  "conn_Close a st =
     (let s = enSocks st a
      in if nsClosed s then st
         else runOnClose (nsOnClose s) a (st\<lparr>enSocks := (enSocks st)(a := socket_Close (s\<lparr>nsClosed := True\<rparr>))\<rparr>))"

text \<open>The clean-up of a manager walks over its map in the order \<open>entries\<close>.\<close>

fun cleanupLoop :: "int \<Rightarrow> (nat \<Rightarrow> net_sock) \<Rightarrow> (string \<times> nat) list \<Rightarrow> net_manager \<Rightarrow> net_manager \<times> nat list" where
  "cleanupLoop now socks [] m = (m, [])"
| "cleanupLoop now socks ((i, a) # es) m =
     (let s = socks a;
          m1 = m\<lparr>mgById := AList.delete i (mgById m), mgByFd := AList.delete (nsFd s) (mgByFd m)\<rparr>
      in if nsClosed s then cleanupLoop now socks es m1
         else if mgIdle m > 0 \<and> now - nsLastActive s > mgIdle m then
           (case cleanupLoop now socks es m1 of (m2, as) \<Rightarrow> (m2, a # as))
         else cleanupLoop now socks es m)"

definition mgr_cleanup :: "int \<Rightarrow> (string \<times> nat) list \<Rightarrow> nat \<Rightarrow> net_engine \<Rightarrow> net_engine" where
  "mgr_cleanup now entries k st =
     (if k < length (enReactors st)
      then case cleanupLoop now (enSocks st) entries (rcManager (enReactors st ! k)) of
             (m, as) \<Rightarrow> fold conn_Close as (onManager k (\<lambda>_. m) st)
      else st)"

section \<open>The reactor\<close>

definition setReactor :: "nat \<Rightarrow> net_reactor \<Rightarrow> net_engine \<Rightarrow> net_engine" where
  "setReactor k r st = st\<lparr>enReactors := (enReactors st)[k := r]\<rparr>"

definition rc_AddConnection :: "bool \<Rightarrow> nat \<Rightarrow> nat \<Rightarrow> net_engine \<Rightarrow> net_engine \<times> engine_error option" where
  "rc_AddConnection epoll k a st =
     (let r = enReactors st ! k; s = enSocks st a; fd = nsFd s
      in if rcStopping r then (st, Some ReactorStopping)
         else if map_of (rcConns r) fd \<noteq> None then (st, Some FdInReactor)
         else if \<not> epoll then (st, Some EpollFailed)
         else let r1 = r\<lparr>rcConns := (fd, a) # rcConns r\<rparr>
              in case mgr_AddConnection a s (rcManager r1) of
                   (m, Some e) \<Rightarrow> (setReactor k (r1\<lparr>rcManager := m, rcConns := AList.delete fd (rcConns r1)\<rparr>) st, Some e)
                 | (m, None) \<Rightarrow>
                     (setReactor k (r1\<lparr>rcManager := m, rcCount := rcCount r1 + 1\<rparr>)
                        (st\<lparr>enSocks := (enSocks st)(a := setupConnectionHandlers k s)\<rparr>), None))"

definition rc_RemoveConnection :: "nat \<Rightarrow> nat \<Rightarrow> net_engine \<Rightarrow> net_engine \<times> engine_error option" where
  "rc_RemoveConnection k a st =
     (let r = enReactors st ! k; s = enSocks st a; fd = nsFd s
      in if map_of (rcConns r) fd = None then (st, Some ConnNotFound)
         else (setReactor k (r\<lparr>rcConns := AList.delete fd (rcConns r),
                 rcManager := fst (mgr_RemoveConnection s (rcManager r)), rcCount := rcCount r - 1\<rparr>) st, None))"

section \<open>Accepting\<close>

definition getNextReactor :: "net_engine \<Rightarrow> net_engine \<times> nat option" where
  "getNextReactor st =
     (if enReactors st = [] then (st, None)
      else let n = enNext st + 1 in (st\<lparr>enNext := n\<rparr>, Some (nat (n mod int (length (enReactors st))))))"

text \<open>\<open>answer\<close>: what \<^verbatim>\<open>OnConnection\<close> of the user returns.\<close>

definition OnAccept :: "bool \<Rightarrow> engine_error option \<Rightarrow> nat \<Rightarrow> net_engine \<Rightarrow> net_engine \<times> engine_error option" where
  "OnAccept epoll answer a st =
     (case getNextReactor st of
        (st1, None) \<Rightarrow> (st1, Some NoReactor)
      | (st1, Some k) \<Rightarrow>
          (let st2 = st1\<lparr>enSocks := (enSocks st1)(a := (enSocks st1 a)\<lparr>nsOnClose := EngineHandler\<rparr>)\<rparr>
           in case rc_AddConnection epoll k a st2 of
                (st3, Some e) \<Rightarrow> (st3, Some e)
              | (st3, None) \<Rightarrow>
                  (let st4 = st3\<lparr>svAccepted := svAccepted st3 @ [a]\<rparr>
                   in case answer of
                        Some e \<Rightarrow> (fst (rc_RemoveConnection k a st4), Some e)
                      | None \<Rightarrow> (st4\<lparr>enTotal := enTotal st4 + 1\<rparr>, None))))"

definition createConnection :: "string \<Rightarrow> int \<Rightarrow> int \<Rightarrow> net_sock" where
  "createConnection i fd now = \<lparr>nsId = i, nsFd = fd, nsClosed = False, nsLastActive = now, nsOnClose = NoHandler\<rparr>"

definition handleNewConnection :: "string \<Rightarrow> int \<Rightarrow> int \<Rightarrow> bool \<Rightarrow> engine_error option \<Rightarrow> net_engine \<Rightarrow> net_engine" where
  "handleNewConnection i fd now epoll answer st =
     (if lsMax st > 0 \<and> lsCount st \<ge> lsMax st then st
      else let a = enFree st;
               st1 = st\<lparr>enSocks := (enSocks st)(a := (createConnection i fd now)\<lparr>nsOnClose := ListenerHandler\<rparr>),
                        enFree := Suc a, lsCount := lsCount st + 1\<rparr>
           in case OnAccept epoll answer a st1 of
                (st2, None) \<Rightarrow> st2
              | (st2, Some e) \<Rightarrow> (let st3 = conn_Close a st2 in st3\<lparr>enErrors := enErrors st3 + 1\<rparr>))"

definition NewEngine :: "nat \<Rightarrow> net_engine" where
  "NewEngine n =
     \<lparr>enSocks = (\<lambda>_. createConnection [] 0 0), enFree = 0, enReactors = replicate n NewReactor, enNext = 0, enTotal = 0,
      enErrors = 0, lsMax = 0, lsCount = 0, svAccepted = [], svClosed = []\<rparr>"

text \<open>The limit of the listener: the connections of the engine divided by its reactors.\<close>

definition engine_Listen :: "int \<Rightarrow> net_engine \<Rightarrow> net_engine outcome" where
  "engine_Listen n st =
     (if enReactors st = [] then Panic else Ret (st\<lparr>lsMax := n sdiv int (length (enReactors st))\<rparr>))"

section \<open>Runs\<close>

datatype engine_event =
    NewSocket string int int bool "engine_error option"
  | CloseConn nat
  | ActiveConn nat int
  | CleanManager int "(string \<times> nat) list" nat

fun engineStep :: "engine_event \<Rightarrow> net_engine \<Rightarrow> net_engine" where
  "engineStep (NewSocket i fd now epoll answer) st = handleNewConnection i fd now epoll answer st"
| "engineStep (CloseConn a) st = conn_Close a st"
| "engineStep (ActiveConn a now) st = st\<lparr>enSocks := (enSocks st)(a := (enSocks st a)\<lparr>nsLastActive := now\<rparr>)\<rparr>"
| "engineStep (CleanManager now entries k) st = mgr_cleanup now entries k st"

definition engineRun :: "engine_event list \<Rightarrow> net_engine \<Rightarrow> net_engine" where
  "engineRun xs st = fold engineStep xs st"

section \<open>The listener counts up\<close>

primrec keepsCount :: "close_handler \<Rightarrow> bool" where
  "keepsCount NoHandler = True"
| "keepsCount ListenerHandler = False"
| "keepsCount EngineHandler = True"
| "keepsCount (Chained h k) = keepsCount h"

text \<open>What a step that closes connections leaves alone.\<close>

definition same_listener :: "net_engine \<Rightarrow> net_engine \<Rightarrow> bool" where
  "same_listener st st' \<longleftrightarrow> lsCount st' = lsCount st \<and> lsMax st' = lsMax st \<and> svAccepted st' = svAccepted st \<and>
     length (enReactors st') = length (enReactors st) \<and> enFree st' = enFree st \<and>
     (\<forall>a. nsOnClose (enSocks st' a) = nsOnClose (enSocks st a))"

definition sameConns :: "net_engine \<Rightarrow> net_engine \<Rightarrow> bool" where
  "sameConns st st' \<longleftrightarrow> length (enReactors st') = length (enReactors st) \<and>
     (\<forall>k < length (enReactors st). rcConns (enReactors st' ! k) = rcConns (enReactors st ! k))"

lemma same_listener_trans: "same_listener s t \<Longrightarrow> same_listener t u \<Longrightarrow> same_listener s u"
  by (simp add: same_listener_def)

lemma sameConns_trans: "sameConns s t \<Longrightarrow> sameConns t u \<Longrightarrow> sameConns s u"
  by (simp add: sameConns_def)

lemma onManager_same: "same_listener st (onManager k f st)" "sameConns st (onManager k f st)"
  by (auto simp: onManager_def same_listener_def sameConns_def nth_list_update)

lemma runOnClose_conns: "sameConns st (runOnClose h a st)"
proof (induction h)
  case (Chained h k)
  then show ?case using sameConns_trans [OF _ onManager_same(2)] by (simp add: Let_def)
qed (simp_all add: sameConns_def)

lemma runOnClose_same: "keepsCount h \<Longrightarrow> same_listener st (runOnClose h a st)"
proof (induction h)
  case (Chained h k)
  then show ?case using same_listener_trans [OF _ onManager_same(1)] by (simp add: Let_def)
qed (simp_all add: same_listener_def)

lemma conn_Close_conns: "sameConns st (conn_Close a st)"
  using runOnClose_conns [of _ "nsOnClose (enSocks st a)" a]
  by (auto simp: conn_Close_def Let_def sameConns_def)

lemma conn_Close_same: "keepsCount (nsOnClose (enSocks st a)) \<Longrightarrow> same_listener st (conn_Close a st)"
proof -
  assume k: "keepsCount (nsOnClose (enSocks st a))"
  let ?st = "st\<lparr>enSocks := (enSocks st)(a := socket_Close ((enSocks st a)\<lparr>nsClosed := True\<rparr>))\<rparr>"
  have "same_listener st ?st" by (simp add: same_listener_def socket_Close_def)
  with runOnClose_same [OF k, of ?st a] show ?thesis
    by (auto simp: conn_Close_def Let_def intro: same_listener_trans) (simp add: same_listener_def)
qed

definition all_keep :: "net_engine \<Rightarrow> bool" where
  "all_keep st \<longleftrightarrow> (\<forall>a. keepsCount (nsOnClose (enSocks st a)))"

lemma all_keep_same: "all_keep st \<Longrightarrow> same_listener st st' \<Longrightarrow> all_keep st'"
  by (simp add: all_keep_def same_listener_def)

lemma closeAll_same: "all_keep st \<Longrightarrow> same_listener st (fold conn_Close as st)"
proof (induction as arbitrary: st)
  case (Cons a as)
  have s: "same_listener st (conn_Close a st)" using Cons.prems by (intro conn_Close_same) (simp add: all_keep_def)
  from Cons.IH [OF all_keep_same [OF Cons.prems s]] s show ?case using same_listener_trans by auto
qed (simp add: same_listener_def)

lemma closeAll_conns: "sameConns st (fold conn_Close as st)"
proof (induction as arbitrary: st)
  case (Cons a as)
  then show ?case using conn_Close_conns sameConns_trans by (metis fold_simps(2))
qed (simp add: sameConns_def)

lemma cleanup_same: "all_keep st \<Longrightarrow> same_listener st (mgr_cleanup now entries k st)"
proof (cases "k < length (enReactors st)")
  case True
  obtain m as where l: "cleanupLoop now (enSocks st) entries (rcManager (enReactors st ! k)) = (m, as)" by force
  assume "all_keep st"
  from closeAll_same [OF all_keep_same [OF this onManager_same(1)]] l True show ?thesis
    using onManager_same(1) same_listener_trans by (simp add: mgr_cleanup_def) blast
qed (simp add: mgr_cleanup_def same_listener_def)

lemma cleanup_conns: "sameConns st (mgr_cleanup now entries k st)"
proof (cases "k < length (enReactors st)")
  case True
  obtain m as where l: "cleanupLoop now (enSocks st) entries (rcManager (enReactors st ! k)) = (m, as)" by force
  with True show ?thesis using closeAll_conns onManager_same(2) sameConns_trans by (simp add: mgr_cleanup_def) blast
qed (simp add: mgr_cleanup_def sameConns_def)

lemma rc_Add_cases:
  assumes "rc_AddConnection epoll k a st = (st', r)" "k < length (enReactors st)"
  shows "lsCount st' = lsCount st \<and> lsMax st' = lsMax st \<and> svAccepted st' = svAccepted st \<and> enFree st' = enFree st \<and>
    length (enReactors st') = length (enReactors st) \<and>
    (\<forall>b. keepsCount (nsOnClose (enSocks st' b)) = keepsCount (nsOnClose (enSocks st b))) \<and>
    (\<forall>j < length (enReactors st). rcConns (enReactors st' ! j) =
       (if r = None \<and> j = k then [(nsFd (enSocks st a), a)] else []) @ rcConns (enReactors st ! j)) \<and>
    nsFd (enSocks st' a) = nsFd (enSocks st a) \<and>
    (r = None \<longrightarrow> map_of (rcConns (enReactors st ! k)) (nsFd (enSocks st a)) = None)"
proof -
  have d: "AList.delete fd (rcConns (enReactors st ! k)) = rcConns (enReactors st ! k)"
    if "map_of (rcConns (enReactors st ! k)) fd = None" for fd
    using that by (simp add: map_of_eq_None_iff AList.delete_eq filter_id_conv) force
  show ?thesis using assms d
    by (auto simp: rc_AddConnection_def Let_def setReactor_def setupConnectionHandlers_def nth_list_update
        split: if_splits prod.splits option.splits)
qed

lemma rc_Remove_cases:
  assumes "rc_RemoveConnection k a st = (st', r)" "k < length (enReactors st)"
  shows "lsCount st' = lsCount st \<and> lsMax st' = lsMax st \<and> svAccepted st' = svAccepted st \<and> enFree st' = enFree st \<and>
    length (enReactors st') = length (enReactors st) \<and> enSocks st' = enSocks st \<and>
    (\<forall>j < length (enReactors st). \<forall>fd. j \<noteq> k \<or> fd \<noteq> nsFd (enSocks st a) \<longrightarrow>
       map_of (rcConns (enReactors st' ! j)) fd = map_of (rcConns (enReactors st ! j)) fd)"
  using assms by (auto simp: rc_RemoveConnection_def Let_def setReactor_def nth_list_update AList.delete_conv split: if_splits)

text \<open>What happens to a socket that is let in: the listener's close handler is replaced before anything can fail, so the
  counter has gone up by one for good.  The reactors keep every entry they have.\<close>

definition keepsFds :: "net_engine \<Rightarrow> net_engine \<Rightarrow> bool" where
  "keepsFds st st' \<longleftrightarrow> length (enReactors st') = length (enReactors st) \<and>
     (\<forall>k < length (enReactors st). \<forall>fd a. map_of (rcConns (enReactors st ! k)) fd = Some a \<longrightarrow>
        map_of (rcConns (enReactors st' ! k)) fd = Some a)"

lemma keepsFds_trans: "keepsFds s t \<Longrightarrow> keepsFds t u \<Longrightarrow> keepsFds s u"
  by (simp add: keepsFds_def)

lemma sameConns_keepsFds: "sameConns s t \<Longrightarrow> keepsFds s t"
  by (simp add: sameConns_def keepsFds_def)

lemma OnAccept_cases:
  assumes "OnAccept epoll answer a st = (st', r)" "enReactors st \<noteq> []"
    and "\<forall>b. b \<noteq> a \<longrightarrow> keepsCount (nsOnClose (enSocks st b))"
  shows "lsCount st' = lsCount st \<and> lsMax st' = lsMax st \<and> enFree st' = enFree st \<and> keepsFds st st' \<and> all_keep st' \<and>
    (svAccepted st' = svAccepted st \<or> svAccepted st' = svAccepted st @ [a])"
proof -
  define k where "k = nat ((enNext st + 1) mod int (length (enReactors st)))"
  have k: "k < length (enReactors st)" using assms(2) by (simp add: k_def nat_less_iff)
  define st2 where "st2 = st\<lparr>enNext := enNext st + 1, enSocks := (enSocks st)(a := (enSocks st a)\<lparr>nsOnClose := EngineHandler\<rparr>)\<rparr>"
  obtain st3 q where add: "rc_AddConnection epoll k a st2 = (st3, q)" by force
  have k2: "k < length (enReactors st2)" using k by (simp add: st2_def)
  note A = rc_Add_cases [OF add k2]
  have keep2: "all_keep st2" using assms(3) by (auto simp: st2_def all_keep_def)
  have r: "OnAccept epoll answer a st = (case q of Some e \<Rightarrow> (st3, Some e) | None \<Rightarrow>
      (let st4 = st3\<lparr>svAccepted := svAccepted st3 @ [a]\<rparr>
       in case answer of Some e \<Rightarrow> (fst (rc_RemoveConnection k a st4), Some e)
          | None \<Rightarrow> (st4\<lparr>enTotal := enTotal st4 + 1\<rparr>, None)))"
    using add assms(2) by (simp add: OnAccept_def getNextReactor_def Let_def k_def st2_def split: option.splits)
  show ?thesis
  proof (cases q)
    case (Some e)
    with r assms(1) A keep2 show ?thesis by (auto simp: st2_def all_keep_def keepsFds_def)
  next
    case None
    define st4 where "st4 = st3\<lparr>svAccepted := svAccepted st3 @ [a]\<rparr>"
    have n: "map_of (rcConns (enReactors st2 ! k)) (nsFd (enSocks st2 a)) = None" using A None by simp
    have f4: "keepsFds st st4" "all_keep st4" "lsCount st4 = lsCount st" "lsMax st4 = lsMax st" "enFree st4 = enFree st"
      "svAccepted st4 = svAccepted st @ [a]" "length (enReactors st4) = length (enReactors st)"
      using A None keep2 n by (auto simp: st4_def st2_def all_keep_def keepsFds_def)
    show ?thesis
    proof (cases answer)
      case None
      with r \<open>q = None\<close> assms(1) f4 show ?thesis by (auto simp: st4_def [symmetric] all_keep_def keepsFds_def)
    next
      case (Some e)
      obtain st5 t where rem: "rc_RemoveConnection k a st4 = (st5, t)" by force
      note R = rc_Remove_cases [OF rem]
      have fd: "nsFd (enSocks st4 a) = nsFd (enSocks st2 a)" using A by (simp add: st4_def)
      have "map_of (rcConns (enReactors st5 ! j)) b = Some c"
        if "j < length (enReactors st)" "map_of (rcConns (enReactors st ! j)) b = Some c" for j b c
      proof -
        have "j \<noteq> k \<or> b \<noteq> nsFd (enSocks st4 a)" using that n fd by (auto simp: st2_def)
        then have "map_of (rcConns (enReactors st5 ! j)) b = map_of (rcConns (enReactors st4 ! j)) b"
          using R f4(7) k that(1) by simp
        then show ?thesis using f4(1) that by (simp add: keepsFds_def)
      qed
      then have "keepsFds st st5" using R f4(7) k by (simp add: keepsFds_def)
      with r \<open>q = None\<close> Some assms(1) f4 R k rem show ?thesis by (auto simp: st4_def [symmetric] all_keep_def)
    qed
  qed
qed

definition engine_ok :: "net_engine \<Rightarrow> bool" where
  "engine_ok st \<longleftrightarrow> all_keep st \<and> enReactors st \<noteq> []"

lemma handleNew_cases:
  assumes "engine_ok st"
  shows "let st' = handleNewConnection i fd now epoll answer st in
    engine_ok st' \<and> keepsFds st st' \<and> lsMax st' = lsMax st \<and>
    (if lsMax st > 0 \<and> lsCount st \<ge> lsMax st then st' = st
     else lsCount st' = lsCount st + 1 \<and> length (svAccepted st') \<le> length (svAccepted st) + 1)"
proof (cases "lsMax st > 0 \<and> lsCount st \<ge> lsMax st")
  case True
  then show ?thesis using assms by (simp add: handleNewConnection_def keepsFds_def)
next
  case False
  let ?a = "enFree st"
  let ?st1 = "st\<lparr>enSocks := (enSocks st)(?a := (createConnection i fd now)\<lparr>nsOnClose := ListenerHandler\<rparr>),
      enFree := Suc ?a, lsCount := lsCount st + 1\<rparr>"
  obtain st2 r where acc: "OnAccept epoll answer ?a ?st1 = (st2, r)" by force
  have "lsCount st2 = lsCount ?st1 \<and> lsMax st2 = lsMax ?st1 \<and> enFree st2 = enFree ?st1 \<and> keepsFds ?st1 st2 \<and> all_keep st2 \<and>
      (svAccepted st2 = svAccepted ?st1 \<or> svAccepted st2 = svAccepted ?st1 @ [?a])"
    by (rule OnAccept_cases [OF acc]) (use assms in \<open>auto simp: engine_ok_def all_keep_def\<close>)
  then have c2: "lsCount st2 = lsCount st + 1" "lsMax st2 = lsMax st" "keepsFds st st2" "all_keep st2"
    "length (svAccepted st2) \<le> length (svAccepted st) + 1" "enReactors st2 \<noteq> []"
    using assms by (auto simp: keepsFds_def engine_ok_def)
  show ?thesis
  proof (cases r)
    case None
    with acc c2 False show ?thesis by (auto simp: handleNewConnection_def Let_def engine_ok_def)
  next
    case (Some e)
    have s: "same_listener st2 (conn_Close ?a st2)" using c2(4) by (intro conn_Close_same) (simp add: all_keep_def)
    have n: "handleNewConnection i fd now epoll answer st = (conn_Close ?a st2)\<lparr>enErrors := enErrors (conn_Close ?a st2) + 1\<rparr>"
      using acc Some False by (auto simp: handleNewConnection_def Let_def)
    have "keepsFds st (conn_Close ?a st2)" using c2(3) sameConns_keepsFds [OF conn_Close_conns] keepsFds_trans by blast
    moreover have "all_keep (conn_Close ?a st2)" by (rule all_keep_same [OF c2(4) s])
    moreover have "enReactors (conn_Close ?a st2) \<noteq> []" using c2(6) s by (auto simp: same_listener_def)
    ultimately show ?thesis using s c2(1,2,5) False unfolding n
      by (auto simp: Let_def engine_ok_def all_keep_def keepsFds_def same_listener_def)
  qed
qed

lemma engineStep_ok:
  assumes "engine_ok st"
  shows "engine_ok (engineStep x st) \<and> keepsFds st (engineStep x st) \<and> lsMax (engineStep x st) = lsMax st \<and>
    (case x of
       NewSocket i fd now epoll answer \<Rightarrow>
         (if lsMax st > 0 \<and> lsCount st \<ge> lsMax st then engineStep x st = st
          else lsCount (engineStep x st) = lsCount st + 1 \<and> length (svAccepted (engineStep x st)) \<le> length (svAccepted st) + 1)
     | _ \<Rightarrow> lsCount (engineStep x st) = lsCount st \<and> svAccepted (engineStep x st) = svAccepted st)"
proof -
  have same: "engine_ok st' \<and> keepsFds st st' \<and> lsMax st' = lsMax st \<and> lsCount st' = lsCount st \<and> svAccepted st' = svAccepted st"
    if "same_listener st st'" "sameConns st st'" for st'
    using that assms all_keep_same [OF _ that(1)] sameConns_keepsFds [OF that(2)]
    by (auto simp: engine_ok_def same_listener_def)
  have keep: "all_keep st" using assms by (simp add: engine_ok_def)
  show ?thesis
  proof (cases x)
    case (NewSocket i fd now epoll answer)
    with handleNew_cases [OF assms, of i fd now epoll answer] show ?thesis by (auto simp: Let_def)
  next
    case (CloseConn a)
    with same [OF conn_Close_same conn_Close_conns, of a] keep show ?thesis by (simp add: all_keep_def)
  next
    case (ActiveConn a now)
    have "same_listener st (engineStep x st)" "sameConns st (engineStep x st)"
      by (simp_all add: ActiveConn same_listener_def sameConns_def)
    from same [OF this] ActiveConn show ?thesis by simp
  next
    case (CleanManager now entries k)
    with same [OF cleanup_same [OF keep] cleanup_conns, of now entries k] show ?thesis by simp
  qed
qed

lemma engineRun_Cons: "engineRun (x # xs) st = engineRun xs (engineStep x st)"
  by (simp add: engineRun_def)

definition newSockets :: "engine_event list \<Rightarrow> nat" where
  "newSockets xs = length (filter (\<lambda>x. case x of NewSocket _ _ _ _ _ \<Rightarrow> True | _ \<Rightarrow> False) xs)"

lemma engineRun_ok:
  "engine_ok st \<Longrightarrow> 0 < lsMax st \<Longrightarrow> 0 \<le> lsCount st \<Longrightarrow> lsCount st \<le> lsMax st \<Longrightarrow> int (length (svAccepted st)) \<le> lsCount st \<Longrightarrow>
    (let st' = engineRun xs st in
     engine_ok st' \<and> keepsFds st st' \<and> lsMax st' = lsMax st \<and> int (length (svAccepted st')) \<le> lsCount st' \<and>
     lsCount st' = min (lsCount st + int (newSockets xs)) (lsMax st))"
proof (induction xs arbitrary: st)
  case Nil
  then show ?case by (simp add: engineRun_def newSockets_def keepsFds_def)
next
  case (Cons x xs)
  let ?st = "engineStep x st"
  note S = engineStep_ok [OF Cons.prems(1), of x]
  have b: "0 < lsMax ?st" "0 \<le> lsCount ?st" "lsCount ?st \<le> lsMax ?st" "int (length (svAccepted ?st)) \<le> lsCount ?st"
    using S Cons.prems by (auto split: engine_event.splits if_splits)
  have c: "lsCount ?st + int (newSockets xs) = lsCount st + int (newSockets (x # xs)) \<or>
      lsCount st = lsMax st \<and> lsCount ?st = lsMax st \<and> newSockets xs \<le> newSockets (x # xs)"
    using S Cons.prems by (cases x) (auto simp: newSockets_def split: if_splits)
  have I: "let st' = engineRun xs ?st in
     engine_ok st' \<and> keepsFds ?st st' \<and> lsMax st' = lsMax ?st \<and> int (length (svAccepted st')) \<le> lsCount st' \<and>
     lsCount st' = min (lsCount ?st + int (newSockets xs)) (lsMax ?st)"
    using Cons.IH S b by blast
  have "keepsFds st (engineRun xs ?st)" using I S keepsFds_trans unfolding Let_def by blast
  with I S c show ?case unfolding engineRun_Cons Let_def by auto
qed

lemma NewEngine_ok: "0 < n \<Longrightarrow> engine_ok (NewEngine n)"
  by (simp add: engine_ok_def all_keep_def NewEngine_def createConnection_def)

text \<open>
  The server accepts no more connections in its whole life than its listener has places.  \<^verbatim>\<open>OnAccept\<close> replaces the close
  handler with which the listener counts a connection down, so the number only goes up, however many connections are
  closed; once it is at the limit every new socket is closed at once and nothing else changes, for ever.
\<close>

theorem listener_fills_up:
  assumes "engine_Listen limit (NewEngine n) = Ret st" "0 < lsMax st"
  shows "lsCount (engineRun xs st) = min (int (newSockets xs)) (limit sdiv int n) \<and>
    int (length (svAccepted (engineRun xs st))) \<le> limit sdiv int n \<and>
    (int (newSockets xs) \<ge> limit sdiv int n \<longrightarrow>
       handleNewConnection i fd now epoll answer (engineRun xs st) = engineRun xs st)"
proof -
  have n: "0 < n" "st = (NewEngine n)\<lparr>lsMax := limit sdiv int n\<rparr>"
    using assms(1) by (auto simp: engine_Listen_def NewEngine_def split: if_splits)
  have ok: "engine_ok st" "lsCount st = 0" "svAccepted st = []"
    using NewEngine_ok [OF n(1)] n(2) by (auto simp: engine_ok_def all_keep_def NewEngine_def)
  have m: "lsMax st = limit sdiv int n" using n(2) by simp
  have "let st' = engineRun xs st in
     engine_ok st' \<and> keepsFds st st' \<and> lsMax st' = lsMax st \<and> int (length (svAccepted st')) \<le> lsCount st' \<and>
     lsCount st' = min (lsCount st + int (newSockets xs)) (lsMax st)"
    using engineRun_ok [OF ok(1) assms(2)] ok assms(2) by simp
  then show ?thesis using ok m assms(2) unfolding Let_def by (auto simp: handleNewConnection_def)
qed

theorem listener_fills_up_witness:
  "handleNewConnection ''c'' 7 0 True None (engineRun [NewSocket ''a'' 5 0 True None, NewSocket ''b'' 6 0 True None, CloseConn 0, CloseConn 1]
      ((NewEngine 2)\<lparr>lsMax := 2\<rparr>)) =
    engineRun [NewSocket ''a'' 5 0 True None, NewSocket ''b'' 6 0 True None, CloseConn 0, CloseConn 1] ((NewEngine 2)\<lparr>lsMax := 2\<rparr>)"
proof -
  have l: "engine_Listen 5 (NewEngine 2) = Ret ((NewEngine 2)\<lparr>lsMax := 2\<rparr>)"
    by (simp add: engine_Listen_def NewEngine_def)
  show ?thesis by (rule listener_fills_up [OF l, THEN conjunct2, THEN conjunct2, rule_format]) (simp_all add: newSockets_def)
qed

section \<open>A reactor keeps the descriptors\<close>

text \<open>
  What a reactor has under a file descriptor stays there, whatever is closed or cleaned up: the socket has set its
  descriptor to -1 by the time the close handler asks for it.  A connection to which the kernel gives the descriptor of a
  closed one is refused by the reactor.
\<close>

theorem descriptor_stays:
  assumes "engine_ok st" "k < length (enReactors st)" "map_of (rcConns (enReactors st ! k)) fd = Some a"
  shows "map_of (rcConns (enReactors (engineRun xs st) ! k)) fd = Some a \<and>
    (nsFd (enSocks st' b) = fd \<and> enReactors st' = enReactors (engineRun xs st) \<and> \<not> rcStopping (enReactors st' ! k) \<longrightarrow>
       rc_AddConnection epoll k b st' = (st', Some FdInReactor))"
proof -
  have "engine_ok st \<Longrightarrow> keepsFds st (engineRun xs st)" for st
  proof (induction xs arbitrary: st)
    case Nil
    then show ?case by (simp add: engineRun_def keepsFds_def)
  next
    case (Cons x xs)
    have s: "engine_ok (engineStep x st)" "keepsFds st (engineStep x st)" using engineStep_ok [OF Cons.prems, of x] by auto
    show ?case unfolding engineRun_Cons by (rule keepsFds_trans [OF s(2) Cons.IH [OF s(1)]])
  qed
  from this [OF assms(1)] assms(2,3) have "map_of (rcConns (enReactors (engineRun xs st) ! k)) fd = Some a"
    by (simp add: keepsFds_def)
  then show ?thesis by (auto simp: rc_AddConnection_def)
qed

end
