(* ===== verification/SendQueue.thy ===== *)
theory SendQueue
  imports Prelude "HOL-Library.Sublist"
begin

text \<open>
  Go's buffered channels, and what the three connection wrappers of the system have in common
  (\<^verbatim>\<open>router/node_connection.go\<close>, \<^verbatim>\<open>connection/client_connection.go\<close>,
  \<^verbatim>\<open>msgcenter/router_connection.go\<close>): a flag \<^verbatim>\<open>connected\<close>, a send buffer that is a channel, a goroutine
  \<^verbatim>\<open>sendLoop\<close> that empties it, and an idempotent \<^verbatim>\<open>Close\<close>.  The wrappers repeat this code; here their
  operations are the fields of \<open>conn_ops\<close>, \<open>conn_step\<close> runs them in any order with any number of
  concurrent senders, and the locale \<open>send_queue\<close> states what an instance promises and proves what
  every instance has: the order of the messages, the bounds, and what happens once the loop has ended.
\<close>

section \<open>Channels\<close>

record 'a chan =
  items :: "'a list"
  capacity :: nat
  chClosed :: bool

definition make_chan :: "nat \<Rightarrow> 'a chan" where
  "make_chan n = \<lparr>items = [], capacity = n, chClosed = False\<rparr>"

text \<open>\<^verbatim>\<open>select { case ch <- v: ...; default: ... }\<close>: a send on a closed channel panics, also in a select.\<close>

definition try_send :: "'a \<Rightarrow> 'a chan \<Rightarrow> ('a chan \<times> bool) outcome" where
  "try_send v ch =
     (if chClosed ch then Panic
      else if length (items ch) < capacity ch then Ret (ch\<lparr>items := items ch @ [v]\<rparr>, True)
      else Ret (ch, False))"

lemma try_send_facts:
  "try_send v ch = Ret (ch', ok) \<Longrightarrow> \<not> chClosed ch \<and> \<not> chClosed ch' \<and> capacity ch' = capacity ch \<and>
     items ch' = (if ok then items ch @ [v] else items ch) \<and> ok = (length (items ch) < capacity ch)"
  by (auto simp: try_send_def split: if_splits)

text \<open>A receive: \<open>Some (ch', Some v)\<close> a value, \<open>Some (ch, None)\<close> closed and empty, \<open>None\<close> it blocks.\<close>

definition receive :: "'a chan \<Rightarrow> ('a chan \<times> 'a option) option" where
  "receive ch =
     (case items ch of
        v # vs \<Rightarrow> Some (ch\<lparr>items := vs\<rparr>, Some v)
      | [] \<Rightarrow> if chClosed ch then Some (ch, None) else None)"

lemma receive_facts:
  assumes "receive ch = Some (ch', v)"
  shows "capacity ch' = capacity ch" "chClosed ch' = chClosed ch"
    "items ch = (case v of Some x \<Rightarrow> x # items ch' | None \<Rightarrow> items ch')"
  using assms by (auto simp: receive_def split: list.splits if_splits)

definition close_chan :: "'a chan \<Rightarrow> 'a chan outcome" where
  "close_chan ch = (if chClosed ch then Panic else Ret (ch\<lparr>chClosed := True\<rparr>))"

section \<open>Connections\<close>

datatype conn_error = NotConnected string | BufferFull string | ConnectionNil string | WriteFailed string

text \<open>
  The operations of a wrapper: its flag, its channel, whether its send loop still runs, the \<^verbatim>\<open>select\<close> of
  \<^verbatim>\<open>Send\<close> (\<open>opPut\<close>, after the check of the flag), one round of the loop with the result of the write of
  the underlying connection (\<open>opLoop\<close>: the new state and the messages written; \<open>None\<close> when the loop
  waits), \<^verbatim>\<open>SendSync\<close>, \<^verbatim>\<open>Close\<close>, and the methods that touch none of these.
\<close>

record 's conn_ops =
  isConnected :: "'s \<Rightarrow> bool"
  sendChan :: "'s \<Rightarrow> bytes chan"
  looping :: "'s \<Rightarrow> bool"
  opPut :: "bytes \<Rightarrow> 's \<Rightarrow> ('s \<times> conn_error option) outcome"
  opLoop :: "string option \<Rightarrow> 's \<Rightarrow> ('s \<times> bytes list) option"
  opSync :: "string option \<Rightarrow> bytes \<Rightarrow> 's \<Rightarrow> 's"
  opClose :: "'s \<Rightarrow> 's outcome"
  opOther :: "('s \<Rightarrow> 's) set"

text \<open>
  A connection in use: the senders past the check (\<open>sending\<close>), the messages \<^verbatim>\<open>Send\<close> has accepted and
  those the loop has written, and whether a goroutine has panicked.
\<close>

record 's conn_sys =
  conn :: 's
  sending :: "bytes list"
  accepted :: "bytes list"
  looped :: "bytes list"
  crashed :: bool

definition conn_start :: "'s \<Rightarrow> 's conn_sys" where
  "conn_start c = \<lparr>conn = c, sending = [], accepted = [], looped = [], crashed = False\<rparr>"

inductive conn_step :: "'s conn_ops \<Rightarrow> 's conn_sys \<Rightarrow> 's conn_sys \<Rightarrow> bool" for ops where
  send_check: "isConnected ops (conn s) \<Longrightarrow> \<not> crashed s \<Longrightarrow> conn_step ops s (s\<lparr>sending := d # sending s\<rparr>)"
| send_put: "d \<in> set (sending s) \<Longrightarrow> \<not> crashed s \<Longrightarrow> opPut ops d (conn s) = Ret (c, e) \<Longrightarrow>
    conn_step ops s (s\<lparr>conn := c, sending := remove1 d (sending s),
      accepted := (if e = None then accepted s @ [d] else accepted s)\<rparr>)"
| send_crash: "d \<in> set (sending s) \<Longrightarrow> \<not> crashed s \<Longrightarrow> opPut ops d (conn s) = Panic \<Longrightarrow>
    conn_step ops s (s\<lparr>crashed := True\<rparr>)"
| loop_round: "looping ops (conn s) \<Longrightarrow> \<not> crashed s \<Longrightarrow> opLoop ops w (conn s) = Some (c, ds) \<Longrightarrow>
    conn_step ops s (s\<lparr>conn := c, looped := looped s @ ds\<rparr>)"
| send_sync: "\<not> crashed s \<Longrightarrow> conn_step ops s (s\<lparr>conn := opSync ops w d (conn s)\<rparr>)"
| close_conn: "\<not> crashed s \<Longrightarrow> opClose ops (conn s) = Ret c \<Longrightarrow> conn_step ops s (s\<lparr>conn := c\<rparr>)"
| close_crash: "\<not> crashed s \<Longrightarrow> opClose ops (conn s) = Panic \<Longrightarrow> conn_step ops s (s\<lparr>crashed := True\<rparr>)"
| other: "\<not> crashed s \<Longrightarrow> f \<in> opOther ops \<Longrightarrow> conn_step ops s (s\<lparr>conn := f (conn s)\<rparr>)"

inductive_cases conn_stepE: "conn_step ops s s'"

abbreviation conn_steps :: "'s conn_ops \<Rightarrow> 's conn_sys \<Rightarrow> 's conn_sys \<Rightarrow> bool" where
  "conn_steps ops \<equiv> (conn_step ops)\<^sup>*\<^sup>*"

text \<open>The messages the queue owes: what was accepted and neither written nor dropped.\<close>

definition queue_ok :: "'s conn_ops \<Rightarrow> nat \<Rightarrow> 's conn_sys \<Rightarrow> bool" where
  "queue_ok ops n s \<longleftrightarrow> capacity (sendChan ops (conn s)) = n \<and>
     prefix (looped s) (accepted s) \<and>
     (looping ops (conn s) \<longrightarrow> accepted s = looped s @ items (sendChan ops (conn s))) \<and>
     length (items (sendChan ops (conn s))) \<le> capacity (sendChan ops (conn s)) \<and>
     isConnected ops (conn s) = (\<not> chClosed (sendChan ops (conn s))) \<and>
     (crashed s \<longrightarrow> \<not> isConnected ops (conn s))"

section \<open>What every wrapper has\<close>

text \<open>
  The laws: putting is a non-blocking send on the channel, and an error means that nothing was put; a
  round of the loop takes the head of the channel and writes it or ends the loop; the rest leaves the
  channel and the loop alone.
\<close>

locale send_queue =
  fixes ops :: "'s conn_ops"
  assumes put_panic: "opPut ops d c = Panic \<longleftrightarrow> try_send d (sendChan ops c) = Panic"
    and put_ret: "opPut ops d c = Ret (c', e) \<Longrightarrow>
      try_send d (sendChan ops c) = Ret (sendChan ops c', e = None) \<and>
      isConnected ops c' = isConnected ops c \<and> looping ops c' = looping ops c"
    and loop_law: "looping ops c \<Longrightarrow> opLoop ops w c = Some (c', ds) \<Longrightarrow>
      \<exists>ch v. receive (sendChan ops c) = Some (ch, v) \<and> sendChan ops c' = ch \<and> isConnected ops c' = isConnected ops c \<and>
        (if looping ops c' then \<exists>d. v = Some d \<and> ds = [d] else ds = [])"
    and sync_law: "sendChan ops (opSync ops w d c) = sendChan ops c"
      "isConnected ops (opSync ops w d c) = isConnected ops c" "looping ops (opSync ops w d c) = looping ops c"
    and close_law: "isConnected ops c \<Longrightarrow> \<not> chClosed (sendChan ops c) \<Longrightarrow>
      \<exists>c'. opClose ops c = Ret c' \<and> sendChan ops c' = (sendChan ops c)\<lparr>chClosed := True\<rparr> \<and>
        \<not> isConnected ops c' \<and> looping ops c' = looping ops c"
    and close_again: "\<not> isConnected ops c \<Longrightarrow> opClose ops c = Ret c"
    and other_law: "f \<in> opOther ops \<Longrightarrow> sendChan ops (f c) = sendChan ops c \<and>
      isConnected ops (f c) = isConnected ops c \<and> looping ops (f c) = looping ops c"
begin

lemma close_cases:
  assumes "isConnected ops c = (\<not> chClosed (sendChan ops c))"
  obtains c' where "opClose ops c = Ret c'" "sendChan ops c' = (sendChan ops c)\<lparr>chClosed := True\<rparr>"
    "\<not> isConnected ops c'" "looping ops c' = looping ops c"
proof (cases "isConnected ops c")
  case True
  then show ?thesis using close_law [OF True] assms that by auto
next
  case False
  then show ?thesis using close_again [OF False] assms that [of c] by simp
qed

lemma put_facts:
  assumes "opPut ops d c = Ret (c', e)"
  shows "\<not> chClosed (sendChan ops c)" "\<not> chClosed (sendChan ops c')" "capacity (sendChan ops c') = capacity (sendChan ops c)"
    "items (sendChan ops c') = (if e = None then items (sendChan ops c) @ [d] else items (sendChan ops c))"
    "(e = None) = (length (items (sendChan ops c)) < capacity (sendChan ops c))"
    "isConnected ops c' = isConnected ops c" "looping ops c' = looping ops c"
proof -
  note r = put_ret [OF assms]
  note f = try_send_facts [OF r [THEN conjunct1]]
  show "\<not> chClosed (sendChan ops c)" "\<not> chClosed (sendChan ops c')" "capacity (sendChan ops c') = capacity (sendChan ops c)"
    "items (sendChan ops c') = (if e = None then items (sendChan ops c) @ [d] else items (sendChan ops c))"
    "(e = None) = (length (items (sendChan ops c)) < capacity (sendChan ops c))"
    "isConnected ops c' = isConnected ops c" "looping ops c' = looping ops c"
    using r f by simp_all
qed

lemma loop_facts:
  assumes "looping ops c" "opLoop ops w c = Some (c', ds)"
  shows "capacity (sendChan ops c') = capacity (sendChan ops c)" "chClosed (sendChan ops c') = chClosed (sendChan ops c)"
    "isConnected ops c' = isConnected ops c"
    "looping ops c' \<Longrightarrow> items (sendChan ops c) = ds @ items (sendChan ops c')"
    "\<not> looping ops c' \<Longrightarrow> ds = []"
    "length (items (sendChan ops c')) \<le> length (items (sendChan ops c))"
proof -
  obtain ch v where r: "receive (sendChan ops c) = Some (ch, v)" "sendChan ops c' = ch"
      "isConnected ops c' = isConnected ops c" "if looping ops c' then \<exists>d. v = Some d \<and> ds = [d] else ds = []"
    using loop_law [OF assms] by blast
  note f = receive_facts [OF r(1)]
  show "capacity (sendChan ops c') = capacity (sendChan ops c)" "chClosed (sendChan ops c') = chClosed (sendChan ops c)"
    "isConnected ops c' = isConnected ops c" using f r(2,3) by simp_all
  show "\<not> looping ops c' \<Longrightarrow> ds = []" using r(4) by simp
  show "looping ops c' \<Longrightarrow> items (sendChan ops c) = ds @ items (sendChan ops c')" using r(2,4) f(3) by auto
  show "length (items (sendChan ops c')) \<le> length (items (sendChan ops c))" using r(2) f(3) by (cases v) simp_all
qed

lemma step_ok:
  assumes "queue_ok ops n s" "conn_step ops s s'"
  shows "queue_ok ops n s'"
  using assms(2)
proof cases
  case (send_check d)
  then show ?thesis using assms(1) by (simp add: queue_ok_def)
next
  case (send_put d c e)
  then show ?thesis
    using assms(1) put_facts [OF send_put(4)] by (auto simp: queue_ok_def)
next
  case (send_crash d)
  then show ?thesis using assms(1) put_panic [of d "conn s"] by (auto simp: queue_ok_def try_send_def split: if_splits)
next
  case (loop_round w c ds)
  note f = loop_facts [OF loop_round(2,4)]
  have cap: "length (items (sendChan ops c)) \<le> capacity (sendChan ops c)" "capacity (sendChan ops c) = n"
    using assms(1) f(1,6) by (auto simp: queue_ok_def)
  have acc: "accepted s = looped s @ items (sendChan ops (conn s))" using assms(1) loop_round by (simp add: queue_ok_def)
  show ?thesis
  proof (cases "looping ops c")
    case True
    then show ?thesis using assms(1) loop_round(1) f cap acc by (auto simp: queue_ok_def)
  next
    case False
    then show ?thesis using assms(1) loop_round(1) f cap by (auto simp: queue_ok_def)
  qed
next
  case (send_sync w d)
  then show ?thesis using assms(1) by (simp add: queue_ok_def sync_law)
next
  case (close_conn c)
  have "isConnected ops (conn s) = (\<not> chClosed (sendChan ops (conn s)))" using assms(1) by (simp add: queue_ok_def)
  then show ?thesis using close_conn assms(1) by (cases rule: close_cases) (auto simp: queue_ok_def)
next
  case close_crash
  have "isConnected ops (conn s) = (\<not> chClosed (sendChan ops (conn s)))" using assms(1) by (simp add: queue_ok_def)
  then show ?thesis using close_crash by (cases rule: close_cases) auto
next
  case (other f)
  then show ?thesis using assms(1) other_law by (auto simp: queue_ok_def)
qed

lemma steps_ok: "conn_steps ops s s' \<Longrightarrow> queue_ok ops n s \<Longrightarrow> queue_ok ops n s'"
  by (induction rule: rtranclp_induct) (auto intro: step_ok)

text \<open>Once the loop has ended it does not come back: nothing more is written, the queue only fills up.\<close>

definition dead_from :: "'s conn_sys \<Rightarrow> 's conn_sys \<Rightarrow> bool" where
  "dead_from s s' \<longleftrightarrow> \<not> looping ops (conn s') \<and> looped s' = looped s \<and>
     length (accepted s') + length (items (sendChan ops (conn s))) =
       length (accepted s) + length (items (sendChan ops (conn s')))"

lemma dead_step:
  assumes "queue_ok ops n t" "conn_step ops t u" "dead_from s t"
  shows "dead_from s u"
  using assms(2)
proof cases
  case (send_put d c e)
  then show ?thesis using assms(3) put_facts [OF send_put(4)] by (auto simp: dead_from_def)
next
  case (close_conn c)
  have "isConnected ops (conn t) = (\<not> chClosed (sendChan ops (conn t)))" using assms(1) by (simp add: queue_ok_def)
  then show ?thesis using close_conn assms(3) by (cases rule: close_cases) (auto simp: dead_from_def)
qed (use assms(3) sync_law other_law in \<open>auto simp: dead_from_def\<close>)

lemma dead_loop:
  assumes "conn_steps ops s s'" "queue_ok ops n s" "\<not> looping ops (conn s)"
  shows "dead_from s s'"
  using assms(1)
proof (induction rule: rtranclp_induct)
  case base
  then show ?case using assms(3) by (simp add: dead_from_def)
next
  case (step t u)
  then show ?case using dead_step steps_ok assms(2) by blast
qed

lemma dead_written:
  assumes "conn_steps ops s s'" "queue_ok ops n s" "\<not> looping ops (conn s)"
  shows "looped s' = looped s"
    and "length (accepted s') + length (items (sendChan ops (conn s))) \<le> length (accepted s) + n"
  using dead_loop [OF assms] steps_ok [OF assms(1,2)] by (auto simp: dead_from_def queue_ok_def)

text \<open>A sender that has passed the check when the connection is closed panics.\<close>

lemma send_after_close:
  assumes "isConnected ops (conn s)" "\<not> chClosed (sendChan ops (conn s))" "\<not> crashed s"
  shows "\<exists>s'. conn_steps ops s s' \<and> crashed s'"
proof -
  let ?s1 = "s\<lparr>sending := d # sending s\<rparr>"
  obtain c' where c: "opClose ops (conn s) = Ret c'" "chClosed (sendChan ops c')"
    using close_law [OF assms(1,2)] by auto
  let ?s2 = "?s1\<lparr>conn := c'\<rparr>"
  have "conn_step ops s ?s1" using assms by (intro send_check)
  moreover have "conn_step ops ?s1 ?s2" using assms c by (intro close_conn) simp_all
  moreover have "opPut ops d c' = Panic" using c put_panic [of d c'] by (simp add: try_send_def)
  then have "conn_step ops ?s2 (?s2\<lparr>crashed := True\<rparr>)" using assms by (intro send_crash [of d]) simp_all
  ultimately have "conn_steps ops s (?s2\<lparr>crashed := True\<rparr>)" by (meson rtranclp.rtrancl_refl rtranclp.rtrancl_into_rtrancl)
  then show ?thesis by (intro exI [of _ "?s2\<lparr>crashed := True\<rparr>"]) simp
qed

end

text \<open>The initial state of a wrapper that has just been made.\<close>

lemma queue_ok_start:
  "isConnected ops c \<Longrightarrow> sendChan ops c = make_chan n \<Longrightarrow> queue_ok ops n (conn_start c)"
  by (simp add: queue_ok_def conn_start_def make_chan_def)

end
