(* ===== verification/NodeConnection.thy ===== *)
theory NodeConnection
  imports SendQueue
begin

text \<open>
  \<^verbatim>\<open>router/node_connection.go\<close>: the router's view of a connection node or of a message center.  Time is
  an argument (nanoseconds); the underlying \<^verbatim>\<open>connection.Connection\<close> is known by a number, and the result
  of its \<^verbatim>\<open>Write\<close> is an argument (\<open>None\<close>, or the error).  \<^verbatim>\<open>float64\<close> values are only stored and returned:
  they are their 64 bits.  The goroutine \<^verbatim>\<open>sendLoop\<close> is the field \<open>loopAlive\<close> and one round of it.
\<close>

section \<open>State\<close>

datatype NodeType = NodeTypeConnection | NodeTypeMessageCenter

datatype NodeStatus = NodeStatusHealthy | NodeStatusUnhealthy | NodeStatusConnecting | NodeStatusDisconnected

record node_connection =
  nodeID :: string
  nodeType :: NodeType
  connection :: "nat option"
  host :: string
  port :: int
  version :: string
  status :: NodeStatus
  connected :: bool
  lastHeartbeat :: int
  lastActivity :: int
  createdAt :: int
  activeConnections :: i32
  messageProcessed :: i64
  cpuUsage :: u64
  memoryUsage :: u64
  sendBuffer :: "bytes chan"
  loopAlive :: bool
  messagesSent :: i64
  messagesReceived :: i64
  bytesTransferred :: i64
  errorCount :: i64

definition NewNodeConnection :: "int \<Rightarrow> string \<Rightarrow> NodeType \<Rightarrow> nat option \<Rightarrow> node_connection" where
  "NewNodeConnection now i t c =
     \<lparr>nodeID = i, nodeType = t, connection = c, host = [], port = 0, version = [], status = NodeStatusConnecting,
      connected = True, lastHeartbeat = now, lastActivity = now, createdAt = now, activeConnections = 0,
      messageProcessed = 0, cpuUsage = 0, memoryUsage = 0, sendBuffer = make_chan 200, loopAlive = True,
      messagesSent = 0, messagesReceived = 0, bytesTransferred = 0, errorCount = 0\<rparr>"

section \<open>Accessors\<close>

definition GetID :: "node_connection \<Rightarrow> string" where "GetID nc = nodeID nc"
definition GetConnection :: "node_connection \<Rightarrow> nat option" where "GetConnection nc = connection nc"
definition SetConnection :: "nat option \<Rightarrow> node_connection \<Rightarrow> node_connection" where "SetConnection c nc = nc\<lparr>connection := c\<rparr>"
definition SetHost :: "string \<Rightarrow> node_connection \<Rightarrow> node_connection" where "SetHost h nc = nc\<lparr>host := h\<rparr>"
definition SetPort :: "int \<Rightarrow> node_connection \<Rightarrow> node_connection" where "SetPort p nc = nc\<lparr>port := p\<rparr>"
definition SetVersion :: "string \<Rightarrow> node_connection \<Rightarrow> node_connection" where "SetVersion v nc = nc\<lparr>version := v\<rparr>"
definition GetStatus :: "node_connection \<Rightarrow> NodeStatus" where "GetStatus nc = status nc"
definition SetStatus :: "NodeStatus \<Rightarrow> node_connection \<Rightarrow> node_connection" where "SetStatus st nc = nc\<lparr>status := st\<rparr>"
definition IsConnected :: "node_connection \<Rightarrow> bool" where "IsConnected nc = connected nc"

text \<open>\<^verbatim>\<open>2*time.Minute\<close>\<close>

definition heartbeatWindow :: int where "heartbeatWindow = 120000000000"

definition IsHealthy :: "int \<Rightarrow> node_connection \<Rightarrow> bool" where
  "IsHealthy now nc \<longleftrightarrow> status nc = NodeStatusHealthy \<and> now - lastHeartbeat nc < heartbeatWindow"

definition UpdateHeartbeat :: "int \<Rightarrow> node_connection \<Rightarrow> node_connection" where
  "UpdateHeartbeat now nc =
     (let nc1 = nc\<lparr>lastHeartbeat := now\<rparr>
      in if status nc1 = NodeStatusConnecting \<or> status nc1 = NodeStatusUnhealthy
         then nc1\<lparr>status := NodeStatusHealthy\<rparr> else nc1)"

definition UpdateActivity :: "int \<Rightarrow> node_connection \<Rightarrow> node_connection" where
  "UpdateActivity now nc = nc\<lparr>lastActivity := now, messagesReceived := messagesReceived nc + 1\<rparr>"

definition GetLastActivity :: "node_connection \<Rightarrow> int" where "GetLastActivity nc = lastActivity nc"

definition UpdateLoadInfo :: "i32 \<Rightarrow> u64 \<Rightarrow> u64 \<Rightarrow> node_connection \<Rightarrow> node_connection" where
  "UpdateLoadInfo active cpu mem nc = nc\<lparr>activeConnections := active, cpuUsage := cpu, memoryUsage := mem\<rparr>"

definition GetLoadInfo :: "node_connection \<Rightarrow> i32 \<times> u64 \<times> u64" where
  "GetLoadInfo nc = (activeConnections nc, cpuUsage nc, memoryUsage nc)"

definition GetActiveConnections :: "node_connection \<Rightarrow> i32" where
  "GetActiveConnections nc = activeConnections nc"

definition IsExpired :: "int \<Rightarrow> int \<Rightarrow> node_connection \<Rightarrow> bool" where
  "IsExpired now timeout nc \<longleftrightarrow> now - GetLastActivity nc > timeout"

section \<open>Sending\<close>

text \<open>The \<^verbatim>\<open>select\<close> of \<^verbatim>\<open>Send\<close>, which comes after the check and can come much later.\<close>

definition trySend :: "bytes \<Rightarrow> node_connection \<Rightarrow> (node_connection \<times> conn_error option) outcome" where
  "trySend d nc =
     (case try_send d (sendBuffer nc) of
        Panic \<Rightarrow> Panic
      | Ret (ch, True) \<Rightarrow> Ret (nc\<lparr>sendBuffer := ch\<rparr>, None)
      | Ret (ch, False) \<Rightarrow> Ret (nc\<lparr>errorCount := errorCount nc + 1\<rparr>, Some (BufferFull (nodeID nc))))"

definition Send :: "bytes \<Rightarrow> node_connection \<Rightarrow> (node_connection \<times> conn_error option) outcome" where
  "Send d nc = (if \<not> IsConnected nc then Ret (nc, Some (NotConnected (nodeID nc))) else trySend d nc)"

text \<open>The result: the new state, the error, and what has been handed to the underlying connection.\<close>

definition SendSync :: "string option \<Rightarrow> bytes \<Rightarrow> node_connection \<Rightarrow> node_connection \<times> conn_error option \<times> bytes list" where
  "SendSync w d nc =
     (if \<not> IsConnected nc then (nc, Some (NotConnected (nodeID nc)), [])
      else if connection nc = None then (nc, Some (ConnectionNil (nodeID nc)), [])
      else case w of
             Some e \<Rightarrow> (nc\<lparr>errorCount := errorCount nc + 1\<rparr>, Some (WriteFailed e), [])
           | None \<Rightarrow> (nc\<lparr>messagesSent := messagesSent nc + 1,
                       bytesTransferred := bytesTransferred nc + word_of_nat (length d)\<rparr>, None, [d]))"

text \<open>One round of the loop: it waits, ends (channel closed, not connected, failed write) or goes on.\<close>

definition sendLoop :: "string option \<Rightarrow> node_connection \<Rightarrow> (node_connection \<times> bytes list) option" where
  "sendLoop w nc =
     (case receive (sendBuffer nc) of
        None \<Rightarrow> None
      | Some (ch, None) \<Rightarrow> Some (nc\<lparr>sendBuffer := ch, loopAlive := False\<rparr>, [])
      | Some (ch, Some d) \<Rightarrow>
          (let nc1 = nc\<lparr>sendBuffer := ch\<rparr>
           in if \<not> IsConnected nc1 then Some (nc1\<lparr>loopAlive := False\<rparr>, [])
              else case SendSync w d nc1 of
                     (nc2, Some e, _) \<Rightarrow> Some ((SetStatus NodeStatusUnhealthy nc2)\<lparr>loopAlive := False\<rparr>, [])
                   | (nc2, None, sent) \<Rightarrow> Some (nc2, sent)))"

text \<open>The second component of the result is the underlying connection that is closed, if any.\<close>

definition Close :: "node_connection \<Rightarrow> (node_connection \<times> nat option) outcome" where
  "Close nc =
     (if \<not> connected nc then Ret (nc, None)
      else let nc1 = SetStatus NodeStatusDisconnected (nc\<lparr>connected := False\<rparr>)
           in case close_chan (sendBuffer nc1) of
                Panic \<Rightarrow> Panic
              | Ret ch \<Rightarrow> Ret (nc1\<lparr>sendBuffer := ch\<rparr>, connection nc1))"

record node_stats =
  nsID :: string
  nsType :: NodeType
  nsStatus :: NodeStatus
  nsConnected :: bool
  nsHealthy :: bool
  nsActive :: i32
  nsSent :: i64
  nsReceived :: i64
  nsBytes :: i64
  nsErrors :: i64
  nsBuffered :: nat

definition node_GetStats :: "int \<Rightarrow> node_connection \<Rightarrow> node_stats" where
  "node_GetStats now nc =
     \<lparr>nsID = nodeID nc, nsType = nodeType nc, nsStatus = status nc, nsConnected = IsConnected nc,
      nsHealthy = IsHealthy now nc, nsActive = activeConnections nc, nsSent = messagesSent nc,
      nsReceived = messagesReceived nc, nsBytes = bytesTransferred nc, nsErrors = errorCount nc,
      nsBuffered = length (items (sendBuffer nc))\<rparr>"

section \<open>Message centers\<close>

record center_connection =
  nodeConn :: node_connection
  kafkaTopics :: "string list"
  storageStatus :: string
  queueDepth :: i64

definition NewMessageCenterConnection :: "int \<Rightarrow> string \<Rightarrow> nat option \<Rightarrow> center_connection" where
  "NewMessageCenterConnection now i c =
     \<lparr>nodeConn = NewNodeConnection now i NodeTypeMessageCenter c, kafkaTopics = [], storageStatus = ''normal'', queueDepth = 0\<rparr>"

definition onNode :: "(node_connection \<Rightarrow> node_connection) \<Rightarrow> center_connection \<Rightarrow> center_connection" where
  "onNode f c = c\<lparr>nodeConn := f (nodeConn c)\<rparr>"

definition AddKafkaTopic :: "string \<Rightarrow> center_connection \<Rightarrow> center_connection" where
  "AddKafkaTopic t c = (if t \<in> set (kafkaTopics c) then c else c\<lparr>kafkaTopics := kafkaTopics c @ [t]\<rparr>)"

definition GetKafkaTopics :: "center_connection \<Rightarrow> string list" where "GetKafkaTopics c = kafkaTopics c"
definition SetStorageStatus :: "string \<Rightarrow> center_connection \<Rightarrow> center_connection" where "SetStorageStatus s c = c\<lparr>storageStatus := s\<rparr>"
definition UpdateQueueDepth :: "i64 \<Rightarrow> center_connection \<Rightarrow> center_connection" where "UpdateQueueDepth d c = c\<lparr>queueDepth := d\<rparr>"
definition GetQueueDepth :: "center_connection \<Rightarrow> i64" where "GetQueueDepth c = queueDepth c"

lemma AddKafkaTopic_set: "distinct (kafkaTopics c) \<Longrightarrow>
    distinct (kafkaTopics (AddKafkaTopic t c)) \<and> set (kafkaTopics (AddKafkaTopic t c)) = insert t (set (kafkaTopics c))"
  by (auto simp: AddKafkaTopic_def)

section \<open>The send queue of a node\<close>

definition nodeUpdates :: "(node_connection \<Rightarrow> node_connection) set" where
  "nodeUpdates = range SetConnection \<union> range SetHost \<union> range SetPort \<union> range SetVersion \<union> range SetStatus \<union>
     range UpdateHeartbeat \<union> range UpdateActivity \<union> {UpdateLoadInfo a c m | a c m. True}"

definition nodeOps :: "node_connection conn_ops" where
  "nodeOps = \<lparr>isConnected = IsConnected, sendChan = sendBuffer, looping = loopAlive, opPut = trySend,
     opLoop = sendLoop, opSync = (\<lambda>w d nc. fst (SendSync w d nc)),
     opClose = (\<lambda>nc. case Close nc of Panic \<Rightarrow> Panic | Ret (nc', _) \<Rightarrow> Ret nc'), opOther = nodeUpdates\<rparr>"

lemma nodeOps_simps [simp]:
  "isConnected nodeOps = connected" "sendChan nodeOps = sendBuffer" "looping nodeOps = loopAlive" "opPut nodeOps = trySend"
  "opLoop nodeOps = sendLoop" "opSync nodeOps = (\<lambda>w d nc. fst (SendSync w d nc))"
  "opClose nodeOps = (\<lambda>nc. case Close nc of Panic \<Rightarrow> Panic | Ret (nc', _) \<Rightarrow> Ret nc')" "opOther nodeOps = nodeUpdates"
  by (simp_all add: nodeOps_def fun_eq_iff IsConnected_def)

lemma SendSync_frame:
  "sendBuffer (fst (SendSync w d nc)) = sendBuffer nc" "connected (fst (SendSync w d nc)) = connected nc"
  "loopAlive (fst (SendSync w d nc)) = loopAlive nc"
  by (auto simp: SendSync_def split: option.splits)

lemma SendSync_sent: "SendSync w d nc = (nc', None, ds) \<Longrightarrow> ds = [d]"
  by (auto simp: SendSync_def split: if_splits option.splits)

lemma sendLoop_law:
  assumes "loopAlive nc" "sendLoop w nc = Some (nc', ds)"
  shows "\<exists>ch v. receive (sendBuffer nc) = Some (ch, v) \<and> sendBuffer nc' = ch \<and> connected nc' = connected nc \<and>
    (if loopAlive nc' then \<exists>d. v = Some d \<and> ds = [d] else ds = [])"
proof -
  obtain ch v where r: "receive (sendBuffer nc) = Some (ch, v)" using assms(2) by (auto simp: sendLoop_def split: option.splits)
  show ?thesis
  proof (cases v)
    case None
    then show ?thesis using assms r by (auto simp: sendLoop_def)
  next
    case (Some d)
    let ?nc1 = "nc\<lparr>sendBuffer := ch\<rparr>"
    obtain nc2 e sent where s: "SendSync w d ?nc1 = (nc2, e, sent)" by (rule prod_cases3)
    have f: "sendBuffer nc2 = ch" "connected nc2 = connected nc" "loopAlive nc2 = loopAlive nc"
      using SendSync_frame [of w d ?nc1] s by simp_all
    show ?thesis
    proof (cases "\<not> connected nc \<or> e \<noteq> None")
      case True
      then show ?thesis using assms r Some s f by (auto simp: sendLoop_def IsConnected_def SetStatus_def Let_def)
    next
      case False
      then have e: "e = None" "connected nc" by auto
      then have "nc' = nc2 \<and> ds = sent" using assms(2) r Some s by (simp add: sendLoop_def IsConnected_def)
      then show ?thesis using r Some f SendSync_sent [of w d ?nc1 nc2 sent] s e assms(1) by simp
    qed
  qed
qed

interpretation node: send_queue nodeOps
proof
  fix d c
  show "opPut nodeOps d c = Panic \<longleftrightarrow> try_send d (sendChan nodeOps c) = Panic"
    by (auto simp: trySend_def split: outcome.splits prod.splits bool.splits)
next
  fix d c c' e
  assume "opPut nodeOps d c = Ret (c', e)"
  then show "try_send d (sendChan nodeOps c) = Ret (sendChan nodeOps c', e = None) \<and>
      isConnected nodeOps c' = isConnected nodeOps c \<and> looping nodeOps c' = looping nodeOps c"
    by (auto simp: trySend_def try_send_def split: if_splits)
next
  fix c w c' ds
  assume "looping nodeOps c" "opLoop nodeOps w c = Some (c', ds)"
  then show "\<exists>ch v. receive (sendChan nodeOps c) = Some (ch, v) \<and> sendChan nodeOps c' = ch \<and>
      isConnected nodeOps c' = isConnected nodeOps c \<and>
      (if looping nodeOps c' then \<exists>d. v = Some d \<and> ds = [d] else ds = [])"
    using sendLoop_law by simp
next
  fix c :: node_connection
  assume "isConnected nodeOps c" "\<not> chClosed (sendChan nodeOps c)"
  then show "\<exists>c'. opClose nodeOps c = Ret c' \<and> sendChan nodeOps c' = sendChan nodeOps c\<lparr>chClosed := True\<rparr> \<and>
      \<not> isConnected nodeOps c' \<and> looping nodeOps c' = looping nodeOps c"
    by (simp add: Close_def close_chan_def SetStatus_def)
next
  fix f c
  assume "f \<in> opOther nodeOps"
  then show "sendChan nodeOps (f c) = sendChan nodeOps c \<and> isConnected nodeOps (f c) = isConnected nodeOps c \<and>
      looping nodeOps (f c) = looping nodeOps c"
    by (auto simp: nodeUpdates_def SetConnection_def SetHost_def SetPort_def SetVersion_def SetStatus_def
        UpdateHeartbeat_def UpdateActivity_def UpdateLoadInfo_def Let_def split: if_splits)
qed (simp_all add: SendSync_frame Close_def)

lemma node_ok_start: "queue_ok nodeOps 200 (conn_start (NewNodeConnection now i t c))"
  by (rule queue_ok_start) (simp_all add: NewNodeConnection_def)

text \<open>C27: whatever the order of sends, rounds of the send loop, closes and updates of a node, with any number
  of senders at once: what the loop has written is the beginning of what \<^verbatim>\<open>Send\<close> has accepted, in that
  order; while the loop runs the rest is in the buffer, which holds at most 200 messages; and a sender can
  only panic once the node is closed.\<close>

theorem node_messages_in_order:
  assumes "conn_steps nodeOps (conn_start (NewNodeConnection now i t c)) s"
  shows "prefix (looped s) (accepted s) \<and>
    (loopAlive (conn s) \<longrightarrow> accepted s = looped s @ items (sendBuffer (conn s))) \<and>
    length (items (sendBuffer (conn s))) \<le> 200 \<and> (crashed s \<longrightarrow> \<not> IsConnected (conn s))"
  using node.steps_ok [OF assms node_ok_start] by (auto simp: queue_ok_def IsConnected_def)

text \<open>Runs as functions: a message accepted, a round of the loop, an update.\<close>

definition acceptMsg :: "bytes \<Rightarrow> node_connection conn_sys \<Rightarrow> node_connection conn_sys" where
  "acceptMsg d s = (case trySend d (conn s) of Ret (c, None) \<Rightarrow> s\<lparr>conn := c, accepted := accepted s @ [d]\<rparr> | _ \<Rightarrow> s)"

definition loopMsg :: "string option \<Rightarrow> node_connection conn_sys \<Rightarrow> node_connection conn_sys" where
  "loopMsg w s = (case sendLoop w (conn s) of Some (c, ds) \<Rightarrow> s\<lparr>conn := c, looped := looped s @ ds\<rparr> | None \<Rightarrow> s)"

definition updateMsg :: "(node_connection \<Rightarrow> node_connection) \<Rightarrow> node_connection conn_sys \<Rightarrow> node_connection conn_sys" where
  "updateMsg f s = s\<lparr>conn := f (conn s)\<rparr>"

lemma acceptMsg_step:
  assumes "connected (conn s)" "\<not> crashed s"
  shows "conn_steps nodeOps s (acceptMsg d s)"
proof (cases "\<exists>c. trySend d (conn s) = Ret (c, None)")
  case True
  then obtain c where c: "trySend d (conn s) = Ret (c, None)" by blast
  let ?s1 = "s\<lparr>sending := d # sending s\<rparr>"
  have a: "conn_step nodeOps s ?s1" using assms by (intro send_check) simp_all
  have "conn_step nodeOps ?s1 (?s1\<lparr>conn := c, sending := remove1 d (sending ?s1),
      accepted := (if None = (None :: conn_error option) then accepted ?s1 @ [d] else accepted ?s1)\<rparr>)"
    using assms c by (intro send_put) simp_all
  then have "conn_step nodeOps ?s1 (acceptMsg d s)" using c by (cases s) (simp add: acceptMsg_def)
  with a show ?thesis by (meson rtranclp.rtrancl_refl rtranclp.rtrancl_into_rtrancl)
next
  case False
  then have "acceptMsg d s = s" by (auto simp: acceptMsg_def split: outcome.splits option.splits)
  then show ?thesis by simp
qed

lemma loopMsg_step:
  assumes "loopAlive (conn s)" "\<not> crashed s"
  shows "conn_steps nodeOps s (loopMsg w s)"
proof (cases "sendLoop w (conn s)")
  case (Some r)
  then show ?thesis using assms loop_round [of nodeOps s w "fst r" "snd r"] by (auto simp: loopMsg_def split: prod.splits)
qed (simp add: loopMsg_def)

lemma updateMsg_step:
  "\<not> crashed s \<Longrightarrow> f \<in> nodeUpdates \<Longrightarrow> conn_steps nodeOps s (updateMsg f s)"
  unfolding updateMsg_def by (intro r_into_rtranclp other) simp_all

lemmas run_defs = acceptMsg_def loopMsg_def updateMsg_def conn_start_def NewNodeConnection_def trySend_def try_send_def
  make_chan_def sendLoop_def receive_def SendSync_def IsConnected_def SetStatus_def UpdateHeartbeat_def

lemma acceptMsg_frame [simp]:
  "connected (conn (acceptMsg d s)) = connected (conn s)" "crashed (acceptMsg d s) = crashed s"
  "loopAlive (conn (acceptMsg d s)) = loopAlive (conn s)" "crashed (loopMsg w s) = crashed s"
  by (auto simp: acceptMsg_def loopMsg_def trySend_def split: outcome.splits option.splits prod.splits bool.splits)

lemma start_facts [simp]:
  "connected (conn (conn_start (NewNodeConnection now i t c)))" "\<not> crashed (conn_start c0)"
  "loopAlive (conn (conn_start (NewNodeConnection now i t c)))"
  by (simp_all add: conn_start_def NewNodeConnection_def)

text \<open>Two messages accepted, the first of them written.\<close>

definition twoSent :: "node_connection conn_sys" where
  "twoSent = loopMsg None (acceptMsg [2] (acceptMsg [1] (conn_start (NewNodeConnection 0 ''n1'' NodeTypeConnection (Some 1)))))"

lemma twoSent_steps: "conn_steps nodeOps (conn_start (NewNodeConnection 0 ''n1'' NodeTypeConnection (Some 1))) twoSent"
proof -
  let ?s0 = "conn_start (NewNodeConnection 0 ''n1'' NodeTypeConnection (Some 1))"
  have a: "conn_steps nodeOps ?s0 (acceptMsg [1] ?s0)" by (rule acceptMsg_step) simp_all
  have b: "conn_steps nodeOps (acceptMsg [1] ?s0) (acceptMsg [2] (acceptMsg [1] ?s0))" by (rule acceptMsg_step) simp_all
  have c: "conn_steps nodeOps (acceptMsg [2] (acceptMsg [1] ?s0)) twoSent" unfolding twoSent_def by (rule loopMsg_step) simp_all
  show ?thesis by (rule rtranclp_trans [OF a rtranclp_trans [OF b c]])
qed

theorem node_messages_in_order_witness:
  "prefix (looped twoSent) (accepted twoSent) \<and> looped twoSent = [[1]] \<and> accepted twoSent = [[1], [2]]"
proof -
  have "looped twoSent = [[1]]" "accepted twoSent = [[1], [2]]" by code_simp+
  then show ?thesis using node_messages_in_order [OF twoSent_steps] by simp
qed

section \<open>A loop that has ended\<close>

text \<open>The node after a write of its loop has failed and a heartbeat has come in.\<close>

definition failedThenBeat :: "int \<Rightarrow> int \<Rightarrow> string \<Rightarrow> NodeType \<Rightarrow> nat \<Rightarrow> bytes \<Rightarrow> string \<Rightarrow> node_connection conn_sys" where
  "failedThenBeat now beat i t c d e =
     updateMsg (UpdateHeartbeat beat) (loopMsg (Some e) (acceptMsg d (conn_start (NewNodeConnection now i t (Some c)))))"

lemma failedThenBeat_steps: "conn_steps nodeOps (conn_start (NewNodeConnection now i t (Some c))) (failedThenBeat now beat i t c d e)"
proof -
  let ?s0 = "conn_start (NewNodeConnection now i t (Some c))"
  have a: "conn_steps nodeOps ?s0 (acceptMsg d ?s0)" by (rule acceptMsg_step) simp_all
  have b: "conn_steps nodeOps (acceptMsg d ?s0) (loopMsg (Some e) (acceptMsg d ?s0))" by (rule loopMsg_step) simp_all
  have c: "conn_steps nodeOps (loopMsg (Some e) (acceptMsg d ?s0)) (failedThenBeat now beat i t c d e)"
    unfolding failedThenBeat_def by (rule updateMsg_step) (simp_all add: nodeUpdates_def)
  show ?thesis by (rule rtranclp_trans [OF a rtranclp_trans [OF b c]])
qed

text \<open>C40: one failed write silences a node for good.  The send loop ends and the node is marked unhealthy, but
  it stays connected, and the next heartbeat makes it healthy again: \<^verbatim>\<open>Send\<close> takes messages for it
  without an error and none of them is ever written, whatever happens.\<close>

theorem failed_write_silences_node:
  "let s = failedThenBeat now beat i t c d e
   in IsHealthy beat (conn s) \<and> IsConnected (conn s) \<and> (\<exists>c'. Send d' (conn s) = Ret (c', None)) \<and>
      (conn_steps nodeOps s s' \<longrightarrow> looped s' = [] \<and> length (accepted s') \<le> 201)"
proof -
  let ?s = "failedThenBeat now beat i t c d e"
  let ?nc = "NewNodeConnection now i t (Some c)"
  let ?ch = "\<lparr>items = [d], capacity = 200, chClosed = False\<rparr>"
  have a: "acceptMsg d (conn_start ?nc) = (conn_start ?nc)\<lparr>conn := ?nc\<lparr>sendBuffer := ?ch\<rparr>, accepted := [d]\<rparr>"
    by (simp add: run_defs)
  have l: "loopMsg (Some e) (acceptMsg d (conn_start ?nc)) = (conn_start ?nc)\<lparr>conn := ?nc\<lparr>sendBuffer := make_chan 200,
      errorCount := 1, status := NodeStatusUnhealthy, loopAlive := False\<rparr>, accepted := [d]\<rparr>"
    unfolding a by (simp add: run_defs)
  have f: "\<not> loopAlive (conn ?s)" "looped ?s = []" "accepted ?s = [d]" "items (sendBuffer (conn ?s)) = []"
      "IsConnected (conn ?s)" "IsHealthy beat (conn ?s)" "\<exists>c'. Send d' (conn ?s) = Ret (c', None)"
    unfolding failedThenBeat_def l by (simp_all add: run_defs IsHealthy_def heartbeatWindow_def Send_def)
  have ok: "queue_ok nodeOps 200 ?s" by (rule node.steps_ok [OF failedThenBeat_steps node_ok_start])
  have "looped s' = [] \<and> length (accepted s') \<le> 201" if "conn_steps nodeOps ?s s'"
    using node.dead_written [OF that ok] f by simp
  with f show ?thesis by (simp add: Let_def)
qed

theorem failed_write_silences_node_witness:
  "looped (acceptMsg [7] (failedThenBeat 0 5 ''n1'' NodeTypeConnection 1 [1] ''reset'')) = []"
proof -
  let ?s = "failedThenBeat 0 5 ''n1'' NodeTypeConnection 1 [1] ''reset''"
  have "conn_steps nodeOps ?s (acceptMsg [7] ?s)"
    by (rule acceptMsg_step) (code_simp, code_simp)
  then show ?thesis
    using failed_write_silences_node [of 0 5 "''n1''" NodeTypeConnection 1 "[1]" "''reset''" "[7]" "acceptMsg [7] ?s"]
    by (simp add: Let_def)
qed

text \<open>\<^verbatim>\<open>Send\<close> tests the flag before its \<^verbatim>\<open>select\<close> without holding the lock: a sender between the two
  when \<^verbatim>\<open>Close\<close> closes the buffer panics, from any state in which the node is connected.\<close>

theorem send_close_race:
  "\<exists>s. conn_steps nodeOps (conn_start (NewNodeConnection now i t c)) s \<and> crashed s"
  by (rule node.send_after_close) (simp_all add: conn_start_def NewNodeConnection_def make_chan_def)

lemma Close_idem: "Close nc = Ret (nc', x) \<Longrightarrow> Close nc' = Ret (nc', None)"
  by (auto simp: Close_def SetStatus_def Let_def split: outcome.splits if_splits)

end
