(* ===== verification/NodeManager.thy ===== *)
theory NodeManager
  imports NodeConnection GlobalId
begin

text \<open>
  \<^verbatim>\<open>router/node_manager.go\<close>: the router's connection nodes and message centers.  The maps are
  association lists; where Go walks over a map, \<open>ord\<close> is the order it happens to take (a permutation).
  Dialling a message center (\<^verbatim>\<open>util/net/api\<close>) is an argument: its result is an error or the new
  client and its connection.  The envelope of a heartbeat is the argument \<open>beat\<close>, from the sequence number
  to the bytes, or nothing when the codec fails.
\<close>

type_synonym nodes = "(string \<times> node_connection) list"
type_synonym centers = "(string \<times> center_connection) list"

record node_manager =
  messageCenterAddrs :: "string list"
  nodeTimeout :: int
  connectionNodes :: nodes
  messageCenters :: centers
  centerClients :: "(string \<times> nat) list"
  nmSeq :: conn_seq_gen
  totalConnectionNodes :: i64
  totalMessageCenters :: i64
  activeConnectionNodes :: i64
  activeMessageCenters :: i64

datatype nm_error = NodeNotFound string | ClientFailed string | ConnectFailed string string

definition NewNodeManager :: "string list \<Rightarrow> int \<Rightarrow> node_manager" where
  "NewNodeManager addrs timeout =
     \<lparr>messageCenterAddrs = addrs, nodeTimeout = timeout, connectionNodes = [], messageCenters = [], centerClients = [],
      nmSeq = NewConnSeqGenerator, totalConnectionNodes = 0, totalMessageCenters = 0, activeConnectionNodes = 0,
      activeMessageCenters = 0\<rparr>"

section \<open>Connection nodes\<close>

definition closeNode :: "node_connection \<Rightarrow> node_connection outcome" where
  "closeNode nc = (case Close nc of Panic \<Rightarrow> Panic | Ret (nc', _) \<Rightarrow> Ret nc')"

text \<open>The object that is replaced is closed; its map entry now holds the new one.\<close>

definition RegisterConnectionNode :: "int \<Rightarrow> node_manager \<Rightarrow> string \<Rightarrow> nat option \<Rightarrow> string \<Rightarrow> int
    \<Rightarrow> (node_manager \<times> node_connection) outcome" where
  "RegisterConnectionNode now nm nID c h p =
     (case (case map_of (connectionNodes nm) nID of None \<Rightarrow> Ret () | Some old \<Rightarrow>
              (case closeNode old of Panic \<Rightarrow> Panic | Ret _ \<Rightarrow> Ret ())) of
        Panic \<Rightarrow> Panic
      | Ret _ \<Rightarrow>
          (let nc = SetStatus NodeStatusHealthy (SetPort p (SetHost h (NewNodeConnection now nID NodeTypeConnection c)))
           in Ret (nm\<lparr>connectionNodes := AList.update nID nc (connectionNodes nm),
                     totalConnectionNodes := totalConnectionNodes nm + 1,
                     activeConnectionNodes := activeConnectionNodes nm + 1\<rparr>, nc)))"

definition FindByConnection :: "(nodes \<Rightarrow> nodes) \<Rightarrow> node_manager \<Rightarrow> nat option \<Rightarrow> node_connection option" where
  "FindByConnection ord nm c = find (\<lambda>nc. GetConnection nc = c) (map snd (ord (connectionNodes nm)))"

definition dropNode :: "string \<Rightarrow> node_manager \<Rightarrow> node_manager" where
  "dropNode nID nm = nm\<lparr>connectionNodes := AList.delete nID (connectionNodes nm),
     activeConnectionNodes := activeConnectionNodes nm - 1\<rparr>"

definition UnregisterConnectionNode :: "node_manager \<Rightarrow> string \<Rightarrow> (node_manager \<times> (nm_error + unit)) outcome" where
  "UnregisterConnectionNode nm nID =
     (case map_of (connectionNodes nm) nID of
        None \<Rightarrow> Ret (nm, Inl (NodeNotFound nID))
      | Some nc \<Rightarrow> (case closeNode nc of Panic \<Rightarrow> Panic | Ret _ \<Rightarrow> Ret (dropNode nID nm, Inr ())))"

definition GetConnectionNode :: "node_manager \<Rightarrow> string \<Rightarrow> node_connection option" where
  "GetConnectionNode nm nID = map_of (connectionNodes nm) nID"

definition GetAllConnectionNodes :: "(nodes \<Rightarrow> nodes) \<Rightarrow> node_manager \<Rightarrow> node_connection list" where
  "GetAllConnectionNodes ord nm = map snd (ord (connectionNodes nm))"

definition GetHealthyConnectionNodes :: "(nodes \<Rightarrow> nodes) \<Rightarrow> int \<Rightarrow> node_manager \<Rightarrow> node_connection list" where
  "GetHealthyConnectionNodes ord now nm = filter (IsHealthy now) (map snd (ord (connectionNodes nm)))"

definition GetConnectionNodeCount :: "node_manager \<Rightarrow> nat" where
  "GetConnectionNodeCount nm = length (connectionNodes nm)"

fun closeNodes :: "node_connection list \<Rightarrow> unit outcome" where
  "closeNodes [] = Ret ()"
| "closeNodes (nc # ncs) = (case closeNode nc of Panic \<Rightarrow> Panic | Ret _ \<Rightarrow> closeNodes ncs)"

definition CloseAllConnectionNodes :: "node_manager \<Rightarrow> node_manager outcome" where
  "CloseAllConnectionNodes nm =
     (case closeNodes (map snd (connectionNodes nm)) of
        Panic \<Rightarrow> Panic
      | Ret _ \<Rightarrow> Ret (nm\<lparr>connectionNodes := [], activeConnectionNodes := 0\<rparr>))"

section \<open>Message centers\<close>

text \<open>The callbacks of the client of a message center.\<close>

definition OnConnected :: "int \<Rightarrow> nat option \<Rightarrow> center_connection \<Rightarrow> center_connection" where
  "OnConnected now c = onNode (\<lambda>nc. UpdateHeartbeat now (SetStatus NodeStatusHealthy (SetConnection c nc)))"

definition OnDisconnected :: "center_connection \<Rightarrow> center_connection" where
  "OnDisconnected = onNode (\<lambda>nc. SetStatus NodeStatusDisconnected (SetConnection None nc))"

definition OnReconnected :: "int \<Rightarrow> nat option \<Rightarrow> center_connection \<Rightarrow> center_connection" where
  "OnReconnected now c = onNode (\<lambda>nc. UpdateHeartbeat now (SetStatus NodeStatusHealthy (SetConnection c nc)))"

definition OnHeartbeatSent :: "int \<Rightarrow> center_connection \<Rightarrow> center_connection" where
  "OnHeartbeatSent now = onNode (UpdateHeartbeat now)"

definition OnHeartbeatReceived :: "int \<Rightarrow> center_connection \<Rightarrow> center_connection" where
  "OnHeartbeatReceived now = onNode (UpdateHeartbeat now)"

definition dropCenter :: "string \<Rightarrow> node_manager \<Rightarrow> node_manager" where
  "dropCenter addr nm = nm\<lparr>messageCenters := AList.delete addr (messageCenters nm),
     centerClients := AList.delete addr (centerClients nm), activeMessageCenters := activeMessageCenters nm - 1\<rparr>"

text \<open>
  Dialling: \<open>Inl\<close> the error of \<^verbatim>\<open>api.NewClient\<close>, or the new client and the result of its \<^verbatim>\<open>Connect\<close>,
  which has called \<^verbatim>\<open>OnConnected\<close> with the connection when it succeeds.
\<close>

type_synonym dial = "string + nat \<times> (string + nat)"

text \<open>The center that is there, if it is stale, is closed and taken out first.\<close>

definition dropStale :: "int \<Rightarrow> node_manager \<Rightarrow> string \<Rightarrow> (node_manager \<times> bool) outcome" where
  "dropStale now nm addr =
     (case map_of (messageCenters nm) addr of
        None \<Rightarrow> Ret (nm, False)
      | Some c \<Rightarrow>
          if IsConnected (nodeConn c) \<and> IsHealthy now (nodeConn c) then Ret (nm, True)
          else case closeNode (nodeConn c) of Panic \<Rightarrow> Panic | Ret _ \<Rightarrow> Ret (dropCenter addr nm, False))"

definition connectToMessageCenter :: "dial \<Rightarrow> int \<Rightarrow> node_manager \<Rightarrow> string \<Rightarrow> (node_manager \<times> (nm_error + unit)) outcome" where
  "connectToMessageCenter dl now nm addr =
     (case dropStale now nm addr of
        Panic \<Rightarrow> Panic
      | Ret (nm1, True) \<Rightarrow> Ret (nm1, Inr ())
      | Ret (nm1, False) \<Rightarrow>
          (case dl of
             Inl e \<Rightarrow> Ret (nm1, Inl (ClientFailed e))
           | Inr (client, Inl e) \<Rightarrow> Ret (nm1, Inl (ConnectFailed addr e))
           | Inr (client, Inr c) \<Rightarrow>
               (let center = OnConnected now (Some c) (NewMessageCenterConnection now addr None);
                    center1 = onNode (\<lambda>nc. UpdateHeartbeat now (SetStatus NodeStatusHealthy nc)) center
                in Ret (nm1\<lparr>messageCenters := AList.update addr center1 (messageCenters nm1),
                           centerClients := AList.update addr client (centerClients nm1),
                           totalMessageCenters := totalMessageCenters nm1 + 1,
                           activeMessageCenters := activeMessageCenters nm1 + 1\<rparr>, Inr ()))))"

fun connectToMessageCenters :: "(string \<Rightarrow> dial) \<Rightarrow> int \<Rightarrow> string list \<Rightarrow> node_manager \<Rightarrow> node_manager outcome" where
  "connectToMessageCenters dls now [] nm = Ret nm"
| "connectToMessageCenters dls now (addr # addrs) nm =
     (case connectToMessageCenter (dls addr) now nm addr of
        Panic \<Rightarrow> Panic
      | Ret (nm', _) \<Rightarrow> connectToMessageCenters dls now addrs nm')"

definition GetMessageCenter :: "node_manager \<Rightarrow> string \<Rightarrow> center_connection option" where
  "GetMessageCenter nm addr = map_of (messageCenters nm) addr"

definition GetAllMessageCenters :: "(centers \<Rightarrow> centers) \<Rightarrow> node_manager \<Rightarrow> center_connection list" where
  "GetAllMessageCenters ord nm = map snd (ord (messageCenters nm))"

definition GetHealthyMessageCenters :: "(centers \<Rightarrow> centers) \<Rightarrow> int \<Rightarrow> node_manager \<Rightarrow> center_connection list" where
  "GetHealthyMessageCenters ord now nm = filter (\<lambda>c. IsHealthy now (nodeConn c)) (map snd (ord (messageCenters nm)))"

definition GetMessageCenterCount :: "node_manager \<Rightarrow> nat" where
  "GetMessageCenterCount nm = length (messageCenters nm)"

definition CloseAllMessageCenters :: "node_manager \<Rightarrow> node_manager outcome" where
  "CloseAllMessageCenters nm =
     (case closeNodes (map (\<lambda>x. nodeConn (snd x)) (messageCenters nm)) of
        Panic \<Rightarrow> Panic
      | Ret _ \<Rightarrow> Ret (nm\<lparr>centerClients := [], messageCenters := [], activeMessageCenters := 0\<rparr>))"

section \<open>Heartbeats and health\<close>

text \<open>One node: nothing when it is not connected, else the next sequence number, and the status when the
  buffer does not take the message.\<close>

definition beatNode :: "(u64 \<Rightarrow> bytes option) \<Rightarrow> conn_seq_gen \<Rightarrow> node_connection \<Rightarrow> (conn_seq_gen \<times> node_connection) outcome" where
  "beatNode beat sq nc =
     (if \<not> IsConnected nc then Ret (sq, nc)
      else let (sq', s) = SeqNext sq
           in case beat s of
                None \<Rightarrow> Ret (sq', nc)
              | Some data \<Rightarrow>
                  (case Send data nc of
                     Panic \<Rightarrow> Panic
                   | Ret (nc', None) \<Rightarrow> Ret (sq', nc')
                   | Ret (nc', Some _) \<Rightarrow> Ret (sq', SetStatus NodeStatusUnhealthy nc')))"

fun beatNodes :: "(u64 \<Rightarrow> bytes option) \<Rightarrow> conn_seq_gen \<Rightarrow> nodes \<Rightarrow> (conn_seq_gen \<times> nodes) outcome" where
  "beatNodes beat sq [] = Ret (sq, [])"
| "beatNodes beat sq ((i, nc) # xs) =
     (case beatNode beat sq nc of
        Panic \<Rightarrow> Panic
      | Ret (sq', nc') \<Rightarrow> (case beatNodes beat sq' xs of Panic \<Rightarrow> Panic | Ret (sq'', ys) \<Rightarrow> Ret (sq'', (i, nc') # ys)))"

definition SendHeartbeatToConnectionNodes :: "(u64 \<Rightarrow> bytes option) \<Rightarrow> node_manager \<Rightarrow> node_manager outcome" where
  "SendHeartbeatToConnectionNodes beat nm =
     (case beatNodes beat (nmSeq nm) (connectionNodes nm) of
        Panic \<Rightarrow> Panic
      | Ret (sq, xs) \<Rightarrow> Ret (nm\<lparr>nmSeq := sq, connectionNodes := xs\<rparr>))"

fun beatCenters :: "(u64 \<Rightarrow> bytes option) \<Rightarrow> conn_seq_gen \<Rightarrow> centers \<Rightarrow> (conn_seq_gen \<times> centers) outcome" where
  "beatCenters beat sq [] = Ret (sq, [])"
| "beatCenters beat sq ((i, c) # xs) =
     (case beatNode beat sq (nodeConn c) of
        Panic \<Rightarrow> Panic
      | Ret (sq', nc') \<Rightarrow>
          (case beatCenters beat sq' xs of Panic \<Rightarrow> Panic | Ret (sq'', ys) \<Rightarrow> Ret (sq'', (i, c\<lparr>nodeConn := nc'\<rparr>) # ys)))"

definition SendHeartbeatToMessageCenters :: "(u64 \<Rightarrow> bytes option) \<Rightarrow> node_manager \<Rightarrow> node_manager outcome" where
  "SendHeartbeatToMessageCenters beat nm =
     (case beatCenters beat (nmSeq nm) (messageCenters nm) of
        Panic \<Rightarrow> Panic
      | Ret (sq, xs) \<Rightarrow> Ret (nm\<lparr>nmSeq := sq, messageCenters := xs\<rparr>))"

definition markIfUnhealthy :: "int \<Rightarrow> int \<Rightarrow> node_connection \<Rightarrow> node_connection" where
  "markIfUnhealthy now timeout nc =
     (if \<not> IsHealthy now nc \<or> IsExpired now timeout nc then SetStatus NodeStatusUnhealthy nc else nc)"

definition CheckConnectionNodeHealth :: "int \<Rightarrow> node_manager \<Rightarrow> node_manager" where
  "CheckConnectionNodeHealth now nm =
     nm\<lparr>connectionNodes := map (\<lambda>(i, nc). (i, markIfUnhealthy now (nodeTimeout nm) nc)) (connectionNodes nm)\<rparr>"

definition CheckMessageCenterHealth :: "int \<Rightarrow> node_manager \<Rightarrow> node_manager" where
  "CheckMessageCenterHealth now nm =
     nm\<lparr>messageCenters := map (\<lambda>(i, c). (i, onNode (markIfUnhealthy now (nodeTimeout nm)) c)) (messageCenters nm)\<rparr>"

definition dead :: "int \<Rightarrow> int \<Rightarrow> node_connection \<Rightarrow> bool" where
  "dead now timeout nc \<longleftrightarrow> GetStatus nc = NodeStatusUnhealthy \<and> now - GetLastActivity nc > timeout"

fun removeNodes :: "string list \<Rightarrow> node_manager \<Rightarrow> node_manager outcome" where
  "removeNodes [] nm = Ret nm"
| "removeNodes (i # is) nm =
     (case map_of (connectionNodes nm) i of
        None \<Rightarrow> removeNodes is nm
      | Some nc \<Rightarrow> (case closeNode nc of Panic \<Rightarrow> Panic | Ret _ \<Rightarrow> removeNodes is (dropNode i nm)))"

fun removeCenters :: "string list \<Rightarrow> node_manager \<Rightarrow> node_manager outcome" where
  "removeCenters [] nm = Ret nm"
| "removeCenters (i # is) nm =
     (case map_of (messageCenters nm) i of
        None \<Rightarrow> removeCenters is (nm\<lparr>centerClients := AList.delete i (centerClients nm)\<rparr>)
      | Some c \<Rightarrow> (case closeNode (nodeConn c) of Panic \<Rightarrow> Panic | Ret _ \<Rightarrow> removeCenters is (dropCenter i nm)))"

definition CleanupUnhealthyNodes :: "int \<Rightarrow> node_manager \<Rightarrow> node_manager outcome" where
  "CleanupUnhealthyNodes now nm =
     (case removeNodes (map fst (filter (\<lambda>(_, nc). dead now (nodeTimeout nm) nc) (connectionNodes nm))) nm of
        Panic \<Rightarrow> Panic
      | Ret nm1 \<Rightarrow>
          removeCenters (map fst (filter (\<lambda>(_, c). dead now (nodeTimeout nm1) (nodeConn c)) (messageCenters nm1))) nm1)"

fun reconnectAll :: "(string \<Rightarrow> dial) \<Rightarrow> int \<Rightarrow> string list \<Rightarrow> node_manager \<Rightarrow> node_manager outcome" where
  "reconnectAll dls now [] nm = Ret nm"
| "reconnectAll dls now (addr # addrs) nm =
     (if (case map_of (messageCenters nm) addr of None \<Rightarrow> True
          | Some c \<Rightarrow> \<not> IsConnected (nodeConn c) \<or> \<not> IsHealthy now (nodeConn c))
      then case connectToMessageCenter (dls addr) now nm addr of
             Panic \<Rightarrow> Panic
           | Ret (nm', _) \<Rightarrow> reconnectAll dls now addrs nm'
      else reconnectAll dls now addrs nm)"

definition attemptReconnectMessageCenters :: "(string \<Rightarrow> dial) \<Rightarrow> int \<Rightarrow> node_manager \<Rightarrow> node_manager outcome" where
  "attemptReconnectMessageCenters dls now nm = reconnectAll dls now (messageCenterAddrs nm) nm"

section \<open>Runs\<close>

datatype nm_op =
    NmRegister string "nat option" string int
  | NmUnregister string
  | NmCloseNodes
  | NmConnect string dial
  | NmReconnect "string \<Rightarrow> dial"
  | NmCloseCenters
  | NmBeatNodes "u64 \<Rightarrow> bytes option"
  | NmBeatCenters "u64 \<Rightarrow> bytes option"
  | NmCheck
  | NmCleanup
  | NmHeartbeat string
  | NmSend string bytes
  | NmLoop string "string option"
  | NmCenterGone string
  | NmCenterBack string nat
  | NmCenterBeat string

definition onNodeID :: "string \<Rightarrow> (node_connection \<Rightarrow> node_connection) \<Rightarrow> node_manager \<Rightarrow> node_manager" where
  "onNodeID i f nm = nm\<lparr>connectionNodes := map (\<lambda>(j, nc). (j, if j = i then f nc else nc)) (connectionNodes nm)\<rparr>"

definition onCenter :: "string \<Rightarrow> (center_connection \<Rightarrow> center_connection) \<Rightarrow> node_manager \<Rightarrow> node_manager" where
  "onCenter i f nm = nm\<lparr>messageCenters := map (\<lambda>(j, c). (j, if j = i then f c else c)) (messageCenters nm)\<rparr>"

definition sendTo :: "bytes \<Rightarrow> node_connection \<Rightarrow> node_connection" where
  "sendTo d nc = (case Send d nc of Panic \<Rightarrow> nc | Ret (nc', _) \<Rightarrow> nc')"

definition loopOf :: "string option \<Rightarrow> node_connection \<Rightarrow> node_connection" where
  "loopOf w nc = (if loopAlive nc then case sendLoop w nc of None \<Rightarrow> nc | Some (nc', _) \<Rightarrow> nc' else nc)"

fun nmStep :: "node_manager \<Rightarrow> int \<times> nm_op \<Rightarrow> node_manager outcome" where
  "nmStep nm (now, NmRegister i c h p) = (case RegisterConnectionNode now nm i c h p of Panic \<Rightarrow> Panic | Ret (nm', _) \<Rightarrow> Ret nm')"
| "nmStep nm (now, NmUnregister i) = (case UnregisterConnectionNode nm i of Panic \<Rightarrow> Panic | Ret (nm', _) \<Rightarrow> Ret nm')"
| "nmStep nm (now, NmCloseNodes) = CloseAllConnectionNodes nm"
| "nmStep nm (now, NmConnect addr dl) = (case connectToMessageCenter dl now nm addr of Panic \<Rightarrow> Panic | Ret (nm', _) \<Rightarrow> Ret nm')"
| "nmStep nm (now, NmReconnect dls) = attemptReconnectMessageCenters dls now nm"
| "nmStep nm (now, NmCloseCenters) = CloseAllMessageCenters nm"
| "nmStep nm (now, NmBeatNodes b) = SendHeartbeatToConnectionNodes b nm"
| "nmStep nm (now, NmBeatCenters b) = SendHeartbeatToMessageCenters b nm"
| "nmStep nm (now, NmCheck) = Ret (CheckMessageCenterHealth now (CheckConnectionNodeHealth now nm))"
| "nmStep nm (now, NmCleanup) = CleanupUnhealthyNodes now nm"
| "nmStep nm (now, NmHeartbeat i) = Ret (onNodeID i (UpdateHeartbeat now) nm)"
| "nmStep nm (now, NmSend i d) = Ret (onNodeID i (sendTo d) nm)"
| "nmStep nm (now, NmLoop i w) = Ret (onNodeID i (loopOf w) nm)"
| "nmStep nm (now, NmCenterGone i) = Ret (onCenter i OnDisconnected nm)"
| "nmStep nm (now, NmCenterBack i c) = Ret (onCenter i (OnReconnected now (Some c)) nm)"
| "nmStep nm (now, NmCenterBeat i) = Ret (onCenter i (OnHeartbeatSent now) nm)"

text \<open>The registrations of an id that was registered already, since the last time all nodes were closed.\<close>

fun reregistered :: "node_manager \<Rightarrow> nm_op \<Rightarrow> nat \<Rightarrow> nat" where
  "reregistered nm (NmRegister i c h p) k = (if map_of (connectionNodes nm) i \<noteq> None then Suc k else k)"
| "reregistered nm NmCloseNodes k = 0"
| "reregistered nm _ k = k"

fun nmRun :: "node_manager \<times> nat \<Rightarrow> (int \<times> nm_op) list \<Rightarrow> (node_manager \<times> nat) outcome" where
  "nmRun (nm, k) [] = Ret (nm, k)"
| "nmRun (nm, k) (x # xs) =
     (case nmStep nm x of Panic \<Rightarrow> Panic | Ret nm' \<Rightarrow> nmRun (nm', reregistered nm (snd x) k) xs)"

section \<open>The counters\<close>

definition chan_ok :: "node_connection \<Rightarrow> bool" where
  "chan_ok nc \<longleftrightarrow> connected nc = (\<not> chClosed (sendBuffer nc))"

definition nodes_ok :: "nodes \<Rightarrow> bool" where
  "nodes_ok xs \<longleftrightarrow> distinct (map fst xs) \<and> (\<forall>(i, nc) \<in> set xs. nodeID nc = i \<and> chan_ok nc)"

definition centers_ok :: "centers \<Rightarrow> bool" where
  "centers_ok xs \<longleftrightarrow> distinct (map fst xs) \<and> (\<forall>(i, c) \<in> set xs. nodeID (nodeConn c) = i \<and> chan_ok (nodeConn c))"

definition nm_ok :: "node_manager \<Rightarrow> nat \<Rightarrow> bool" where
  "nm_ok nm k \<longleftrightarrow>
     nodes_ok (connectionNodes nm) \<and> centers_ok (messageCenters nm) \<and>
     fst ` set (centerClients nm) = fst ` set (messageCenters nm) \<and>
     activeConnectionNodes nm = of_nat (length (connectionNodes nm) + k) \<and>
     activeMessageCenters nm = of_nat (length (messageCenters nm))"

lemma closeNode_ok: "chan_ok nc \<Longrightarrow> \<exists>nc'. closeNode nc = Ret nc'"
  by (auto simp: chan_ok_def closeNode_def Close_def close_chan_def SetStatus_def Let_def)

lemma nodes_okD: "nodes_ok xs \<Longrightarrow> map_of xs i = Some nc \<Longrightarrow> nodeID nc = i \<and> chan_ok nc"
  and centers_okD: "centers_ok ys \<Longrightarrow> map_of ys i = Some c \<Longrightarrow> nodeID (nodeConn c) = i \<and> chan_ok (nodeConn c)"
  by (auto simp: nodes_ok_def centers_ok_def dest: map_of_SomeD)

lemma closeNodes_ok: "\<forall>nc \<in> set ncs. chan_ok nc \<Longrightarrow> closeNodes ncs = Ret ()"
proof (induction ncs)
  case (Cons nc ncs)
  then obtain nc' where "closeNode nc = Ret nc'" using closeNode_ok by auto
  with Cons show ?case by simp
qed simp

lemma delete_set: "set (AList.delete k xs) = {x \<in> set xs. fst x \<noteq> k}"
  by (auto simp: AList.delete_eq)

lemma delete_fst: "fst ` set (AList.delete k xs) = fst ` set xs - {k}"
  by (auto simp: delete_set)

lemma nodes_ok_delete: "nodes_ok xs \<Longrightarrow> nodes_ok (AList.delete i xs)"
  by (auto simp: nodes_ok_def delete_set distinct_delete)

lemma centers_ok_delete: "centers_ok xs \<Longrightarrow> centers_ok (AList.delete i xs)"
  by (auto simp: centers_ok_def delete_set distinct_delete)

lemma nodes_ok_update: "nodes_ok xs \<Longrightarrow> nodeID nc = i \<Longrightarrow> chan_ok nc \<Longrightarrow> nodes_ok (AList.update i nc xs)"
  unfolding nodes_ok_def using update_elems [of xs _ i nc] by (fastforce simp: distinct_update)

lemma centers_ok_update:
  "centers_ok xs \<Longrightarrow> nodeID (nodeConn c) = i \<Longrightarrow> chan_ok (nodeConn c) \<Longrightarrow> centers_ok (AList.update i c xs)"
  unfolding centers_ok_def using update_elems [of xs _ i c] by (fastforce simp: distinct_update)

lemma update_length_old: "map_of xs i \<noteq> None \<Longrightarrow> length (AList.update i v xs) = length xs"
  by (metis AList.update_keys length_map map_of_eq_None_iff if_P list.set_map)

lemma of_nat_Suc_minus: "(of_nat (Suc n) :: i64) - 1 = of_nat n"
  by simp

lemma dropNode_ok:
  assumes "nm_ok nm k" "map_of (connectionNodes nm) i = Some nc"
  shows "nm_ok (dropNode i nm) k"
proof -
  have d: "distinct (map fst (connectionNodes nm))" using assms(1) by (simp add: nm_ok_def nodes_ok_def)
  have l: "length (connectionNodes nm) = Suc (length (AList.delete i (connectionNodes nm)))"
    using delete_length [OF d assms(2)] by simp
  show ?thesis using assms(1) l nodes_ok_delete [of "connectionNodes nm" i] by (simp add: nm_ok_def dropNode_def)
qed

lemma dropCenter_ok:
  assumes "nm_ok nm k" "map_of (messageCenters nm) i = Some c"
  shows "nm_ok (dropCenter i nm) k"
proof -
  have d: "distinct (map fst (messageCenters nm))" using assms(1) by (simp add: nm_ok_def centers_ok_def)
  have l: "length (messageCenters nm) = Suc (length (AList.delete i (messageCenters nm)))"
    using delete_length [OF d assms(2)] by simp
  have "fst ` set (AList.delete i (centerClients nm)) = fst ` set (AList.delete i (messageCenters nm))"
    using assms(1) by (simp add: nm_ok_def delete_fst)
  then show ?thesis using assms(1) l centers_ok_delete [of "messageCenters nm" i] by (simp add: nm_ok_def dropCenter_def)
qed

lemma nm_ok_add_center:
  assumes "nm_ok nm k" "map_of (messageCenters nm) i = None" "nodeID (nodeConn c) = i" "chan_ok (nodeConn c)"
  shows "nm_ok (nm\<lparr>messageCenters := AList.update i c (messageCenters nm), centerClients := AList.update i cl (centerClients nm),
      totalMessageCenters := t, activeMessageCenters := activeMessageCenters nm + 1\<rparr>) k"
proof -
  have n: "i \<notin> fst ` set (messageCenters nm)" using assms(2) by (simp add: map_of_eq_None_iff)
  have keys: "fst ` set (AList.update i cl (centerClients nm)) = insert i (fst ` set (centerClients nm))"
    by (simp add: AList.dom_update [symmetric] flip: dom_map_of_conv_image_fst) (simp add: AList.update_conv')
  have l: "length (AList.update i c (messageCenters nm)) = Suc (length (messageCenters nm))" by (simp add: update_new [OF n])
  have k': "fst ` set (AList.update i c (messageCenters nm)) = insert i (fst ` set (messageCenters nm))" by (simp add: update_new [OF n])
  have "centers_ok (AList.update i c (messageCenters nm))"
    by (rule centers_ok_update [OF _ assms(3,4)]) (use assms(1) in \<open>simp add: nm_ok_def\<close>)
  then show ?thesis using assms(1) keys k' l by (simp add: nm_ok_def)
qed

lemma dropStale_ok:
  assumes "nm_ok nm k"
  shows "\<exists>nm' b. dropStale now nm addr = Ret (nm', b) \<and> nm_ok nm' k \<and> (\<not> b \<longrightarrow> map_of (messageCenters nm') addr = None)"
proof (cases "map_of (messageCenters nm) addr")
  case (Some c)
  have "chan_ok (nodeConn c)" using assms centers_okD [OF _ Some] by (simp add: nm_ok_def)
  then obtain nc' where "closeNode (nodeConn c) = Ret nc'" using closeNode_ok by blast
  moreover have "map_of (messageCenters (dropCenter addr nm)) addr = None" by (simp add: dropCenter_def AList.delete_conv)
  ultimately show ?thesis using Some dropCenter_ok [OF assms Some] assms
    by (cases "IsConnected (nodeConn c) \<and> IsHealthy now (nodeConn c)") (auto simp: dropStale_def)
qed (use assms in \<open>auto simp: dropStale_def\<close>)

lemma connect_ok:
  assumes "nm_ok nm k"
  shows "\<exists>nm' e. connectToMessageCenter dl now nm addr = Ret (nm', e) \<and> nm_ok nm' k"
proof -
  obtain nm1 b where s: "dropStale now nm addr = Ret (nm1, b)" "nm_ok nm1 k"
      "\<not> b \<longrightarrow> map_of (messageCenters nm1) addr = None" using dropStale_ok [OF assms] by blast
  show ?thesis
  proof (cases "b \<or> (\<exists>e. dl = Inl e) \<or> (\<exists>cl e. dl = Inr (cl, Inl e))")
    case True
    then show ?thesis using s by (cases b) (auto simp: connectToMessageCenter_def)
  next
    case False
    then obtain cl c where dl: "dl = Inr (cl, Inr c)" by (cases dl) (auto, metis sum.exhaust)
    let ?c = "onNode (\<lambda>nc. UpdateHeartbeat now (SetStatus NodeStatusHealthy nc)) (OnConnected now (Some c) (NewMessageCenterConnection now addr None))"
    have "nodeID (nodeConn ?c) = addr" "chan_ok (nodeConn ?c)"
      by (simp_all add: onNode_def OnConnected_def NewMessageCenterConnection_def NewNodeConnection_def UpdateHeartbeat_def
          SetStatus_def SetConnection_def chan_ok_def make_chan_def)
    from nm_ok_add_center [OF s(2) _ this] s(3) False s(1) dl show ?thesis by (simp add: connectToMessageCenter_def)
  qed
qed

lemma reconnectAll_ok: "nm_ok nm k \<Longrightarrow> \<exists>nm'. reconnectAll dls now addrs nm = Ret nm' \<and> nm_ok nm' k"
proof (induction addrs arbitrary: nm)
  case (Cons a addrs)
  obtain nm' e where "connectToMessageCenter (dls a) now nm a = Ret (nm', e)" "nm_ok nm' k"
    using connect_ok [OF Cons.prems] by blast
  then show ?case using Cons by simp
qed simp

lemma keeps_node:
  "chan_ok nc \<Longrightarrow> chan_ok (UpdateHeartbeat now nc) \<and> nodeID (UpdateHeartbeat now nc) = nodeID nc"
  "chan_ok nc \<Longrightarrow> chan_ok (SetStatus st nc) \<and> nodeID (SetStatus st nc) = nodeID nc"
  "chan_ok nc \<Longrightarrow> chan_ok (SetConnection c nc) \<and> nodeID (SetConnection c nc) = nodeID nc"
  "chan_ok nc \<Longrightarrow> chan_ok (markIfUnhealthy now t nc) \<and> nodeID (markIfUnhealthy now t nc) = nodeID nc"
  by (simp_all add: chan_ok_def UpdateHeartbeat_def SetStatus_def SetConnection_def markIfUnhealthy_def Let_def)

lemma Send_ok:
  assumes "chan_ok nc"
  shows "\<exists>nc' e. Send d nc = Ret (nc', e) \<and> chan_ok nc' \<and> nodeID nc' = nodeID nc"
  using assms by (auto simp: Send_def IsConnected_def trySend_def try_send_def chan_ok_def)

lemma node_keeps_send: "chan_ok nc \<Longrightarrow> chan_ok (sendTo d nc) \<and> nodeID (sendTo d nc) = nodeID nc"
  using Send_ok [of nc d] by (auto simp: sendTo_def)

lemma SendSync_nodeID: "nodeID (fst (SendSync w d nc)) = nodeID nc"
  by (auto simp: SendSync_def split: option.splits)

lemma sendLoop_nodeID:
  assumes "sendLoop w nc = Some (nc', ds)"
  shows "nodeID nc' = nodeID nc"
proof -
  obtain ch v where r: "receive (sendBuffer nc) = Some (ch, v)" using assms by (auto simp: sendLoop_def split: option.splits)
  show ?thesis
  proof (cases v)
    case None
    then show ?thesis using assms r by (auto simp: sendLoop_def)
  next
    case (Some d)
    obtain nc2 e sent where s: "SendSync w d (nc\<lparr>sendBuffer := ch\<rparr>) = (nc2, e, sent)" by (rule prod_cases3)
    have "nodeID nc2 = nodeID nc" using SendSync_nodeID [of w d "nc\<lparr>sendBuffer := ch\<rparr>"] s by simp
    then show ?thesis using assms r s Some
      by (cases e) (auto simp: sendLoop_def SetStatus_def Let_def split: if_splits)
  qed
qed

lemma receive_closed: "receive ch = Some (ch', v) \<Longrightarrow> chClosed ch' = chClosed ch"
  by (auto simp: receive_def split: list.splits if_splits)

lemma keeps_loop:
  assumes "chan_ok nc"
  shows "chan_ok (loopOf w nc) \<and> nodeID (loopOf w nc) = nodeID nc"
proof (cases "loopAlive nc \<and> sendLoop w nc \<noteq> None")
  case True
  then obtain nc' ds where l: "sendLoop w nc = Some (nc', ds)" "loopAlive nc" by auto
  obtain ch v where "receive (sendBuffer nc) = Some (ch, v)" "sendBuffer nc' = ch" "connected nc' = connected nc"
    using sendLoop_law [OF l(2,1)] by blast
  then have "chan_ok nc'" using assms receive_closed [of "sendBuffer nc" ch v] by (simp add: chan_ok_def)
  then show ?thesis using l sendLoop_nodeID [OF l(1)] by (simp add: loopOf_def)
next
  case False
  then have "loopOf w nc = nc" by (auto simp: loopOf_def split: option.splits)
  then show ?thesis using assms by simp
qed

lemma beatNode_ok:
  assumes "chan_ok nc"
  shows "\<exists>sq' nc'. beatNode beat sq nc = Ret (sq', nc') \<and> chan_ok nc' \<and> nodeID nc' = nodeID nc"
proof -
  obtain sq' s where q: "SeqNext sq = (sq', s)" by (rule prod.exhaust)
  show ?thesis
  proof (cases "IsConnected nc \<and> beat s \<noteq> None")
    case True
    then obtain d where d: "beat s = Some d" by blast
    obtain nc' e where "Send d nc = Ret (nc', e)" "chan_ok nc'" "nodeID nc' = nodeID nc" using Send_ok [OF assms] by blast
    then show ?thesis using True d q keeps_node(2) by (cases e) (simp_all add: beatNode_def)
  next
    case False
    then show ?thesis using assms q by (cases "beat s") (auto simp: beatNode_def)
  qed
qed

lemma beatNodes_ok: "\<forall>(i, nc) \<in> set xs. nodeID nc = i \<and> chan_ok nc \<Longrightarrow>
    \<exists>sq' ys. beatNodes beat sq xs = Ret (sq', ys) \<and> map fst ys = map fst xs \<and> (\<forall>(i, nc) \<in> set ys. nodeID nc = i \<and> chan_ok nc)"
proof (induction xs arbitrary: sq)
  case (Cons x xs)
  obtain i nc where x: "x = (i, nc)" by (cases x)
  with Cons.prems have "chan_ok nc" "nodeID nc = i" by auto
  then obtain sq1 nc1 where b: "beatNode beat sq nc = Ret (sq1, nc1)" "chan_ok nc1" "nodeID nc1 = i" using beatNode_ok by blast
  have "\<forall>(i, nc) \<in> set xs. nodeID nc = i \<and> chan_ok nc" using Cons.prems by simp
  from Cons.IH [OF this] obtain sq2 ys where "beatNodes beat sq1 xs = Ret (sq2, ys)" "map fst ys = map fst xs"
      "\<forall>(i, nc) \<in> set ys. nodeID nc = i \<and> chan_ok nc" by blast
  then show ?case using x b by simp
qed simp

lemma beatCenters_ok: "\<forall>(i, c) \<in> set xs. nodeID (nodeConn c) = i \<and> chan_ok (nodeConn c) \<Longrightarrow>
    \<exists>sq' ys. beatCenters beat sq xs = Ret (sq', ys) \<and> map fst ys = map fst xs \<and>
      (\<forall>(i, c) \<in> set ys. nodeID (nodeConn c) = i \<and> chan_ok (nodeConn c))"
proof (induction xs arbitrary: sq)
  case (Cons x xs)
  obtain i c where x: "x = (i, c)" by (cases x)
  with Cons.prems have "chan_ok (nodeConn c)" "nodeID (nodeConn c) = i" by auto
  then obtain sq1 nc1 where b: "beatNode beat sq (nodeConn c) = Ret (sq1, nc1)" "chan_ok nc1" "nodeID nc1 = i"
    using beatNode_ok by blast
  have "\<forall>(i, c) \<in> set xs. nodeID (nodeConn c) = i \<and> chan_ok (nodeConn c)" using Cons.prems by simp
  from Cons.IH [OF this] obtain sq2 ys where "beatCenters beat sq1 xs = Ret (sq2, ys)" "map fst ys = map fst xs"
      "\<forall>(i, c) \<in> set ys. nodeID (nodeConn c) = i \<and> chan_ok (nodeConn c)" by blast
  then show ?case using x b by simp
qed simp

lemma keys_length: "map fst ys = map fst xs \<Longrightarrow> length ys = length xs \<and> fst ` set ys = fst ` set xs"
  by (metis length_map list.set_map)

lemma nm_ok_nodes:
  assumes "nm_ok nm k" "map fst ys = map fst (connectionNodes nm)" "\<forall>(i, nc) \<in> set ys. nodeID nc = i \<and> chan_ok nc"
  shows "nm_ok (nm\<lparr>connectionNodes := ys\<rparr>) k"
  using assms keys_length [OF assms(2)] by (simp add: nm_ok_def nodes_ok_def)

lemma nm_ok_centers:
  assumes "nm_ok nm k" "map fst ys = map fst (messageCenters nm)"
    "\<forall>(i, c) \<in> set ys. nodeID (nodeConn c) = i \<and> chan_ok (nodeConn c)"
  shows "nm_ok (nm\<lparr>messageCenters := ys\<rparr>) k"
  using assms keys_length [OF assms(2)] by (simp add: nm_ok_def centers_ok_def)

lemma nm_ok_seq: "nm_ok nm k \<Longrightarrow> nm_ok (nm\<lparr>nmSeq := sq\<rparr>) k"
  by (simp add: nm_ok_def)

lemma onNodeID_ok:
  assumes "nm_ok nm k" "\<And>nc. chan_ok nc \<Longrightarrow> chan_ok (f nc) \<and> nodeID (f nc) = nodeID nc"
  shows "nm_ok (onNodeID i f nm) k"
  unfolding onNodeID_def
  by (rule nm_ok_nodes [OF assms(1)]) (use assms in \<open>auto simp: nm_ok_def nodes_ok_def\<close>)

lemma onCenter_ok:
  assumes "nm_ok nm k" "\<And>nc. chan_ok nc \<Longrightarrow> chan_ok (f nc) \<and> nodeID (f nc) = nodeID nc"
  shows "nm_ok (onCenter i (onNode f) nm) k"
  unfolding onCenter_def
  by (rule nm_ok_centers [OF assms(1)]) (use assms in \<open>auto simp: nm_ok_def centers_ok_def onNode_def\<close>)

lemma check_ok: "nm_ok nm k \<Longrightarrow> nm_ok (CheckMessageCenterHealth now (CheckConnectionNodeHealth now nm)) k"
proof -
  assume ok: "nm_ok nm k"
  have "nm_ok (CheckConnectionNodeHealth now nm) k" unfolding CheckConnectionNodeHealth_def
    by (rule nm_ok_nodes [OF ok]) (use ok keeps_node(4) in \<open>auto simp: nm_ok_def nodes_ok_def\<close>)
  note ok1 = this
  show ?thesis unfolding CheckMessageCenterHealth_def
    by (rule nm_ok_centers [OF ok1]) (use ok1 keeps_node(4) in \<open>auto simp: nm_ok_def centers_ok_def onNode_def\<close>)
qed

lemma removeNodes_ok: "nm_ok nm k \<Longrightarrow> \<exists>nm'. removeNodes is nm = Ret nm' \<and> nm_ok nm' k"
proof (induction "is" arbitrary: nm)
  case (Cons i "is")
  show ?case
  proof (cases "map_of (connectionNodes nm) i")
    case (Some nc)
    then have "chan_ok nc" using Cons.prems nodes_okD [OF _ Some] by (simp add: nm_ok_def)
    then obtain nc' where "closeNode nc = Ret nc'" using closeNode_ok by blast
    then show ?thesis using Some Cons.IH [OF dropNode_ok [OF Cons.prems Some]] by simp
  qed (use Cons in simp)
qed simp

lemma removeCenters_ok: "nm_ok nm k \<Longrightarrow> \<exists>nm'. removeCenters is nm = Ret nm' \<and> nm_ok nm' k"
proof (induction "is" arbitrary: nm)
  case (Cons i "is")
  show ?case
  proof (cases "map_of (messageCenters nm) i")
    case None
    then have "i \<notin> fst ` set (centerClients nm)" using Cons.prems by (simp add: nm_ok_def map_of_eq_None_iff)
    then have "fst ` set (AList.delete i (centerClients nm)) = fst ` set (centerClients nm)" by (simp add: delete_fst)
    then have "nm_ok (nm\<lparr>centerClients := AList.delete i (centerClients nm)\<rparr>) k" using Cons.prems by (simp add: nm_ok_def)
    then show ?thesis using None Cons.IH by simp
  next
    case (Some c)
    then have "chan_ok (nodeConn c)" using Cons.prems centers_okD [OF _ Some] by (simp add: nm_ok_def)
    then obtain nc' where "closeNode (nodeConn c) = Ret nc'" using closeNode_ok by blast
    then show ?thesis using Some Cons.IH [OF dropCenter_ok [OF Cons.prems Some]] by simp
  qed
qed simp

lemma Register_ok:
  assumes "nm_ok nm k"
  shows "\<exists>nm' nc. RegisterConnectionNode now nm i c h p = Ret (nm', nc) \<and> nm_ok nm' (reregistered nm (NmRegister i c h p) k)"
proof -
  let ?nc = "SetStatus NodeStatusHealthy (SetPort p (SetHost h (NewNodeConnection now i NodeTypeConnection c)))"
  have n: "nodeID ?nc = i" "chan_ok ?nc"
    by (simp_all add: SetStatus_def SetPort_def SetHost_def NewNodeConnection_def chan_ok_def make_chan_def)
  show ?thesis
  proof (cases "map_of (connectionNodes nm) i")
    case None
    then have "i \<notin> fst ` set (connectionNodes nm)" by (simp add: map_of_eq_None_iff)
    note u = update_new [OF this]
    have "nodes_ok (AList.update i ?nc (connectionNodes nm))"
      by (rule nodes_ok_update [OF _ n]) (use assms in \<open>simp add: nm_ok_def\<close>)
    moreover have "length (AList.update i ?nc (connectionNodes nm)) = Suc (length (connectionNodes nm))" by (simp add: u)
    ultimately show ?thesis using None assms by (simp add: RegisterConnectionNode_def nm_ok_def Let_def)
  next
    case (Some old)
    then have "chan_ok old" using assms nodes_okD [OF _ Some] by (simp add: nm_ok_def)
    then obtain old' where "closeNode old = Ret old'" using closeNode_ok by blast
    moreover have "length (AList.update i ?nc (connectionNodes nm)) = length (connectionNodes nm)"
      by (rule update_length_old) (simp add: Some)
    ultimately show ?thesis using Some assms nodes_ok_update [OF _ n] by (simp add: RegisterConnectionNode_def nm_ok_def Let_def)
  qed
qed

lemma nmStep_ok:
  assumes ok: "nm_ok nm k"
  shows "\<exists>nm'. nmStep nm (now, x) = Ret nm' \<and> nm_ok nm' (reregistered nm x k)"
proof (cases x)
  case (NmRegister i c h p)
  then show ?thesis using Register_ok [OF ok, of now i c h p] by auto
next
  case (NmUnregister i)
  show ?thesis
  proof (cases "map_of (connectionNodes nm) i")
    case (Some nc)
    then have "chan_ok nc" using ok nodes_okD [OF _ Some] by (simp add: nm_ok_def)
    then obtain nc' where "closeNode nc = Ret nc'" using closeNode_ok by blast
    then show ?thesis using NmUnregister Some dropNode_ok [OF ok Some] by (simp add: UnregisterConnectionNode_def)
  qed (use ok NmUnregister in \<open>simp add: UnregisterConnectionNode_def\<close>)
next
  case NmCloseNodes
  have "closeNodes (map snd (connectionNodes nm)) = Ret ()" by (rule closeNodes_ok) (use ok in \<open>auto simp: nm_ok_def nodes_ok_def\<close>)
  then show ?thesis using NmCloseNodes ok by (simp add: CloseAllConnectionNodes_def nm_ok_def nodes_ok_def)
next
  case (NmConnect addr dl)
  then show ?thesis using connect_ok [OF ok, of dl now addr] by auto
next
  case (NmReconnect dls)
  then show ?thesis using reconnectAll_ok [OF ok] by (simp add: attemptReconnectMessageCenters_def)
next
  case NmCloseCenters
  have "closeNodes (map (\<lambda>x. nodeConn (snd x)) (messageCenters nm)) = Ret ()"
    by (rule closeNodes_ok) (use ok in \<open>auto simp: nm_ok_def centers_ok_def\<close>)
  then show ?thesis using NmCloseCenters ok by (simp add: CloseAllMessageCenters_def nm_ok_def centers_ok_def)
next
  case (NmBeatNodes b)
  have "\<forall>(i, nc) \<in> set (connectionNodes nm). nodeID nc = i \<and> chan_ok nc" using ok by (simp add: nm_ok_def nodes_ok_def)
  from beatNodes_ok [OF this] obtain sq ys where b: "beatNodes b (nmSeq nm) (connectionNodes nm) = Ret (sq, ys)"
    "map fst ys = map fst (connectionNodes nm)" "\<forall>(i, nc) \<in> set ys. nodeID nc = i \<and> chan_ok nc" by blast
  then show ?thesis using NmBeatNodes nm_ok_nodes [OF nm_ok_seq [OF ok, of sq], of ys] by (simp add: SendHeartbeatToConnectionNodes_def)
next
  case (NmBeatCenters b)
  have "\<forall>(i, c) \<in> set (messageCenters nm). nodeID (nodeConn c) = i \<and> chan_ok (nodeConn c)" using ok by (simp add: nm_ok_def centers_ok_def)
  from beatCenters_ok [OF this] obtain sq ys where b: "beatCenters b (nmSeq nm) (messageCenters nm) = Ret (sq, ys)"
    "map fst ys = map fst (messageCenters nm)" "\<forall>(i, c) \<in> set ys. nodeID (nodeConn c) = i \<and> chan_ok (nodeConn c)" by blast
  then show ?thesis using NmBeatCenters nm_ok_centers [OF nm_ok_seq [OF ok, of sq], of ys] by (simp add: SendHeartbeatToMessageCenters_def)
next
  case NmCheck
  then show ?thesis using check_ok [OF ok] by simp
next
  case NmCleanup
  obtain nm1 where n1: "removeNodes (map fst (filter (\<lambda>(_, nc). dead now (nodeTimeout nm) nc) (connectionNodes nm))) nm = Ret nm1" "nm_ok nm1 k"
    using removeNodes_ok [OF ok] by blast
  then show ?thesis using NmCleanup removeCenters_ok [OF n1(2)] by (simp add: CleanupUnhealthyNodes_def)
next
  case (NmHeartbeat i)
  then show ?thesis using onNodeID_ok [OF ok keeps_node(1)] by simp
next
  case (NmSend i d)
  then show ?thesis using onNodeID_ok [OF ok node_keeps_send] by simp
next
  case (NmLoop i w)
  then show ?thesis using onNodeID_ok [OF ok keeps_loop] by simp
next
  case (NmCenterGone i)
  then show ?thesis using onCenter_ok [OF ok, of "\<lambda>nc. SetStatus NodeStatusDisconnected (SetConnection None nc)"] keeps_node
    by (simp add: OnDisconnected_def)
next
  case (NmCenterBack i c)
  then show ?thesis using onCenter_ok [OF ok, of "\<lambda>nc. UpdateHeartbeat now (SetStatus NodeStatusHealthy (SetConnection (Some c) nc))"] keeps_node
    by (simp add: OnReconnected_def)
next
  case (NmCenterBeat i)
  then show ?thesis using onCenter_ok [OF ok keeps_node(1)] by (simp add: OnHeartbeatSent_def)
qed

lemma nmRun_ok: "nm_ok nm k \<Longrightarrow> \<exists>nm' k'. nmRun (nm, k) xs = Ret (nm', k') \<and> nm_ok nm' k'"
proof (induction xs arbitrary: nm k)
  case (Cons x xs)
  obtain now op where x: "x = (now, op)" by (cases x)
  obtain nm1 where s: "nmStep nm (now, op) = Ret nm1" "nm_ok nm1 (reregistered nm op k)" using nmStep_ok [OF Cons.prems] by blast
  show ?case using Cons.IH [OF s(2)] s(1) x by simp
qed simp

text \<open>Whatever the registrations, disconnects, heartbeats, health checks, clean-ups and attempts to connect,
  nothing panics and the maps are keyed by the ids of what they hold; every message center has its client and
  the other way round, and their counter is right.  The counter of connection nodes is not: it is too high
  by exactly the number of times an id was registered while it was registered already.\<close>

theorem node_counters:
  "\<exists>nm k. nmRun (NewNodeManager addrs timeout, 0) xs = Ret (nm, k) \<and>
     activeMessageCenters nm = of_nat (GetMessageCenterCount nm) \<and>
     activeConnectionNodes nm = of_nat (GetConnectionNodeCount nm + k) \<and>
     fst ` set (centerClients nm) = fst ` set (messageCenters nm) \<and>
     distinct (map fst (connectionNodes nm)) \<and> distinct (map fst (messageCenters nm)) \<and>
     (\<forall>(i, nc) \<in> set (connectionNodes nm). GetID nc = i)"
proof -
  have "nm_ok (NewNodeManager addrs timeout) 0" by (simp add: nm_ok_def NewNodeManager_def nodes_ok_def centers_ok_def)
  from nmRun_ok [OF this, of xs] obtain nm k where "nmRun (NewNodeManager addrs timeout, 0) xs = Ret (nm, k)" "nm_ok nm k" by blast
  then show ?thesis by (intro exI [of _ nm] exI [of _ k])
      (auto simp: nm_ok_def nodes_ok_def centers_ok_def GetID_def GetMessageCenterCount_def GetConnectionNodeCount_def)
qed

theorem node_counters_witness:
  "\<exists>nm. nmRun (NewNodeManager [] 0, 0) [(0, NmRegister ''n'' None ''h'' 1), (5, NmRegister ''n'' None ''h'' 1)] = Ret (nm, 1) \<and>
     activeConnectionNodes nm = 2 \<and> GetConnectionNodeCount nm = 1"
proof -
  let ?xs = "[(0, NmRegister ''n'' None ''h'' 1), (5, NmRegister ''n'' None ''h'' 1)]"
  obtain nm k where r: "nmRun (NewNodeManager [] 0, 0) ?xs = Ret (nm, k)" "activeConnectionNodes nm = of_nat (GetConnectionNodeCount nm + k)"
    using node_counters [of "[]" 0 ?xs] by blast
  have "nmRun (NewNodeManager [] 0, 0) ?xs = Ret (nm, k) \<Longrightarrow> k = 1 \<and> length (connectionNodes nm) = 1"
    by (auto simp: RegisterConnectionNode_def NewNodeManager_def Let_def split: outcome.splits)
  with r show ?thesis by (auto simp: GetConnectionNodeCount_def)
qed

end
