(* ===== verification/LoadBalancer.thy ===== *)
theory LoadBalancer
  imports NodeManager
begin

unbundle bit_operations_syntax

text \<open>
  \<^verbatim>\<open>router/load_balancer.go\<close>: which connection node or message center gets a message.  \<open>ord\<close> is the order
  in which Go walks over the map of the nodes (it may differ from call to call), \<open>score\<close> the load score, a
  product of floating-point numbers that is only reported.  \<^verbatim>\<open>hash/crc32\<close>, \<^verbatim>\<open>sort.Slice\<close> and
  \<^verbatim>\<open>sort.Search\<close> are modelled.
\<close>

section \<open>CRC-32, sorting and searching\<close>

definition crc_bit :: "u32 \<Rightarrow> u32" where
  "crc_bit c = (if bit c 0 then drop_bit 1 c XOR 0xEDB88320 else drop_bit 1 c)"

definition crc_byte :: "u32 \<Rightarrow> u8 \<Rightarrow> u32" where
  "crc_byte c b = (crc_bit ^^ 8) (c XOR ucast b)"

definition ChecksumIEEE :: "bytes \<Rightarrow> u32" where
  "ChecksumIEEE bs = NOT (foldl crc_byte (NOT 0) bs)"

lemma crc32_check: "ChecksumIEEE (go_bytes ''1'') = 0x83DCEFB7"
  by code_simp

text \<open>\<^verbatim>\<open>sort.Search\<close>: binary search for the least index in \<open>[i, j)\<close> where \<open>f\<close> holds.\<close>

function search_loop :: "(nat \<Rightarrow> bool) \<Rightarrow> nat \<Rightarrow> nat \<Rightarrow> nat" where
  "search_loop f i j =
     (if i < j
      then let h = (i + j) div 2 in if \<not> f h then search_loop f (h + 1) j else search_loop f i h
      else i)"
  by pat_completeness auto
termination by (relation "measure (\<lambda>(f, i, j). j - i)") auto

declare search_loop.simps [simp del]

definition Search :: "nat \<Rightarrow> (nat \<Rightarrow> bool) \<Rightarrow> nat" where
  "Search n f = search_loop f 0 n"

lemma search_loop_spec:
  assumes "\<And>a b. a \<le> b \<Longrightarrow> b < n \<Longrightarrow> f a \<Longrightarrow> f b" "i \<le> j" "\<And>a. a < i \<Longrightarrow> \<not> f a" "j \<le> n"
  shows "i \<le> search_loop f i j \<and> search_loop f i j \<le> j \<and> (\<forall>a < search_loop f i j. \<not> f a) \<and>
    (search_loop f i j < j \<longrightarrow> f (search_loop f i j))"
  using assms(2-4)
proof (induction "j - i" arbitrary: i j rule: less_induct)
  case less
  show ?case
  proof (cases "i < j")
    case True
    let ?h = "(i + j) div 2"
    have h: "i \<le> ?h" "?h < j" using True by auto
    show ?thesis
    proof (cases "f ?h")
      case True
      then have "search_loop f i j = search_loop f i ?h" using h by (subst search_loop.simps) simp
      moreover have "?h - i < j - i" using h by linarith
      note less.hyps [OF this h(1) less.prems(2)]
      ultimately show ?thesis using h True less.prems(3) by (cases "search_loop f i ?h = ?h") auto
    next
      case False
      then have e: "search_loop f i j = search_loop f (?h + 1) j" using h by (subst search_loop.simps) simp
      have "\<not> f a" if "a < ?h + 1" for a
        using assms(1) [of a ?h] False that h less.prems(3) by auto
      moreover have "j - (?h + 1) < j - i" using h by linarith
      ultimately show ?thesis using less.hyps [of j "?h + 1"] h e less.prems(3) by auto
    qed
  next
    case False
    then have "search_loop f i j = i" by (subst search_loop.simps) simp
    then show ?thesis using less.prems False by auto
  qed
qed

lemma Search_spec:
  assumes "\<And>a b. a \<le> b \<Longrightarrow> b < n \<Longrightarrow> f a \<Longrightarrow> f b"
  shows "Search n f \<le> n" "a < Search n f \<Longrightarrow> \<not> f a" "Search n f < n \<Longrightarrow> f (Search n f)"
  using search_loop_spec [of n f 0 n] assms by (auto simp: Search_def)

section \<open>State\<close>

record hash_ring =
  ringNodes :: "(u32 \<times> string) list"
  keys :: "u32 list"
  replicas :: nat

record load_balancer =
  strategy :: string
  roundRobinIndex :: i32
  hashRing :: hash_ring
  decisions :: i64
  nodeSwitches :: i64

definition NewConsistentHashRing :: "nat \<Rightarrow> hash_ring" where
  "NewConsistentHashRing r = \<lparr>ringNodes = [], keys = [], replicas = r\<rparr>"

definition NewLoadBalancer :: "string \<Rightarrow> load_balancer" where
  "NewLoadBalancer st = \<lparr>strategy = st, roundRobinIndex = 0, hashRing = NewConsistentHashRing 100, decisions = 0, nodeSwitches = 0\<rparr>"

section \<open>The ring\<close>

definition hash :: "string \<Rightarrow> u32" where
  "hash key = ChecksumIEEE (go_bytes key)"

definition virtualKey :: "string \<Rightarrow> nat \<Rightarrow> string" where
  "virtualKey nID i = nID @ ''#'' @ dec_string i"

fun addReplicas :: "string \<Rightarrow> nat list \<Rightarrow> hash_ring \<Rightarrow> hash_ring" where
  "addReplicas nID [] r = r"
| "addReplicas nID (i # is) r =
     (let h = hash (virtualKey nID i)
      in addReplicas nID is (r\<lparr>ringNodes := AList.update h nID (ringNodes r), keys := keys r @ [h]\<rparr>))"

definition addNodeToRing :: "string \<Rightarrow> hash_ring \<Rightarrow> hash_ring" where
  "addNodeToRing nID r = addReplicas nID [0..<replicas r] r"

fun removeReplicas :: "string \<Rightarrow> nat list \<Rightarrow> hash_ring \<Rightarrow> hash_ring" where
  "removeReplicas nID [] r = r"
| "removeReplicas nID (i # is) r =
     (let h = hash (virtualKey nID i)
      in removeReplicas nID is (r\<lparr>ringNodes := AList.delete h (ringNodes r), keys := remove1 h (keys r)\<rparr>))"

definition removeNodeFromRing :: "string \<Rightarrow> hash_ring \<Rightarrow> hash_ring" where
  "removeNodeFromRing nID r = removeReplicas nID [0..<replicas r] r"

definition rebuildRing :: "string list \<Rightarrow> hash_ring \<Rightarrow> hash_ring" where
  "rebuildRing ids r =
     (let r1 = fold addNodeToRing ids (r\<lparr>ringNodes := [], keys := []\<rparr>)
      in r1\<lparr>keys := sort (keys r1)\<rparr>)"

definition updateHashRing :: "(nodes \<Rightarrow> nodes) \<Rightarrow> int \<Rightarrow> node_manager \<Rightarrow> load_balancer \<Rightarrow> load_balancer" where
  "updateHashRing ord now nm lb =
     lb\<lparr>hashRing := rebuildRing (map GetID (GetHealthyConnectionNodes ord now nm)) (hashRing lb)\<rparr>"

definition Start :: "(nodes \<Rightarrow> nodes) \<Rightarrow> int \<Rightarrow> node_manager \<Rightarrow> load_balancer \<Rightarrow> load_balancer" where
  "Start ord now nm lb = (if strategy lb = ''consistent_hash'' then updateHashRing ord now nm lb else lb)"

definition UpdateNodeHealth :: "(nodes \<Rightarrow> nodes) \<Rightarrow> int \<Rightarrow> node_manager \<Rightarrow> load_balancer \<Rightarrow> load_balancer" where
  "UpdateNodeHealth ord now nm lb = (if strategy lb = ''consistent_hash'' then updateHashRing ord now nm lb else lb)"

section \<open>Selection\<close>

text \<open>Go's \<^verbatim>\<open>%\<close> truncates: a negative index has a negative (or zero) remainder.\<close>

definition goRem :: "int \<Rightarrow> int \<Rightarrow> int" where
  "goRem a b = (if a < 0 then - ((- a) mod b) else a mod b)"

definition pickRoundRobin :: "load_balancer \<Rightarrow> 'a list \<Rightarrow> (load_balancer \<times> 'a option) outcome" where
  "pickRoundRobin lb xs =
     (if xs = [] then Ret (lb, None)
      else let lb1 = lb\<lparr>roundRobinIndex := roundRobinIndex lb + 1\<rparr>;
               i = goRem (sint (roundRobinIndex lb1)) (int (length xs))
           in if i < 0 then Panic else Ret (lb1, Some (xs ! nat i)))"

definition selectByRoundRobin :: "load_balancer \<Rightarrow> node_connection list \<Rightarrow> (load_balancer \<times> node_connection option) outcome" where
  "selectByRoundRobin = pickRoundRobin"

definition selectMessageCenterByRoundRobin :: "load_balancer \<Rightarrow> center_connection list
    \<Rightarrow> (load_balancer \<times> center_connection option) outcome" where
  "selectMessageCenterByRoundRobin = pickRoundRobin"

fun leastLoop :: "('a \<Rightarrow> int) \<Rightarrow> 'a list \<Rightarrow> int \<Rightarrow> 'a option \<Rightarrow> 'a option" where
  "leastLoop load [] least best = best"
| "leastLoop load (x # xs) least best =
     (if load x < least then leastLoop load xs (load x) (Some x) else leastLoop load xs least best)"

definition selectByLeastConnections :: "node_connection list \<Rightarrow> node_connection option" where
  "selectByLeastConnections xs = leastLoop (\<lambda>nc. sint (GetActiveConnections nc)) xs (2 ^ 31 - 1) None"

definition selectMessageCenterByLeastConnections :: "center_connection list \<Rightarrow> center_connection option" where
  "selectMessageCenterByLeastConnections xs = leastLoop (\<lambda>c. sint (GetQueueDepth c)) xs (2 ^ 63 - 1) None"

definition ringLookup :: "hash_ring \<Rightarrow> u32 \<Rightarrow> string" where
  "ringLookup r h =
     (let idx = Search (length (keys r)) (\<lambda>i. keys r ! i \<ge> h);
          idx1 = (if idx = length (keys r) then 0 else idx)
      in case map_of (ringNodes r) (keys r ! idx1) of None \<Rightarrow> [] | Some n \<Rightarrow> n)"

definition selectByConsistentHash :: "load_balancer \<Rightarrow> node_connection list \<Rightarrow> string
    \<Rightarrow> (load_balancer \<times> node_connection option) outcome" where
  "selectByConsistentHash lb xs key =
     (if xs = [] then Ret (lb, None)
      else if keys (hashRing lb) = [] then selectByRoundRobin lb xs
      else case find (\<lambda>nc. GetID nc = ringLookup (hashRing lb) (hash key)) xs of
             Some nc \<Rightarrow> Ret (lb, Some nc)
           | None \<Rightarrow> selectByRoundRobin lb xs)"

definition SelectConnectionNode :: "(nodes \<Rightarrow> nodes) \<Rightarrow> int \<Rightarrow> node_manager \<Rightarrow> load_balancer \<Rightarrow> string
    \<Rightarrow> (load_balancer \<times> node_connection option) outcome" where
  "SelectConnectionNode ord now nm lb key =
     (let lb1 = lb\<lparr>decisions := decisions lb + 1\<rparr>;
          xs = GetHealthyConnectionNodes ord now nm
      in if xs = [] then Ret (lb1, None)
         else if strategy lb1 = ''round_robin'' then selectByRoundRobin lb1 xs
         else if strategy lb1 = ''least_connections'' then Ret (lb1, selectByLeastConnections xs)
         else if strategy lb1 = ''consistent_hash'' then selectByConsistentHash lb1 xs key
         else selectByRoundRobin lb1 xs)"

definition SelectMessageCenter :: "(centers \<Rightarrow> centers) \<Rightarrow> int \<Rightarrow> node_manager \<Rightarrow> load_balancer
    \<Rightarrow> (load_balancer \<times> center_connection option) outcome" where
  "SelectMessageCenter ord now nm lb =
     (let lb1 = lb\<lparr>decisions := decisions lb + 1\<rparr>;
          xs = GetHealthyMessageCenters ord now nm
      in if xs = [] then Ret (lb1, None)
         else if strategy lb1 = ''least_connections'' then Ret (lb1, selectMessageCenterByLeastConnections xs)
         else selectMessageCenterByRoundRobin lb1 xs)"

definition SelectNodeForRoom :: "(nodes \<Rightarrow> nodes) \<Rightarrow> int \<Rightarrow> node_manager \<Rightarrow> load_balancer \<Rightarrow> u64
    \<Rightarrow> (load_balancer \<times> node_connection option) outcome" where
  "SelectNodeForRoom ord now nm lb room = SelectConnectionNode ord now nm lb (''room_'' @ dec_string (unat room))"

definition SelectNodeForUser :: "(nodes \<Rightarrow> nodes) \<Rightarrow> int \<Rightarrow> node_manager \<Rightarrow> load_balancer \<Rightarrow> u32
    \<Rightarrow> (load_balancer \<times> node_connection option) outcome" where
  "SelectNodeForUser ord now nm lb user = SelectConnectionNode ord now nm lb (''user_'' @ dec_string (unat user))"

section \<open>Strategy and reports\<close>

definition validStrategies :: "string list" where
  "validStrategies = [''round_robin'', ''least_connections'', ''consistent_hash'']"

definition SetStrategy :: "(nodes \<Rightarrow> nodes) \<Rightarrow> int \<Rightarrow> node_manager \<Rightarrow> load_balancer \<Rightarrow> string \<Rightarrow> load_balancer \<times> string option" where
  "SetStrategy ord now nm lb st =
     (if st \<notin> set validStrategies then (lb, Some (''invalid load balance strategy: '' @ st))
      else let lb1 = lb\<lparr>strategy := st\<rparr>;
               lb2 = (if st = ''consistent_hash'' \<and> strategy lb \<noteq> ''consistent_hash'' then updateHashRing ord now nm lb1 else lb1)
           in (lb2\<lparr>nodeSwitches := nodeSwitches lb2 + 1\<rparr>, None))"

definition Rebalance :: "(nodes \<Rightarrow> nodes) \<Rightarrow> int \<Rightarrow> node_manager \<Rightarrow> load_balancer \<Rightarrow> load_balancer" where
  "Rebalance ord now nm lb =
     (let lb1 = (if strategy lb = ''consistent_hash'' then updateHashRing ord now nm lb else lb)
      in lb1\<lparr>roundRobinIndex := 0\<rparr>)"

record node_load =
  nlID :: string
  nlActive :: i32
  nlCpu :: u64
  nlMemory :: u64
  nlScore :: u64
  nlHealthy :: bool

definition GetNodeLoad :: "(i32 \<times> u64 \<times> u64 \<Rightarrow> u64) \<Rightarrow> int \<Rightarrow> node_manager \<Rightarrow> string \<Rightarrow> node_load option" where
  "GetNodeLoad score now nm nID =
     (case GetConnectionNode nm nID of
        None \<Rightarrow> None
      | Some nc \<Rightarrow>
          (case GetLoadInfo nc of (a, cpu, mem) \<Rightarrow>
             Some \<lparr>nlID = nID, nlActive = a, nlCpu = cpu, nlMemory = mem, nlScore = score (GetLoadInfo nc),
                   nlHealthy = IsHealthy now nc\<rparr>))"

definition GetAllNodeLoads :: "(i32 \<times> u64 \<times> u64 \<Rightarrow> u64) \<Rightarrow> (nodes \<Rightarrow> nodes) \<Rightarrow> int \<Rightarrow> node_manager \<Rightarrow> node_load option list" where
  "GetAllNodeLoads score ord now nm = map (\<lambda>nc. GetNodeLoad score now nm (GetID nc)) (GetAllConnectionNodes ord nm)"

record balance_stats =
  bsStrategy :: string
  bsDecisions :: i64
  bsSwitches :: i64
  bsHealthyNodes :: nat
  bsHealthyCenters :: nat
  bsRing :: "(nat \<times> nat) option"

definition GetLoadBalanceStats :: "int \<Rightarrow> node_manager \<Rightarrow> load_balancer \<Rightarrow> balance_stats" where
  "GetLoadBalanceStats now nm lb =
     \<lparr>bsStrategy = strategy lb, bsDecisions = decisions lb, bsSwitches = nodeSwitches lb,
      bsHealthyNodes = length (GetHealthyConnectionNodes id now nm), bsHealthyCenters = length (GetHealthyMessageCenters id now nm),
      bsRing = (if strategy lb = ''consistent_hash'' then Some (length (keys (hashRing lb)), length (ringNodes (hashRing lb))) else None)\<rparr>"

section \<open>The ring is consistent\<close>

text \<open>The virtual keys of a list of nodes, in the order they are added.\<close>

definition ringPoints :: "nat \<Rightarrow> string list \<Rightarrow> (u32 \<times> string) list" where
  "ringPoints n ids = concat (map (\<lambda>i. map (\<lambda>j. (hash (virtualKey i j), i)) [0..<n]) ids)"

text \<open>The owner of a hash: the node that was added last among those with the next key on the ring.\<close>

definition nextKey :: "u32 set \<Rightarrow> u32 \<Rightarrow> u32" where
  "nextKey K h = (if \<exists>k \<in> K. h \<le> k then Min {k \<in> K. h \<le> k} else Min K)"

definition ringOwner :: "(u32 \<times> string) list \<Rightarrow> u32 \<Rightarrow> string option" where
  "ringOwner ps h = map_of (rev ps) (nextKey (fst ` set ps) h)"

lemma addReplicas_ring:
  "keys (addReplicas i js r) = keys r @ map (\<lambda>j. hash (virtualKey i j)) js"
  "map_of (ringNodes (addReplicas i js r)) = map_of (ringNodes r) ++ map_of (rev (map (\<lambda>j. (hash (virtualKey i j), i)) js))"
  "replicas (addReplicas i js r) = replicas r"
  by (induction js arbitrary: r) (simp_all add: Let_def AList.update_conv' fun_eq_iff map_add_def split: option.splits)

lemma fold_ring:
  "keys (fold addNodeToRing ids r) = keys r @ map fst (ringPoints (replicas r) ids)"
  "map_of (ringNodes (fold addNodeToRing ids r)) = map_of (ringNodes r) ++ map_of (rev (ringPoints (replicas r) ids))"
  "replicas (fold addNodeToRing ids r) = replicas r"
  by (induction ids arbitrary: r)
    (simp_all add: addNodeToRing_def addReplicas_ring ringPoints_def rev_map comp_def map_add_assoc)

lemma rebuildRing_ring:
  "keys (rebuildRing ids r) = sort (map fst (ringPoints (replicas r) ids))"
  "map_of (ringNodes (rebuildRing ids r)) = map_of (rev (ringPoints (replicas r) ids))"
  "replicas (rebuildRing ids r) = replicas r"
  by (simp_all add: rebuildRing_def Let_def fold_ring)

lemma rebuildRing_cong: "replicas r' = replicas r \<Longrightarrow> rebuildRing ids r' = rebuildRing ids r"
  by (cases r; cases r') (simp add: rebuildRing_def)

lemma Search_nextKey:
  fixes h :: u32
  assumes "sorted ks" "ks \<noteq> []"
  defines "i \<equiv> Search (length ks) (\<lambda>i. h \<le> ks ! i)"
  shows "ks ! (if i = length ks then 0 else i) = nextKey (set ks) h"
proof -
  have mono: "\<And>a b. a \<le> b \<Longrightarrow> b < length ks \<Longrightarrow> h \<le> ks ! a \<Longrightarrow> h \<le> ks ! b"
    using assms(1) by (meson order_trans sorted_nth_mono)
  have spec: "i \<le> length ks" "a < i \<Longrightarrow> \<not> h \<le> ks ! a" "i < length ks \<Longrightarrow> h \<le> ks ! i" for a
    unfolding i_def by (rule Search_spec; use mono in blast)+
  show ?thesis
  proof (cases "i = length ks")
    case True
    then have "\<not> (\<exists>k \<in> set ks. h \<le> k)" using spec(2) by (auto simp: in_set_conv_nth)
    moreover have "Min (set ks) = ks ! 0" using assms(1,2)
      by (intro Min_eqI) (auto simp: in_set_conv_nth sorted_nth_mono)
    ultimately show ?thesis using True by (simp add: nextKey_def)
  next
    case False
    then have i: "i < length ks" using spec(1) by simp
    have "ks ! i \<le> k" if "k \<in> set ks" "h \<le> k" for k
    proof -
      from that(1) obtain j where "j < length ks" "k = ks ! j" by (auto simp: in_set_conv_nth)
      moreover have "i \<le> j" using spec(2) [of j] that(2) \<open>k = ks ! j\<close> by (meson not_le)
      ultimately show ?thesis using assms(1) by (simp add: sorted_nth_mono)
    qed
    then have "Min {k \<in> set ks. h \<le> k} = ks ! i" using i spec(3) by (intro Min_eqI) auto
    then show ?thesis using False i spec(3) by (auto simp: nextKey_def)
  qed
qed

lemma nextKey_in: "finite K \<Longrightarrow> K \<noteq> {} \<Longrightarrow> nextKey K h \<in> K"
proof (cases "\<exists>k \<in> K. h \<le> k")
  case True
  assume "finite K"
  then have "Min {k \<in> K. h \<le> k} \<in> {k \<in> K. h \<le> k}" using True by (intro Min_in) auto
  then show ?thesis using True by (auto simp: nextKey_def)
qed (simp add: nextKey_def)

lemma nextKey_subset:
  assumes "finite K" "L \<subseteq> K" "nextKey K h \<in> L"
  shows "nextKey L h = nextKey K h"
proof (cases "\<exists>k \<in> K. h \<le> k")
  case True
  then have e: "nextKey K h = Min {k \<in> K. h \<le> k}" by (simp add: nextKey_def)
  have "Min {k \<in> K. h \<le> k} \<in> {k \<in> K. h \<le> k}" using True assms(1) by (intro Min_in) auto
  then have "h \<le> nextKey K h" using e by simp
  moreover have "Min {k \<in> L. h \<le> k} = nextKey K h"
    using assms e \<open>h \<le> nextKey K h\<close> by (intro Min_eqI) (auto intro: finite_subset)
  ultimately show ?thesis using assms(3) by (auto simp: nextKey_def)
next
  case False
  then have "nextKey K h = Min K" by (simp add: nextKey_def)
  moreover have "Min L = Min K" using assms False calculation
    by (intro Min_eqI) (auto intro: finite_subset Min_le simp del: Min_le_iff)
  ultimately show ?thesis using False assms(2) by (auto simp: nextKey_def)
qed

lemma ringLookup_owner:
  assumes "ringPoints (replicas r) ids \<noteq> []"
  shows "ringOwner (ringPoints (replicas r) ids) h = Some (ringLookup (rebuildRing ids r) h)"
proof -
  let ?ps = "ringPoints (replicas r) ids"
  let ?ks = "sort (map fst ?ps)"
  have ne: "?ks \<noteq> []" using assms by (metis length_0_conv length_map length_sort)
  have "ringLookup (rebuildRing ids r) h =
      (case map_of (rev ?ps) (?ks ! (if Search (length ?ks) (\<lambda>i. h \<le> ?ks ! i) = length ?ks then 0
         else Search (length ?ks) (\<lambda>i. h \<le> ?ks ! i))) of None \<Rightarrow> [] | Some n \<Rightarrow> n)"
    by (simp only: ringLookup_def rebuildRing_ring Let_def)
  also have "\<dots> = (case map_of (rev ?ps) (nextKey (fst ` set ?ps) h) of None \<Rightarrow> [] | Some n \<Rightarrow> n)"
    using Search_nextKey [OF sorted_sort ne, of h] by (simp only: set_sort set_map)
  finally have l: "ringLookup (rebuildRing ids r) h = (case map_of (rev ?ps) (nextKey (fst ` set ?ps) h) of None \<Rightarrow> [] | Some n \<Rightarrow> n)" .
  have "nextKey (fst ` set ?ps) h \<in> fst ` set ?ps" using assms by (intro nextKey_in) auto
  then obtain n where n: "map_of (rev ?ps) (nextKey (fst ` set ?ps) h) = Some n"
    by (metis map_of_eq_None_iff not_None_eq set_rev)
  then show ?thesis using l by (simp add: ringOwner_def)
qed

lemma ringPoints_filter: "ringPoints n (filter (\<lambda>i. i \<noteq> x) ids) = filter (\<lambda>p. snd p \<noteq> x) (ringPoints n ids)"
  by (induction ids) (auto simp: ringPoints_def filter_map comp_def)

lemma map_of_filter_snd:
  "map_of ps k = Some n \<Longrightarrow> n \<noteq> x \<Longrightarrow> map_of (filter (\<lambda>p. snd p \<noteq> x) ps) k = Some n"
  by (induction ps) (auto split: if_splits)

text \<open>A node that leaves takes only its own hashes with it.\<close>

lemma ringOwner_filter:
  assumes "ringOwner ps h = Some n" "n \<noteq> x"
  shows "ringOwner (filter (\<lambda>p. snd p \<noteq> x) ps) h = Some n"
proof -
  let ?qs = "filter (\<lambda>p. snd p \<noteq> x) ps"
  have o: "map_of (rev ps) (nextKey (fst ` set ps) h) = Some n" using assms(1) by (simp add: ringOwner_def)
  then have "(nextKey (fst ` set ps) h, n) \<in> set ps" by (auto dest: map_of_SomeD)
  then have "nextKey (fst ` set ps) h \<in> fst ` set ?qs" using assms(2) by force
  then have "nextKey (fst ` set ?qs) h = nextKey (fst ` set ps) h" by (intro nextKey_subset) auto
  then show ?thesis using map_of_filter_snd [OF o assms(2)] by (simp add: ringOwner_def rev_filter)
qed

lemma ringLookup_in:
  assumes "ids \<noteq> []" "0 < replicas r"
  shows "ringPoints (replicas r) ids \<noteq> []" "ringLookup (rebuildRing ids r) h \<in> set ids"
proof -
  show ne: "ringPoints (replicas r) ids \<noteq> []" using assms by (cases ids) (auto simp: ringPoints_def)
  have "map_of (rev (ringPoints (replicas r) ids)) (nextKey (fst ` set (ringPoints (replicas r) ids)) h) =
      Some (ringLookup (rebuildRing ids r) h)"
    using ringLookup_owner [OF ne] by (simp add: ringOwner_def)
  then have "ringLookup (rebuildRing ids r) h \<in> snd ` set (ringPoints (replicas r) ids)" by (force dest: map_of_SomeD)
  then show "ringLookup (rebuildRing ids r) h \<in> set ids" by (auto simp: ringPoints_def)
qed

lemma ringLookup_stable:
  assumes "ringLookup (rebuildRing ids r) h \<noteq> x" "ids \<noteq> []" "0 < replicas r"
  shows "ringLookup (rebuildRing (filter (\<lambda>i. i \<noteq> x) ids) r) h = ringLookup (rebuildRing ids r) h"
proof -
  note o = ringLookup_owner [OF ringLookup_in(1) [OF assms(2,3)], of h]
  have "filter (\<lambda>i. i \<noteq> x) ids \<noteq> []" using ringLookup_in(2) [OF assms(2,3), of h] assms(1) by (auto simp: filter_empty_conv)
  note o2 = ringLookup_owner [OF ringLookup_in(1) [OF this assms(3)], of h]
  show ?thesis using ringOwner_filter [OF o assms(1)] o2 by (simp add: ringPoints_filter)
qed

section \<open>Properties\<close>

abbreviation up :: "(nodes \<Rightarrow> nodes) \<Rightarrow> int \<Rightarrow> node_manager \<Rightarrow> node_connection list" where
  "up \<equiv> GetHealthyConnectionNodes"

lemma UpdateNodeHealth_ring:
  "strategy lb = ''consistent_hash'' \<Longrightarrow>
     UpdateNodeHealth ord now nm lb = lb\<lparr>hashRing := rebuildRing (map GetID (up ord now nm)) (hashRing lb)\<rparr>"
  by (simp add: UpdateNodeHealth_def updateHashRing_def)

lemma rebuilt_keys: "ids \<noteq> [] \<Longrightarrow> 0 < replicas r \<Longrightarrow> keys (rebuildRing ids r) \<noteq> []"
  using ringLookup_in(1) [of ids r] by (metis rebuildRing_ring(1) length_0_conv length_map length_sort)

lemma find_GetID:
  "i \<in> set (map GetID xs) \<Longrightarrow> \<exists>nc. find (\<lambda>nc. GetID nc = i) xs = Some nc \<and> nc \<in> set xs \<and> GetID nc = i"
  by (induction xs) auto

lemma find_filter: "i \<noteq> x \<Longrightarrow> find (\<lambda>nc. GetID nc = i) (filter (\<lambda>nc. GetID nc \<noteq> x) xs) = find (\<lambda>nc. GetID nc = i) xs"
  by (induction xs) auto

lemma select_by_ring:
  assumes "strategy lb = ''consistent_hash''" "0 < replicas (hashRing lb)" "up ord now nm \<noteq> []"
  shows "SelectConnectionNode ord now nm (UpdateNodeHealth ord now nm lb) key =
    Ret ((UpdateNodeHealth ord now nm lb)\<lparr>decisions := decisions lb + 1\<rparr>,
      find (\<lambda>nc. GetID nc = ringLookup (rebuildRing (map GetID (up ord now nm)) (hashRing lb)) (hash key)) (up ord now nm))"
proof -
  let ?i = "ringLookup (rebuildRing (map GetID (up ord now nm)) (hashRing lb)) (hash key)"
  have "?i \<in> set (map GetID (up ord now nm))" using assms by (intro ringLookup_in) auto
  from find_GetID [OF this] obtain nc where "find (\<lambda>nc. GetID nc = ?i) (up ord now nm) = Some nc" by blast
  then show ?thesis using assms rebuilt_keys [of "map GetID (up ord now nm)" "hashRing lb"]
    by (simp add: SelectConnectionNode_def selectByConsistentHash_def UpdateNodeHealth_ring Let_def)
qed

text \<open>No two of the nodes have the hash of a virtual key in common.\<close>

definition no_collision :: "nat \<Rightarrow> string set \<Rightarrow> bool" where
  "no_collision n S \<longleftrightarrow>
     (\<forall>i \<in> S. \<forall>i' \<in> S. \<forall>j < n. \<forall>j' < n. hash (virtualKey i j) = hash (virtualKey i' j') \<longrightarrow> i = i')"

lemma set_ringPoints: "set (ringPoints n ids) = {(hash (virtualKey i j), i) | i j. i \<in> set ids \<and> j < n}"
  by (auto simp: ringPoints_def)

lemma map_of_single:
  assumes "single_valued (set ps)" "(k, v) \<in> set ps"
  shows "map_of ps k = Some v"
proof -
  from assms(2) obtain v' where "map_of ps k = Some v'" by (metis fst_conv image_eqI map_of_eq_None_iff not_None_eq)
  with assms show ?thesis by (metis map_of_SomeD single_valued_def)
qed

lemma ringOwner_set:
  assumes "single_valued (set ps)" "set qs = set ps" "ps \<noteq> []"
  shows "ringOwner qs h = ringOwner ps h"
proof -
  have "nextKey (fst ` set ps) h \<in> fst ` set ps" using assms(3) by (intro nextKey_in) auto
  then obtain v where v: "(nextKey (fst ` set ps) h, v) \<in> set ps" by force
  have "map_of (rev rs) (nextKey (fst ` set ps) h) = Some v" if "set rs = set ps" for rs
    using that assms(1) v by (intro map_of_single) simp_all
  then show ?thesis using assms(2) by (simp add: ringOwner_def)
qed

text \<open>Then the owner of a key does not depend on the order in which the nodes are added.\<close>

lemma ringLookup_set:
  assumes "no_collision (replicas r) (set ids)" "set ids' = set ids" "ids \<noteq> []" "0 < replicas r"
  shows "ringLookup (rebuildRing ids' r) h = ringLookup (rebuildRing ids r) h"
proof -
  have "single_valued (set (ringPoints (replicas r) ids))"
    using assms(1) unfolding single_valued_def set_ringPoints no_collision_def by auto
  moreover have ne: "ringPoints (replicas r) ids \<noteq> []" "ringPoints (replicas r) ids' \<noteq> []"
    using ringLookup_in(1) assms by (metis, metis set_empty)
  moreover have "set (ringPoints (replicas r) ids') = set (ringPoints (replicas r) ids)"
    using assms(2) by (simp add: set_ringPoints)
  ultimately have "ringOwner (ringPoints (replicas r) ids') h = ringOwner (ringPoints (replicas r) ids) h"
    by (intro ringOwner_set)
  then show ?thesis using ringLookup_owner [OF ne(1), of h] ringLookup_owner [OF ne(2), of h] by simp
qed

text \<open>The ring was rebuilt over one walk through the nodes, the selection goes over another.\<close>

lemma select_after_rebuild:
  assumes "strategy lb = ''consistent_hash''" "0 < replicas (hashRing lb)" "hashRing lb' = rebuildRing ids (hashRing lb)"
    and "strategy lb' = ''consistent_hash''" "ids \<noteq> []" "GetID ` set (up ord now nm) = set ids"
  shows "\<exists>lb2 nc. SelectConnectionNode ord now nm lb' key = Ret (lb2, Some nc) \<and> nc \<in> set (up ord now nm) \<and>
    GetID nc = ringLookup (rebuildRing ids (hashRing lb)) (hash key) \<and> strategy lb2 = ''consistent_hash'' \<and> hashRing lb2 = hashRing lb'"
proof -
  let ?i = "ringLookup (rebuildRing ids (hashRing lb)) (hash key)"
  have "?i \<in> set ids" by (rule ringLookup_in(2) [OF assms(5,2)])
  then have "?i \<in> set (map GetID (up ord now nm))" using assms(6) by simp
  from find_GetID [OF this] obtain nc where nc: "find (\<lambda>nc. GetID nc = ?i) (up ord now nm) = Some nc"
    "nc \<in> set (up ord now nm)" "GetID nc = ?i" by blast
  moreover have "keys (hashRing lb') \<noteq> []" using rebuilt_keys [OF assms(5,2)] assms(3) by simp
  moreover have "up ord now nm \<noteq> []" using nc(2) by auto
  ultimately show ?thesis using assms(3,4)
    by (simp add: SelectConnectionNode_def selectByConsistentHash_def Let_def)
qed

text \<open>C16: with consistent hashing a room keeps its node.  Go walks over the map of nodes in any order, a new one for
  each rebuild of the ring and for each selection, and the records of the nodes change; as long as no two nodes have
  the hash of a virtual key in common: once the ring has been rebuilt, a room gets a healthy node, and when another node goes away
  and the ring is rebuilt, the room gets the node with the same id.  (Of nodes with a common hash the one added last
  has it, so there the order decides.)\<close>

theorem room_keeps_node:
  assumes "strategy lb = ''consistent_hash''" "0 < replicas (hashRing lb)"
    and "S \<noteq> {}" "no_collision (replicas (hashRing lb)) S"
    and "GetID ` set (up ord1 t1 nm1) = S" "GetID ` set (up ord2 t2 nm2) = S"
    and "GetID ` set (up ord3 t3 nm3) = S - {x}" "GetID ` set (up ord4 t4 nm4) = S - {x}"
  shows "\<exists>lb1 nc. SelectNodeForRoom ord2 t2 nm2 (UpdateNodeHealth ord1 t1 nm1 lb) room = Ret (lb1, Some nc) \<and>
    nc \<in> set (up ord2 t2 nm2) \<and>
    (GetID nc \<noteq> x \<longrightarrow>
       (\<exists>lb2 nc2. SelectNodeForRoom ord4 t4 nm4 (UpdateNodeHealth ord3 t3 nm3 lb1) room = Ret (lb2, Some nc2) \<and>
          GetID nc2 = GetID nc))"
proof -
  let ?key = "''room_'' @ dec_string (unat room)"
  let ?ids = "map GetID (up ord1 t1 nm1)"
  let ?ids' = "map GetID (up ord3 t3 nm3)"
  let ?i = "ringLookup (rebuildRing ?ids (hashRing lb)) (hash ?key)"
  have S: "set ?ids = S" "set ?ids' = S - {x}" using assms(5,7) by simp_all
  then have ne: "?ids \<noteq> []" using assms(3) by (metis set_empty)
  have u: "hashRing (UpdateNodeHealth ord1 t1 nm1 lb) = rebuildRing ?ids (hashRing lb)"
    "strategy (UpdateNodeHealth ord1 t1 nm1 lb) = ''consistent_hash''" using assms(1) by (simp_all add: UpdateNodeHealth_ring)
  obtain lb1 nc where s1: "SelectConnectionNode ord2 t2 nm2 (UpdateNodeHealth ord1 t1 nm1 lb) ?key = Ret (lb1, Some nc)"
    "nc \<in> set (up ord2 t2 nm2)" "GetID nc = ?i" "strategy lb1 = ''consistent_hash''" "hashRing lb1 = rebuildRing ?ids (hashRing lb)"
    using select_after_rebuild [OF assms(1,2) u ne, of ord2 t2 nm2 ?key] assms(6) S(1) u(1) by auto
  have "\<exists>lb2 nc2. SelectConnectionNode ord4 t4 nm4 (UpdateNodeHealth ord3 t3 nm3 lb1) ?key = Ret (lb2, Some nc2) \<and> GetID nc2 = ?i"
    if x: "?i \<noteq> x"
  proof -
    have f: "set (filter (\<lambda>i. i \<noteq> x) ?ids) = set ?ids'" using S by auto
    have "?i \<in> set ?ids" by (rule ringLookup_in(2) [OF ne assms(2)])
    then have ne': "?ids' \<noteq> []" using S x by auto
    have r: "replicas (hashRing lb1) = replicas (hashRing lb)" using s1(5) by (simp add: rebuildRing_ring)
    then have e: "rebuildRing ids (hashRing lb1) = rebuildRing ids (hashRing lb)" for ids by (rule rebuildRing_cong)
    have n: "no_collision (replicas (hashRing lb)) (set ?ids')" using assms(4) S(2) by (auto simp: no_collision_def)
    have "ringLookup (rebuildRing ?ids' (hashRing lb)) (hash ?key) =
        ringLookup (rebuildRing (filter (\<lambda>i. i \<noteq> x) ?ids) (hashRing lb)) (hash ?key)"
      by (rule ringLookup_set [OF n f ne' assms(2), symmetric])
    also have "\<dots> = ?i" by (rule ringLookup_stable [OF x ne assms(2)])
    finally have l: "ringLookup (rebuildRing ?ids' (hashRing lb1)) (hash ?key) = ?i" by (simp only: e)
    have u3: "hashRing (UpdateNodeHealth ord3 t3 nm3 lb1) = rebuildRing ?ids' (hashRing lb1)"
      "strategy (UpdateNodeHealth ord3 t3 nm3 lb1) = ''consistent_hash''" using s1(4) by (simp_all add: UpdateNodeHealth_ring)
    have r0: "0 < replicas (hashRing lb1)" using r assms(2) by simp
    have g: "GetID ` set (up ord4 t4 nm4) = set ?ids'" using assms(8) S(2) by simp
    from select_after_rebuild [OF s1(4) r0 u3 ne' g, of ?key] l show ?thesis by auto
  qed
  then show ?thesis using s1(1-3) by (auto simp: SelectNodeForRoom_def)
qed

lemma nextKey_single: "nextKey {k} h = k"
  by (auto simp: nextKey_def Collect_conv_if)

text \<open>When two nodes share a key, the order in which they are added decides who owns it.\<close>

lemma collision_order_decides:
  assumes "hash (virtualKey a 0) = hash (virtualKey b 0)"
  shows "ringOwner (ringPoints 1 [a, b]) h = Some b" "ringOwner (ringPoints 1 [b, a]) h = Some a"
  using assms nextKey_single [of "hash (virtualKey b 0)" h] by (simp_all add: ringOwner_def ringPoints_def)

text \<open>Two nodes; one of them goes away.\<close>

definition demoNodes :: node_manager where
  "demoNodes = (NewNodeManager [] 0)\<lparr>connectionNodes :=
     map (\<lambda>i. (i, SetStatus NodeStatusHealthy (NewNodeConnection 0 i NodeTypeConnection None))) [''a'', ''b'']\<rparr>"

lemma demo_up: "up id 1 demoNodes = map (\<lambda>i. SetStatus NodeStatusHealthy (NewNodeConnection 0 i NodeTypeConnection None)) [''a'', ''b'']"
  by (simp add: GetHealthyConnectionNodes_def demoNodes_def NewNodeManager_def IsHealthy_def SetStatus_def NewNodeConnection_def
      heartbeatWindow_def)

lemma demo_IDs: "map GetID (up id 1 demoNodes) = [''a'', ''b'']"
  by (simp add: demo_up GetID_def SetStatus_def NewNodeConnection_def)

text \<open>A ring with two virtual keys for each node.\<close>

definition smallBalancer :: load_balancer where
  "smallBalancer = (NewLoadBalancer ''consistent_hash'')\<lparr>hashRing := NewConsistentHashRing 2\<rparr>"

lemma crc_byte_steps:
  "crc_byte c b = crc_bit (crc_bit (crc_bit (crc_bit (crc_bit (crc_bit (crc_bit (crc_bit (c XOR ucast b))))))))"
  by (simp add: crc_byte_def eval_nat_numeral)

lemma small_keys: "virtualKey ''a'' 0 = ''a#0''" "virtualKey ''a'' 1 = ''a#1''" "virtualKey ''b'' 0 = ''b#0''" "virtualKey ''b'' 1 = ''b#1''"
  by code_simp+

lemma small_hashes:
  "hash ''a#0'' = 0x2E243FC8" "hash ''a#1'' = 0x59230F5E" "hash ''b#0'' = 0x2C628191" "hash ''b#1'' = 0x5B65B107"
  by (simp_all add: hash_def ChecksumIEEE_def go_bytes_def crc_byte_steps crc_bit_def)

lemma small_no_collision: "no_collision 2 {''a'', ''b''}"
  by (auto simp: no_collision_def less_2_cases_iff small_keys small_keys [unfolded One_nat_def] small_hashes)

theorem room_keeps_node_witness:
  "\<exists>lb1 lb2 nc nc2 x. GetID nc \<noteq> x \<and> x \<in> {''a'', ''b''} \<and>
     SelectNodeForRoom rev 1 demoNodes (UpdateNodeHealth id 1 demoNodes smallBalancer) 7 = Ret (lb1, Some nc) \<and>
     SelectNodeForRoom (filter (\<lambda>p. fst p \<noteq> x)) 1 demoNodes (UpdateNodeHealth (filter (\<lambda>p. fst p \<noteq> x)) 1 demoNodes lb1) 7 =
       Ret (lb2, Some nc2) \<and> GetID nc2 = GetID nc"
proof -
  let ?S = "{''a'', ''b''}"
  have i: "GetID ` set (up id 1 demoNodes) = ?S" "GetID ` set (up rev 1 demoNodes) = ?S"
    by (auto simp: GetHealthyConnectionNodes_def demoNodes_def NewNodeManager_def IsHealthy_def SetStatus_def
        NewNodeConnection_def heartbeatWindow_def GetID_def)
  have f: "GetID ` set (up (filter (\<lambda>p. fst p \<noteq> x)) 1 demoNodes) = ?S - {x}" for x
    by (auto simp: GetHealthyConnectionNodes_def demoNodes_def NewNodeManager_def IsHealthy_def SetStatus_def
        NewNodeConnection_def heartbeatWindow_def GetID_def)
  have p: "strategy smallBalancer = ''consistent_hash''" "0 < replicas (hashRing smallBalancer)" "?S \<noteq> {}"
    "no_collision (replicas (hashRing smallBalancer)) ?S"
    using small_no_collision by (simp_all add: smallBalancer_def NewLoadBalancer_def NewConsistentHashRing_def)
  note th = room_keeps_node [OF p i f f, where room = 7]
  obtain lb1 nc where s: "SelectNodeForRoom rev 1 demoNodes (UpdateNodeHealth id 1 demoNodes smallBalancer) 7 = Ret (lb1, Some nc)"
    "nc \<in> set (up rev 1 demoNodes)" using th by blast
  then have "GetID nc \<in> ?S" using i(2) by blast
  then obtain x where x: "GetID nc \<noteq> x" "x \<in> ?S" by auto
  obtain lb1' nc' where t: "SelectNodeForRoom rev 1 demoNodes (UpdateNodeHealth id 1 demoNodes smallBalancer) 7 = Ret (lb1', Some nc')"
    "GetID nc' \<noteq> x \<longrightarrow> (\<exists>lb2 nc2. SelectNodeForRoom (filter (\<lambda>p. fst p \<noteq> x)) 1 demoNodes
       (UpdateNodeHealth (filter (\<lambda>p. fst p \<noteq> x)) 1 demoNodes lb1') 7 = Ret (lb2, Some nc2) \<and> GetID nc2 = GetID nc')"
    using th [of x] by blast
  then have "lb1' = lb1" "nc' = nc" using s(1) by simp_all
  then show ?thesis using t x s(1) by blast
qed

text \<open>The selections one after the other, each over the map in an order of its own.\<close>

fun selections :: "(nat \<Rightarrow> nodes \<Rightarrow> nodes) \<Rightarrow> int \<Rightarrow> node_manager \<Rightarrow> string \<Rightarrow> nat \<Rightarrow> load_balancer
    \<Rightarrow> (load_balancer \<times> node_connection option list) outcome" where
  "selections ords now nm key 0 lb = Ret (lb, [])"
| "selections ords now nm key (Suc n) lb =
     (case selections ords now nm key n lb of
        Panic \<Rightarrow> Panic
      | Ret (lb1, ys) \<Rightarrow>
          (case SelectConnectionNode (ords n) now nm lb1 key of Panic \<Rightarrow> Panic | Ret (lb2, y) \<Rightarrow> Ret (lb2, ys @ [y])))"

lemma select_round_robin:
  assumes "strategy lb = ''round_robin''" "up ord now nm = xs" "xs \<noteq> []"
  shows "SelectConnectionNode ord now nm lb key =
    (if goRem (sint (roundRobinIndex lb + 1)) (int (length xs)) < 0 then Panic
     else Ret (lb\<lparr>decisions := decisions lb + 1, roundRobinIndex := roundRobinIndex lb + 1\<rparr>,
       Some (xs ! nat (goRem (sint (roundRobinIndex lb + 1)) (int (length xs))))))"
  using assms by (simp add: SelectConnectionNode_def selectByRoundRobin_def pickRoundRobin_def Let_def)

lemma sint_small:
  assumes "n < 2 ^ 31"
  shows "sint (word_of_nat n :: i32) = int n"
proof -
  have "int n < 2 ^ 31" using assms by (metis of_nat_less_iff of_nat_numeral of_nat_power)
  then have "signed_take_bit 31 (int n) = int n" by (intro signed_take_bit_int_eq_self) auto
  then show ?thesis by (simp add: signed_of_nat)
qed

lemma selections_round_robin:
  assumes "up ord now nm = xs" "xs \<noteq> []" "k < 2 ^ 31"
  shows "\<exists>lb. selections (\<lambda>_. ord) now nm key k (NewLoadBalancer ''round_robin'') =
      Ret (lb, map (\<lambda>i. Some (xs ! (Suc i mod length xs))) [0..<k]) \<and>
    strategy lb = ''round_robin'' \<and> roundRobinIndex lb = word_of_nat k"
  using assms(3)
proof (induction k)
  case 0
  then show ?case by (simp add: NewLoadBalancer_def)
next
  case (Suc k)
  then obtain lb where lb: "selections (\<lambda>_. ord) now nm key k (NewLoadBalancer ''round_robin'') =
      Ret (lb, map (\<lambda>i. Some (xs ! (Suc i mod length xs))) [0..<k])"
    "strategy lb = ''round_robin''" "roundRobinIndex lb = word_of_nat k" by auto
  have "sint (roundRobinIndex lb + 1) = int (Suc k)" using sint_small [OF Suc.prems] lb(3) by (simp add: add.commute)
  then have "goRem (sint (roundRobinIndex lb + 1)) (int (length xs)) = int (Suc k mod length xs)"
    by (simp add: goRem_def zmod_int)
  then show ?case using lb select_round_robin [OF lb(2) assms(1,2), of key] by (simp add: add.commute)
qed

lemma goRem_neg: "0 < n \<Longrightarrow> goRem (- int m) (int n) < 0 \<longleftrightarrow> 0 < m \<and> \<not> n dvd m"
  by (cases "m = 0") (auto simp: goRem_def dvd_eq_mod_eq_0 simp flip: zmod_int)

lemma round_robin_panic:
  assumes "strategy lb = ''round_robin''" "roundRobinIndex lb = word_of_nat (2 ^ 31 - 1)" "up ord now nm = xs" "xs \<noteq> []"
  shows "SelectConnectionNode ord now nm lb key = Panic \<longleftrightarrow> \<not> length xs dvd 2 ^ 31"
proof -
  have "sint (roundRobinIndex lb + 1) = - int (2 ^ 31)" using assms(2) by simp
  then have "goRem (sint (roundRobinIndex lb + 1)) (int (length xs)) < 0 \<longleftrightarrow> \<not> length xs dvd 2 ^ 31"
    using goRem_neg [of "length xs" "2 ^ 31"] assms(4) by simp
  then show ?thesis using select_round_robin [OF assms(1,3,4), of key] by simp
qed

text \<open>Round robin, as long as the map of nodes is walked in the same order: the first \<open>2^31 - 1\<close> selections go
  round the healthy nodes, starting with the second; the next one panics (the index is negative), unless the
  number of nodes divides \<open>2^31\<close>.\<close>

theorem round_robin_wraps:
  assumes "up ord now nm = xs" "xs \<noteq> []" "Suc m = 2 ^ 31"
  shows "(\<forall>k \<le> m. \<exists>lb. selections (\<lambda>_. ord) now nm key k (NewLoadBalancer ''round_robin'') =
      Ret (lb, map (\<lambda>i. Some (xs ! (Suc i mod length xs))) [0..<k])) \<and>
    (selections (\<lambda>_. ord) now nm key (Suc m) (NewLoadBalancer ''round_robin'') = Panic \<longleftrightarrow> \<not> length xs dvd 2 ^ 31)"
proof
  have lt: "k \<le> m \<Longrightarrow> k < 2 ^ 31" for k using assms(3) by linarith
  show "\<forall>k \<le> m. \<exists>lb. selections (\<lambda>_. ord) now nm key k (NewLoadBalancer ''round_robin'') =
      Ret (lb, map (\<lambda>i. Some (xs ! (Suc i mod length xs))) [0..<k])"
    using selections_round_robin [OF assms(1,2) lt] by blast
  from selections_round_robin [OF assms(1,2) lt, of m] obtain lb where lb:
    "selections (\<lambda>_. ord) now nm key m (NewLoadBalancer ''round_robin'') = Ret (lb, map (\<lambda>i. Some (xs ! (Suc i mod length xs))) [0..<m])"
    "strategy lb = ''round_robin''" "roundRobinIndex lb = word_of_nat m" by blast
  have "m = 2 ^ 31 - 1" using assms(3) by linarith
  with lb(3) have "roundRobinIndex lb = word_of_nat (2 ^ 31 - 1)" by (simp only:)
  from round_robin_panic [OF lb(2) this assms(1,2), of key]
  show "selections (\<lambda>_. ord) now nm key (Suc m) (NewLoadBalancer ''round_robin'') = Panic \<longleftrightarrow> \<not> length xs dvd 2 ^ 31"
    by (cases "SelectConnectionNode ord now nm lb key") (auto simp: lb(1))
qed

definition threeNodes :: node_manager where
  "threeNodes = (NewNodeManager [] 0)\<lparr>connectionNodes :=
     map (\<lambda>i. (i, SetStatus NodeStatusHealthy (NewNodeConnection 0 i NodeTypeConnection None))) [''a'', ''b'', ''c'']\<rparr>"

lemma three_up: "up id 1 threeNodes = map (\<lambda>i. SetStatus NodeStatusHealthy (NewNodeConnection 0 i NodeTypeConnection None)) [''a'', ''b'', ''c'']"
  by (simp add: GetHealthyConnectionNodes_def threeNodes_def NewNodeManager_def IsHealthy_def SetStatus_def NewNodeConnection_def
      heartbeatWindow_def)

theorem round_robin_wraps_witness:
  "\<exists>m. Suc m = 2 ^ 31 \<and> selections (\<lambda>_. id) 1 threeNodes ''k'' (Suc m) (NewLoadBalancer ''round_robin'') = Panic"
proof -
  obtain m where m: "Suc m = 2 ^ 31" by (metis Suc_pred' zero_less_numeral zero_less_power)
  have "\<not> (3 :: nat) dvd 2 ^ 31" by simp
  then have "\<not> length (up id 1 threeNodes) dvd 2 ^ 31" by (simp add: three_up numeral_3_eq_3)
  moreover have "up id 1 threeNodes \<noteq> []" by (simp add: three_up)
  note round_robin_wraps [OF refl this m, of "''k''"]
  ultimately show ?thesis using m by blast
qed

text \<open>Go does not keep the order.  When it alternates, round robin stays on one of two nodes.\<close>

lemma alternate_order_one_node:
  assumes "\<And>i. even i \<Longrightarrow> up (ords i) now nm = [a, b]" "\<And>i. odd i \<Longrightarrow> up (ords i) now nm = [b, a]" "k < 2 ^ 31"
  shows "\<exists>lb. selections ords now nm key k (NewLoadBalancer ''round_robin'') = Ret (lb, replicate k (Some b)) \<and>
    strategy lb = ''round_robin'' \<and> roundRobinIndex lb = word_of_nat k"
  using assms(3)
proof (induction k)
  case 0
  then show ?case by (simp add: NewLoadBalancer_def)
next
  case (Suc k)
  then obtain lb where lb: "selections ords now nm key k (NewLoadBalancer ''round_robin'') = Ret (lb, replicate k (Some b))"
    "strategy lb = ''round_robin''" "roundRobinIndex lb = word_of_nat k" by auto
  have i: "sint (roundRobinIndex lb + 1) = int (Suc k)" using sint_small [OF Suc.prems] lb(3) by (simp add: add.commute)
  let ?xs = "if even k then [a, b] else [b, a]"
  have u: "up (ords k) now nm = ?xs" "?xs \<noteq> []" using assms(1,2) by auto
  have "goRem (int (Suc k)) (int (length ?xs)) = (if even k then 1 else 0)" by (auto simp: goRem_def even_iff_mod_2_eq_zero odd_iff_mod_2_eq_one; presburger)
  then show ?case using lb select_round_robin [OF lb(2) u, of key] i by (simp add: add.commute replicate_append_same)
qed

lemma leastLoop_spec:
  assumes "leastLoop load xs m best = r"
  shows "(r = best \<and> (\<forall>x \<in> set xs. m \<le> load x)) \<or>
    (\<exists>us x vs. r = Some x \<and> xs = us @ x # vs \<and> load x < m \<and> (\<forall>u \<in> set us. load x < load u) \<and> (\<forall>v \<in> set vs. load x \<le> load v))"
  using assms
proof (induction xs arbitrary: m best)
  case (Cons y ys)
  show ?case
  proof (cases "load y < m")
    case True
    then have l: "leastLoop load ys (load y) (Some y) = r" using Cons.prems by simp
    from Cons.IH [OF this] show ?thesis
    proof (elim disjE exE conjE)
      assume "r = Some y" "\<forall>x \<in> set ys. load y \<le> load x"
      then show ?thesis using True by (intro disjI2 exI [of _ "[]"] exI [of _ y] exI [of _ ys]) simp
    next
      fix us x vs
      assume "r = Some x" "ys = us @ x # vs" "load x < load y" "\<forall>u \<in> set us. load x < load u" "\<forall>v \<in> set vs. load x \<le> load v"
      then show ?thesis using True by (intro disjI2 exI [of _ "y # us"] exI [of _ x] exI [of _ vs]) simp
    qed
  next
    case False
    then have "leastLoop load ys m best = r" using Cons.prems by simp
    from Cons.IH [OF this] show ?thesis
    proof (elim disjE exE conjE)
      assume "r = best" "\<forall>x \<in> set ys. m \<le> load x"
      then show ?thesis using False by simp
    next
      fix us x vs
      assume "r = Some x" "ys = us @ x # vs" "load x < m" "\<forall>u \<in> set us. load x < load u" "\<forall>v \<in> set vs. load x \<le> load v"
      then show ?thesis using False by (intro disjI2 exI [of _ "y # us"] exI [of _ x] exI [of _ vs]) simp
    qed
  qed
qed simp

lemma i32_max: "sint (w :: i32) \<le> 2 ^ 31 - 1"
  using sint_lt [of w] by simp

text \<open>With the strategy of least connections, the selected node is the first one that has the fewest connections
  among the healthy ones; none is selected exactly when every healthy node reports the greatest number there is.\<close>

theorem least_connections:
  assumes "strategy lb = ''least_connections''"
  shows "\<exists>r. SelectConnectionNode ord now nm lb key = Ret (lb\<lparr>decisions := decisions lb + 1\<rparr>, r) \<and>
    (r = None \<longleftrightarrow> (\<forall>nc \<in> set (up ord now nm). sint (GetActiveConnections nc) = 2 ^ 31 - 1)) \<and>
    (\<forall>nc. r = Some nc \<longrightarrow> (\<exists>us vs. up ord now nm = us @ nc # vs \<and>
       (\<forall>u \<in> set us. GetActiveConnections nc <s GetActiveConnections u) \<and>
       (\<forall>v \<in> set vs. GetActiveConnections nc \<le>s GetActiveConnections v)))"
proof -
  let ?r = "selectByLeastConnections (up ord now nm)"
  have s: "SelectConnectionNode ord now nm lb key = Ret (lb\<lparr>decisions := decisions lb + 1\<rparr>, ?r)"
    using assms by (simp add: SelectConnectionNode_def Let_def selectByLeastConnections_def)
  let ?load = "\<lambda>nc. sint (GetActiveConnections nc)"
  from leastLoop_spec [of ?load "up ord now nm" "2 ^ 31 - 1" None ?r, OF selectByLeastConnections_def [symmetric]]
  show ?thesis
  proof (elim disjE exE conjE)
    assume "?r = None" "\<forall>x \<in> set (up ord now nm). 2 ^ 31 - 1 \<le> ?load x"
    then show ?thesis using s i32_max by (intro exI [of _ ?r]) (auto intro: antisym)
  next
    fix us x vs
    assume "?r = Some x" "up ord now nm = us @ x # vs" "?load x < 2 ^ 31 - 1" "\<forall>u \<in> set us. ?load x < ?load u"
      "\<forall>v \<in> set vs. ?load x \<le> ?load v"
    then show ?thesis using s by (intro exI [of _ ?r]) (auto simp: word_sless_alt word_sle_eq)
  qed
qed

theorem least_connections_witness:
  "\<exists>nc. SelectConnectionNode id 1 demoNodes (NewLoadBalancer ''least_connections'') ''k'' =
     Ret ((NewLoadBalancer ''least_connections'')\<lparr>decisions := 1\<rparr>, Some nc) \<and> nc \<in> set (up id 1 demoNodes)"
proof -
  let ?lb = "NewLoadBalancer ''least_connections''"
  have l: "strategy ?lb = ''least_connections''" "decisions ?lb = 0" by (simp_all add: NewLoadBalancer_def)
  have "\<not> (\<forall>nc \<in> set (up id 1 demoNodes). sint (GetActiveConnections nc) = 2 ^ 31 - 1)"
    by (simp add: demo_up GetActiveConnections_def SetStatus_def NewNodeConnection_def)
  moreover obtain r where r: "SelectConnectionNode id 1 demoNodes ?lb ''k'' = Ret (?lb\<lparr>decisions := decisions ?lb + 1\<rparr>, r)"
    "r = None \<longleftrightarrow> (\<forall>nc \<in> set (up id 1 demoNodes). sint (GetActiveConnections nc) = 2 ^ 31 - 1)"
    "\<forall>nc. r = Some nc \<longrightarrow> (\<exists>us vs. up id 1 demoNodes = us @ nc # vs \<and>
       (\<forall>u \<in> set us. GetActiveConnections nc <s GetActiveConnections u) \<and>
       (\<forall>v \<in> set vs. GetActiveConnections nc \<le>s GetActiveConnections v))"
    using least_connections [OF l(1), of id 1 demoNodes "''k''"] by blast
  ultimately obtain nc us vs where n: "r = Some nc" "up id 1 demoNodes = us @ nc # vs" by blast
  then show ?thesis using r(1) l(2) by (intro exI [of _ nc]) simp
qed

end
