(* ===== verification/ClientConnection.thy ===== *)
theory ClientConnection
  imports SendQueue
begin

text \<open>
  \<^verbatim>\<open>connection/client_connection.go\<close>: a connection node's view of a client.  As in
  \<open>NodeConnection\<close>, time and the results of the underlying writes are arguments and the goroutine
  \<^verbatim>\<open>sendLoop\<close> is one round and the field \<open>ccLoopAlive\<close>.  The errors of this file name no connection.
\<close>

record client_connection =
  ccID :: string
  ccConnection :: "nat option"
  ccUserID :: u32
  ccLoginID :: u8
  ccCurrentRoom :: u64
  ccConnected :: bool
  ccLastActivity :: int
  ccCreatedAt :: int
  ccLastMessageSeq :: u64
  ccLastProcessedID :: "bytes option"
  ccSendBuffer :: "bytes chan"
  ccLoopAlive :: bool
  ccMessagesSent :: i64
  ccMessagesReceived :: i64
  ccBytesTransferred :: i64

definition NewClientConnection :: "int \<Rightarrow> string \<Rightarrow> nat option \<Rightarrow> client_connection" where
  "NewClientConnection now i c =
     \<lparr>ccID = i, ccConnection = c, ccUserID = 0, ccLoginID = 0, ccCurrentRoom = 0, ccConnected = True,
      ccLastActivity = now, ccCreatedAt = now, ccLastMessageSeq = 0, ccLastProcessedID = None,
      ccSendBuffer = make_chan 100, ccLoopAlive = True, ccMessagesSent = 0, ccMessagesReceived = 0,
      ccBytesTransferred = 0\<rparr>"

definition cc_GetID :: "client_connection \<Rightarrow> string" where "cc_GetID c = ccID c"
definition GetUserID :: "client_connection \<Rightarrow> u32" where "GetUserID c = ccUserID c"
definition GetLoginID :: "client_connection \<Rightarrow> u8" where "GetLoginID c = ccLoginID c"
definition GetCurrentRoom :: "client_connection \<Rightarrow> u64" where "GetCurrentRoom c = ccCurrentRoom c"
definition SetCurrentRoom :: "u64 \<Rightarrow> client_connection \<Rightarrow> client_connection" where "SetCurrentRoom r c = c\<lparr>ccCurrentRoom := r\<rparr>"
definition cc_IsConnected :: "client_connection \<Rightarrow> bool" where "cc_IsConnected c = ccConnected c"
definition cc_GetLastActivity :: "client_connection \<Rightarrow> int" where "cc_GetLastActivity c = ccLastActivity c"

definition UpdateLastActivity :: "int \<Rightarrow> u32 \<Rightarrow> u64 \<Rightarrow> u8 \<Rightarrow> client_connection \<Rightarrow> client_connection" where
  "UpdateLastActivity now userID roomID loginID c =
     (let c1 = c\<lparr>ccLastActivity := now, ccUserID := userID, ccLoginID := loginID\<rparr>;
          c2 = (if roomID \<noteq> 0 then c1\<lparr>ccCurrentRoom := roomID\<rparr> else c1)
      in c2\<lparr>ccMessagesReceived := ccMessagesReceived c2 + 1\<rparr>)"

definition cc_IsExpired :: "int \<Rightarrow> int \<Rightarrow> client_connection \<Rightarrow> bool" where
  "cc_IsExpired now timeout c \<longleftrightarrow> now - cc_GetLastActivity c > timeout"

definition GetLastMessageSeq :: "client_connection \<Rightarrow> u64" where "GetLastMessageSeq c = ccLastMessageSeq c"
definition SetLastMessageSeq :: "u64 \<Rightarrow> client_connection \<Rightarrow> client_connection" where "SetLastMessageSeq s c = c\<lparr>ccLastMessageSeq := s\<rparr>"
definition GetLastProcessedID :: "client_connection \<Rightarrow> bytes option" where "GetLastProcessedID c = ccLastProcessedID c"
definition SetLastProcessedID :: "bytes option \<Rightarrow> client_connection \<Rightarrow> client_connection" where "SetLastProcessedID i c = c\<lparr>ccLastProcessedID := i\<rparr>"

definition cc_trySend :: "bytes \<Rightarrow> client_connection \<Rightarrow> (client_connection \<times> conn_error option) outcome" where
  "cc_trySend d c =
     (case try_send d (ccSendBuffer c) of
        Panic \<Rightarrow> Panic
      | Ret (ch, True) \<Rightarrow> Ret (c\<lparr>ccSendBuffer := ch\<rparr>, None)
      | Ret (ch, False) \<Rightarrow> Ret (c, Some (BufferFull [])))"

definition cc_Send :: "bytes \<Rightarrow> client_connection \<Rightarrow> (client_connection \<times> conn_error option) outcome" where
  "cc_Send d c = (if \<not> cc_IsConnected c then Ret (c, Some (NotConnected [])) else cc_trySend d c)"

definition cc_SendSync :: "string option \<Rightarrow> bytes \<Rightarrow> client_connection \<Rightarrow> client_connection \<times> conn_error option \<times> bytes list" where
  "cc_SendSync w d c =
     (if \<not> cc_IsConnected c then (c, Some (NotConnected []), [])
      else if ccConnection c = None then (c, Some (ConnectionNil []), [])
      else case w of
             Some e \<Rightarrow> (c, Some (WriteFailed e), [])
           | None \<Rightarrow> (c\<lparr>ccMessagesSent := ccMessagesSent c + 1,
                       ccBytesTransferred := ccBytesTransferred c + word_of_nat (length d)\<rparr>, None, [d]))"

definition cc_sendLoop :: "string option \<Rightarrow> client_connection \<Rightarrow> (client_connection \<times> bytes list) option" where
  "cc_sendLoop w c =
     (case receive (ccSendBuffer c) of
        None \<Rightarrow> None
      | Some (ch, None) \<Rightarrow> Some (c\<lparr>ccSendBuffer := ch, ccLoopAlive := False\<rparr>, [])
      | Some (ch, Some d) \<Rightarrow>
          (let c1 = c\<lparr>ccSendBuffer := ch\<rparr>
           in if \<not> cc_IsConnected c1 then Some (c1\<lparr>ccLoopAlive := False\<rparr>, [])
              else case cc_SendSync w d c1 of
                     (c2, Some e, _) \<Rightarrow> Some (c2\<lparr>ccLoopAlive := False\<rparr>, [])
                   | (c2, None, sent) \<Rightarrow> Some (c2, sent)))"

definition cc_Close :: "client_connection \<Rightarrow> (client_connection \<times> nat option) outcome" where
  "cc_Close c =
     (if \<not> ccConnected c then Ret (c, None)
      else let c1 = c\<lparr>ccConnected := False\<rparr>
           in case close_chan (ccSendBuffer c1) of
                Panic \<Rightarrow> Panic
              | Ret ch \<Rightarrow> Ret (c1\<lparr>ccSendBuffer := ch\<rparr>, ccConnection c1))"

section \<open>The send queue of a client\<close>

definition clientUpdates :: "(client_connection \<Rightarrow> client_connection) set" where
  "clientUpdates = range SetCurrentRoom \<union> range SetLastMessageSeq \<union> range SetLastProcessedID \<union>
     {UpdateLastActivity now u r l | now u r l. True}"

definition clientOps :: "client_connection conn_ops" where
  "clientOps = \<lparr>isConnected = cc_IsConnected, sendChan = ccSendBuffer, looping = ccLoopAlive, opPut = cc_trySend,
     opLoop = cc_sendLoop, opSync = (\<lambda>w d c. fst (cc_SendSync w d c)),
     opClose = (\<lambda>c. case cc_Close c of Panic \<Rightarrow> Panic | Ret (c', _) \<Rightarrow> Ret c'), opOther = clientUpdates\<rparr>"

lemma clientOps_simps [simp]:
  "isConnected clientOps = ccConnected" "sendChan clientOps = ccSendBuffer" "looping clientOps = ccLoopAlive"
  "opPut clientOps = cc_trySend" "opLoop clientOps = cc_sendLoop" "opSync clientOps = (\<lambda>w d c. fst (cc_SendSync w d c))"
  "opClose clientOps = (\<lambda>c. case cc_Close c of Panic \<Rightarrow> Panic | Ret (c', _) \<Rightarrow> Ret c')" "opOther clientOps = clientUpdates"
  by (simp_all add: clientOps_def fun_eq_iff cc_IsConnected_def)

lemma cc_SendSync_frame:
  "ccSendBuffer (fst (cc_SendSync w d c)) = ccSendBuffer c" "ccConnected (fst (cc_SendSync w d c)) = ccConnected c"
  "ccLoopAlive (fst (cc_SendSync w d c)) = ccLoopAlive c"
  by (auto simp: cc_SendSync_def split: option.splits)

lemma cc_SendSync_sent: "cc_SendSync w d c = (c', None, ds) \<Longrightarrow> ds = [d]"
  by (auto simp: cc_SendSync_def split: if_splits option.splits)

lemma cc_sendLoop_law:
  assumes "ccLoopAlive c" "cc_sendLoop w c = Some (c', ds)"
  shows "\<exists>ch v. receive (ccSendBuffer c) = Some (ch, v) \<and> ccSendBuffer c' = ch \<and> ccConnected c' = ccConnected c \<and>
    (if ccLoopAlive c' then \<exists>d. v = Some d \<and> ds = [d] else ds = [])"
proof -
  obtain ch v where r: "receive (ccSendBuffer c) = Some (ch, v)" using assms(2) by (auto simp: cc_sendLoop_def split: option.splits)
  show ?thesis
  proof (cases v)
    case None
    then show ?thesis using assms r by (auto simp: cc_sendLoop_def)
  next
    case (Some d)
    let ?c1 = "c\<lparr>ccSendBuffer := ch\<rparr>"
    obtain c2 e sent where s: "cc_SendSync w d ?c1 = (c2, e, sent)" by (rule prod_cases3)
    have f: "ccSendBuffer c2 = ch" "ccConnected c2 = ccConnected c" "ccLoopAlive c2 = ccLoopAlive c"
      using cc_SendSync_frame [of w d ?c1] s by simp_all
    show ?thesis
    proof (cases "\<not> ccConnected c \<or> e \<noteq> None")
      case True
      then show ?thesis using assms r Some s f by (auto simp: cc_sendLoop_def cc_IsConnected_def Let_def)
    next
      case False
      then have e: "e = None" "ccConnected c" by auto
      then have "c' = c2 \<and> ds = sent" using assms(2) r Some s by (simp add: cc_sendLoop_def cc_IsConnected_def)
      then show ?thesis using r Some f cc_SendSync_sent [of w d ?c1 c2 sent] s e assms(1) by simp
    qed
  qed
qed

interpretation client: send_queue clientOps
proof
  fix d c
  show "opPut clientOps d c = Panic \<longleftrightarrow> try_send d (sendChan clientOps c) = Panic"
    by (auto simp: cc_trySend_def split: outcome.splits prod.splits bool.splits)
next
  fix d c c' e
  assume "opPut clientOps d c = Ret (c', e)"
  then show "try_send d (sendChan clientOps c) = Ret (sendChan clientOps c', e = None) \<and>
      isConnected clientOps c' = isConnected clientOps c \<and> looping clientOps c' = looping clientOps c"
    by (auto simp: cc_trySend_def try_send_def split: if_splits)
next
  fix c w c' ds
  assume "looping clientOps c" "opLoop clientOps w c = Some (c', ds)"
  then show "\<exists>ch v. receive (sendChan clientOps c) = Some (ch, v) \<and> sendChan clientOps c' = ch \<and>
      isConnected clientOps c' = isConnected clientOps c \<and>
      (if looping clientOps c' then \<exists>d. v = Some d \<and> ds = [d] else ds = [])"
    using cc_sendLoop_law by simp
next
  fix c :: client_connection
  assume "isConnected clientOps c" "\<not> chClosed (sendChan clientOps c)"
  then show "\<exists>c'. opClose clientOps c = Ret c' \<and> sendChan clientOps c' = sendChan clientOps c\<lparr>chClosed := True\<rparr> \<and>
      \<not> isConnected clientOps c' \<and> looping clientOps c' = looping clientOps c"
    by (simp add: cc_Close_def close_chan_def)
next
  fix f c
  assume "f \<in> opOther clientOps"
  then show "sendChan clientOps (f c) = sendChan clientOps c \<and> isConnected clientOps (f c) = isConnected clientOps c \<and>
      looping clientOps (f c) = looping clientOps c"
    by (auto simp: clientUpdates_def SetCurrentRoom_def SetLastMessageSeq_def SetLastProcessedID_def
        UpdateLastActivity_def Let_def split: if_splits)
qed (simp_all add: cc_SendSync_frame cc_Close_def)

lemma client_ok_start: "queue_ok clientOps 100 (conn_start (NewClientConnection now i c))"
  by (rule queue_ok_start) (simp_all add: NewClientConnection_def)

lemma cc_Close_facts: "cc_Close c = Ret (c', x) \<Longrightarrow> \<not> ccConnected c' \<and> ccID c' = ccID c \<and> ccUserID c' = ccUserID c"
  by (auto simp: cc_Close_def Let_def split: outcome.splits if_splits)

end
