(* ===== verification/ConnectionManager.thy ===== *)
theory ConnectionManager
  imports ClientConnection GlobalId
begin

text \<open>
  \<^verbatim>\<open>connection/connection_manager.go\<close>: the connections of a node, by id and by user.  Both maps hold
  pointers, so the connection objects live in a store (\<open>heap\<close>, from addresses to objects) and the maps
  hold addresses; a Go map is an association list in the order of iteration.  Each method runs under the
  manager's mutex and is one transition.
\<close>

type_synonym heap = "nat \<Rightarrow> client_connection"

record connection_manager =
  connections :: "(string \<times> nat) list"
  userConns :: "(u32 \<times> (string \<times> nat) list) list"
  maxConnections :: int
  connectionTimeout :: int
  connSeqGenerator :: conn_seq_gen
  totalConnections :: i64
  activeConnections :: i64
  rejectedConnections :: i64

datatype cm_error =
    NilConnection | MaxConnectionsReached int | ConnectionExists string | ConnectionNotFound string
  | NoActiveConnections u32 | SendFailed u32

text \<open>\<^verbatim>\<open>5 * time.Minute\<close> in nanoseconds\<close>

definition NewConnectionManager :: "int \<Rightarrow> connection_manager" where
  "NewConnectionManager limit =
     \<lparr>connections = [], userConns = [], maxConnections = limit, connectionTimeout = 300000000000,
      connSeqGenerator = NewConnSeqGenerator, totalConnections = 0, activeConnections = 0,
      rejectedConnections = 0\<rparr>"

definition AddConnection :: "heap \<Rightarrow> connection_manager \<Rightarrow> nat option \<Rightarrow> connection_manager \<times> (cm_error + unit)" where
  "AddConnection h cm p =
     (case p of
        None \<Rightarrow> (cm, Inl NilConnection)
      | Some a \<Rightarrow>
          if int (length (connections cm)) \<ge> maxConnections cm
          then (cm\<lparr>rejectedConnections := rejectedConnections cm + 1\<rparr>, Inl (MaxConnectionsReached (maxConnections cm)))
          else if map_of (connections cm) (cc_GetID (h a)) \<noteq> None
          then (cm, Inl (ConnectionExists (cc_GetID (h a))))
          else (cm\<lparr>connections := AList.update (cc_GetID (h a)) a (connections cm),
                   totalConnections := totalConnections cm + 1, activeConnections := activeConnections cm + 1\<rparr>, Inr ()))"

text \<open>The entry of a connection leaves the map of its user, and an empty map goes.\<close>

definition dropUser :: "u32 \<Rightarrow> string \<Rightarrow> connection_manager \<Rightarrow> connection_manager" where
  "dropUser userID connID cm =
     (if userID = 0 then cm
      else case map_of (userConns cm) userID of
             None \<Rightarrow> cm
           | Some m \<Rightarrow>
               (let m' = AList.delete connID m
                in if m' = [] then cm\<lparr>userConns := AList.delete userID (userConns cm)\<rparr>
                   else cm\<lparr>userConns := AList.update userID m' (userConns cm)\<rparr>))"

definition dropConnection :: "string \<Rightarrow> connection_manager \<Rightarrow> connection_manager" where
  "dropConnection connID cm =
     cm\<lparr>connections := AList.delete connID (connections cm), activeConnections := activeConnections cm - 1\<rparr>"

definition closeAt :: "nat \<Rightarrow> heap \<Rightarrow> heap outcome" where
  "closeAt a h = (case cc_Close (h a) of Panic \<Rightarrow> Panic | Ret (c, _) \<Rightarrow> Ret (h(a := c)))"

definition RemoveConnection :: "heap \<Rightarrow> connection_manager \<Rightarrow> string
    \<Rightarrow> (heap \<times> connection_manager \<times> (cm_error + unit)) outcome" where
  "RemoveConnection h cm connID =
     (case map_of (connections cm) connID of
        None \<Rightarrow> Ret (h, cm, Inl (ConnectionNotFound connID))
      | Some a \<Rightarrow>
          (case closeAt a h of
             Panic \<Rightarrow> Panic
           | Ret h' \<Rightarrow> Ret (h', dropConnection connID (dropUser (GetUserID (h a)) connID cm), Inr ())))"

definition cm_GetConnection :: "connection_manager \<Rightarrow> string \<Rightarrow> nat option" where
  "cm_GetConnection cm connID = map_of (connections cm) connID"

definition GetUserConnections :: "heap \<Rightarrow> connection_manager \<Rightarrow> u32 \<Rightarrow> nat list" where
  "GetUserConnections h cm userID =
     (case map_of (userConns cm) userID of
        None \<Rightarrow> []
      | Some m \<Rightarrow> filter (\<lambda>a. cc_IsConnected (h a)) (map snd m))"

definition UpdateUserConnection :: "heap \<Rightarrow> connection_manager \<Rightarrow> nat option \<Rightarrow> connection_manager" where
  "UpdateUserConnection h cm p =
     (case p of
        None \<Rightarrow> cm
      | Some a \<Rightarrow>
          (let userID = GetUserID (h a)
           in if userID = 0 then cm
              else let m = (case map_of (userConns cm) userID of None \<Rightarrow> [] | Some m \<Rightarrow> m)
                   in cm\<lparr>userConns := AList.update userID (AList.update (cc_GetID (h a)) a m) (userConns cm)\<rparr>))"

text \<open>\<^verbatim>\<open>Send\<close> to each of a list of connections: the new store and how many sends succeeded.\<close>

fun sendAll :: "bytes \<Rightarrow> nat list \<Rightarrow> heap \<Rightarrow> (heap \<times> nat) outcome" where
  "sendAll d [] h = Ret (h, 0)"
| "sendAll d (a # as) h =
     (case cc_Send d (h a) of
        Panic \<Rightarrow> Panic
      | Ret (c, e) \<Rightarrow>
          (case sendAll d as (h(a := c)) of
             Panic \<Rightarrow> Panic
           | Ret (h', n) \<Rightarrow> Ret (h', if e = None then Suc n else n)))"

definition BroadcastToUser :: "heap \<Rightarrow> connection_manager \<Rightarrow> u32 \<Rightarrow> bytes \<Rightarrow> (heap \<times> (cm_error + unit)) outcome" where
  "BroadcastToUser h cm userID data =
     (let cs = GetUserConnections h cm userID
      in if cs = [] then Ret (h, Inl (NoActiveConnections userID))
         else case sendAll data cs h of
                Panic \<Rightarrow> Panic
              | Ret (h', sent) \<Rightarrow> Ret (h', if sent = 0 then Inl (SendFailed userID) else Inr ()))"

definition BroadcastToAll :: "heap \<Rightarrow> connection_manager \<Rightarrow> bytes \<Rightarrow> (client_connection \<Rightarrow> bool) option \<Rightarrow> heap outcome" where
  "BroadcastToAll h cm data flt =
     (let cs = filter (\<lambda>a. case flt of None \<Rightarrow> True | Some f \<Rightarrow> f (h a)) (map snd (connections cm))
      in case sendAll data cs h of Panic \<Rightarrow> Panic | Ret (h', _) \<Rightarrow> Ret h')"

definition expired :: "int \<Rightarrow> heap \<Rightarrow> connection_manager \<Rightarrow> string list" where
  "expired now h cm =
     map fst (filter (\<lambda>(_, a). \<not> cc_IsConnected (h a) \<or> cc_IsExpired now (connectionTimeout cm) (h a)) (connections cm))"

fun cleanupAll :: "string list \<Rightarrow> heap \<Rightarrow> connection_manager \<Rightarrow> (heap \<times> connection_manager) outcome" where
  "cleanupAll [] h cm = Ret (h, cm)"
| "cleanupAll (connID # ids) h cm =
     (case map_of (connections cm) connID of
        None \<Rightarrow> cleanupAll ids h cm
      | Some a \<Rightarrow>
          (let cm' = dropConnection connID (dropUser (GetUserID (h a)) connID cm)
           in case closeAt a h of Panic \<Rightarrow> Panic | Ret h' \<Rightarrow> cleanupAll ids h' cm'))"

definition CleanupExpiredConnections :: "int \<Rightarrow> heap \<Rightarrow> connection_manager \<Rightarrow> (heap \<times> connection_manager) outcome" where
  "CleanupExpiredConnections now h cm = cleanupAll (expired now h cm) h cm"

fun closeEach :: "nat list \<Rightarrow> heap \<Rightarrow> heap outcome" where
  "closeEach [] h = Ret h"
| "closeEach (a # as) h = (case closeAt a h of Panic \<Rightarrow> Panic | Ret h' \<Rightarrow> closeEach as h')"

definition CloseAllConnections :: "heap \<Rightarrow> connection_manager \<Rightarrow> (heap \<times> connection_manager) outcome" where
  "CloseAllConnections h cm =
     (case closeEach (map snd (connections cm)) h of
        Panic \<Rightarrow> Panic
      | Ret h' \<Rightarrow> Ret (h', cm\<lparr>connections := [], userConns := [], activeConnections := 0\<rparr>))"

definition GetConnectionByUserAndLogin :: "heap \<Rightarrow> connection_manager \<Rightarrow> u32 \<Rightarrow> u8 \<Rightarrow> nat option" where
  "GetConnectionByUserAndLogin h cm userID loginID =
     find (\<lambda>a. GetLoginID (h a) = loginID) (GetUserConnections h cm userID)"

definition GetActiveConnectionCount :: "connection_manager \<Rightarrow> int" where
  "GetActiveConnectionCount cm = sint (activeConnections cm)"

record cm_stats =
  cs_total :: i64
  cs_active :: i64
  cs_rejected :: i64
  cs_count :: nat
  cs_users :: nat
  cs_max :: int

definition cm_GetStats :: "connection_manager \<Rightarrow> cm_stats" where
  "cm_GetStats cm = \<lparr>cs_total = totalConnections cm, cs_active = activeConnections cm, cs_rejected = rejectedConnections cm,
     cs_count = length (connections cm), cs_users = length (userConns cm), cs_max = maxConnections cm\<rparr>"

section \<open>Runs\<close>

text \<open>What happens on a node: a connection is made at a free address, a message names a user and a room,
  and the methods of the manager.\<close>

datatype cm_op =
    OpNew nat string int "nat option"
  | OpTouch nat int u32 u64 u8
  | OpAdd nat
  | OpRemove string
  | OpUser nat
  | OpToUser u32 bytes
  | OpToAll bytes
  | OpExpire int
  | OpCloseAll

definition inUse :: "connection_manager \<Rightarrow> nat \<Rightarrow> bool" where
  "inUse cm a \<longleftrightarrow> a \<in> snd ` set (connections cm)"

fun cmStep :: "heap \<times> connection_manager \<Rightarrow> cm_op \<Rightarrow> (heap \<times> connection_manager) outcome" where
  "cmStep (h, cm) (OpNew a i now c) =
     Ret (if inUse cm a then h else h(a := NewClientConnection now i c), cm)"
| "cmStep (h, cm) (OpTouch a now u r l) = Ret (h(a := UpdateLastActivity now u r l (h a)), cm)"
| "cmStep (h, cm) (OpAdd a) = Ret (h, fst (AddConnection h cm (Some a)))"
| "cmStep (h, cm) (OpRemove i) = (case RemoveConnection h cm i of Panic \<Rightarrow> Panic | Ret (h', cm', _) \<Rightarrow> Ret (h', cm'))"
| "cmStep (h, cm) (OpUser a) = Ret (h, UpdateUserConnection h cm (Some a))"
| "cmStep (h, cm) (OpToUser u d) = (case BroadcastToUser h cm u d of Panic \<Rightarrow> Panic | Ret (h', _) \<Rightarrow> Ret (h', cm))"
| "cmStep (h, cm) (OpToAll d) = (case BroadcastToAll h cm d None of Panic \<Rightarrow> Panic | Ret h' \<Rightarrow> Ret (h', cm))"
| "cmStep (h, cm) (OpExpire now) = CleanupExpiredConnections now h cm"
| "cmStep (h, cm) OpCloseAll = CloseAllConnections h cm"

fun cmRun :: "heap \<times> connection_manager \<Rightarrow> cm_op list \<Rightarrow> (heap \<times> connection_manager) outcome" where
  "cmRun s [] = Ret s"
| "cmRun s (x # xs) = (case cmStep s x of Panic \<Rightarrow> Panic | Ret s' \<Rightarrow> cmRun s' xs)"

section \<open>The invariant\<close>

text \<open>No object is connected with a closed channel or the other way round.\<close>

definition heap_ok :: "heap \<Rightarrow> bool" where
  "heap_ok h \<longleftrightarrow> (\<forall>a. ccConnected (h a) = (\<not> chClosed (ccSendBuffer (h a))))"

definition cm_ok :: "heap \<Rightarrow> connection_manager \<Rightarrow> bool" where
  "cm_ok h cm \<longleftrightarrow>
     distinct (map fst (connections cm)) \<and>
     (\<forall>(i, a) \<in> set (connections cm). ccID (h a) = i) \<and>
     int (length (connections cm)) \<le> max 0 (maxConnections cm) \<and>
     activeConnections cm = of_nat (length (connections cm))"

definition same_ids :: "heap \<Rightarrow> heap \<Rightarrow> bool" where
  "same_ids h h' \<longleftrightarrow> (\<forall>a. ccID (h' a) = ccID (h a))"

lemma cm_ok_heap: "cm_ok h cm \<Longrightarrow> same_ids h h' \<Longrightarrow> cm_ok h' cm"
  by (auto simp: cm_ok_def same_ids_def)

lemma closeAt_ok:
  assumes "heap_ok h"
  obtains h' where "closeAt a h = Ret h'" "heap_ok h'" "same_ids h h'"
proof -
  have "ccConnected (h a) = (\<not> chClosed (ccSendBuffer (h a)))" using assms by (simp add: heap_ok_def)
  then obtain c x where c: "cc_Close (h a) = Ret (c, x)" "ccConnected c = (\<not> chClosed (ccSendBuffer c))" "ccID c = ccID (h a)"
    by (auto simp: cc_Close_def close_chan_def Let_def)
  show ?thesis
  proof (rule that [of "h(a := c)"])
    show "closeAt a h = Ret (h(a := c))" using c by (simp add: closeAt_def)
    show "heap_ok (h(a := c))" using assms c by (simp add: heap_ok_def)
    show "same_ids h (h(a := c))" using c by (simp add: same_ids_def)
  qed
qed

lemma cc_Send_ok:
  assumes "ccConnected c = (\<not> chClosed (ccSendBuffer c))"
  shows "\<exists>c' e. cc_Send d c = Ret (c', e) \<and> ccConnected c' = (\<not> chClosed (ccSendBuffer c')) \<and> ccID c' = ccID c"
  using assms by (auto simp: cc_Send_def cc_IsConnected_def cc_trySend_def try_send_def)

lemma sendAll_ok: "heap_ok h \<Longrightarrow> \<exists>h' n. sendAll d as h = Ret (h', n) \<and> heap_ok h' \<and> same_ids h h'"
proof (induction as arbitrary: h)
  case (Cons a as)
  obtain c e where c: "cc_Send d (h a) = Ret (c, e)" "ccConnected c = (\<not> chClosed (ccSendBuffer c))" "ccID c = ccID (h a)"
    using cc_Send_ok [of "h a" d] Cons.prems by (auto simp: heap_ok_def)
  have "heap_ok (h(a := c))" using Cons.prems c by (simp add: heap_ok_def)
  then obtain h' n where "sendAll d as (h(a := c)) = Ret (h', n)" "heap_ok h'" "same_ids (h(a := c)) h'"
    using Cons.IH by blast
  then show ?case using c by (auto simp: same_ids_def)
qed (simp add: same_ids_def)

lemma dropUser_fields [simp]:
  "connections (dropUser u i cm) = connections cm" "maxConnections (dropUser u i cm) = maxConnections cm"
  "activeConnections (dropUser u i cm) = activeConnections cm"
  by (auto simp: dropUser_def Let_def split: option.splits)

lemma drop_ok:
  assumes "cm_ok h cm" "map_of (connections cm) i = Some a"
  shows "cm_ok h (dropConnection i (dropUser u i cm))"
proof -
  have d: "distinct (map fst (connections cm))" using assms(1) by (simp add: cm_ok_def)
  have l: "Suc (length (AList.delete i (connections cm))) = length (connections cm)" by (rule delete_length [OF d assms(2)])
  have s: "set (AList.delete i (connections cm)) \<subseteq> set (connections cm)" by (auto simp: AList.delete_eq)
  have a: "(of_nat (length (connections cm)) :: i64) - 1 = of_nat (length (AList.delete i (connections cm)))"
    unfolding l [symmetric] by simp
  have "distinct (map fst (AList.delete i (connections cm)))" using d by (rule distinct_delete)
  then show ?thesis using assms(1) l s a by (auto simp: cm_ok_def dropConnection_def)
qed

lemma Remove_ok:
  assumes "heap_ok h" "cm_ok h cm"
  shows "\<exists>h' cm' e. RemoveConnection h cm i = Ret (h', cm', e) \<and> heap_ok h' \<and> cm_ok h' cm'"
proof (cases "map_of (connections cm) i")
  case (Some a)
  obtain h' where h: "closeAt a h = Ret h'" "heap_ok h'" "same_ids h h'" using closeAt_ok [OF assms(1)] .
  then show ?thesis using Some cm_ok_heap [OF drop_ok [OF assms(2) Some]] by (simp add: RemoveConnection_def)
qed (use assms in \<open>simp add: RemoveConnection_def\<close>)

lemma cleanupAll_ok:
  "heap_ok h \<Longrightarrow> cm_ok h cm \<Longrightarrow> \<exists>h' cm'. cleanupAll ids h cm = Ret (h', cm') \<and> heap_ok h' \<and> cm_ok h' cm'"
proof (induction ids arbitrary: h cm)
  case (Cons i ids)
  show ?case
  proof (cases "map_of (connections cm) i")
    case None
    then show ?thesis using Cons by simp
  next
    case (Some a)
    obtain h' where h: "closeAt a h = Ret h'" "heap_ok h'" "same_ids h h'" using closeAt_ok [OF Cons.prems(1)] .
    have "cm_ok h' (dropConnection i (dropUser (GetUserID (h a)) i cm))"
      using cm_ok_heap [OF drop_ok [OF Cons.prems(2) Some] h(3)] .
    then show ?thesis using Some h Cons.IH [OF h(2)] by (simp add: Let_def)
  qed
qed simp

lemma closeEach_ok: "heap_ok h \<Longrightarrow> \<exists>h'. closeEach as h = Ret h' \<and> heap_ok h'"
proof (induction as arbitrary: h)
  case (Cons a as)
  obtain h' where "closeAt a h = Ret h'" "heap_ok h'" using closeAt_ok [OF Cons.prems] by metis
  then show ?case using Cons.IH by simp
qed simp

lemma Add_ok: "cm_ok h cm \<Longrightarrow> cm_ok h (fst (AddConnection h cm (Some a)))"
proof -
  assume ok: "cm_ok h cm"
  show ?thesis
  proof (cases "int (length (connections cm)) \<ge> maxConnections cm \<or> map_of (connections cm) (ccID (h a)) \<noteq> None")
    case True
    then show ?thesis using ok by (auto simp: AddConnection_def cc_GetID_def cm_ok_def)
  next
    case False
    then have "ccID (h a) \<notin> fst ` set (connections cm)" by (simp add: map_of_eq_None_iff)
    then have u: "AList.update (ccID (h a)) a (connections cm) = connections cm @ [(ccID (h a), a)]" by (rule update_new)
    show ?thesis using ok False
      by (auto simp: AddConnection_def cc_GetID_def cm_ok_def u map_of_eq_None_iff)
  qed
qed

lemma cmStep_ok:
  assumes "heap_ok h" "cm_ok h cm"
  shows "\<exists>h' cm'. cmStep (h, cm) x = Ret (h', cm') \<and> heap_ok h' \<and> cm_ok h' cm'"
proof (cases x)
  case (OpNew a i now c)
  show ?thesis
  proof (cases "inUse cm a")
    case True
    then show ?thesis using OpNew assms by simp
  next
    case False
    have "heap_ok (h(a := NewClientConnection now i c))" using assms by (simp add: heap_ok_def NewClientConnection_def make_chan_def)
    moreover have "cm_ok (h(a := NewClientConnection now i c)) cm" using assms False by (force simp: cm_ok_def inUse_def)
    ultimately show ?thesis using OpNew False by simp
  qed
next
  case (OpTouch a now u r l)
  let ?h = "h(a := UpdateLastActivity now u r l (h a))"
  have "heap_ok ?h" using assms(1) by (auto simp: heap_ok_def UpdateLastActivity_def Let_def)
  moreover have "same_ids h ?h" by (auto simp: same_ids_def UpdateLastActivity_def Let_def)
  ultimately show ?thesis using OpTouch cm_ok_heap [OF assms(2)] by simp
next
  case (OpAdd a)
  then show ?thesis using assms Add_ok by simp
next
  case (OpRemove i)
  then show ?thesis using Remove_ok [OF assms, of i] by auto
next
  case (OpUser a)
  have "cm_ok h (UpdateUserConnection h cm (Some a))" using assms(2) by (simp add: UpdateUserConnection_def cm_ok_def Let_def)
  then show ?thesis using OpUser assms(1) by simp
next
  case (OpToUser u d)
  obtain h' n where "sendAll d (GetUserConnections h cm u) h = Ret (h', n)" "heap_ok h'" "same_ids h h'"
    using sendAll_ok [OF assms(1)] by blast
  then show ?thesis using OpToUser assms cm_ok_heap [OF assms(2)] by (simp add: BroadcastToUser_def Let_def)
next
  case (OpToAll d)
  obtain h' n where "sendAll d (map snd (connections cm)) h = Ret (h', n)" "heap_ok h'" "same_ids h h'"
    using sendAll_ok [OF assms(1)] by blast
  then show ?thesis using OpToAll cm_ok_heap [OF assms(2)] by (simp add: BroadcastToAll_def)
next
  case (OpExpire now)
  then show ?thesis using cleanupAll_ok [OF assms] by (simp add: CleanupExpiredConnections_def)
next
  case OpCloseAll
  obtain h' where "closeEach (map snd (connections cm)) h = Ret h'" "heap_ok h'" using closeEach_ok [OF assms(1)] by blast
  then show ?thesis using OpCloseAll by (simp add: CloseAllConnections_def cm_ok_def)
qed

lemma cmRun_ok:
  "heap_ok h \<Longrightarrow> cm_ok h cm \<Longrightarrow> \<exists>h' cm'. cmRun (h, cm) xs = Ret (h', cm') \<and> heap_ok h' \<and> cm_ok h' cm'"
proof (induction xs arbitrary: h cm)
  case (Cons x xs)
  obtain h' cm' where s: "cmStep (h, cm) x = Ret (h', cm')" "heap_ok h'" "cm_ok h' cm'" using cmStep_ok [OF Cons.prems] by blast
  then show ?case using Cons.IH [OF s(2,3)] by simp
qed simp

text \<open>Whatever the connections, messages, broadcasts, removals and clean-ups of a node: nothing panics,
  the counter of active connections is the size of the map, no id is registered twice or for another
  connection, and the configured limit is kept.\<close>

theorem connections_invariant:
  assumes "heap_ok h"
  shows "\<exists>h' cm. cmRun (h, NewConnectionManager limit) xs = Ret (h', cm) \<and> heap_ok h' \<and>
    distinct (map fst (connections cm)) \<and> (\<forall>(i, a) \<in> set (connections cm). cc_GetID (h' a) = i) \<and>
    int (length (connections cm)) \<le> max 0 (maxConnections cm) \<and>
    activeConnections cm = of_nat (length (connections cm))"
proof -
  have "cm_ok h (NewConnectionManager limit)" by (simp add: cm_ok_def NewConnectionManager_def)
  from cmRun_ok [OF assms this, of xs] show ?thesis by (auto simp: cm_ok_def cc_GetID_def)
qed

theorem connections_invariant_witness:
  "\<exists>h cm. cmRun (\<lambda>_. NewClientConnection 0 ''c'' None, NewConnectionManager 1)
      [OpAdd 0, OpNew 1 ''d'' 5 None, OpAdd 1, OpExpire 300000000001] = Ret (h, cm) \<and> heap_ok h \<and>
    distinct (map fst (connections cm)) \<and> (\<forall>(i, a) \<in> set (connections cm). cc_GetID (h a) = i) \<and>
    int (length (connections cm)) \<le> max 0 (maxConnections cm) \<and>
    activeConnections cm = of_nat (length (connections cm))"
proof -
  have "heap_ok (\<lambda>_. NewClientConnection 0 ''c'' None)" by (simp add: heap_ok_def NewClientConnection_def make_chan_def)
  from connections_invariant [OF this] show ?thesis by blast
qed

section \<open>A connection that changes its user\<close>

text \<open>The entries of users are only ever removed for the user a connection has at the end.\<close>

lemma user_entry:
  assumes "ccUserID (h a) = u" "u \<noteq> 0"
  shows "\<exists>m. map_of (userConns (UpdateUserConnection h cm (Some a))) u = Some m \<and> map_of m (ccID (h a)) = Some a"
  using assms by (simp add: UpdateUserConnection_def GetUserID_def cc_GetID_def Let_def update_Some_unfold AList.update_conv)

lemma user_entry_other:
  assumes "ccUserID (h a) \<noteq> u"
  shows "map_of (userConns (UpdateUserConnection h cm (Some a))) u = map_of (userConns cm) u"
  using assms by (simp add: UpdateUserConnection_def GetUserID_def Let_def AList.update_conv)

lemma dropUser_other: "u' \<noteq> u \<Longrightarrow> map_of (userConns (dropUser u i cm)) u' = map_of (userConns cm) u'"
  by (auto simp: dropUser_def Let_def AList.update_conv AList.delete_conv split: option.splits)

text \<open>The user of a connection is whatever the last message named, and the map of users keeps the old
  entry: after a connection has spoken for one user and then for another, a message to the first user is
  delivered to it, and the entry is still there when the connection has been removed.\<close>

theorem switched_user_still_receives:
  fixes h :: heap and cm :: connection_manager and now :: int and r :: u64 and l :: u8
  assumes "ccConnected (h a)" "ccUserID (h a) = u" "u \<noteq> 0" "u' \<noteq> 0" "u' \<noteq> u"
  defines "cm1 \<equiv> UpdateUserConnection h cm (Some a)"
    and "h2 \<equiv> h(a := UpdateLastActivity now u' r l (h a))"
  defines "cm2 \<equiv> UpdateUserConnection h2 cm1 (Some a)"
  shows "GetUserID (h2 a) = u' \<and> a \<in> set (GetUserConnections h2 cm2 u') \<and> a \<in> set (GetUserConnections h2 cm2 u) \<and>
    (\<forall>h3 cm3 e. RemoveConnection h2 cm2 (cc_GetID (h a)) = Ret (h3, cm3, e) \<and> map_of (connections cm2) (cc_GetID (h a)) = Some a
       \<longrightarrow> (\<exists>m. map_of (userConns cm3) u = Some m \<and> map_of m (cc_GetID (h a)) = Some a))"
proof -
  have ids: "ccID (h2 a) = ccID (h a)" "ccUserID (h2 a) = u'" "ccConnected (h2 a)"
    using assms(1) by (simp_all add: h2_def UpdateLastActivity_def Let_def)
  obtain m where m: "map_of (userConns cm1) u = Some m" "map_of m (ccID (h a)) = Some a"
    using user_entry [of h a u cm] assms(2,3) by (auto simp: cm1_def)
  have m2: "map_of (userConns cm2) u = Some m"
    using user_entry_other [of h2 a u cm1] ids(2) assms(5) m(1) by (simp add: cm2_def)
  obtain m' where m': "map_of (userConns cm2) u' = Some m'" "map_of m' (ccID (h2 a)) = Some a"
    using user_entry [of h2 a u' cm1] ids(2) assms(4) by (auto simp: cm2_def)
  have "a \<in> snd ` set m" "a \<in> snd ` set m'" using m(2) m'(2) by (force dest: map_of_SomeD)+
  then have g: "a \<in> set (GetUserConnections h2 cm2 u)" "a \<in> set (GetUserConnections h2 cm2 u')"
    using m2 m'(1) ids(3) by (simp_all add: GetUserConnections_def cc_IsConnected_def)
  have "map_of (userConns cm3) u = Some m"
    if "RemoveConnection h2 cm2 (ccID (h a)) = Ret (h3, cm3, e)" "map_of (connections cm2) (ccID (h a)) = Some a" for h3 cm3 e
    using that dropUser_other [OF assms(5) [symmetric], of "ccID (h a)" cm2] m2 ids(2)
    by (auto simp: RemoveConnection_def dropConnection_def GetUserID_def split: outcome.splits)
  then show ?thesis using g ids(2) m(2) by (auto simp: GetUserID_def cc_GetID_def)
qed

theorem switched_user_still_receives_witness:
  "let h = (\<lambda>_. NewClientConnection 0 ''c'' None\<lparr>ccUserID := 7\<rparr>);
       h2 = h(0 := UpdateLastActivity 1 8 0 0 (h 0));
       cm2 = UpdateUserConnection h2 (UpdateUserConnection h (NewConnectionManager 5) (Some 0)) (Some 0)
   in GetUserID (h2 0) = 8 \<and> 0 \<in> set (GetUserConnections h2 cm2 7)"
  using switched_user_still_receives [where h = "\<lambda>_. NewClientConnection 0 ''c'' None\<lparr>ccUserID := 7\<rparr>" and a = 0 and
      u = 7 and u' = 8 and cm = "NewConnectionManager 5" and now = 1 and r = 0 and l = 0]
  by (simp add: Let_def NewClientConnection_def)

end
