(* ===== verification/ConnectionNode.thy ===== *)
theory ConnectionNode
  imports ConnectionManager RoomManager Envelope
begin

text \<open>
  A connection node at work: \<^verbatim>\<open>connection/server.go\<close> (the paths of a message),
  \<^verbatim>\<open>connection/message_handler.go\<close>, \<^verbatim>\<open>connection/disconnect_handler.go\<close> and
  \<^verbatim>\<open>connection/event_handler.go\<close>, composed of the rooms of \<open>RoomManager\<close>, the connections of
  \<open>ConnectionManager\<close> and the envelopes of \<open>Envelope\<close>.

  What the node does not decide itself is the environment \<open>node_env\<close>: protobuf, Redis, the generator of
  message ids (\<open>GlobalId\<close>; its result depends on the clock), the link to the routers
  (\<^verbatim>\<open>connection/router_manager.go\<close>, which takes an envelope or fails with an error), the order in which
  Go walks over the members of a room, and the texts of errors.  The wall clock is an argument
  (nanoseconds).
\<close>

section \<open>The node\<close>

datatype node_error =
    SerializeError codec_error | DeserializeError codec_error | ExtractError codec_error
  | ClientSendError conn_error | UnsupportedMessage | BroadcastRoomNotFound u64
  | UnknownConnection | UnmanagedConnection string | ManagerError cm_error

record ('r, 'g, 'q) node_env =
  envMarshal :: "envelope \<Rightarrow> bytes option"
  envUnmarshal :: "bytes \<Rightarrow> envelope option"
  envRedis :: "'r Redis"
  envNewID :: "'g \<Rightarrow> u32 \<Rightarrow> u32 \<Rightarrow> u8 \<Rightarrow> 'g \<times> global_id"
  envRoute :: "'q \<Rightarrow> envelope \<Rightarrow> 'q \<times> string option"
  envRouterAddrs :: "'q \<Rightarrow> string list"
  envOrder :: "string set \<Rightarrow> string list"
  envRoomError :: "room_error \<Rightarrow> string"
  envNodeError :: "node_error \<Rightarrow> string"

record ('r, 'g, 'q) cnode =
  store :: heap
  connectionManager :: connection_manager
  roomManager :: "'r room_manager"
  idGen :: 'g
  nodeSeq :: conn_seq_gen
  routerManager :: 'q
  messagesProcessed :: i64
  messagesFailed :: i64
  roomMessages :: i64
  systemMessages :: i64
  statTotal :: i64
  statAccepted :: i64
  statActive :: i64
  statReceived :: i64
  statSent :: i64
  statDropped :: i64
  statRoomMessages :: i64

text \<open>An action on the node: it returns with an error or without, or a goroutine panics.\<close>

type_synonym ('r, 'g, 'q) action = "('r, 'g, 'q) cnode \<Rightarrow> (('r, 'g, 'q) cnode \<times> node_error option) outcome"

text \<open>\<^verbatim>\<open>time.Now().UnixMilli()\<close>\<close>

definition millis :: "int \<Rightarrow> int" where "millis now = now div 1000000"

text \<open>\<^verbatim>\<open>codec.CreateEnvelope(user, room, login, connSeqGenerator.Next(), msg)\<close> for one of the message structs.\<close>

definition makeEnvelope :: "('r, 'g, 'q) node_env \<Rightarrow> u32 \<Rightarrow> u32 \<Rightarrow> u8 \<Rightarrow> message \<Rightarrow> ('r, 'g, 'q) cnode
    \<Rightarrow> ('r, 'g, 'q) cnode \<times> envelope" where
  "makeEnvelope E userID roomID loginID msg n =
     (let (sq, s) = SeqNext (nodeSeq n);
          (g, i) = envNewID E (idGen n) userID roomID loginID
      in (n\<lparr>nodeSeq := sq, idGen := g\<rparr>, \<lparr>ConnectionSeqId = s, MessageId = ToBytes i, Message = Some msg\<rparr>))"

section \<open>Sending\<close>

definition SendMessageToClient :: "('r, 'g, 'q) node_env \<Rightarrow> int \<Rightarrow> nat \<Rightarrow> envelope \<Rightarrow> ('r, 'g, 'q) action" where
  "SendMessageToClient E now a env n =
     (case Serialize (envMarshal E) (millis now) (Some env) of
        Inl e \<Rightarrow> Ret (n, Some (SerializeError e))
      | Inr data \<Rightarrow>
          (case cc_Send data (store n a) of
             Panic \<Rightarrow> Panic
           | Ret (c, Some e) \<Rightarrow> Ret (n\<lparr>store := (store n)(a := c), statDropped := statDropped n + 1\<rparr>, Some (ClientSendError e))
           | Ret (c, None) \<Rightarrow> Ret (n\<lparr>store := (store n)(a := c), statSent := statSent n + 1\<rparr>, None)))"

text \<open>The loop of \<^verbatim>\<open>BroadcastToRoom\<close> over the ids of the members.\<close>

fun roomLoop :: "connection_manager \<Rightarrow> bytes \<Rightarrow> string option \<Rightarrow> string list \<Rightarrow> heap \<Rightarrow> (heap \<times> nat \<times> nat) outcome" where
  "roomLoop cm data excl [] h = Ret (h, 0, 0)"
| "roomLoop cm data excl (connID # ids) h =
     (case cm_GetConnection cm connID of
        None \<Rightarrow> roomLoop cm data excl ids h
      | Some a \<Rightarrow>
          if excl = Some (cc_GetID (h a)) then roomLoop cm data excl ids h
          else case cc_Send data (h a) of
                 Panic \<Rightarrow> Panic
               | Ret (c, e) \<Rightarrow>
                   (case roomLoop cm data excl ids (h(a := c)) of
                      Panic \<Rightarrow> Panic
                    | Ret (h', sent, dropped) \<Rightarrow>
                        Ret (h', if e = None then Suc sent else sent, if e = None then dropped else Suc dropped)))"

definition BroadcastToRoom :: "('r, 'g, 'q) node_env \<Rightarrow> int \<Rightarrow> u64 \<Rightarrow> envelope \<Rightarrow> nat option \<Rightarrow> ('r, 'g, 'q) action" where
  "BroadcastToRoom E now roomID env exclude n =
     (let (rm, found) = GetRoom (envRedis E) (roomManager n) roomID;
          n1 = n\<lparr>roomManager := rm\<rparr>
      in case found of
           None \<Rightarrow> Ret (n1, Some (BroadcastRoomNotFound roomID))
         | Some r \<Rightarrow>
             (case Serialize (envMarshal E) (millis now) (Some env) of
                Inl e \<Rightarrow> Ret (n1, Some (SerializeError e))
              | Inr data \<Rightarrow>
                  (case roomLoop (connectionManager n1) data (map_option (\<lambda>x. cc_GetID (store n1 x)) exclude)
                          (envOrder E (members r)) (store n1) of
                     Panic \<Rightarrow> Panic
                   | Ret (h, sent, dropped) \<Rightarrow>
                       Ret (n1\<lparr>store := h, statDropped := statDropped n1 + of_nat dropped,
                               statSent := statSent n1 + of_nat sent, statRoomMessages := statRoomMessages n1 + 1\<rparr>, None))))"

section \<open>Helpers of the message handler\<close>

definition createRouterMessage :: "('r, 'g, 'q) node_env \<Rightarrow> nat \<Rightarrow> message \<Rightarrow> ('r, 'g, 'q) cnode
    \<Rightarrow> ('r, 'g, 'q) cnode \<times> envelope" where
  "createRouterMessage E a msg n =
     (let c = store n a in makeEnvelope E (GetUserID c) (ucast (GetCurrentRoom c)) (GetLoginID c) msg n)"

text \<open>\<^verbatim>\<open>SendMessageToRouter\<close>: the new state and the error.\<close>

definition SendMessageToRouter :: "('r, 'g, 'q) node_env \<Rightarrow> envelope \<Rightarrow> ('r, 'g, 'q) cnode \<Rightarrow> ('r, 'g, 'q) cnode \<times> string option" where
  "SendMessageToRouter E env n = (let (q, err) = envRoute E (routerManager n) env in (n\<lparr>routerManager := q\<rparr>, err))"

text \<open>The handlers that log a failure of the routers and go on.\<close>

definition forward :: "('r, 'g, 'q) node_env \<Rightarrow> nat \<Rightarrow> message \<Rightarrow> ('r, 'g, 'q) cnode \<Rightarrow> ('r, 'g, 'q) cnode \<times> string option" where
  "forward E a msg n = (let (n1, env) = createRouterMessage E a msg n in SendMessageToRouter E env n1)"

definition broadcastSystemMessage :: "('r, 'g, 'q) node_env \<Rightarrow> int \<Rightarrow> u64 \<Rightarrow> string \<Rightarrow> nat option \<Rightarrow> ('r, 'g, 'q) cnode
    \<Rightarrow> ('r, 'g, 'q) cnode outcome" where
  "broadcastSystemMessage E now roomID content exclude n =
     (let (n1, env) = makeEnvelope E 0 (ucast roomID) 0
            (ChatMessage \<lparr>cm_content = content, cm_type = MESSAGE_TYPE_TEXT, cm_reply_to = 0\<rparr>) n
      in case BroadcastToRoom E now roomID env exclude n1 of Panic \<Rightarrow> Panic | Ret (n2, _) \<Rightarrow> Ret n2)"

definition sendResponse :: "('r, 'g, 'q) node_env \<Rightarrow> int \<Rightarrow> nat \<Rightarrow> message \<Rightarrow> ('r, 'g, 'q) action" where
  "sendResponse E now a msg n =
     (let c = store n a;
          (n1, env) = makeEnvelope E (GetUserID c) (ucast (GetCurrentRoom c)) (GetLoginID c) msg n
      in SendMessageToClient E now a env n1)"

definition sendErrorResponse :: "('r, 'g, 'q) action" where
  "sendErrorResponse n = Ret (n\<lparr>messagesFailed := messagesFailed n + 1\<rparr>, None)"

definition sendCreateRoomError :: "('r, 'g, 'q) node_env \<Rightarrow> int \<Rightarrow> nat \<Rightarrow> string \<Rightarrow> ('r, 'g, 'q) action" where
  "sendCreateRoomError E now a reason = sendResponse E now a (CreateRoomAck 0 CREATE_ROOM_FAILED reason [])"
definition sendJoinRoomError :: "('r, 'g, 'q) node_env \<Rightarrow> int \<Rightarrow> nat \<Rightarrow> string \<Rightarrow> ('r, 'g, 'q) action" where
  "sendJoinRoomError E now a reason = sendResponse E now a (JoinRoomAck 0 JOIN_ROOM_FAILED reason None [])"
definition sendLeaveRoomError :: "('r, 'g, 'q) node_env \<Rightarrow> int \<Rightarrow> nat \<Rightarrow> string \<Rightarrow> ('r, 'g, 'q) action" where
  "sendLeaveRoomError E now a reason = sendResponse E now a (LeaveRoomAck 0 LEAVE_ROOM_FAILED reason)"
definition sendCloseRoomError :: "('r, 'g, 'q) node_env \<Rightarrow> int \<Rightarrow> nat \<Rightarrow> string \<Rightarrow> ('r, 'g, 'q) action" where
  "sendCloseRoomError E now a reason = sendResponse E now a (CloseRoomAck 0 CLOSE_ROOM_FAILED reason)"
definition sendChatMessageError :: "('r, 'g, 'q) node_env \<Rightarrow> int \<Rightarrow> nat \<Rightarrow> string \<Rightarrow> ('r, 'g, 'q) action" where
  "sendChatMessageError E now a reason n =
     sendResponse E now a (ChatMessageAck (GetCurrentRoom (store n a)) CHAT_MESSAGE_FAILED reason) n"
definition sendMessageFetchError :: "('r, 'g, 'q) node_env \<Rightarrow> int \<Rightarrow> nat \<Rightarrow> bytes \<Rightarrow> string \<Rightarrow> ('r, 'g, 'q) action" where
  "sendMessageFetchError E now a i reason =
     sendResponse E now a (MessageFetchResponse \<lparr>mfs_message_id = i, mfs_exists = False,
       mfs_status = MESSAGE_STATUS_FAILED, mfs_reason = reason, mfs_processed_at = 0, mfs_content = None\<rparr>)"
definition sendRoomMessageFetchError :: "('r, 'g, 'q) node_env \<Rightarrow> int \<Rightarrow> nat \<Rightarrow> string \<Rightarrow> ('r, 'g, 'q) action" where
  "sendRoomMessageFetchError E now a reason n =
     sendResponse E now a (RoomMessageFetchResponse \<lparr>rfs_room_id = GetCurrentRoom (store n a), rfs_messages = [],
       rfs_has_more = False, rfs_next_before_id = 0, rfs_status = ROOM_MESSAGE_FETCH_FAILED, rfs_reason = reason\<rparr>) n"

text \<open>Counters and fields of the connection.\<close>

definition countSystem :: "('r, 'g, 'q) cnode \<Rightarrow> ('r, 'g, 'q) cnode" where
  "countSystem n = n\<lparr>systemMessages := systemMessages n + 1\<rparr>"
definition setRoomOf :: "nat \<Rightarrow> u64 \<Rightarrow> ('r, 'g, 'q) cnode \<Rightarrow> ('r, 'g, 'q) cnode" where
  "setRoomOf a r n = n\<lparr>store := (store n)(a := SetCurrentRoom r (store n a))\<rparr>"
definition registerUser :: "nat \<Rightarrow> ('r, 'g, 'q) cnode \<Rightarrow> ('r, 'g, 'q) cnode" where
  "registerUser a n = n\<lparr>connectionManager := UpdateUserConnection (store n) (connectionManager n) (Some a)\<rparr>"

section \<open>The message handler\<close>

definition handleLocalRoomIdAllocation :: "('r, 'g, 'q) node_env \<Rightarrow> int \<Rightarrow> nat \<Rightarrow> ('r, 'g, 'q) action" where
  "handleLocalRoomIdAllocation E now a =
     sendResponse E now a (AllocateRoomIdAck (word_of_int (millis now)) ALLOCATE_ROOM_ID_SUCCESS ''Allocated locally'')"

definition handleAllocateRoomId :: "('r, 'g, 'q) node_env \<Rightarrow> int \<Rightarrow> nat \<Rightarrow> ('r, 'g, 'q) action" where
  "handleAllocateRoomId E now a n =
     (let (n1, err) = forward E a AllocateRoomId (countSystem n)
      in if err \<noteq> None then handleLocalRoomIdAllocation E now a n1 else Ret (n1, None))"

definition handleCreateRoom :: "('r, 'g, 'q) node_env \<Rightarrow> int \<Rightarrow> nat \<Rightarrow> CreateRoomMsg \<Rightarrow> ('r, 'g, 'q) action" where
  "handleCreateRoom E now a req n0 =
     (let n = countSystem n0; userID = GetUserID (store n a)
      in if userID = 0 then sendCreateRoomError E now a ''User not authenticated'' n
         else if cr_room_id req = 0 then sendCreateRoomError E now a ''Invalid room ID'' n
         else if cr_name req = [] then sendCreateRoomError E now a ''Room name is required'' n
         else let req1 = (if cr_max_members req = 0 then req\<lparr>cr_max_members := 100\<rparr> else req);
                  (rm1, res) = RoomManager.CreateRoom (envRedis E) now (roomManager n) (cr_room_id req1) (cr_name req1)
                     userID (cr_max_members req1) (cr_password req1);
                  n1 = n\<lparr>roomManager := rm1\<rparr>
              in case res of
                   Inl e \<Rightarrow> sendCreateRoomError E now a (envRoomError E e) n1
                 | Inr _ \<Rightarrow>
                     (let n2 = setRoomOf a (cr_room_id req1) n1;
                          (rm2, res2) = RoomManager.JoinRoom (envRedis E) now (roomManager n2) (cr_room_id req1)
                             (cc_GetID (store n2 a)) (cr_password req1);
                          n3 = n2\<lparr>roomManager := rm2\<rparr>
                      in case res2 of
                           Inl e \<Rightarrow> sendCreateRoomError E now a (''Failed to join created room: '' @ envRoomError E e) n3
                         | Inr _ \<Rightarrow>
                             (let (n4, _) = forward E a (Envelope.CreateRoom req1) (registerUser a n3)
                              in sendResponse E now a (CreateRoomAck (cr_room_id req1) CREATE_ROOM_SUCCESS
                                   ''Room created successfully'' (envRouterAddrs E (routerManager n4))) n4)))"

text \<open>\<^verbatim>\<open>message.RoomStatus(roomInfo.Status)\<close>: the two enumerations have the same numbers.\<close>

definition statusMsg :: "RoomStatus \<Rightarrow> RoomStatusMsg" where
  "statusMsg s = (case s of RoomStatusOpen \<Rightarrow> ROOM_STATUS_OPEN | RoomStatusClosed \<Rightarrow> ROOM_STATUS_CLOSED
     | RoomStatusFull \<Rightarrow> ROOM_STATUS_FULL)"

definition roomInfoMsg :: "room \<Rightarrow> RoomInfoMsg" where
  "roomInfoMsg r = \<lparr>ri_room_id = ID r, ri_name = Name r, ri_creator_id = ucast (CreatorID r), ri_max_members = MaxMembers r,
     ri_current_members = MemberCount r, ri_created_at = word_of_int (CreatedAt r div 1000000000),
     ri_status = statusMsg (Status r), ri_member_ids = [], ri_password = Password r\<rparr>"

definition handleJoinRoom :: "('r, 'g, 'q) node_env \<Rightarrow> int \<Rightarrow> nat \<Rightarrow> string \<Rightarrow> ('r, 'g, 'q) action" where
  "handleJoinRoom E now a password n0 =
     (let n = countSystem n0; userID = GetUserID (store n a); roomID = GetCurrentRoom (store n a)
      in if userID = 0 then sendJoinRoomError E now a ''User not authenticated'' n
         else if roomID = 0 then sendJoinRoomError E now a ''Room ID not specified'' n
         else let (rm1, res) = RoomManager.JoinRoom (envRedis E) now (roomManager n) roomID (cc_GetID (store n a)) password;
                  n1 = n\<lparr>roomManager := rm1\<rparr>
              in case res of
                   Inl e \<Rightarrow> sendJoinRoomError E now a (envRoomError E e) n1
                 | Inr _ \<Rightarrow>
                     (let n2 = registerUser a n1;
                          (rm2, found) = GetRoom (envRedis E) (roomManager n2) roomID;
                          n3 = n2\<lparr>roomManager := rm2\<rparr>
                      in case found of
                           None \<Rightarrow> sendJoinRoomError E now a ''Room not found after join'' n3
                         | Some r \<Rightarrow>
                             (let (n4, _) = forward E a (Envelope.JoinRoom password) n3
                              in case broadcastSystemMessage E now roomID
                                        (''User '' @ dec_string (unat userID) @ '' joined the room'') (Some a) n4 of
                                   Panic \<Rightarrow> Panic
                                 | Ret n5 \<Rightarrow>
                                     sendResponse E now a (JoinRoomAck roomID JOIN_ROOM_SUCCESS ''Joined room successfully''
                                       (Some (roomInfoMsg r)) (envRouterAddrs E (routerManager n5))) n5)))"

definition handleLeaveRoom :: "('r, 'g, 'q) node_env \<Rightarrow> int \<Rightarrow> nat \<Rightarrow> ('r, 'g, 'q) action" where
  "handleLeaveRoom E now a n0 =
     (let n = countSystem n0; userID = GetUserID (store n a); roomID = GetCurrentRoom (store n a)
      in if roomID = 0 then sendLeaveRoomError E now a ''Not in any room'' n
         else let (rm1, res) = RoomManager.LeaveRoom (envRedis E) now (roomManager n) roomID (cc_GetID (store n a));
                  n1 = n\<lparr>roomManager := rm1\<rparr>
              in case res of
                   Inl e \<Rightarrow> sendLeaveRoomError E now a (envRoomError E e) n1
                 | Inr _ \<Rightarrow>
                     (let (n2, _) = forward E a Envelope.LeaveRoom (setRoomOf a 0 n1)
                      in case broadcastSystemMessage E now roomID
                                (''User '' @ dec_string (unat userID) @ '' left the room'') (Some a) n2 of
                           Panic \<Rightarrow> Panic
                         | Ret n3 \<Rightarrow>
                             sendResponse E now a (LeaveRoomAck roomID LEAVE_ROOM_SUCCESS ''Left room successfully'') n3))"

definition handleCloseRoom :: "('r, 'g, 'q) node_env \<Rightarrow> int \<Rightarrow> nat \<Rightarrow> ('r, 'g, 'q) action" where
  "handleCloseRoom E now a n0 =
     (let n = countSystem n0; userID = GetUserID (store n a); roomID = GetCurrentRoom (store n a)
      in if roomID = 0 then sendCloseRoomError E now a ''Not in any room'' n
         else case broadcastSystemMessage E now roomID ''Room has been closed by the creator'' None n of
                Panic \<Rightarrow> Panic
              | Ret n1 \<Rightarrow>
                  (let (rm1, res) = RoomManager.CloseRoom (envRedis E) now (roomManager n1) roomID userID;
                       n2 = n1\<lparr>roomManager := rm1\<rparr>
                   in case res of
                        Inl e \<Rightarrow> sendCloseRoomError E now a (envRoomError E e) n2
                      | Inr _ \<Rightarrow>
                          (let (n3, _) = forward E a Envelope.CloseRoom n2
                           in sendResponse E now a (CloseRoomAck roomID CLOSE_ROOM_SUCCESS ''Room closed successfully'') n3)))"

definition handleChatMessage :: "('r, 'g, 'q) node_env \<Rightarrow> int \<Rightarrow> nat \<Rightarrow> envelope \<Rightarrow> ChatMessageMsg \<Rightarrow> ('r, 'g, 'q) action" where
  "handleChatMessage E now a env req n0 =
     (let n = n0\<lparr>roomMessages := roomMessages n0 + 1\<rparr>; userID = GetUserID (store n a); roomID = GetCurrentRoom (store n a);
          ack = ChatMessageAck roomID CHAT_MESSAGE_SUCCESS ''Message received''
      in if userID = 0 then sendChatMessageError E now a ''User not authenticated'' n
         else if roomID = 0 then sendChatMessageError E now a ''Not in any room'' n
         else if cm_content req = [] then sendChatMessageError E now a ''Message content is empty'' n
         else let (n1, err) = forward E a (ChatMessage req) n
              in if err = None then sendResponse E now a ack n1
                 else case BroadcastToRoom E now roomID env None n1 of
                        Panic \<Rightarrow> Panic
                      | Ret (n2, Some e) \<Rightarrow>
                          sendChatMessageError E now a (''Failed to broadcast message: '' @ envNodeError E e) n2
                      | Ret (n2, None) \<Rightarrow> sendResponse E now a ack n2)"

definition handleMessageFetchRequest :: "('r, 'g, 'q) node_env \<Rightarrow> int \<Rightarrow> nat \<Rightarrow> envelope \<Rightarrow> MessageFetchRequestMsg \<Rightarrow> ('r, 'g, 'q) action" where
  "handleMessageFetchRequest E now a env req n =
     (let (n1, err) = forward E a (MessageFetchRequest req) n
      in case err of Some e \<Rightarrow> sendMessageFetchError E now a (MessageId env) (''Failed to query message: '' @ e) n1 | None \<Rightarrow> Ret (n1, None))"

definition handleRoomMessageFetchRequest :: "('r, 'g, 'q) node_env \<Rightarrow> int \<Rightarrow> nat \<Rightarrow> RoomMessageFetchRequestMsg \<Rightarrow> ('r, 'g, 'q) action" where
  "handleRoomMessageFetchRequest E now a req n =
     (if GetUserID (store n a) = 0 then sendRoomMessageFetchError E now a ''User not authenticated'' n
      else let (n1, err) = forward E a (RoomMessageFetchRequest req) n
           in case err of Some e \<Rightarrow> sendRoomMessageFetchError E now a (''Failed to query room messages: '' @ e) n1 | None \<Rightarrow> Ret (n1, None))"

definition handleHeartbeat :: "('r, 'g, 'q) node_env \<Rightarrow> int \<Rightarrow> nat \<Rightarrow> u64 \<Rightarrow> ('r, 'g, 'q) action" where
  "handleHeartbeat E now a timestamp = sendResponse E now a (HeartbeatAck timestamp (word_of_int (millis now)))"

definition HandleMessage :: "('r, 'g, 'q) node_env \<Rightarrow> int \<Rightarrow> nat \<Rightarrow> envelope \<Rightarrow> ('r, 'g, 'q) action" where
  "HandleMessage E now a env n0 =
     (let n = n0\<lparr>messagesProcessed := messagesProcessed n0 + 1\<rparr>
      in case Message env of
           Some AllocateRoomId \<Rightarrow> handleAllocateRoomId E now a n
         | Some (Envelope.CreateRoom req) \<Rightarrow> handleCreateRoom E now a req n
         | Some (Envelope.JoinRoom pw) \<Rightarrow> handleJoinRoom E now a pw n
         | Some Envelope.LeaveRoom \<Rightarrow> handleLeaveRoom E now a n
         | Some Envelope.CloseRoom \<Rightarrow> handleCloseRoom E now a n
         | Some (ChatMessage req) \<Rightarrow> handleChatMessage E now a env req n
         | Some (MessageFetchRequest req) \<Rightarrow> handleMessageFetchRequest E now a env req n
         | Some (RoomMessageFetchRequest req) \<Rightarrow> handleRoomMessageFetchRequest E now a req n
         | Some (Heartbeat ts) \<Rightarrow> handleHeartbeat E now a ts n
         | _ \<Rightarrow> Ret (n\<lparr>messagesFailed := messagesFailed n + 1\<rparr>, Some UnsupportedMessage))"

section \<open>The server\<close>

definition server_HandleMessage :: "('r, 'g, 'q) node_env \<Rightarrow> int \<Rightarrow> nat \<Rightarrow> bytes \<Rightarrow> ('r, 'g, 'q) action" where
  "server_HandleMessage E now a data n =
     (case Deserialize (envUnmarshal E) (millis now) data of
        Inl e \<Rightarrow> Ret (n, Some (DeserializeError e))
      | Inr env \<Rightarrow>
          (let n1 = n\<lparr>statReceived := statReceived n + 1\<rparr>
           in case ExtractMessageInfo (millis now) (Some env) of
                Inl e \<Rightarrow> Ret (n1, Some (ExtractError e))
              | Inr (userID, roomID, loginID, _) \<Rightarrow>
                  HandleMessage E now a env
                    (n1\<lparr>store := (store n1)(a := UpdateLastActivity now userID (ucast roomID) loginID (store n1 a))\<rparr>)))"

text \<open>The part of \<^verbatim>\<open>performCleanup\<close> that touches connections and rooms.\<close>

definition performCleanup :: "('r, 'g, 'q) node_env \<Rightarrow> int \<Rightarrow> ('r, 'g, 'q) cnode \<Rightarrow> ('r, 'g, 'q) cnode outcome" where
  "performCleanup E now n =
     (case CleanupExpiredConnections now (store n) (connectionManager n) of
        Panic \<Rightarrow> Panic
      | Ret (h, cm) \<Rightarrow>
          Ret (n\<lparr>store := h, connectionManager := cm, roomManager := CleanupEmptyRooms (envRedis E) now (roomManager n)\<rparr>))"

section \<open>Disconnects\<close>

definition isRoomOwner :: "u32 \<Rightarrow> room \<Rightarrow> bool" where
  "isRoomOwner userID r \<longleftrightarrow> userID = CreatorID r"

definition handleOwnerDisconnect :: "('r, 'g, 'q) node_env \<Rightarrow> int \<Rightarrow> nat \<Rightarrow> room \<Rightarrow> ('r, 'g, 'q) action" where
  "handleOwnerDisconnect E now a r n =
     (let (n1, env) = makeEnvelope E (GetUserID (store n a)) (ucast (ID r)) (GetLoginID (store n a)) Envelope.CloseRoom n
      in HandleMessage E now a env n1)"

definition handleMemberDisconnect :: "('r, 'g, 'q) node_env \<Rightarrow> int \<Rightarrow> nat \<Rightarrow> room \<Rightarrow> ('r, 'g, 'q) action" where
  "handleMemberDisconnect E now a r n =
     (let (n1, env) = makeEnvelope E (GetUserID (store n a)) (ucast (ID r)) (GetLoginID (store n a)) Envelope.LeaveRoom n
      in HandleMessage E now a env n1)"

definition HandleUserDisconnect :: "('r, 'g, 'q) node_env \<Rightarrow> int \<Rightarrow> nat \<Rightarrow> ('r, 'g, 'q) action" where
  "HandleUserDisconnect E now a n =
     (let userID = GetUserID (store n a); currentRoomID = GetCurrentRoom (store n a)
      in if currentRoomID = 0 then Ret (n, None)
         else let (rm, found) = GetRoom (envRedis E) (roomManager n) currentRoomID; n1 = n\<lparr>roomManager := rm\<rparr>
              in case found of
                   None \<Rightarrow> Ret (n1, None)
                 | Some r \<Rightarrow> if isRoomOwner userID r then handleOwnerDisconnect E now a r n1
                             else handleMemberDisconnect E now a r n1)"

section \<open>Events of the network\<close>

definition generateConnectionID :: "string \<Rightarrow> int \<Rightarrow> string" where
  "generateConnectionID remoteAddr now = remoteAddr @ ''_'' @ dec_string (nat now)"

text \<open>The new object is at the address \<open>a\<close>.\<close>

definition OnConnectionAccepted :: "int \<Rightarrow> nat \<Rightarrow> nat \<Rightarrow> string \<Rightarrow> ('r, 'g, 'q) cnode \<Rightarrow> ('r, 'g, 'q) cnode" where
  "OnConnectionAccepted now a underlying remoteAddr n =
     (let h = (store n)(a := NewClientConnection now (generateConnectionID remoteAddr now) (Some underlying));
          (cm, res) = AddConnection h (connectionManager n) (Some a);
          n1 = n\<lparr>store := h, connectionManager := cm\<rparr>
      in case res of
           Inl _ \<Rightarrow> n1
         | Inr _ \<Rightarrow> n1\<lparr>statTotal := statTotal n1 + 1, statAccepted := statAccepted n1 + 1, statActive := statActive n1 + 1\<rparr>)"

definition getConnectionID :: "nat \<Rightarrow> ('r, 'g, 'q) cnode \<Rightarrow> string option" where
  "getConnectionID underlying n =
     map_option fst (find (\<lambda>(_, a). ccConnection (store n a) = Some underlying) (connections (connectionManager n)))"

definition broadcastUserOfflineMessage :: "('r, 'g, 'q) node_env \<Rightarrow> int \<Rightarrow> u64 \<Rightarrow> u32 \<Rightarrow> nat \<Rightarrow> ('r, 'g, 'q) cnode
    \<Rightarrow> ('r, 'g, 'q) cnode outcome" where
  "broadcastUserOfflineMessage E now roomID userID a =
     broadcastSystemMessage E now roomID (''User '' @ dec_string (unat userID) @ '' went offline'') (Some a)"

definition fallbackDisconnectCleanup :: "('r, 'g, 'q) node_env \<Rightarrow> int \<Rightarrow> nat \<Rightarrow> u64 \<Rightarrow> u32 \<Rightarrow> ('r, 'g, 'q) cnode
    \<Rightarrow> ('r, 'g, 'q) cnode outcome" where
  "fallbackDisconnectCleanup E now a roomID userID n =
     (let (rm, res) = RoomManager.LeaveRoom (envRedis E) now (roomManager n) roomID (cc_GetID (store n a));
          n1 = n\<lparr>roomManager := rm\<rparr>
      in case res of
           Inl _ \<Rightarrow> Ret n1
         | Inr _ \<Rightarrow> broadcastUserOfflineMessage E now roomID userID a n1)"

definition handleConnectionDisconnect :: "('r, 'g, 'q) node_env \<Rightarrow> int \<Rightarrow> nat \<Rightarrow> ('r, 'g, 'q) cnode
    \<Rightarrow> ('r, 'g, 'q) cnode outcome" where
  "handleConnectionDisconnect E now a n =
     (let userID = GetUserID (store n a); roomID = GetCurrentRoom (store n a)
      in if roomID \<noteq> 0 \<and> userID \<noteq> 0
         then case HandleUserDisconnect E now a n of
                Panic \<Rightarrow> Panic
              | Ret (n1, Some _) \<Rightarrow> fallbackDisconnectCleanup E now a roomID userID n1
              | Ret (n1, None) \<Rightarrow> Ret n1
         else Ret n)"

definition OnConnectionClosed :: "('r, 'g, 'q) node_env \<Rightarrow> int \<Rightarrow> nat \<Rightarrow> ('r, 'g, 'q) cnode \<Rightarrow> ('r, 'g, 'q) cnode outcome" where
  "OnConnectionClosed E now underlying n =
     (case getConnectionID underlying n of
        None \<Rightarrow> Ret n
      | Some connID \<Rightarrow>
          (case cm_GetConnection (connectionManager n) connID of
             None \<Rightarrow> Ret n
           | Some a \<Rightarrow>
               (case handleConnectionDisconnect E now a n of
                  Panic \<Rightarrow> Panic
                | Ret n1 \<Rightarrow>
                    (case RemoveConnection (store n1) (connectionManager n1) connID of
                       Panic \<Rightarrow> Panic
                     | Ret (h, cm, _) \<Rightarrow>
                         Ret (n1\<lparr>store := h, connectionManager := cm, statActive := statActive n1 - 1\<rparr>)))))"

definition OnMessageReceived :: "('r, 'g, 'q) node_env \<Rightarrow> int \<Rightarrow> nat \<Rightarrow> bytes \<Rightarrow> ('r, 'g, 'q) action" where
  "OnMessageReceived E now underlying data n =
     (case getConnectionID underlying n of
        None \<Rightarrow> Ret (n, Some UnknownConnection)
      | Some connID \<Rightarrow>
          (case cm_GetConnection (connectionManager n) connID of
             None \<Rightarrow> Ret (n, Some (UnmanagedConnection connID))
           | Some a \<Rightarrow>
               (case server_HandleMessage E now a data n of
                  Panic \<Rightarrow> Panic
                | Ret (n1, Some e) \<Rightarrow> Ret (n1, Some e)
                | Ret (n1, None) \<Rightarrow> Ret (n1\<lparr>statReceived := statReceived n1 + 1\<rparr>, None))))"

end
