(* ===== verification/ConnectionNodeCorrect.thy ===== *)
theory ConnectionNodeCorrect
  imports ConnectionNode
begin

text \<open>
  What holds of a connection node that handles one event after the other: no event panics, and the counts of its rooms
  and connections are right; a broadcast reaches exactly the members; and what follows from taking the user and the room of
  a message from the message itself, without authentication.
\<close>

section \<open>The invariant of a node\<close>

definition node_ok :: "('r, 'g, 'q) node_env \<Rightarrow> ('r, 'g, 'q) cnode \<Rightarrow> bool" where
  "node_ok E n \<longleftrightarrow> heap_ok (store n) \<and> cm_ok (store n) (connectionManager n) \<and> manager_ok (envRedis E) (roomManager n)"

text \<open>A step that only fills buffers, draws ids and counts: rooms, connections and who they are for stay.\<close>

definition same_client :: "client_connection \<Rightarrow> client_connection \<Rightarrow> bool" where
  "same_client c c' \<longleftrightarrow> ccID c' = ccID c \<and> ccUserID c' = ccUserID c \<and> ccCurrentRoom c' = ccCurrentRoom c \<and>
     ccConnection c' = ccConnection c \<and> ccConnected c' = ccConnected c \<and> chClosed (ccSendBuffer c') = chClosed (ccSendBuffer c)"

definition quiet :: "('r, 'g, 'q) cnode \<Rightarrow> ('r, 'g, 'q) cnode \<Rightarrow> bool" where
  "quiet n n' \<longleftrightarrow> roomManager n' = roomManager n \<and> connectionManager n' = connectionManager n \<and>
     (\<forall>a. same_client (store n a) (store n' a))"

lemma same_client_refl [simp]: "same_client c c" and quiet_refl [simp]: "quiet n n"
  by (simp_all add: same_client_def quiet_def)

lemma same_client_trans: "same_client c c' \<Longrightarrow> same_client c' c'' \<Longrightarrow> same_client c c''"
  by (simp add: same_client_def)

lemma act_quiet_trans: "quiet n n' \<Longrightarrow> quiet n' n'' \<Longrightarrow> quiet n n''"
  using same_client_trans by (force simp: quiet_def)

lemma quiet_ok:
  assumes "node_ok E n" "quiet n n'"
  shows "node_ok E n'"
proof -
  have "heap_ok (store n')" using assms by (simp add: node_ok_def quiet_def heap_ok_def same_client_def)
  moreover have "same_ids (store n) (store n')" using assms(2) by (simp add: quiet_def same_ids_def same_client_def)
  ultimately show ?thesis using assms cm_ok_heap by (auto simp: node_ok_def quiet_def)
qed

lemma quiet_fields:
  "quiet n (n\<lparr>nodeSeq := sq, idGen := g\<rparr>)" "quiet n (n\<lparr>routerManager := q\<rparr>)"
  "quiet n (n\<lparr>messagesProcessed := i\<rparr>)" "quiet n (n\<lparr>messagesFailed := i\<rparr>)" "quiet n (n\<lparr>roomMessages := i\<rparr>)"
  "quiet n (n\<lparr>systemMessages := i\<rparr>)" "quiet n (n\<lparr>statReceived := i\<rparr>)"
  by (simp_all add: quiet_def)

lemma quiet_store: "quiet n n' \<Longrightarrow> GetUserID (store n' a) = GetUserID (store n a) \<and>
    GetCurrentRoom (store n' a) = GetCurrentRoom (store n a) \<and> cc_GetID (store n' a) = cc_GetID (store n a)"
  by (simp add: quiet_def same_client_def GetUserID_def GetCurrentRoom_def cc_GetID_def)

text \<open>A quiet action that always returns.\<close>

definition quiet_act :: "('r, 'g, 'q) node_env \<Rightarrow> ('r, 'g, 'q) action \<Rightarrow> bool" where
  "quiet_act E f \<longleftrightarrow> (\<forall>n. node_ok E n \<longrightarrow> (\<exists>n' e. f n = Ret (n', e) \<and> quiet n n'))"

lemma quiet_actE:
  assumes "quiet_act E f" "node_ok E n"
  obtains n' e where "f n = Ret (n', e)" "quiet n n'" "node_ok E n'"
  using assms quiet_ok unfolding quiet_act_def by blast

lemma makeEnvelope_quiet: "quiet n (fst (makeEnvelope E u r l msg n))"
  by (simp add: makeEnvelope_def quiet_fields split: prod.splits)

lemma cc_Send_same:
  assumes "ccConnected c = (\<not> chClosed (ccSendBuffer c))"
  shows "\<exists>c' e. cc_Send d c = Ret (c', e) \<and> same_client c c'"
  using assms by (auto simp: cc_Send_def cc_IsConnected_def cc_trySend_def try_send_def same_client_def)

lemma Send_quiet: "quiet_act E (SendMessageToClient E now a env)"
  unfolding quiet_act_def
proof (intro allI impI)
  fix n
  assume ok: "node_ok E n"
  show "\<exists>n' e. SendMessageToClient E now a env n = Ret (n', e) \<and> quiet n n'"
  proof (cases "Serialize (envMarshal E) (millis now) (Some env)")
    case (Inl e)
    then show ?thesis by (simp add: SendMessageToClient_def)
  next
    case (Inr d)
    have "ccConnected (store n a) = (\<not> chClosed (ccSendBuffer (store n a)))" using ok by (simp add: node_ok_def heap_ok_def)
    then obtain c e where c: "cc_Send d (store n a) = Ret (c, e)" "same_client (store n a) c" using cc_Send_same by blast
    then show ?thesis using Inr by (cases e) (simp_all add: SendMessageToClient_def quiet_def)
  qed
qed

lemma roomLoop_quiet:
  "heap_ok h \<Longrightarrow> \<exists>h' s d. roomLoop cm data excl ids h = Ret (h', s, d) \<and> (\<forall>a. same_client (h a) (h' a))"
proof (induction ids arbitrary: h)
  case (Cons i ids)
  show ?case
  proof (cases "cm_GetConnection cm i")
    case None
    then show ?thesis using Cons by simp
  next
    case (Some a)
    have "ccConnected (h a) = (\<not> chClosed (ccSendBuffer (h a)))" using Cons.prems by (simp add: heap_ok_def)
    then obtain c e where c: "cc_Send data (h a) = Ret (c, e)" "same_client (h a) c" using cc_Send_same by blast
    have "heap_ok (h(a := c))" using Cons.prems c(2) by (simp add: heap_ok_def same_client_def)
    then obtain h' s d where h': "roomLoop cm data excl ids (h(a := c)) = Ret (h', s, d)" "\<forall>x. same_client ((h(a := c)) x) (h' x)"
      using Cons.IH by blast
    have "same_client (h x) (h' x)" for x
      using h'(2) [rule_format, of x] c(2) same_client_trans by (cases "x = a") auto
    then show ?thesis using Some c h'(1) Cons by auto
  qed
qed simp

lemma Broadcast_quiet: "quiet_act E (BroadcastToRoom E now roomID env exclude)"
  unfolding quiet_act_def
proof (intro allI impI)
  fix n
  assume ok: "node_ok E n"
  then have m: "manager_ok (envRedis E) (roomManager n)" and h: "heap_ok (store n)" by (simp_all add: node_ok_def)
  have g: "GetRoom (envRedis E) (roomManager n) roomID = (roomManager n, map_of (rooms (roomManager n)) roomID)"
    using GetRoom_known [OF m, of roomID] by (cases "GetRoom (envRedis E) (roomManager n) roomID") simp
  show "\<exists>n' e. BroadcastToRoom E now roomID env exclude n = Ret (n', e) \<and> quiet n n'"
  proof (cases "map_of (rooms (roomManager n)) roomID")
    case None
    then show ?thesis using g by (simp add: BroadcastToRoom_def)
  next
    case (Some r)
    show ?thesis
    proof (cases "Serialize (envMarshal E) (millis now) (Some env)")
      case (Inl e)
      then show ?thesis using g Some by (simp add: BroadcastToRoom_def)
    next
      case (Inr d)
      obtain h' s k where "roomLoop (connectionManager n) d (map_option (\<lambda>x. cc_GetID (store n x)) exclude)
          (envOrder E (members r)) (store n) = Ret (h', s, k)" "\<forall>a. same_client (store n a) (h' a)"
        using roomLoop_quiet [OF h] by blast
      then show ?thesis using g Some Inr by (simp add: BroadcastToRoom_def quiet_def)
    qed
  qed
qed

lemma quiet_after:
  assumes "quiet_act E f" "node_ok E n" "quiet n n1"
  shows "\<exists>n' e. f n1 = Ret (n', e) \<and> quiet n n'"
  using quiet_actE [OF assms(1) quiet_ok [OF assms(2,3)]] act_quiet_trans [OF assms(3)] by metis

lemma system_quiet: "node_ok E n \<Longrightarrow> \<exists>n'. broadcastSystemMessage E now roomID content exclude n = Ret n' \<and> quiet n n'"
proof -
  assume ok: "node_ok E n"
  let ?m = "makeEnvelope E 0 (ucast roomID) 0 (ChatMessage \<lparr>cm_content = content, cm_type = MESSAGE_TYPE_TEXT, cm_reply_to = 0\<rparr>) n"
  have "quiet n (fst ?m)" by (rule makeEnvelope_quiet)
  from quiet_after [OF Broadcast_quiet ok this] obtain n' e
    where "BroadcastToRoom E now roomID (snd ?m) exclude (fst ?m) = Ret (n', e)" "quiet n n'" by blast
  then show ?thesis by (simp add: broadcastSystemMessage_def case_prod_beta)
qed

lemma sendResponse_quiet: "quiet_act E (sendResponse E now a msg)"
  unfolding quiet_act_def
proof (intro allI impI)
  fix n
  assume ok: "node_ok E n"
  let ?m = "makeEnvelope E (GetUserID (store n a)) (ucast (GetCurrentRoom (store n a))) (GetLoginID (store n a)) msg n"
  have "quiet n (fst ?m)" by (rule makeEnvelope_quiet)
  from quiet_after [OF Send_quiet ok this] obtain n' e
    where "SendMessageToClient E now a (snd ?m) (fst ?m) = Ret (n', e)" "quiet n n'" by blast
  then show "\<exists>n' e. sendResponse E now a msg n = Ret (n', e) \<and> quiet n n'"
    by (auto simp: sendResponse_def Let_def case_prod_beta)
qed

lemma forward_quiet: "quiet n (fst (forward E a msg n))"
proof -
  let ?m = "createRouterMessage E a msg n"
  have "quiet n (fst ?m)" by (simp add: createRouterMessage_def Let_def makeEnvelope_quiet)
  moreover have "quiet (fst ?m) (fst (SendMessageToRouter E (snd ?m) (fst ?m)))"
    by (simp add: SendMessageToRouter_def quiet_fields split: prod.splits)
  ultimately show ?thesis by (auto simp: forward_def split: prod.splits intro: act_quiet_trans)
qed

lemma error_quiet:
  "quiet_act E (sendCreateRoomError E now a s)" "quiet_act E (sendJoinRoomError E now a s)"
  "quiet_act E (sendLeaveRoomError E now a s)" "quiet_act E (sendCloseRoomError E now a s)"
  "quiet_act E (sendChatMessageError E now a s)" "quiet_act E (sendMessageFetchError E now a i s)"
  "quiet_act E (sendRoomMessageFetchError E now a s)"
  using sendResponse_quiet [of E now a]
  by (auto simp: quiet_act_def sendCreateRoomError_def sendJoinRoomError_def sendLeaveRoomError_def sendCloseRoomError_def
      sendChatMessageError_def sendMessageFetchError_def sendRoomMessageFetchError_def)

section \<open>Every handler keeps the invariant\<close>

text \<open>An action that always returns and keeps the invariant.\<close>

definition safe_act :: "('r, 'g, 'q) node_env \<Rightarrow> ('r, 'g, 'q) action \<Rightarrow> bool" where
  "safe_act E f \<longleftrightarrow> (\<forall>n. node_ok E n \<longrightarrow> (\<exists>n' e. f n = Ret (n', e) \<and> node_ok E n'))"

lemma safe_actE:
  assumes "safe_act E f" "node_ok E n"
  obtains n' e where "f n = Ret (n', e)" "node_ok E n'"
  using assms unfolding safe_act_def by blast

lemma quiet_safe: "quiet_act E f \<Longrightarrow> safe_act E f"
  using quiet_ok unfolding quiet_act_def safe_act_def by blast

lemmas quiet_safes = error_quiet [THEN quiet_safe] sendResponse_quiet [THEN quiet_safe] Broadcast_quiet [THEN quiet_safe]

lemma safe_after: "safe_act E f \<Longrightarrow> node_ok E n \<Longrightarrow> \<exists>n' e. f n = Ret (n', e) \<and> node_ok E n'"
  by (auto simp: safe_act_def)

lemma ok_count: "node_ok E n \<Longrightarrow> node_ok E (countSystem n)"
  unfolding countSystem_def by (rule quiet_ok [OF _ quiet_fields(6)])

lemma ok_room: "node_ok E n \<Longrightarrow> node_ok E (setRoomOf a r n)"
  by (auto simp: node_ok_def setRoomOf_def SetCurrentRoom_def heap_ok_def cm_ok_def)

lemma ok_user: "node_ok E n \<Longrightarrow> node_ok E (registerUser a n)"
  by (simp add: node_ok_def registerUser_def UpdateUserConnection_def cm_ok_def Let_def)

lemma ok_rooms: "node_ok E n \<Longrightarrow> manager_ok (envRedis E) rm \<Longrightarrow> node_ok E (n\<lparr>roomManager := rm\<rparr>)"
  by (simp add: node_ok_def)

lemma ok_forward: "node_ok E n \<Longrightarrow> node_ok E (fst (forward E a msg n))"
  by (rule quiet_ok [OF _ forward_quiet])

lemma ok_manager: "node_ok E n \<Longrightarrow> manager_ok (envRedis E) (roomManager n)"
  by (simp add: node_ok_def)

lemma ok_system: "node_ok E n \<Longrightarrow> \<exists>n'. broadcastSystemMessage E now roomID content exclude n = Ret n' \<and> node_ok E n'"
  using system_quiet quiet_ok by blast

lemma ok_get:
  assumes "node_ok E n"
  shows "GetRoom (envRedis E) (roomManager n) i = (roomManager n, map_of (rooms (roomManager n)) i)"
  using GetRoom_known [OF ok_manager [OF assms], of i] by (cases "GetRoom (envRedis E) (roomManager n) i") simp

lemma safe_response: "node_ok E n \<Longrightarrow> \<exists>n' e. sendResponse E now a msg n = Ret (n', e) \<and> node_ok E n'"
  by (rule safe_after [OF quiet_safes(8)])

lemma safe_Allocate: "safe_act E (handleAllocateRoomId E now a)"
  unfolding safe_act_def
proof (intro allI impI)
  fix n
  assume ok: "node_ok E n"
  have ok1: "node_ok E (fst (forward E a AllocateRoomId (countSystem n)))" by (rule ok_forward [OF ok_count [OF ok]])
  show "\<exists>n' e. handleAllocateRoomId E now a n = Ret (n', e) \<and> node_ok E n'"
    using ok1 safe_response [OF ok1] by (simp add: handleAllocateRoomId_def handleLocalRoomIdAllocation_def case_prod_beta)
qed

lemma ok_Create: "redis_contract (envRedis E) \<Longrightarrow> node_ok E n \<Longrightarrow>
    node_ok E (n\<lparr>roomManager := fst (RoomManager.CreateRoom (envRedis E) now (roomManager n) i name c m pw)\<rparr>)"
  and ok_Join: "redis_contract (envRedis E) \<Longrightarrow> node_ok E n \<Longrightarrow>
    node_ok E (n\<lparr>roomManager := fst (RoomManager.JoinRoom (envRedis E) now (roomManager n) i cid pw)\<rparr>)"
  and ok_Leave: "redis_contract (envRedis E) \<Longrightarrow> node_ok E n \<Longrightarrow>
    node_ok E (n\<lparr>roomManager := fst (RoomManager.LeaveRoom (envRedis E) now (roomManager n) i cid)\<rparr>)"
  and ok_Close: "redis_contract (envRedis E) \<Longrightarrow> node_ok E n \<Longrightarrow>
    node_ok E (n\<lparr>roomManager := fst (RoomManager.CloseRoom (envRedis E) now (roomManager n) i u)\<rparr>)"
  by (auto intro!: ok_rooms CreateRoom_ok JoinRoom_ok LeaveRoom_ok CloseRoom_ok ok_manager)

lemma safe_Create:
  assumes R: "redis_contract (envRedis E)"
  shows "safe_act E (handleCreateRoom E now a req)"
  unfolding safe_act_def
proof (intro allI impI)
  fix n0
  assume ok0: "node_ok E n0"
  let ?n = "countSystem n0"
  let ?u = "GetUserID (store ?n a)"
  let ?req = "if cr_max_members req = 0 then req\<lparr>cr_max_members := 100\<rparr> else req"
  let ?c = "RoomManager.CreateRoom (envRedis E) now (roomManager ?n) (cr_room_id ?req) (cr_name ?req) ?u (cr_max_members ?req) (cr_password ?req)"
  let ?n1 = "?n\<lparr>roomManager := fst ?c\<rparr>"
  let ?n2 = "setRoomOf a (cr_room_id ?req) ?n1"
  let ?j = "RoomManager.JoinRoom (envRedis E) now (roomManager ?n2) (cr_room_id ?req) (cc_GetID (store ?n2 a)) (cr_password ?req)"
  let ?n3 = "?n2\<lparr>roomManager := fst ?j\<rparr>"
  let ?n4 = "fst (forward E a (Envelope.CreateRoom ?req) (registerUser a ?n3))"
  have ok: "node_ok E ?n" by (rule ok_count [OF ok0])
  have ok1: "node_ok E ?n1" by (rule ok_Create [OF R ok])
  have ok3: "node_ok E ?n3" by (rule ok_Join [OF R ok_room [OF ok1]])
  have ok4: "node_ok E ?n4" by (rule ok_forward [OF ok_user [OF ok3]])
  note err = safe_after [OF quiet_safes(1)]
  show "\<exists>n' e. handleCreateRoom E now a req n0 = Ret (n', e) \<and> node_ok E n'"
  proof (cases "?u = 0 \<or> cr_room_id req = 0 \<or> cr_name req = []")
    case True
    then show ?thesis using err [OF ok] by (auto simp: handleCreateRoom_def Let_def)
  next
    case False
    then have run: "handleCreateRoom E now a req n0 = (case snd ?c of
        Inl e \<Rightarrow> sendCreateRoomError E now a (envRoomError E e) ?n1
      | Inr _ \<Rightarrow> (case snd ?j of
            Inl e \<Rightarrow> sendCreateRoomError E now a (''Failed to join created room: '' @ envRoomError E e) ?n3
          | Inr _ \<Rightarrow> sendResponse E now a (CreateRoomAck (cr_room_id ?req) CREATE_ROOM_SUCCESS
                ''Room created successfully'' (envRouterAddrs E (routerManager ?n4))) ?n4))"
      unfolding handleCreateRoom_def by (simp only: Let_def case_prod_beta HOL.if_False de_Morgan_disj simp_thms)
    show ?thesis
    proof (cases "snd ?c")
      case (Inl e)
      then show ?thesis unfolding run using err [OF ok1] by simp
    next
      case (Inr x)
      then show ?thesis unfolding run using err [OF ok3] safe_response [OF ok4] by (cases "snd ?j") simp_all
    qed
  qed
qed

lemma safe_Join:
  assumes R: "redis_contract (envRedis E)"
  shows "safe_act E (handleJoinRoom E now a pw)"
  unfolding safe_act_def
proof (intro allI impI)
  fix n0
  assume ok0: "node_ok E n0"
  let ?n = "countSystem n0"
  let ?u = "GetUserID (store ?n a)"
  let ?r = "GetCurrentRoom (store ?n a)"
  let ?j = "RoomManager.JoinRoom (envRedis E) now (roomManager ?n) ?r (cc_GetID (store ?n a)) pw"
  let ?n1 = "?n\<lparr>roomManager := fst ?j\<rparr>"
  let ?n2 = "registerUser a ?n1"
  let ?g = "GetRoom (envRedis E) (roomManager ?n2) ?r"
  let ?n3 = "?n2\<lparr>roomManager := fst ?g\<rparr>"
  let ?n4 = "fst (forward E a (Envelope.JoinRoom pw) ?n3)"
  let ?text = "''User '' @ dec_string (unat ?u) @ '' joined the room''"
  have ok: "node_ok E ?n" by (rule ok_count [OF ok0])
  have ok1: "node_ok E ?n1" by (rule ok_Join [OF R ok])
  have ok2: "node_ok E ?n2" by (rule ok_user [OF ok1])
  have g: "fst ?g = roomManager ?n2" using ok_get [OF ok2, of ?r] by (metis fst_conv)
  have ok3: "node_ok E ?n3" by (rule ok_rooms [OF ok2]) (use ok_manager [OF ok2] g in metis)
  have ok4: "node_ok E ?n4" by (rule ok_forward [OF ok3])
  note err = safe_after [OF quiet_safes(2)]
  show "\<exists>n' e. handleJoinRoom E now a pw n0 = Ret (n', e) \<and> node_ok E n'"
  proof (cases "?u = 0 \<or> ?r = 0")
    case True
    then show ?thesis using err [OF ok] by (auto simp: handleJoinRoom_def Let_def)
  next
    case False
    then have run: "handleJoinRoom E now a pw n0 = (case snd ?j of
        Inl e \<Rightarrow> sendJoinRoomError E now a (envRoomError E e) ?n1
      | Inr _ \<Rightarrow> (case snd ?g of
            None \<Rightarrow> sendJoinRoomError E now a ''Room not found after join'' ?n3
          | Some r \<Rightarrow> (case broadcastSystemMessage E now ?r ?text (Some a) ?n4 of
                Panic \<Rightarrow> Panic
              | Ret n5 \<Rightarrow> sendResponse E now a (JoinRoomAck ?r JOIN_ROOM_SUCCESS ''Joined room successfully''
                    (Some (roomInfoMsg r)) (envRouterAddrs E (routerManager n5))) n5)))"
      unfolding handleJoinRoom_def by (simp only: Let_def case_prod_beta HOL.if_False de_Morgan_disj simp_thms)
    show ?thesis
    proof (cases "snd ?j")
      case (Inl e)
      then show ?thesis unfolding run using err [OF ok1] by simp
    next
      case (Inr x)
      obtain n5 where n5: "broadcastSystemMessage E now ?r ?text (Some a) ?n4 = Ret n5" "node_ok E n5"
        using ok_system [OF ok4] by blast
      have "\<exists>n' e. (case snd ?g of
            None \<Rightarrow> sendJoinRoomError E now a ''Room not found after join'' ?n3
          | Some r \<Rightarrow> (case broadcastSystemMessage E now ?r ?text (Some a) ?n4 of
                Panic \<Rightarrow> Panic
              | Ret n5 \<Rightarrow> sendResponse E now a (JoinRoomAck ?r JOIN_ROOM_SUCCESS ''Joined room successfully''
                    (Some (roomInfoMsg r)) (envRouterAddrs E (routerManager n5))) n5)) = Ret (n', e) \<and> node_ok E n'"
        unfolding n5(1) using err [OF ok3] safe_response [OF n5(2)] by (cases "snd ?g") (simp_all only: option.case outcome.case)
      then show ?thesis unfolding run Inr by simp
    qed
  qed
qed

lemma safe_Leave:
  assumes R: "redis_contract (envRedis E)"
  shows "safe_act E (handleLeaveRoom E now a)"
  unfolding safe_act_def
proof (intro allI impI)
  fix n0
  assume ok0: "node_ok E n0"
  let ?n = "countSystem n0"
  let ?u = "GetUserID (store ?n a)"
  let ?r = "GetCurrentRoom (store ?n a)"
  let ?l = "RoomManager.LeaveRoom (envRedis E) now (roomManager ?n) ?r (cc_GetID (store ?n a))"
  let ?n1 = "?n\<lparr>roomManager := fst ?l\<rparr>"
  let ?n2 = "fst (forward E a Envelope.LeaveRoom (setRoomOf a 0 ?n1))"
  let ?text = "''User '' @ dec_string (unat ?u) @ '' left the room''"
  have ok: "node_ok E ?n" by (rule ok_count [OF ok0])
  have ok1: "node_ok E ?n1" by (rule ok_Leave [OF R ok])
  have ok2: "node_ok E ?n2" by (rule ok_forward [OF ok_room [OF ok1]])
  note err = safe_after [OF quiet_safes(3)]
  obtain n3 where n3: "broadcastSystemMessage E now ?r ?text (Some a) ?n2 = Ret n3" "node_ok E n3"
    using ok_system [OF ok2] by blast
  show "\<exists>n' e. handleLeaveRoom E now a n0 = Ret (n', e) \<and> node_ok E n'"
  proof (cases "?r = 0")
    case True
    then show ?thesis using err [OF ok] by (auto simp: handleLeaveRoom_def Let_def)
  next
    case False
    then have run: "handleLeaveRoom E now a n0 = (case snd ?l of
        Inl e \<Rightarrow> sendLeaveRoomError E now a (envRoomError E e) ?n1
      | Inr _ \<Rightarrow> sendResponse E now a (LeaveRoomAck ?r LEAVE_ROOM_SUCCESS ''Left room successfully'') n3)"
      unfolding handleLeaveRoom_def using n3(1) by (simp add: Let_def case_prod_beta split: sum.splits)
    show ?thesis unfolding run using err [OF ok1] safe_response [OF n3(2)] by (cases "snd ?l") simp_all
  qed
qed

lemma safe_Close:
  assumes R: "redis_contract (envRedis E)"
  shows "safe_act E (handleCloseRoom E now a)"
  unfolding safe_act_def
proof (intro allI impI)
  fix n0
  assume ok0: "node_ok E n0"
  let ?n = "countSystem n0"
  let ?u = "GetUserID (store ?n a)"
  let ?r = "GetCurrentRoom (store ?n a)"
  have ok: "node_ok E ?n" by (rule ok_count [OF ok0])
  obtain n1 where n1: "broadcastSystemMessage E now ?r ''Room has been closed by the creator'' None ?n = Ret n1" "node_ok E n1"
    using ok_system [OF ok] by blast
  let ?c = "RoomManager.CloseRoom (envRedis E) now (roomManager n1) ?r ?u"
  let ?n2 = "n1\<lparr>roomManager := fst ?c\<rparr>"
  let ?n3 = "fst (forward E a Envelope.CloseRoom ?n2)"
  have ok2: "node_ok E ?n2" by (rule ok_Close [OF R n1(2)])
  have ok3: "node_ok E ?n3" by (rule ok_forward [OF ok2])
  note err = safe_after [OF quiet_safes(4)]
  show "\<exists>n' e. handleCloseRoom E now a n0 = Ret (n', e) \<and> node_ok E n'"
  proof (cases "?r = 0")
    case True
    then show ?thesis using err [OF ok] by (auto simp: handleCloseRoom_def Let_def)
  next
    case False
    then have run: "handleCloseRoom E now a n0 = (case snd ?c of
        Inl e \<Rightarrow> sendCloseRoomError E now a (envRoomError E e) ?n2
      | Inr _ \<Rightarrow> sendResponse E now a (CloseRoomAck ?r CLOSE_ROOM_SUCCESS ''Room closed successfully'') ?n3)"
      unfolding handleCloseRoom_def using n1(1) by (simp add: Let_def case_prod_beta)
    show ?thesis unfolding run using err [OF ok2] safe_response [OF ok3] by (cases "snd ?c") simp_all
  qed
qed

lemma safe_Chat: "safe_act E (handleChatMessage E now a env req)"
  unfolding safe_act_def
proof (intro allI impI)
  fix n0
  assume ok0: "node_ok E n0"
  let ?n = "n0\<lparr>roomMessages := roomMessages n0 + 1\<rparr>"
  let ?r = "GetCurrentRoom (store ?n a)"
  let ?f = "forward E a (ChatMessage req) ?n"
  have ok: "node_ok E ?n" by (rule quiet_ok [OF ok0 quiet_fields(5)])
  have ok1: "node_ok E (fst ?f)" by (rule ok_forward [OF ok])
  obtain n2 e where n2: "BroadcastToRoom E now ?r env None (fst ?f) = Ret (n2, e)" "node_ok E n2"
    using safe_after [OF quiet_safes(9) ok1] by blast
  note err = safe_after [OF quiet_safes(5)]
  show "\<exists>n' e. handleChatMessage E now a env req n0 = Ret (n', e) \<and> node_ok E n'"
  proof (cases "GetUserID (store ?n a) = 0 \<or> ?r = 0 \<or> cm_content req = []")
    case True
    then show ?thesis using err [OF ok] by (auto simp: handleChatMessage_def Let_def)
  next
    case False
    then have run: "handleChatMessage E now a env req n0 =
        (if snd ?f = None then sendResponse E now a (ChatMessageAck ?r CHAT_MESSAGE_SUCCESS ''Message received'') (fst ?f)
         else case e of Some x \<Rightarrow> sendChatMessageError E now a (''Failed to broadcast message: '' @ envNodeError E x) n2
              | None \<Rightarrow> sendResponse E now a (ChatMessageAck ?r CHAT_MESSAGE_SUCCESS ''Message received'') n2)"
      unfolding handleChatMessage_def using n2(1) by (simp add: Let_def case_prod_beta split: option.splits)
    show ?thesis unfolding run using err [OF n2(2)] safe_response [OF n2(2)] safe_response [OF ok1] by (cases e) simp_all
  qed
qed

lemma safe_Fetch: "safe_act E (handleMessageFetchRequest E now a env req)"
  and safe_RoomFetch: "safe_act E (handleRoomMessageFetchRequest E now a req')"
  and safe_Heartbeat: "safe_act E (handleHeartbeat E now a ts)"
proof -
  show "safe_act E (handleHeartbeat E now a ts)" unfolding handleHeartbeat_def by (rule quiet_safes)
  show "safe_act E (handleMessageFetchRequest E now a env req)" unfolding safe_act_def
  proof (intro allI impI)
    fix n
    assume "node_ok E n"
    then have ok1: "node_ok E (fst (forward E a (MessageFetchRequest req) n))" by (rule ok_forward)
    then show "\<exists>n' e. handleMessageFetchRequest E now a env req n = Ret (n', e) \<and> node_ok E n'"
      using safe_after [OF quiet_safes(6) ok1] by (simp add: handleMessageFetchRequest_def case_prod_beta split: option.splits)
  qed
  show "safe_act E (handleRoomMessageFetchRequest E now a req')" unfolding safe_act_def
  proof (intro allI impI)
    fix n
    assume ok: "node_ok E n"
    then have ok1: "node_ok E (fst (forward E a (RoomMessageFetchRequest req') n))" by (rule ok_forward)
    then show "\<exists>n' e. handleRoomMessageFetchRequest E now a req' n = Ret (n', e) \<and> node_ok E n'"
      using safe_after [OF quiet_safes(7) ok1] safe_after [OF quiet_safes(7) ok]
      by (simp add: handleRoomMessageFetchRequest_def case_prod_beta split: option.splits)
  qed
qed

lemma safe_HandleMessage:
  assumes R: "redis_contract (envRedis E)"
  shows "safe_act E (HandleMessage E now a env)"
  unfolding safe_act_def
proof (intro allI impI)
  fix n0
  assume ok0: "node_ok E n0"
  let ?n = "n0\<lparr>messagesProcessed := messagesProcessed n0 + 1\<rparr>"
  have ok: "node_ok E ?n" by (rule quiet_ok [OF ok0 quiet_fields(3)])
  have fail: "node_ok E (?n\<lparr>messagesFailed := messagesFailed ?n + 1\<rparr>)" by (rule quiet_ok [OF ok quiet_fields(4)])
  have h: "\<exists>n' e. f ?n = Ret (n', e) \<and> node_ok E n'" if "safe_act E f" for f using safe_after [OF that ok] .
  show "\<exists>n' e. HandleMessage E now a env n0 = Ret (n', e) \<and> node_ok E n'"
    unfolding HandleMessage_def Let_def
    using fail h [OF safe_Allocate] h [OF safe_Create [OF R]] h [OF safe_Join [OF R]] h [OF safe_Leave [OF R]]
      h [OF safe_Close [OF R]] h [OF safe_Chat] h [OF safe_Fetch] h [OF safe_RoomFetch] h [OF safe_Heartbeat]
    by (cases "Message env") (simp_all split: message.splits)
qed

lemma ok_touch: "node_ok E n \<Longrightarrow> node_ok E (n\<lparr>store := (store n)(a := UpdateLastActivity now u r l (store n a))\<rparr>)"
  by (auto simp: node_ok_def heap_ok_def cm_ok_def UpdateLastActivity_def Let_def)

lemma safe_server:
  assumes R: "redis_contract (envRedis E)"
  shows "safe_act E (server_HandleMessage E now a data)"
  unfolding safe_act_def
proof (intro allI impI)
  fix n
  assume ok: "node_ok E n"
  let ?n1 = "n\<lparr>statReceived := statReceived n + 1\<rparr>"
  have ok1: "node_ok E ?n1" by (rule quiet_ok [OF ok quiet_fields(7)])
  have ok2: "node_ok E (?n1\<lparr>store := (store ?n1)(a := UpdateLastActivity now u r l (store ?n1 a))\<rparr>)" for u r l
    by (rule ok_touch [OF ok1])
  show "\<exists>n' e. server_HandleMessage E now a data n = Ret (n', e) \<and> node_ok E n'"
    using ok ok1 safe_after [OF safe_HandleMessage [OF R] ok2]
    by (simp add: server_HandleMessage_def Let_def split: sum.splits prod.splits)
qed

lemma safe_Disconnect:
  assumes R: "redis_contract (envRedis E)"
  shows "safe_act E (HandleUserDisconnect E now a)"
  unfolding safe_act_def
proof (intro allI impI)
  fix n
  assume ok: "node_ok E n"
  have q: "n\<lparr>roomManager := roomManager n\<rparr> = n" by simp
  have m: "node_ok E (fst (makeEnvelope E u r l msg n))" for u r l msg by (rule quiet_ok [OF ok makeEnvelope_quiet])
  show "\<exists>n' e. HandleUserDisconnect E now a n = Ret (n', e) \<and> node_ok E n'"
    using ok safe_after [OF safe_HandleMessage [OF R] m] ok_get [OF ok]
    by (simp add: HandleUserDisconnect_def Let_def handleOwnerDisconnect_def handleMemberDisconnect_def case_prod_beta split: option.splits)
qed

lemma handleConnectionDisconnect_ok:
  assumes R: "redis_contract (envRedis E)" and ok: "node_ok E n"
  shows "\<exists>n'. handleConnectionDisconnect E now a n = Ret n' \<and> node_ok E n'"
proof -
  obtain n1 e where n1: "HandleUserDisconnect E now a n = Ret (n1, e)" "node_ok E n1"
    using safe_after [OF safe_Disconnect [OF R] ok] by blast
  let ?l = "RoomManager.LeaveRoom (envRedis E) now (roomManager n1) (GetCurrentRoom (store n a)) (cc_GetID (store n1 a))"
  have ok2: "node_ok E (n1\<lparr>roomManager := fst ?l\<rparr>)" by (rule ok_Leave [OF R n1(2)])
  have "\<exists>n'. fallbackDisconnectCleanup E now a (GetCurrentRoom (store n a)) (GetUserID (store n a)) n1 = Ret n' \<and> node_ok E n'"
    using ok2 ok_system [OF ok2] by (simp add: fallbackDisconnectCleanup_def broadcastUserOfflineMessage_def case_prod_beta Let_def split: sum.splits)
  then show ?thesis using n1 ok by (cases e) (simp_all add: handleConnectionDisconnect_def Let_def)
qed

lemma OnConnectionClosed_ok:
  assumes R: "redis_contract (envRedis E)" and ok: "node_ok E n"
  shows "\<exists>n'. OnConnectionClosed E now u n = Ret n' \<and> node_ok E n'"
proof -
  have "\<exists>n'. (case handleConnectionDisconnect E now a n of Panic \<Rightarrow> Panic
        | Ret n1 \<Rightarrow> (case RemoveConnection (store n1) (connectionManager n1) i of Panic \<Rightarrow> Panic
          | Ret (h, cm, _) \<Rightarrow> Ret (n1\<lparr>store := h, connectionManager := cm, statActive := statActive n1 - 1\<rparr>))) = Ret n' \<and> node_ok E n'" for a i
  proof -
    obtain n1 where n1: "handleConnectionDisconnect E now a n = Ret n1" "node_ok E n1"
      using handleConnectionDisconnect_ok [OF assms] by blast
    obtain h cm e where r: "RemoveConnection (store n1) (connectionManager n1) i = Ret (h, cm, e)" "heap_ok h" "cm_ok h cm"
      using Remove_ok [of "store n1" "connectionManager n1" i] n1(2) by (auto simp: node_ok_def)
    show ?thesis using n1 r by (simp add: node_ok_def)
  qed
  then show ?thesis using ok by (simp add: OnConnectionClosed_def split: option.splits)
qed

lemma performCleanup_ok:
  assumes R: "redis_contract (envRedis E)" and ok: "node_ok E n"
  shows "\<exists>n'. performCleanup E now n = Ret n' \<and> node_ok E n'"
proof -
  obtain h cm where "cleanupAll (expired now (store n) (connectionManager n)) (store n) (connectionManager n) = Ret (h, cm)"
      "heap_ok h" "cm_ok h cm" using cleanupAll_ok ok unfolding node_ok_def by blast
  then show ?thesis using CleanupEmptyRooms_ok [OF R ok_manager [OF ok]]
    by (simp add: performCleanup_def CleanupExpiredConnections_def node_ok_def)
qed

lemma OnConnectionAccepted_ok:
  assumes ok: "node_ok E n" and fresh: "\<not> inUse (connectionManager n) a"
  shows "node_ok E (OnConnectionAccepted now a u addr n)"
proof -
  let ?h = "(store n)(a := NewClientConnection now (generateConnectionID addr now) (Some u))"
  have h: "heap_ok ?h" using ok by (simp add: node_ok_def heap_ok_def NewClientConnection_def make_chan_def)
  have "cm_ok ?h (connectionManager n)" using ok fresh by (force simp: node_ok_def cm_ok_def inUse_def)
  then have "cm_ok ?h (fst (AddConnection ?h (connectionManager n) (Some a)))" by (rule Add_ok)
  then show ?thesis using h ok by (simp add: OnConnectionAccepted_def Let_def case_prod_beta node_ok_def split: sum.splits)
qed

section \<open>Runs of a node\<close>

datatype node_event =
    Accepted nat nat string
  | Received nat bytes
  | Closed nat
  | Cleanup
  | LoopRound nat "string option"

definition loopRound :: "nat \<Rightarrow> string option \<Rightarrow> ('r, 'g, 'q) cnode \<Rightarrow> ('r, 'g, 'q) cnode" where
  "loopRound a w n =
     (if ccLoopAlive (store n a)
      then case cc_sendLoop w (store n a) of None \<Rightarrow> n | Some (c, _) \<Rightarrow> n\<lparr>store := (store n)(a := c)\<rparr>
      else n)"

text \<open>A new connection is at an address that no registered connection has.\<close>

fun nodeStep :: "('r, 'g, 'q) node_env \<Rightarrow> int \<times> node_event \<Rightarrow> ('r, 'g, 'q) cnode \<Rightarrow> ('r, 'g, 'q) cnode outcome" where
  "nodeStep E (now, Accepted a u addr) n =
     Ret (if inUse (connectionManager n) a then n else OnConnectionAccepted now a u addr n)"
| "nodeStep E (now, Received u data) n = (case OnMessageReceived E now u data n of Panic \<Rightarrow> Panic | Ret (n', _) \<Rightarrow> Ret n')"
| "nodeStep E (now, Closed u) n = OnConnectionClosed E now u n"
| "nodeStep E (now, Cleanup) n = performCleanup E now n"
| "nodeStep E (now, LoopRound a w) n = Ret (loopRound a w n)"

fun nodeRun :: "('r, 'g, 'q) node_env \<Rightarrow> (int \<times> node_event) list \<Rightarrow> ('r, 'g, 'q) cnode \<Rightarrow> ('r, 'g, 'q) cnode outcome" where
  "nodeRun E [] n = Ret n"
| "nodeRun E (x # xs) n = (case nodeStep E x n of Panic \<Rightarrow> Panic | Ret n' \<Rightarrow> nodeRun E xs n')"

definition newNode :: "heap \<Rightarrow> int \<Rightarrow> int \<Rightarrow> 'r \<Rightarrow> 'g \<Rightarrow> 'q \<Rightarrow> ('r, 'g, 'q) cnode" where
  "newNode h maxConns limit r g q =
     \<lparr>store = h, connectionManager = NewConnectionManager maxConns, roomManager = NewRoomManager limit r, idGen = g,
      nodeSeq = NewConnSeqGenerator, routerManager = q, messagesProcessed = 0, messagesFailed = 0, roomMessages = 0,
      systemMessages = 0, statTotal = 0, statAccepted = 0, statActive = 0, statReceived = 0, statSent = 0,
      statDropped = 0, statRoomMessages = 0\<rparr>"

lemma loopRound_ok: "node_ok E n \<Longrightarrow> node_ok E (loopRound a w n)"
proof -
  assume ok: "node_ok E n"
  have "quiet n (loopRound a w n)"
  proof (cases "ccLoopAlive (store n a) \<and> cc_sendLoop w (store n a) \<noteq> None")
    case True
    then obtain c ds where c: "cc_sendLoop w (store n a) = Some (c, ds)" "ccLoopAlive (store n a)" by auto
    have "same_client (store n a) c"
      using c(1) by (auto simp: cc_sendLoop_def cc_SendSync_def receive_def same_client_def Let_def cc_IsConnected_def
          split: option.splits list.splits if_splits)
    then show ?thesis using c by (simp add: loopRound_def quiet_def)
  next
    case False
    then show ?thesis by (cases "cc_sendLoop w (store n a)") (auto simp: loopRound_def)
  qed
  then show ?thesis by (rule quiet_ok [OF ok])
qed

lemma nodeStep_ok:
  assumes R: "redis_contract (envRedis E)" and ok: "node_ok E n"
  shows "\<exists>n'. nodeStep E x n = Ret n' \<and> node_ok E n'"
proof -
  obtain now e where x: "x = (now, e)" by (cases x)
  show ?thesis
  proof (cases e)
    case (Accepted a u addr)
    then show ?thesis using x ok OnConnectionAccepted_ok [OF ok] by simp
  next
    case (Received u data)
    have "\<exists>n' e. OnMessageReceived E now u data n = Ret (n', e) \<and> node_ok E n'"
    proof -
      have "\<exists>n' e. (case server_HandleMessage E now a data n of Panic \<Rightarrow> Panic
          | Ret (n1, Some e) \<Rightarrow> Ret (n1, Some e)
          | Ret (n1, None) \<Rightarrow> Ret (n1\<lparr>statReceived := statReceived n1 + 1\<rparr>, None)) = Ret (n', e) \<and> node_ok E n'" for a
      proof -
        obtain n1 e where n1: "server_HandleMessage E now a data n = Ret (n1, e)" "node_ok E n1"
          using safe_after [OF safe_server [OF R] ok] by blast
        show ?thesis using n1 quiet_ok [OF n1(2) quiet_fields(7)] by (cases e) simp_all
      qed
      then show ?thesis using ok by (simp add: OnMessageReceived_def split: option.splits)
    qed
    then show ?thesis using x Received by auto
  next
    case (Closed u)
    then show ?thesis using x OnConnectionClosed_ok [OF assms] by simp
  next
    case Cleanup
    then show ?thesis using x performCleanup_ok [OF assms] by simp
  next
    case (LoopRound a w)
    then show ?thesis using x loopRound_ok [OF ok] by simp
  qed
qed

lemma nodeRun_ok: "redis_contract (envRedis E) \<Longrightarrow> node_ok E n \<Longrightarrow> \<exists>n'. nodeRun E xs n = Ret n' \<and> node_ok E n'"
proof (induction xs arbitrary: n)
  case (Cons x xs)
  obtain n1 where n1: "nodeStep E x n = Ret n1" "node_ok E n1" using nodeStep_ok [OF Cons.prems] by blast
  then show ?case using Cons.IH [OF Cons.prems(1) n1(2)] by simp
qed simp

lemma newNode_ok:
  assumes "heap_ok h" "\<forall>k. rget (envRedis E) r k = None"
  shows "node_ok E (newNode h maxConns limit r g q)"
  using assms by (simp add: node_ok_def newNode_def cm_ok_def NewConnectionManager_def manager_ok_def NewRoomManager_def)

section \<open>A node for examples\<close>

text \<open>Two connections, the second in room 2, which user 1 has created; the clock stands at \<open>demoNow\<close>.\<close>

definition demoNow :: int where "demoNow = (Epoch + 5) * 1000000"

definition closeEnvelope :: envelope where
  "closeEnvelope = sampleEnvelope\<lparr>Message := Some Envelope.CloseRoom\<rparr>"

definition demoEnv :: "((u64 \<times> room) list, nat, unit) node_env" where
  "demoEnv = \<lparr>envMarshal = (\<lambda>_. Some [7]), envUnmarshal = (\<lambda>_. Some closeEnvelope), envRedis = listRedis,
     envNewID = (\<lambda>g u r l. (Suc g, buildIDWithSeq (Epoch + int g) u r l 0 0)), envRoute = (\<lambda>q _. (q, None)),
     envRouterAddrs = (\<lambda>_. []), envOrder = (\<lambda>S. filter (\<lambda>i. i \<in> S) [''c1'', ''c2'']), envRoomError = (\<lambda>_. []),
     envNodeError = (\<lambda>_. [])\<rparr>"

definition demoRoom :: room where
  "demoRoom = \<lparr>ID = 2, Name = ''r'', CreatorID = 1, MaxMembers = 5, Password = [], CreatedAt = 0, UpdatedAt = 0,
     Status = RoomStatusOpen, MemberCount = 1, LastActivity = 0, members = {''c2''}\<rparr>"

definition demoStore :: heap where
  "demoStore a = NewClientConnection 0 (if a = 0 then ''c1'' else ''c2'') (Some a)"

definition demoNode :: "((u64 \<times> room) list, nat, unit) cnode" where
  "demoNode = (newNode demoStore 10 10 [] 0 ())
     \<lparr>connectionManager := (NewConnectionManager 10)\<lparr>connections := [(''c1'', 0), (''c2'', 1)], activeConnections := 2\<rparr>,
      roomManager := (NewRoomManager 10 [])\<lparr>rooms := [(2, demoRoom)], activeRooms := 1\<rparr>\<rparr>"

lemma demo_contract: "redis_contract (envRedis demoEnv)"
  by (simp add: demoEnv_def listRedis_contract)

lemma demo_heap: "heap_ok demoStore"
  by (simp add: heap_ok_def demoStore_def NewClientConnection_def make_chan_def)

lemma demo_room_ok: "room_ok demoRoom"
  by (simp add: room_ok_def demoRoom_def word_le_nat_alt)

lemma demo_ok: "node_ok demoEnv demoNode"
proof -
  have "cm_ok demoStore ((NewConnectionManager 10)\<lparr>connections := [(''c1'', 0), (''c2'', 1)], activeConnections := 2\<rparr>)"
    by (simp add: cm_ok_def NewConnectionManager_def demoStore_def NewClientConnection_def)
  moreover have "manager_ok listRedis ((NewRoomManager 10 [])\<lparr>rooms := [(2, demoRoom)], activeRooms := 1\<rparr>)"
    using demo_room_ok by (simp add: manager_ok_def NewRoomManager_def listRedis_def demoRoom_def)
  ultimately show ?thesis using demo_heap by (simp add: node_ok_def demoNode_def newNode_def demoEnv_def)
qed

lemma demo_facts:
  "map_of (rooms (roomManager demoNode)) 2 = Some demoRoom" "connections (connectionManager demoNode) = [(''c1'', 0), (''c2'', 1)]"
  "store demoNode = demoStore" "members demoRoom = {''c2''}" "CreatorID demoRoom = 1"
  by (simp_all add: demoNode_def newNode_def demoRoom_def)

lemma demo_millis: "millis demoNow = Epoch + 5"
  by (simp add: millis_def demoNow_def)

lemma close_valid: "ValidateEnvelope (Epoch + 5) (Some closeEnvelope) = Inr ()"
  unfolding ValidateEnvelope_ok_iff using sample_valid
  by (simp add: closeEnvelope_def sampleEnvelope_def ToBytes_def wf_buildID [unfolded wf_id_def])



section \<open>A broadcast\<close>

lemma roomLoop_delivers:
  assumes "heap_ok h" "\<forall>(i, a) \<in> set (connections cm). ccID (h a) = i" "distinct ids"
    "roomLoop cm d excl ids h = Ret (h', s, k)"
  shows "items (ccSendBuffer (h' a)) = items (ccSendBuffer (h a)) @
    (if ccID (h a) \<in> set ids \<and> cm_GetConnection cm (ccID (h a)) = Some a \<and> excl \<noteq> Some (ccID (h a)) \<and>
        ccConnected (h a) \<and> length (items (ccSendBuffer (h a))) < capacity (ccSendBuffer (h a)) then [d] else [])"
  using assms
proof (induction ids arbitrary: h s k)
  case (Cons i ids)
  have known: "ccID (h b) = j" if "cm_GetConnection cm j = Some b" for j b
    using Cons.prems(2) map_of_SomeD [of "connections cm" j b] that by (auto simp: cm_GetConnection_def)
  show ?case
  proof (cases "\<exists>b. cm_GetConnection cm i = Some b \<and> excl \<noteq> Some (ccID (h b))")
    case False
    then have run: "roomLoop cm d excl ids h = Ret (h', s, k)" using Cons.prems(4) by (auto simp: cc_GetID_def split: option.splits)
    have "\<not> (ccID (h a) = i \<and> cm_GetConnection cm (ccID (h a)) = Some a \<and> excl \<noteq> Some (ccID (h a)))" using False by auto
    then show ?thesis using Cons.IH [OF Cons.prems(1,2) _ run] Cons.prems(3) by auto
  next
    case True
    then obtain b where b: "cm_GetConnection cm i = Some b" "excl \<noteq> Some (ccID (h b))" by blast
    have bi: "ccID (h b) = i" using known [OF b(1)] .
    have hb: "ccConnected (h b) = (\<not> chClosed (ccSendBuffer (h b)))" using Cons.prems(1) by (simp add: heap_ok_def)
    obtain c e where c: "cc_Send d (h b) = Ret (c, e)" "same_client (h b) c" using cc_Send_same [OF hb] by blast
    have cb: "items (ccSendBuffer c) = items (ccSendBuffer (h b)) @
        (if ccConnected (h b) \<and> length (items (ccSendBuffer (h b))) < capacity (ccSendBuffer (h b)) then [d] else [])"
      using c(1) hb by (auto simp: cc_Send_def cc_IsConnected_def cc_trySend_def try_send_def split: if_splits)
    let ?h1 = "h(b := c)"
    obtain s' k' where run: "roomLoop cm d excl ids ?h1 = Ret (h', s', k')"
      using Cons.prems(4) b c(1) by (auto simp: cc_GetID_def split: outcome.splits prod.splits)
    have ok1: "heap_ok ?h1" "\<forall>(i, a) \<in> set (connections cm). ccID (?h1 a) = i"
      using Cons.prems(1,2) c(2) by (auto simp: heap_ok_def same_client_def)
    note ih = Cons.IH [OF ok1 _ run]
    have i: "i \<notin> set ids" "distinct ids" using Cons.prems(3) by auto
    show ?thesis
    proof (cases "a = b")
      case True
      then show ?thesis using ih [OF i(2)] cb b bi i(1) c(2) by (auto simp: same_client_def)
    next
      case False
      then have "\<not> (ccID (h a) = i \<and> cm_GetConnection cm (ccID (h a)) = Some a)" using b(1) by auto
      then show ?thesis using ih [OF i(2)] False by auto
    qed
  qed
qed simp

text \<open>C20: a broadcast to a room puts the message once into the buffer of every connected member with room in
  its buffer, except the excluded connection, and into no other buffer, whatever the order in which Go
  walks over the members; rooms and connections stay as they are.\<close>

theorem broadcast_reaches_members:
  assumes "node_ok E n" "map_of (rooms (roomManager n)) roomID = Some r"
    "Serialize (envMarshal E) (millis now) (Some env) = Inr d"
    "set (envOrder E (members r)) = members r" "distinct (envOrder E (members r))"
  shows "\<exists>n'. BroadcastToRoom E now roomID env exclude n = Ret (n', None) \<and>
    roomManager n' = roomManager n \<and> connectionManager n' = connectionManager n \<and>
    (\<forall>a. items (ccSendBuffer (store n' a)) = items (ccSendBuffer (store n a)) @
       (if cc_GetID (store n a) \<in> members r \<and> cm_GetConnection (connectionManager n) (cc_GetID (store n a)) = Some a \<and>
           map_option (\<lambda>x. cc_GetID (store n x)) exclude \<noteq> Some (cc_GetID (store n a)) \<and> cc_IsConnected (store n a) \<and>
           length (items (ccSendBuffer (store n a))) < capacity (ccSendBuffer (store n a)) then [d] else []))"
proof -
  have h: "heap_ok (store n)" "\<forall>(i, a) \<in> set (connections (connectionManager n)). ccID (store n a) = i"
    using assms(1) by (auto simp: node_ok_def cm_ok_def)
  obtain h' s k where l: "roomLoop (connectionManager n) d (map_option (\<lambda>x. cc_GetID (store n x)) exclude)
      (envOrder E (members r)) (store n) = Ret (h', s, k)"
    using roomLoop_quiet [OF h(1)] by blast
  note del = roomLoop_delivers [OF h assms(5) l]
  show ?thesis using ok_get [OF assms(1), of roomID] assms(2,3,4) l del
    by (simp add: BroadcastToRoom_def cc_GetID_def cc_IsConnected_def)
qed

theorem broadcast_reaches_members_witness:
  "\<exists>n'. BroadcastToRoom demoEnv demoNow 2 closeEnvelope None demoNode = Ret (n', None) \<and>
    items (ccSendBuffer (store n' 1)) = [[7]] \<and> items (ccSendBuffer (store n' 0)) = []"
proof -
  have s: "Serialize (envMarshal demoEnv) (millis demoNow) (Some closeEnvelope) = Inr [7]"
    by (simp add: Serialize_def demo_millis close_valid demoEnv_def)
  have o: "set (envOrder demoEnv (members demoRoom)) = members demoRoom" "distinct (envOrder demoEnv (members demoRoom))"
    by (simp_all add: demoEnv_def demo_facts)
  from broadcast_reaches_members [OF demo_ok demo_facts(1) s o, where exclude = None]
  obtain n' where r: "BroadcastToRoom demoEnv demoNow 2 closeEnvelope None demoNode = Ret (n', None)"
    and b: "\<forall>a. items (ccSendBuffer (store n' a)) = items (ccSendBuffer (store demoNode a)) @
       (if cc_GetID (store demoNode a) \<in> members demoRoom \<and>
           cm_GetConnection (connectionManager demoNode) (cc_GetID (store demoNode a)) = Some a \<and>
           map_option (\<lambda>x. cc_GetID (store demoNode x)) None \<noteq> Some (cc_GetID (store demoNode a)) \<and>
           cc_IsConnected (store demoNode a) \<and>
           length (items (ccSendBuffer (store demoNode a))) < capacity (ccSendBuffer (store demoNode a)) then [[7]] else [])"
    by blast
  have "items (ccSendBuffer (store n' 1)) = [[7]]" "items (ccSendBuffer (store n' 0)) = []"
    by (simp_all add: b demoStore_def NewClientConnection_def cc_GetID_def demo_facts cm_GetConnection_def cc_IsConnected_def make_chan_def)
  with r show ?thesis by blast
qed

section \<open>No authentication\<close>

lemma extract_built:
  assumes "Deserialize um now data = Inr env" "MessageId env = ToBytes (buildIDWithSeq t u rid l c sq)"
  shows "\<exists>l' ts. ExtractMessageInfo now (Some env) = Inr (u, rid, l', ts)"
proof -
  let ?i = "buildIDWithSeq t u rid l c sq"
  have v: "ValidateEnvelope now (Some env) = Inr ()"
    using assms(1) by (auto simp: Deserialize_def split: if_splits option.splits sum.splits)
  have f: "FromBytes (MessageId env) = Inr ?i"
    unfolding assms(2) using wf_buildID [of t u rid l c sq] by (cases ?i) (simp add: FromBytes_def ToBytes_def wf_id_def)
  have "ExtractUserID ?i = u" "ExtractRoomID ?i = rid" by (simp_all add: ExtractUserID_def ExtractRoomID_def build_slices)
  then show ?thesis using v f by (simp add: ExtractMessageInfo_def)
qed

lemma manager_room:
  assumes "manager_ok R rm" "map_of (rooms rm) i = Some r"
  shows "ID r = i" "room_ok r"
proof -
  have "\<forall>(i, r) \<in> set (rooms rm). ID r = i \<and> room_ok r" using assms(1) unfolding manager_ok_def by (elim conjE)
  then show "ID r = i" "room_ok r" using map_of_SomeD [OF assms(2)] by blast+
qed

lemma CloseRoom_owner:
  assumes "manager_ok R rm" "map_of (rooms rm) i = Some r" "CreatorID r = u"
  shows "\<exists>rm' r'. RoomManager.CloseRoom R now rm i u = (rm', Inr ()) \<and> map_of (rooms rm') i = Some r' \<and>
    Status r' = RoomStatusClosed \<and> members r' = {}"
proof -
  have g: "GetRoom R rm i = (rm, Some r)" using GetRoom_known [OF assms(1), of i] assms(2) by (cases "GetRoom R rm i") simp
  let ?r = "r\<lparr>Status := RoomStatusClosed, UpdatedAt := now, members := {}, MemberCount := 0\<rparr>"
  let ?rm = "saveRoomToRedis R (putRoom i ?r rm) ?r"
  have "RoomManager.CloseRoom R now rm i u = (?rm, Inr ())"
    unfolding RoomManager.CloseRoom_def g by (simp add: assms(3) Let_def)
  moreover have "map_of (rooms ?rm) i = Some ?r" by (simp add: saveRoomToRedis_def putRoom_def AList.update_conv)
  ultimately show ?thesis by (intro exI [of _ ?rm] exI [of _ ?r]) simp
qed

lemma ucast_nonzero: "rid \<noteq> 0 \<Longrightarrow> (ucast (rid :: u32) :: u64) \<noteq> 0"
proof
  assume n: "rid \<noteq> 0" and "(ucast rid :: u64) = 0"
  then have "unat (ucast rid :: u64) = 0" by simp
  moreover have "unat rid < 2 ^ 64" using unsigned_less [of rid, where ?'a = nat] by simp
  ultimately have "unat rid = 0" by (simp add: unsigned_ucast_eq take_bit_nat_eq_self)
  then show False using n by (simp add: unat_eq_0)
qed

text \<open>C33: nothing ties a connection to a user: the user is read from the message id that the client has built.
  Any client closes any room whose id fits the 32 bits of a message id, by naming the creator in the id of
  its message; the room is closed and its members are gone.\<close>

theorem any_client_can_close_room:
  assumes "redis_contract (envRedis E)" "node_ok E n"
    "Deserialize (envUnmarshal E) (millis now) data = Inr env"
    "MessageId env = ToBytes (buildIDWithSeq t u rid l c sq)" "Message env = Some Envelope.CloseRoom"
    "rid \<noteq> 0" "map_of (rooms (roomManager n)) (ucast rid) = Some r" "CreatorID r = u"
  shows "\<exists>n' e r'. server_HandleMessage E now a data n = Ret (n', e) \<and>
    map_of (rooms (roomManager n')) (ucast rid) = Some r' \<and> Status r' = RoomStatusClosed \<and> members r' = {}"
proof -
  obtain l' ts where x: "ExtractMessageInfo (millis now) (Some env) = Inr (u, rid, l', ts)"
    using extract_built [OF assms(3,4)] by blast
  let ?rid = "ucast rid :: u64"
  have rid: "?rid \<noteq> 0" by (rule ucast_nonzero [OF assms(6)])
  let ?n1 = "n\<lparr>statReceived := statReceived n + 1\<rparr>"
  let ?n2 = "?n1\<lparr>store := (store ?n1)(a := UpdateLastActivity now u ?rid l' (store ?n1 a))\<rparr>"
  let ?n3 = "countSystem (?n2\<lparr>messagesProcessed := messagesProcessed ?n2 + 1\<rparr>)"
  have ok2: "node_ok E ?n2" by (rule ok_touch [OF quiet_ok [OF assms(2) quiet_fields(7)]])
  have ok3: "node_ok E ?n3" by (rule ok_count [OF quiet_ok [OF ok2 quiet_fields(3)]])
  have c3: "GetUserID (store ?n3 a) = u" "GetCurrentRoom (store ?n3 a) = ?rid"
    using rid by (simp_all add: countSystem_def GetUserID_def GetCurrentRoom_def UpdateLastActivity_def Let_def)
  obtain n4 where n4: "broadcastSystemMessage E now ?rid ''Room has been closed by the creator'' None ?n3 = Ret n4" "quiet ?n3 n4"
    using system_quiet [OF ok3] by blast
  have ok4: "node_ok E n4" by (rule quiet_ok [OF ok3 n4(2)])
  have "roomManager n4 = roomManager n" using n4(2) by (simp add: quiet_def countSystem_def)
  then obtain rm' r' where cl: "RoomManager.CloseRoom (envRedis E) now (roomManager n4) ?rid u = (rm', Inr ())"
      "map_of (rooms rm') ?rid = Some r'" "Status r' = RoomStatusClosed" "members r' = {}"
    using CloseRoom_owner [OF ok_manager [OF ok4]] assms(7,8) by metis
  let ?n5 = "n4\<lparr>roomManager := rm'\<rparr>"
  have ok5: "node_ok E ?n5" using ok_Close [OF assms(1) ok4, of now ?rid u] cl(1) by simp
  let ?n6 = "fst (forward E a Envelope.CloseRoom ?n5)"
  obtain n7 e where n7: "sendResponse E now a (CloseRoomAck ?rid CLOSE_ROOM_SUCCESS ''Room closed successfully'') ?n6 = Ret (n7, e)" "quiet ?n6 n7"
    using quiet_actE [OF sendResponse_quiet ok_forward [OF ok5]] by metis
  have "roomManager n7 = rm'" using n7(2) forward_quiet [of ?n5 E a Envelope.CloseRoom] by (simp add: quiet_def)
  moreover have "handleCloseRoom E now a (?n2\<lparr>messagesProcessed := messagesProcessed ?n2 + 1\<rparr>) = Ret (n7, e)"
    unfolding handleCloseRoom_def Let_def c3 n4(1) outcome.case cl(1) case_prod_beta using rid n7(1) by simp
  then have "server_HandleMessage E now a data n = Ret (n7, e)"
    by (simp add: server_HandleMessage_def assms(3,5) x Let_def HandleMessage_def)
  ultimately show ?thesis using cl by blast
qed

theorem any_client_can_close_room_witness:
  "\<exists>n' e r'. server_HandleMessage demoEnv demoNow 0 [1] demoNode = Ret (n', e) \<and>
    map_of (rooms (roomManager n')) (ucast (2 :: u32)) = Some r' \<and> Status r' = RoomStatusClosed \<and> members r' = {}"
proof -
  have d: "Deserialize (envUnmarshal demoEnv) (millis demoNow) [1] = Inr closeEnvelope"
    by (simp add: Deserialize_def demo_millis close_valid demoEnv_def)
  show ?thesis
  proof (rule any_client_can_close_room [OF demo_contract demo_ok d])
    show "MessageId closeEnvelope = ToBytes (buildIDWithSeq (Epoch + 5) 1 2 3 0 4)"
      by (simp add: closeEnvelope_def sampleEnvelope_def)
    show "Message closeEnvelope = Some Envelope.CloseRoom" by (simp add: closeEnvelope_def)
    show "map_of (rooms (roomManager demoNode)) (ucast (2 :: u32)) = Some demoRoom" using demo_facts(1) by simp
  qed (simp_all add: demo_facts)
qed

section \<open>Clean-up before the disconnect\<close>

lemma removeRooms_other:
  "k \<notin> set ks \<Longrightarrow> map_of (rooms (foldl (removeRoom R) rm ks)) k = map_of (rooms rm) k"
  by (induction ks arbitrary: rm) (simp_all add: removeRoom_def AList.delete_conv)

lemma Cleanup_keeps:
  assumes "manager_ok R rm" "map_of (rooms rm) i = Some r" "\<not> removable now r"
  shows "map_of (rooms (CleanupEmptyRooms R now rm)) i = Some r"
proof -
  have d: "distinct (map fst (rooms rm))" using assms(1) by (simp add: manager_ok_def)
  have "i \<notin> fst ` set (filter (\<lambda>(_, r). removable now r) (rooms rm))"
  proof
    assume "i \<in> fst ` set (filter (\<lambda>(_, r). removable now r) (rooms rm))"
    then obtain r' where "(i, r') \<in> set (rooms rm)" "removable now r'" by auto
    then have "r' = r" using assms(2) d by (metis map_of_eq_Some_iff option.inject)
    then show False using assms(3) \<open>removable now r'\<close> by simp
  qed
  then show ?thesis using assms(2) by (simp add: CleanupEmptyRooms_def removeRooms_other)
qed

lemma cleanupAll_gone:
  "cleanupAll ids h cm = Ret (h', cm') \<Longrightarrow> set (connections cm') \<subseteq> set (connections cm) \<and>
     (\<forall>a. ccConnection (h' a) = ccConnection (h a)) \<and> (\<forall>i \<in> set ids. i \<notin> fst ` set (connections cm'))"
proof (induction ids arbitrary: h cm)
  case (Cons i ids)
  show ?case
  proof (cases "map_of (connections cm) i")
    case None
    then have "cleanupAll ids h cm = Ret (h', cm')" using Cons.prems by simp
    from Cons.IH [OF this] None show ?thesis by (auto simp: map_of_eq_None_iff)
  next
    case (Some a)
    let ?cm1 = "dropConnection i (dropUser (GetUserID (h a)) i cm)"
    obtain h1 where h1: "closeAt a h = Ret h1" "cleanupAll ids h1 ?cm1 = Ret (h', cm')"
      using Cons.prems Some by (simp add: Let_def split: outcome.splits)
    have c: "ccConnection (h1 x) = ccConnection (h x)" for x
      using h1(1) by (auto simp: closeAt_def cc_Close_def Let_def split: outcome.splits if_splits)
    have s: "set (connections ?cm1) = {x \<in> set (connections cm). fst x \<noteq> i}"
      by (simp add: dropConnection_def AList.delete_eq) force
    from Cons.IH [OF h1(2)] s c show ?thesis by auto
  qed
qed simp

lemma removable_member: "room_ok r \<Longrightarrow> i \<in> members r \<Longrightarrow> \<not> removable now r"
  by (auto simp: room_ok_def removable_def card_eq_0_iff)

text \<open>A clean-up keeps the rooms that have members, and finds no underlying connection that was gone before it.\<close>

lemma performCleanup_keeps:
  assumes "redis_contract (envRedis E)" "node_ok E n" "getConnectionID u n = None"
    and "map_of (rooms (roomManager n)) rid = Some r" "connID \<in> members r"
  obtains n1 where "performCleanup E now n = Ret n1" "node_ok E n1" "getConnectionID u n1 = None"
    "map_of (rooms (roomManager n1)) rid = Some r"
proof -
  obtain n1 where n1: "performCleanup E now n = Ret n1" "node_ok E n1"
    using nodeStep_ok [OF assms(1,2), of "(now, Cleanup)"] by auto
  obtain h cm where c: "cleanupAll (expired now (store n) (connectionManager n)) (store n) (connectionManager n) = Ret (h, cm)"
    using cleanupAll_ok assms(2) unfolding node_ok_def by blast
  then have e: "n1 = n\<lparr>store := h, connectionManager := cm, roomManager := CleanupEmptyRooms (envRedis E) now (roomManager n)\<rparr>"
    using n1(1) by (simp add: performCleanup_def CleanupExpiredConnections_def)
  have "room_ok r" by (rule manager_room(2) [OF ok_manager [OF assms(2)] assms(4)])
  then have r: "map_of (rooms (roomManager n1)) rid = Some r"
    using Cleanup_keeps [OF ok_manager [OF assms(2)] assms(4) removable_member [OF _ assms(5)]] e by simp
  have "getConnectionID u n1 = None"
    using cleanupAll_gone [OF c] assms(3) e by (auto simp: getConnectionID_def find_None_iff)
  with n1 r that show ?thesis by blast
qed

text \<open>C37: a connection that times out keeps its place in its room.  The clean-up takes it out of the connection
  manager without telling the rooms, so when the network reports the disconnect there is nothing left to
  find; and no later clean-up takes the member out either, however often clean-ups and reports of this disconnect
  come: a room can be full of connections that are gone.\<close>

theorem expired_member_stays:
  assumes "redis_contract (envRedis E)" "node_ok E n"
    "(connID, a) \<in> set (connections (connectionManager n))"
    "cc_IsExpired now (connectionTimeout (connectionManager n)) (store n a)"
    "ccConnection (store n a) = Some u"
    "\<forall>(i, b) \<in> set (connections (connectionManager n)). ccConnection (store n b) = Some u \<longrightarrow> i = connID"
    "map_of (rooms (roomManager n)) rid = Some r" "connID \<in> members r"
  shows "\<exists>n1. performCleanup E now n = Ret n1 \<and> cm_GetConnection (connectionManager n1) connID = None \<and>
    OnConnectionClosed E later u n1 = Ret n1 \<and> map_of (rooms (roomManager n1)) rid = Some r \<and>
    (\<forall>xs. (\<forall>(t, x) \<in> set xs. x = Cleanup \<or> x = Closed u) \<longrightarrow>
       (\<exists>n2. nodeRun E xs n1 = Ret n2 \<and> map_of (rooms (roomManager n2)) rid = Some r))"
proof -
  let ?cm = "connectionManager n"
  let ?ids = "expired now (store n) ?cm"
  have ids: "connID \<in> set ?ids" using assms(3,4) by (force simp: expired_def)
  obtain h cm where c: "cleanupAll ?ids (store n) ?cm = Ret (h, cm)"
    using cleanupAll_ok assms(2) unfolding node_ok_def by blast
  note gone = cleanupAll_gone [OF c]
  have "room_ok r" by (rule manager_room(2) [OF ok_manager [OF assms(2)] assms(7)])
  then have "\<not> removable now r" using assms(8) by (auto simp: room_ok_def removable_def card_eq_0_iff)
  then have r: "map_of (rooms (CleanupEmptyRooms (envRedis E) now (roomManager n))) rid = Some r"
    by (rule Cleanup_keeps [OF ok_manager [OF assms(2)] assms(7)])
  let ?n1 = "n\<lparr>store := h, connectionManager := cm, roomManager := CleanupEmptyRooms (envRedis E) now (roomManager n)\<rparr>"
  have run: "performCleanup E now n = Ret ?n1" using c by (simp add: performCleanup_def CleanupExpiredConnections_def)
  have none: "connID \<notin> fst ` set (connections cm)" using gone ids by blast
  have "ccConnection (h b) \<noteq> Some u" if b: "(i, b) \<in> set (connections cm)" for i b
  proof
    assume "ccConnection (h b) = Some u"
    then have "ccConnection (store n b) = Some u" using gone by metis
    moreover have "(i, b) \<in> set (connections ?cm)" using gone b by blast
    ultimately have "i = connID" using assms(6) by blast
    then show False using none b by (metis fst_conv image_eqI)
  qed
  then have g: "getConnectionID u ?n1 = None" by (auto simp: getConnectionID_def find_None_iff)
  have k: "cm_GetConnection (connectionManager ?n1) connID = None"
    using none by (simp add: cm_GetConnection_def map_of_eq_None_iff)
  have l: "OnConnectionClosed E later u ?n1 = Ret ?n1" unfolding OnConnectionClosed_def g by simp
  have ok: "node_ok E ?n1" using nodeStep_ok [OF assms(1,2), of "(now, Cleanup)"] run by auto
  have later: "\<exists>n2. nodeRun E xs m = Ret n2 \<and> map_of (rooms (roomManager n2)) rid = Some r"
    if "\<forall>(t, x) \<in> set xs. x = Cleanup \<or> x = Closed u" "node_ok E m" "getConnectionID u m = None"
      "map_of (rooms (roomManager m)) rid = Some r" for xs m
    using that
  proof (induction xs arbitrary: m)
    case (Cons y xs)
    obtain t x where y: "y = (t, x)" by (cases y)
    show ?case
    proof (cases "x = Cleanup")
      case True
      obtain m1 where m1: "performCleanup E t m = Ret m1" "node_ok E m1" "getConnectionID u m1 = None"
        "map_of (rooms (roomManager m1)) rid = Some r"
        by (rule performCleanup_keeps [OF assms(1) Cons.prems(2-4) assms(8)])
      with Cons.IH [of m1] Cons.prems(1) y True show ?thesis by simp
    next
      case False
      then have "x = Closed u" using Cons.prems(1) y by auto
      then have "nodeStep E y m = Ret m" using y Cons.prems(3) by (simp add: OnConnectionClosed_def)
      with Cons.IH [OF _ Cons.prems(2-4)] Cons.prems(1) show ?thesis by simp
    qed
  qed simp
  have r1: "map_of (rooms (roomManager ?n1)) rid = Some r" using r by simp
  show ?thesis using run k l r1 later [OF _ ok g r1] by blast
qed

theorem expired_member_stays_witness:
  "\<exists>n1. performCleanup demoEnv 400000000000 demoNode = Ret n1 \<and> OnConnectionClosed demoEnv 400000000001 1 n1 = Ret n1 \<and>
    map_of (rooms (roomManager n1)) 2 = Some demoRoom"
proof -
  have a: "(''c2'', 1) \<in> set (connections (connectionManager demoNode))" by (simp add: demo_facts)
  have t: "connectionTimeout (connectionManager demoNode) = 300000000000" by (simp add: demoNode_def NewConnectionManager_def)
  have e: "cc_IsExpired 400000000000 (connectionTimeout (connectionManager demoNode)) (store demoNode 1)"
    unfolding t by (simp add: cc_IsExpired_def cc_GetLastActivity_def demo_facts demoStore_def NewClientConnection_def)
  have u: "ccConnection (store demoNode 1) = Some 1" by (simp add: demo_facts demoStore_def NewClientConnection_def)
  have o: "\<forall>(i, b) \<in> set (connections (connectionManager demoNode)). ccConnection (store demoNode b) = Some 1 \<longrightarrow> i = ''c2''"
    by (simp add: demo_facts demoStore_def NewClientConnection_def)
  have m: "''c2'' \<in> members demoRoom" by (simp add: demo_facts)
  from expired_member_stays [OF demo_contract demo_ok a e u o demo_facts(1) m, of 400000000001] show ?thesis by blast
qed

end
