(* ===== verification/LiveRoomManager.thy ===== *)
theory LiveRoomManager
  imports RoomManager
begin

text \<open>
  \<^verbatim>\<open>connection/live_room_manager.go\<close>: live rooms with viewers, game rooms with players, and the members of
  both in memory.  Maps are association lists with distinct keys (a user without rooms has the empty slice).
  Every method is one transition, with the wall clock (nanoseconds) as an argument; what it sends to Redis,
  partly in goroutines of its own, is the list of commands in its result.  The result of \<^verbatim>\<open>Expire\<close> is ignored
  by all callers.
\<close>

section \<open>Members\<close>

datatype MemberRole = RoleViewer | RolePlayer | RoleModerator | RoleStreamer | RoleOwner

datatype RoomType = RoomTypeChat | RoomTypeLive | RoomTypeGame

record live_member =
  lmUserID :: u32
  lmLoginID :: u8
  lmConnID :: string
  lmRole :: MemberRole
  lmJoinedAt :: int
  lmLastSeen :: int
  lmOnline :: bool
  lmIsViewer :: bool
  lmIsPlayer :: bool
  lmPermission :: int

record member_set =
  msMembers :: "(u32 \<times> live_member) list"
  msCount :: i32
  msRoomType :: RoomType
  msLastUpdate :: int
  msHot :: "u32 list"

record live_config =
  LiveRoomActiveTTL :: int
  LiveRoomInactiveTTL :: int
  GameRoomActiveTTL :: int
  GameRoomInactiveTTL :: int
  LiveActiveThreshold :: int
  GameActiveThreshold :: int
  LargeRoomThreshold :: i32
  MegaRoomThreshold :: i32
  EnableMemoryFirst :: bool
  EnableBatchOperation :: bool
  DisablePersistence :: bool

definition DefaultLiveRoomConfig :: live_config where
  "DefaultLiveRoomConfig =
     (let minute = 60000000000; hour = 60 * minute
      in \<lparr>LiveRoomActiveTTL = 4 * hour, LiveRoomInactiveTTL = 30 * minute, GameRoomActiveTTL = 2 * hour,
          GameRoomInactiveTTL = 10 * minute, LiveActiveThreshold = 5 * minute, GameActiveThreshold = 2 * minute,
          LargeRoomThreshold = 1000, MegaRoomThreshold = 10000, EnableMemoryFirst = True, EnableBatchOperation = True,
          DisablePersistence = False\<rparr>)"

datatype redis_cmd =
    SetMember u64 live_member
  | DelMember u64 u32
  | ExpireRoom u64 int

record member_manager =
  roomMembers :: "(u64 \<times> member_set) list"
  userRooms :: "u32 \<Rightarrow> u64 list"
  memConfig :: live_config
  memTotal :: i64

definition NewMemoryMemberManager :: "live_config \<Rightarrow> member_manager" where
  "NewMemoryMemberManager cfg = \<lparr>roomMembers = [], userRooms = (\<lambda>_. []), memConfig = cfg, memTotal = 0\<rparr>"

datatype live_error = LiveRoomNotFound u64 | LiveUserNotFound u32 u64 | NotLiveRoom u64 | NotGameRoom u64 | GameRoomFull u64

definition emptySet :: "int \<Rightarrow> member_set" where
  "emptySet now = \<lparr>msMembers = [], msCount = 0, msRoomType = RoomTypeChat, msLastUpdate = now, msHot = []\<rparr>"

text \<open>A member that is there keeps its role; what goes to Redis is the new one.\<close>

definition refreshMember :: "live_member \<Rightarrow> live_member \<Rightarrow> live_member" where
  "refreshMember new old = old\<lparr>lmLoginID := lmLoginID new, lmConnID := lmConnID new, lmLastSeen := lmLastSeen new, lmOnline := True\<rparr>"

definition AddMember :: "int \<Rightarrow> member_manager \<Rightarrow> u64 \<Rightarrow> live_member \<Rightarrow> member_manager \<times> redis_cmd list" where
  "AddMember now mm roomID member =
     (let ms = (case map_of (roomMembers mm) roomID of None \<Rightarrow> emptySet now | Some ms \<Rightarrow> ms);
          u = lmUserID member;
          (ms1, mm1) = (case map_of (msMembers ms) u of
              Some old \<Rightarrow> (ms\<lparr>msMembers := AList.update u (refreshMember member old) (msMembers ms)\<rparr>, mm)
            | None \<Rightarrow> (ms\<lparr>msMembers := AList.update u member (msMembers ms), msCount := msCount ms + 1\<rparr>,
                mm\<lparr>memTotal := memTotal mm + 1, userRooms := (userRooms mm)(u := userRooms mm u @ [roomID])\<rparr>));
          ms2 = ms1\<lparr>msHot := List.insert u (msHot ms1), msLastUpdate := now\<rparr>
      in (mm1\<lparr>roomMembers := AList.update roomID ms2 (roomMembers mm1)\<rparr>,
          if EnableMemoryFirst (memConfig mm) then [SetMember roomID member] else []))"

definition RemoveMember :: "int \<Rightarrow> member_manager \<Rightarrow> u64 \<Rightarrow> u32 \<Rightarrow> member_manager \<times> (live_error + unit) \<times> redis_cmd list" where
  "RemoveMember now mm roomID u =
     (case map_of (roomMembers mm) roomID of
        None \<Rightarrow> (mm, Inl (LiveRoomNotFound roomID), [])
      | Some ms \<Rightarrow>
          if map_of (msMembers ms) u = None then (mm, Inl (LiveUserNotFound u roomID), [])
          else let ms1 = ms\<lparr>msMembers := AList.delete u (msMembers ms), msHot := removeAll u (msHot ms),
                     msCount := msCount ms - 1, msLastUpdate := now\<rparr>
               in (mm\<lparr>roomMembers := AList.update roomID ms1 (roomMembers mm), memTotal := memTotal mm - 1,
                     userRooms := (userRooms mm)(u := remove1 roomID (userRooms mm u))\<rparr>,
                   Inr (), if EnableMemoryFirst (memConfig mm) then [DelMember roomID u] else []))"

definition GetMemberCount :: "member_manager \<Rightarrow> u64 \<Rightarrow> i32" where
  "GetMemberCount mm roomID = (case map_of (roomMembers mm) roomID of Some ms \<Rightarrow> msCount ms | None \<Rightarrow> 0)"

section \<open>Rooms\<close>

record live_room =
  lrRoom :: room
  StreamerID :: u32
  StreamStatus :: int
  ViewerCount :: i32
  StreamTitle :: string
  Category :: string
  lastViewerUpdate :: int
  hotLevel :: int

record game_room =
  grRoom :: room
  GameType :: string
  GameMode :: string
  MapName :: string
  GameState :: int
  RoundNumber :: i32
  lastStateUpdate :: int
  updateFrequency :: i32

record live_manager =
  lrmConfig :: live_config
  liveRooms :: "(u64 \<times> live_room) list"
  gameRooms :: "(u64 \<times> game_room) list"
  memberManager :: member_manager
  liveRoomCount :: i64
  gameRoomCount :: i64

definition NewLiveRoomManager :: "live_config option \<Rightarrow> live_manager" where
  "NewLiveRoomManager c =
     (let cfg = (case c of None \<Rightarrow> DefaultLiveRoomConfig | Some cfg \<Rightarrow> cfg)
      in \<lparr>lrmConfig = cfg, liveRooms = [], gameRooms = [], memberManager = NewMemoryMemberManager cfg,
          liveRoomCount = 0, gameRoomCount = 0\<rparr>)"

text \<open>\<^verbatim>\<open>time.Since\<close> of the zero time, for a room that is not there, exceeds every threshold.\<close>

definition ttlOf :: "int \<Rightarrow> int option \<Rightarrow> int \<Rightarrow> int \<Rightarrow> int \<Rightarrow> int" where
  "ttlOf now lastActivity threshold active inactive =
     (case lastActivity of None \<Rightarrow> inactive | Some t \<Rightarrow> if now - t < threshold then active else inactive)"

definition calculateTTL :: "int \<Rightarrow> live_manager \<Rightarrow> u64 \<Rightarrow> RoomType \<Rightarrow> int" where
  "calculateTTL now lrm roomID t =
     (case t of
        RoomTypeLive \<Rightarrow> ttlOf now (map_option (\<lambda>r. LastActivity (lrRoom r)) (map_of (liveRooms lrm) roomID))
          (LiveActiveThreshold (lrmConfig lrm)) (LiveRoomActiveTTL (lrmConfig lrm)) (LiveRoomInactiveTTL (lrmConfig lrm))
      | RoomTypeGame \<Rightarrow> ttlOf now (map_option (\<lambda>r. LastActivity (grRoom r)) (map_of (gameRooms lrm) roomID))
          (GameActiveThreshold (lrmConfig lrm)) (GameRoomActiveTTL (lrmConfig lrm)) (GameRoomInactiveTTL (lrmConfig lrm))
      | RoomTypeChat \<Rightarrow> 24 * 60 * 60000000000)"

definition setRoomTTL :: "int \<Rightarrow> live_manager \<Rightarrow> u64 \<Rightarrow> RoomType \<Rightarrow> redis_cmd list" where
  "setRoomTTL now lrm roomID t = [ExpireRoom roomID (calculateTTL now lrm roomID t)]"

definition levelOf :: "i32 \<Rightarrow> int" where
  "levelOf viewerCount =
     (if 100000 \<le>s viewerCount then 5 else if 10000 \<le>s viewerCount then 4 else if 1000 \<le>s viewerCount then 3
      else if 100 \<le>s viewerCount then 2 else 1)"

definition updateHotLevel :: "live_room \<Rightarrow> i32 \<Rightarrow> live_room" where
  "updateHotLevel r viewerCount =
     (let newLevel = levelOf viewerCount in if newLevel \<noteq> hotLevel r then r\<lparr>hotLevel := newLevel\<rparr> else r)"

definition baseRoom :: "int \<Rightarrow> u64 \<Rightarrow> string \<Rightarrow> u32 \<Rightarrow> u32 \<Rightarrow> room" where
  "baseRoom now roomID name creatorID limit =
     \<lparr>ID = roomID, Name = name, CreatorID = creatorID, MaxMembers = limit, Password = [], CreatedAt = now, UpdatedAt = now,
      Status = RoomStatusOpen, MemberCount = 0, LastActivity = now, members = {}\<rparr>"

definition mkMember :: "int \<Rightarrow> u32 \<Rightarrow> u8 \<Rightarrow> string \<Rightarrow> MemberRole \<Rightarrow> bool \<Rightarrow> bool \<Rightarrow> int \<Rightarrow> live_member" where
  "mkMember now u l c ro viewer player perm =
     \<lparr>lmUserID = u, lmLoginID = l, lmConnID = c, lmRole = ro, lmJoinedAt = now, lmLastSeen = now, lmOnline = True,
      lmIsViewer = viewer, lmIsPlayer = player, lmPermission = perm\<rparr>"

definition CreateLiveRoom :: "int \<Rightarrow> live_manager \<Rightarrow> u64 \<Rightarrow> u32 \<Rightarrow> u32 \<Rightarrow> string \<Rightarrow> string
    \<Rightarrow> live_manager \<times> live_room \<times> redis_cmd list" where
  "CreateLiveRoom now lrm roomID creatorID streamerID title category =
     (let r = \<lparr>lrRoom = baseRoom now roomID title creatorID 100000, StreamerID = streamerID, StreamStatus = 1, ViewerCount = 0,
               StreamTitle = title, Category = category, lastViewerUpdate = now, hotLevel = 1\<rparr>;
          lrm1 = lrm\<lparr>liveRooms := AList.update roomID r (liveRooms lrm), liveRoomCount := liveRoomCount lrm + 1\<rparr>;
          (mm, cs) = AddMember now (memberManager lrm1) roomID (mkMember now streamerID 0 [] RoleStreamer False False 100);
          lrm2 = lrm1\<lparr>memberManager := mm\<rparr>
      in (lrm2, r, cs @ setRoomTTL now lrm2 roomID RoomTypeLive))"

definition CreateGameRoom :: "int \<Rightarrow> live_manager \<Rightarrow> u64 \<Rightarrow> u32 \<Rightarrow> string \<Rightarrow> string \<Rightarrow> string
    \<Rightarrow> live_manager \<times> game_room \<times> redis_cmd list" where
  "CreateGameRoom now lrm roomID creatorID gameType gameMode mapName =
     (let r = \<lparr>grRoom = baseRoom now roomID (gameType @ '' - '' @ gameMode) creatorID 50, GameType = gameType, GameMode = gameMode,
               MapName = mapName, GameState = 0, RoundNumber = 0, lastStateUpdate = now, updateFrequency = 60\<rparr>;
          lrm1 = lrm\<lparr>gameRooms := AList.update roomID r (gameRooms lrm), gameRoomCount := gameRoomCount lrm + 1\<rparr>;
          (mm, cs) = AddMember now (memberManager lrm1) roomID (mkMember now creatorID 0 [] RoleOwner False True 100);
          lrm2 = lrm1\<lparr>memberManager := mm\<rparr>
      in (lrm2, r, cs @ setRoomTTL now lrm2 roomID RoomTypeGame))"

definition JoinAsViewer :: "int \<Rightarrow> live_manager \<Rightarrow> u64 \<Rightarrow> u32 \<Rightarrow> u8 \<Rightarrow> string \<Rightarrow> live_manager \<times> (live_error + unit) \<times> redis_cmd list" where
  "JoinAsViewer now lrm roomID userID loginID connID =
     (case map_of (liveRooms lrm) roomID of
        None \<Rightarrow> (lrm, Inl (NotLiveRoom roomID), [])
      | Some r \<Rightarrow>
          (let (mm, cs) = AddMember now (memberManager lrm) roomID (mkMember now userID loginID connID RoleViewer True False 1);
               newCount = ViewerCount r + 1;
               r1 = updateHotLevel (r\<lparr>ViewerCount := newCount, lastViewerUpdate := now\<rparr>) newCount;
               r2 = r1\<lparr>lrRoom := (lrRoom r1)\<lparr>LastActivity := now\<rparr>\<rparr>;
               lrm1 = lrm\<lparr>memberManager := mm, liveRooms := AList.update roomID r2 (liveRooms lrm)\<rparr>
           in (lrm1, Inr (), cs @ setRoomTTL now lrm1 roomID RoomTypeLive)))"

definition JoinAsPlayer :: "int \<Rightarrow> live_manager \<Rightarrow> u64 \<Rightarrow> u32 \<Rightarrow> u8 \<Rightarrow> string \<Rightarrow> live_manager \<times> (live_error + unit) \<times> redis_cmd list" where
  "JoinAsPlayer now lrm roomID userID loginID connID =
     (case map_of (gameRooms lrm) roomID of
        None \<Rightarrow> (lrm, Inl (NotGameRoom roomID), [])
      | Some r \<Rightarrow>
          if MemberCount (grRoom r) \<ge> MaxMembers (grRoom r) then (lrm, Inl (GameRoomFull roomID), [])
          else let (mm, cs) = AddMember now (memberManager lrm) roomID (mkMember now userID loginID connID RolePlayer False True 10);
                   r1 = r\<lparr>grRoom := (grRoom r)\<lparr>MemberCount := MemberCount (grRoom r) + 1, LastActivity := now\<rparr>, lastStateUpdate := now\<rparr>;
                   lrm1 = lrm\<lparr>memberManager := mm, gameRooms := AList.update roomID r1 (gameRooms lrm)\<rparr>
               in (lrm1, Inr (), cs @ setRoomTTL now lrm1 roomID RoomTypeGame))"

record live_stats =
  stLiveRooms :: i64
  stGameRooms :: i64
  stViewers :: i32
  stHot :: nat
  stMembers :: i64
  stMemoryRooms :: nat

definition live_GetStats :: "live_manager \<Rightarrow> live_stats" where
  "live_GetStats lrm =
     \<lparr>stLiveRooms = liveRoomCount lrm, stGameRooms = gameRoomCount lrm, stViewers = (\<Sum>p\<leftarrow>liveRooms lrm. ViewerCount (snd p)),
      stHot = length (filter (\<lambda>p. hotLevel (snd p) \<ge> 3) (liveRooms lrm)), stMembers = memTotal (memberManager lrm),
      stMemoryRooms = length (roomMembers (memberManager lrm))\<rparr>"

section \<open>The members\<close>

definition set_ok :: "member_set \<Rightarrow> bool" where
  "set_ok ms \<longleftrightarrow> distinct (map fst (msMembers ms)) \<and> (\<forall>(u, m) \<in> set (msMembers ms). lmUserID m = u) \<and>
     msCount ms = of_nat (length (msMembers ms)) \<and> set (msHot ms) = fst ` set (msMembers ms)"

definition inRoom :: "member_manager \<Rightarrow> u32 \<Rightarrow> u64 \<Rightarrow> bool" where
  "inRoom mm u r \<longleftrightarrow> (case map_of (roomMembers mm) r of None \<Rightarrow> False | Some ms \<Rightarrow> u \<in> fst ` set (msMembers ms))"

definition mm_ok :: "member_manager \<Rightarrow> bool" where
  "mm_ok mm \<longleftrightarrow> distinct (map fst (roomMembers mm)) \<and> (\<forall>(r, ms) \<in> set (roomMembers mm). set_ok ms) \<and>
     memTotal mm = of_nat (\<Sum>p\<leftarrow>roomMembers mm. length (msMembers (snd p))) \<and>
     (\<forall>u. distinct (userRooms mm u) \<and> set (userRooms mm u) = {r. inRoom mm u r})"

lemma sum_update:
  fixes f :: "'v \<Rightarrow> nat"
  shows "distinct (map fst xs) \<Longrightarrow>
    (\<Sum>p\<leftarrow>AList.update k v xs. f (snd p)) + (case map_of xs k of None \<Rightarrow> 0 | Some w \<Rightarrow> f w) = (\<Sum>p\<leftarrow>xs. f (snd p)) + f v"
proof (induction xs)
  case (Cons x xs)
  show ?case
  proof (cases "fst x = k")
    case True
    then show ?thesis by (cases x) simp
  next
    case False
    then show ?thesis using Cons by (cases x) auto
  qed
qed simp

lemma mm_okD: "mm_ok mm \<Longrightarrow> map_of (roomMembers mm) r = Some ms \<Longrightarrow> set_ok ms"
  by (auto simp: mm_ok_def dest: map_of_SomeD)

lemma set_ok_empty: "set_ok (emptySet now)"
  by (simp add: set_ok_def emptySet_def)

definition setAt :: "int \<Rightarrow> member_manager \<Rightarrow> u64 \<Rightarrow> member_set" where
  "setAt now mm r = (case map_of (roomMembers mm) r of None \<Rightarrow> emptySet now | Some ms \<Rightarrow> ms)"

definition setAfter :: "int \<Rightarrow> live_member \<Rightarrow> member_set \<Rightarrow> member_set" where
  "setAfter now m ms = ms\<lparr>msMembers := AList.update (lmUserID m)
       (case map_of (msMembers ms) (lmUserID m) of None \<Rightarrow> m | Some old \<Rightarrow> refreshMember m old) (msMembers ms),
     msCount := (if map_of (msMembers ms) (lmUserID m) = None then msCount ms + 1 else msCount ms),
     msHot := List.insert (lmUserID m) (msHot ms), msLastUpdate := now\<rparr>"

lemma fst_update: "fst ` set (AList.update k v xs) = insert k (fst ` set xs)"
  by (simp add: AList.dom_update)

lemma update_length: "length (AList.update k v xs) = (if k \<in> fst ` set xs then length xs else Suc (length xs))"
proof (cases "k \<in> fst ` set xs")
  case True
  then have "map fst (AList.update k v xs) = map fst xs" by (simp add: AList.update_keys)
  then have "length (AList.update k v xs) = length xs" by (metis length_map)
  with True show ?thesis by simp
qed (simp add: update_new)

lemma AddMember_new:
  assumes "map_of (msMembers (setAt now mm r)) (lmUserID m) = None"
  shows "fst (AddMember now mm r m) = mm\<lparr>roomMembers := AList.update r (setAfter now m (setAt now mm r)) (roomMembers mm),
    memTotal := memTotal mm + 1, userRooms := (userRooms mm)(lmUserID m := userRooms mm (lmUserID m) @ [r])\<rparr>"
  using assms by (simp add: AddMember_def Let_def setAt_def [symmetric] setAfter_def)

lemma AddMember_again:
  assumes "map_of (msMembers (setAt now mm r)) (lmUserID m) = Some x"
  shows "fst (AddMember now mm r m) = mm\<lparr>roomMembers := AList.update r (setAfter now m (setAt now mm r)) (roomMembers mm)\<rparr>"
  using assms by (simp add: AddMember_def Let_def setAt_def [symmetric] setAfter_def)

lemma AddMember_facts:
  assumes "AddMember now mm r m = (mm', cs)"
  shows "roomMembers mm' = AList.update r (setAfter now m (setAt now mm r)) (roomMembers mm)"
    "memConfig mm' = memConfig mm"
    "memTotal mm' = (if lmUserID m \<in> fst ` set (msMembers (setAt now mm r)) then memTotal mm else memTotal mm + 1)"
    "userRooms mm' = (if lmUserID m \<in> fst ` set (msMembers (setAt now mm r)) then userRooms mm
       else (userRooms mm)(lmUserID m := userRooms mm (lmUserID m) @ [r]))"
proof -
  let ?k = "map_of (msMembers (setAt now mm r)) (lmUserID m)"
  have f: "mm' = fst (AddMember now mm r m)" using assms by simp
  have k: "lmUserID m \<in> fst ` set (msMembers (setAt now mm r)) \<longleftrightarrow> ?k \<noteq> None" by (simp add: map_of_eq_None_iff)
  show "roomMembers mm' = AList.update r (setAfter now m (setAt now mm r)) (roomMembers mm)" "memConfig mm' = memConfig mm"
    by (cases ?k; simp add: f AddMember_new AddMember_again)+
  show "memTotal mm' = (if lmUserID m \<in> fst ` set (msMembers (setAt now mm r)) then memTotal mm else memTotal mm + 1)"
    "userRooms mm' = (if lmUserID m \<in> fst ` set (msMembers (setAt now mm r)) then userRooms mm
       else (userRooms mm)(lmUserID m := userRooms mm (lmUserID m) @ [r]))"
    unfolding k by (cases ?k; simp add: f AddMember_new AddMember_again)+
qed

lemma inRoom_update:
  "roomMembers mm' = AList.update r ms (roomMembers mm) \<Longrightarrow>
     inRoom mm' u q \<longleftrightarrow> (if q = r then u \<in> fst ` set (msMembers ms) else inRoom mm u q)"
  by (simp add: inRoom_def update_conv')

lemma inRoom_setAt: "inRoom mm u r \<longleftrightarrow> u \<in> fst ` set (msMembers (setAt now mm r))"
  by (simp add: inRoom_def setAt_def emptySet_def split: option.split)

lemma sets_ok_update:
  assumes "distinct (map fst xs)" "\<forall>(r, ms) \<in> set xs. set_ok ms" "set_ok ms1"
  shows "\<forall>(r, ms) \<in> set (AList.update q ms1 xs). set_ok ms"
  using assms(2,3) update_elems [OF assms(1), of _ q ms1] by fastforce

lemma setAfter_ok:
  assumes "set_ok ms"
  shows "set_ok (setAfter now m ms)" "fst ` set (msMembers (setAfter now m ms)) = insert (lmUserID m) (fst ` set (msMembers ms))"
    "length (msMembers (setAfter now m ms)) = (if lmUserID m \<in> fst ` set (msMembers ms) then length (msMembers ms) else Suc (length (msMembers ms)))"
proof -
  let ?u = "lmUserID m"
  show f: "fst ` set (msMembers (setAfter now m ms)) = insert ?u (fst ` set (msMembers ms))"
    by (simp add: setAfter_def fst_update)
  show l: "length (msMembers (setAfter now m ms)) = (if ?u \<in> fst ` set (msMembers ms) then length (msMembers ms) else Suc (length (msMembers ms)))"
    by (simp add: setAfter_def update_length)
  have d: "distinct (map fst (msMembers ms))" using assms by (simp add: set_ok_def)
  have new: "lmUserID (case map_of (msMembers ms) ?u of None \<Rightarrow> m | Some old \<Rightarrow> refreshMember m old) = ?u"
    using assms by (auto simp: set_ok_def refreshMember_def split: option.splits dest: map_of_SomeD)
  have "\<forall>(u, x) \<in> set (msMembers (setAfter now m ms)). lmUserID x = u"
  proof (intro ballI, clarify)
    fix u x
    assume "(u, x) \<in> set (msMembers (setAfter now m ms))"
    then have "(u, x) \<in> set (AList.update ?u (case map_of (msMembers ms) ?u of None \<Rightarrow> m | Some old \<Rightarrow> refreshMember m old) (msMembers ms))"
      by (simp add: setAfter_def)
    from update_elems [OF d this]
    have "(u, x) = (?u, case map_of (msMembers ms) ?u of None \<Rightarrow> m | Some old \<Rightarrow> refreshMember m old) \<or> (u, x) \<in> set (msMembers ms)" .
    then show "lmUserID x = u" using new assms by (auto simp: set_ok_def)
  qed
  moreover have "msCount (setAfter now m ms) = of_nat (length (msMembers (setAfter now m ms)))"
    unfolding l using assms by (auto simp: setAfter_def set_ok_def map_of_eq_None_iff)
  moreover have "set (msHot (setAfter now m ms)) = insert ?u (set (msHot ms))" by (simp add: setAfter_def)
  ultimately show "set_ok (setAfter now m ms)" using d f assms by (simp add: set_ok_def) (simp add: setAfter_def distinct_update)
qed

lemma AddMember_ok:
  assumes ok: "mm_ok mm" and a: "AddMember now mm r m = (mm', cs)"
  shows "mm_ok mm'" "\<And>u q. inRoom mm' u q \<longleftrightarrow> inRoom mm u q \<or> u = lmUserID m \<and> q = r"
proof -
  let ?ms = "setAt now mm r" and ?u = "lmUserID m"
  note f = AddMember_facts [OF a]
  have ms: "set_ok ?ms" using mm_okD [OF ok] by (auto simp: setAt_def set_ok_empty split: option.splits)
  have d: "distinct (map fst (roomMembers mm))" using ok by (simp add: mm_ok_def)
  note in_ms = inRoom_setAt [of mm ?u r now, symmetric]
  show i: "\<And>u q. inRoom mm' u q \<longleftrightarrow> inRoom mm u q \<or> u = ?u \<and> q = r"
    using inRoom_update [OF f(1)] setAfter_ok(2) [OF ms] inRoom_setAt [of mm _ r now] by auto
  have elems: "\<forall>(q, x) \<in> set (roomMembers mm'). set_ok x"
    unfolding f(1) by (rule sets_ok_update [OF d]) (use ok setAfter_ok(1) [OF ms] in \<open>auto simp: mm_ok_def\<close>)
  have "(\<Sum>p\<leftarrow>roomMembers mm'. length (msMembers (snd p))) + length (msMembers ?ms) =
      (\<Sum>p\<leftarrow>roomMembers mm. length (msMembers (snd p))) + length (msMembers (setAfter now m ?ms))"
    using sum_update [OF d, of "\<lambda>x. length (msMembers x)" r "setAfter now m ?ms"]
    by (simp add: f(1) setAt_def emptySet_def split: option.splits)
  then have "(\<Sum>p\<leftarrow>roomMembers mm'. length (msMembers (snd p))) =
      (if inRoom mm ?u r then 0 else 1) + (\<Sum>p\<leftarrow>roomMembers mm. length (msMembers (snd p)))"
    using setAfter_ok(3) [OF ms, of now m] in_ms by (simp split: if_splits)
  then have t: "memTotal mm' = of_nat (\<Sum>p\<leftarrow>roomMembers mm'. length (msMembers (snd p)))"
    using f(3) in_ms ok by (simp add: mm_ok_def)
  have "\<forall>u. distinct (userRooms mm' u) \<and> set (userRooms mm' u) = {q. inRoom mm' u q}"
    using ok in_ms unfolding i f(4) by (auto simp: mm_ok_def)
  then show "mm_ok mm'" using d t elems by (simp add: mm_ok_def f(1) distinct_update)
qed

lemma RemoveMember_ok:
  assumes ok: "mm_ok mm" and a: "RemoveMember now mm r u = (mm', e, cs)"
  shows "mm_ok mm'"
proof (cases "inRoom mm u r")
  case False
  then have "mm' = mm" using a by (auto simp: RemoveMember_def inRoom_def map_of_eq_None_iff split: option.splits)
  then show ?thesis using ok by simp
next
  case True
  then obtain ms x where ms: "map_of (roomMembers mm) r = Some ms" "map_of (msMembers ms) u = Some x"
    by (auto simp: inRoom_def split: option.splits) (metis map_of_eq_None_iff not_None_eq image_eqI fst_conv)
  define ms1 where "ms1 = ms\<lparr>msMembers := AList.delete u (msMembers ms), msHot := removeAll u (msHot ms), msCount := msCount ms - 1,
    msLastUpdate := now\<rparr>"
  have f: "roomMembers mm' = AList.update r ms1 (roomMembers mm)" "memTotal mm' = memTotal mm - 1"
    "userRooms mm' = (userRooms mm)(u := remove1 r (userRooms mm u))"
    using a ms by (auto simp: RemoveMember_def ms1_def Let_def)
  have sok: "set_ok ms" using mm_okD [OF ok ms(1)] .
  have d: "distinct (map fst (roomMembers mm))" and dm: "distinct (map fst (msMembers ms))" using ok sok by (simp_all add: mm_ok_def set_ok_def)
  have len: "length (msMembers ms) = Suc (length (msMembers ms1))" using delete_length [OF dm ms(2)] by (simp add: ms1_def)
  have k1: "fst ` set (msMembers ms1) = fst ` set (msMembers ms) - {u}" by (auto simp: ms1_def AList.delete_eq)
  have s1: "set_ok ms1" using sok len k1 by (auto simp: set_ok_def ms1_def AList.delete_eq distinct_map_filter)
  have i: "inRoom mm' v q \<longleftrightarrow> inRoom mm v q \<and> \<not> (v = u \<and> q = r)" for v q
    using inRoom_update [OF f(1)] k1 ms(1) by (auto simp: inRoom_def)
  have elems: "\<forall>(q, x) \<in> set (roomMembers mm'). set_ok x"
    unfolding f(1) by (rule sets_ok_update [OF d]) (use ok s1 in \<open>auto simp: mm_ok_def\<close>)
  have "(\<Sum>p\<leftarrow>roomMembers mm. length (msMembers (snd p))) = Suc (\<Sum>p\<leftarrow>roomMembers mm'. length (msMembers (snd p)))"
    using sum_update [OF d, of "\<lambda>x. length (msMembers x)" r ms1] len by (simp add: f(1) ms(1))
  then have t: "memTotal mm' = of_nat (\<Sum>p\<leftarrow>roomMembers mm'. length (msMembers (snd p)))"
    using f(2) ok by (simp add: mm_ok_def)
  have "\<forall>v. distinct (userRooms mm' v) \<and> set (userRooms mm' v) = {q. inRoom mm' v q}"
    using ok unfolding i f(3) by (auto simp: mm_ok_def)
  then show ?thesis using d t elems by (simp add: mm_ok_def f(1) distinct_update)
qed

section \<open>Runs\<close>

datatype live_op =
    LCreateLive u64 u32 u32 string string
  | LCreateGame u64 u32 string string string
  | LViewer u64 u32 u8 string
  | LPlayer u64 u32 u8 string
  | LRemove u64 u32

fun liveStep :: "live_manager \<Rightarrow> int \<times> live_op \<Rightarrow> live_manager" where
  "liveStep lrm (now, LCreateLive r c st t g) = fst (CreateLiveRoom now lrm r c st t g)"
| "liveStep lrm (now, LCreateGame r c t mo mp) = fst (CreateGameRoom now lrm r c t mo mp)"
| "liveStep lrm (now, LViewer r u l c) = fst (JoinAsViewer now lrm r u l c)"
| "liveStep lrm (now, LPlayer r u l c) = fst (JoinAsPlayer now lrm r u l c)"
| "liveStep lrm (now, LRemove r u) = lrm\<lparr>memberManager := fst (RemoveMember now (memberManager lrm) r u)\<rparr>"

abbreviation liveRun :: "live_manager \<Rightarrow> (int \<times> live_op) list \<Rightarrow> live_manager" where
  "liveRun \<equiv> foldl liveStep"

definition live_ok :: "live_room \<Rightarrow> bool" where
  "live_ok r \<longleftrightarrow> hotLevel r = levelOf (ViewerCount r)"

definition game_ok :: "game_room \<Rightarrow> bool" where
  "game_ok r \<longleftrightarrow> MaxMembers (grRoom r) = 50 \<and> MemberCount (grRoom r) \<le> 50"

definition lrm_ok :: "live_manager \<Rightarrow> bool" where
  "lrm_ok lrm \<longleftrightarrow> mm_ok (memberManager lrm) \<and>
     (\<forall>r x. map_of (liveRooms lrm) r = Some x \<longrightarrow> live_ok x) \<and> (\<forall>r x. map_of (gameRooms lrm) r = Some x \<longrightarrow> game_ok x)"

lemma updateHotLevel_level: "hotLevel (updateHotLevel r v) = levelOf v" "ViewerCount (updateHotLevel r v) = ViewerCount r"
  "lrRoom (updateHotLevel r v) = lrRoom r"
  by (simp_all add: updateHotLevel_def Let_def)

lemma CreateLiveRoom_facts:
  assumes "AddMember now (memberManager lrm) r (mkMember now st 0 [] RoleStreamer False False 100) = (mm, cs)"
  shows "fst (CreateLiveRoom now lrm r c st t g) = lrm\<lparr>memberManager := mm, liveRoomCount := liveRoomCount lrm + 1,
    liveRooms := AList.update r \<lparr>lrRoom = baseRoom now r t c 100000, StreamerID = st, StreamStatus = 1, ViewerCount = 0,
               StreamTitle = t, Category = g, lastViewerUpdate = now, hotLevel = 1\<rparr> (liveRooms lrm)\<rparr>"
  using assms by (simp add: CreateLiveRoom_def Let_def)

lemma CreateGameRoom_facts:
  assumes "AddMember now (memberManager lrm) r (mkMember now c 0 [] RoleOwner False True 100) = (mm, cs)"
  shows "\<exists>x. fst (CreateGameRoom now lrm r c t mo mp) = lrm\<lparr>gameRooms := AList.update r x (gameRooms lrm),
    gameRoomCount := gameRoomCount lrm + 1, memberManager := mm\<rparr> \<and> MemberCount (grRoom x) = 0 \<and> MaxMembers (grRoom x) = 50"
  using assms by (simp add: CreateGameRoom_def Let_def) (rule exI, rule conjI, rule refl, simp add: baseRoom_def)

lemma JoinAsViewer_facts:
  assumes "AddMember now (memberManager lrm) r (mkMember now u l c RoleViewer True False 1) = (mm, cs)" "map_of (liveRooms lrm) r = Some x"
  shows "\<exists>y. fst (JoinAsViewer now lrm r u l c) = lrm\<lparr>memberManager := mm, liveRooms := AList.update r y (liveRooms lrm)\<rparr> \<and>
    ViewerCount y = ViewerCount x + 1 \<and> hotLevel y = levelOf (ViewerCount x + 1)"
  using assms by (simp add: JoinAsViewer_def Let_def) (rule exI, rule conjI, rule refl, simp add: updateHotLevel_level)

lemma JoinAsPlayer_facts:
  assumes "AddMember now (memberManager lrm) r (mkMember now u l c RolePlayer False True 10) = (mm, cs)" "map_of (gameRooms lrm) r = Some x"
    "MemberCount (grRoom x) < MaxMembers (grRoom x)"
  shows "\<exists>y. fst (JoinAsPlayer now lrm r u l c) = lrm\<lparr>memberManager := mm, gameRooms := AList.update r y (gameRooms lrm)\<rparr> \<and>
    MemberCount (grRoom y) = MemberCount (grRoom x) + 1 \<and> MaxMembers (grRoom y) = MaxMembers (grRoom x)"
  using assms by (simp add: JoinAsPlayer_def Let_def linorder_not_le [symmetric]) (rule exI, rule conjI, rule refl, simp)

lemma JoinAsPlayer_full:
  "map_of (gameRooms lrm) r = Some x \<Longrightarrow> MaxMembers (grRoom x) \<le> MemberCount (grRoom x) \<Longrightarrow>
     JoinAsPlayer now lrm r u l c = (lrm, Inl (GameRoomFull r), [])"
  by (simp add: JoinAsPlayer_def)

lemma lrm_ok_members: "lrm_ok lrm \<Longrightarrow> mm_ok mm \<Longrightarrow> lrm_ok (lrm\<lparr>memberManager := mm\<rparr>)"
  by (simp add: lrm_ok_def)

lemma lrm_ok_live: "lrm_ok lrm \<Longrightarrow> mm_ok mm \<Longrightarrow> live_ok x \<Longrightarrow>
    lrm_ok (lrm\<lparr>memberManager := mm, liveRoomCount := n, liveRooms := AList.update r x (liveRooms lrm)\<rparr>)"
  "lrm_ok lrm \<Longrightarrow> mm_ok mm \<Longrightarrow> live_ok x \<Longrightarrow>
    lrm_ok (lrm\<lparr>memberManager := mm, liveRooms := AList.update r x (liveRooms lrm)\<rparr>)"
  by (auto simp: lrm_ok_def update_conv')

lemma lrm_ok_game: "lrm_ok lrm \<Longrightarrow> mm_ok mm \<Longrightarrow> game_ok y \<Longrightarrow>
    lrm_ok (lrm\<lparr>gameRooms := AList.update r y (gameRooms lrm), gameRoomCount := n, memberManager := mm\<rparr>)"
  "lrm_ok lrm \<Longrightarrow> mm_ok mm \<Longrightarrow> game_ok y \<Longrightarrow>
    lrm_ok (lrm\<lparr>memberManager := mm, gameRooms := AList.update r y (gameRooms lrm)\<rparr>)"
  by (auto simp: lrm_ok_def update_conv')

lemma word_Suc_le50: "(w :: u32) < 50 \<Longrightarrow> w + 1 \<le> 50"
  by (rule inc_le)

lemma levelOf_0: "levelOf 0 = 1"
  by (simp add: levelOf_def word_sle_eq)

lemma liveStep_ok:
  assumes ok: "lrm_ok lrm"
  shows "lrm_ok (liveStep lrm (now, op))"
proof (cases op)
  case (LCreateLive r c st t g)
  obtain mm cs where a: "AddMember now (memberManager lrm) r (mkMember now st 0 [] RoleStreamer False False 100) = (mm, cs)"
    by (rule prod.exhaust)
  then have m: "mm_ok mm" using ok AddMember_ok(1) [OF _ a] by (simp add: lrm_ok_def)
  show ?thesis unfolding LCreateLive liveStep.simps CreateLiveRoom_facts [OF a]
    by (rule lrm_ok_live(1) [OF ok m]) (simp add: live_ok_def levelOf_0)
next
  case (LCreateGame r c t mo mp)
  obtain mm cs where a: "AddMember now (memberManager lrm) r (mkMember now c 0 [] RoleOwner False True 100) = (mm, cs)"
    by (rule prod.exhaust)
  then have m: "mm_ok mm" using ok AddMember_ok(1) [OF _ a] by (simp add: lrm_ok_def)
  obtain x where "fst (CreateGameRoom now lrm r c t mo mp) = lrm\<lparr>gameRooms := AList.update r x (gameRooms lrm),
    gameRoomCount := gameRoomCount lrm + 1, memberManager := mm\<rparr>" "game_ok x" using CreateGameRoom_facts [OF a, of t mo mp] by (auto simp: game_ok_def)
  then show ?thesis using ok m LCreateGame by (simp add: lrm_ok_game)
next
  case (LViewer r u l c)
  obtain mm cs where a: "AddMember now (memberManager lrm) r (mkMember now u l c RoleViewer True False 1) = (mm, cs)"
    by (rule prod.exhaust)
  then have m: "mm_ok mm" using ok AddMember_ok(1) [OF _ a] by (simp add: lrm_ok_def)
  show ?thesis
  proof (cases "map_of (liveRooms lrm) r")
    case None
    then show ?thesis using ok LViewer by (simp add: JoinAsViewer_def)
  next
    case (Some x)
    obtain y where "fst (JoinAsViewer now lrm r u l c) = lrm\<lparr>memberManager := mm, liveRooms := AList.update r y (liveRooms lrm)\<rparr>" "live_ok y"
      using JoinAsViewer_facts [OF a Some] by (auto simp: live_ok_def)
    then show ?thesis using ok m LViewer by (simp add: lrm_ok_live)
  qed
next
  case (LPlayer r u l c)
  obtain mm cs where a: "AddMember now (memberManager lrm) r (mkMember now u l c RolePlayer False True 10) = (mm, cs)"
    by (rule prod.exhaust)
  then have m: "mm_ok mm" using ok AddMember_ok(1) [OF _ a] by (simp add: lrm_ok_def)
  show ?thesis
  proof (cases "map_of (gameRooms lrm) r")
    case None
    then show ?thesis using ok LPlayer by (simp add: JoinAsPlayer_def)
  next
    case (Some x)
    then have g: "game_ok x" using ok by (simp add: lrm_ok_def)
    show ?thesis
    proof (cases "MemberCount (grRoom x) < MaxMembers (grRoom x)")
      case True
      obtain y where "fst (JoinAsPlayer now lrm r u l c) = lrm\<lparr>memberManager := mm, gameRooms := AList.update r y (gameRooms lrm)\<rparr>" "game_ok y"
        using JoinAsPlayer_facts [OF a Some True] g True word_Suc_le50 by (auto simp: game_ok_def)
      then show ?thesis using ok m LPlayer by (simp add: lrm_ok_game)
    qed (use ok LPlayer JoinAsPlayer_full [OF Some] in simp)
  qed
next
  case (LRemove r u)
  obtain mm e cs where a: "RemoveMember now (memberManager lrm) r u = (mm, e, cs)" by (rule prod_cases3)
  have "mm_ok mm" by (rule RemoveMember_ok [OF _ a]) (use ok in \<open>simp add: lrm_ok_def\<close>)
  then show ?thesis using ok LRemove lrm_ok_members a by simp
qed

lemma liveRun_ok: "lrm_ok lrm \<Longrightarrow> lrm_ok (liveRun lrm xs)"
proof (induction xs arbitrary: lrm)
  case (Cons x xs)
  then show ?case using liveStep_ok by (cases x) simp
qed simp

lemma lrm_ok_start: "lrm_ok (NewLiveRoomManager c)"
  by (simp add: lrm_ok_def NewLiveRoomManager_def Let_def mm_ok_def NewMemoryMemberManager_def inRoom_def)

text \<open>Whatever the rooms created, the users that join and the members removed: every room counts its members
  exactly, the total is the sum over the rooms, the rooms of a user are exactly those it is a member of, each
  once; a live room has the heat of its number of viewers, and a game room never counts more than 50 players.\<close>

theorem live_members_consistent:
  "let lrm = liveRun (NewLiveRoomManager c) xs; mm = memberManager lrm
   in memTotal mm = of_nat (\<Sum>p\<leftarrow>roomMembers mm. length (msMembers (snd p))) \<and>
     (\<forall>r ms. map_of (roomMembers mm) r = Some ms \<longrightarrow>
        GetMemberCount mm r = of_nat (length (msMembers ms)) \<and> set (msHot ms) = fst ` set (msMembers ms) \<and>
        (\<forall>u. r \<in> set (userRooms mm u) \<longleftrightarrow> map_of (msMembers ms) u \<noteq> None)) \<and>
     (\<forall>u. distinct (userRooms mm u)) \<and>
     (\<forall>r x. map_of (liveRooms lrm) r = Some x \<longrightarrow> hotLevel x = levelOf (ViewerCount x)) \<and>
     (\<forall>r x. map_of (gameRooms lrm) r = Some x \<longrightarrow> MemberCount (grRoom x) \<le> 50)"
proof -
  let ?lrm = "liveRun (NewLiveRoomManager c) xs"
  let ?mm = "memberManager ?lrm"
  have ok: "lrm_ok ?lrm" by (rule liveRun_ok [OF lrm_ok_start])
  then have mm: "mm_ok ?mm" by (simp add: lrm_ok_def)
  have "GetMemberCount ?mm r = of_nat (length (msMembers ms)) \<and> set (msHot ms) = fst ` set (msMembers ms) \<and>
      (\<forall>u. r \<in> set (userRooms ?mm u) \<longleftrightarrow> map_of (msMembers ms) u \<noteq> None)"
    if "map_of (roomMembers ?mm) r = Some ms" for r ms
    using mm_okD [OF mm that] mm that by (simp add: GetMemberCount_def set_ok_def mm_ok_def inRoom_def map_of_eq_None_iff)
  then show ?thesis using ok mm unfolding Let_def by (simp add: lrm_ok_def mm_ok_def live_ok_def game_ok_def)
qed

text \<open>A streamer, a viewer who joins twice, and a game room that the same player enters twice.\<close>

abbreviation demoOps :: "(int \<times> live_op) list" where
  "demoOps \<equiv> [(0, LCreateLive 7 1 1 ''s'' ''c''), (1, LViewer 7 2 0 ''x''), (2, LViewer 7 2 0 ''y''), (3, LRemove 7 2)]"

lemmas live_defs = CreateLiveRoom_def JoinAsViewer_def AddMember_def RemoveMember_def NewLiveRoomManager_def NewMemoryMemberManager_def
  emptySet_def mkMember_def baseRoom_def updateHotLevel_def levelOf_def Let_def word_sle_eq

theorem live_members_consistent_witness:
  "GetMemberCount (memberManager (liveRun (NewLiveRoomManager None) demoOps)) 7 = 1 \<and>
   map_option ViewerCount (map_of (liveRooms (liveRun (NewLiveRoomManager None) demoOps)) 7) = Some 2"
proof -
  let ?lrm = "liveRun (NewLiveRoomManager None) demoOps"
  have m: "map_option (\<lambda>ms. map fst (msMembers ms)) (map_of (roomMembers (memberManager ?lrm)) 7) = Some [1]"
    by (simp add: live_defs)
  then obtain ms where ms: "map_of (roomMembers (memberManager ?lrm)) 7 = Some ms" "length (msMembers ms) = 1"
    by (cases "map_of (roomMembers (memberManager ?lrm)) 7") (auto dest: arg_cong [of _ _ length])
  have "GetMemberCount (memberManager ?lrm) 7 = of_nat (length (msMembers ms))"
    using live_members_consistent [of None demoOps, unfolded Let_def] ms(1) by blast
  moreover have "map_option ViewerCount (map_of (liveRooms ?lrm) 7) = Some 2" by (simp add: live_defs)
  ultimately show ?thesis using ms(2) by simp
qed

section \<open>What the counters count\<close>

fun viewerJoins :: "u64 \<Rightarrow> (int \<times> live_op) list \<Rightarrow> nat" where
  "viewerJoins r [] = 0"
| "viewerJoins r ((now, LViewer q u l c) # xs) = (if q = r then 1 else 0) + viewerJoins r xs"
| "viewerJoins r (_ # xs) = viewerJoins r xs"

fun createsLive :: "u64 \<Rightarrow> live_op \<Rightarrow> bool" where
  "createsLive r (LCreateLive q c st t g) = (q = r)"
| "createsLive r _ = False"

lemma liveRooms_CreateGame: "liveRooms (fst (CreateGameRoom now lrm r c t mo mp)) = liveRooms lrm"
  by (simp add: CreateGameRoom_def Let_def split: prod.split)

lemma liveRooms_Player: "liveRooms (fst (JoinAsPlayer now lrm r u l c)) = liveRooms lrm"
  by (simp add: JoinAsPlayer_def Let_def split: option.split prod.split)

lemma liveStep_viewers:
  assumes "map_of (liveRooms lrm) r = Some x" "\<not> createsLive r op"
  shows "\<exists>y. map_of (liveRooms (liveStep lrm (now, op))) r = Some y \<and>
    ViewerCount y = ViewerCount x + of_nat (viewerJoins r [(now, op)])"
proof (cases op)
  case (LCreateLive q c st t g)
  obtain mm cs where a: "AddMember now (memberManager lrm) q (mkMember now st 0 [] RoleStreamer False False 100) = (mm, cs)"
    by (rule prod.exhaust)
  show ?thesis using assms LCreateLive CreateLiveRoom_facts [OF a] by (simp add: update_conv')
next
  case (LViewer q u l c)
  obtain mm cs where a: "AddMember now (memberManager lrm) q (mkMember now u l c RoleViewer True False 1) = (mm, cs)"
    by (rule prod.exhaust)
  show ?thesis
  proof (cases "map_of (liveRooms lrm) q")
    case None
    then show ?thesis using assms LViewer by (auto simp: JoinAsViewer_def)
  next
    case (Some z)
    then show ?thesis using assms LViewer JoinAsViewer_facts [OF a Some] by (auto simp: update_conv')
  qed
qed (use assms in \<open>simp_all add: liveRooms_CreateGame liveRooms_Player\<close>)

lemma viewerJoins_Cons: "viewerJoins r (x # xs) = viewerJoins r [x] + viewerJoins r xs"
  by (cases x; cases "snd x") auto

text \<open>The viewers of a live room, and with them its heat, only ever go up: once the room has been created, the
  counter is the number of times anybody joined, whether the user was a member already and however many have
  been removed since.\<close>

theorem viewers_never_leave:
  assumes "\<forall>x \<in> set xs. \<not> createsLive r (snd x)"
  shows "\<exists>y. map_of (liveRooms (liveRun lrm ((now, LCreateLive r c st t g) # xs))) r = Some y \<and>
    ViewerCount y = of_nat (viewerJoins r xs)"
proof -
  have "\<exists>y. map_of (liveRooms (liveRun lrm xs)) r = Some y \<and> ViewerCount y = ViewerCount x + of_nat (viewerJoins r xs)"
    if "map_of (liveRooms lrm) r = Some x" for lrm x
    using that assms
  proof (induction xs arbitrary: lrm x)
    case (Cons z zs)
    obtain now op where z: "z = (now, op)" by (rule prod.exhaust)
    then obtain y where "map_of (liveRooms (liveStep lrm z)) r = Some y" "ViewerCount y = ViewerCount x + of_nat (viewerJoins r [z])"
      using liveStep_viewers [OF Cons.prems(1), of op now] Cons.prems(2) by auto
    then show ?case using Cons.IH [of "liveStep lrm z" y] Cons.prems(2) by (subst viewerJoins_Cons) (simp add: add.assoc)
  qed simp
  moreover obtain mm cs where a: "AddMember now (memberManager lrm) r (mkMember now st 0 [] RoleStreamer False False 100) = (mm, cs)"
    by (rule prod.exhaust)
  have "\<exists>x. map_of (liveRooms (liveStep lrm (now, LCreateLive r c st t g))) r = Some x \<and> ViewerCount x = 0"
    using CreateLiveRoom_facts [OF a] by (simp add: update_conv')
  ultimately show ?thesis by force
qed

theorem viewers_never_leave_witness:
  "\<exists>y. map_of (liveRooms (liveRun (NewLiveRoomManager None) demoOps)) 7 = Some y \<and> ViewerCount y = 2 \<and>
     \<not> inRoom (memberManager (liveRun (NewLiveRoomManager None) demoOps)) 2 7"
proof -
  have n: "\<not> inRoom (memberManager (liveRun (NewLiveRoomManager None) demoOps)) 2 7" by (simp add: live_defs inRoom_def)
  have "\<forall>x \<in> set (tl demoOps). \<not> createsLive 7 (snd x)" by simp
  from viewers_never_leave [OF this, of "NewLiveRoomManager None" 0 1 1 "''s''" "''c''"] show ?thesis using n by (simp add: numeral_2_eq_2 del: foldl_Cons)
qed

definition filling :: "u64 \<Rightarrow> u32 \<Rightarrow> u32 \<Rightarrow> nat \<Rightarrow> live_manager \<Rightarrow> bool" where
  "filling r owner u n s \<longleftrightarrow> (\<exists>g ms. map_of (gameRooms s) r = Some g \<and> MemberCount (grRoom g) = of_nat n \<and> MaxMembers (grRoom g) = 50 \<and>
     map_of (roomMembers (memberManager s)) r = Some ms \<and> fst ` set (msMembers ms) = (if n = 0 then {owner} else {owner, u}) \<and>
     msCount ms = (if n = 0 \<or> u = owner then 1 else 2))"

lemma filling_start: "filling r owner u 0 (fst (CreateGameRoom now (NewLiveRoomManager cfg) r owner t mo mp))"
  by (simp add: filling_def CreateGameRoom_def AddMember_def NewLiveRoomManager_def NewMemoryMemberManager_def emptySet_def
      mkMember_def baseRoom_def Let_def split: option.split)

lemma filling_step:
  assumes "filling r owner u n s" "n < 50"
  shows "filling r owner u (Suc n) (fst (JoinAsPlayer now s r u l c))"
proof -
  obtain g ms where g: "map_of (gameRooms s) r = Some g" "MemberCount (grRoom g) = of_nat n" "MaxMembers (grRoom g) = 50"
    and ms: "map_of (roomMembers (memberManager s)) r = Some ms" "fst ` set (msMembers ms) = (if n = 0 then {owner} else {owner, u})"
      "msCount ms = (if n = 0 \<or> u = owner then 1 else 2)"
    using assms(1) by (auto simp: filling_def)
  obtain mm cs where a: "AddMember now (memberManager s) r (mkMember now u l c RolePlayer False True 10) = (mm, cs)" (is "AddMember _ _ _ ?m = _")
    by (rule prod.exhaust)
  have u: "lmUserID ?m = u" by (simp add: mkMember_def)
  have "(of_nat n :: u32) < 50" using assms(2) by (simp add: word_less_nat_alt unat_of_nat take_bit_nat_eq_self unsigned_of_nat)
  then have lt: "MemberCount (grRoom g) < MaxMembers (grRoom g)" using g by simp
  obtain y where y: "fst (JoinAsPlayer now s r u l c) = s\<lparr>memberManager := mm, gameRooms := AList.update r y (gameRooms s)\<rparr>"
    "MemberCount (grRoom y) = of_nat (Suc n)" "MaxMembers (grRoom y) = 50"
    using JoinAsPlayer_facts [OF a g(1) lt] g(2,3) by (auto simp: add.commute)
  let ?ms = "setAfter now ?m ms"
  have r: "map_of (roomMembers mm) r = Some ?ms" using AddMember_facts(1) [OF a] ms(1) by (simp add: update_conv' setAt_def)
  have k: "fst ` set (msMembers ?ms) = {owner, u}" using ms(2) u by (auto simp: setAfter_def fst_update)
  have "map_of (msMembers ms) u = None \<longleftrightarrow> n = 0 \<and> u \<noteq> owner" using ms(2) by (auto simp: map_of_eq_None_iff split: if_splits)
  then have "msCount ?ms = (if u = owner then 1 else 2)" using ms(3) u by (auto simp: setAfter_def)
  with y r k g show ?thesis by (auto simp: filling_def update_conv')
qed

text \<open>One player fills a game room: after joining 50 times the room has two members, its owner and the player,
  and is full for everybody.\<close>

theorem one_player_fills_game:
  "let s = ((\<lambda>s. fst (JoinAsPlayer now s r u l c)) ^^ 50) (fst (CreateGameRoom now0 (NewLiveRoomManager cfg) r owner t mo mp))
   in GetMemberCount (memberManager s) r = (if u = owner then 1 else 2) \<and>
     JoinAsPlayer now' s r v l' c' = (s, Inl (GameRoomFull r), [])"
proof -
  let ?s0 = "fst (CreateGameRoom now0 (NewLiveRoomManager cfg) r owner t mo mp)"
  have "n \<le> 50 \<Longrightarrow> filling r owner u n (((\<lambda>s. fst (JoinAsPlayer now s r u l c)) ^^ n) ?s0)" for n
  proof (induction n)
    case 0
    then show ?case using filling_start by simp
  next
    case (Suc n)
    then show ?case using filling_step [of r owner u n] by simp
  qed
  from this [of 50] have "filling r owner u 50 (((\<lambda>s. fst (JoinAsPlayer now s r u l c)) ^^ 50) ?s0)" by simp
  then show ?thesis unfolding Let_def filling_def
    by (elim exE conjE) (simp add: GetMemberCount_def JoinAsPlayer_def)
qed

end
