(* ===== verification/RouterLink.thy ===== *)
theory RouterLink
  imports Envelope
begin

text \<open>
  \<^verbatim>\<open>connection/router_manager.go\<close>: the link of a connection node to the routers, and the retransmission of
  what it sends to them.  Arguments: the clock, the orders in which Go walks over the map of routers
  (\<open>ord\<close>, one for each walk), the result of dialling an address (\<open>dial\<close>: the connection, which the client hands
  to \<^verbatim>\<open>OnConnected\<close> before \<^verbatim>\<open>Connect\<close> returns), and the results of the writes (\<open>None\<close>, or the error).
  Go's mutexes are not reentrant, and this file locks one twice: \<open>lkHeld\<close> says that a goroutine holds
  \<^verbatim>\<open>pendingMutex\<close> and will never release it, and an operation returns \<open>LkBlocked\<close> when it never returns.
\<close>

section \<open>State\<close>

record router_link =
  rlAddr :: string
  rlConnected :: bool
  rlConnection :: "nat option"
  rlHeartbeat :: int
  rlSent :: i64
  rlReceived :: i64

record pending_router =
  prID :: bytes
  prData :: bytes
  prSentTime :: int
  prRetries :: int
  prTimer :: bool
  prTarget :: string

type_synonym links = "(string \<times> router_link) list"

text \<open>\<open>lkWritten\<close> is what has been written so far, with the address of the router.\<close>

record link_manager =
  lkRouters :: links
  activeRouterIndex :: i32
  lkPending :: "(string \<times> pending_router) list"
  lkHeld :: bool
  lkMaxRetries :: int
  lkTotal :: i64
  lkFailed :: i64
  lkSwitches :: i64
  lkWritten :: "(string \<times> bytes) list"

datatype link_error = NoActiveRouter | RouterUnknown string | RouterNotConnected string | RouterConnectionNil
  | RouterWrite string string | RouterDial string | NoAvailableRouter | LinkCodec codec_error

datatype link_progress = LkDone | LkBlocked

definition NewRouterManager :: "int \<Rightarrow> link_manager" where
  "NewRouterManager retries = \<lparr>lkRouters = [], activeRouterIndex = 0, lkPending = [], lkHeld = False, lkMaxRetries = retries,
     lkTotal = 0, lkFailed = 0, lkSwitches = 0, lkWritten = []\<rparr>"

definition putRouter :: "router_link \<Rightarrow> link_manager \<Rightarrow> link_manager" where
  "putRouter r lk = lk\<lparr>lkRouters := AList.update (rlAddr r) r (lkRouters lk)\<rparr>"

definition putPending :: "string \<Rightarrow> pending_router \<Rightarrow> link_manager \<Rightarrow> link_manager" where
  "putPending k p lk = lk\<lparr>lkPending := AList.update k p (lkPending lk)\<rparr>"

section \<open>Connections\<close>

text \<open>\<open>created\<close>: whether \<^verbatim>\<open>api.NewClient\<close> succeeds.\<close>

definition createRouterConnection :: "bool \<Rightarrow> string \<Rightarrow> link_manager \<Rightarrow> link_manager" where
  "createRouterConnection created addr lk =
     (if created then putRouter \<lparr>rlAddr = addr, rlConnected = False, rlConnection = None, rlHeartbeat = 0, rlSent = 0, rlReceived = 0\<rparr> lk
      else lk)"

definition lkOnConnected :: "nat \<Rightarrow> router_link \<Rightarrow> router_link" where
  "lkOnConnected c r = r\<lparr>rlConnected := True, rlConnection := Some c\<rparr>"

definition lkOnDisconnected :: "router_link \<Rightarrow> router_link" where
  "lkOnDisconnected r = r\<lparr>rlConnected := False, rlConnection := None\<rparr>"

definition lkOnReconnected :: "nat \<Rightarrow> router_link \<Rightarrow> router_link" where
  "lkOnReconnected c r = r\<lparr>rlConnected := True, rlConnection := Some c\<rparr>"

text \<open>A message from the router is counted; nothing else is done with it.\<close>

definition lkOnMessageReceived :: "router_link \<Rightarrow> router_link" where
  "lkOnMessageReceived r = r\<lparr>rlReceived := rlReceived r + 1\<rparr>"

definition lkOnHeartbeatSent :: "int \<Rightarrow> router_link \<Rightarrow> router_link" where
  "lkOnHeartbeatSent now r = r\<lparr>rlHeartbeat := now\<rparr>"

definition connectToRouter :: "(string \<Rightarrow> nat option) \<Rightarrow> string \<Rightarrow> link_manager \<Rightarrow> link_manager \<times> link_error option" where
  "connectToRouter dial addr lk =
     (case map_of (lkRouters lk) addr of
        None \<Rightarrow> (lk, Some (RouterUnknown addr))
      | Some r \<Rightarrow>
          if rlConnected r then (lk, None)
          else case dial addr of
                 None \<Rightarrow> (lk, Some (RouterDial addr))
               | Some c \<Rightarrow> (putRouter (lkOnConnected c r) lk, None))"

fun connectLoop :: "(string \<Rightarrow> nat option) \<Rightarrow> nat \<Rightarrow> string list \<Rightarrow> link_manager \<Rightarrow> link_manager \<times> link_error option" where
  "connectLoop dial i [] lk = (lk, Some NoAvailableRouter)"
| "connectLoop dial i (addr # addrs) lk =
     (case connectToRouter dial addr lk of
        (lk1, None) \<Rightarrow> (lk1\<lparr>activeRouterIndex := word_of_nat i\<rparr>, None)
      | (lk1, Some _) \<Rightarrow> connectLoop dial (Suc i) addrs lk1)"

definition connectToAvailableRouter :: "(links \<Rightarrow> links) \<Rightarrow> (string \<Rightarrow> nat option) \<Rightarrow> link_manager \<Rightarrow> link_manager \<times> link_error option" where
  "connectToAvailableRouter ord dial lk = connectLoop dial 0 (map fst (ord (lkRouters lk))) lk"

definition initRouterConnections :: "(links \<Rightarrow> links) \<Rightarrow> (string \<Rightarrow> nat option) \<Rightarrow> (string \<Rightarrow> bool) \<Rightarrow> string list \<Rightarrow> link_manager \<Rightarrow> link_manager" where
  "initRouterConnections ord dial created addrs lk =
     fst (connectToAvailableRouter ord dial (fold (\<lambda>a. createRouterConnection (created a) a) addrs lk))"

definition GetRouterAddrs :: "(links \<Rightarrow> links) \<Rightarrow> link_manager \<Rightarrow> string list" where
  "GetRouterAddrs ord lk = map fst (ord (lkRouters lk))"

fun activeLoop :: "i32 \<Rightarrow> nat \<Rightarrow> router_link list \<Rightarrow> router_link option" where
  "activeLoop index i [] = None"
| "activeLoop index i (r # rs) = (if word_of_nat i = index \<and> rlConnected r then Some r else activeLoop index (Suc i) rs)"

definition getActiveRouter :: "(links \<Rightarrow> links) \<Rightarrow> link_manager \<Rightarrow> router_link option" where
  "getActiveRouter ord lk = activeLoop (activeRouterIndex lk) 0 (map snd (ord (lkRouters lk)))"

text \<open>\<open>n\<close> attempts are left.\<close>

fun switchLoop :: "(string \<Rightarrow> nat option) \<Rightarrow> string list \<Rightarrow> int \<Rightarrow> nat \<Rightarrow> nat \<Rightarrow> link_manager \<Rightarrow> link_manager \<times> link_error option" where
  "switchLoop dial addrs current i 0 lk = (lk, Some NoAvailableRouter)"
| "switchLoop dial addrs current i (Suc n) lk =
     (let nextIndex = nat ((current + int i + 1) mod int (length addrs))
      in case connectToRouter dial (addrs ! nextIndex) lk of
           (lk1, None) \<Rightarrow> (lk1\<lparr>activeRouterIndex := word_of_nat nextIndex, lkSwitches := lkSwitches lk1 + 1\<rparr>, None)
         | (lk1, Some _) \<Rightarrow> switchLoop dial addrs current (Suc i) n lk1)"

definition switchToNextRouter :: "(links \<Rightarrow> links) \<Rightarrow> (string \<Rightarrow> nat option) \<Rightarrow> link_manager \<Rightarrow> link_manager \<times> link_error option" where
  "switchToNextRouter ord dial lk =
     (let addrs = map fst (ord (lkRouters lk)) in switchLoop dial addrs (sint (activeRouterIndex lk)) 0 (length addrs) lk)"

fun reconnectLoop :: "(string \<Rightarrow> nat option) \<Rightarrow> string list \<Rightarrow> link_manager \<Rightarrow> link_manager" where
  "reconnectLoop dial [] lk = lk"
| "reconnectLoop dial (a # as) lk = reconnectLoop dial as (fst (connectToRouter dial a lk))"

definition checkAndReconnect :: "(links \<Rightarrow> links) \<Rightarrow> (string \<Rightarrow> nat option) \<Rightarrow> link_manager \<Rightarrow> link_manager" where
  "checkAndReconnect ord dial lk =
     reconnectLoop dial (map fst (filter (\<lambda>p. \<not> rlConnected (snd p)) (ord (lkRouters lk)))) lk"

definition closeAllConnections :: "link_manager \<Rightarrow> link_manager" where
  "closeAllConnections lk = lk\<lparr>lkRouters := map (\<lambda>(a, r). (a, r\<lparr>rlConnected := False\<rparr>)) (lkRouters lk)\<rparr>"

section \<open>Sending\<close>

definition sendToRouter :: "string option \<Rightarrow> router_link \<Rightarrow> bytes \<Rightarrow> link_manager \<Rightarrow> link_manager \<times> link_error option" where
  "sendToRouter w r data lk =
     (if \<not> rlConnected r then (lk, Some (RouterNotConnected (rlAddr r)))
      else if rlConnection r = None then (lk, Some RouterConnectionNil)
      else case w of
             Some e \<Rightarrow> (lk\<lparr>lkFailed := lkFailed lk + 1\<rparr>, Some (RouterWrite (rlAddr r) e))
           | None \<Rightarrow> ((putRouter (r\<lparr>rlSent := rlSent r + 1\<rparr>) lk)\<lparr>lkTotal := lkTotal lk + 1,
                        lkWritten := lkWritten lk @ [(rlAddr r, data)]\<rparr>, None))"

definition SendMessageToRouterSync :: "(envelope option \<Rightarrow> codec_error + bytes) \<Rightarrow> (links \<Rightarrow> links) \<Rightarrow> string option
    \<Rightarrow> link_manager \<Rightarrow> envelope \<Rightarrow> link_manager \<times> link_error option" where
  "SendMessageToRouterSync ser ord w lk e =
     (case getActiveRouter ord lk of
        None \<Rightarrow> (lk, Some NoActiveRouter)
      | Some r \<Rightarrow> (case ser (Some e) of Inl err \<Rightarrow> (lk, Some (LinkCodec err)) | Inr data \<Rightarrow> sendToRouter w r data lk))"

text \<open>\<open>beat\<close>: the bytes of the heartbeat, or nothing when the codec fails; \<open>w\<close>: the result of each write.\<close>

fun beatLoop :: "(string \<Rightarrow> string option) \<Rightarrow> int \<Rightarrow> bytes \<Rightarrow> router_link list \<Rightarrow> link_manager \<Rightarrow> link_manager" where
  "beatLoop w now data [] lk = lk"
| "beatLoop w now data (r # rs) lk =
     (case sendToRouter (w (rlAddr r)) r data lk of
        (lk1, Some _) \<Rightarrow> beatLoop w now data rs lk1
      | (lk1, None) \<Rightarrow> beatLoop w now data rs (putRouter (r\<lparr>rlSent := rlSent r + 1, rlHeartbeat := now\<rparr>) lk1))"

definition lkSendHeartbeat :: "(links \<Rightarrow> links) \<Rightarrow> (string \<Rightarrow> string option) \<Rightarrow> int \<Rightarrow> bytes option \<Rightarrow> link_manager \<Rightarrow> link_manager" where
  "lkSendHeartbeat ord w now beat lk =
     (case beat of None \<Rightarrow> lk | Some data \<Rightarrow> beatLoop w now data (filter rlConnected (map snd (ord (lkRouters lk)))) lk)"

section \<open>Reliability\<close>

text \<open>\<open>mine\<close>: the caller holds the mutex of the pending message itself.\<close>

definition lkRemovePending :: "bool \<Rightarrow> string \<Rightarrow> link_manager \<Rightarrow> link_manager \<times> link_progress" where
  "lkRemovePending mine k lk =
     (if lkHeld lk then (lk, LkBlocked)
      else case map_of (lkPending lk) k of
             None \<Rightarrow> (lk, LkDone)
           | Some p \<Rightarrow>
               (let lk1 = lk\<lparr>lkPending := AList.delete k (lkPending lk)\<rparr>
                in if mine then (lk1\<lparr>lkHeld := True\<rparr>, LkBlocked) else (lk1, LkDone)))"

definition lkSendMessage :: "(links \<Rightarrow> links) \<Rightarrow> string option \<Rightarrow> int \<Rightarrow> bytes \<Rightarrow> bytes \<Rightarrow> link_manager
    \<Rightarrow> link_manager \<times> link_error option \<times> link_progress" where
  "lkSendMessage ord w now mid data lk =
     (case getActiveRouter ord lk of
        None \<Rightarrow> (lk, Some NoActiveRouter, LkDone)
      | Some r \<Rightarrow>
          let k = hex_string mid;
              p = \<lparr>prID = mid, prData = data, prSentTime = now, prRetries = 0, prTimer = False, prTarget = rlAddr r\<rparr>
          in if lkHeld lk then (lk, None, LkBlocked)
             else case sendToRouter w r data (putPending k p lk) of
                    (lk1, Some e) \<Rightarrow> (case lkRemovePending False k lk1 of (lk2, pr) \<Rightarrow> (lk2, Some e, pr))
                  | (lk1, None) \<Rightarrow> (putPending k (p\<lparr>prTimer := True\<rparr>) lk1, None, LkDone))"

definition SendMessageToRouter :: "(envelope option \<Rightarrow> codec_error + bytes) \<Rightarrow> (links \<Rightarrow> links) \<Rightarrow> string option \<Rightarrow> int
    \<Rightarrow> envelope \<Rightarrow> link_manager \<Rightarrow> link_manager \<times> link_error option \<times> link_progress" where
  "SendMessageToRouter ser ord w now e lk =
     (case ser (Some e) of
        Inl err \<Rightarrow> (lk, Some (LinkCodec err), LkDone)
      | Inr data \<Rightarrow> lkSendMessage ord w now (MessageId e) data lk)"

text \<open>What a timeout meets: the orders of its three walks, the results of dialling and of its two writes.\<close>

record timeout_env =
  teOrd1 :: "links \<Rightarrow> links"
  teOrd2 :: "links \<Rightarrow> links"
  teOrd3 :: "links \<Rightarrow> links"
  teDial :: "string \<Rightarrow> nat option"
  teWrite1 :: "string option"
  teWrite2 :: "string option"

text \<open>Once more to the same router; \<open>Inr\<close> when that worked.\<close>

definition retrySame :: "timeout_env \<Rightarrow> string \<Rightarrow> pending_router \<Rightarrow> link_manager \<Rightarrow> link_manager \<times> bool" where
  "retrySame t k p lk =
     (case getActiveRouter (teOrd1 t) lk of
        None \<Rightarrow> (lk, False)
      | Some r \<Rightarrow>
          if rlAddr r \<noteq> prTarget p then (lk, False)
          else case sendToRouter (teWrite1 t) r (prData p) lk of
                 (lk1, None) \<Rightarrow> (putPending k (p\<lparr>prTimer := True\<rparr>) lk1, True)
               | (lk1, Some _) \<Rightarrow> (lk1, False))"

definition retryOther :: "timeout_env \<Rightarrow> string \<Rightarrow> pending_router \<Rightarrow> link_manager \<Rightarrow> link_manager \<times> bool" where
  "retryOther t k p lk =
     (case switchToNextRouter (teOrd2 t) (teDial t) lk of
        (lk1, Some _) \<Rightarrow> (lk1, False)
      | (lk1, None) \<Rightarrow>
          (case getActiveRouter (teOrd3 t) lk1 of
             None \<Rightarrow> (lk1, False)
           | Some r \<Rightarrow>
               (let p1 = p\<lparr>prTarget := rlAddr r\<rparr>
                in case sendToRouter (teWrite2 t) r (prData p1) (putPending k p1 lk1) of
                     (lk2, None) \<Rightarrow> (putPending k (p1\<lparr>prTimer := True\<rparr>) lk2, True)
                   | (lk2, Some _) \<Rightarrow> (lk2, False))))"

definition lkTimeout :: "timeout_env \<Rightarrow> string \<Rightarrow> link_manager \<Rightarrow> link_manager \<times> link_progress" where
  "lkTimeout t k lk =
     (if lkHeld lk then (lk, LkBlocked)
      else case map_of (lkPending lk) k of
             None \<Rightarrow> (lk, LkDone)
           | Some p0 \<Rightarrow>
               (let p = p0\<lparr>prRetries := prRetries p0 + 1\<rparr>;
                    lk1 = putPending k p lk
                in if prRetries p \<le> lkMaxRetries lk
                   then case retrySame t k p lk1 of
                          (lk2, True) \<Rightarrow> (lk2, LkDone)
                        | (lk2, False) \<Rightarrow> (case retryOther t k p lk2 of
                                            (lk3, True) \<Rightarrow> (lk3, LkDone)
                                          | (lk3, False) \<Rightarrow> lkRemovePending True k lk3)
                   else lkRemovePending True k lk1))"

definition maxPendingAge :: int where "maxPendingAge = 300000000000"

definition lkCleanup :: "int \<Rightarrow> link_manager \<Rightarrow> link_manager \<times> link_progress" where
  "lkCleanup now lk =
     (if lkHeld lk then (lk, LkBlocked)
      else (lk\<lparr>lkPending := filter (\<lambda>(k, p). \<not> now - prSentTime p > maxPendingAge) (lkPending lk)\<rparr>, LkDone))"

record link_stats =
  lsTotalRouters :: nat
  lsConnected :: nat
  lsIndex :: i32
  lsMessages :: i64
  lsFailed :: i64
  lsSwitches :: i64

definition lk_GetStats :: "link_manager \<Rightarrow> link_stats" where
  "lk_GetStats lk =
     \<lparr>lsTotalRouters = length (lkRouters lk), lsConnected = length (filter (\<lambda>p. rlConnected (snd p)) (lkRouters lk)),
      lsIndex = activeRouterIndex lk, lsMessages = lkTotal lk, lsFailed = lkFailed lk, lsSwitches = lkSwitches lk\<rparr>"

section \<open>Every message blocks the link in the end\<close>

text \<open>Timeouts one after the other, until one does not return.\<close>

fun lkTimeouts :: "timeout_env \<Rightarrow> string \<Rightarrow> nat \<Rightarrow> link_manager \<Rightarrow> link_manager \<times> link_progress" where
  "lkTimeouts t k 0 lk = (lk, LkDone)"
| "lkTimeouts t k (Suc n) lk =
     (case lkTimeout t k lk of (lk1, LkDone) \<Rightarrow> lkTimeouts t k n lk1 | (lk1, LkBlocked) \<Rightarrow> (lk1, LkBlocked))"

text \<open>One router \<open>a\<close>, connected; the message \<open>k\<close> has been written \<open>j + 1\<close> times.\<close>

definition waiting :: "string \<Rightarrow> string \<Rightarrow> bytes \<Rightarrow> (string \<times> bytes) list \<Rightarrow> nat \<Rightarrow> link_manager \<Rightarrow> bool" where
  "waiting a k d ws j lk \<longleftrightarrow> (\<exists>r p. lkRouters lk = [(a, r)] \<and> rlAddr r = a \<and> rlConnected r \<and> rlConnection r \<noteq> None \<and>
     activeRouterIndex lk = 0 \<and> \<not> lkHeld lk \<and> map_of (lkPending lk) k = Some p \<and> prTarget p = a \<and> prData p = d \<and>
     prRetries p = int j \<and> lkWritten lk = ws @ replicate (Suc j) (a, d))"

lemma active_single:
  assumes "lkRouters lk = [(a, r)]" "rlConnected r" "activeRouterIndex lk = 0" "ord [(a, r)] = [(a, r)]"
  shows "getActiveRouter ord lk = Some r"
  using assms by (simp add: getActiveRouter_def)

lemma waiting_retry:
  assumes "waiting a k d ws j lk" "int (Suc j) \<le> lkMaxRetries lk" "\<And>x. teOrd1 t [x] = [x]" "teWrite1 t = None"
  shows "\<exists>lk1. lkTimeout t k lk = (lk1, LkDone) \<and> waiting a k d ws (Suc j) lk1 \<and> lkMaxRetries lk1 = lkMaxRetries lk"
proof -
  obtain r p where w: "lkRouters lk = [(a, r)]" "rlAddr r = a" "rlConnected r" "rlConnection r \<noteq> None" "activeRouterIndex lk = 0"
    "\<not> lkHeld lk" "map_of (lkPending lk) k = Some p" "prTarget p = a" "prData p = d" "prRetries p = int j"
    "lkWritten lk = ws @ replicate (Suc j) (a, d)" using assms(1) by (auto simp: waiting_def)
  let ?p = "p\<lparr>prRetries := prRetries p + 1\<rparr>"
  let ?lk = "putPending k ?p lk"
  have "getActiveRouter (teOrd1 t) ?lk = Some r" using w assms(3) by (intro active_single [of _ a]) (simp_all add: putPending_def)
  moreover have "sendToRouter None r d ?lk = ((putRouter (r\<lparr>rlSent := rlSent r + 1\<rparr>) ?lk)\<lparr>lkTotal := lkTotal lk + 1,
      lkWritten := lkWritten lk @ [(a, d)]\<rparr>, None)"
    using w by (auto simp: sendToRouter_def putRouter_def putPending_def)
  ultimately have s: "retrySame t k ?p ?lk = (putPending k (?p\<lparr>prTimer := True\<rparr>) ((putRouter (r\<lparr>rlSent := rlSent r + 1\<rparr>) ?lk)
      \<lparr>lkTotal := lkTotal lk + 1, lkWritten := lkWritten lk @ [(a, d)]\<rparr>), True)"
    using w assms(4) by (simp add: retrySame_def)
  have "prRetries p + 1 \<le> lkMaxRetries lk" using w(10) assms(2) by simp
  then have "lkTimeout t k lk = (fst (retrySame t k ?p ?lk), LkDone)"
    using w(6,7) s by (simp add: lkTimeout_def Let_def)
  moreover have "waiting a k d ws (Suc j) (fst (retrySame t k ?p ?lk))"
    unfolding s using w by (simp add: waiting_def putPending_def putRouter_def update_conv' replicate_append_same)
  moreover have "lkMaxRetries (fst (retrySame t k ?p ?lk)) = lkMaxRetries lk"
    unfolding s by (simp add: putPending_def putRouter_def)
  ultimately show ?thesis by blast
qed

lemma waiting_exhausted:
  assumes "waiting a k d ws j lk" "lkMaxRetries lk < int (Suc j)"
  shows "\<exists>lk1. lkTimeout t k lk = (lk1, LkBlocked) \<and> lkHeld lk1 \<and> lkWritten lk1 = ws @ replicate (Suc j) (a, d)"
  using assms by (auto simp: waiting_def lkTimeout_def lkRemovePending_def putPending_def update_conv' Let_def)

lemma waiting_timeouts:
  assumes "waiting a k d ws j lk" "lkMaxRetries lk = int (j + n)" "\<And>x. teOrd1 t [x] = [x]" "teWrite1 t = None"
  shows "\<exists>lk1. lkTimeouts t k (Suc n) lk = (lk1, LkBlocked) \<and> lkHeld lk1 \<and> lkWritten lk1 = ws @ replicate (Suc (j + n)) (a, d)"
  using assms(1,2)
proof (induction n arbitrary: j lk)
  case 0
  then show ?case using waiting_exhausted [of a k d ws j lk t] by auto
next
  case (Suc n)
  have "int (Suc j) \<le> lkMaxRetries lk" using Suc.prems(2) by simp
  from waiting_retry [OF Suc.prems(1) this assms(3,4)] obtain lk1 where
    r: "lkTimeout t k lk = (lk1, LkDone)" "waiting a k d ws (Suc j) lk1" "lkMaxRetries lk1 = lkMaxRetries lk" by blast
  have "lkMaxRetries lk1 = int (Suc j + n)" using r(3) Suc.prems(2) by simp
  from Suc.IH [OF r(2) this] r(1) show ?case by simp
qed

lemma held_blocks:
  assumes "lkHeld lk"
  shows "lkCleanup now lk = (lk, LkBlocked)" "lkTimeout t k lk = (lk, LkBlocked)"
    "ser (Some e) = Inr d \<Longrightarrow> getActiveRouter ord lk \<noteq> None \<Longrightarrow> SendMessageToRouter ser ord w now e lk = (lk, None, LkBlocked)"
  using assms by (auto simp: lkCleanup_def lkTimeout_def SendMessageToRouter_def lkSendMessage_def Let_def)

text \<open>C11: a router never acknowledges anything (\<^verbatim>\<open>OnMessageReceived\<close> only counts), so every message is written
  again at each timeout, and when the retries are used up the handler locks the mutex of the message a second
  time, with \<^verbatim>\<open>pendingMutex\<close> held.  After one message to one connected router whose writes all succeed,
  \<open>n + 1\<close> copies have been written and the handler of the last timeout never returns; from then on every
  message for a connected router blocks its sender for ever, and so does the clean-up.\<close>

theorem router_message_blocks_link:
  assumes "lkRouters lk = [(a, r)]" "rlAddr r = a" "rlConnected r" "rlConnection r = Some c" "activeRouterIndex lk = 0"
    and "\<not> lkHeld lk" "lkMaxRetries lk = int n" "ser (Some e) = Inr d" "\<And>x. ord [x] = [x]" "\<And>x. teOrd1 t [x] = [x]" "teWrite1 t = None"
  shows "\<exists>lk1 lk2. SendMessageToRouter ser ord None now e lk = (lk1, None, LkDone) \<and>
    lkTimeouts t (hex_string (MessageId e)) (Suc n) lk1 = (lk2, LkBlocked) \<and>
    lkWritten lk2 = lkWritten lk @ replicate (Suc n) (a, d) \<and>
    (\<forall>ord' w now' e' d'. ser (Some e') = Inr d' \<and> getActiveRouter ord' lk2 \<noteq> None \<longrightarrow>
       SendMessageToRouter ser ord' w now' e' lk2 = (lk2, None, LkBlocked)) \<and>
    (\<forall>now'. lkCleanup now' lk2 = (lk2, LkBlocked))"
proof -
  let ?k = "hex_string (MessageId e)"
  let ?p = "\<lparr>prID = MessageId e, prData = d, prSentTime = now, prRetries = 0, prTimer = False, prTarget = rlAddr r\<rparr>"
  define lk1 where "lk1 = putPending ?k (?p\<lparr>prTimer := True\<rparr>) ((putRouter (r\<lparr>rlSent := rlSent r + 1\<rparr>) (putPending ?k ?p lk))
      \<lparr>lkTotal := lkTotal lk + 1, lkWritten := lkWritten lk @ [(a, d)]\<rparr>)"
  have "getActiveRouter ord lk = Some r" using assms by (intro active_single) auto
  then have s: "SendMessageToRouter ser ord None now e lk = (lk1, None, LkDone)"
    using assms by (simp add: SendMessageToRouter_def lkSendMessage_def sendToRouter_def lk1_def Let_def) (simp add: putPending_def putRouter_def)
  have "waiting a ?k d (lkWritten lk) 0 lk1" using assms by (simp add: waiting_def lk1_def putPending_def putRouter_def update_conv')
  moreover have "lkMaxRetries lk1 = int (0 + n)" using assms(7) by (simp add: lk1_def putPending_def putRouter_def)
  ultimately obtain lk2 where l: "lkTimeouts t ?k (Suc n) lk1 = (lk2, LkBlocked)" "lkHeld lk2"
    "lkWritten lk2 = lkWritten lk @ replicate (Suc (0 + n)) (a, d)"
    using waiting_timeouts [of a ?k d "lkWritten lk" 0 lk1 n t] assms(10,11) by blast
  then show ?thesis using s held_blocks [OF l(2)] by (intro exI [of _ lk1] exI [of _ lk2]) auto
qed

text \<open>The default configuration: one router, three retries.\<close>

definition oneRouter :: link_manager where
  "oneRouter = initRouterConnections id (\<lambda>_. Some 1) (\<lambda>_. True) [''r''] (NewRouterManager 3)"

definition fineEnv :: timeout_env where
  "fineEnv = \<lparr>teOrd1 = id, teOrd2 = id, teOrd3 = id, teDial = (\<lambda>_. None), teWrite1 = None, teWrite2 = None\<rparr>"

lemmas link_defs = initRouterConnections_def createRouterConnection_def connectToAvailableRouter_def connectToRouter_def
  lkOnConnected_def putRouter_def NewRouterManager_def

lemma oneRouter_state:
  "lkRouters oneRouter = [(''r'', \<lparr>rlAddr = ''r'', rlConnected = True, rlConnection = Some 1, rlHeartbeat = 0, rlSent = 0, rlReceived = 0\<rparr>)]"
  "activeRouterIndex oneRouter = 0" "\<not> lkHeld oneRouter" "lkMaxRetries oneRouter = 3" "lkWritten oneRouter = []"
  by (simp_all add: oneRouter_def link_defs)

theorem router_message_blocks_link_witness:
  "\<exists>lk1 lk2. SendMessageToRouter (\<lambda>_. Inr [7]) id None 0 \<lparr>ConnectionSeqId = 0, MessageId = [1], Message = None\<rparr> oneRouter = (lk1, None, LkDone) \<and>
     lkTimeouts fineEnv ''01'' (Suc 3) lk1 = (lk2, LkBlocked) \<and> lkWritten lk2 = replicate (Suc 3) (''r'', [7])"
proof -
  let ?e = "\<lparr>ConnectionSeqId = 0, MessageId = [1], Message = None\<rparr>"
  have k: "hex_string (MessageId ?e) = ''01''" by code_simp
  have m: "lkMaxRetries oneRouter = int 3" by (simp add: oneRouter_state)
  have f: "\<And>x. teOrd1 fineEnv [x] = [x]" "teWrite1 fineEnv = None" "\<And>x :: string \<times> router_link. id [x] = [x]" by (simp_all add: fineEnv_def)
  have o: "\<exists>lk1 lk2. SendMessageToRouter (\<lambda>_. Inr [7]) id None 0 ?e oneRouter = (lk1, None, LkDone) \<and>
     lkTimeouts fineEnv (hex_string (MessageId ?e)) (Suc 3) lk1 = (lk2, LkBlocked) \<and>
     lkWritten lk2 = lkWritten oneRouter @ replicate (Suc 3) (''r'', [7]) \<and>
     (\<forall>ord' w now' e' d'. (Inr [7] :: codec_error + bytes) = Inr d' \<and> getActiveRouter ord' lk2 \<noteq> None \<longrightarrow>
       SendMessageToRouter (\<lambda>_. Inr [7]) ord' w now' e' lk2 = (lk2, None, LkBlocked)) \<and>
     (\<forall>now'. lkCleanup now' lk2 = (lk2, LkBlocked))"
    by (rule router_message_blocks_link [OF oneRouter_state(1) _ _ _ oneRouter_state(2,3) m, where c = 1]) (simp_all add: f)
  then show ?thesis unfolding k oneRouter_state(5) by auto
qed

section \<open>The order of the map\<close>

text \<open>The active router is found by its position in a walk over a Go map, and the walks differ.  Of two
  routers only the second can be dialled; the manager connects to it and notes its position; when the next walk
  meets the routers the other way round there is no active router, and a message is refused.\<close>

theorem active_router_lost:
  assumes "a \<noteq> b"
  defines "lk \<equiv> initRouterConnections id (\<lambda>x. if x = b then Some 1 else None) (\<lambda>_. True) [a, b] (NewRouterManager 3)"
  shows "map rlConnected (map snd (lkRouters lk)) = [False, True] \<and> getActiveRouter id lk \<noteq> None \<and> getActiveRouter rev lk = None \<and>
    (ser (Some e) = Inr d \<longrightarrow> SendMessageToRouter ser rev w now e lk = (lk, Some NoActiveRouter, LkDone))"
proof -
  have r: "map snd (lkRouters lk) = [\<lparr>rlAddr = a, rlConnected = False, rlConnection = None, rlHeartbeat = 0, rlSent = 0, rlReceived = 0\<rparr>,
      \<lparr>rlAddr = b, rlConnected = True, rlConnection = Some 1, rlHeartbeat = 0, rlSent = 0, rlReceived = 0\<rparr>]" "activeRouterIndex lk = 1"
    using assms(1) by (simp_all add: lk_def link_defs)
  then have "getActiveRouter id lk \<noteq> None" "getActiveRouter rev lk = None" by (simp_all add: getActiveRouter_def flip: rev_map)
  then show ?thesis using r by (simp add: SendMessageToRouter_def lkSendMessage_def)
qed

theorem active_router_lost_witness:
  "\<exists>lk. getActiveRouter id lk \<noteq> None \<and> SendMessageToRouter (\<lambda>_. Inr [7]) rev None 0 \<lparr>ConnectionSeqId = 0, MessageId = [1], Message = None\<rparr> lk =
     (lk, Some NoActiveRouter, LkDone)"
  using active_router_lost [of "''a''" "''b''" "\<lambda>_. Inr [7]" "\<lparr>ConnectionSeqId = 0, MessageId = [1], Message = None\<rparr>" "[7]" None 0] by blast

end
