(* ===== verification/NodeLink.thy ===== *)
theory NodeLink
  imports ConnectionNodeCorrect RouterLink
begin

text \<open>
  A connection node with its link to the routers: \<^verbatim>\<open>connection/server.go\<close>, \<^verbatim>\<open>message_handler.go\<close> and
  \<^verbatim>\<open>router_manager.go\<close> together.  \<open>ConnectionNode\<close> calls the link through \<open>envRoute\<close>; here that is the
  \<open>SendMessageToRouter\<close> of \<open>RouterLink\<close>, whose walks over the map of routers, writes and clock readings differ from call
  to call.  A call that never returns is a state of the link: its caller waits, and what the model computes for the rest
  of that handler is not run.  What the lemmas show: no handler of the node waits for the link as long as no timeout of the
  link has blocked it, and from then on every request that is forwarded to a connected router never returns.
\<close>

section \<open>The link as the node sees it\<close>

record link_answer =
  laOrd :: "links \<Rightarrow> links"
  laWrite :: "string option"
  laNow :: int

record link_side =
  sdLink :: link_manager
  sdWaits :: bool
  sdAnswers :: "nat \<Rightarrow> link_answer"
  sdCalls :: nat

definition linkRoute :: "(envelope option \<Rightarrow> codec_error + bytes) \<Rightarrow> (link_error \<Rightarrow> string) \<Rightarrow> link_side \<Rightarrow> envelope
    \<Rightarrow> link_side \<times> string option" where
  "linkRoute ser errorText s e =
     (if sdWaits s then (s, None)
      else let x = sdAnswers s (sdCalls s)
           in case RouterLink.SendMessageToRouter ser (laOrd x) (laWrite x) (laNow x) e (sdLink s) of
                (lk, err, progress) \<Rightarrow>
                  (s\<lparr>sdLink := lk, sdCalls := Suc (sdCalls s), sdWaits := (progress = LkBlocked)\<rparr>, map_option errorText err))"

definition linkAddrs :: "link_side \<Rightarrow> string list" where
  "linkAddrs s = GetRouterAddrs (laOrd (sdAnswers s (sdCalls s))) (sdLink s)"

definition with_link :: "(envelope option \<Rightarrow> codec_error + bytes) \<Rightarrow> ('r, 'g, link_side) node_env \<Rightarrow> bool" where
  "with_link ser E \<longleftrightarrow> (\<exists>errorText. envRoute E = linkRoute ser errorText) \<and> envRouterAddrs E = linkAddrs"

lemma link_returns:
  assumes "\<not> lkHeld lk"
  shows "\<exists>lk1 err. RouterLink.SendMessageToRouter ser ord w now e lk = (lk1, err, LkDone) \<and> \<not> lkHeld lk1"
proof -
  have p: "\<not> lkHeld (putPending k p l)" if "\<not> lkHeld l" for k p l using that by (simp add: putPending_def)
  have s: "\<not> lkHeld (fst (sendToRouter w r d l))" if "\<not> lkHeld l" for r d l
    using that by (simp add: sendToRouter_def putRouter_def split: option.splits)
  have r: "\<exists>l1. lkRemovePending False k l = (l1, LkDone) \<and> \<not> lkHeld l1" if "\<not> lkHeld l" for k l
    using that by (simp add: lkRemovePending_def Let_def split: option.splits)
  have "\<exists>lk1 err. lkSendMessage ord w now mid d lk = (lk1, err, LkDone) \<and> \<not> lkHeld lk1" for mid d
  proof (cases "getActiveRouter ord lk")
    case None
    with assms show ?thesis by (simp add: lkSendMessage_def)
  next
    case (Some router)
    let ?k = "hex_string mid"
    let ?p = "\<lparr>prID = mid, prData = d, prSentTime = now, prRetries = 0, prTimer = False, prTarget = rlAddr router\<rparr>"
    obtain lk1 err where l: "sendToRouter w router d (putPending ?k ?p lk) = (lk1, err)" by force
    then have h: "\<not> lkHeld lk1" using s [OF p [OF assms]] by (metis fst_conv)
    show ?thesis
    proof (cases err)
      case None
      with l Some assms h p show ?thesis by (simp add: lkSendMessage_def Let_def)
    next
      case (Some e')
      obtain lk2 where "lkRemovePending False ?k lk1 = (lk2, LkDone)" "\<not> lkHeld lk2" using r [OF h] by blast
      with l \<open>getActiveRouter ord lk = Some router\<close> Some assms show ?thesis by (simp add: lkSendMessage_def Let_def)
    qed
  qed
  then show ?thesis using assms by (simp add: RouterLink.SendMessageToRouter_def split: sum.splits)
qed

section \<open>What the handlers do to the link\<close>

text \<open>A property of the link that every call keeps is kept by every action of the node.\<close>

definition keeps_act :: "('q \<Rightarrow> bool) \<Rightarrow> ('r, 'g, 'q) action \<Rightarrow> bool" where
  "keeps_act P f \<longleftrightarrow> (\<forall>n n' e. P (routerManager n) \<longrightarrow> f n = Ret (n', e) \<longrightarrow> P (routerManager n'))"

definition route_keeps :: "('q \<Rightarrow> bool) \<Rightarrow> ('r, 'g, 'q) node_env \<Rightarrow> bool" where
  "route_keeps P E \<longleftrightarrow> (\<forall>q e. P q \<longrightarrow> P (fst (envRoute E q e)))"

lemma keeps_actD: "keeps_act P f \<Longrightarrow> f n = Ret (n', e) \<Longrightarrow> P (routerManager n) \<Longrightarrow> P (routerManager n')"
  unfolding keeps_act_def by blast

lemma link_makeEnvelope: "makeEnvelope E u r l msg n = (n', env) \<Longrightarrow> routerManager n' = routerManager n"
  by (auto simp: makeEnvelope_def split: prod.splits)

lemma link_Client: "SendMessageToClient E now a env n = Ret (n', e) \<Longrightarrow> routerManager n' = routerManager n"
  by (auto simp: SendMessageToClient_def split: sum.splits outcome.splits option.splits)

lemma link_Broadcast: "BroadcastToRoom E now roomID env exclude n = Ret (n', e) \<Longrightarrow> routerManager n' = routerManager n"
  by (auto simp: BroadcastToRoom_def Let_def split: prod.splits sum.splits outcome.splits option.splits)

lemma link_system: "broadcastSystemMessage E now roomID content exclude n = Ret n' \<Longrightarrow> routerManager n' = routerManager n"
  by (auto simp: broadcastSystemMessage_def Let_def split: prod.splits outcome.splits dest!: link_makeEnvelope link_Broadcast)

lemma link_Response: "sendResponse E now a msg n = Ret (n', e) \<Longrightarrow> routerManager n' = routerManager n"
  by (auto simp: sendResponse_def Let_def split: prod.splits dest!: link_makeEnvelope link_Client)

lemma link_errors:
  "sendCreateRoomError E now a s n = Ret (n', e) \<Longrightarrow> routerManager n' = routerManager n"
  "sendJoinRoomError E now a s n = Ret (n', e) \<Longrightarrow> routerManager n' = routerManager n"
  "sendLeaveRoomError E now a s n = Ret (n', e) \<Longrightarrow> routerManager n' = routerManager n"
  "sendCloseRoomError E now a s n = Ret (n', e) \<Longrightarrow> routerManager n' = routerManager n"
  "sendChatMessageError E now a s n = Ret (n', e) \<Longrightarrow> routerManager n' = routerManager n"
  "sendMessageFetchError E now a i s n = Ret (n', e) \<Longrightarrow> routerManager n' = routerManager n"
  "sendRoomMessageFetchError E now a s n = Ret (n', e) \<Longrightarrow> routerManager n' = routerManager n"
  unfolding sendCreateRoomError_def sendJoinRoomError_def sendLeaveRoomError_def sendCloseRoomError_def
    sendChatMessageError_def sendMessageFetchError_def sendRoomMessageFetchError_def
  by (rule link_Response, assumption)+

lemma link_forward:
  assumes "route_keeps P E" "forward E a msg n = (n', err)" "P (routerManager n)"
  shows "P (routerManager n')"
proof -
  obtain n1 env where m: "createRouterMessage E a msg n = (n1, env)" by force
  then have "routerManager n1 = routerManager n"
    by (auto simp: createRouterMessage_def Let_def dest: link_makeEnvelope)
  with assms m show ?thesis
    by (auto simp: forward_def ConnectionNode.SendMessageToRouter_def route_keeps_def split: prod.splits) (metis fst_conv)
qed

lemma link_fields [simp]:
  "routerManager (countSystem n) = routerManager n" "routerManager (setRoomOf a r n) = routerManager n"
  "routerManager (registerUser a n) = routerManager n"
  by (simp_all add: countSystem_def setRoomOf_def registerUser_def)

lemmas link_same = link_errors link_Response link_system link_Broadcast

lemma keeps_same: "(\<And>n n' e. f n = Ret (n', e) \<Longrightarrow> routerManager n' = routerManager n) \<Longrightarrow> keeps_act P f"
  by (simp add: keeps_act_def)

lemma keeps_Allocate:
  assumes R: "route_keeps P E"
  shows "keeps_act P (handleAllocateRoomId E now a)"
  unfolding keeps_act_def handleAllocateRoomId_def handleLocalRoomIdAllocation_def Let_def
  by (auto split: prod.splits if_splits dest!: link_same dest: link_forward [OF R])

lemma keeps_Create:
  assumes R: "route_keeps P E"
  shows "keeps_act P (ConnectionNode.handleCreateRoom E now a req)"
  unfolding keeps_act_def ConnectionNode.handleCreateRoom_def Let_def
  by (auto split: prod.splits if_splits sum.splits dest!: link_same dest: link_forward [OF R])

lemma keeps_Join:
  assumes R: "route_keeps P E"
  shows "keeps_act P (ConnectionNode.handleJoinRoom E now a pw)"
  unfolding keeps_act_def ConnectionNode.handleJoinRoom_def Let_def
  by (auto split: prod.splits if_splits sum.splits option.splits outcome.splits dest!: link_same dest: link_forward [OF R])

lemma keeps_Leave:
  assumes R: "route_keeps P E"
  shows "keeps_act P (ConnectionNode.handleLeaveRoom E now a)"
  unfolding keeps_act_def ConnectionNode.handleLeaveRoom_def Let_def
  by (auto split: prod.splits if_splits sum.splits option.splits outcome.splits dest!: link_same dest: link_forward [OF R])

lemma keeps_Close:
  assumes R: "route_keeps P E"
  shows "keeps_act P (ConnectionNode.handleCloseRoom E now a)"
  unfolding keeps_act_def ConnectionNode.handleCloseRoom_def Let_def
  by (auto split: prod.splits if_splits sum.splits option.splits outcome.splits dest!: link_same dest: link_forward [OF R])

lemma keeps_Chat:
  assumes R: "route_keeps P E"
  shows "keeps_act P (ConnectionNode.handleChatMessage E now a env req)"
  unfolding keeps_act_def ConnectionNode.handleChatMessage_def Let_def
  by (auto split: prod.splits if_splits option.splits outcome.splits dest!: link_same dest: link_forward [OF R])

lemma keeps_Fetch:
  assumes R: "route_keeps P E"
  shows "keeps_act P (ConnectionNode.handleMessageFetchRequest E now a env req1)"
    "keeps_act P (ConnectionNode.handleRoomMessageFetchRequest E now a req2)"
  unfolding keeps_act_def ConnectionNode.handleMessageFetchRequest_def ConnectionNode.handleRoomMessageFetchRequest_def Let_def
  by (auto split: prod.splits if_splits option.splits dest!: link_same dest: link_forward [OF R])

lemma keeps_HandleMessage:
  assumes R: "route_keeps P E"
  shows "keeps_act P (ConnectionNode.HandleMessage E now a env)"
  unfolding keeps_act_def
proof (intro allI impI)
  fix n n' e
  assume p: "P (routerManager n)" and h: "ConnectionNode.HandleMessage E now a env n = Ret (n', e)"
  let ?n = "n\<lparr>messagesProcessed := messagesProcessed n + 1\<rparr>"
  have q: "P (routerManager ?n)" using p by simp
  have k: "keeps_act P f \<Longrightarrow> f ?n = Ret (n', e) \<Longrightarrow> P (routerManager n')" for f using keeps_actD q by blast
  note ks = k [OF keeps_Allocate [OF R]] k [OF keeps_Create [OF R]] k [OF keeps_Join [OF R]] k [OF keeps_Leave [OF R]]
    k [OF keeps_Close [OF R]] k [OF keeps_Chat [OF R]] k [OF keeps_Fetch(1) [OF R]] k [OF keeps_Fetch(2) [OF R]]
  have beat: "handleHeartbeat E now a t ?n = Ret (n', e) \<Longrightarrow> P (routerManager n')" for t
    using link_Response q unfolding handleHeartbeat_def by metis
  from h show "P (routerManager n')"
    unfolding ConnectionNode.HandleMessage_def Let_def
    by (auto split: option.splits message.splits intro: ks beat simp: p)
qed

lemma keeps_server:
  assumes R: "route_keeps P E"
  shows "keeps_act P (server_HandleMessage E now a data)"
  unfolding keeps_act_def server_HandleMessage_def Let_def
  by (auto split: sum.splits prod.splits dest!: keeps_actD [OF keeps_HandleMessage [OF R]])

lemma keeps_Received:
  assumes R: "route_keeps P E"
  shows "keeps_act P (ConnectionNode.OnMessageReceived E now u data)"
  unfolding keeps_act_def ConnectionNode.OnMessageReceived_def
  by (auto split: option.splits outcome.splits prod.splits dest!: keeps_actD [OF keeps_server [OF R]])

lemma keeps_UserDisconnect:
  assumes R: "route_keeps P E"
  shows "keeps_act P (HandleUserDisconnect E now a)"
  unfolding keeps_act_def HandleUserDisconnect_def handleOwnerDisconnect_def handleMemberDisconnect_def Let_def
  by (auto split: if_splits prod.splits option.splits dest!: keeps_actD [OF keeps_HandleMessage [OF R]] link_makeEnvelope)

lemma keeps_Disconnect:
  assumes R: "route_keeps P E" and h: "ConnectionNode.handleConnectionDisconnect E now a n = Ret n'" and p: "P (routerManager n)"
  shows "P (routerManager n')"
proof -
  have f: "fallbackDisconnectCleanup E now a r u m = Ret m' \<Longrightarrow> routerManager m' = routerManager m" for r u m m'
    unfolding fallbackDisconnectCleanup_def broadcastUserOfflineMessage_def Let_def
    by (auto split: prod.splits sum.splits dest!: link_system)
  from h p show ?thesis unfolding ConnectionNode.handleConnectionDisconnect_def Let_def
    by (auto split: if_splits outcome.splits prod.splits option.splits dest!: keeps_actD [OF keeps_UserDisconnect [OF R]] f)
qed

lemma keeps_Closed:
  assumes R: "route_keeps P E" and h: "ConnectionNode.OnConnectionClosed E now u n = Ret n'" and p: "P (routerManager n)"
  shows "P (routerManager n')"
  using h p unfolding ConnectionNode.OnConnectionClosed_def
  by (auto split: option.splits outcome.splits prod.splits dest!: keeps_Disconnect [OF R])

lemma keeps_step:
  assumes R: "route_keeps P E" and h: "nodeStep E x n = Ret n'" and p: "P (routerManager n)"
  shows "P (routerManager n')"
proof -
  obtain now e where x: "x = (now, e)" by (cases x)
  show ?thesis
  proof (cases e)
    case (Received u data)
    with h p x show ?thesis by (auto split: outcome.splits prod.splits dest!: keeps_actD [OF keeps_Received [OF R]])
  next
    case (Closed u)
    with h p x show ?thesis by (auto dest: keeps_Closed [OF R])
  next
    case Cleanup
    with h p x show ?thesis by (auto simp: ConnectionNode.performCleanup_def split: outcome.splits prod.splits)
  next
    case (LoopRound a w)
    with h p x show ?thesis by (auto simp: loopRound_def split: if_splits option.splits prod.splits)
  next
    case (Accepted a u addr)
    with h p x show ?thesis
      by (auto simp: ConnectionNode.OnConnectionAccepted_def Let_def split: if_splits prod.splits sum.splits)
  qed
qed

lemma keeps_run: "route_keeps P E \<Longrightarrow> nodeRun E xs n = Ret n' \<Longrightarrow> P (routerManager n) \<Longrightarrow> P (routerManager n')"
proof (induction xs arbitrary: n)
  case (Cons x xs)
  obtain m where m: "nodeStep E x n = Ret m" "nodeRun E xs m = Ret n'" using Cons.prems(2) by (auto split: outcome.splits)
  from Cons.IH [OF Cons.prems(1) m(2) keeps_step [OF Cons.prems(1) m(1) Cons.prems(3)]] show ?case .
qed simp

section \<open>A node with its link\<close>

definition link_free :: "link_side \<Rightarrow> bool" where
  "link_free s \<longleftrightarrow> \<not> sdWaits s \<and> \<not> lkHeld (sdLink s)"

lemma route_free: "with_link ser E \<Longrightarrow> route_keeps link_free E"
  unfolding route_keeps_def
proof (intro allI impI)
  fix q e
  assume E: "with_link ser E" and q: "link_free q"
  then obtain errorText where r: "envRoute E = linkRoute ser errorText" by (auto simp: with_link_def)
  let ?x = "sdAnswers q (sdCalls q)"
  have "\<not> lkHeld (sdLink q)" "\<not> sdWaits q" using q by (simp_all add: link_free_def)
  moreover from link_returns [OF this(1)] obtain lk err where
    "RouterLink.SendMessageToRouter ser (laOrd ?x) (laWrite ?x) (laNow ?x) e (sdLink q) = (lk, err, LkDone)" "\<not> lkHeld lk"
    by blast
  ultimately show "link_free (fst (envRoute E q e))" by (simp add: r linkRoute_def link_free_def)
qed

text \<open>
  A node whose link is the one of the program: as long as no timeout has blocked the link, no event of the node waits for
  it, whatever the walks, the writes and the clock of the link are, and the invariant of the node holds.
\<close>

theorem node_with_link_returns:
  assumes "redis_contract (envRedis E)" "\<forall>k. rget (envRedis E) r k = None" "heap_ok h" "with_link ser E" "\<not> lkHeld lk"
  shows "\<exists>n. nodeRun E xs (newNode h maxConns limit r g \<lparr>sdLink = lk, sdWaits = False, sdAnswers = answers, sdCalls = 0\<rparr>) = Ret n \<and>
    \<not> sdWaits (routerManager n) \<and> \<not> lkHeld (sdLink (routerManager n)) \<and> node_ok E n"
proof -
  let ?q = "\<lparr>sdLink = lk, sdWaits = False, sdAnswers = answers, sdCalls = 0\<rparr>"
  obtain n where n: "nodeRun E xs (newNode h maxConns limit r g ?q) = Ret n" "node_ok E n"
    using nodeRun_ok [OF assms(1) newNode_ok [OF assms(3,2)]] by blast
  have "link_free (routerManager (newNode h maxConns limit r g ?q))" using assms(5) by (simp add: link_free_def newNode_def)
  from keeps_run [OF route_free [OF assms(4)] n(1) this] n show ?thesis by (auto simp: link_free_def)
qed

text \<open>
  The other side: once a timeout has blocked the link (\<open>router_message_blocks_link\<close>), a client that asks for a room id
  while a router is connected makes its handler wait for ever.
\<close>

theorem blocked_link_holds_handler:
  assumes "with_link ser E" "\<forall>e. \<exists>d. ser (Some e) = Inr d"
    and "\<not> sdWaits (routerManager n)" "lkHeld (sdLink (routerManager n))"
    and "getActiveRouter (laOrd (sdAnswers (routerManager n) (sdCalls (routerManager n)))) (sdLink (routerManager n)) \<noteq> None"
    and "ConnectionNode.getConnectionID u n = Some i" "cm_GetConnection (connectionManager n) i = Some a"
    and "Deserialize (envUnmarshal E) (millis now) data = Inr env" "ExtractMessageInfo (millis now) (Some env) = Inr (v, rid, l, ts)"
    and "Message env = Some AllocateRoomId"
    and "ConnectionNode.OnMessageReceived E now u data n = Ret (n', e)"
  shows "sdWaits (routerManager n')"
proof -
  obtain errorText where r: "envRoute E = linkRoute ser errorText" using assms(1) by (auto simp: with_link_def)
  let ?n0 = "n\<lparr>statReceived := statReceived n + 1\<rparr>"
  let ?n1 = "?n0\<lparr>store := (store ?n0)(a := UpdateLastActivity now v (ucast rid) l (store ?n0 a))\<rparr>"
  let ?n2 = "countSystem (?n1\<lparr>messagesProcessed := messagesProcessed ?n1 + 1\<rparr>)"
  obtain n3 env2 where m: "createRouterMessage E a AllocateRoomId ?n2 = (n3, env2)" by force
  then have q: "routerManager n3 = routerManager n"
    by (auto simp: createRouterMessage_def Let_def dest!: link_makeEnvelope)
  obtain d where d: "ser (Some env2) = Inr d" using assms(2) by blast
  have b: "RouterLink.SendMessageToRouter ser ord w t env2 (sdLink (routerManager n)) = (sdLink (routerManager n), None, LkBlocked)"
    if "ord = laOrd (sdAnswers (routerManager n) (sdCalls (routerManager n)))" for ord w t
    using assms(4,5) d that by (auto intro: held_blocks(3))
  have w: "sdWaits (fst (envRoute E (routerManager n) env2))" "snd (envRoute E (routerManager n) env2) = None"
    using b assms(3) by (simp_all add: r linkRoute_def Let_def)
  then have "\<exists>n4. forward E a AllocateRoomId ?n2 = (n4, None) \<and> sdWaits (routerManager n4)"
    using m q by (simp add: forward_def ConnectionNode.SendMessageToRouter_def Let_def case_prod_beta)
  then obtain n4 where f: "forward E a AllocateRoomId ?n2 = (n4, None)" "sdWaits (routerManager n4)" by blast
  have "ConnectionNode.HandleMessage E now a env ?n1 = Ret (n4, None)"
    using assms(10) f(1) by (simp add: ConnectionNode.HandleMessage_def handleAllocateRoomId_def Let_def)
  then have "server_HandleMessage E now a data n = Ret (n4, None)"
    using assms(8,9) by (simp add: server_HandleMessage_def Let_def)
  with assms(6,7,11) f(2) show ?thesis by (auto simp: ConnectionNode.OnMessageReceived_def)
qed

end
