(* ===== verification/CenterConnection.thy ===== *)
theory CenterConnection
  imports SendQueue
begin

text \<open>
  \<^verbatim>\<open>msgcenter/router_connection.go\<close>: a message center's view of a router, the third of the wrappers with a send
  queue.  As in \<open>NodeConnection\<close>, time and the results of the underlying writes are arguments and the goroutine
  \<^verbatim>\<open>sendLoop\<close> is one round and the field \<open>mcLoopAlive\<close>.
\<close>

record router_connection =
  mcID :: string
  mcConnection :: "nat option"
  mcHost :: string
  mcPort :: int
  mcVersion :: string
  mcConnected :: bool
  mcLastHeartbeat :: int
  mcLastActivity :: int
  mcCreatedAt :: int
  mcSendBuffer :: "bytes chan"
  mcLoopAlive :: bool
  mcMessagesSent :: i64
  mcMessagesReceived :: i64
  mcQueriesProcessed :: i64
  mcBytesTransferred :: i64
  mcErrorCount :: i64

definition NewRouterConnection :: "int \<Rightarrow> string \<Rightarrow> nat option \<Rightarrow> router_connection" where
  "NewRouterConnection now i c =
     \<lparr>mcID = i, mcConnection = c, mcHost = [], mcPort = 0, mcVersion = [], mcConnected = True, mcLastHeartbeat = now,
      mcLastActivity = now, mcCreatedAt = now, mcSendBuffer = make_chan 100, mcLoopAlive = True, mcMessagesSent = 0,
      mcMessagesReceived = 0, mcQueriesProcessed = 0, mcBytesTransferred = 0, mcErrorCount = 0\<rparr>"

definition mc_GetID :: "router_connection \<Rightarrow> string" where "mc_GetID c = mcID c"
definition mc_GetConnection :: "router_connection \<Rightarrow> nat option" where "mc_GetConnection c = mcConnection c"
definition mc_SetHost :: "string \<Rightarrow> router_connection \<Rightarrow> router_connection" where "mc_SetHost h c = c\<lparr>mcHost := h\<rparr>"
definition mc_SetPort :: "int \<Rightarrow> router_connection \<Rightarrow> router_connection" where "mc_SetPort p c = c\<lparr>mcPort := p\<rparr>"
definition mc_SetVersion :: "string \<Rightarrow> router_connection \<Rightarrow> router_connection" where "mc_SetVersion v c = c\<lparr>mcVersion := v\<rparr>"
definition mc_IsConnected :: "router_connection \<Rightarrow> bool" where "mc_IsConnected c = mcConnected c"
definition mc_UpdateHeartbeat :: "int \<Rightarrow> router_connection \<Rightarrow> router_connection" where "mc_UpdateHeartbeat now c = c\<lparr>mcLastHeartbeat := now\<rparr>"

definition mc_UpdateActivity :: "int \<Rightarrow> router_connection \<Rightarrow> router_connection" where
  "mc_UpdateActivity now c = c\<lparr>mcLastActivity := now, mcMessagesReceived := mcMessagesReceived c + 1\<rparr>"

definition mc_GetLastActivity :: "router_connection \<Rightarrow> int" where "mc_GetLastActivity c = mcLastActivity c"

definition mc_IsHealthy :: "int \<Rightarrow> router_connection \<Rightarrow> bool" where
  "mc_IsHealthy now c \<longleftrightarrow> mc_IsConnected c \<and> now - mcLastHeartbeat c < 120000000000"

definition mc_IsExpired :: "int \<Rightarrow> int \<Rightarrow> router_connection \<Rightarrow> bool" where
  "mc_IsExpired now timeout c \<longleftrightarrow> now - mc_GetLastActivity c > timeout"

definition IncrementQueriesProcessed :: "router_connection \<Rightarrow> router_connection" where
  "IncrementQueriesProcessed c = c\<lparr>mcQueriesProcessed := mcQueriesProcessed c + 1\<rparr>"

definition mc_trySend :: "bytes \<Rightarrow> router_connection \<Rightarrow> (router_connection \<times> conn_error option) outcome" where
  "mc_trySend d c =
     (case try_send d (mcSendBuffer c) of
        Panic \<Rightarrow> Panic
      | Ret (ch, True) \<Rightarrow> Ret (c\<lparr>mcSendBuffer := ch\<rparr>, None)
      | Ret (ch, False) \<Rightarrow> Ret (c\<lparr>mcErrorCount := mcErrorCount c + 1\<rparr>, Some (BufferFull (mcID c))))"

definition mc_Send :: "bytes \<Rightarrow> router_connection \<Rightarrow> (router_connection \<times> conn_error option) outcome" where
  "mc_Send d c = (if \<not> mc_IsConnected c then Ret (c, Some (NotConnected (mcID c))) else mc_trySend d c)"

definition mc_SendSync :: "string option \<Rightarrow> bytes \<Rightarrow> router_connection \<Rightarrow> router_connection \<times> conn_error option \<times> bytes list" where
  "mc_SendSync w d c =
     (if \<not> mc_IsConnected c then (c, Some (NotConnected (mcID c)), [])
      else if mcConnection c = None then (c, Some (ConnectionNil (mcID c)), [])
      else case w of
             Some e \<Rightarrow> (c\<lparr>mcErrorCount := mcErrorCount c + 1\<rparr>, Some (WriteFailed e), [])
           | None \<Rightarrow> (c\<lparr>mcMessagesSent := mcMessagesSent c + 1,
                       mcBytesTransferred := mcBytesTransferred c + word_of_nat (length d)\<rparr>, None, [d]))"

definition mc_sendLoop :: "string option \<Rightarrow> router_connection \<Rightarrow> (router_connection \<times> bytes list) option" where
  "mc_sendLoop w c =
     (case receive (mcSendBuffer c) of
        None \<Rightarrow> None
      | Some (ch, None) \<Rightarrow> Some (c\<lparr>mcSendBuffer := ch, mcLoopAlive := False\<rparr>, [])
      | Some (ch, Some d) \<Rightarrow>
          (let c1 = c\<lparr>mcSendBuffer := ch\<rparr>
           in if \<not> mc_IsConnected c1 then Some (c1\<lparr>mcLoopAlive := False\<rparr>, [])
              else case mc_SendSync w d c1 of
                     (c2, Some e, _) \<Rightarrow> Some (c2\<lparr>mcErrorCount := mcErrorCount c2 + 1, mcLoopAlive := False\<rparr>, [])
                   | (c2, None, sent) \<Rightarrow> Some (c2, sent)))"

definition mc_Close :: "router_connection \<Rightarrow> (router_connection \<times> nat option) outcome" where
  "mc_Close c =
     (if \<not> mcConnected c then Ret (c, None)
      else let c1 = c\<lparr>mcConnected := False\<rparr>
           in case close_chan (mcSendBuffer c1) of
                Panic \<Rightarrow> Panic
              | Ret ch \<Rightarrow> Ret (c1\<lparr>mcSendBuffer := ch\<rparr>, mcConnection c1))"

section \<open>The send queue of a router\<close>

definition centerUpdates :: "(router_connection \<Rightarrow> router_connection) set" where
  "centerUpdates = range mc_SetHost \<union> range mc_SetPort \<union> range mc_SetVersion \<union> range mc_UpdateHeartbeat \<union>
     range mc_UpdateActivity \<union> {IncrementQueriesProcessed}"

definition centerOps :: "router_connection conn_ops" where
  "centerOps = \<lparr>isConnected = mc_IsConnected, sendChan = mcSendBuffer, looping = mcLoopAlive, opPut = mc_trySend,
     opLoop = mc_sendLoop, opSync = (\<lambda>w d c. fst (mc_SendSync w d c)),
     opClose = (\<lambda>c. case mc_Close c of Panic \<Rightarrow> Panic | Ret (c', _) \<Rightarrow> Ret c'), opOther = centerUpdates\<rparr>"

lemma centerOps_simps [simp]:
  "isConnected centerOps = mcConnected" "sendChan centerOps = mcSendBuffer" "looping centerOps = mcLoopAlive"
  "opPut centerOps = mc_trySend" "opLoop centerOps = mc_sendLoop" "opSync centerOps = (\<lambda>w d c. fst (mc_SendSync w d c))"
  "opClose centerOps = (\<lambda>c. case mc_Close c of Panic \<Rightarrow> Panic | Ret (c', _) \<Rightarrow> Ret c')" "opOther centerOps = centerUpdates"
  by (simp_all add: centerOps_def fun_eq_iff mc_IsConnected_def)

lemma mc_SendSync_frame:
  "mcSendBuffer (fst (mc_SendSync w d c)) = mcSendBuffer c" "mcConnected (fst (mc_SendSync w d c)) = mcConnected c"
  "mcLoopAlive (fst (mc_SendSync w d c)) = mcLoopAlive c"
  by (auto simp: mc_SendSync_def split: option.splits)

lemma mc_SendSync_sent: "mc_SendSync w d c = (c', None, ds) \<Longrightarrow> ds = [d]"
  by (auto simp: mc_SendSync_def split: if_splits option.splits)

lemma mc_sendLoop_law:
  assumes "mcLoopAlive c" "mc_sendLoop w c = Some (c', ds)"
  shows "\<exists>ch v. receive (mcSendBuffer c) = Some (ch, v) \<and> mcSendBuffer c' = ch \<and> mcConnected c' = mcConnected c \<and>
    (if mcLoopAlive c' then \<exists>d. v = Some d \<and> ds = [d] else ds = [])"
proof -
  obtain ch v where r: "receive (mcSendBuffer c) = Some (ch, v)" using assms(2) by (auto simp: mc_sendLoop_def split: option.splits)
  show ?thesis
  proof (cases v)
    case None
    then show ?thesis using assms r by (auto simp: mc_sendLoop_def)
  next
    case (Some d)
    let ?c1 = "c\<lparr>mcSendBuffer := ch\<rparr>"
    obtain c2 e sent where s: "mc_SendSync w d ?c1 = (c2, e, sent)" by (rule prod_cases3)
    have f: "mcSendBuffer c2 = ch" "mcConnected c2 = mcConnected c" "mcLoopAlive c2 = mcLoopAlive c"
      using mc_SendSync_frame [of w d ?c1] s by simp_all
    show ?thesis
    proof (cases "\<not> mcConnected c \<or> e \<noteq> None")
      case True
      then show ?thesis using assms r Some s f by (auto simp: mc_sendLoop_def mc_IsConnected_def Let_def)
    next
      case False
      then have e: "e = None" "mcConnected c" by auto
      then have "c' = c2 \<and> ds = sent" using assms(2) r Some s by (simp add: mc_sendLoop_def mc_IsConnected_def)
      then show ?thesis using r Some f mc_SendSync_sent [of w d ?c1 c2 sent] s e assms(1) by simp
    qed
  qed
qed

interpretation center: send_queue centerOps
proof
  fix d c
  show "opPut centerOps d c = Panic \<longleftrightarrow> try_send d (sendChan centerOps c) = Panic"
    by (auto simp: mc_trySend_def split: outcome.splits prod.splits bool.splits)
next
  fix d c c' e
  assume "opPut centerOps d c = Ret (c', e)"
  then show "try_send d (sendChan centerOps c) = Ret (sendChan centerOps c', e = None) \<and>
      isConnected centerOps c' = isConnected centerOps c \<and> looping centerOps c' = looping centerOps c"
    by (auto simp: mc_trySend_def try_send_def split: if_splits)
next
  fix c w c' ds
  assume "looping centerOps c" "opLoop centerOps w c = Some (c', ds)"
  then show "\<exists>ch v. receive (sendChan centerOps c) = Some (ch, v) \<and> sendChan centerOps c' = ch \<and>
      isConnected centerOps c' = isConnected centerOps c \<and>
      (if looping centerOps c' then \<exists>d. v = Some d \<and> ds = [d] else ds = [])"
    using mc_sendLoop_law by simp
next
  fix c :: router_connection
  assume "isConnected centerOps c" "\<not> chClosed (sendChan centerOps c)"
  then show "\<exists>c'. opClose centerOps c = Ret c' \<and> sendChan centerOps c' = sendChan centerOps c\<lparr>chClosed := True\<rparr> \<and>
      \<not> isConnected centerOps c' \<and> looping centerOps c' = looping centerOps c"
    by (simp add: mc_Close_def close_chan_def)
next
  fix f c
  assume "f \<in> opOther centerOps"
  then show "sendChan centerOps (f c) = sendChan centerOps c \<and> isConnected centerOps (f c) = isConnected centerOps c \<and>
      looping centerOps (f c) = looping centerOps c"
    by (auto simp: centerUpdates_def mc_SetHost_def mc_SetPort_def mc_SetVersion_def mc_UpdateHeartbeat_def
        mc_UpdateActivity_def IncrementQueriesProcessed_def)
qed (simp_all add: mc_SendSync_frame mc_Close_def)

lemma center_ok_start: "queue_ok centerOps 100 (conn_start (NewRouterConnection now i c))"
  by (rule queue_ok_start) (simp_all add: NewRouterConnection_def)

text \<open>What \<open>node_messages_in_order\<close> says of a node holds of a router too, with a buffer of 100.\<close>

theorem center_messages_in_order:
  assumes "conn_steps centerOps (conn_start (NewRouterConnection now i c)) s"
  shows "prefix (looped s) (accepted s) \<and>
    (mcLoopAlive (conn s) \<longrightarrow> accepted s = looped s @ items (mcSendBuffer (conn s))) \<and>
    length (items (mcSendBuffer (conn s))) \<le> 100 \<and> (crashed s \<longrightarrow> \<not> mc_IsConnected (conn s))"
  using center.steps_ok [OF assms center_ok_start] by (auto simp: queue_ok_def mc_IsConnected_def)

text \<open>A write that fails in the loop is counted twice, and ends the loop for good.\<close>

lemma failed_write_counted_twice:
  assumes "receive (mcSendBuffer c) = Some (ch, Some d)" "mcConnected c" "mcConnection c \<noteq> None"
  shows "\<exists>c'. mc_sendLoop (Some e) c = Some (c', []) \<and> mcErrorCount c' = mcErrorCount c + 2 \<and> \<not> mcLoopAlive c' \<and> mcConnected c'"
  using assms by (auto simp: mc_sendLoop_def mc_SendSync_def mc_IsConnected_def)

end
