(* ===== verification/RouterReliability.thy ===== *)
theory RouterReliability
  imports LoadBalancer Envelope
begin

text \<open>
  \<^verbatim>\<open>router/reliability_manager.go\<close>: the messages a router has sent and wants confirmed, with retransmission,
  the switch to another node, and the fetch that asks a message center.  Each timer firing and each method is
  one transition of \<open>router_state\<close>.  Arguments: the clock, the orders of the walks over Go maps, the result of
  every underlying write (\<open>None\<close>, or the error), and the bytes of the fetch request (or the codec's error).
  Nodes and centers live in the manager's maps under their ids.  A pending message points to an object, which
  may have been replaced since; all paths that take an object out of the maps close it.  So \<open>same\<close> says whether
  the entry is still the object meant: if not, the object is a closed one.
\<close>

section \<open>State\<close>

datatype target_kind = ToNode | ToCenter

text \<open>The timer of a pending message: not set, or for \<^verbatim>\<open>handleMessageTimeout\<close> or \<^verbatim>\<open>handleFetchTimeout\<close>.\<close>

datatype rel_timer = NoTimer | RetryTimer | FetchTimer

record rel_pending =
  rpID :: bytes
  rpData :: bytes
  rpKind :: target_kind
  rpTarget :: string
  rpSentTime :: int
  rpRetries :: int
  rpTimer :: rel_timer

record router_state =
  nodeMgr :: node_manager
  balancer :: load_balancer
  relPending :: "(string \<times> rel_pending) list"
  relMaxRetries :: int
  relTTL :: int
  relRetries :: i64
  relFetches :: i64
  relFailed :: i64
  relConfirmed :: i64
  rsDropped :: i64
  rsPersisted :: i64

datatype rel_error = RelCodec codec_error | RelSend conn_error | RelNoCenter

section \<open>The targets\<close>

definition syncEntry :: "string option \<Rightarrow> bytes \<Rightarrow> target_kind \<Rightarrow> string \<Rightarrow> node_manager \<Rightarrow> node_manager \<times> conn_error option" where
  "syncEntry w d kind i nm =
     (case kind of
        ToNode \<Rightarrow>
          (case map_of (connectionNodes nm) i of
             None \<Rightarrow> (nm, Some (NotConnected i))
           | Some nc \<Rightarrow> (case SendSync w d nc of (nc', e, _) \<Rightarrow>
               (nm\<lparr>connectionNodes := AList.update i nc' (connectionNodes nm)\<rparr>, e)))
      | ToCenter \<Rightarrow>
          (case map_of (messageCenters nm) i of
             None \<Rightarrow> (nm, Some (NotConnected i))
           | Some c \<Rightarrow> (case SendSync w d (nodeConn c) of (nc', e, _) \<Rightarrow>
               (nm\<lparr>messageCenters := AList.update i (c\<lparr>nodeConn := nc'\<rparr>) (messageCenters nm)\<rparr>, e))))"

definition syncTarget :: "bool \<Rightarrow> string option \<Rightarrow> rel_pending \<Rightarrow> node_manager \<Rightarrow> node_manager \<times> conn_error option" where
  "syncTarget same w p nm = (if same then syncEntry w (rpData p) (rpKind p) (rpTarget p) nm else (nm, Some (NotConnected (rpTarget p))))"

definition sendCenter :: "bytes \<Rightarrow> string \<Rightarrow> node_manager \<Rightarrow> (node_manager \<times> conn_error option) outcome" where
  "sendCenter d i nm =
     (case map_of (messageCenters nm) i of
        None \<Rightarrow> Ret (nm, Some (NotConnected i))
      | Some c \<Rightarrow> (case Send d (nodeConn c) of
                     Panic \<Rightarrow> Panic
                   | Ret (nc', e) \<Rightarrow> Ret (nm\<lparr>messageCenters := AList.update i (c\<lparr>nodeConn := nc'\<rparr>) (messageCenters nm)\<rparr>, e)))"

text \<open>\<^verbatim>\<open>RouterServer.sendMessageToCenterSync\<close>, with the serialised message.\<close>

definition sendMessageToCenterSync :: "(codec_error + bytes) \<Rightarrow> string \<Rightarrow> 'a router_state_scheme \<Rightarrow> ('a router_state_scheme \<times> rel_error option) outcome" where
  "sendMessageToCenterSync data i rs =
     (case data of
        Inl e \<Rightarrow> Ret (rs, Some (RelCodec e))
      | Inr d \<Rightarrow>
          (case sendCenter d i (nodeMgr rs) of
             Panic \<Rightarrow> Panic
           | Ret (nm, Some e) \<Rightarrow> Ret (rs\<lparr>nodeMgr := nm, rsDropped := rsDropped rs + 1\<rparr>, Some (RelSend e))
           | Ret (nm, None) \<Rightarrow> Ret (rs\<lparr>nodeMgr := nm, rsPersisted := rsPersisted rs + 1\<rparr>, None)))"

section \<open>Sending\<close>

definition getMessageKey :: "envelope \<Rightarrow> string" where
  "getMessageKey e = hex_string (MessageId e)"

definition putRel :: "string \<Rightarrow> rel_pending \<Rightarrow> 'a router_state_scheme \<Rightarrow> 'a router_state_scheme" where
  "putRel k p rs = rs\<lparr>relPending := AList.update k p (relPending rs)\<rparr>"

definition removePendingMessage :: "string \<Rightarrow> 'a router_state_scheme \<Rightarrow> 'a router_state_scheme \<times> rel_pending option" where
  "removePendingMessage k rs = (rs\<lparr>relPending := AList.delete k (relPending rs)\<rparr>, map_of (relPending rs) k)"

definition sendReliable :: "string option \<Rightarrow> int \<Rightarrow> (codec_error + bytes) \<Rightarrow> target_kind \<Rightarrow> string \<Rightarrow> envelope \<Rightarrow> 'a router_state_scheme
    \<Rightarrow> 'a router_state_scheme \<times> rel_error option" where
  "sendReliable w now data kind i e rs =
     (case data of
        Inl err \<Rightarrow> (rs, Some (RelCodec err))
      | Inr d \<Rightarrow>
          (let k = getMessageKey e;
               p = \<lparr>rpID = MessageId e, rpData = d, rpKind = kind, rpTarget = i, rpSentTime = now, rpRetries = 0, rpTimer = NoTimer\<rparr>;
               rs1 = putRel k p rs
           in case syncTarget True w p (nodeMgr rs1) of
                (nm, Some err) \<Rightarrow> (fst (removePendingMessage k (rs1\<lparr>nodeMgr := nm\<rparr>)), Some (RelSend err))
              | (nm, None) \<Rightarrow> (putRel k (p\<lparr>rpTimer := RetryTimer\<rparr>) (rs1\<lparr>nodeMgr := nm\<rparr>), None)))"

definition SendReliableMessage :: "string option \<Rightarrow> int \<Rightarrow> (codec_error + bytes) \<Rightarrow> string \<Rightarrow> envelope \<Rightarrow> 'a router_state_scheme
    \<Rightarrow> 'a router_state_scheme \<times> rel_error option" where
  "SendReliableMessage w now data i e rs = sendReliable w now data ToNode i e rs"

definition SendReliableMessageToCenter :: "string option \<Rightarrow> int \<Rightarrow> (codec_error + bytes) \<Rightarrow> string \<Rightarrow> envelope \<Rightarrow> 'a router_state_scheme
    \<Rightarrow> 'a router_state_scheme \<times> rel_error option" where
  "SendReliableMessageToCenter w now data i e rs = sendReliable w now data ToCenter i e rs"

section \<open>Confirmation\<close>

definition isACKMessage :: "envelope \<Rightarrow> bool" where
  "isACKMessage e =
     (case Message e of
        Some (AllocateRoomIdAck _ _ _) \<Rightarrow> True | Some (CreateRoomAck _ _ _ _) \<Rightarrow> True | Some (JoinRoomAck _ _ _ _ _) \<Rightarrow> True
      | Some (LeaveRoomAck _ _ _) \<Rightarrow> True | Some (CloseRoomAck _ _ _) \<Rightarrow> True | Some (ChatMessageAck _ _ _) \<Rightarrow> True
      | Some (MessageFetchResponse _) \<Rightarrow> True | Some (RoomMessageFetchResponse _) \<Rightarrow> True | Some (HeartbeatAck _ _) \<Rightarrow> True
      | _ \<Rightarrow> False)"

definition getOriginalMessageKey :: "envelope \<Rightarrow> string" where
  "getOriginalMessageKey e =
     (case Message e of
        Some (AllocateRoomIdAck r _ _) \<Rightarrow> ''room_alloc_'' @ dec_string (unat r)
      | Some (CreateRoomAck r _ _ _) \<Rightarrow> ''room_create_'' @ dec_string (unat r)
      | Some (JoinRoomAck r _ _ _ _) \<Rightarrow> ''room_join_'' @ dec_string (unat r)
      | Some (LeaveRoomAck r _ _) \<Rightarrow> ''room_leave_'' @ dec_string (unat r)
      | Some (CloseRoomAck r _ _) \<Rightarrow> ''room_close_'' @ dec_string (unat r)
      | Some (ChatMessageAck r _ _) \<Rightarrow> ''chat_'' @ dec_string (unat r)
      | Some (HeartbeatAck _ _) \<Rightarrow> []
      | _ \<Rightarrow> hex_string (MessageId e))"

definition HandleACK :: "envelope \<Rightarrow> 'a router_state_scheme \<Rightarrow> 'a router_state_scheme \<times> bool" where
  "HandleACK e rs =
     (if \<not> isACKMessage e then (rs, False)
      else if getOriginalMessageKey e = [] then (rs, True)
      else case removePendingMessage (getOriginalMessageKey e) rs of
             (rs1, None) \<Rightarrow> (rs1, True)
           | (rs1, Some _) \<Rightarrow> (rs1\<lparr>relConfirmed := relConfirmed rs1 + 1\<rparr>, True))"

definition handleMessageFailure :: "string \<Rightarrow> 'a router_state_scheme \<Rightarrow> 'a router_state_scheme" where
  "handleMessageFailure k rs =
     (case removePendingMessage k rs of (rs1, None) \<Rightarrow> rs1 | (rs1, Some _) \<Rightarrow> rs1\<lparr>relFailed := relFailed rs1 + 1\<rparr>)"

definition handleFetchTimeout :: "string \<Rightarrow> 'a router_state_scheme \<Rightarrow> 'a router_state_scheme" where
  "handleFetchTimeout k rs = handleMessageFailure k rs"

definition handleMessageFetchResponse :: "MessageFetchResponseMsg \<Rightarrow> 'a router_state_scheme \<Rightarrow> 'a router_state_scheme" where
  "handleMessageFetchResponse m rs =
     (let k = hex_string (mfs_message_id m)
      in case removePendingMessage k rs of
           (rs1, None) \<Rightarrow> rs1
         | (rs1, Some _) \<Rightarrow>
             if mfs_exists m \<and> mfs_status m = MESSAGE_STATUS_SUCCESS then rs1\<lparr>relConfirmed := relConfirmed rs1 + 1\<rparr>
             else handleMessageFailure k rs1)"

definition HandleFetchResponse :: "envelope \<Rightarrow> 'a router_state_scheme \<Rightarrow> 'a router_state_scheme" where
  "HandleFetchResponse e rs = (case Message e of Some (MessageFetchResponse m) \<Rightarrow> handleMessageFetchResponse m rs | _ \<Rightarrow> rs)"

section \<open>Timeouts\<close>

text \<open>What one timeout meets.\<close>

record rel_env =
  reSame :: bool
  reWrite :: "string option"
  reWrites :: "string \<Rightarrow> string option"
  reNodeOrd :: "nodes \<Rightarrow> nodes"
  reCenterOrd :: "centers \<Rightarrow> centers"
  reNow :: int
  reFetch :: "codec_error + bytes"

fun switchNodes :: "(string \<Rightarrow> string option) \<Rightarrow> bool \<Rightarrow> string \<Rightarrow> string list \<Rightarrow> rel_pending \<Rightarrow> 'a router_state_scheme \<Rightarrow> 'a router_state_scheme \<times> bool" where
  "switchNodes ws same k [] p rs = (putRel k p rs, False)"
| "switchNodes ws same k (i # is) p rs =
     (if same \<and> i = rpTarget p then switchNodes ws same k is p rs
      else let p1 = p\<lparr>rpTarget := i\<rparr>
           in case syncTarget True (ws i) p1 (nodeMgr rs) of
                (nm, None) \<Rightarrow> (putRel k (p1\<lparr>rpTimer := RetryTimer\<rparr>) (rs\<lparr>nodeMgr := nm\<rparr>), True)
              | (nm, Some _) \<Rightarrow> switchNodes ws True k is p1 (rs\<lparr>nodeMgr := nm\<rparr>))"

definition attemptNodeSwitch :: "rel_env \<Rightarrow> string \<Rightarrow> rel_pending \<Rightarrow> 'a router_state_scheme \<Rightarrow> 'a router_state_scheme \<times> bool" where
  "attemptNodeSwitch E k p rs =
     (case rpKind p of
        ToNode \<Rightarrow> switchNodes (reWrites E) (reSame E) k (map GetID (GetHealthyConnectionNodes (reNodeOrd E) (reNow E) (nodeMgr rs))) p rs
      | ToCenter \<Rightarrow> switchNodes (reWrites E) (reSame E) k
          (map (\<lambda>c. GetID (nodeConn c)) (GetHealthyMessageCenters (reCenterOrd E) (reNow E) (nodeMgr rs))) p rs)"

definition setTimer :: "rel_timer \<Rightarrow> string \<Rightarrow> 'a router_state_scheme \<Rightarrow> 'a router_state_scheme" where
  "setTimer t k rs = (case map_of (relPending rs) k of None \<Rightarrow> rs | Some p \<Rightarrow> putRel k (p\<lparr>rpTimer := t\<rparr>) rs)"

definition attemptFetchConfirmation :: "rel_env \<Rightarrow> string \<Rightarrow> 'a router_state_scheme \<Rightarrow> 'a router_state_scheme outcome" where
  "attemptFetchConfirmation E k rs =
     (let rs1 = rs\<lparr>relFetches := relFetches rs + 1\<rparr>
      in case SelectMessageCenter (reCenterOrd E) (reNow E) (nodeMgr rs1) (balancer rs1) of
           Panic \<Rightarrow> Panic
         | Ret (lb, None) \<Rightarrow> Ret (handleMessageFailure k (rs1\<lparr>balancer := lb\<rparr>))
         | Ret (lb, Some c) \<Rightarrow>
             (case sendMessageToCenterSync (reFetch E) (GetID (nodeConn c)) (rs1\<lparr>balancer := lb\<rparr>) of
                Panic \<Rightarrow> Panic
              | Ret (rs2, Some _) \<Rightarrow> Ret (handleMessageFailure k rs2)
              | Ret (rs2, None) \<Rightarrow> Ret (setTimer FetchTimer k rs2)))"

definition handleMessageTimeout :: "rel_env \<Rightarrow> string \<Rightarrow> 'a router_state_scheme \<Rightarrow> 'a router_state_scheme outcome" where
  "handleMessageTimeout E k rs =
     (case map_of (relPending rs) k of
        None \<Rightarrow> Ret rs
      | Some p0 \<Rightarrow>
          (let p = p0\<lparr>rpRetries := rpRetries p0 + 1\<rparr>;
               rs1 = (putRel k p rs)\<lparr>relRetries := relRetries rs + 1\<rparr>
           in if rpRetries p \<le> relMaxRetries rs
              then case syncTarget (reSame E) (reWrite E) p (nodeMgr rs1) of
                     (nm, None) \<Rightarrow> Ret (putRel k (p\<lparr>rpTimer := RetryTimer\<rparr>) (rs1\<lparr>nodeMgr := nm\<rparr>))
                   | (nm, Some _) \<Rightarrow>
                       (case attemptNodeSwitch E k p (rs1\<lparr>nodeMgr := nm\<rparr>) of
                          (rs2, True) \<Rightarrow> Ret rs2
                        | (rs2, False) \<Rightarrow> attemptFetchConfirmation E k rs2)
              else attemptFetchConfirmation E k rs1))"

definition cleanup :: "int \<Rightarrow> 'a router_state_scheme \<Rightarrow> 'a router_state_scheme" where
  "cleanup now rs = rs\<lparr>relPending := filter (\<lambda>(k, p). \<not> now - rpSentTime p > relTTL rs) (relPending rs)\<rparr>"

definition rel_GetStats :: "'a router_state_scheme \<Rightarrow> i64 \<times> i64 \<times> i64 \<times> i64 \<times> nat" where
  "rel_GetStats rs = (relRetries rs, relFetches rs, relFailed rs, relConfirmed rs, length (relPending rs))"

section \<open>A message that is sent reliably comes to an end\<close>

text \<open>The timer of a message fires.\<close>

definition fire :: "rel_env \<Rightarrow> string \<Rightarrow> 'a router_state_scheme \<Rightarrow> 'a router_state_scheme outcome" where
  "fire E k rs =
     (case map_of (relPending rs) k of
        None \<Rightarrow> Ret rs
      | Some p \<Rightarrow> (case rpTimer p of
                    NoTimer \<Rightarrow> Ret rs
                  | RetryTimer \<Rightarrow> handleMessageTimeout E k rs
                  | FetchTimer \<Rightarrow> Ret (handleFetchTimeout k rs)))"

fun fires :: "rel_env list \<Rightarrow> string \<Rightarrow> 'a router_state_scheme \<Rightarrow> 'a router_state_scheme outcome" where
  "fires [] k rs = Ret rs"
| "fires (E # Es) k rs = (case fire E k rs of Panic \<Rightarrow> Panic | Ret rs' \<Rightarrow> fires Es k rs')"

text \<open>At most \<open>n\<close> more timers of the message will fire.\<close>

definition rankOf :: "int \<Rightarrow> rel_pending \<Rightarrow> nat" where
  "rankOf m p = (case rpTimer p of NoTimer \<Rightarrow> 0 | FetchTimer \<Rightarrow> 1 | RetryTimer \<Rightarrow> nat (m - rpRetries p) + 2)"

definition live :: "string \<Rightarrow> nat \<Rightarrow> 'a router_state_scheme \<Rightarrow> bool" where
  "live k n rs \<longleftrightarrow> (case map_of (relPending rs) k of None \<Rightarrow> True | Some p \<Rightarrow> rpTimer p \<noteq> NoTimer \<and> rankOf (relMaxRetries rs) p \<le> n)"

lemma putRel_facts [simp]:
  "map_of (relPending (putRel k p rs)) j = (if j = k then Some p else map_of (relPending rs) j)"
  "relMaxRetries (putRel k p rs) = relMaxRetries rs" "nodeMgr (putRel k p rs) = nodeMgr rs" "balancer (putRel k p rs) = balancer rs"
  by (simp_all add: putRel_def update_conv')

lemma handleMessageFailure_facts [simp]:
  "map_of (relPending (handleMessageFailure k rs)) k = None" "relMaxRetries (handleMessageFailure k rs) = relMaxRetries rs"
  by (auto simp: handleMessageFailure_def removePendingMessage_def AList.delete_conv' split: option.splits)

lemma sendMessageToCenterSync_frame:
  "sendMessageToCenterSync d i rs = Ret (rs', e) \<Longrightarrow> relPending rs' = relPending rs \<and> relMaxRetries rs' = relMaxRetries rs"
  by (auto simp: sendMessageToCenterSync_def split: sum.splits outcome.splits prod.splits option.splits)

lemma attemptFetch_live:
  assumes "attemptFetchConfirmation E k rs = Ret rs'" "map_of (relPending rs) k \<noteq> None"
  shows "live k 1 rs' \<and> relMaxRetries rs' = relMaxRetries rs"
proof -
  let ?rs1 = "rs\<lparr>relFetches := relFetches rs + 1\<rparr>"
  obtain lb c where s: "SelectMessageCenter (reCenterOrd E) (reNow E) (nodeMgr ?rs1) (balancer ?rs1) = Ret (lb, c)"
    using assms(1) by (auto simp: attemptFetchConfirmation_def Let_def split: outcome.splits prod.splits)
  show ?thesis
  proof (cases c)
    case None
    then show ?thesis using assms(1) s by (auto simp: attemptFetchConfirmation_def Let_def live_def)
  next
    case (Some m)
    obtain rs2 e where d: "sendMessageToCenterSync (reFetch E) (GetID (nodeConn m)) (?rs1\<lparr>balancer := lb\<rparr>) = Ret (rs2, e)"
      using assms(1) s Some by (auto simp: attemptFetchConfirmation_def Let_def split: outcome.splits prod.splits)
    note f = sendMessageToCenterSync_frame [OF d]
    obtain p where p: "map_of (relPending rs2) k = Some p" using f assms(2) by auto
    show ?thesis
    proof (cases e)
      case None
      then have "rs' = setTimer FetchTimer k rs2" using assms(1) s Some d by (simp add: attemptFetchConfirmation_def Let_def)
      then show ?thesis using p f by (simp add: setTimer_def live_def rankOf_def)
    next
      case (Some x)
      then have "rs' = handleMessageFailure k rs2" using assms(1) s \<open>c = _\<close> d by (simp add: attemptFetchConfirmation_def Let_def)
      then show ?thesis using f by (simp add: live_def)
    qed
  qed
qed

lemma switchNodes_facts:
  "switchNodes ws same k is p rs = (rs', b) \<Longrightarrow> relMaxRetries rs' = relMaxRetries rs \<and>
     (\<exists>q. map_of (relPending rs') k = Some q \<and> rpRetries q = rpRetries p \<and> (b \<longrightarrow> rpTimer q = RetryTimer))"
proof (induction "is" arbitrary: same p rs)
  case (Cons i "is")
  show ?case
  proof (cases "same \<and> i = rpTarget p")
    case True
    then show ?thesis using Cons by simp
  next
    case False
    obtain nm e where t: "syncTarget True (ws i) (p\<lparr>rpTarget := i\<rparr>) (nodeMgr rs) = (nm, e)" by (rule prod.exhaust)
    show ?thesis
    proof (cases e)
      case None
      then show ?thesis using Cons.prems False t by (auto simp: Let_def)
    next
      case (Some x)
      then have "switchNodes ws True k is (p\<lparr>rpTarget := i\<rparr>) (rs\<lparr>nodeMgr := nm\<rparr>) = (rs', b)" using Cons.prems False t by (simp add: Let_def)
      from Cons.IH [OF this] show ?thesis by simp
    qed
  qed
qed auto

lemma attemptNodeSwitch_facts:
  "attemptNodeSwitch E k p rs = (rs', b) \<Longrightarrow> relMaxRetries rs' = relMaxRetries rs \<and>
     (\<exists>q. map_of (relPending rs') k = Some q \<and> rpRetries q = rpRetries p \<and> (b \<longrightarrow> rpTimer q = RetryTimer))"
  unfolding attemptNodeSwitch_def by (cases "rpKind p") (auto dest: switchNodes_facts)

lemma handleMessageTimeout_live:
  assumes "handleMessageTimeout E k rs = Ret rs'" "map_of (relPending rs) k = Some p0"
  shows "live k (nat (relMaxRetries rs - rpRetries p0) + 1) rs' \<and> relMaxRetries rs' = relMaxRetries rs"
proof -
  let ?p = "p0\<lparr>rpRetries := rpRetries p0 + 1\<rparr>"
  let ?rs1 = "(putRel k ?p rs)\<lparr>relRetries := relRetries rs + 1\<rparr>"
  let ?n = "nat (relMaxRetries rs - rpRetries p0) + 1"
  have mono: "live k 1 rs' \<Longrightarrow> live k ?n rs'" by (auto simp: live_def split: option.splits)
  have k1: "map_of (relPending ?rs1) k \<noteq> None" "relMaxRetries ?rs1 = relMaxRetries rs" by simp_all
  show ?thesis
  proof (cases "rpRetries ?p \<le> relMaxRetries rs")
    case False
    then have "attemptFetchConfirmation E k ?rs1 = Ret rs'" using assms by (simp add: handleMessageTimeout_def Let_def)
    from attemptFetch_live [OF this k1(1)] k1(2) mono show ?thesis by simp
  next
    case True
    then have rank: "rpRetries q = rpRetries ?p \<Longrightarrow> rpTimer q = RetryTimer \<Longrightarrow> rankOf (relMaxRetries rs) q \<le> ?n" for q by (simp add: rankOf_def)
    obtain nm e where t: "syncTarget (reSame E) (reWrite E) ?p (nodeMgr ?rs1) = (nm, e)" by (rule prod.exhaust)
    show ?thesis
    proof (cases e)
      case None
      then have "rs' = putRel k (?p\<lparr>rpTimer := RetryTimer\<rparr>) (?rs1\<lparr>nodeMgr := nm\<rparr>)"
        using assms True t by (simp add: handleMessageTimeout_def Let_def)
      then show ?thesis using rank by (simp add: live_def)
    next
      case (Some x)
      obtain rs2 b where a: "attemptNodeSwitch E k ?p (?rs1\<lparr>nodeMgr := nm\<rparr>) = (rs2, b)" by (rule prod.exhaust)
      from attemptNodeSwitch_facts [OF this] obtain q where q: "map_of (relPending rs2) k = Some q" "rpRetries q = rpRetries ?p"
        "b \<longrightarrow> rpTimer q = RetryTimer" "relMaxRetries rs2 = relMaxRetries rs" by auto
      show ?thesis
      proof (cases b)
        case True
        then have "rs' = rs2" using assms \<open>rpRetries ?p \<le> _\<close> t Some a by (simp add: handleMessageTimeout_def Let_def)
        then show ?thesis using q rank True by (simp add: live_def)
      next
        case False
        then have "attemptFetchConfirmation E k rs2 = Ret rs'" using assms \<open>rpRetries ?p \<le> _\<close> t Some a
          by (simp add: handleMessageTimeout_def Let_def)
        from attemptFetch_live [OF this] q mono show ?thesis by simp
      qed
    qed
  qed
qed

lemma fire_live:
  assumes "live k (Suc n) rs" "fire E k rs = Ret rs'"
  shows "live k n rs' \<and> relMaxRetries rs' = relMaxRetries rs"
proof (cases "map_of (relPending rs) k")
  case None
  then show ?thesis using assms(2) by (auto simp: fire_def live_def)
next
  case (Some p)
  then have r: "rankOf (relMaxRetries rs) p \<le> Suc n" "rpTimer p \<noteq> NoTimer" using assms(1) by (simp_all add: live_def)
  show ?thesis
  proof (cases "rpTimer p")
    case NoTimer
    then show ?thesis using r by simp
  next
    case FetchTimer
    then have "rs' = handleMessageFailure k rs" using assms(2) Some by (simp add: fire_def handleFetchTimeout_def)
    then show ?thesis by (simp add: live_def)
  next
    case RetryTimer
    then have t: "handleMessageTimeout E k rs = Ret rs'" using assms(2) Some by (simp add: fire_def)
    have "nat (relMaxRetries rs - rpRetries p) + 1 \<le> n" using r(1) RetryTimer by (simp add: rankOf_def)
    then show ?thesis using handleMessageTimeout_live [OF t Some] by (auto simp: live_def split: option.splits)
  qed
qed

lemma fires_gone:
  assumes "live k (length Es) rs" "fires Es k rs = Ret rs'"
  shows "map_of (relPending rs') k = None"
  using assms
proof (induction Es arbitrary: rs)
  case Nil
  then show ?case by (auto simp: live_def rankOf_def split: option.splits rel_timer.splits)
next
  case (Cons E Es)
  then obtain rs1 where f: "fire E k rs = Ret rs1" "fires Es k rs1 = Ret rs'" by (auto split: outcome.splits)
  have "live k (length Es) rs1" using fire_live [of k "length Es" rs E rs1] Cons.prems(1) f(1) by simp
  from Cons.IH [OF this f(2)] show ?case .
qed

lemma sendReliable_live:
  assumes "sendReliable w now data kind i e rs = (rs', None)"
  shows "\<exists>p. map_of (relPending rs') (getMessageKey e) = Some p \<and> rpTimer p = RetryTimer \<and> rpRetries p = 0 \<and> relMaxRetries rs' = relMaxRetries rs"
  using assms by (auto simp: sendReliable_def Let_def split: sum.splits prod.splits option.splits)

text \<open>C23: a message that is sent reliably is not pending for ever.  With at most \<open>m\<close> retries, whatever the network
  does at each of them, whichever nodes and centers are healthy and whatever the writes return: by the time its
  timers have fired \<open>m + 2\<close> times (the retries, the one that gives up and fetches, the one of the fetch) it has been
  taken out of the pending messages, unless a selection of a message center has panicked before.\<close>

theorem reliable_message_ends:
  assumes "sendReliable w now data kind i e rs = (rs1, None)" "relMaxRetries rs = int m" "length Es = m + 2"
    and "fires Es (getMessageKey e) rs1 = Ret rs2"
  shows "getMessageKey e \<notin> fst ` set (relPending rs2)"
proof -
  obtain p where p: "map_of (relPending rs1) (getMessageKey e) = Some p" "rpTimer p = RetryTimer" "rpRetries p = 0"
    "relMaxRetries rs1 = relMaxRetries rs" using sendReliable_live [OF assms(1)] by blast
  have "live (getMessageKey e) (length Es) rs1" using p assms(2,3) by (simp add: live_def rankOf_def)
  from fires_gone [OF this assms(4)] show ?thesis by (simp add: map_of_eq_None_iff)
qed

text \<open>One node and no message center.\<close>

definition relDemo :: router_state where
  "relDemo = \<lparr>nodeMgr = (NewNodeManager [] 0)\<lparr>connectionNodes := [(''n'', NewNodeConnection 0 ''n'' NodeTypeConnection (Some 1))]\<rparr>,
     balancer = NewLoadBalancer ''round_robin'', relPending = [], relMaxRetries = 1, relTTL = 100, relRetries = 0, relFetches = 0,
     relFailed = 0, relConfirmed = 0, rsDropped = 0, rsPersisted = 0\<rparr>"

definition relEnv :: rel_env where
  "relEnv = \<lparr>reSame = True, reWrite = None, reWrites = (\<lambda>_. None), reNodeOrd = id, reCenterOrd = id, reNow = 1, reFetch = Inr [9]\<rparr>"

abbreviation relMsg :: envelope where
  "relMsg \<equiv> \<lparr>ConnectionSeqId = 1, MessageId = [1], Message = Some LeaveRoom\<rparr>"

definition relSent :: router_state where
  "relSent = fst (SendReliableMessage None 0 (Inr [7]) ''n'' relMsg relDemo)"

lemma relMsg_key: "getMessageKey relMsg = ''01''"
  by code_simp

lemmas rel_defs = SendReliableMessage_def sendReliable_def syncTarget_def syncEntry_def SendSync_def IsConnected_def NewNodeConnection_def
  NewNodeManager_def relDemo_def putRel_def removePendingMessage_def Let_def

lemma relSent_state:
  "SendReliableMessage None 0 (Inr [7]) ''n'' relMsg relDemo = (relSent, None)"
  "relPending relSent = [(''01'', \<lparr>rpID = [1], rpData = [7], rpKind = ToNode, rpTarget = ''n'', rpSentTime = 0, rpRetries = 0, rpTimer = RetryTimer\<rparr>)]"
  "map_option (\<lambda>c. (connected c, connection c)) (map_of (connectionNodes (nodeMgr relSent)) ''n'') = Some (True, Some 1)"
  "messageCenters (nodeMgr relSent) = []" "relMaxRetries relSent = 1"
  unfolding relSent_def by (simp_all add: rel_defs relMsg_key)

theorem reliable_message_ends_witness:
  "\<exists>rs. fires [relEnv, relEnv, relEnv] ''01'' relSent = Ret rs \<and> ''01'' \<notin> fst ` set (relPending rs)"
proof -
  have s: "sendReliable None 0 (Inr [7]) ToNode ''n'' relMsg relDemo = (relSent, None)"
    using relSent_state(1) by (simp only: SendReliableMessage_def)
  have m: "relMaxRetries relDemo = int 1" "length [relEnv, relEnv, relEnv] = 1 + 2" by (simp_all add: relDemo_def)
  have "\<exists>rs. fires [relEnv, relEnv, relEnv] ''01'' relSent = Ret rs"
    unfolding relSent_def
    by (simp add: rel_defs relMsg_key fire_def handleMessageTimeout_def relEnv_def attemptFetchConfirmation_def SelectMessageCenter_def
        GetHealthyMessageCenters_def handleMessageFailure_def)
  then show ?thesis using reliable_message_ends [OF s m(1,2)] relMsg_key by auto
qed

section \<open>Acknowledgements\<close>

text \<open>What can happen to the pending messages of a router; everything else leaves them alone.\<close>

inductive rel_step :: "'a router_state_scheme \<Rightarrow> 'a router_state_scheme \<Rightarrow> bool" where
  rel_send: "sendReliable w now data kind i e rs = (rs', err) \<Longrightarrow> rel_step rs rs'"
| rel_ack: "HandleACK e rs = (rs', b) \<Longrightarrow> rel_step rs rs'"
| rel_fetched: "rel_step rs (HandleFetchResponse e rs)"
| rel_fire: "fire E k rs = Ret rs' \<Longrightarrow> rel_step rs rs'"
| rel_clean: "rel_step rs (cleanup now rs)"
| rel_other: "relPending rs' = relPending rs \<Longrightarrow> rel_step rs rs'"

definition relKeys :: "'a router_state_scheme \<Rightarrow> string set" where
  "relKeys rs = fst ` set (relPending rs)"

lemma relKeys_frame: "relPending rs' = relPending rs \<Longrightarrow> relKeys rs' = relKeys rs"
  by (simp add: relKeys_def)

lemma relKeys_put: "relKeys (putRel k p rs) = insert k (relKeys rs)"
  by (simp add: relKeys_def putRel_def AList.dom_update)

lemma relKeys_remove: "relKeys (fst (removePendingMessage k rs)) \<subseteq> relKeys rs"
  by (auto simp: relKeys_def removePendingMessage_def AList.delete_eq)

lemma relKeys_failure: "relKeys (handleMessageFailure k rs) \<subseteq> relKeys rs"
  using relKeys_remove [of k rs]
  by (cases "snd (removePendingMessage k rs)") (simp_all add: handleMessageFailure_def relKeys_def case_prod_beta)

lemma relKeys_setTimer: "k \<in> relKeys rs \<Longrightarrow> relKeys (setTimer t k rs) = relKeys rs"
  by (cases "map_of (relPending rs) k") (simp_all add: setTimer_def relKeys_put insert_absorb)

lemma map_of_relKeys: "map_of (relPending rs) k = Some p \<Longrightarrow> k \<in> relKeys rs"
  by (force simp: relKeys_def dest: map_of_SomeD)

lemma relKeys_fetch:
  assumes "attemptFetchConfirmation E k rs = Ret rs'" "k \<in> relKeys rs"
  shows "relKeys rs' \<subseteq> relKeys rs"
proof -
  let ?rs1 = "rs\<lparr>relFetches := relFetches rs + 1\<rparr>"
  obtain lb c where s: "SelectMessageCenter (reCenterOrd E) (reNow E) (nodeMgr ?rs1) (balancer ?rs1) = Ret (lb, c)"
    using assms(1) by (auto simp: attemptFetchConfirmation_def Let_def split: outcome.splits prod.splits)
  have f: "relKeys (?rs1\<lparr>balancer := lb\<rparr>) = relKeys rs" by (rule relKeys_frame) simp
  show ?thesis
  proof (cases c)
    case None
    then have "rs' = handleMessageFailure k (?rs1\<lparr>balancer := lb\<rparr>)" using assms(1) s by (simp add: attemptFetchConfirmation_def Let_def)
    then show ?thesis using relKeys_failure [of k "?rs1\<lparr>balancer := lb\<rparr>"] f by (simp only:)
  next
    case (Some m)
    obtain rs2 e where d: "sendMessageToCenterSync (reFetch E) (GetID (nodeConn m)) (?rs1\<lparr>balancer := lb\<rparr>) = Ret (rs2, e)"
      using assms(1) s Some by (auto simp: attemptFetchConfirmation_def Let_def split: outcome.splits prod.splits)
    have f2: "relKeys rs2 = relKeys rs" by (rule relKeys_frame) (use sendMessageToCenterSync_frame [OF d] in simp)
    have "rs' = handleMessageFailure k rs2 \<or> rs' = setTimer FetchTimer k rs2"
      using assms(1) s Some d by (cases e) (simp_all add: attemptFetchConfirmation_def Let_def)
    then show ?thesis using relKeys_failure [of k rs2] relKeys_setTimer [of k rs2] f2 assms(2) by auto
  qed
qed

lemma relKeys_switch: "switchNodes ws same k is p rs = (rs', b) \<Longrightarrow> relKeys rs' = insert k (relKeys rs)"
proof (induction "is" arbitrary: same p rs)
  case Nil
  then show ?case by (auto simp: relKeys_put)
next
  case (Cons i "is")
  show ?case
  proof (cases "same \<and> i = rpTarget p")
    case True
    then show ?thesis using Cons by simp
  next
    case False
    obtain nm e where t: "syncTarget True (ws i) (p\<lparr>rpTarget := i\<rparr>) (nodeMgr rs) = (nm, e)" by (rule prod.exhaust)
    have f: "relKeys (rs\<lparr>nodeMgr := nm\<rparr>) = relKeys rs" by (rule relKeys_frame) simp
    show ?thesis
    proof (cases e)
      case None
      then show ?thesis using Cons.prems False t f by (auto simp: Let_def relKeys_put)
    next
      case (Some x)
      then have "switchNodes ws True k is (p\<lparr>rpTarget := i\<rparr>) (rs\<lparr>nodeMgr := nm\<rparr>) = (rs', b)" using Cons.prems False t by (simp add: Let_def)
      from Cons.IH [OF this] f show ?thesis by simp
    qed
  qed
qed

lemma relKeys_timeout:
  assumes "handleMessageTimeout E k rs = Ret rs'"
  shows "relKeys rs' \<subseteq> relKeys rs"
proof (cases "map_of (relPending rs) k")
  case None
  then show ?thesis using assms by (simp add: handleMessageTimeout_def)
next
  case (Some p0)
  then have k: "k \<in> relKeys rs" by (rule map_of_relKeys)
  let ?p = "p0\<lparr>rpRetries := rpRetries p0 + 1\<rparr>"
  let ?rs1 = "(putRel k ?p rs)\<lparr>relRetries := relRetries rs + 1\<rparr>"
  have "relKeys ?rs1 = relKeys (putRel k ?p rs)" by (rule relKeys_frame) simp
  then have k1: "relKeys ?rs1 = relKeys rs" using k by (simp add: relKeys_put insert_absorb)
  show ?thesis
  proof (cases "rpRetries ?p \<le> relMaxRetries rs")
    case False
    then have "attemptFetchConfirmation E k ?rs1 = Ret rs'" using assms Some by (simp add: handleMessageTimeout_def Let_def)
    from relKeys_fetch [OF this] k1 k show ?thesis by simp
  next
    case True
    obtain nm e where t: "syncTarget (reSame E) (reWrite E) ?p (nodeMgr ?rs1) = (nm, e)" by (rule prod.exhaust)
    have f: "relKeys (?rs1\<lparr>nodeMgr := nm\<rparr>) = relKeys rs" using relKeys_frame [of "?rs1\<lparr>nodeMgr := nm\<rparr>" ?rs1] k1 by simp
    obtain rs2 b where a: "attemptNodeSwitch E k ?p (?rs1\<lparr>nodeMgr := nm\<rparr>) = (rs2, b)" by (rule prod.exhaust)
    have "relKeys rs2 = insert k (relKeys (?rs1\<lparr>nodeMgr := nm\<rparr>))"
      using a unfolding attemptNodeSwitch_def by (cases "rpKind ?p") (auto dest: relKeys_switch)
    then have k2: "relKeys rs2 = relKeys rs" using f k by (simp add: insert_absorb)
    show ?thesis
    proof (cases "e = None \<or> b")
      case ok: True
      then have "rs' = putRel k (?p\<lparr>rpTimer := RetryTimer\<rparr>) (?rs1\<lparr>nodeMgr := nm\<rparr>) \<or> rs' = rs2"
        using assms Some True t a by (cases e) (auto simp: handleMessageTimeout_def Let_def)
      then show ?thesis using k2 f k by (auto simp: relKeys_put)
    next
      case no: False
      then have "attemptFetchConfirmation E k rs2 = Ret rs'" using assms Some True t a
        by (cases e) (auto simp: handleMessageTimeout_def Let_def)
      from relKeys_fetch [OF this] k2 k show ?thesis by simp
    qed
  qed
qed

lemma relKeys_send:
  assumes "sendReliable w now data kind i e rs = (rs', err)"
  shows "relKeys rs' \<subseteq> insert (getMessageKey e) (relKeys rs)"
proof (cases data)
  case (Inl x)
  then show ?thesis using assms by (auto simp: sendReliable_def)
next
  case (Inr d)
  let ?k = "getMessageKey e"
  let ?p = "\<lparr>rpID = MessageId e, rpData = d, rpKind = kind, rpTarget = i, rpSentTime = now, rpRetries = 0, rpTimer = NoTimer\<rparr>"
  obtain nm x where t: "syncTarget True w ?p (nodeMgr (putRel ?k ?p rs)) = (nm, x)" by (rule prod.exhaust)
  have f: "relKeys ((putRel ?k ?p rs)\<lparr>nodeMgr := nm\<rparr>) = insert ?k (relKeys rs)"
    using relKeys_frame [of "(putRel ?k ?p rs)\<lparr>nodeMgr := nm\<rparr>" "putRel ?k ?p rs"] by (simp add: relKeys_put)
  show ?thesis
  proof (cases x)
    case None
    then have "rs' = putRel ?k (?p\<lparr>rpTimer := RetryTimer\<rparr>) ((putRel ?k ?p rs)\<lparr>nodeMgr := nm\<rparr>)"
      using assms Inr t by (simp add: sendReliable_def Let_def)
    then show ?thesis using f by (simp add: relKeys_put)
  next
    case (Some y)
    then have "rs' = fst (removePendingMessage ?k ((putRel ?k ?p rs)\<lparr>nodeMgr := nm\<rparr>))"
      using assms Inr t by (simp add: sendReliable_def Let_def)
    then show ?thesis using f relKeys_remove [of ?k "(putRel ?k ?p rs)\<lparr>nodeMgr := nm\<rparr>"] by simp
  qed
qed

lemma relKeys_ack:
  assumes "HandleACK e rs = (rs', b)"
  shows "relKeys rs' \<subseteq> relKeys rs"
proof -
  let ?r = "removePendingMessage (getOriginalMessageKey e) rs"
  have "rs' = rs \<or> rs' = fst ?r \<or> rs' = (fst ?r)\<lparr>relConfirmed := relConfirmed (fst ?r) + 1\<rparr>"
    using assms by (cases "snd ?r") (auto simp: HandleACK_def case_prod_beta split: if_splits)
  moreover have "relKeys ((fst ?r)\<lparr>relConfirmed := relConfirmed (fst ?r) + 1\<rparr>) = relKeys (fst ?r)" by (rule relKeys_frame) simp
  ultimately show ?thesis using relKeys_remove [of "getOriginalMessageKey e" rs] by auto
qed

lemma relKeys_fetched: "relKeys (HandleFetchResponse e rs) \<subseteq> relKeys rs"
proof -
  have "relKeys (handleMessageFetchResponse m rs) \<subseteq> relKeys rs" for m
  proof -
    let ?r = "removePendingMessage (hex_string (mfs_message_id m)) rs"
    have "handleMessageFetchResponse m rs = fst ?r \<or> handleMessageFetchResponse m rs = (fst ?r)\<lparr>relConfirmed := relConfirmed (fst ?r) + 1\<rparr> \<or>
        handleMessageFetchResponse m rs = handleMessageFailure (hex_string (mfs_message_id m)) (fst ?r)"
      by (cases "snd ?r") (simp_all add: handleMessageFetchResponse_def Let_def case_prod_beta)
    moreover have "relKeys ((fst ?r)\<lparr>relConfirmed := relConfirmed (fst ?r) + 1\<rparr>) = relKeys (fst ?r)" by (rule relKeys_frame) simp
    ultimately show ?thesis using relKeys_remove relKeys_failure by (metis subset_trans)
  qed
  then show ?thesis by (auto simp: HandleFetchResponse_def split: option.splits message.splits)
qed

lemma rel_step_keys: "rel_step rs rs' \<Longrightarrow> relKeys rs \<subseteq> range hex_string \<Longrightarrow> relKeys rs' \<subseteq> range hex_string"
proof (induction rule: rel_step.induct)
  case (rel_send w now data kind i e rs rs' err)
  then show ?case using relKeys_send [OF rel_send(1)] by (auto simp: getMessageKey_def)
next
  case (rel_ack e rs rs' b)
  then show ?case using relKeys_ack by blast
next
  case (rel_fetched rs e)
  then show ?case using relKeys_fetched by blast
next
  case (rel_fire E k rs rs')
  show ?case
  proof (cases "rs' = rs \<or> handleMessageTimeout E k rs = Ret rs'")
    case True
    then show ?thesis using relKeys_timeout rel_fire(2) by blast
  next
    case False
    then have "rs' = handleMessageFailure k rs" using rel_fire(1) by (auto simp: fire_def handleFetchTimeout_def split: option.splits rel_timer.splits)
    then show ?thesis using relKeys_failure rel_fire(2) by blast
  qed
next
  case (rel_clean rs now)
  then show ?case by (auto simp: relKeys_def cleanup_def)
qed (simp add: relKeys_def)

lemma not_hex: "CHR ''_'' \<in> set k \<Longrightarrow> k \<notin> range hex_string"
  using hex_string_chars by auto

lemma delete_absent: "k \<notin> fst ` set xs \<Longrightarrow> AList.delete k xs = xs"
  by (simp add: AList.delete_idem)

definition anyAck :: "envelope \<Rightarrow> bool" where
  "anyAck e = (case Message e of
       Some (AllocateRoomIdAck _ _ _) \<Rightarrow> True | Some (CreateRoomAck _ _ _ _) \<Rightarrow> True | Some (JoinRoomAck _ _ _ _ _) \<Rightarrow> True
     | Some (LeaveRoomAck _ _ _) \<Rightarrow> True | Some (CloseRoomAck _ _ _) \<Rightarrow> True | Some (ChatMessageAck _ _ _) \<Rightarrow> True
     | Some (HeartbeatAck _ _) \<Rightarrow> True | _ \<Rightarrow> False)"

text \<open>C30: no acknowledgement ever confirms anything.  Pending messages are filed under the hexadecimal message id; an
  acknowledgement of a room or chat message looks for a key like \<^verbatim>\<open>chat_7\<close>, and one of a heartbeat for none: in every
  reachable state each of these acknowledgements is accepted and changes nothing, so no reliable message is confirmed
  by one.\<close>

theorem acks_never_confirm:
  assumes "rel_step\<^sup>*\<^sup>* rs0 rs" "relPending rs0 = []" "anyAck e"
  shows "HandleACK e rs = (rs, True)"
proof -
  have keys: "relKeys rs \<subseteq> range hex_string"
    using assms(1,2) by (induction rule: rtranclp_induct) (auto simp: relKeys_def dest: rel_step_keys [unfolded relKeys_def])
  have a: "isACKMessage e" "getOriginalMessageKey e = [] \<or> CHR ''_'' \<in> set (getOriginalMessageKey e)"
    using assms(3) by (auto simp: anyAck_def getOriginalMessageKey_def isACKMessage_def split: option.splits message.splits)
  show ?thesis
  proof (cases "getOriginalMessageKey e = []")
    case True
    with a(1) show ?thesis by (simp add: HandleACK_def)
  next
    case False
    then have k: "getOriginalMessageKey e \<notin> relKeys rs" using a(2) keys not_hex by blast
    then have "map_of (relPending rs) (getOriginalMessageKey e) = None" "AList.delete (getOriginalMessageKey e) (relPending rs) = relPending rs"
      by (simp_all add: relKeys_def map_of_eq_None_iff delete_absent)
    then show ?thesis using a(1) False by (simp add: HandleACK_def removePendingMessage_def)
  qed
qed

theorem acks_never_confirm_witness:
  "HandleACK \<lparr>ConnectionSeqId = 1, MessageId = [2], Message = Some (LeaveRoomAck 7 LEAVE_ROOM_SUCCESS [])\<rparr> relSent = (relSent, True) \<and>
   length (relPending relSent) = 1"
proof -
  have "rel_step relDemo relSent" by (rule rel_send) (use relSent_state(1) in \<open>simp only: SendReliableMessage_def\<close>)
  then have r: "rel_step\<^sup>*\<^sup>* relDemo relSent" by (rule r_into_rtranclp)
  have "relPending relDemo = []" by (simp add: relDemo_def)
  from acks_never_confirm [OF r this] show ?thesis by (simp add: anyAck_def relSent_state(2))
qed

text \<open>A fetch that finds nothing, or a failure, ends the message without counting it.\<close>

lemma failed_fetch_uncounted:
  assumes "map_of (relPending rs) (hex_string (mfs_message_id m)) = Some p" "\<not> mfs_exists m"
  shows "relFailed (handleMessageFetchResponse m rs) = relFailed rs \<and> relConfirmed (handleMessageFetchResponse m rs) = relConfirmed rs \<and>
    map_of (relPending (handleMessageFetchResponse m rs)) (hex_string (mfs_message_id m)) = None"
  using assms by (simp add: handleMessageFetchResponse_def removePendingMessage_def handleMessageFailure_def AList.delete_conv' Let_def)

end
