(* ===== verification/RoomMapping.thy ===== *)
theory RoomMapping
  imports Prelude "HOL-Library.AList"
begin

text \<open>
  \<^verbatim>\<open>router/redis_manager.go\<close>, the rooms: which nodes a room is on.  Redis, shared by all routers, has a set of nodes
  for every room and a set of rooms for every node; each router keeps a cache of the first.  The first command of
  each method can fail, with an error (\<open>err\<close>); the commands whose results are ignored either all take effect or do
  not (\<open>rest\<close>).  A set of Redis is a list without duplicates; \<open>ord\<close> is the order of \<^verbatim>\<open>SMembers\<close>.
\<close>

record room_redis =
  roomNodes :: "u64 \<Rightarrow> string list"
  nodeRooms :: "string \<Rightarrow> u64 list"
  preRegistered :: "u64 \<Rightarrow> string option"

type_synonym room_cache = "u64 \<Rightarrow> string list option"

definition emptyRedis :: room_redis where
  "emptyRedis = \<lparr>roomNodes = (\<lambda>_. []), nodeRooms = (\<lambda>_. []), preRegistered = (\<lambda>_. None)\<rparr>"

definition sAdd :: "'a \<Rightarrow> 'a list \<Rightarrow> 'a list" where "sAdd x xs = (if x \<in> set xs then xs else xs @ [x])"

definition cacheAdd :: "u64 \<Rightarrow> string \<Rightarrow> room_cache \<Rightarrow> room_cache" where
  "cacheAdd room node C =
     (case C room of
        Some ns \<Rightarrow> if node \<in> set ns then C else C(room \<mapsto> ns @ [node])
      | None \<Rightarrow> C(room \<mapsto> [node]))"

definition RegisterRoomMapping :: "string option \<Rightarrow> bool \<Rightarrow> u64 \<Rightarrow> string \<Rightarrow> room_redis \<times> room_cache
    \<Rightarrow> (room_redis \<times> room_cache) \<times> string option" where
  "RegisterRoomMapping err rest room node SC =
     (case err of
        Some e \<Rightarrow> (SC, Some (''failed to register room mapping: '' @ e))
      | None \<Rightarrow>
          (case SC of (S, C) \<Rightarrow>
             let S1 = S\<lparr>roomNodes := (roomNodes S)(room := sAdd node (roomNodes S room))\<rparr>;
                 S2 = (if rest then S1\<lparr>nodeRooms := (nodeRooms S1)(node := sAdd room (nodeRooms S1 node))\<rparr> else S1)
             in ((S2, cacheAdd room node C), None)))"

definition AddRoomNode :: "string option \<Rightarrow> bool \<Rightarrow> u64 \<Rightarrow> string \<Rightarrow> room_redis \<times> room_cache
    \<Rightarrow> (room_redis \<times> room_cache) \<times> string option" where
  "AddRoomNode err rest room node SC = RegisterRoomMapping err rest room node SC"

definition RemoveRoomNode :: "string option \<Rightarrow> bool \<Rightarrow> u64 \<Rightarrow> string \<Rightarrow> room_redis \<times> room_cache
    \<Rightarrow> (room_redis \<times> room_cache) \<times> string option" where
  "RemoveRoomNode err rest room node SC =
     (case err of
        Some e \<Rightarrow> (SC, Some (''failed to remove room node: '' @ e))
      | None \<Rightarrow>
          (case SC of (S, C) \<Rightarrow>
             let S1 = S\<lparr>roomNodes := (roomNodes S)(room := removeAll node (roomNodes S room))\<rparr>;
                 S2 = (if rest then S1\<lparr>nodeRooms := (nodeRooms S1)(node := removeAll room (nodeRooms S1 node))\<rparr> else S1);
                 C1 = (case C room of None \<Rightarrow> C | Some ns \<Rightarrow> C(room \<mapsto> remove1 node ns))
             in ((S2, C1), None)))"

definition GetRoomNodes :: "string option \<Rightarrow> (string list \<Rightarrow> string list) \<Rightarrow> u64 \<Rightarrow> room_redis \<times> room_cache
    \<Rightarrow> (room_redis \<times> room_cache) \<times> (string + string list)" where
  "GetRoomNodes err ord room SC =
     (case SC of (S, C) \<Rightarrow>
        case C room of
          Some ns \<Rightarrow> (SC, Inr ns)
        | None \<Rightarrow>
            (case err of
               Some e \<Rightarrow> (SC, Inl (''failed to get room nodes: '' @ e))
             | None \<Rightarrow> ((S, C(room \<mapsto> ord (roomNodes S room))), Inr (ord (roomNodes S room)))))"

definition GetNodeRooms :: "string option \<Rightarrow> (u64 list \<Rightarrow> u64 list) \<Rightarrow> string \<Rightarrow> room_redis \<times> room_cache \<Rightarrow> string + u64 list" where
  "GetNodeRooms err ord node SC =
     (case err of Some e \<Rightarrow> Inl (''failed to get node rooms: '' @ e) | None \<Rightarrow> Inr (ord (nodeRooms (fst SC) node)))"

text \<open>\<open>err1\<close> for the lookup, \<open>err2\<close> for the deletion; \<open>rest\<close> for the removals between them.\<close>

definition RemoveRoomMapping :: "string option \<Rightarrow> string option \<Rightarrow> bool \<Rightarrow> (string list \<Rightarrow> string list) \<Rightarrow> u64
    \<Rightarrow> room_redis \<times> room_cache \<Rightarrow> (room_redis \<times> room_cache) \<times> string option" where
  "RemoveRoomMapping err1 err2 rest ord room SC =
     (case GetRoomNodes err1 ord room SC of
        (SC1, Inl e) \<Rightarrow> (SC1, Some e)
      | ((S, C), Inr ns) \<Rightarrow>
          let S1 = (if rest then S\<lparr>nodeRooms := (\<lambda>n. if n \<in> set ns then removeAll room (nodeRooms S n) else nodeRooms S n)\<rparr> else S)
          in case err2 of
               Some e \<Rightarrow> ((S1, C), Some (''failed to remove room mapping: '' @ e))
             | None \<Rightarrow> ((S1\<lparr>roomNodes := (roomNodes S1)(room := [])\<rparr>, C(room := None)), None))"

definition PreRegisterRoom :: "string option \<Rightarrow> u64 \<Rightarrow> string \<Rightarrow> room_redis \<times> room_cache \<Rightarrow> (room_redis \<times> room_cache) \<times> string option" where
  "PreRegisterRoom err room node SC =
     (case err of
        Some e \<Rightarrow> (SC, Some (''failed to pre-register room: '' @ e))
      | None \<Rightarrow> ((fst SC\<lparr>preRegistered := (preRegistered (fst SC))(room \<mapsto> node)\<rparr>, snd SC), None))"

definition cleanupCache :: "room_redis \<times> room_cache \<Rightarrow> room_redis \<times> room_cache" where
  "cleanupCache SC = (fst SC, (\<lambda>_. None))"

definition ClearCache :: "room_redis \<times> room_cache \<Rightarrow> room_redis \<times> room_cache" where
  "ClearCache SC = cleanupCache SC"

section \<open>When the cache tells the truth\<close>

definition coherent :: "room_redis \<times> room_cache \<Rightarrow> bool" where
  "coherent SC \<longleftrightarrow> (\<forall>room ns. snd SC room = Some ns \<longrightarrow> set ns = set (roomNodes (fst SC) room) \<and> distinct ns) \<and>
     (\<forall>room. distinct (roomNodes (fst SC) room))"

lemma sAdd_set [simp]: "set (sAdd x xs) = insert x (set xs)" "distinct (sAdd x xs) = distinct xs"
  by (auto simp: sAdd_def)

lemma coherent_cleanup: "coherent SC \<Longrightarrow> coherent (cleanupCache SC)"
  by (simp add: coherent_def cleanupCache_def)

lemma coherent_get:
  assumes "coherent SC" "\<And>xs. set (ord xs) = set xs" "\<And>xs. distinct (ord xs) = distinct xs"
  shows "coherent (fst (GetRoomNodes err ord room SC))"
    "snd (GetRoomNodes err ord room SC) = Inr ns \<Longrightarrow> set ns = set (roomNodes (fst SC) room) \<and> distinct ns \<and>
       snd (fst (GetRoomNodes err ord room SC)) room = Some ns"
    "fst (fst (GetRoomNodes err ord room SC)) = fst SC"
  using assms by (auto simp: coherent_def GetRoomNodes_def split: prod.splits option.splits)

text \<open>Registering keeps the cache true exactly when it knows the room, or Redis knows no other node for it.\<close>

lemma coherent_upd:
  assumes "coherent (S, C)" "roomNodes S' = (roomNodes S)(room := rs)" "distinct rs"
  shows "coherent (S', C(room \<mapsto> ns)) \<longleftrightarrow> set ns = set rs \<and> distinct ns"
proof
  assume "coherent (S', C(room \<mapsto> ns))"
  then show "set ns = set rs \<and> distinct ns" using assms(2) unfolding coherent_def by (metis fst_conv snd_conv fun_upd_same)
next
  assume "set ns = set rs \<and> distinct ns"
  then show "coherent (S', C(room \<mapsto> ns))" using assms by (auto simp: coherent_def)
qed

lemma coherent_register:
  assumes "coherent (S, C)"
  shows "coherent (fst (RegisterRoomMapping None rest room node (S, C))) \<longleftrightarrow> C room \<noteq> None \<or> set (roomNodes S room) \<subseteq> {node}"
proof -
  obtain S' where r: "RegisterRoomMapping None rest room node (S, C) = ((S', cacheAdd room node C), None)"
    "roomNodes S' = (roomNodes S)(room := sAdd node (roomNodes S room))"
    by (cases rest) (simp_all add: RegisterRoomMapping_def Let_def)
  have d: "distinct (sAdd node (roomNodes S room))" using assms by (simp add: coherent_def)
  show ?thesis
  proof (cases "C room")
    case None
    then have "coherent (S', cacheAdd room node C) \<longleftrightarrow> insert node (set (roomNodes S room)) = {node}"
      using coherent_upd [OF assms r(2) d, of "[node]"] by (auto simp: cacheAdd_def)
    then show ?thesis using None r(1) by auto
  next
    case (Some ns)
    then have n: "set ns = set (roomNodes S room)" "distinct ns" using assms by (auto simp: coherent_def)
    let ?ns = "if node \<in> set ns then ns else ns @ [node]"
    have "cacheAdd room node C = C(room \<mapsto> ?ns)" using Some by (auto simp: cacheAdd_def)
    moreover have "set ?ns = set (sAdd node (roomNodes S room)) \<and> distinct ?ns" using n by auto
    ultimately have "coherent (S', cacheAdd room node C)" using coherent_upd [OF assms r(2) d, of ?ns] by simp
    then show ?thesis using Some r(1) by simp
  qed
qed

lemma coherent_register_error: "fst (RegisterRoomMapping (Some e) rest room node SC) = SC"
  by (simp add: RegisterRoomMapping_def)

lemma coherent_frame: "coherent (S, C) \<Longrightarrow> roomNodes S' = roomNodes S \<Longrightarrow> coherent (S', C)"
  by (simp add: coherent_def)

lemma coherent_clear: "coherent (S, C) \<Longrightarrow> roomNodes S' = (roomNodes S)(room := []) \<Longrightarrow> coherent (S', C(room := None))"
  by (simp add: coherent_def)

lemma coherent_remove:
  assumes "coherent SC" "\<And>xs. set (ord xs) = set xs" "\<And>xs. distinct (ord xs) = distinct xs"
  shows "coherent (fst (RemoveRoomMapping err1 err2 rest ord room SC))"
proof -
  obtain S C r where g: "GetRoomNodes err1 ord room SC = ((S, C), r)" by (metis prod.exhaust)
  have c: "coherent (S, C)" using coherent_get(1) [OF assms, of err1 room] g by simp
  show ?thesis
  proof (cases r)
    case (Inl e)
    then show ?thesis using g c by (simp add: RemoveRoomMapping_def)
  next
    case (Inr ns)
    define S1 where "S1 = (if rest then S\<lparr>nodeRooms := (\<lambda>n. if n \<in> set ns then removeAll room (nodeRooms S n) else nodeRooms S n)\<rparr> else S)"
    have s1: "roomNodes S1 = roomNodes S" by (simp add: S1_def)
    have "fst (RemoveRoomMapping err1 err2 rest ord room SC) =
        (case err2 of Some e \<Rightarrow> (S1, C) | None \<Rightarrow> (S1\<lparr>roomNodes := (roomNodes S1)(room := [])\<rparr>, C(room := None)))"
      using g Inr by (simp add: RemoveRoomMapping_def S1_def Let_def split: option.split)
    then show ?thesis using coherent_frame [OF c s1] coherent_clear [OF c, of "S1\<lparr>roomNodes := (roomNodes S1)(room := [])\<rparr>" room] s1
      by (cases err2) simp_all
  qed
qed

text \<open>Registering a room for a node that has not been looked up since the cache was emptied hides every other
  node of the room: the router that holds it finds only the new node until its cache is emptied again, although
  Redis has them all.\<close>

theorem register_hides_nodes:
  assumes "C room = None" "distinct (roomNodes S room)" "old \<in> set (roomNodes S room)" "old \<noteq> node"
  shows "let SC = fst (RegisterRoomMapping None rest room node (S, C))
    in snd (GetRoomNodes err ord room SC) = Inr [node] \<and> set (roomNodes (fst SC) room) = insert node (set (roomNodes S room)) \<and>
       old \<notin> set [node] \<and> snd (GetRoomNodes None id room (cleanupCache SC)) = Inr (roomNodes (fst SC) room)"
  using assms by (simp add: RegisterRoomMapping_def cacheAdd_def GetRoomNodes_def cleanupCache_def Let_def)

definition oneNode :: room_redis where
  "oneNode = emptyRedis\<lparr>roomNodes := (\<lambda>_. [])(7 := [''a''])\<rparr>"

theorem register_hides_nodes_witness:
  "snd (GetRoomNodes None id 7 (fst (RegisterRoomMapping None True 7 ''b'' (oneNode, Map.empty)))) = Inr [''b''] \<and>
   ''a'' \<in> set (roomNodes (fst (fst (RegisterRoomMapping None True 7 ''b'' (oneNode, Map.empty)))) 7)"
proof -
  have s: "roomNodes oneNode 7 = [''a'']" by (simp add: oneNode_def)
  then have h: "distinct (roomNodes oneNode 7)" "''a'' \<in> set (roomNodes oneNode 7)" "''a'' \<noteq> ''b''" by simp_all
  show ?thesis using register_hides_nodes [OF _ h, of Map.empty True None id] s unfolding Let_def by (metis empty_map_add insertI2 h(2) option.distinct(1) map_of.simps(1))
qed

end
