(* ===== verification/RouterNode.thy ===== *)
theory RouterNode
  imports RouterReliability RoomMapping Classifier
begin

text \<open>
  The messages of a router: \<^verbatim>\<open>router/message_router.go\<close>, the message paths of \<^verbatim>\<open>router/server.go\<close> and
  \<^verbatim>\<open>router/event_handler.go\<close>.  The state puts together the node manager, the load balancer, the reliability
  manager, the classifier and the mapping of rooms; a node is known by its id, which a handler has just found in
  the map.  The environment has protobuf, the id generator (on a state of its own) and the configuration;
  \<open>router_call\<close> is what one message meets: the clock, the results of Redis and of writes, and the orders of walks.
\<close>

section \<open>State\<close>

datatype router_error =
    RtSerialize codec_error | RtDeserialize codec_error | RtSend conn_error | RtRedis string | RtNoNodes u64 | RtNoCenter
  | RtReliable rel_error | RtNodeNotFound string | RtUnsupported | RtUnknownConnection

record 'g router_env =
  rvMarshal :: "envelope \<Rightarrow> bytes option"
  rvUnmarshal :: "bytes \<Rightarrow> envelope option"
  rvNewID :: "'g \<Rightarrow> u32 \<Rightarrow> u32 \<Rightarrow> u8 \<Rightarrow> 'g \<times> global_id"
  rvHost :: string
  rvPort :: nat
  rvReliable :: bool
  rvCodecText :: "codec_error \<Rightarrow> string"
  rvErrorText :: "router_error \<Rightarrow> string"

record 'g router_node = router_state +
  rnRedis :: room_redis
  rnCache :: room_cache
  rnClassifier :: classifier
  rnSeq :: conn_seq_gen
  rnIDs :: 'g
  rsReceived :: i64
  rsRouted :: i64
  rsTotalConnections :: i64
  rsActiveConnections :: i64
  rsConnectionNodes :: i64
  rsMessageCenters :: i64
  rsActiveRooms :: i64
  mrRouted :: i64
  mrForwarded :: i64
  mrPersisted :: i64
  mrDropped :: i64
  mrErrors :: i64
  mrChat :: i64
  mrSystem :: i64

record router_call =
  clNow :: int
  clPre :: "string option"
  clRegister :: "string option"
  clGet :: "string option"
  clBroadcast :: "string option"
  clGetRemove :: "string option"
  clDelete :: "string option"
  clRest :: bool
  clMembers :: "string list \<Rightarrow> string list"
  clCenters :: "centers \<Rightarrow> centers"
  clWrite :: "string option"

text \<open>An action: it returns with an error or without, or a goroutine panics.\<close>

type_synonym 'g raction = "'g router_node \<Rightarrow> ('g router_node \<times> router_error option) outcome"

definition clMillis :: "router_call \<Rightarrow> int" where "clMillis c = clNow c div 1000000"

section \<open>The server: sending\<close>

definition sendEntry :: "bytes \<Rightarrow> string \<Rightarrow> node_manager \<Rightarrow> (node_manager \<times> conn_error option) outcome" where
  "sendEntry d i nm =
     (case map_of (connectionNodes nm) i of
        None \<Rightarrow> Ret (nm, Some (NotConnected i))
      | Some nc \<Rightarrow> (case Send d nc of
                      Panic \<Rightarrow> Panic
                    | Ret (nc', e) \<Rightarrow> Ret (nm\<lparr>connectionNodes := AList.update i nc' (connectionNodes nm)\<rparr>, e)))"

definition sendMessageToNodeSync :: "'g router_env \<Rightarrow> router_call \<Rightarrow> string \<Rightarrow> envelope \<Rightarrow> 'g raction" where
  "sendMessageToNodeSync E c i e rn =
     (case Serialize (rvMarshal E) (clMillis c) (Some e) of
        Inl err \<Rightarrow> Ret (rn, Some (RtSerialize err))
      | Inr data \<Rightarrow>
          (case sendEntry data i (nodeMgr rn) of
             Panic \<Rightarrow> Panic
           | Ret (nm, Some err) \<Rightarrow> Ret (rn\<lparr>nodeMgr := nm, rsDropped := rsDropped rn + 1\<rparr>, Some (RtSend err))
           | Ret (nm, None) \<Rightarrow> Ret (rn\<lparr>nodeMgr := nm, rsRouted := rsRouted rn + 1\<rparr>, None)))"

definition SendMessageToNode :: "'g router_env \<Rightarrow> router_call \<Rightarrow> string \<Rightarrow> envelope \<Rightarrow> 'g raction" where
  "SendMessageToNode E c i e rn =
     (if GetConnectionNode (nodeMgr rn) i = None then Ret (rn, Some (RtNodeNotFound i))
      else if rvReliable E
        then let (rn1, err) = SendReliableMessage (clWrite c) (clNow c) (Serialize (rvMarshal E) (clMillis c) (Some e)) i e rn
             in Ret (rn1, map_option RtReliable err)
      else sendMessageToNodeSync E c i e rn)"

text \<open>The loop over the nodes of a room: the manager, and how many were sent and dropped.\<close>

fun nodeLoop :: "bytes \<Rightarrow> string option \<Rightarrow> string list \<Rightarrow> node_manager \<Rightarrow> (node_manager \<times> nat \<times> nat) outcome" where
  "nodeLoop data excl [] nm = Ret (nm, 0, 0)"
| "nodeLoop data excl (i # is) nm =
     (case GetConnectionNode nm i of
        None \<Rightarrow> nodeLoop data excl is nm
      | Some nc \<Rightarrow>
          if excl = Some (GetID nc) then nodeLoop data excl is nm
          else case sendEntry data i nm of
                 Panic \<Rightarrow> Panic
               | Ret (nm1, e) \<Rightarrow>
                   (case nodeLoop data excl is nm1 of
                      Panic \<Rightarrow> Panic
                    | Ret (nm2, sent, dropped) \<Rightarrow>
                        Ret (nm2, if e = None then Suc sent else sent, if e = None then dropped else Suc dropped)))"

definition BroadcastToRoom :: "'g router_env \<Rightarrow> router_call \<Rightarrow> u64 \<Rightarrow> envelope \<Rightarrow> string option \<Rightarrow> 'g raction" where
  "BroadcastToRoom E c room e excl rn =
     (case GetRoomNodes (clBroadcast c) (clMembers c) room (rnRedis rn, rnCache rn) of
        (_, Inl err) \<Rightarrow> Ret (rn, Some (RtRedis err))
      | ((S, C), Inr ids) \<Rightarrow>
          let rn1 = rn\<lparr>rnRedis := S, rnCache := C\<rparr>
          in if ids = [] then Ret (rn1, Some (RtNoNodes room))
             else case Serialize (rvMarshal E) (clMillis c) (Some e) of
                    Inl err \<Rightarrow> Ret (rn1, Some (RtSerialize err))
                  | Inr data \<Rightarrow>
                      (case nodeLoop data excl ids (nodeMgr rn1) of
                         Panic \<Rightarrow> Panic
                       | Ret (nm, sent, dropped) \<Rightarrow>
                           Ret (rn1\<lparr>nodeMgr := nm, rsDropped := rsDropped rn1 + of_nat dropped,
                                    rsRouted := rsRouted rn1 + of_nat sent\<rparr>, None)))"

definition server_PersistMessage :: "'g router_env \<Rightarrow> router_call \<Rightarrow> envelope \<Rightarrow> 'g raction" where
  "server_PersistMessage E c e rn =
     (case ShouldPersistToKafka (rnClassifier rn) (Some e) of
        (mc, False) \<Rightarrow> Ret (rn\<lparr>rnClassifier := mc\<rparr>, None)
      | (mc, True) \<Rightarrow>
          let rn1 = rn\<lparr>rnClassifier := mc\<rparr>
          in case SelectMessageCenter (clCenters c) (clNow c) (nodeMgr rn1) (balancer rn1) of
               Panic \<Rightarrow> Panic
             | Ret (lb, None) \<Rightarrow> Ret (rn1\<lparr>balancer := lb\<rparr>, Some RtNoCenter)
             | Ret (lb, Some m) \<Rightarrow>
                 (let rn2 = rn1\<lparr>balancer := lb, rnClassifier := fst (ClassifyMessage (rnClassifier rn1) (Some e))\<rparr>;
                      data = Serialize (rvMarshal E) (clMillis c) (Some e);
                      i = GetID (nodeConn m)
                  in if rvReliable E
                     then let (rn3, err) = SendReliableMessageToCenter (clWrite c) (clNow c) data i e rn2
                          in Ret (rn3, map_option RtReliable err)
                     else case sendMessageToCenterSync data i rn2 of
                            Panic \<Rightarrow> Panic
                          | Ret (rn3, err) \<Rightarrow> Ret (rn3, map_option RtReliable err)))"

section \<open>Helpers of the message router\<close>

definition rtEnvelope :: "'g router_env \<Rightarrow> u32 \<Rightarrow> message \<Rightarrow> 'g router_node \<Rightarrow> 'g router_node \<times> envelope" where
  "rtEnvelope E roomID msg rn =
     (let (sq, s) = SeqNext (rnSeq rn); (g, i) = rvNewID E (rnIDs rn) 0 roomID 0
      in (rn\<lparr>rnSeq := sq, rnIDs := g\<rparr>, \<lparr>ConnectionSeqId = s, MessageId = ToBytes i, Message = Some msg\<rparr>))"

definition sendResponse :: "'g router_env \<Rightarrow> router_call \<Rightarrow> string \<Rightarrow> message \<Rightarrow> 'g raction" where
  "sendResponse E c i msg rn = (let (rn1, e) = rtEnvelope E 0 msg rn in sendMessageToNodeSync E c i e rn1)"

definition persistMessage :: "'g router_env \<Rightarrow> router_call \<Rightarrow> envelope \<Rightarrow> 'g raction" where
  "persistMessage E c e rn =
     (case server_PersistMessage E c e rn of
        Panic \<Rightarrow> Panic
      | Ret (rn1, Some err) \<Rightarrow> Ret (rn1\<lparr>mrDropped := mrDropped rn1 + 1\<rparr>, Some err)
      | Ret (rn1, None) \<Rightarrow> Ret (rn1\<lparr>mrPersisted := mrPersisted rn1 + 1\<rparr>, None))"

text \<open>Where the result is only logged.\<close>

definition quietly :: "('g router_node \<times> router_error option) outcome \<Rightarrow> ('g router_node \<Rightarrow> ('g router_node \<times> router_error option) outcome)
    \<Rightarrow> ('g router_node \<times> router_error option) outcome" where
  "quietly r k = (case r of Panic \<Rightarrow> Panic | Ret (rn, _) \<Rightarrow> k rn)"

definition forwardToMessageCenter :: "'g router_env \<Rightarrow> router_call \<Rightarrow> string \<Rightarrow> envelope \<Rightarrow> 'g raction" where
  "forwardToMessageCenter E c i e rn =
     (case Serialize (rvMarshal E) (clMillis c) (Some e) of
        Inl err \<Rightarrow> Ret (rn, Some (RtSerialize err))
      | Inr data \<Rightarrow>
          (case sendCenter data i (nodeMgr rn) of
             Panic \<Rightarrow> Panic
           | Ret (nm, Some err) \<Rightarrow> Ret (rn\<lparr>nodeMgr := nm, mrDropped := mrDropped rn + 1\<rparr>, Some (RtSend err))
           | Ret (nm, None) \<Rightarrow> Ret (rn\<lparr>nodeMgr := nm, mrForwarded := mrForwarded rn + 1\<rparr>, None)))"

definition chatText :: "string \<Rightarrow> message" where
  "chatText t = ChatMessage \<lparr>cm_content = t, cm_type = MESSAGE_TYPE_TEXT, cm_reply_to = 0\<rparr>"

definition broadcastToRoom :: "'g router_env \<Rightarrow> router_call \<Rightarrow> u64 \<Rightarrow> message \<Rightarrow> string option \<Rightarrow> 'g raction" where
  "broadcastToRoom E c room msg excl rn =
     (let (rn1, e) = rtEnvelope E (ucast room) msg rn in BroadcastToRoom E c room e excl rn1)"

definition generateRoomID :: "router_call \<Rightarrow> u64" where
  "generateRoomID c = word_of_int (clMillis c)"

definition getRouterAddresses :: "'g router_env \<Rightarrow> string list" where
  "getRouterAddresses E = [''ws://'' @ rvHost E @ '':'' @ dec_string (rvPort E)]"

definition sendAllocateRoomIdError :: "'g router_env \<Rightarrow> router_call \<Rightarrow> string \<Rightarrow> string \<Rightarrow> 'g raction" where
  "sendAllocateRoomIdError E c i t = sendResponse E c i (AllocateRoomIdAck 0 ALLOCATE_ROOM_ID_FAILED t)"

definition sendCreateRoomError :: "'g router_env \<Rightarrow> router_call \<Rightarrow> string \<Rightarrow> string \<Rightarrow> 'g raction" where
  "sendCreateRoomError E c i t = sendResponse E c i (CreateRoomAck 0 CREATE_ROOM_FAILED t [])"

definition sendJoinRoomError :: "'g router_env \<Rightarrow> router_call \<Rightarrow> string \<Rightarrow> string \<Rightarrow> 'g raction" where
  "sendJoinRoomError E c i t = sendResponse E c i (JoinRoomAck 0 JOIN_ROOM_FAILED t None [])"

definition sendLeaveRoomError :: "'g router_env \<Rightarrow> router_call \<Rightarrow> string \<Rightarrow> string \<Rightarrow> 'g raction" where
  "sendLeaveRoomError E c i t = sendResponse E c i (LeaveRoomAck 0 LEAVE_ROOM_FAILED t)"

definition sendCloseRoomError :: "'g router_env \<Rightarrow> router_call \<Rightarrow> string \<Rightarrow> string \<Rightarrow> 'g raction" where
  "sendCloseRoomError E c i t = sendResponse E c i (CloseRoomAck 0 CLOSE_ROOM_FAILED t)"

definition sendChatMessageError :: "'g router_env \<Rightarrow> router_call \<Rightarrow> string \<Rightarrow> string \<Rightarrow> 'g raction" where
  "sendChatMessageError E c i t = sendResponse E c i (ChatMessageAck 0 CHAT_MESSAGE_FAILED t)"

definition sendMessageFetchError :: "'g router_env \<Rightarrow> router_call \<Rightarrow> string \<Rightarrow> envelope \<Rightarrow> string \<Rightarrow> 'g raction" where
  "sendMessageFetchError E c i e t = sendResponse E c i (MessageFetchResponse \<lparr>mfs_message_id = MessageId e, mfs_exists = False,
     mfs_status = MESSAGE_STATUS_FAILED, mfs_reason = t, mfs_processed_at = 0, mfs_content = None\<rparr>)"

definition sendRoomMessageFetchError :: "'g router_env \<Rightarrow> router_call \<Rightarrow> string \<Rightarrow> string \<Rightarrow> 'g raction" where
  "sendRoomMessageFetchError E c i t = sendResponse E c i (RoomMessageFetchResponse \<lparr>rfs_room_id = 0, rfs_messages = [],
     rfs_has_more = False, rfs_next_before_id = 0, rfs_status = ROOM_MESSAGE_FETCH_FAILED, rfs_reason = t\<rparr>)"

section \<open>The handlers\<close>

definition rtNode :: "router_call \<Rightarrow> (node_connection \<Rightarrow> node_connection) \<Rightarrow> string \<Rightarrow> 'g router_node \<Rightarrow> 'g router_node" where
  "rtNode c f i rn = rn\<lparr>nodeMgr := onNodeID i f (nodeMgr rn)\<rparr>"

text \<open>\<^verbatim>\<open>ExtractMessageInfo\<close>, with the handler that answers when it fails.\<close>

definition withInfo :: "'g router_env \<Rightarrow> router_call \<Rightarrow> envelope \<Rightarrow> (string \<Rightarrow> 'g raction) \<Rightarrow> (u32 \<Rightarrow> u32 \<Rightarrow> 'g raction) \<Rightarrow> 'g raction" where
  "withInfo E c e fail k rn =
     (case ExtractMessageInfo (clMillis c) (Some e) of
        Inl err \<Rightarrow> fail (''Failed to extract message info: '' @ rvCodecText E err) rn
      | Inr (user, room, _, _) \<Rightarrow> k user room rn)"

definition handleAllocateRoomId :: "'g router_env \<Rightarrow> router_call \<Rightarrow> string \<Rightarrow> 'g raction" where
  "handleAllocateRoomId E c i rn =
     (let room = generateRoomID c
      in case PreRegisterRoom (clPre c) room i (rnRedis rn, rnCache rn) of
           (_, Some err) \<Rightarrow> sendAllocateRoomIdError E c i (''Failed to pre-register room: '' @ err) rn
         | ((S, C), None) \<Rightarrow>
             sendResponse E c i (AllocateRoomIdAck room ALLOCATE_ROOM_ID_SUCCESS ''Room ID allocated successfully'') (rn\<lparr>rnRedis := S, rnCache := C\<rparr>))"

definition handleCreateRoom :: "'g router_env \<Rightarrow> router_call \<Rightarrow> string \<Rightarrow> envelope \<Rightarrow> 'g raction" where
  "handleCreateRoom E c i e = withInfo E c e (sendCreateRoomError E c i) (\<lambda>_ room rn.
     case RegisterRoomMapping (clRegister c) (clRest c) (ucast room) i (rnRedis rn, rnCache rn) of
       (_, Some err) \<Rightarrow> sendCreateRoomError E c i (''Failed to register room mapping: '' @ err) rn
     | ((S, C), None) \<Rightarrow>
         quietly (persistMessage E c e (rn\<lparr>rnRedis := S, rnCache := C\<rparr>))
           (sendResponse E c i (CreateRoomAck (ucast room) CREATE_ROOM_SUCCESS ''Room created successfully'' (getRouterAddresses E))))"

text \<open>The node of a user that joins is added to the room unless it is there.\<close>

definition joinNode :: "router_call \<Rightarrow> u64 \<Rightarrow> string \<Rightarrow> string list \<Rightarrow> room_redis \<times> room_cache \<Rightarrow> (room_redis \<times> room_cache) \<times> string option" where
  "joinNode c room i ids SC = (if i \<in> set ids then (SC, None) else AddRoomNode (clRegister c) (clRest c) room i SC)"

definition handleJoinRoom :: "'g router_env \<Rightarrow> router_call \<Rightarrow> string \<Rightarrow> envelope \<Rightarrow> 'g raction" where
  "handleJoinRoom E c i e = withInfo E c e (sendJoinRoomError E c i) (\<lambda>user room rn.
     case GetRoomNodes (clGet c) (clMembers c) (ucast room) (rnRedis rn, rnCache rn) of
       (_, Inl err) \<Rightarrow> sendJoinRoomError E c i (''Failed to get room nodes: '' @ err) rn
     | ((S, C), Inr ids) \<Rightarrow>
         (case joinNode c (ucast room) i ids (S, C) of
            (_, Some err) \<Rightarrow> sendJoinRoomError E c i (''Failed to add room node: '' @ err) (rn\<lparr>rnRedis := S, rnCache := C\<rparr>)
          | ((S1, C1), None) \<Rightarrow>
              quietly (persistMessage E c e (rn\<lparr>rnRedis := S1, rnCache := C1\<rparr>)) (\<lambda>rn1.
                quietly (broadcastToRoom E c (ucast room) (chatText (''User '' @ dec_string (unat user) @ '' joined the room'')) (Some i) rn1)
                  (sendResponse E c i (JoinRoomAck (ucast room) JOIN_ROOM_SUCCESS ''Joined room successfully'' None (getRouterAddresses E))))))"

definition checkAndCleanupEmptyRoom :: "u64 \<Rightarrow> string \<Rightarrow> 'g router_node \<Rightarrow> 'g router_node" where
  "checkAndCleanupEmptyRoom room i rn = rn"

definition handleLeaveRoom :: "'g router_env \<Rightarrow> router_call \<Rightarrow> string \<Rightarrow> envelope \<Rightarrow> 'g raction" where
  "handleLeaveRoom E c i e = withInfo E c e (sendLeaveRoomError E c i) (\<lambda>user room rn.
     quietly (broadcastToRoom E c (ucast room) (chatText (''User '' @ dec_string (unat user) @ '' left the room'')) (Some i) rn) (\<lambda>rn1.
       quietly (persistMessage E c e (checkAndCleanupEmptyRoom (ucast room) i rn1))
         (sendResponse E c i (LeaveRoomAck (ucast room) LEAVE_ROOM_SUCCESS ''Left room successfully''))))"

definition handleCloseRoom :: "'g router_env \<Rightarrow> router_call \<Rightarrow> string \<Rightarrow> envelope \<Rightarrow> 'g raction" where
  "handleCloseRoom E c i e = withInfo E c e (sendCloseRoomError E c i) (\<lambda>_ room rn.
     quietly (broadcastToRoom E c (ucast room) (chatText ''Room has been closed by the creator'') None rn) (\<lambda>rn1.
       case RemoveRoomMapping (clGetRemove c) (clDelete c) (clRest c) (clMembers c) (ucast room) (rnRedis rn1, rnCache rn1) of
         ((S, C), _) \<Rightarrow>
           quietly (persistMessage E c e (rn1\<lparr>rnRedis := S, rnCache := C\<rparr>))
             (sendResponse E c i (CloseRoomAck (ucast room) CLOSE_ROOM_SUCCESS ''Room closed successfully''))))"

definition handleChatMessage :: "'g router_env \<Rightarrow> router_call \<Rightarrow> string \<Rightarrow> envelope \<Rightarrow> 'g raction" where
  "handleChatMessage E c i e = withInfo E c e (sendChatMessageError E c i) (\<lambda>_ room rn.
     quietly (persistMessage E c e rn) (\<lambda>rn1.
       case BroadcastToRoom E c (ucast room) e (Some i) rn1 of
         Panic \<Rightarrow> Panic
       | Ret (rn2, Some err) \<Rightarrow> sendChatMessageError E c i (''Failed to broadcast message: '' @ rvErrorText E err) rn2
       | Ret (rn2, None) \<Rightarrow>
           sendResponse E c i (ChatMessageAck (ucast room) CHAT_MESSAGE_SUCCESS ''Message delivered'') (rn2\<lparr>mrForwarded := mrForwarded rn2 + 1\<rparr>)))"

text \<open>Both fetch requests go to a message center; \<open>fail\<close> answers when that does not work.\<close>

definition forwardFetch :: "'g router_env \<Rightarrow> router_call \<Rightarrow> envelope \<Rightarrow> (string \<Rightarrow> 'g raction) \<Rightarrow> 'g raction" where
  "forwardFetch E c e fail rn =
     (case SelectMessageCenter (clCenters c) (clNow c) (nodeMgr rn) (balancer rn) of
        Panic \<Rightarrow> Panic
      | Ret (lb, None) \<Rightarrow> fail ''No available message center'' (rn\<lparr>balancer := lb\<rparr>)
      | Ret (lb, Some m) \<Rightarrow>
          (case forwardToMessageCenter E c (GetID (nodeConn m)) e (rn\<lparr>balancer := lb\<rparr>) of
             Panic \<Rightarrow> Panic
           | Ret (rn1, Some err) \<Rightarrow> fail (''Failed to forward request: '' @ rvErrorText E err) rn1
           | Ret (rn1, None) \<Rightarrow> Ret (rn1, None)))"

definition handleMessageFetchRequest :: "'g router_env \<Rightarrow> router_call \<Rightarrow> string \<Rightarrow> envelope \<Rightarrow> 'g raction" where
  "handleMessageFetchRequest E c i e = forwardFetch E c e (sendMessageFetchError E c i e)"

definition handleRoomMessageFetchRequest :: "'g router_env \<Rightarrow> router_call \<Rightarrow> string \<Rightarrow> envelope \<Rightarrow> 'g raction" where
  "handleRoomMessageFetchRequest E c i e = forwardFetch E c e (sendRoomMessageFetchError E c i)"

definition handleHeartbeat :: "'g router_env \<Rightarrow> router_call \<Rightarrow> string \<Rightarrow> u64 \<Rightarrow> 'g raction" where
  "handleHeartbeat E c i ts rn =
     sendResponse E c i (HeartbeatAck ts (word_of_int (clMillis c))) (rtNode c (UpdateHeartbeat (clNow c)) i rn)"

definition handleACKMessage :: "'g router_env \<Rightarrow> envelope \<Rightarrow> 'g raction" where
  "handleACKMessage E e rn = Ret (if rvReliable E then fst (HandleACK e rn) else rn, None)"

definition RouteMessage :: "'g router_env \<Rightarrow> router_call \<Rightarrow> string \<Rightarrow> envelope \<Rightarrow> 'g raction" where
  "RouteMessage E c i e rn0 =
     (let (mc, t) = ClassifyMessage (rnClassifier rn0) (Some e);
          rn1 = rn0\<lparr>mrRouted := mrRouted rn0 + 1, rnClassifier := mc\<rparr>;
          rn2 = (if t = MessageTypeChatMessage then rn1\<lparr>mrChat := mrChat rn1 + 1\<rparr>
                 else if t = MessageTypeSystemMessage then rn1\<lparr>mrSystem := mrSystem rn1 + 1\<rparr> else rn1);
          rn = rtNode c (UpdateActivity (clNow c)) i rn2
      in case Message e of
           Some AllocateRoomId \<Rightarrow> handleAllocateRoomId E c i rn
         | Some (CreateRoom _) \<Rightarrow> handleCreateRoom E c i e rn
         | Some (JoinRoom _) \<Rightarrow> handleJoinRoom E c i e rn
         | Some LeaveRoom \<Rightarrow> handleLeaveRoom E c i e rn
         | Some CloseRoom \<Rightarrow> handleCloseRoom E c i e rn
         | Some (ChatMessage _) \<Rightarrow> handleChatMessage E c i e rn
         | Some (MessageFetchRequest _) \<Rightarrow> handleMessageFetchRequest E c i e rn
         | Some (RoomMessageFetchRequest _) \<Rightarrow> handleRoomMessageFetchRequest E c i e rn
         | Some (Heartbeat ts) \<Rightarrow> handleHeartbeat E c i ts rn
         | None \<Rightarrow> Ret (rn\<lparr>mrErrors := mrErrors rn + 1\<rparr>, Some RtUnsupported)
         | _ \<Rightarrow> handleACKMessage E e rn)"

section \<open>The server: events\<close>

definition HandleMessage :: "'g router_env \<Rightarrow> router_call \<Rightarrow> string \<Rightarrow> bytes \<Rightarrow> 'g raction" where
  "HandleMessage E c i data rn =
     (case Deserialize (rvUnmarshal E) (clMillis c) data of
        Inl err \<Rightarrow> Ret (rn, Some (RtDeserialize err))
      | Inr e \<Rightarrow> RouteMessage E c i e (rn\<lparr>rsReceived := rsReceived rn + 1\<rparr>))"

definition generateConnectionID :: "int \<Rightarrow> string \<Rightarrow> string" where
  "generateConnectionID now addr = ''router_'' @ addr @ ''_'' @ dec_string (nat now)"

definition OnConnectionAccepted :: "int \<Rightarrow> nat \<Rightarrow> string \<Rightarrow> 'g router_node \<Rightarrow> 'g router_node outcome" where
  "OnConnectionAccepted now cx addr rn =
     (case RegisterConnectionNode now (nodeMgr rn) (generateConnectionID now addr) (Some cx) addr 0 of
        Panic \<Rightarrow> Panic
      | Ret (nm, _) \<Rightarrow> Ret (rn\<lparr>nodeMgr := nm, rsTotalConnections := rsTotalConnections rn + 1,
          rsActiveConnections := rsActiveConnections rn + 1, rsConnectionNodes := rsConnectionNodes rn + 1\<rparr>))"

definition OnConnectionClosed :: "(nodes \<Rightarrow> nodes) \<Rightarrow> nat \<Rightarrow> 'g router_node \<Rightarrow> 'g router_node outcome" where
  "OnConnectionClosed ord cx rn =
     (case FindByConnection ord (nodeMgr rn) (Some cx) of
        None \<Rightarrow> Ret rn
      | Some nc \<Rightarrow>
          (case UnregisterConnectionNode (nodeMgr rn) (GetID nc) of
             Panic \<Rightarrow> Panic
           | Ret (nm, _) \<Rightarrow> Ret (rn\<lparr>nodeMgr := nm, rsActiveConnections := rsActiveConnections rn - 1,
               rsConnectionNodes := rsConnectionNodes rn - 1\<rparr>)))"

definition OnMessageReceived :: "'g router_env \<Rightarrow> router_call \<Rightarrow> (nodes \<Rightarrow> nodes) \<Rightarrow> nat \<Rightarrow> bytes \<Rightarrow> 'g raction" where
  "OnMessageReceived E c ord cx data rn =
     (case FindByConnection ord (nodeMgr rn) (Some cx) of
        None \<Rightarrow> Ret (rn, Some RtUnknownConnection)
      | Some nc \<Rightarrow> HandleMessage E c (GetID nc) data rn)"

definition performHealthCheck :: "(nodes \<Rightarrow> nodes) \<Rightarrow> int \<Rightarrow> 'g router_node \<Rightarrow> 'g router_node outcome" where
  "performHealthCheck ord now rn =
     (case CleanupUnhealthyNodes now (CheckMessageCenterHealth now (CheckConnectionNodeHealth now (nodeMgr rn))) of
        Panic \<Rightarrow> Panic
      | Ret nm \<Rightarrow> Ret (rn\<lparr>nodeMgr := nm, balancer := UpdateNodeHealth ord now nm (balancer rn)\<rparr>))"

text \<open>\<open>rooms\<close> is the number of rooms that a scan of Redis finds.\<close>

definition performHeartbeat :: "(u64 \<Rightarrow> bytes option) \<Rightarrow> (u64 \<Rightarrow> bytes option) \<Rightarrow> nat \<Rightarrow> 'g router_node \<Rightarrow> 'g router_node outcome" where
  "performHeartbeat beat beat' rooms rn =
     (case SendHeartbeatToConnectionNodes beat (nodeMgr rn) of
        Panic \<Rightarrow> Panic
      | Ret nm \<Rightarrow>
          (case SendHeartbeatToMessageCenters beat' nm of
             Panic \<Rightarrow> Panic
           | Ret nm' \<Rightarrow> Ret (rn\<lparr>nodeMgr := nm', rsConnectionNodes := of_nat (GetConnectionNodeCount nm'),
               rsMessageCenters := of_nat (GetMessageCenterCount nm'), rsActiveRooms := of_nat rooms\<rparr>)))"

end
