(* ===== verification/RouterNodeCorrect.thy ===== *)
theory RouterNodeCorrect
  imports RouterNode
begin

text \<open>
  What a router does with everything that reaches it, one event after the other: it does not panic (when it selects by
  load; by turns it can, see \<open>LoadBalancer\<close>), it keeps the maps of its node manager in order, and a broadcast reaches the nodes of the
  room that the mapping names.
\<close>

section \<open>Invariant\<close>

definition rt_ok :: "'a router_state_scheme \<Rightarrow> bool" where
  "rt_ok rn \<longleftrightarrow> (\<exists>k. nm_ok (nodeMgr rn) k) \<and> strategy (balancer rn) = ''least_connections''"

text \<open>An action returns, and the invariant holds again.\<close>

definition fine :: "('a router_state_scheme \<times> 'e option) outcome \<Rightarrow> bool" where
  "fine r \<longleftrightarrow> (\<exists>rn e. r = Ret (rn, e) \<and> rt_ok rn)"

definition safe :: "('a router_state_scheme \<Rightarrow> ('a router_state_scheme \<times> 'e option) outcome) \<Rightarrow> bool" where
  "safe act \<longleftrightarrow> (\<forall>rn. rt_ok rn \<longrightarrow> fine (act rn))"

lemma fine_Ret [simp]: "fine (Ret (rn, e)) = rt_ok rn"
  by (simp add: fine_def)

lemma safeI: "(\<And>rn. rt_ok rn \<Longrightarrow> fine (act rn)) \<Longrightarrow> safe act"
  by (simp add: safe_def)

lemma safeD: "safe act \<Longrightarrow> rt_ok rn \<Longrightarrow> fine (act rn)"
  by (simp add: safe_def)

lemma safeE:
  assumes "safe act" "rt_ok rn"
  obtains rn' e where "act rn = Ret (rn', e)" "rt_ok rn'"
  using assms by (auto simp: safe_def fine_def)

lemma rt_ok_cong: "rt_ok rn \<Longrightarrow> nodeMgr rn' = nodeMgr rn \<Longrightarrow> balancer rn' = balancer rn \<Longrightarrow> rt_ok rn'"
  by (simp add: rt_ok_def)

lemma rt_ok_upd [simp]:
  "rt_ok (rn\<lparr>relPending := a1\<rparr>) = rt_ok rn" "rt_ok (rn\<lparr>relRetries := a2\<rparr>) = rt_ok rn" "rt_ok (rn\<lparr>relFetches := a3\<rparr>) = rt_ok rn"
  "rt_ok (rn\<lparr>relFailed := a4\<rparr>) = rt_ok rn" "rt_ok (rn\<lparr>relConfirmed := a5\<rparr>) = rt_ok rn" "rt_ok (rn\<lparr>rsDropped := a6\<rparr>) = rt_ok rn"
  "rt_ok (rn\<lparr>rsPersisted := a7\<rparr>) = rt_ok rn"
  by (simp_all add: rt_ok_def)

lemma rt_ok_upd_node [simp]:
  "rt_ok (n\<lparr>rnRedis := b1\<rparr>) = rt_ok n" "rt_ok (n\<lparr>rnCache := b2\<rparr>) = rt_ok n" "rt_ok (n\<lparr>rnClassifier := b3\<rparr>) = rt_ok n"
  "rt_ok (n\<lparr>rnSeq := b4\<rparr>) = rt_ok n" "rt_ok (n\<lparr>rnIDs := b5\<rparr>) = rt_ok n" "rt_ok (n\<lparr>rsReceived := b6\<rparr>) = rt_ok n"
  "rt_ok (n\<lparr>rsRouted := b7\<rparr>) = rt_ok n" "rt_ok (n\<lparr>rsTotalConnections := b8\<rparr>) = rt_ok n"
  "rt_ok (n\<lparr>rsActiveConnections := b9\<rparr>) = rt_ok n" "rt_ok (n\<lparr>rsConnectionNodes := b10\<rparr>) = rt_ok n"
  "rt_ok (n\<lparr>mrRouted := c1\<rparr>) = rt_ok n" "rt_ok (n\<lparr>mrForwarded := c2\<rparr>) = rt_ok n" "rt_ok (n\<lparr>mrPersisted := c3\<rparr>) = rt_ok n"
  "rt_ok (n\<lparr>mrDropped := c4\<rparr>) = rt_ok n" "rt_ok (n\<lparr>mrErrors := c5\<rparr>) = rt_ok n" "rt_ok (n\<lparr>mrChat := c6\<rparr>) = rt_ok n"
  "rt_ok (n\<lparr>mrSystem := c7\<rparr>) = rt_ok n" "rt_ok (n\<lparr>rsMessageCenters := c8\<rparr>) = rt_ok n" "rt_ok (n\<lparr>rsActiveRooms := c9\<rparr>) = rt_ok n"
  by (simp_all add: rt_ok_def)

lemma rt_ok_mgr: "rt_ok rn \<Longrightarrow> nm_ok nm k \<Longrightarrow> rt_ok (rn\<lparr>nodeMgr := nm\<rparr>)"
  by (auto simp: rt_ok_def)

lemma rt_ok_lb: "rt_ok rn \<Longrightarrow> strategy lb = ''least_connections'' \<Longrightarrow> rt_ok (rn\<lparr>balancer := lb\<rparr>)"
  by (simp add: rt_ok_def)

section \<open>Sending\<close>

lemma nodes_ok_put:
  assumes "nodes_ok xs" "map_of xs i = Some nc" "nodeID nc' = nodeID nc" "chan_ok nc'"
  shows "nodes_ok (AList.update i nc' xs) \<and> length (AList.update i nc' xs) = length xs"
  using nodes_okD [OF assms(1,2)] nodes_ok_update [OF assms(1), of nc' i] update_length_old [of xs i nc'] assms by simp

lemma centers_ok_put:
  assumes "centers_ok xs" "map_of xs i = Some c" "nodeID (nodeConn c') = nodeID (nodeConn c)" "chan_ok (nodeConn c')"
  shows "centers_ok (AList.update i c' xs) \<and> length (AList.update i c' xs) = length xs \<and>
    fst ` set (AList.update i c' xs) = fst ` set xs"
proof -
  have "i \<in> fst ` set xs" using assms(2) by (force dest: map_of_SomeD)
  then have "fst ` set (AList.update i c' xs) = fst ` set xs" by (simp add: AList.dom_update insert_absorb)
  then show ?thesis
    using centers_okD [OF assms(1,2)] centers_ok_update [OF assms(1), of c' i] update_length_old [of xs i c'] assms by simp
qed

lemma sendEntry_ok:
  assumes "nm_ok nm k"
  shows "\<exists>nm' e. sendEntry d i nm = Ret (nm', e) \<and> nm_ok nm' k"
proof (cases "map_of (connectionNodes nm) i")
  case (Some nc)
  have n: "nodes_ok (connectionNodes nm)" using assms by (simp add: nm_ok_def)
  obtain nc' e where s: "Send d nc = Ret (nc', e)" "chan_ok nc'" "nodeID nc' = nodeID nc"
    using Send_ok nodes_okD [OF n Some] by blast
  show ?thesis using nodes_ok_put [OF n Some s(3,2)] assms s(1) Some by (simp add: sendEntry_def nm_ok_def)
qed (use assms in \<open>simp add: sendEntry_def\<close>)

lemma sendCenter_ok:
  assumes "nm_ok nm k"
  shows "\<exists>nm' e. sendCenter d i nm = Ret (nm', e) \<and> nm_ok nm' k"
proof (cases "map_of (messageCenters nm) i")
  case (Some c)
  have n: "centers_ok (messageCenters nm)" using assms by (simp add: nm_ok_def)
  obtain nc' e where s: "Send d (nodeConn c) = Ret (nc', e)" "chan_ok nc'" "nodeID nc' = nodeID (nodeConn c)"
    using Send_ok centers_okD [OF n Some] by blast
  show ?thesis using centers_ok_put [OF n Some, of "c\<lparr>nodeConn := nc'\<rparr>"] assms s Some by (simp add: sendCenter_def nm_ok_def)
qed (use assms in \<open>simp add: sendCenter_def\<close>)

lemma SendSync_keeps: "chan_ok nc \<Longrightarrow> SendSync w d nc = (nc', e, ds) \<Longrightarrow> chan_ok nc' \<and> nodeID nc' = nodeID nc"
  using SendSync_frame [of w d nc] SendSync_nodeID [of w d nc] by (simp add: chan_ok_def)

lemma syncEntry_ok:
  assumes "nm_ok nm k" "syncEntry w d kind i nm = (nm', e)"
  shows "nm_ok nm' k"
proof (cases kind)
  case ToNode
  show ?thesis
  proof (cases "map_of (connectionNodes nm) i")
    case (Some nc)
    have n: "nodes_ok (connectionNodes nm)" using assms by (simp add: nm_ok_def)
    obtain nc' e' ds where s: "SendSync w d nc = (nc', e', ds)" by (rule prod_cases3)
    then have k: "chan_ok nc'" "nodeID nc' = nodeID nc" using SendSync_keeps [OF _ s] nodes_okD [OF n Some] by simp_all
    have "nm' = nm\<lparr>connectionNodes := AList.update i nc' (connectionNodes nm)\<rparr>" using assms(2) ToNode Some s by (simp add: syncEntry_def)
    then show ?thesis using nodes_ok_put [OF n Some k(2,1)] assms(1) by (simp add: nm_ok_def)
  qed (use assms ToNode in \<open>simp add: syncEntry_def\<close>)
next
  case ToCenter
  show ?thesis
  proof (cases "map_of (messageCenters nm) i")
    case (Some c)
    have n: "centers_ok (messageCenters nm)" using assms by (simp add: nm_ok_def)
    obtain nc' e' ds where s: "SendSync w d (nodeConn c) = (nc', e', ds)" by (rule prod_cases3)
    then have k: "chan_ok nc'" "nodeID nc' = nodeID (nodeConn c)" using SendSync_keeps [OF _ s] centers_okD [OF n Some] by simp_all
    have "nm' = nm\<lparr>messageCenters := AList.update i (c\<lparr>nodeConn := nc'\<rparr>) (messageCenters nm)\<rparr>"
      using assms(2) ToCenter Some s by (simp add: syncEntry_def)
    then show ?thesis using centers_ok_put [OF n Some, of "c\<lparr>nodeConn := nc'\<rparr>"] k assms(1) by (simp add: nm_ok_def)
  qed (use assms ToCenter in \<open>simp add: syncEntry_def\<close>)
qed

lemma syncTarget_ok: "nm_ok nm k \<Longrightarrow> syncTarget same w p nm = (nm', e) \<Longrightarrow> nm_ok nm' k"
  by (auto simp: syncTarget_def dest: syncEntry_ok split: if_splits)

lemma rt_ok_syncTarget: "rt_ok rn \<Longrightarrow> syncTarget same w p (nodeMgr rn) = (nm, e) \<Longrightarrow> rt_ok (rn\<lparr>nodeMgr := nm\<rparr>)"
  unfolding rt_ok_def by (auto dest: syncTarget_ok)

lemma rt_ok_sendEntry: "rt_ok rn \<Longrightarrow> \<exists>nm e. sendEntry d i (nodeMgr rn) = Ret (nm, e) \<and> rt_ok (rn\<lparr>nodeMgr := nm\<rparr>)"
  unfolding rt_ok_def using sendEntry_ok by fastforce

lemma rt_ok_sendCenter: "rt_ok rn \<Longrightarrow> \<exists>nm e. sendCenter d i (nodeMgr rn) = Ret (nm, e) \<and> rt_ok (rn\<lparr>nodeMgr := nm\<rparr>)"
  unfolding rt_ok_def using sendCenter_ok by fastforce

lemma rt_ok_put [simp]: "rt_ok (putRel k p rn) = rt_ok rn"
  by (simp add: putRel_def)

lemma rt_ok_remove [simp]: "rt_ok (fst (removePendingMessage k rn)) = rt_ok rn"
  by (simp add: removePendingMessage_def)

lemma rt_ok_sendReliable: "rt_ok rn \<Longrightarrow> rt_ok (fst (sendReliable w now data kind i e rn))"
proof (cases data)
  case (Inr d)
  assume ok: "rt_ok rn"
  let ?p = "\<lparr>rpID = MessageId e, rpData = d, rpKind = kind, rpTarget = i, rpSentTime = now, rpRetries = 0, rpTimer = NoTimer\<rparr>"
  let ?rs = "putRel (getMessageKey e) ?p rn"
  obtain nm err where t: "syncTarget True w ?p (nodeMgr ?rs) = (nm, err)" by (rule prod.exhaust)
  have "rt_ok (?rs\<lparr>nodeMgr := nm\<rparr>)" by (rule rt_ok_syncTarget [OF _ t]) (simp add: ok)
  then show ?thesis using Inr t by (cases err) (simp_all add: sendReliable_def Let_def)
qed (simp add: sendReliable_def)

lemma rt_ok_failure: "rt_ok (handleMessageFailure k rn) = rt_ok rn"
  by (cases "map_of (relPending rn) k") (simp_all add: handleMessageFailure_def removePendingMessage_def)

lemma rt_ok_setTimer: "rt_ok (setTimer t k rn) = rt_ok rn"
  by (simp add: setTimer_def split: option.split)

lemma rt_ok_HandleACK: "rt_ok (fst (HandleACK e rn)) = rt_ok rn"
  by (auto simp: HandleACK_def removePendingMessage_def split: option.splits)

lemma rt_ok_fetched: "rt_ok (HandleFetchResponse e rn) = rt_ok rn"
  by (auto simp: HandleFetchResponse_def handleMessageFetchResponse_def removePendingMessage_def rt_ok_failure Let_def
      split: option.splits message.splits)

section \<open>Selecting a message center\<close>

lemma select_ok:
  assumes "rt_ok rn"
  shows "\<exists>lb c. SelectMessageCenter ord now (nodeMgr rn) (balancer rn) = Ret (lb, c) \<and> strategy lb = ''least_connections''"
  using assms by (auto simp: rt_ok_def SelectMessageCenter_def Let_def)

lemma rt_ok_toCenter:
  assumes "rt_ok rn"
  shows "\<exists>rn' e. sendMessageToCenterSync data i rn = Ret (rn', e) \<and> rt_ok rn'"
proof (cases data)
  case (Inr d)
  obtain nm e where s: "sendCenter d i (nodeMgr rn) = Ret (nm, e)" "rt_ok (rn\<lparr>nodeMgr := nm\<rparr>)" using rt_ok_sendCenter [OF assms] by blast
  show ?thesis using Inr s by (cases e) (simp_all add: sendMessageToCenterSync_def)
qed (use assms in \<open>simp add: sendMessageToCenterSync_def\<close>)

lemma rt_ok_fetch:
  assumes "rt_ok rn"
  shows "\<exists>rn'. attemptFetchConfirmation E k rn = Ret rn' \<and> rt_ok rn'"
proof -
  let ?rn = "rn\<lparr>relFetches := relFetches rn + 1\<rparr>"
  have ok: "rt_ok ?rn" using assms by simp
  obtain lb c where s: "SelectMessageCenter (reCenterOrd E) (reNow E) (nodeMgr ?rn) (balancer ?rn) = Ret (lb, c)"
    "strategy lb = ''least_connections''" using select_ok [OF ok] by blast
  have ok1: "rt_ok (?rn\<lparr>balancer := lb\<rparr>)" by (rule rt_ok_lb [OF ok s(2)])
  show ?thesis
  proof (cases c)
    case None
    then have "attemptFetchConfirmation E k rn = Ret (handleMessageFailure k (?rn\<lparr>balancer := lb\<rparr>))"
      using s(1) by (simp add: attemptFetchConfirmation_def Let_def)
    then show ?thesis using ok1 rt_ok_failure by blast
  next
    case (Some m)
    obtain rn2 e where t: "sendMessageToCenterSync (reFetch E) (GetID (nodeConn m)) (?rn\<lparr>balancer := lb\<rparr>) = Ret (rn2, e)" "rt_ok rn2"
      using rt_ok_toCenter [OF ok1] by blast
    then show ?thesis using s(1) Some
      by (cases e) (simp_all add: attemptFetchConfirmation_def Let_def rt_ok_failure rt_ok_setTimer)
  qed
qed

lemma rt_ok_switch: "rt_ok rn \<Longrightarrow> rt_ok (fst (switchNodes ws same k is p rn))"
proof (induction "is" arbitrary: same p rn)
  case (Cons i "is")
  show ?case
  proof (cases "same \<and> i = rpTarget p")
    case False
    obtain nm e where t: "syncTarget True (ws i) (p\<lparr>rpTarget := i\<rparr>) (nodeMgr rn) = (nm, e)" by (rule prod.exhaust)
    have ok: "rt_ok (rn\<lparr>nodeMgr := nm\<rparr>)" by (rule rt_ok_syncTarget [OF Cons.prems t])
    show ?thesis using False t Cons.IH [OF ok] ok by (cases e) (auto simp: Let_def)
  qed (use Cons in simp)
qed simp

lemma rt_ok_fire:
  assumes ok: "rt_ok rn"
  shows "\<exists>rn'. fire E k rn = Ret rn' \<and> rt_ok rn'"
proof -
  have "\<exists>rn'. handleMessageTimeout E k rn = Ret rn' \<and> rt_ok rn'"
  proof (cases "map_of (relPending rn) k")
    case None
    then show ?thesis using ok by (simp add: handleMessageTimeout_def)
  next
    case (Some p0)
    let ?p = "p0\<lparr>rpRetries := rpRetries p0 + 1\<rparr>"
    let ?rn1 = "(putRel k ?p rn)\<lparr>relRetries := relRetries rn + 1\<rparr>"
    have ok1: "rt_ok ?rn1" using ok by simp
    show ?thesis
    proof (cases "rpRetries ?p \<le> relMaxRetries rn")
      case False
      then have "handleMessageTimeout E k rn = attemptFetchConfirmation E k ?rn1" using Some by (simp add: handleMessageTimeout_def Let_def)
      then show ?thesis using rt_ok_fetch [OF ok1, of E k] by simp
    next
      case True
      obtain nm e where t: "syncTarget (reSame E) (reWrite E) ?p (nodeMgr ?rn1) = (nm, e)" by (rule prod.exhaust)
      have ok2: "rt_ok (?rn1\<lparr>nodeMgr := nm\<rparr>)" by (rule rt_ok_syncTarget [OF ok1 t])
      obtain rn2 b where a: "attemptNodeSwitch E k ?p (?rn1\<lparr>nodeMgr := nm\<rparr>) = (rn2, b)" by (rule prod.exhaust)
      have "rt_ok (fst (attemptNodeSwitch E k ?p (?rn1\<lparr>nodeMgr := nm\<rparr>)))" unfolding attemptNodeSwitch_def
        by (cases "rpKind ?p") (simp_all add: rt_ok_switch ok2)
      then have ok3: "rt_ok rn2" by (simp add: a)
      have r: "handleMessageTimeout E k rn =
          (if e = None then Ret (putRel k (?p\<lparr>rpTimer := RetryTimer\<rparr>) (?rn1\<lparr>nodeMgr := nm\<rparr>))
           else if b then Ret rn2 else attemptFetchConfirmation E k rn2)"
        using Some True t a by (cases e) (auto simp: handleMessageTimeout_def Let_def split: bool.split)
      show ?thesis unfolding r using ok2 ok3 rt_ok_fetch [OF ok3, of E k] by simp
    qed
  qed
  then show ?thesis using ok
    by (auto simp: fire_def handleFetchTimeout_def rt_ok_failure split: option.split rel_timer.split)
qed

section \<open>The handlers\<close>

named_theorems safes

lemma safe_ret [safes]: "safe (\<lambda>rn. Ret (rn, e))"
  by (simp add: safe_def)

lemma safe_sync [safes]: "safe (sendMessageToNodeSync E c i e)"
proof (rule safeI)
  fix rn :: "'a router_node"
  assume ok: "rt_ok rn"
  show "fine (sendMessageToNodeSync E c i e rn)"
  proof (cases "Serialize (rvMarshal E) (clMillis c) (Some e)")
    case (Inr d)
    obtain nm err where s: "sendEntry d i (nodeMgr rn) = Ret (nm, err)" "rt_ok (rn\<lparr>nodeMgr := nm\<rparr>)" using rt_ok_sendEntry [OF ok] by blast
    then show ?thesis using Inr by (cases err) (simp_all add: sendMessageToNodeSync_def)
  qed (use ok in \<open>simp add: sendMessageToNodeSync_def\<close>)
qed

lemma rt_safe_response [safes]: "safe (sendResponse E c i msg)"
proof (rule safeI)
  fix rn :: "'a router_node"
  assume ok: "rt_ok rn"
  obtain rn1 e where r: "rtEnvelope E 0 msg rn = (rn1, e)" by (rule prod.exhaust)
  then have "rt_ok rn1" using ok by (auto simp: rtEnvelope_def split: prod.splits)
  from safeD [OF safe_sync this] show "fine (sendResponse E c i msg rn)"
    using r by (simp add: sendResponse_def)
qed

lemma safe_errors [safes]:
  "safe (sendAllocateRoomIdError E c i t)" "safe (sendCreateRoomError E c i t)" "safe (sendJoinRoomError E c i t)"
  "safe (sendLeaveRoomError E c i t)" "safe (sendCloseRoomError E c i t)" "safe (sendChatMessageError E c i t)"
  "safe (sendMessageFetchError E c i e t)" "safe (sendRoomMessageFetchError E c i t)"
  unfolding sendAllocateRoomIdError_def [abs_def] sendCreateRoomError_def [abs_def] sendJoinRoomError_def [abs_def]
    sendLeaveRoomError_def [abs_def] sendCloseRoomError_def [abs_def] sendChatMessageError_def [abs_def]
    sendMessageFetchError_def [abs_def] sendRoomMessageFetchError_def [abs_def]
  by (rule rt_safe_response)+

lemma nodeLoop_ok: "nm_ok nm k \<Longrightarrow> \<exists>nm' s p. nodeLoop d excl is nm = Ret (nm', s, p) \<and> nm_ok nm' k"
proof (induction "is" arbitrary: nm)
  case (Cons i "is")
  show ?case
  proof (cases "GetConnectionNode nm i")
    case None
    then show ?thesis using Cons by simp
  next
    case (Some nc)
    show ?thesis
    proof (cases "excl = Some (GetID nc)")
      case True
      then show ?thesis using Some Cons by simp
    next
      case False
      obtain nm1 e where s: "sendEntry d i nm = Ret (nm1, e)" "nm_ok nm1 k" using sendEntry_ok [OF Cons.prems] by blast
      from Cons.IH [OF s(2)] obtain nm2 n p where "nodeLoop d excl is nm1 = Ret (nm2, n, p)" "nm_ok nm2 k" by blast
      then show ?thesis using Some False s(1) by simp
    qed
  qed
qed simp

lemma safe_broadcast [safes]: "safe (BroadcastToRoom E c room e excl)"
proof (rule safeI)
  fix rn :: "'a router_node"
  assume ok: "rt_ok rn"
  obtain S C r where g: "GetRoomNodes (clBroadcast c) (clMembers c) room (rnRedis rn, rnCache rn) = ((S, C), r)"
    by (metis prod.exhaust)
  show "fine (BroadcastToRoom E c room e excl rn)"
  proof (cases r)
    case (Inr ids)
    let ?rn = "rn\<lparr>rnRedis := S, rnCache := C\<rparr>"
    obtain k where k: "nm_ok (nodeMgr ?rn) k" using ok by (auto simp: rt_ok_def)
    have l: "\<exists>nm n p. nodeLoop d excl ids (nodeMgr ?rn) = Ret (nm, n, p) \<and> rt_ok (?rn\<lparr>nodeMgr := nm\<rparr>)" for d
      using nodeLoop_ok [OF k, of d excl ids] ok rt_ok_mgr [of ?rn] by fastforce
    show ?thesis
    proof (cases "ids = []")
      case False
      show ?thesis
      proof (cases "Serialize (rvMarshal E) (clMillis c) (Some e)")
        case (Inr d)
        then show ?thesis using g \<open>r = _\<close> False l [of d] ok by (auto simp: BroadcastToRoom_def Let_def)
      qed (use g Inr False ok in \<open>simp add: BroadcastToRoom_def Let_def\<close>)
    qed (use g Inr ok in \<open>simp add: BroadcastToRoom_def Let_def\<close>)
  qed (use g ok in \<open>simp add: BroadcastToRoom_def\<close>)
qed

lemma safe_broadcastMessage [safes]: "safe (broadcastToRoom E c room msg excl)"
proof (rule safeI)
  fix rn :: "'a router_node"
  assume ok: "rt_ok rn"
  obtain rn1 e where r: "rtEnvelope E (ucast room) msg rn = (rn1, e)" by (rule prod.exhaust)
  then have "rt_ok rn1" using ok by (auto simp: rtEnvelope_def split: prod.splits)
  from safeD [OF safe_broadcast this] show "fine (broadcastToRoom E c room msg excl rn)"
    using r by (simp add: broadcastToRoom_def)
qed

lemma safe_serverPersist: "safe (server_PersistMessage E c e)"
proof (rule safeI)
  fix rn :: "'a router_node"
  assume ok: "rt_ok rn"
  obtain mc b where p: "ShouldPersistToKafka (rnClassifier rn) (Some e) = (mc, b)" by (rule prod.exhaust)
  let ?rn1 = "rn\<lparr>rnClassifier := mc\<rparr>"
  have ok1: "rt_ok ?rn1" using ok by simp
  obtain lb m where s: "SelectMessageCenter (clCenters c) (clNow c) (nodeMgr ?rn1) (balancer ?rn1) = Ret (lb, m)"
    "strategy lb = ''least_connections''" using select_ok [OF ok1] by blast
  have ok2: "rt_ok (rn\<lparr>balancer := lb\<rparr>)" "rt_ok (?rn1\<lparr>balancer := lb\<rparr>)" by (rule rt_ok_lb [OF ok s(2)], rule rt_ok_lb [OF ok1 s(2)])
  show "fine (server_PersistMessage E c e rn)"
  proof (cases "b \<and> m \<noteq> None")
    case False
    then show ?thesis using p s(1) ok1 ok2 by (cases b) (simp_all add: server_PersistMessage_def Let_def)
  next
    case True
    then obtain mm where m: "m = Some mm" by blast
    let ?rn2 = "?rn1\<lparr>balancer := lb, rnClassifier := fst (ClassifyMessage (rnClassifier ?rn1) (Some e))\<rparr>"
    let ?data = "Serialize (rvMarshal E) (clMillis c) (Some e)" and ?i = "GetID (nodeConn mm)"
    have ok3: "rt_ok ?rn2" using ok2 by simp
    obtain rn3 err where c3: "sendMessageToCenterSync ?data ?i ?rn2 = Ret (rn3, err)" "rt_ok rn3" using rt_ok_toCenter [OF ok3] by blast
    obtain rn4 err4 where c4: "SendReliableMessageToCenter (clWrite c) (clNow c) ?data ?i e ?rn2 = (rn4, err4)" by (rule prod.exhaust)
    have "rt_ok rn4" using rt_ok_sendReliable [OF ok3, of "clWrite c" "clNow c" ?data ToCenter ?i e] c4
      by (simp add: SendReliableMessageToCenter_def)
    then show ?thesis using True m p s(1) c3 c4 by (simp add: server_PersistMessage_def Let_def)
  qed
qed

lemma safe_persist [safes]: "safe (persistMessage E c e)"
proof (rule safeI)
  fix rn :: "'a router_node"
  assume ok: "rt_ok rn"
  obtain rn1 err where "server_PersistMessage E c e rn = Ret (rn1, err)" "rt_ok rn1" by (rule safeE [OF safe_serverPersist ok])
  then show "fine (persistMessage E c e rn)" by (cases err) (simp_all add: persistMessage_def)
qed

lemma safe_forward: "safe (forwardToMessageCenter E c i e)"
proof (rule safeI)
  fix rn :: "'a router_node"
  assume ok: "rt_ok rn"
  show "fine (forwardToMessageCenter E c i e rn)"
  proof (cases "Serialize (rvMarshal E) (clMillis c) (Some e)")
    case (Inr d)
    obtain nm err where s: "sendCenter d i (nodeMgr rn) = Ret (nm, err)" "rt_ok (rn\<lparr>nodeMgr := nm\<rparr>)" using rt_ok_sendCenter [OF ok] by blast
    then show ?thesis using Inr by (cases err) (simp_all add: forwardToMessageCenter_def)
  qed (use ok in \<open>simp add: forwardToMessageCenter_def\<close>)
qed

text \<open>Composition: an action whose result is only logged, and one that gets the state another leaves.\<close>

lemma fine_quietly:
  assumes "safe act" "rt_ok rn" "\<And>rn'. rt_ok rn' \<Longrightarrow> fine (k rn')"
  shows "fine (quietly (act rn) k)"
proof -
  obtain rn1 err where "act rn = Ret (rn1, err)" "rt_ok rn1" by (rule safeE [OF assms(1,2)])
  then show ?thesis using assms(3) by (simp add: quietly_def)
qed

lemma safe_withInfo: "(\<And>t. safe (fail t)) \<Longrightarrow> (\<And>user room. safe (k user room)) \<Longrightarrow> safe (withInfo E c e fail k)"
  by (rule safeI) (auto simp: withInfo_def intro: safeD split: sum.split prod.split)

lemma rt_ok_rtNode:
  assumes "rt_ok rn" "\<And>nc. chan_ok nc \<Longrightarrow> chan_ok (f nc) \<and> nodeID (f nc) = nodeID nc"
  shows "rt_ok (rtNode c f i rn)"
  using assms onNodeID_ok [of "nodeMgr rn" _ f i] by (auto simp: rtNode_def rt_ok_def)

lemma safe_allocate: "safe (handleAllocateRoomId E c i)"
  by (rule safeI) (auto simp: handleAllocateRoomId_def Let_def intro!: safes [THEN safeD] split: prod.split option.split)

lemma safe_create: "safe (handleCreateRoom E c i e)"
  unfolding handleCreateRoom_def [abs_def]
  by (intro safe_withInfo safes safeI) (auto intro!: fine_quietly safes [THEN safeD] safes split: prod.split option.split)

lemma safe_leave: "safe (handleLeaveRoom E c i e)"
  unfolding handleLeaveRoom_def [abs_def] checkAndCleanupEmptyRoom_def
  by (intro safe_withInfo safes safeI) (auto intro!: fine_quietly safes [THEN safeD] safes)

lemma safe_join: "safe (handleJoinRoom E c i e)"
  unfolding handleJoinRoom_def [abs_def]
  by (intro safe_withInfo safes safeI) (auto intro!: fine_quietly safes [THEN safeD] safes split: prod.split option.split sum.split)

lemma safe_close: "safe (handleCloseRoom E c i e)"
  unfolding handleCloseRoom_def [abs_def]
  by (intro safe_withInfo safes safeI) (auto intro!: fine_quietly safes [THEN safeD] safes split: prod.split)

lemma safe_chat: "safe (handleChatMessage E c i e)"
proof -
  have "safe (\<lambda>rn1. case BroadcastToRoom E c (ucast room) e (Some i) rn1 of
         Panic \<Rightarrow> Panic
       | Ret (rn2, Some err) \<Rightarrow> sendChatMessageError E c i (''Failed to broadcast message: '' @ rvErrorText E err) rn2
       | Ret (rn2, None) \<Rightarrow>
           sendResponse E c i (ChatMessageAck (ucast room) CHAT_MESSAGE_SUCCESS ''Message delivered'') (rn2\<lparr>mrForwarded := mrForwarded rn2 + 1\<rparr>))"
    for room :: u32
  proof (rule safeI)
    fix rn :: "'a router_node"
    assume "rt_ok rn"
    then obtain rn2 err where "BroadcastToRoom E c (ucast room) e (Some i) rn = Ret (rn2, err)" "rt_ok rn2"
      by (rule safeE [OF safe_broadcast])
    then show "fine (case BroadcastToRoom E c (ucast room) e (Some i) rn of
         Panic \<Rightarrow> Panic
       | Ret (rn2, Some err) \<Rightarrow> sendChatMessageError E c i (''Failed to broadcast message: '' @ rvErrorText E err) rn2
       | Ret (rn2, None) \<Rightarrow>
           sendResponse E c i (ChatMessageAck (ucast room) CHAT_MESSAGE_SUCCESS ''Message delivered'') (rn2\<lparr>mrForwarded := mrForwarded rn2 + 1\<rparr>))"
      by (cases err) (auto intro!: safes [THEN safeD])
  qed
  then show ?thesis unfolding handleChatMessage_def [abs_def]
    by (intro safe_withInfo safes safeI) (auto intro!: fine_quietly safes safes [THEN safeD] dest: safeD)
qed

lemma safe_fetch:
  assumes f: "\<And>t. safe (fail t)"
  shows "safe (forwardFetch E c e fail)"
proof (rule safeI)
  fix rn :: "'a router_node"
  assume ok: "rt_ok rn"
  obtain lb m where s: "SelectMessageCenter (clCenters c) (clNow c) (nodeMgr rn) (balancer rn) = Ret (lb, m)"
    "strategy lb = ''least_connections''" using select_ok [OF ok] by blast
  have ok1: "rt_ok (rn\<lparr>balancer := lb\<rparr>)" by (rule rt_ok_lb [OF ok s(2)])
  show "fine (forwardFetch E c e fail rn)"
  proof (cases m)
    case None
    then show ?thesis using s(1) safeD [OF f ok1] by (simp add: forwardFetch_def)
  next
    case (Some mm)
    obtain rn1 err where "forwardToMessageCenter E c (GetID (nodeConn mm)) e (rn\<lparr>balancer := lb\<rparr>) = Ret (rn1, err)" "rt_ok rn1"
      by (rule safeE [OF safe_forward ok1])
    then show ?thesis using s(1) Some safeD [OF f] by (cases err) (simp_all add: forwardFetch_def)
  qed
qed

lemma safe_fetches: "safe (handleMessageFetchRequest E c i e)" "safe (handleRoomMessageFetchRequest E c i e)"
  unfolding handleMessageFetchRequest_def handleRoomMessageFetchRequest_def by (intro safe_fetch safes)+

lemma safe_heartbeat: "safe (handleHeartbeat E c i ts)"
  by (rule safeI) (auto simp: handleHeartbeat_def intro!: safes [THEN safeD] rt_ok_rtNode simp: keeps_node(1))

lemma safe_ack: "safe (handleACKMessage E e)"
  by (rule safeI) (simp add: handleACKMessage_def rt_ok_HandleACK)

lemma keeps_activity: "chan_ok nc \<Longrightarrow> chan_ok (UpdateActivity now nc) \<and> nodeID (UpdateActivity now nc) = nodeID nc"
  by (simp add: UpdateActivity_def chan_ok_def)

lemmas safe_handlers = safe_allocate safe_create safe_join safe_leave safe_close safe_chat safe_fetches safe_heartbeat safe_ack

lemma safe_route: "safe (RouteMessage E c i e)"
proof (rule safeI)
  fix rn0 :: "'a router_node"
  assume ok: "rt_ok rn0"
  obtain mc t where m: "ClassifyMessage (rnClassifier rn0) (Some e) = (mc, t)" by (rule prod.exhaust)
  define rn where "rn = rtNode c (UpdateActivity (clNow c)) i
    (let rn1 = rn0\<lparr>mrRouted := mrRouted rn0 + 1, rnClassifier := mc\<rparr>
     in if t = MessageTypeChatMessage then rn1\<lparr>mrChat := mrChat rn1 + 1\<rparr>
        else if t = MessageTypeSystemMessage then rn1\<lparr>mrSystem := mrSystem rn1 + 1\<rparr> else rn1)"
  have ok1: "rt_ok rn" unfolding rn_def by (rule rt_ok_rtNode [OF _ keeps_activity]) (simp_all add: Let_def ok)
  note s = safe_handlers [THEN safeD, OF ok1]
  show "fine (RouteMessage E c i e rn0)"
  proof (cases "Message e")
    case None
    then show ?thesis using m ok1 by (simp add: RouteMessage_def Let_def flip: rn_def [unfolded Let_def])
  next
    case (Some msg)
    show ?thesis using m Some s
      by (cases msg) (simp_all add: RouteMessage_def Let_def flip: rn_def [unfolded Let_def])
  qed
qed

lemma rt_safe_HandleMessage: "safe (HandleMessage E c i data)"
  by (rule safeI) (auto simp: HandleMessage_def intro!: safe_route [THEN safeD] split: sum.split)

lemma safe_SendMessage: "safe (SendMessageToNode E c i e)"
proof (rule safeI)
  fix rn :: "'a router_node"
  assume ok: "rt_ok rn"
  let ?data = "Serialize (rvMarshal E) (clMillis c) (Some e)"
  obtain rn1 err where r: "SendReliableMessage (clWrite c) (clNow c) ?data i e rn = (rn1, err)" by (rule prod.exhaust)
  have "rt_ok rn1" using rt_ok_sendReliable [OF ok, of "clWrite c" "clNow c" ?data ToNode i e] r by (simp add: SendReliableMessage_def)
  then show "fine (SendMessageToNode E c i e rn)"
    using r ok safeD [OF safe_sync ok, of E c i e] by (auto simp: SendMessageToNode_def)
qed

section \<open>Runs of a router\<close>

text \<open>What happens to a router: events of the network, health checks, timers of messages, the fetch responses, the
  clean-up of pending messages, and what the goroutines of the node manager do (\<open>nm_op\<close>).\<close>

datatype rt_event =
    RtAccepted int nat string
  | RtClosed "nodes \<Rightarrow> nodes" nat
  | RtReceived router_call "nodes \<Rightarrow> nodes" nat bytes
  | RtSendTo router_call string envelope
  | RtHealth "nodes \<Rightarrow> nodes" int
  | RtHeartbeat "u64 \<Rightarrow> bytes option" "u64 \<Rightarrow> bytes option" nat
  | RtTimer rel_env string
  | RtFetched envelope
  | RtClean int
  | RtNodes int nm_op

definition finish :: "('a \<times> 'e) outcome \<Rightarrow> 'a outcome" where
  "finish r = (case r of Panic \<Rightarrow> Panic | Ret (x, _) \<Rightarrow> Ret x)"

fun rtStep :: "'g router_env \<Rightarrow> rt_event \<Rightarrow> 'g router_node \<Rightarrow> 'g router_node outcome" where
  "rtStep E (RtAccepted now cx addr) rn = OnConnectionAccepted now cx addr rn"
| "rtStep E (RtClosed ord cx) rn = OnConnectionClosed ord cx rn"
| "rtStep E (RtReceived c ord cx data) rn = finish (OnMessageReceived E c ord cx data rn)"
| "rtStep E (RtSendTo c i e) rn = finish (SendMessageToNode E c i e rn)"
| "rtStep E (RtHealth ord now) rn = performHealthCheck ord now rn"
| "rtStep E (RtHeartbeat b b' n) rn = performHeartbeat b b' n rn"
| "rtStep E (RtTimer re k) rn = fire re k rn"
| "rtStep E (RtFetched e) rn = Ret (HandleFetchResponse e rn)"
| "rtStep E (RtClean now) rn = Ret (cleanup now rn)"
| "rtStep E (RtNodes now op) rn = (case nmStep (nodeMgr rn) (now, op) of Panic \<Rightarrow> Panic | Ret nm \<Rightarrow> Ret (rn\<lparr>nodeMgr := nm\<rparr>))"

fun rtRun :: "'g router_env \<Rightarrow> rt_event list \<Rightarrow> 'g router_node \<Rightarrow> 'g router_node outcome" where
  "rtRun E [] rn = Ret rn"
| "rtRun E (x # xs) rn = (case rtStep E x rn of Panic \<Rightarrow> Panic | Ret rn' \<Rightarrow> rtRun E xs rn')"

lemma finish_fine: "fine r \<Longrightarrow> \<exists>rn. finish r = Ret rn \<and> rt_ok rn"
  by (auto simp: fine_def finish_def)

lemma rt_ok_step: "nmStep (nodeMgr rn) (now, x) = Ret nm \<Longrightarrow> rt_ok rn \<Longrightarrow> rt_ok (rn\<lparr>nodeMgr := nm\<rparr>)"
proof -
  assume s: "nmStep (nodeMgr rn) (now, x) = Ret nm" and ok: "rt_ok rn"
  obtain k where "nm_ok (nodeMgr rn) k" using ok by (auto simp: rt_ok_def)
  from nmStep_ok [OF this, of now x] s have "nm_ok nm (reregistered (nodeMgr rn) x k)" by simp
  then show ?thesis by (rule rt_ok_mgr [OF ok])
qed

lemma accepted_ok:
  assumes "rt_ok rn"
  shows "\<exists>rn'. OnConnectionAccepted now cx addr rn = Ret rn' \<and> rt_ok rn'"
proof -
  obtain k where "nm_ok (nodeMgr rn) k" using assms by (auto simp: rt_ok_def)
  from Register_ok [OF this] obtain nm nc k' where
    r: "RegisterConnectionNode now (nodeMgr rn) (generateConnectionID now addr) (Some cx) addr 0 = Ret (nm, nc)" "nm_ok nm k'" by blast
  have "rt_ok (rn\<lparr>nodeMgr := nm\<rparr>)" by (rule rt_ok_mgr [OF assms r(2)])
  then show ?thesis using r(1) by (simp add: OnConnectionAccepted_def)
qed

lemma closed_ok:
  assumes "rt_ok rn"
  shows "\<exists>rn'. OnConnectionClosed ord cx rn = Ret rn' \<and> rt_ok rn'"
proof (cases "FindByConnection ord (nodeMgr rn) (Some cx)")
  case (Some nc)
  obtain k where k: "nm_ok (nodeMgr rn) k" using assms by (auto simp: rt_ok_def)
  obtain nm where s: "nmStep (nodeMgr rn) (0, NmUnregister (GetID nc)) = Ret nm" using nmStep_ok [OF k] by blast
  then obtain e where "UnregisterConnectionNode (nodeMgr rn) (GetID nc) = Ret (nm, e)" by (auto split: outcome.splits)
  then show ?thesis using Some rt_ok_step [OF s assms] by (simp add: OnConnectionClosed_def)
qed (use assms in \<open>simp add: OnConnectionClosed_def\<close>)

lemma health_ok:
  assumes "rt_ok rn"
  shows "\<exists>rn'. performHealthCheck ord now rn = Ret rn' \<and> rt_ok rn'"
proof -
  obtain k where k: "nm_ok (nodeMgr rn) k" using assms by (auto simp: rt_ok_def)
  let ?nm = "CheckMessageCenterHealth now (CheckConnectionNodeHealth now (nodeMgr rn))"
  obtain nm where c: "CleanupUnhealthyNodes now ?nm = Ret nm" "nm_ok nm k"
    using nmStep_ok [OF check_ok [OF k], where now = now and x = NmCleanup] by auto
  have "strategy (UpdateNodeHealth ord now nm (balancer rn)) = strategy (balancer rn)"
    by (simp add: UpdateNodeHealth_def updateHashRing_def rebuildRing_def Let_def)
  then have "rt_ok (rn\<lparr>nodeMgr := nm, balancer := UpdateNodeHealth ord now nm (balancer rn)\<rparr>)" using assms c(2) by (auto simp: rt_ok_def)
  then show ?thesis using c(1) by (simp add: performHealthCheck_def)
qed

lemma heartbeat_ok:
  assumes "rt_ok rn"
  shows "\<exists>rn'. performHeartbeat b b' n rn = Ret rn' \<and> rt_ok rn'"
proof -
  obtain k where k: "nm_ok (nodeMgr rn) k" using assms by (auto simp: rt_ok_def)
  obtain nm where n: "SendHeartbeatToConnectionNodes b (nodeMgr rn) = Ret nm" "nm_ok nm k"
    using nmStep_ok [OF k, where now = 0 and x = "NmBeatNodes b"] by auto
  obtain nm' where n': "SendHeartbeatToMessageCenters b' nm = Ret nm'" "nm_ok nm' k"
    using nmStep_ok [OF n(2), where now = 0 and x = "NmBeatCenters b'"] by auto
  show ?thesis using rt_ok_mgr [OF assms n'(2)] n(1) n'(1) by (simp add: performHeartbeat_def)
qed

lemma rtStep_ok:
  assumes ok: "rt_ok rn"
  shows "\<exists>rn'. rtStep E x rn = Ret rn' \<and> rt_ok rn'"
proof (cases x)
  case (RtReceived c ord cx data)
  have "fine (OnMessageReceived E c ord cx data rn)"
    using safeD [OF rt_safe_HandleMessage ok] ok by (simp add: OnMessageReceived_def split: option.split)
  then show ?thesis using RtReceived finish_fine by simp
next
  case (RtSendTo c i e)
  then show ?thesis using finish_fine [OF safeD [OF safe_SendMessage ok]] by simp
next
  case (RtNodes now op)
  obtain k where k: "nm_ok (nodeMgr rn) k" using ok by (auto simp: rt_ok_def)
  obtain nm where s: "nmStep (nodeMgr rn) (now, op) = Ret nm" using nmStep_ok [OF k] by blast
  then show ?thesis using RtNodes rt_ok_step [OF s ok] by simp
qed (use ok accepted_ok closed_ok health_ok heartbeat_ok rt_ok_fire in \<open>simp_all add: cleanup_def rt_ok_fetched\<close>)

lemma rtRun_ok: "rt_ok rn \<Longrightarrow> \<exists>rn'. rtRun E xs rn = Ret rn' \<and> rt_ok rn'"
proof (induction xs arbitrary: rn)
  case (Cons x xs)
  obtain rn1 where s: "rtStep E x rn = Ret rn1" "rt_ok rn1" using rtStep_ok [OF Cons.prems] by blast
  then show ?case using Cons.IH [OF s(2)] by simp
qed simp

text \<open>C12: the nodes and centers of a router that selects by load, under everything that can happen to it, handled one
  event after the other: connections that come and go, any bytes from any of them, health checks, timers, fetch
  responses, dials, heartbeats and rounds of send loops.  No event panics, and in every state that is reached every node
  is in the map under its own id, once, and is connected exactly when its buffer is open; every center is in its map
  once, and exactly the centers have clients.  (Handlers that interleave are another matter: see \<open>send_close_race\<close>.)\<close>

theorem router_maps_invariant:
  assumes "nodeMgr rn = NewNodeManager addrs timeout" "strategy (balancer rn) = ''least_connections''"
  shows "\<exists>rn'. rtRun E xs rn = Ret rn' \<and>
    (\<forall>(i, nc) \<in> set (connectionNodes (nodeMgr rn')). GetID nc = i \<and> IsConnected nc = (\<not> chClosed (sendBuffer nc))) \<and>
    fst ` set (centerClients (nodeMgr rn')) = fst ` set (messageCenters (nodeMgr rn')) \<and>
    distinct (map fst (connectionNodes (nodeMgr rn'))) \<and> distinct (map fst (messageCenters (nodeMgr rn')))"
proof -
  have "nm_ok (NewNodeManager addrs timeout) 0" by (simp add: nm_ok_def NewNodeManager_def nodes_ok_def centers_ok_def)
  then have "rt_ok rn" using assms by (auto simp: rt_ok_def)
  from rtRun_ok [OF this, of E xs] obtain rn' k where r: "rtRun E xs rn = Ret rn'" "nm_ok (nodeMgr rn') k" by (auto simp: rt_ok_def)
  then show ?thesis
    by (intro exI [of _ rn']) (auto simp: nm_ok_def nodes_ok_def centers_ok_def chan_ok_def GetID_def IsConnected_def)
qed

section \<open>Broadcasts\<close>

definition takes :: "node_connection \<Rightarrow> bool" where
  "takes nc \<longleftrightarrow> IsConnected nc \<and> length (items (sendBuffer nc)) < capacity (sendBuffer nc)"

definition afterSend :: "bytes \<Rightarrow> node_connection \<Rightarrow> node_connection" where
  "afterSend d nc =
     (if takes nc then nc\<lparr>sendBuffer := (sendBuffer nc)\<lparr>items := items (sendBuffer nc) @ [d]\<rparr>\<rparr>
      else if IsConnected nc then nc\<lparr>errorCount := errorCount nc + 1\<rparr> else nc)"

lemma Send_afterSend: "chan_ok nc \<Longrightarrow> \<exists>e. Send d nc = Ret (afterSend d nc, e) \<and> (e = None) = takes nc"
  by (auto simp: Send_def trySend_def try_send_def takes_def afterSend_def chan_ok_def IsConnected_def)

lemma sendEntry_map:
  assumes "nm_ok nm k" "map_of (connectionNodes nm) i = Some nc"
  shows "\<exists>nm' e. sendEntry d i nm = Ret (nm', e) \<and> nm_ok nm' k \<and> (e = None) = takes nc \<and>
    map_of (connectionNodes nm') = (map_of (connectionNodes nm))(i \<mapsto> afterSend d nc)"
proof -
  have "nodes_ok (connectionNodes nm)" using assms(1) by (simp add: nm_ok_def)
  from nodes_okD [OF this assms(2)] obtain e where s: "Send d nc = Ret (afterSend d nc, e)" "(e = None) = takes nc"
    using Send_afterSend by blast
  obtain nm' e' where t: "sendEntry d i nm = Ret (nm', e')" "nm_ok nm' k" using sendEntry_ok [OF assms(1)] by blast
  then have "nm' = nm\<lparr>connectionNodes := AList.update i (afterSend d nc) (connectionNodes nm)\<rparr>" "e' = e"
    using assms(2) s(1) by (simp_all add: sendEntry_def)
  then show ?thesis using t s(2) by (simp add: AList.update_conv')
qed

text \<open>The nodes of a list that a broadcast goes to.\<close>

definition addressed :: "string option \<Rightarrow> string list \<Rightarrow> node_manager \<Rightarrow> string list" where
  "addressed excl is nm = filter (\<lambda>i. excl \<noteq> Some i \<and> map_of (connectionNodes nm) i \<noteq> None) is"

definition takers :: "string option \<Rightarrow> string list \<Rightarrow> node_manager \<Rightarrow> string list" where
  "takers excl is nm = filter (\<lambda>i. takes (the (map_of (connectionNodes nm) i))) (addressed excl is nm)"

lemma addressed_cong: "i \<notin> set is \<Longrightarrow> map_of (connectionNodes nm') = (map_of (connectionNodes nm))(i := v) \<Longrightarrow>
    addressed excl is nm' = addressed excl is nm \<and> takers excl is nm' = takers excl is nm"
  by (auto simp: addressed_def takers_def intro!: filter_cong)

lemma nodeLoop_spec:
  assumes "nm_ok nm k" "distinct is"
  shows "\<exists>nm'. nodeLoop d excl is nm = Ret (nm', length (takers excl is nm),
      length (addressed excl is nm) - length (takers excl is nm)) \<and> length (takers excl is nm) \<le> length (addressed excl is nm) \<and>
    (\<forall>j. map_of (connectionNodes nm') j =
       (if j \<in> set (addressed excl is nm) then map_option (afterSend d) (map_of (connectionNodes nm) j) else map_of (connectionNodes nm) j))"
  using assms
proof (induction "is" arbitrary: nm)
  case (Cons i "is")
  have d: "i \<notin> set is" "distinct is" using Cons.prems(2) by simp_all
  show ?case
  proof (cases "map_of (connectionNodes nm) i")
    case None
    then show ?thesis using Cons.IH [OF Cons.prems(1) d(2)] by (simp add: GetConnectionNode_def addressed_def takers_def)
  next
    case (Some nc)
    have n: "GetID nc = i" using nodes_okD [OF _ Some] Cons.prems(1) by (simp add: nm_ok_def GetID_def)
    show ?thesis
    proof (cases "excl = Some i")
      case True
      then show ?thesis using Cons.IH [OF Cons.prems(1) d(2)] Some n by (simp add: GetConnectionNode_def addressed_def takers_def)
    next
      case False
      obtain nm1 e where s: "sendEntry d i nm = Ret (nm1, e)" "nm_ok nm1 k" "(e = None) = takes nc"
        "map_of (connectionNodes nm1) = (map_of (connectionNodes nm))(i \<mapsto> afterSend d nc)"
        using sendEntry_map [OF Cons.prems(1) Some] by blast
      note c = addressed_cong [OF d(1) s(4), of excl]
      from Cons.IH [OF s(2) d(2)] obtain nm2 where
        l: "nodeLoop d excl is nm1 = Ret (nm2, length (takers excl is nm), length (addressed excl is nm) - length (takers excl is nm))"
        "length (takers excl is nm) \<le> length (addressed excl is nm)"
        "\<forall>j. map_of (connectionNodes nm2) j =
          (if j \<in> set (addressed excl is nm) then map_option (afterSend d) (map_of (connectionNodes nm1) j) else map_of (connectionNodes nm1) j)"
        unfolding c [THEN conjunct1] c [THEN conjunct2] by blast
      have a: "addressed excl (i # is) nm = i # addressed excl is nm" using Some False by (simp add: addressed_def)
      have t: "takers excl (i # is) nm = (if e = None then i # takers excl is nm else takers excl is nm)"
        using Some False s(3) by (simp add: takers_def a)
      have i: "i \<notin> set (addressed excl is nm)" using d(1) by (simp add: addressed_def)
      show ?thesis using Some n False s(1) l i unfolding a t s(4) by (auto simp: GetConnectionNode_def s(4) Suc_diff_le)
    qed
  qed
qed (simp add: addressed_def takers_def)

text \<open>C28: a broadcast puts the message once into the buffer of every connected node that the mapping of rooms gives,
  if there is room in the buffer, except the excluded one, and changes no other buffer; it counts what it sent and
  what it dropped.  Nodes of the room that are connected to other routers get nothing from it.\<close>

theorem broadcast_reaches_nodes:
  assumes "nm_ok (nodeMgr rn) k" "distinct ids" "ids \<noteq> []"
    "GetRoomNodes (clBroadcast c) (clMembers c) room (rnRedis rn, rnCache rn) = ((S, C), Inr ids)"
    "Serialize (rvMarshal E) (clMillis c) (Some e) = Inr d"
  shows "\<exists>rn'. BroadcastToRoom E c room e excl rn = Ret (rn', None) \<and>
    (\<forall>j. map_option (\<lambda>nc. items (sendBuffer nc)) (map_of (connectionNodes (nodeMgr rn')) j) =
       map_option (\<lambda>nc. items (sendBuffer nc) @ (if j \<in> set ids \<and> excl \<noteq> Some j \<and> takes nc then [d] else []))
         (map_of (connectionNodes (nodeMgr rn)) j)) \<and>
    rsRouted rn' = rsRouted rn + of_nat (length (takers excl ids (nodeMgr rn))) \<and>
    rsRouted rn' + rsDropped rn' = rsRouted rn + rsDropped rn + of_nat (length (addressed excl ids (nodeMgr rn)))"
proof -
  obtain nm where l: "nodeLoop d excl ids (nodeMgr rn) = Ret (nm, length (takers excl ids (nodeMgr rn)),
      length (addressed excl ids (nodeMgr rn)) - length (takers excl ids (nodeMgr rn)))"
    "length (takers excl ids (nodeMgr rn)) \<le> length (addressed excl ids (nodeMgr rn))"
    "\<forall>j. map_of (connectionNodes nm) j = (if j \<in> set (addressed excl ids (nodeMgr rn))
       then map_option (afterSend d) (map_of (connectionNodes (nodeMgr rn)) j) else map_of (connectionNodes (nodeMgr rn)) j)"
    using nodeLoop_spec [OF assms(1,2)] by blast
  have j: "map_option (\<lambda>nc. items (sendBuffer nc)) (map_of (connectionNodes nm) j) =
       map_option (\<lambda>nc. items (sendBuffer nc) @ (if j \<in> set ids \<and> excl \<noteq> Some j \<and> takes nc then [d] else []))
         (map_of (connectionNodes (nodeMgr rn)) j)" for j
    using l(3) by (cases "map_of (connectionNodes (nodeMgr rn)) j") (auto simp: addressed_def afterSend_def)
  show ?thesis using assms(3-5) l(1,2) j by (simp add: BroadcastToRoom_def Let_def of_nat_diff)
qed

section \<open>A small router\<close>

text \<open>Two nodes are connected; the room is on a third one too, whose connection is to another router.\<close>

definition demoRtEnv :: "unit router_env" where
  "demoRtEnv = \<lparr>rvMarshal = (\<lambda>_. Some [1, 2]), rvUnmarshal = (\<lambda>_. None), rvNewID = (\<lambda>_ _ _ _. ((), GlobalID (replicate 12 0))),
     rvHost = ''h'', rvPort = 80, rvReliable = False, rvCodecText = (\<lambda>_. []), rvErrorText = (\<lambda>_. [])\<rparr>"

definition demoRouter :: "node_manager \<Rightarrow> room_cache \<Rightarrow> unit router_node" where
  "demoRouter nm C = \<lparr>nodeMgr = nm, balancer = NewLoadBalancer ''least_connections'', relPending = [], relMaxRetries = 3,
     relTTL = 0, relRetries = 0, relFetches = 0, relFailed = 0, relConfirmed = 0, rsDropped = 0, rsPersisted = 0, rnRedis = emptyRedis,
     rnCache = C, rnClassifier = NewMessageClassifier, rnSeq = NewConnSeqGenerator, rnIDs = (), rsReceived = 0, rsRouted = 0,
     rsTotalConnections = 0, rsActiveConnections = 0, rsConnectionNodes = 0, rsMessageCenters = 0, rsActiveRooms = 0, mrRouted = 0, mrForwarded = 0, mrPersisted = 0,
     mrDropped = 0, mrErrors = 0, mrChat = 0, mrSystem = 0\<rparr>"

definition demoCall :: router_call where
  "demoCall = \<lparr>clNow = (Epoch + 5) * 1000000, clPre = None, clRegister = None, clGet = None, clBroadcast = None, clGetRemove = None, clDelete = None,
     clRest = True, clMembers = id, clCenters = id, clWrite = None\<rparr>"

theorem router_maps_invariant_witness:
  "\<exists>rn. rtRun demoRtEnv [RtAccepted 5 1 ''x'', RtReceived demoCall id 1 [7], RtHealth id 9, RtClosed id 1]
      (demoRouter (NewNodeManager [] 0) Map.empty) = Ret rn \<and> distinct (map fst (connectionNodes (nodeMgr rn)))"
  using router_maps_invariant [of "demoRouter (NewNodeManager [] 0) Map.empty" "[]" 0 demoRtEnv
      "[RtAccepted 5 1 ''x'', RtReceived demoCall id 1 [7], RtHealth id 9, RtClosed id 1]"]
  by (auto simp: demoRouter_def NewLoadBalancer_def)

definition twoConnected :: node_manager where
  "twoConnected = (NewNodeManager [] 0)\<lparr>connectionNodes :=
     map (\<lambda>i. (i, NewNodeConnection 0 i NodeTypeConnection (Some 1))) [''a'', ''b''], activeConnectionNodes := 2\<rparr>"

theorem broadcast_reaches_nodes_witness:
  "\<exists>rn. BroadcastToRoom demoRtEnv demoCall 7 sampleEnvelope (Some ''a'') (demoRouter twoConnected [7 \<mapsto> [''a'', ''b'', ''c'']]) = Ret (rn, None) \<and>
     map_option (\<lambda>nc. items (sendBuffer nc)) (map_of (connectionNodes (nodeMgr rn)) ''a'') = Some [] \<and>
     map_option (\<lambda>nc. items (sendBuffer nc)) (map_of (connectionNodes (nodeMgr rn)) ''b'') = Some [[1, 2]] \<and> rsRouted rn = 1"
proof -
  let ?rn = "demoRouter twoConnected [7 \<mapsto> [''a'', ''b'', ''c'']]"
  have a: "nm_ok (nodeMgr ?rn) 0"
    by (simp add: demoRouter_def twoConnected_def NewNodeManager_def NewNodeConnection_def make_chan_def nm_ok_def nodes_ok_def
        centers_ok_def chan_ok_def)
  have b: "distinct [''a'', ''b'', ''c'']" "[''a'', ''b'', ''c''] \<noteq> []" by simp_all
  have c: "GetRoomNodes (clBroadcast demoCall) (clMembers demoCall) 7 (rnRedis ?rn, rnCache ?rn) =
      ((emptyRedis, [7 \<mapsto> [''a'', ''b'', ''c'']]), Inr [''a'', ''b'', ''c''])"
    by (simp add: GetRoomNodes_def demoRouter_def)
  have d: "Serialize (rvMarshal demoRtEnv) (clMillis demoCall) (Some sampleEnvelope) = Inr [1, 2]"
  proof -
    have m: "clMillis demoCall = Epoch + 5" by (simp add: clMillis_def demoCall_def)
    have "ValidateEnvelope (Epoch + 5) (Some sampleEnvelope) = Inr ()"
      unfolding ValidateEnvelope_ok_iff using sample_valid
      by (simp add: sampleEnvelope_def ToBytes_def wf_buildID [unfolded wf_id_def])
    then show ?thesis unfolding m by (simp add: Serialize_def demoRtEnv_def)
  qed
  have t: "takers (Some ''a'') [''a'', ''b'', ''c''] (nodeMgr ?rn) = [''b'']"
    by (simp add: takers_def addressed_def takes_def demoRouter_def twoConnected_def NewNodeConnection_def make_chan_def IsConnected_def)
  have m: "map_of (connectionNodes (nodeMgr ?rn)) i = (if i \<in> {''a'', ''b''} then Some (NewNodeConnection 0 i NodeTypeConnection (Some 1)) else None)" for i
    by (simp add: demoRouter_def twoConnected_def)
  have e: "takes (NewNodeConnection 0 i NodeTypeConnection cx)" "items (sendBuffer (NewNodeConnection 0 i NodeTypeConnection cx)) = []" for i cx
    by (simp_all add: takes_def NewNodeConnection_def make_chan_def IsConnected_def)
  have r: "rsRouted ?rn = 0" by (simp add: demoRouter_def)
  from broadcast_reaches_nodes [OF a b c d, of "Some ''a''"] obtain rn where
    g: "BroadcastToRoom demoRtEnv demoCall 7 sampleEnvelope (Some ''a'') ?rn = Ret (rn, None)"
      "\<forall>j. map_option (\<lambda>nc. items (sendBuffer nc)) (map_of (connectionNodes (nodeMgr rn)) j) =
       map_option (\<lambda>nc. items (sendBuffer nc) @ (if j \<in> set [''a'', ''b'', ''c''] \<and> Some ''a'' \<noteq> Some j \<and> takes nc then [[1, 2]] else []))
         (map_of (connectionNodes (nodeMgr ?rn)) j)"
      "rsRouted rn = 1" unfolding t r by auto
  show ?thesis using g(1,3) g(2) [THEN spec, of "''a''"] g(2) [THEN spec, of "''b''"] by (intro exI [of _ rn]) (simp add: m e)
qed

end
