(* ===== verification/MessageStore.thy ===== *)
theory MessageStore
  imports Envelope SendQueue GoStrings "HOL-Library.Multiset"
begin

text \<open>
  How a message center stores messages: \<^verbatim>\<open>msgcenter/message_manager.go\<close>, \<^verbatim>\<open>msgcenter/kafka_manager.go\<close> and the
  messages of \<^verbatim>\<open>msgcenter/database_manager.go\<close>.  A message goes into a bounded queue; the process loop hands each
  to a goroutine that puts it into the batch for Kafka, and puts it into the batch for the database itself; a full
  batch, or a tick, is written by another goroutine.  Goroutines that have not run yet are lists of the state, and
  an event says which one runs.  The database is the argument \<open>db_ops\<close> over its state \<open>'d\<close>; \<open>ceJson\<close> is the
  JSON of a record, and the results of starting and committing transactions and of writes to Kafka are arguments.
\<close>

section \<open>Records\<close>

record message_info =
  miID :: bytes
  miUser :: u32
  miRoom :: u32
  miLogin :: u8
  miTime :: int
  miType :: string
  miContent :: string
  miData :: bytes

record persist_message =
  pmEnvelope :: "envelope option"
  pmReceived :: int
  pmInfo :: message_info

record message_record =
  mrecID :: int
  mrecMessage :: bytes
  mrecUser :: u32
  mrecRoom :: u32
  mrecLogin :: u8
  mrecType :: string
  mrecContent :: string
  mrecData :: bytes
  mrecTime :: int

record 'd db_ops =
  dbInsert :: "message_info \<Rightarrow> 'd \<Rightarrow> 'd \<times> string option"
  dbFind :: "bytes \<Rightarrow> 'd \<Rightarrow> string + message_record option"
  dbRoom :: "u64 \<Rightarrow> int \<Rightarrow> int \<Rightarrow> 'd \<Rightarrow> string + message_record list"
  dbDeleteBefore :: "int \<Rightarrow> nat \<Rightarrow> 'd \<Rightarrow> 'd \<times> string option"

record kafka_value =
  kvID :: string
  kvUser :: u32
  kvRoom :: u32
  kvLogin :: u8
  kvType :: string
  kvContent :: string
  kvTime :: int
  kvData :: bytes

record kafka_msg =
  kgKey :: bytes
  kgValue :: bytes
  kgTime :: int
  kgHeaders :: "(string \<times> bytes) list"

datatype center_error =
    CeExtract codec_error | CeQueueFull | CeBegin string | CeCommit string | CeJson | CeDeserialize codec_error
  | CeSerialize codec_error | CeSend conn_error | CeUnknownConnection | CeQuery string

record ('d, 'g) center_env =
  ceMarshal :: "envelope \<Rightarrow> bytes option"
  ceUnmarshal :: "bytes \<Rightarrow> envelope option"
  ceNewID :: "'g \<Rightarrow> u32 \<Rightarrow> u32 \<Rightarrow> u8 \<Rightarrow> 'g \<times> global_id"
  ceTypeName :: "message option \<Rightarrow> string"
  ceJson :: "kafka_value \<Rightarrow> bytes option"
  ceBatch :: int
  ceKafkaBatch :: int
  ceDb :: "'d db_ops"

record 'd message_store =
  msDb :: 'd
  mmQueue :: "persist_message chan"
  mmBatch :: "persist_message list"
  mmQueued :: i64
  mmDropped :: i64
  mmBatches :: i64
  goKafka :: "persist_message list"
  goWrites :: "persist_message list list"
  kmBatch :: "kafka_msg list"
  goSends :: "kafka_msg list list"
  kmSent :: i64
  kmDropped :: i64
  kmBytes :: i64
  kmBatches :: i64
  dmInserts :: i64
  dmQueries :: i64
  dmTransactions :: i64
  ssPersisted :: i64
  ssKafkaMessages :: i64
  ssKafkaErrors :: i64
  ssWrites :: i64

definition NewMessageStore :: "'d \<Rightarrow> 'd message_store" where
  "NewMessageStore d =
     \<lparr>msDb = d, mmQueue = make_chan 10000, mmBatch = [], mmQueued = 0, mmDropped = 0, mmBatches = 0, goKafka = [], goWrites = [],
      kmBatch = [], goSends = [], kmSent = 0, kmDropped = 0, kmBytes = 0, kmBatches = 0, dmInserts = 0, dmQueries = 0,
      dmTransactions = 0, ssPersisted = 0, ssKafkaMessages = 0, ssKafkaErrors = 0, ssWrites = 0\<rparr>"

text \<open>What a step does to messages, for the statements: accepted, processed, stored and so on.\<close>

datatype store_effect =
    Accepted persist_message
  | Processed persist_message
  | Stored "persist_message list"
  | StoreFailed "persist_message list"
  | KafkaFailed persist_message
  | Sent "kafka_msg list"
  | SendFailed "kafka_msg list"

section \<open>The message manager: accepting\<close>

definition messageType :: "message option \<Rightarrow> string" where
  "messageType m =
     (case m of
        Some (ChatMessage _) \<Rightarrow> ''chat'' | Some (CreateRoom _) \<Rightarrow> ''create_room'' | Some (JoinRoom _) \<Rightarrow> ''join_room''
      | Some LeaveRoom \<Rightarrow> ''leave_room'' | Some CloseRoom \<Rightarrow> ''close_room'' | _ \<Rightarrow> ''unknown'')"

definition messageText :: "(message option \<Rightarrow> string) \<Rightarrow> u32 \<Rightarrow> u32 \<Rightarrow> message option \<Rightarrow> string" where
  "messageText name user room m =
     (case m of
        Some (ChatMessage msg) \<Rightarrow> cm_content msg
      | Some (CreateRoom msg) \<Rightarrow> ''Created room: '' @ cr_name msg
      | Some (JoinRoom _) \<Rightarrow> ''User '' @ dec_string (unat user) @ '' joined room''
      | Some LeaveRoom \<Rightarrow> ''User '' @ dec_string (unat user) @ '' left room''
      | Some CloseRoom \<Rightarrow> ''Room '' @ dec_string (unat room) @ '' closed''
      | _ \<Rightarrow> ''Unknown message type: '' @ name m)"

definition extractMessageInfo :: "('d, 'g) center_env \<Rightarrow> int \<Rightarrow> envelope \<Rightarrow> codec_error + message_info" where
  "extractMessageInfo E ms e =
     (case ExtractMessageInfo ms (Some e) of
        Inl err \<Rightarrow> Inl err
      | Inr (user, room, login, ts) \<Rightarrow>
          Inr \<lparr>miID = MessageId e, miUser = user, miRoom = room, miLogin = login, miTime = ts, miType = messageType (Message e),
               miContent = messageText (ceTypeName E) user room (Message e),
               miData = (case Serialize (ceMarshal E) ms (Some e) of Inl _ \<Rightarrow> [] | Inr data \<Rightarrow> data)\<rparr>)"

definition mm_PersistMessage :: "('d, 'g) center_env \<Rightarrow> int \<Rightarrow> envelope \<Rightarrow> ('d, 'z) message_store_scheme
    \<Rightarrow> (('d, 'z) message_store_scheme \<times> center_error option \<times> store_effect list) outcome" where
  "mm_PersistMessage E now e st =
     (case extractMessageInfo E (now div 1000000) e of
        Inl err \<Rightarrow> Ret (st, Some (CeExtract err), [])
      | Inr info \<Rightarrow>
          let pm = \<lparr>pmEnvelope = Some e, pmReceived = now, pmInfo = info\<rparr>
          in case try_send pm (mmQueue st) of
               Panic \<Rightarrow> Panic
             | Ret (ch, True) \<Rightarrow> Ret (st\<lparr>mmQueue := ch, mmQueued := mmQueued st + 1\<rparr>, None, [Accepted pm])
             | Ret (ch, False) \<Rightarrow> Ret (st\<lparr>mmDropped := mmDropped st + 1\<rparr>, Some CeQueueFull, []))"

section \<open>The database manager: inserting\<close>

definition insertAll :: "'d db_ops \<Rightarrow> persist_message list \<Rightarrow> 'd \<Rightarrow> 'd" where
  "insertAll D batch d = fold (\<lambda>pm d. fst (dbInsert D (pmInfo pm) d)) batch d"

text \<open>An insert that fails is logged and the loop goes on; what was inserted in a transaction that is not
  committed is not in the database.\<close>

definition BatchInsertMessages :: "'d db_ops \<Rightarrow> string option \<Rightarrow> string option \<Rightarrow> persist_message list
    \<Rightarrow> ('d, 'z) message_store_scheme \<Rightarrow> ('d, 'z) message_store_scheme \<times> center_error option" where
  "BatchInsertMessages D begun committed batch st =
     (if batch = [] then (st, None)
      else case begun of
             Some e \<Rightarrow> (st, Some (CeBegin e))
           | None \<Rightarrow>
               (case committed of
                  Some e \<Rightarrow> (st, Some (CeCommit e))
                | None \<Rightarrow> (st\<lparr>msDb := insertAll D batch (msDb st), dmInserts := dmInserts st + of_nat (length batch),
                             dmTransactions := dmTransactions st + 1\<rparr>, None)))"

definition QueryMessage :: "'d db_ops \<Rightarrow> bytes \<Rightarrow> ('d, 'z) message_store_scheme
    \<Rightarrow> ('d, 'z) message_store_scheme \<times> (string + message_record option)" where
  "QueryMessage D i st = (st\<lparr>dmQueries := dmQueries st + 1\<rparr>, dbFind D i (msDb st))"

definition QueryRoomMessages :: "'d db_ops \<Rightarrow> u64 \<Rightarrow> int \<Rightarrow> int \<Rightarrow> ('d, 'z) message_store_scheme
    \<Rightarrow> ('d, 'z) message_store_scheme \<times> (string + message_record list)" where
  "QueryRoomMessages D room start limit st =
     (st\<lparr>dmQueries := dmQueries st + 1\<rparr>,
      (case dbRoom D room start limit (msDb st) of Inl e \<Rightarrow> Inl e | Inr rs \<Rightarrow> Inr (map (\<lambda>r. r\<lparr>mrecRoom := ucast room\<rparr>) rs)))"

text \<open>\<open>cutoff\<close> is the second, as many days ago as the configuration says.\<close>

definition CleanupExpiredMessages :: "'d db_ops \<Rightarrow> int \<Rightarrow> ('d, 'z) message_store_scheme \<Rightarrow> ('d, 'z) message_store_scheme" where
  "CleanupExpiredMessages D cutoff st = st\<lparr>msDb := fst (dbDeleteBefore D (cutoff * 1000) 10000 (msDb st))\<rparr>"

section \<open>The Kafka manager\<close>

definition kafkaValue :: "message_info \<Rightarrow> kafka_value" where
  "kafkaValue i = \<lparr>kvID = hex_string (miID i), kvUser = miUser i, kvRoom = miRoom i, kvLogin = miLogin i, kvType = miType i,
     kvContent = miContent i, kvTime = miTime i, kvData = miData i\<rparr>"

definition createKafkaMessage :: "('d, 'g) center_env \<Rightarrow> persist_message \<Rightarrow> kafka_msg option" where
  "createKafkaMessage E pm =
     (let v = kafkaValue (pmInfo pm)
      in case ceJson E v of
           None \<Rightarrow> None
         | Some json \<Rightarrow> Some \<lparr>kgKey = go_bytes (kvID v), kgValue = json, kgTime = kvTime v * 1000000,
             kgHeaders = [(''message_type'', go_bytes (kvType v)), (''room_id'', go_bytes (dec_string (unat (kvRoom v)))),
                          (''user_id'', go_bytes (dec_string (unat (kvUser v))))]\<rparr>)"

definition triggerBatchSend :: "('d, 'z) message_store_scheme \<Rightarrow> ('d, 'z) message_store_scheme" where
  "triggerBatchSend st = (if kmBatch st = [] then st else st\<lparr>kmBatch := [], goSends := goSends st @ [kmBatch st]\<rparr>)"

definition km_addToBatch :: "('d, 'g) center_env \<Rightarrow> kafka_msg \<Rightarrow> ('d, 'z) message_store_scheme \<Rightarrow> ('d, 'z) message_store_scheme" where
  "km_addToBatch E k st =
     (let st1 = st\<lparr>kmBatch := kmBatch st @ [k]\<rparr>
      in if int (length (kmBatch st1)) \<ge> ceKafkaBatch E then triggerBatchSend st1 else st1)"

definition km_SendMessage :: "('d, 'g) center_env \<Rightarrow> persist_message \<Rightarrow> ('d, 'z) message_store_scheme
    \<Rightarrow> ('d, 'z) message_store_scheme \<times> center_error option" where
  "km_SendMessage E pm st =
     (case createKafkaMessage E pm of None \<Rightarrow> (st, Some CeJson) | Some k \<Rightarrow> (km_addToBatch E k st, None))"

definition sendBatchToKafka :: "string option \<Rightarrow> kafka_msg list \<Rightarrow> ('d, 'z) message_store_scheme
    \<Rightarrow> ('d, 'z) message_store_scheme \<times> store_effect list" where
  "sendBatchToKafka w batch st =
     (case w of
        Some _ \<Rightarrow> (st\<lparr>kmDropped := kmDropped st + of_nat (length batch)\<rparr>, [SendFailed batch])
      | None \<Rightarrow> (st\<lparr>kmSent := kmSent st + of_nat (length batch), kmBatches := kmBatches st + 1,
                   kmBytes := kmBytes st + of_nat (sum_list (map (\<lambda>k. length (kgKey k) + length (kgValue k)) batch))\<rparr>, [Sent batch]))"

definition km_flushBatch :: "string option \<Rightarrow> ('d, 'z) message_store_scheme \<Rightarrow> ('d, 'z) message_store_scheme \<times> store_effect list" where
  "km_flushBatch w st =
     (if kmBatch st = [] then (st, [])
      else case sendBatchToKafka w (kmBatch st) st of (st1, eff) \<Rightarrow> (st1\<lparr>kmBatch := []\<rparr>, eff))"

definition km_Cleanup :: "string option \<Rightarrow> ('d, 'z) message_store_scheme \<Rightarrow> ('d, 'z) message_store_scheme \<times> store_effect list" where
  "km_Cleanup w st = km_flushBatch w st"

section \<open>The message manager: processing\<close>

definition sendToKafka :: "('d, 'g) center_env \<Rightarrow> persist_message \<Rightarrow> ('d, 'z) message_store_scheme
    \<Rightarrow> ('d, 'z) message_store_scheme \<times> store_effect list" where
  "sendToKafka E pm st =
     (case km_SendMessage E pm st of
        (st1, Some _) \<Rightarrow> (st1\<lparr>ssKafkaErrors := ssKafkaErrors st1 + 1\<rparr>, [KafkaFailed pm])
      | (st1, None) \<Rightarrow> (st1\<lparr>ssKafkaMessages := ssKafkaMessages st1 + 1\<rparr>, []))"

definition triggerBatchWrite :: "('d, 'z) message_store_scheme \<Rightarrow> ('d, 'z) message_store_scheme" where
  "triggerBatchWrite st = (if mmBatch st = [] then st else st\<lparr>mmBatch := [], goWrites := goWrites st @ [mmBatch st]\<rparr>)"

definition mm_addToBatch :: "('d, 'g) center_env \<Rightarrow> persist_message \<Rightarrow> ('d, 'z) message_store_scheme \<Rightarrow> ('d, 'z) message_store_scheme" where
  "mm_addToBatch E pm st =
     (let st1 = st\<lparr>mmBatch := mmBatch st @ [pm]\<rparr>
      in if int (length (mmBatch st1)) \<ge> ceBatch E then triggerBatchWrite st1 else st1)"

definition processMessage :: "('d, 'g) center_env \<Rightarrow> persist_message \<Rightarrow> ('d, 'z) message_store_scheme \<Rightarrow> ('d, 'z) message_store_scheme" where
  "processMessage E pm st =
     (let st1 = mm_addToBatch E pm (st\<lparr>goKafka := goKafka st @ [pm]\<rparr>)
      in st1\<lparr>ssPersisted := ssPersisted st1 + 1\<rparr>)"

text \<open>One round of the process loop that takes a message; with none it waits, or ends when the queue is closed.\<close>

definition messageProcessLoop :: "('d, 'g) center_env \<Rightarrow> ('d, 'z) message_store_scheme \<Rightarrow> ('d, 'z) message_store_scheme \<times> store_effect list" where
  "messageProcessLoop E st =
     (case receive (mmQueue st) of
        Some (ch, Some pm) \<Rightarrow> (processMessage E pm (st\<lparr>mmQueue := ch\<rparr>), [Processed pm])
      | _ \<Rightarrow> (st, []))"

definition batchWriteToDatabase :: "('d, 'g) center_env \<Rightarrow> string option \<Rightarrow> string option \<Rightarrow> persist_message list
    \<Rightarrow> ('d, 'z) message_store_scheme \<Rightarrow> ('d, 'z) message_store_scheme \<times> store_effect list" where
  "batchWriteToDatabase E begun committed batch st =
     (case BatchInsertMessages (ceDb E) begun committed batch st of
        (st1, Some _) \<Rightarrow> (st1\<lparr>mmDropped := mmDropped st1 + of_nat (length batch)\<rparr>, [StoreFailed batch])
      | (st1, None) \<Rightarrow> (st1\<lparr>mmBatches := mmBatches st1 + 1, ssWrites := ssWrites st1 + of_nat (length batch)\<rparr>, [Stored batch]))"

definition mm_flushBatch :: "('d, 'g) center_env \<Rightarrow> string option \<Rightarrow> string option \<Rightarrow> ('d, 'z) message_store_scheme
    \<Rightarrow> ('d, 'z) message_store_scheme \<times> store_effect list" where
  "mm_flushBatch E begun committed st =
     (if mmBatch st = [] then (st, [])
      else case batchWriteToDatabase E begun committed (mmBatch st) st of (st1, eff) \<Rightarrow> (st1\<lparr>mmBatch := []\<rparr>, eff))"

definition mm_Stop :: "('d, 'g) center_env \<Rightarrow> string option \<Rightarrow> string option \<Rightarrow> ('d, 'z) message_store_scheme
    \<Rightarrow> (('d, 'z) message_store_scheme \<times> store_effect list) outcome" where
  "mm_Stop E begun committed st =
     (case close_chan (mmQueue st) of Panic \<Rightarrow> Panic | Ret ch \<Rightarrow> Ret (mm_flushBatch E begun committed (st\<lparr>mmQueue := ch\<rparr>)))"

definition GetPendingCount :: "('d, 'z) message_store_scheme \<Rightarrow> nat" where
  "GetPendingCount st = length (items (mmQueue st))"

definition GetBatchCount :: "('d, 'z) message_store_scheme \<Rightarrow> nat" where
  "GetBatchCount st = length (mmBatch st)"

section \<open>Runs\<close>

text \<open>The number picks the goroutine that runs.\<close>

datatype store_event =
    SePersist int envelope
  | SeProcess
  | SeKafka nat
  | SeTick
  | SeWrite nat "string option" "string option"
  | SeKafkaTick
  | SeSend nat "string option"
  | SeKafkaClean "string option"
  | SeExpire int
  | SeStop "string option" "string option"

definition without :: "nat \<Rightarrow> 'a list \<Rightarrow> 'a list" where
  "without i xs = take i xs @ drop (Suc i) xs"

fun storeStep :: "('d, 'g) center_env \<Rightarrow> store_event \<Rightarrow> ('d, 'z) message_store_scheme
    \<Rightarrow> (('d, 'z) message_store_scheme \<times> store_effect list) outcome" where
  "storeStep E (SePersist now e) st = (case mm_PersistMessage E now e st of Panic \<Rightarrow> Panic | Ret (st1, _, eff) \<Rightarrow> Ret (st1, eff))"
| "storeStep E SeProcess st = Ret (messageProcessLoop E st)"
| "storeStep E (SeKafka i) st =
     Ret (if i < length (goKafka st) then sendToKafka E (goKafka st ! i) (st\<lparr>goKafka := without i (goKafka st)\<rparr>) else (st, []))"
| "storeStep E SeTick st = Ret (triggerBatchWrite st, [])"
| "storeStep E (SeWrite i b c) st =
     Ret (if i < length (goWrites st) then batchWriteToDatabase E b c (goWrites st ! i) (st\<lparr>goWrites := without i (goWrites st)\<rparr>)
          else (st, []))"
| "storeStep E SeKafkaTick st = Ret (triggerBatchSend st, [])"
| "storeStep E (SeSend i w) st =
     Ret (if i < length (goSends st) then sendBatchToKafka w (goSends st ! i) (st\<lparr>goSends := without i (goSends st)\<rparr>) else (st, []))"
| "storeStep E (SeKafkaClean w) st = Ret (km_Cleanup w st)"
| "storeStep E (SeExpire cutoff) st = Ret (CleanupExpiredMessages (ceDb E) cutoff st, [])"
| "storeStep E (SeStop b c) st = mm_Stop E b c st"

fun storeRun :: "('d, 'g) center_env \<Rightarrow> store_event list \<Rightarrow> ('d, 'z) message_store_scheme \<times> store_effect list
    \<Rightarrow> (('d, 'z) message_store_scheme \<times> store_effect list) outcome" where
  "storeRun E [] s = Ret s"
| "storeRun E (x # xs) s =
     (case storeStep E x (fst s) of Panic \<Rightarrow> Panic | Ret (st1, eff) \<Rightarrow> storeRun E xs (st1, snd s @ eff))"

definition acceptedOf :: "store_effect list \<Rightarrow> persist_message list" where
  "acceptedOf es = concat (map (\<lambda>e. case e of Accepted pm \<Rightarrow> [pm] | _ \<Rightarrow> []) es)"

definition processedOf :: "store_effect list \<Rightarrow> persist_message list" where
  "processedOf es = concat (map (\<lambda>e. case e of Processed pm \<Rightarrow> [pm] | _ \<Rightarrow> []) es)"

definition storedOf :: "store_effect list \<Rightarrow> persist_message list" where
  "storedOf es = concat (map (\<lambda>e. case e of Stored pms \<Rightarrow> pms | _ \<Rightarrow> []) es)"

definition failedOf :: "store_effect list \<Rightarrow> persist_message list" where
  "failedOf es = concat (map (\<lambda>e. case e of StoreFailed pms \<Rightarrow> pms | _ \<Rightarrow> []) es)"

definition sentOf :: "store_effect list \<Rightarrow> kafka_msg list" where
  "sentOf es = concat (map (\<lambda>e. case e of Sent ks \<Rightarrow> ks | _ \<Rightarrow> []) es)"

definition unsentOf :: "store_effect list \<Rightarrow> kafka_msg list" where
  "unsentOf es = concat (map (\<lambda>e. case e of SendFailed ks \<Rightarrow> ks | _ \<Rightarrow> []) es)"

definition refusedOf :: "store_effect list \<Rightarrow> persist_message list" where
  "refusedOf es = concat (map (\<lambda>e. case e of KafkaFailed pm \<Rightarrow> [pm] | _ \<Rightarrow> []) es)"

lemmas effect_defs = acceptedOf_def processedOf_def storedOf_def failedOf_def sentOf_def unsentOf_def refusedOf_def

lemma effects_append [simp]:
  "acceptedOf (es @ fs) = acceptedOf es @ acceptedOf fs" "processedOf (es @ fs) = processedOf es @ processedOf fs"
  "storedOf (es @ fs) = storedOf es @ storedOf fs" "failedOf (es @ fs) = failedOf es @ failedOf fs"
  "sentOf (es @ fs) = sentOf es @ sentOf fs" "unsentOf (es @ fs) = unsentOf es @ unsentOf fs"
  "refusedOf (es @ fs) = refusedOf es @ refusedOf fs"
  by (simp_all add: effect_defs)

lemma effects_Nil [simp]:
  "acceptedOf [] = []" "processedOf [] = []" "storedOf [] = []" "failedOf [] = []" "sentOf [] = []" "unsentOf [] = []" "refusedOf [] = []"
  by (simp_all add: effect_defs)

lemma effects_one [simp]:
  "acceptedOf [e] = (case e of Accepted pm \<Rightarrow> [pm] | _ \<Rightarrow> [])" "processedOf [e] = (case e of Processed pm \<Rightarrow> [pm] | _ \<Rightarrow> [])"
  "storedOf [e] = (case e of Stored pms \<Rightarrow> pms | _ \<Rightarrow> [])" "failedOf [e] = (case e of StoreFailed pms \<Rightarrow> pms | _ \<Rightarrow> [])"
  "sentOf [e] = (case e of Sent ks \<Rightarrow> ks | _ \<Rightarrow> [])" "unsentOf [e] = (case e of SendFailed ks \<Rightarrow> ks | _ \<Rightarrow> [])"
  "refusedOf [e] = (case e of KafkaFailed pm \<Rightarrow> [pm] | _ \<Rightarrow> [])"
  by (simp_all add: effect_defs)

section \<open>Nothing is lost on the way\<close>

text \<open>Every accepted message is in exactly one place on the way to the database, and every processed one in exactly
  one place on the way to Kafka; the counters count them.\<close>

definition db_way :: "('d, 'z) message_store_scheme \<Rightarrow> store_effect list \<Rightarrow> bool" where
  "db_way st es \<longleftrightarrow>
     mset (acceptedOf es) = mset (items (mmQueue st)) + mset (processedOf es) \<and>
     mset (processedOf es) = mset (mmBatch st) + mset (concat (goWrites st)) + mset (storedOf es) + mset (failedOf es)"

definition kafka_way :: "('d, 'g) center_env \<Rightarrow> ('d, 'z) message_store_scheme \<Rightarrow> store_effect list \<Rightarrow> bool" where
  "kafka_way E st es \<longleftrightarrow>
     image_mset (createKafkaMessage E) (mset (processedOf es)) =
       image_mset (createKafkaMessage E) (mset (goKafka st) + mset (refusedOf es)) +
       image_mset Some (mset (kmBatch st) + mset (concat (goSends st)) + mset (sentOf es) + mset (unsentOf es))"

definition counted :: "('d, 'z) message_store_scheme \<Rightarrow> store_effect list \<Rightarrow> bool" where
  "counted st es \<longleftrightarrow>
     mmQueued st = of_nat (length (acceptedOf es)) \<and> ssPersisted st = of_nat (length (processedOf es)) \<and>
     ssWrites st = of_nat (length (storedOf es)) \<and> kmSent st = of_nat (length (sentOf es)) \<and>
     kmDropped st = of_nat (length (unsentOf es)) \<and> ssKafkaErrors st = of_nat (length (refusedOf es))"

definition bounded :: "('d, 'g) center_env \<Rightarrow> ('d, 'z) message_store_scheme \<Rightarrow> bool" where
  "bounded E st \<longleftrightarrow> capacity (mmQueue st) = 10000 \<and> length (items (mmQueue st)) \<le> 10000 \<and>
     int (length (mmBatch st)) \<le> max 0 (ceBatch E - 1) \<and> int (length (kmBatch st)) \<le> max 0 (ceKafkaBatch E - 1)"

lemma mset_without: "i < length xs \<Longrightarrow> mset xs = add_mset (xs ! i) (mset (without i xs))"
  unfolding without_def by (subst id_take_nth_drop [of i xs]) simp_all

lemma mset_concat_without: "i < length xs \<Longrightarrow> mset (concat xs) = mset (xs ! i) + mset (concat (without i xs))"
  unfolding without_def by (subst id_take_nth_drop [of i xs]) simp_all

lemma persist_step:
  assumes "storeStep E (SePersist now e) st = Ret (st1, eff)"
  obtains "st1 = st \<and> eff = []" | "st1 = st\<lparr>mmDropped := mmDropped st + 1\<rparr> \<and> eff = []"
  | pm ch where "try_send pm (mmQueue st) = Ret (ch, True)" "st1 = st\<lparr>mmQueue := ch, mmQueued := mmQueued st + 1\<rparr>" "eff = [Accepted pm]"
proof (cases "extractMessageInfo E (now div 1000000) e")
  case (Inl err)
  then show thesis using assms that(1) by (simp add: mm_PersistMessage_def)
next
  case (Inr info)
  let ?pm = "\<lparr>pmEnvelope = Some e, pmReceived = now, pmInfo = info\<rparr>"
  obtain ch ok where t: "try_send ?pm (mmQueue st) = Ret (ch, ok)"
    using assms Inr by (auto simp: mm_PersistMessage_def Let_def split: outcome.splits)
  show thesis using assms that(2) that(3) [of ?pm ch] Inr t by (cases ok) (auto simp: mm_PersistMessage_def Let_def)
qed

lemma process_step:
  assumes "messageProcessLoop E st = (st1, eff)"
  obtains "st1 = st" "eff = []"
  | pm ch where "receive (mmQueue st) = Some (ch, Some pm)" "st1 = processMessage E pm (st\<lparr>mmQueue := ch\<rparr>)" "eff = [Processed pm]"
  using assms by (auto simp: messageProcessLoop_def split: option.splits prod.splits)

text \<open>What each function does to the fields, once its tests are decided.\<close>

lemma process_fields:
  fixes E :: "('d, 'g) center_env" and st :: "('d, 'z) message_store_scheme"
  defines "full \<equiv> int (Suc (length (mmBatch st))) \<ge> ceBatch E"
  shows "processMessage E pm st = st\<lparr>goKafka := goKafka st @ [pm], mmBatch := (if full then [] else mmBatch st @ [pm]),
      goWrites := goWrites st @ (if full then [mmBatch st @ [pm]] else []), ssPersisted := ssPersisted st + 1\<rparr>"
  by (simp add: full_def processMessage_def mm_addToBatch_def triggerBatchWrite_def Let_def)

lemma sendToKafka_fields:
  fixes E :: "('d, 'g) center_env" and st :: "('d, 'z) message_store_scheme"
  defines "full \<equiv> int (Suc (length (kmBatch st))) \<ge> ceKafkaBatch E"
  shows "sendToKafka E pm st = (case createKafkaMessage E pm of
      None \<Rightarrow> (st\<lparr>ssKafkaErrors := ssKafkaErrors st + 1\<rparr>, [KafkaFailed pm])
    | Some k \<Rightarrow> (st\<lparr>kmBatch := (if full then [] else kmBatch st @ [k]), goSends := goSends st @ (if full then [kmBatch st @ [k]] else []),
        ssKafkaMessages := ssKafkaMessages st + 1\<rparr>, []))"
  by (cases "createKafkaMessage E pm")
    (simp_all add: full_def sendToKafka_def km_SendMessage_def km_addToBatch_def triggerBatchSend_def Let_def)

lemma write_fields:
  obtains (failed) "batchWriteToDatabase E b c batch st = (st\<lparr>mmDropped := mmDropped st + of_nat (length batch)\<rparr>, [StoreFailed batch])"
  | (stored) d i t where "batchWriteToDatabase E b c batch st = (st\<lparr>msDb := d, dmInserts := i, dmTransactions := t,
      mmBatches := mmBatches st + 1, ssWrites := ssWrites st + of_nat (length batch)\<rparr>, [Stored batch])"
proof -
  consider "batch = []" | "batch \<noteq> []" "b = None" "c = None" | "batch \<noteq> []" "b \<noteq> None \<or> c \<noteq> None" by blast
  then show thesis
  proof cases
    case 1
    then show thesis using stored [where d = "msDb st" and i = "dmInserts st" and t = "dmTransactions st"]
      by (simp add: batchWriteToDatabase_def BatchInsertMessages_def)
  next
    case 2
    then show thesis using stored [where d = "insertAll (ceDb E) batch (msDb st)" and i = "dmInserts st + of_nat (length batch)" and t = "dmTransactions st + 1"]
      by (simp add: batchWriteToDatabase_def BatchInsertMessages_def)
  next
    case 3
    then show thesis using failed by (auto simp: batchWriteToDatabase_def BatchInsertMessages_def split: option.splits)
  qed
qed

lemma send_fields:
  obtains (unsent) "sendBatchToKafka w batch st = (st\<lparr>kmDropped := kmDropped st + of_nat (length batch)\<rparr>, [SendFailed batch])"
  | (sent) n where "sendBatchToKafka w batch st = (st\<lparr>kmSent := kmSent st + of_nat (length batch), kmBatches := kmBatches st + 1,
      kmBytes := n\<rparr>, [Sent batch])"
proof (cases w)
  case None
  then show thesis using sent by (simp add: sendBatchToKafka_def)
next
  case (Some e)
  then show thesis using unsent by (simp add: sendBatchToKafka_def)
qed

lemmas way_defs = db_way_def kafka_way_def counted_def bounded_def

lemma store_step_ok:
  assumes "storeStep E x st = Ret (st1, eff)" "db_way st es" "kafka_way E st es" "counted st es" "bounded E st"
  shows "db_way st1 (es @ eff) \<and> kafka_way E st1 (es @ eff) \<and> counted st1 (es @ eff) \<and> bounded E st1"
proof (cases x)
  case (SePersist now e)
  from persist_step [OF assms(1) [unfolded SePersist]] show ?thesis
  proof cases
    case (3 pm ch)
    note t = try_send_facts [OF 3(1)]
    show ?thesis using assms(2-5) t 3(2,3) by (simp add: db_way_def kafka_way_def counted_def bounded_def)
  qed (use assms(2-5) in \<open>simp_all add: db_way_def kafka_way_def counted_def bounded_def\<close>)
next
  case SeProcess
  then have "messageProcessLoop E st = (st1, eff)" using assms(1) by simp
  then show ?thesis
  proof (cases rule: process_step)
    case (2 pm ch)
    note r = receive_facts [OF 2(1)]
    show ?thesis using assms(2-5) r 2(2,3)
      by (simp add: way_defs process_fields)
  qed (use assms(2-5) in simp_all)
next
  case (SeKafka i)
  show ?thesis
  proof (cases "i < length (goKafka st)")
    case True
    note m = mset_without [OF True]
    show ?thesis using assms SeKafka True m
      by (cases "createKafkaMessage E (goKafka st ! i)") (auto simp: way_defs sendToKafka_fields)
  qed (use assms SeKafka in simp)
next
  case SeTick
  then show ?thesis using assms by (auto simp: triggerBatchWrite_def db_way_def kafka_way_def counted_def bounded_def)
next
  case (SeWrite i b c)
  show ?thesis
  proof (cases "i < length (goWrites st)")
    case True
    note m = mset_concat_without [OF True]
    show ?thesis using assms SeWrite True m
      by (cases rule: write_fields [of E b c "goWrites st ! i" "st\<lparr>goWrites := without i (goWrites st)\<rparr>"]) (auto simp: way_defs)
  qed (use assms SeWrite in simp)
next
  case SeKafkaTick
  then show ?thesis using assms by (auto simp: triggerBatchSend_def db_way_def kafka_way_def counted_def bounded_def)
next
  case (SeSend i w)
  show ?thesis
  proof (cases "i < length (goSends st)")
    case True
    note m = mset_concat_without [OF True]
    show ?thesis using assms SeSend True m
      by (cases rule: send_fields [of w "goSends st ! i" "st\<lparr>goSends := without i (goSends st)\<rparr>"]) (auto simp: way_defs)
  qed (use assms SeSend in simp)
next
  case (SeKafkaClean w)
  show ?thesis
  proof (cases "kmBatch st = []")
    case False
    then show ?thesis using assms SeKafkaClean
      by (cases rule: send_fields [of w "kmBatch st" st]) (auto simp: way_defs km_Cleanup_def km_flushBatch_def)
  qed (use assms SeKafkaClean in \<open>simp add: km_Cleanup_def km_flushBatch_def\<close>)
next
  case (SeExpire cutoff)
  then show ?thesis using assms by (auto simp: CleanupExpiredMessages_def db_way_def kafka_way_def counted_def bounded_def)
next
  case (SeStop b c)
  let ?st = "st\<lparr>mmQueue := (mmQueue st)\<lparr>chClosed := True\<rparr>\<rparr>"
  have s: "mm_flushBatch E b c ?st = (st1, eff)" using assms(1) SeStop by (simp add: mm_Stop_def close_chan_def split: if_splits)
  show ?thesis
  proof (cases "mmBatch st = []")
    case True
    then have "st1 = ?st \<and> eff = []" using s by (simp add: mm_flushBatch_def)
    then show ?thesis using assms(2-5) by (simp add: way_defs)
  next
    case False
    then show ?thesis using s assms(2-5)
      by (cases rule: write_fields [of E b c "mmBatch st" ?st]) (auto simp: way_defs mm_flushBatch_def)
  qed
qed

lemma store_run_ok:
  "storeRun E xs (st, es) = Ret (st1, es1) \<Longrightarrow> db_way st es \<Longrightarrow> kafka_way E st es \<Longrightarrow> counted st es \<Longrightarrow> bounded E st \<Longrightarrow>
     db_way st1 es1 \<and> kafka_way E st1 es1 \<and> counted st1 es1 \<and> bounded E st1"
proof (induction xs arbitrary: st es)
  case (Cons x xs)
  obtain st2 eff where s: "storeStep E x st = Ret (st2, eff)" using Cons.prems(1) by (auto split: outcome.splits)
  then have r: "storeRun E xs (st2, es @ eff) = Ret (st1, es1)" using Cons.prems(1) by simp
  from store_step_ok [OF s Cons.prems(2-5)] Cons.IH [OF r] show ?case by blast
qed simp

definition running :: "store_event \<Rightarrow> bool" where
  "running x \<longleftrightarrow> (case x of SeStop _ _ \<Rightarrow> False | _ \<Rightarrow> True)"

lemma running_step:
  assumes "running x" "\<not> chClosed (mmQueue st)"
  shows "\<exists>st1 eff. storeStep E x st = Ret (st1, eff) \<and> \<not> chClosed (mmQueue st1)"
proof (cases x)
  case (SePersist now e)
  show ?thesis using assms(2) SePersist
    by (cases "extractMessageInfo E (now div 1000000) e") (auto simp: mm_PersistMessage_def try_send_def Let_def)
next
  case SeProcess
  obtain st1 eff where m: "messageProcessLoop E st = (st1, eff)" by (rule prod.exhaust)
  then have "\<not> chClosed (mmQueue st1)"
    by (cases rule: process_step) (use assms(2) receive_facts(2) in \<open>auto simp: process_fields\<close>)
  then show ?thesis using SeProcess m by simp
next
  case (SeKafka i)
  then show ?thesis using assms(2) by (auto simp: sendToKafka_fields split: option.split)
next
  case (SeWrite i b c)
  show ?thesis using assms(2) SeWrite
    by (cases rule: write_fields [of E b c "goWrites st ! i" "st\<lparr>goWrites := without i (goWrites st)\<rparr>"]) auto
next
  case (SeSend i w)
  show ?thesis using assms(2) SeSend
    by (cases rule: send_fields [of w "goSends st ! i" "st\<lparr>goSends := without i (goSends st)\<rparr>"]) auto
next
  case (SeKafkaClean w)
  show ?thesis using assms(2) SeKafkaClean
    by (cases rule: send_fields [of w "kmBatch st" st]) (simp_all add: km_Cleanup_def km_flushBatch_def)
next
  case (SeStop b c)
  then show ?thesis using assms(1) by (simp add: running_def)
qed (use assms(2) in \<open>simp_all add: triggerBatchWrite_def triggerBatchSend_def CleanupExpiredMessages_def\<close>)

lemma running_run:
  "\<forall>x \<in> set xs. running x \<Longrightarrow> \<not> chClosed (mmQueue st) \<Longrightarrow> \<exists>st1 es1. storeRun E xs (st, es) = Ret (st1, es1)"
proof (induction xs arbitrary: st es)
  case (Cons x xs)
  from running_step [of x st E] Cons.prems obtain st2 eff where "storeStep E x st = Ret (st2, eff)" "\<not> chClosed (mmQueue st2)" by auto
  then show ?case using Cons by simp
qed simp

text \<open>C13: a message center that runs loses no message it has accepted.  Whatever the order of its goroutines, of ticks,
  and of failures of the database and of Kafka: each accepted message is in exactly one of the queue, the batch, a batch
  being written, a stored batch and a batch that failed; the queue holds at most 10000 messages; and the two counters of
  the server say how many were taken out of the queue (\<^verbatim>\<open>MessagesPersisted\<close>) and how many were in stored batches
  (\<^verbatim>\<open>DatabaseWrites\<close>).\<close>

theorem center_conserves_messages:
  assumes "\<forall>x \<in> set xs. running x"
  shows "\<exists>st es. storeRun E xs (NewMessageStore d, []) = Ret (st, es) \<and>
    mset (acceptedOf es) = mset (items (mmQueue st)) + mset (mmBatch st) + mset (concat (goWrites st)) + mset (storedOf es) +
      mset (failedOf es) \<and>
    length (items (mmQueue st)) \<le> 10000 \<and> int (length (mmBatch st)) \<le> max 0 (ceBatch E - 1) \<and>
    ssPersisted st = of_nat (length (acceptedOf es) - length (items (mmQueue st))) \<and> ssWrites st = of_nat (length (storedOf es))"
proof -
  have ok: "db_way (NewMessageStore d) []" "kafka_way E (NewMessageStore d) []" "counted (NewMessageStore d) []"
    "bounded E (NewMessageStore d)" by (simp_all add: way_defs NewMessageStore_def make_chan_def)
  have "\<not> chClosed (mmQueue (NewMessageStore d))" by (simp add: NewMessageStore_def make_chan_def)
  from running_run [OF assms this] obtain st es where r: "storeRun E xs (NewMessageStore d, []) = Ret (st, es)" by blast
  note w = store_run_ok [OF r ok]
  then have "mset (acceptedOf es) = mset (items (mmQueue st)) + mset (processedOf es)" by (simp add: db_way_def)
  from arg_cong [OF this, of size] have "length (acceptedOf es) - length (items (mmQueue st)) = length (processedOf es)" by simp
  then show ?thesis using r w by (intro exI [of _ st] exI [of _ es]) (simp add: way_defs)
qed

text \<open>The column of the id is \<^verbatim>\<open>BINARY(16)\<close>: shorter values are filled up with zero bytes, and \<^verbatim>\<open>INSERT IGNORE\<close> cuts
  longer ones.\<close>

definition binary16 :: "bytes \<Rightarrow> bytes" where
  "binary16 i = take 16 (i @ replicate 16 0)"

primrec dropOld :: "int \<Rightarrow> nat \<Rightarrow> message_record list \<Rightarrow> message_record list" where
  "dropOld t n [] = []"
| "dropOld t n (r # rs) = (if mrecTime r < t \<and> 0 < n then dropOld t (n - 1) rs else r # dropOld t n rs)"

text \<open>A database that keeps its rows in a list, numbered by their position, and keeps the first row of an id.\<close>

definition listDb :: "message_record list db_ops" where
  "listDb = \<lparr>dbInsert = (\<lambda>m rs. (if binary16 (miID m) \<in> set (map mrecMessage rs) then rs
      else rs @ [\<lparr>mrecID = int (length rs), mrecMessage = binary16 (miID m), mrecUser = miUser m, mrecRoom = miRoom m, mrecLogin = miLogin m,
                  mrecType = miType m, mrecContent = miContent m, mrecData = miData m, mrecTime = miTime m div 1000 * 1000\<rparr>], None)),
    dbFind = (\<lambda>i rs. Inr (find (\<lambda>r. mrecMessage r = i) rs)),
    dbRoom = (\<lambda>room start limit rs. Inr (take (nat limit) (rev (filter (\<lambda>r. ucast (mrecRoom r) = room \<and> start \<le> mrecTime r) rs)))),
    dbDeleteBefore = (\<lambda>t n rs. (dropOld t n rs, None))\<rparr>"

definition demoCenter :: "(message_record list, unit) center_env" where
  "demoCenter = \<lparr>ceMarshal = (\<lambda>_. Some [1]), ceUnmarshal = (\<lambda>_. None), ceNewID = (\<lambda>_ _ _ _. ((), GlobalID (replicate 16 0))),
     ceTypeName = (\<lambda>_. []), ceJson = (\<lambda>_. Some [2]), ceBatch = 2, ceKafkaBatch = 1, ceDb = listDb\<rparr>"

definition sampleNow :: int where "sampleNow = (Epoch + 5) * 1000000"

lemma sample_accepted: "ValidateEnvelope (Epoch + 5) (Some sampleEnvelope) = Inr ()"
  unfolding ValidateEnvelope_ok_iff using sample_valid
  by (simp add: sampleEnvelope_def ToBytes_def wf_buildID [unfolded wf_id_def])

theorem center_conserves_messages_witness:
  "\<exists>st es. storeRun demoCenter [SePersist sampleNow sampleEnvelope, SeProcess, SeTick, SeWrite 0 None None]
      (NewMessageStore [], []) = Ret (st, es) \<and> size (mset (acceptedOf es)) = length (storedOf es) \<and> goWrites st = []"
proof -
  let ?xs = "[SePersist sampleNow sampleEnvelope, SeProcess, SeTick, SeWrite 0 None None]"
  have "\<forall>x \<in> set ?xs. running x" by (simp add: running_def)
  from center_conserves_messages [OF this, of demoCenter "[]"] obtain st es where
    r: "storeRun demoCenter ?xs (NewMessageStore [], []) = Ret (st, es)"
    "mset (acceptedOf es) = mset (items (mmQueue st)) + mset (mmBatch st) + mset (concat (goWrites st)) + mset (storedOf es) +
      mset (failedOf es)" by blast
  have m: "sampleNow div 1000000 = Epoch + 5" by (simp add: sampleNow_def)
  obtain info where x: "extractMessageInfo demoCenter (Epoch + 5) sampleEnvelope = Inr info"
    using sample_accepted by (auto simp: extractMessageInfo_def ExtractMessageInfo_def sampleEnvelope_def FromBytes_def ToBytes_def
        wf_buildID [unfolded wf_id_def])
  have b: "ceBatch demoCenter = 2" by (simp add: demoCenter_def)
  have "items (mmQueue st) = [] \<and> mmBatch st = [] \<and> goWrites st = [] \<and> failedOf es = []"
    using r(1) by (auto simp: mm_PersistMessage_def m x NewMessageStore_def make_chan_def try_send_def messageProcessLoop_def receive_def
        process_fields triggerBatchWrite_def batchWriteToDatabase_def BatchInsertMessages_def b without_def Let_def effect_defs)
  then show ?thesis using r by (intro exI [of _ st] exI [of _ es]) simp
qed

end
