(* ===== verification/MessageCenter.thy ===== *)
theory MessageCenter
  imports MessageStore CenterConnection
begin

text \<open>
  The message center around its store: \<^verbatim>\<open>msgcenter/reliability_manager.go\<close>, \<^verbatim>\<open>msgcenter/query_manager.go\<close>, the
  messages of \<^verbatim>\<open>msgcenter/server.go\<close> and \<^verbatim>\<open>msgcenter/event_handler.go\<close>.  A router is known by the number of its
  connection: \<open>crHeap\<close> has the object made for it, \<open>ssRouters\<close> the connections in the map of the event handler.
\<close>

section \<open>The reliability manager\<close>

datatype rel_kind = Response | Notification

record cr_pending =
  cpID :: bytes
  cpData :: bytes
  cpTarget :: nat
  cpSent :: int
  cpRetries :: int
  cpTimer :: bool
  cpKind :: rel_kind

record 'd center_rel = "'d message_store" +
  crHeap :: "nat \<Rightarrow> router_connection"
  crPending :: "(string \<times> cr_pending) list"
  crRetries :: i64
  crFetches :: i64
  crFailed :: i64
  crConfirmed :: i64

text \<open>A goroutine is done, or it waits for a mutex that it holds itself.\<close>

datatype cr_progress = CrDone | CrBlocked

definition cr_getMessageKey :: "envelope \<Rightarrow> string" where
  "cr_getMessageKey e = hex_string (MessageId e)"

definition cr_removePendingMessage :: "string \<Rightarrow> ('d, 'z) center_rel_scheme \<Rightarrow> ('d, 'z) center_rel_scheme \<times> cr_pending option" where
  "cr_removePendingMessage k st = (st\<lparr>crPending := AList.delete k (crPending st)\<rparr>, map_of (crPending st) k)"

definition cr_put :: "string \<Rightarrow> cr_pending \<Rightarrow> ('d, 'z) center_rel_scheme \<Rightarrow> ('d, 'z) center_rel_scheme" where
  "cr_put k p st = st\<lparr>crPending := AList.update k p (crPending st)\<rparr>"

definition cr_sync :: "string option \<Rightarrow> nat \<Rightarrow> bytes \<Rightarrow> ('d, 'z) center_rel_scheme \<Rightarrow> ('d, 'z) center_rel_scheme \<times> conn_error option" where
  "cr_sync w a d st = (case mc_SendSync w d (crHeap st a) of (c, e, _) \<Rightarrow> (st\<lparr>crHeap := (crHeap st)(a := c)\<rparr>, e))"

definition cr_send :: "rel_kind \<Rightarrow> string option \<Rightarrow> int \<Rightarrow> (codec_error + bytes) \<Rightarrow> nat \<Rightarrow> envelope \<Rightarrow> ('d, 'z) center_rel_scheme
    \<Rightarrow> ('d, 'z) center_rel_scheme \<times> center_error option" where
  "cr_send kind w now data a e st =
     (case data of
        Inl err \<Rightarrow> (st, Some (CeSerialize err))
      | Inr d \<Rightarrow>
          (let k = cr_getMessageKey e;
               p = \<lparr>cpID = MessageId e, cpData = d, cpTarget = a, cpSent = now, cpRetries = 0, cpTimer = False, cpKind = kind\<rparr>
           in case cr_sync w a d (cr_put k p st) of
                (st1, Some err) \<Rightarrow> (fst (cr_removePendingMessage k st1), Some (CeSend err))
              | (st1, None) \<Rightarrow> (cr_put k (p\<lparr>cpTimer := True\<rparr>) st1, None)))"

definition SendReliableResponse :: "string option \<Rightarrow> int \<Rightarrow> (codec_error + bytes) \<Rightarrow> nat \<Rightarrow> envelope \<Rightarrow> ('d, 'z) center_rel_scheme
    \<Rightarrow> ('d, 'z) center_rel_scheme \<times> center_error option" where
  "SendReliableResponse = cr_send Response"

definition SendReliableNotification :: "string option \<Rightarrow> int \<Rightarrow> (codec_error + bytes) \<Rightarrow> nat \<Rightarrow> envelope \<Rightarrow> ('d, 'z) center_rel_scheme
    \<Rightarrow> ('d, 'z) center_rel_scheme \<times> center_error option" where
  "SendReliableNotification = cr_send Notification"

definition cr_isACKMessage :: "envelope \<Rightarrow> bool" where
  "cr_isACKMessage e =
     (case Message e of
        Some (MessageFetchResponse _) \<Rightarrow> True | Some (RoomMessageFetchResponse _) \<Rightarrow> True | Some (HeartbeatAck _ _) \<Rightarrow> True
      | _ \<Rightarrow> False)"

definition cr_getOriginalMessageKey :: "envelope \<Rightarrow> string" where
  "cr_getOriginalMessageKey e =
     (case Message e of
        Some (MessageFetchResponse m) \<Rightarrow> hex_string (mfs_message_id m)
      | Some (RoomMessageFetchResponse m) \<Rightarrow> ''room_query_'' @ dec_string (unat (rfs_room_id m))
      | Some (HeartbeatAck _ _) \<Rightarrow> []
      | _ \<Rightarrow> hex_string (MessageId e))"

definition cr_HandleACK :: "envelope \<Rightarrow> ('d, 'z) center_rel_scheme \<Rightarrow> ('d, 'z) center_rel_scheme \<times> bool" where
  "cr_HandleACK e st =
     (if \<not> cr_isACKMessage e then (st, False)
      else if cr_getOriginalMessageKey e = [] then (st, True)
      else case cr_removePendingMessage (cr_getOriginalMessageKey e) st of
             (st1, None) \<Rightarrow> (st1, True)
           | (st1, Some _) \<Rightarrow> (st1\<lparr>crConfirmed := crConfirmed st1 + 1\<rparr>, True))"

text \<open>\<open>mine\<close>: the goroutine holds the mutex of the message.\<close>

definition cr_handleMessageFailure :: "bool \<Rightarrow> string \<Rightarrow> ('d, 'z) center_rel_scheme \<Rightarrow> ('d, 'z) center_rel_scheme \<times> cr_progress" where
  "cr_handleMessageFailure mine k st =
     (case cr_removePendingMessage k st of
        (st1, None) \<Rightarrow> (st1, CrDone)
      | (st1, Some _) \<Rightarrow> if mine then (st1, CrBlocked) else (st1\<lparr>crFailed := crFailed st1 + 1\<rparr>, CrDone))"

definition attemptAlternativeHandling :: "string \<Rightarrow> ('d, 'z) center_rel_scheme \<Rightarrow> ('d, 'z) center_rel_scheme \<times> cr_progress" where
  "attemptAlternativeHandling k st = cr_handleMessageFailure True k (st\<lparr>crFetches := crFetches st + 1\<rparr>)"

definition cr_handleMessageTimeout :: "int \<Rightarrow> string option \<Rightarrow> string \<Rightarrow> ('d, 'z) center_rel_scheme \<Rightarrow> ('d, 'z) center_rel_scheme \<times> cr_progress" where
  "cr_handleMessageTimeout maxRetries w k st =
     (case map_of (crPending st) k of
        None \<Rightarrow> (st, CrDone)
      | Some p0 \<Rightarrow>
          (let p = p0\<lparr>cpRetries := cpRetries p0 + 1\<rparr>;
               st1 = (cr_put k p st)\<lparr>crRetries := crRetries st + 1\<rparr>
           in if cpRetries p \<le> maxRetries
              then (cr_put k (p\<lparr>cpTimer := True\<rparr>) (fst (cr_sync w (cpTarget p) (cpData p) st1)), CrDone)
              else attemptAlternativeHandling k st1))"

definition cr_cleanup :: "int \<Rightarrow> int \<Rightarrow> ('d, 'z) center_rel_scheme \<Rightarrow> ('d, 'z) center_rel_scheme" where
  "cr_cleanup ttl now st = st\<lparr>crPending := filter (\<lambda>(k, p). \<not> now - cpSent p > ttl) (crPending st)\<rparr>"

definition cr_Cleanup :: "int \<Rightarrow> int \<Rightarrow> ('d, 'z) center_rel_scheme \<Rightarrow> ('d, 'z) center_rel_scheme" where
  "cr_Cleanup ttl now st = cr_cleanup ttl now st"

definition cr_GetPendingCount :: "('d, 'z) center_rel_scheme \<Rightarrow> nat" where
  "cr_GetPendingCount st = length (crPending st)"

section \<open>The state of the server\<close>

record cached_room =
  crMessages :: "message_record list"
  crAt :: int
  crStart :: int
  crLimit :: int

record ('d, 'g) center_server = "'d center_rel" +
  qmMessages :: "string \<Rightarrow> (message_record \<times> int) option"
  qmRooms :: "u64 \<Rightarrow> cached_room option"
  qmQueries :: i64
  qmHits :: i64
  qmMisses :: i64
  ssRouters :: "nat list"
  ssReceived :: i64
  ssQueried :: i64
  ssTotal :: i64
  ssActive :: i64
  ssRouterCount :: i64
  ssPending :: i64
  ssSeq :: conn_seq_gen
  ssIDs :: 'g

text \<open>Five minutes, in nanoseconds.\<close>

definition cacheExpiry :: int where "cacheExpiry = 300000000000"

type_synonym ('d, 'g) center_action = "('d, 'g) center_server \<Rightarrow> (('d, 'g) center_server \<times> center_error option) outcome"

text \<open>A server without routers, with the database \<open>d\<close> and the id generator \<open>g\<close>.\<close>

definition NewMessageCenterServer :: "'d \<Rightarrow> 'g \<Rightarrow> ('d, 'g) center_server" where
  "NewMessageCenterServer d g =
     message_store.extend (NewMessageStore d)
       \<lparr>crHeap = (\<lambda>_. NewRouterConnection 0 [] None), crPending = [], crRetries = 0, crFetches = 0, crFailed = 0, crConfirmed = 0,
        qmMessages = (\<lambda>_. None), qmRooms = (\<lambda>_. None), qmQueries = 0, qmHits = 0, qmMisses = 0, ssRouters = [],
        ssReceived = 0, ssQueried = 0, ssTotal = 0, ssActive = 0, ssRouterCount = 0, ssPending = 0,
        ssSeq = NewConnSeqGenerator, ssIDs = g\<rparr>"

section \<open>The query manager\<close>

definition onRouter :: "nat \<Rightarrow> (router_connection \<Rightarrow> router_connection) \<Rightarrow> ('d, 'z) center_rel_scheme \<Rightarrow> ('d, 'z) center_rel_scheme" where
  "onRouter a f st = st\<lparr>crHeap := (crHeap st)(a := f (crHeap st a))\<rparr>"

definition server_sendResponse :: "('d, 'g) center_env \<Rightarrow> int \<Rightarrow> nat \<Rightarrow> message \<Rightarrow> ('d, 'g) center_action" where
  "server_sendResponse E now a msg st =
     (let (sq, s) = SeqNext (ssSeq st); (g, i) = ceNewID E (ssIDs st) 0 0 0;
          e = \<lparr>ConnectionSeqId = s, MessageId = ToBytes i, Message = Some msg\<rparr>;
          st1 = st\<lparr>ssSeq := sq, ssIDs := g\<rparr>
      in case Serialize (ceMarshal E) (now div 1000000) (Some e) of
           Inl err \<Rightarrow> Ret (st1, Some (CeSerialize err))
         | Inr data \<Rightarrow>
             (case mc_Send data (crHeap st1 a) of
                Panic \<Rightarrow> Panic
              | Ret (c, e) \<Rightarrow> Ret (st1\<lparr>crHeap := (crHeap st1)(a := c)\<rparr>, map_option CeSend e)))"

definition fresh :: "int \<Rightarrow> int \<Rightarrow> bool" where
  "fresh now t \<longleftrightarrow> now - t < cacheExpiry"

definition queryMessage :: "('d, 'g) center_env \<Rightarrow> int \<Rightarrow> bytes \<Rightarrow> ('d, 'g) center_server
    \<Rightarrow> ('d, 'g) center_server \<times> (string + message_record option)" where
  "queryMessage E now i st =
     (let k = hex_string i
      in case qmMessages st k of
           Some (r, t) \<Rightarrow>
             if fresh now t then (st\<lparr>qmHits := qmHits st + 1\<rparr>, Inr (Some r))
             else (case QueryMessage (ceDb E) i (st\<lparr>qmMisses := qmMisses st + 1\<rparr>) of
                     (st1, Inl e) \<Rightarrow> (st1, Inl e)
                   | (st1, Inr None) \<Rightarrow> (st1, Inr None)
                   | (st1, Inr (Some r)) \<Rightarrow> (st1\<lparr>qmMessages := (qmMessages st1)(k \<mapsto> (r, now))\<rparr>, Inr (Some r)))
         | None \<Rightarrow>
             (case QueryMessage (ceDb E) i (st\<lparr>qmMisses := qmMisses st + 1\<rparr>) of
                (st1, Inl e) \<Rightarrow> (st1, Inl e)
              | (st1, Inr None) \<Rightarrow> (st1, Inr None)
              | (st1, Inr (Some r)) \<Rightarrow> (st1\<lparr>qmMessages := (qmMessages st1)(k \<mapsto> (r, now))\<rparr>, Inr (Some r))))"

definition roomHit :: "int \<Rightarrow> u64 \<Rightarrow> int \<Rightarrow> int \<Rightarrow> ('d, 'g) center_server \<Rightarrow> message_record list option" where
  "roomHit now room start limit st =
     (case qmRooms st room of
        Some c \<Rightarrow> if crStart c = start \<and> crLimit c = limit \<and> fresh now (crAt c) then Some (crMessages c) else None
      | None \<Rightarrow> None)"

definition queryRoomMessages :: "('d, 'g) center_env \<Rightarrow> int \<Rightarrow> u64 \<Rightarrow> int \<Rightarrow> int \<Rightarrow> ('d, 'g) center_server
    \<Rightarrow> ('d, 'g) center_server \<times> (string + message_record list)" where
  "queryRoomMessages E now room start limit st =
     (case roomHit now room start limit st of
        Some rs \<Rightarrow> (st\<lparr>qmHits := qmHits st + 1\<rparr>, Inr rs)
      | None \<Rightarrow>
          (case QueryRoomMessages (ceDb E) room start limit (st\<lparr>qmMisses := qmMisses st + 1\<rparr>) of
             (st1, Inl e) \<Rightarrow> (st1, Inl e)
           | (st1, Inr rs) \<Rightarrow>
               (st1\<lparr>qmRooms := (qmRooms st1)(room \<mapsto> \<lparr>crMessages = rs, crAt = now, crStart = start, crLimit = limit\<rparr>)\<rparr>, Inr rs)))"

definition recordToMessageContent :: "message_record \<Rightarrow> MessageContentMsg" where
  "recordToMessageContent r =
     \<lparr>mc_message_id = mrecMessage r, mc_room_id = ucast (mrecRoom r), mc_user_id = ucast (mrecUser r), mc_content = mrecContent r,
      mc_type = (if mrecType r = ''image'' then MESSAGE_TYPE_IMAGE else if mrecType r = ''file'' then MESSAGE_TYPE_FILE
                 else MESSAGE_TYPE_TEXT),
      mc_reply_to = 0, mc_timestamp = word_of_int (mrecTime r), mc_status = MESSAGE_STATUS_SUCCESS\<rparr>"

definition recordsToMessageContents :: "message_record list \<Rightarrow> MessageContentMsg list" where
  "recordsToMessageContents rs = map recordToMessageContent rs"

definition qm_sendMessageFetchError :: "('d, 'g) center_env \<Rightarrow> int \<Rightarrow> nat \<Rightarrow> string \<Rightarrow> ('d, 'g) center_action" where
  "qm_sendMessageFetchError E now a t = server_sendResponse E now a (MessageFetchResponse \<lparr>mfs_message_id = [], mfs_exists = False,
     mfs_status = MESSAGE_STATUS_FAILED, mfs_reason = t, mfs_processed_at = 0, mfs_content = None\<rparr>)"

definition qm_sendRoomMessageFetchError :: "('d, 'g) center_env \<Rightarrow> int \<Rightarrow> nat \<Rightarrow> string \<Rightarrow> ('d, 'g) center_action" where
  "qm_sendRoomMessageFetchError E now a t = server_sendResponse E now a (RoomMessageFetchResponse \<lparr>rfs_room_id = 0, rfs_messages = [],
     rfs_has_more = False, rfs_next_before_id = 0, rfs_status = ROOM_MESSAGE_FETCH_FAILED, rfs_reason = t\<rparr>)"

text \<open>What is deferred: the counters, whatever the handler returns.\<close>

definition queried :: "(('d, 'g) center_server \<times> center_error option) outcome \<Rightarrow> (('d, 'g) center_server \<times> center_error option) outcome" where
  "queried r = (case r of Panic \<Rightarrow> Panic | Ret (st, e) \<Rightarrow> Ret (st\<lparr>qmQueries := qmQueries st + 1, ssQueried := ssQueried st + 1\<rparr>, e))"

definition fetchResponse :: "bytes \<Rightarrow> message_record option \<Rightarrow> MessageFetchResponseMsg" where
  "fetchResponse i r = \<lparr>mfs_message_id = i, mfs_exists = (r \<noteq> None), mfs_status = MESSAGE_STATUS_SUCCESS,
     mfs_reason = ''Query completed'', mfs_processed_at = 0, mfs_content = map_option recordToMessageContent r\<rparr>"

definition HandleMessageFetchRequest :: "('d, 'g) center_env \<Rightarrow> int \<Rightarrow> nat \<Rightarrow> MessageFetchRequestMsg \<Rightarrow> ('d, 'g) center_action" where
  "HandleMessageFetchRequest E now a req st =
     queried
       (case queryMessage E now (mfr_message_id req) (onRouter a IncrementQueriesProcessed st) of
          (st1, Inl err) \<Rightarrow> qm_sendMessageFetchError E now a (''Query failed: '' @ err) st1
        | (st1, Inr r) \<Rightarrow> server_sendResponse E now a (MessageFetchResponse (fetchResponse (mfr_message_id req) r)) st1)"

definition queryLimit :: "u32 \<Rightarrow> int" where
  "queryLimit l = (if uint l \<le> 0 \<or> uint l > 1000 then 100 else uint l)"

definition queryStart :: "int \<Rightarrow> u64 \<Rightarrow> int" where
  "queryStart now since = sint (if since = 0 then word_of_int (now div 1000000) else since)"

definition roomResponse :: "u64 \<Rightarrow> message_record list \<Rightarrow> RoomMessageFetchResponseMsg" where
  "roomResponse room rs = \<lparr>rfs_room_id = room, rfs_messages = recordsToMessageContents rs, rfs_has_more = False, rfs_next_before_id = 0,
     rfs_status = ROOM_MESSAGE_FETCH_SUCCESS, rfs_reason = ''Found '' @ dec_string (length rs) @ '' messages''\<rparr>"

definition HandleRoomMessageFetchRequest :: "('d, 'g) center_env \<Rightarrow> int \<Rightarrow> nat \<Rightarrow> RoomMessageFetchRequestMsg \<Rightarrow> ('d, 'g) center_action" where
  "HandleRoomMessageFetchRequest E now a req st =
     queried
       (case queryRoomMessages E now (rfr_room_id req) (queryStart now (rfr_since_timestamp req)) (queryLimit (rfr_limit req))
               (onRouter a IncrementQueriesProcessed st) of
          (st1, Inl err) \<Rightarrow> qm_sendRoomMessageFetchError E now a (''Query failed: '' @ err) st1
        | (st1, Inr rs) \<Rightarrow> server_sendResponse E now a (RoomMessageFetchResponse (roomResponse (rfr_room_id req) rs)) st1)"

definition cleanupExpiredCache :: "int \<Rightarrow> ('d, 'g) center_server \<Rightarrow> ('d, 'g) center_server" where
  "cleanupExpiredCache now st =
     st\<lparr>qmMessages := (\<lambda>k. case qmMessages st k of Some (r, t) \<Rightarrow> if now - t > cacheExpiry then None else Some (r, t) | None \<Rightarrow> None),
        qmRooms := (\<lambda>k. case qmRooms st k of Some c \<Rightarrow> if now - crAt c > cacheExpiry then None else Some c | None \<Rightarrow> None)\<rparr>"

definition qm_ClearCache :: "('d, 'g) center_server \<Rightarrow> ('d, 'g) center_server" where
  "qm_ClearCache st = st\<lparr>qmMessages := (\<lambda>_. None), qmRooms := (\<lambda>_. None)\<rparr>"

section \<open>The server\<close>

definition mcs_handleHeartbeat :: "('d, 'g) center_env \<Rightarrow> int \<Rightarrow> nat \<Rightarrow> u64 \<Rightarrow> ('d, 'g) center_action" where
  "mcs_handleHeartbeat E now a ts st =
     server_sendResponse E now a (HeartbeatAck ts (word_of_int (now div 1000000))) (onRouter a (mc_UpdateHeartbeat now) st)"

definition mcs_handleACKMessage :: "bool \<Rightarrow> envelope \<Rightarrow> ('d, 'g) center_action" where
  "mcs_handleACKMessage reliable e st = Ret (if reliable then fst (cr_HandleACK e st) else st, None)"

text \<open>The effects are those of \<open>MessageStore\<close>; a query has none.\<close>

definition noEffect :: "('s \<times> center_error option) outcome \<Rightarrow> ('s \<times> center_error option \<times> store_effect list) outcome" where
  "noEffect r = (case r of Panic \<Rightarrow> Panic | Ret (st, e) \<Rightarrow> Ret (st, e, []))"

definition mcs_HandleMessage :: "('d, 'g) center_env \<Rightarrow> bool \<Rightarrow> int \<Rightarrow> nat \<Rightarrow> bytes \<Rightarrow> ('d, 'g) center_server
    \<Rightarrow> (('d, 'g) center_server \<times> center_error option \<times> store_effect list) outcome" where
  "mcs_HandleMessage E reliable now a data st =
     (case Deserialize (ceUnmarshal E) (now div 1000000) data of
        Inl err \<Rightarrow> Ret (st, Some (CeDeserialize err), [])
      | Inr e \<Rightarrow>
          (let st1 = st\<lparr>ssReceived := ssReceived st + 1\<rparr>
           in case Message e of
                Some (MessageFetchRequest req) \<Rightarrow> noEffect (HandleMessageFetchRequest E now a req st1)
              | Some (RoomMessageFetchRequest req) \<Rightarrow> noEffect (HandleRoomMessageFetchRequest E now a req st1)
              | Some (Heartbeat ts) \<Rightarrow> noEffect (mcs_handleHeartbeat E now a ts st1)
              | Some (MessageFetchResponse _) \<Rightarrow> noEffect (mcs_handleACKMessage reliable e st1)
              | Some (RoomMessageFetchResponse _) \<Rightarrow> noEffect (mcs_handleACKMessage reliable e st1)
              | Some (HeartbeatAck _ _) \<Rightarrow> noEffect (mcs_handleACKMessage reliable e st1)
              | _ \<Rightarrow> mm_PersistMessage E now e st1))"

definition mcs_performHeartbeat :: "('d, 'g) center_server \<Rightarrow> ('d, 'g) center_server" where
  "mcs_performHeartbeat st = st\<lparr>ssPending := of_nat (GetPendingCount st)\<rparr>"

definition mcs_performCleanup :: "('d, 'g) center_env \<Rightarrow> bool \<Rightarrow> int \<Rightarrow> int \<Rightarrow> int \<Rightarrow> string option \<Rightarrow> ('d, 'g) center_server
    \<Rightarrow> ('d, 'g) center_server \<times> store_effect list" where
  "mcs_performCleanup E reliable ttl now cutoff w st =
     (let st1 = CleanupExpiredMessages (ceDb E) cutoff st
      in km_Cleanup w (if reliable then cr_Cleanup ttl now st1 else st1))"

section \<open>Events\<close>

definition mcs_generateConnectionID :: "int \<Rightarrow> string \<Rightarrow> string" where
  "mcs_generateConnectionID now addr = ''msgcenter_'' @ addr @ ''_'' @ dec_string (nat now)"

definition mcs_OnConnectionAccepted :: "int \<Rightarrow> nat \<Rightarrow> string \<Rightarrow> ('d, 'g) center_server \<Rightarrow> ('d, 'g) center_server" where
  "mcs_OnConnectionAccepted now a addr st =
     st\<lparr>crHeap := (crHeap st)(a := NewRouterConnection now (mcs_generateConnectionID now addr) (Some a)),
        ssRouters := List.insert a (ssRouters st), ssTotal := ssTotal st + 1, ssActive := ssActive st + 1,
        ssRouterCount := ssRouterCount st + 1\<rparr>"

definition mcs_OnConnectionClosed :: "nat \<Rightarrow> ('d, 'g) center_server \<Rightarrow> ('d, 'g) center_server outcome" where
  "mcs_OnConnectionClosed a st =
     (if a \<notin> set (ssRouters st) then Ret st
      else case mc_Close (crHeap st a) of
             Panic \<Rightarrow> Panic
           | Ret (c, _) \<Rightarrow> Ret (st\<lparr>crHeap := (crHeap st)(a := c), ssRouters := remove1 a (ssRouters st), ssActive := ssActive st - 1,
               ssRouterCount := ssRouterCount st - 1\<rparr>))"

definition mcs_OnMessageReceived :: "('d, 'g) center_env \<Rightarrow> bool \<Rightarrow> int \<Rightarrow> nat \<Rightarrow> bytes \<Rightarrow> ('d, 'g) center_server
    \<Rightarrow> (('d, 'g) center_server \<times> center_error option \<times> store_effect list) outcome" where
  "mcs_OnMessageReceived E reliable now a data st =
     (if a \<in> set (ssRouters st) then mcs_HandleMessage E reliable now a data st else Ret (st, Some CeUnknownConnection, []))"

end
