(* ===== verification/MessageDatabase.thy ===== *)
theory MessageDatabase
  imports MessageStore
begin

text \<open>
  What the message center relies on of its database.  The database is MySQL; \<open>db_contract\<close> is what its documentation
  says of the statements in \<^verbatim>\<open>msgcenter/database_manager.go\<close> on the table \<^verbatim>\<open>messages\<close> of \<^verbatim>\<open>msgcenter/server.go\<close> and
  \<^verbatim>\<open>docs/schema.sql\<close>, with the rows of the table as a list: \<^verbatim>\<open>INSERT IGNORE\<close> adds no second row for an id of the unique
  column \<^verbatim>\<open>message_id BINARY(16)\<close>, and keeps the values of a message that fits its columns; values that do not
  fit are adjusted with a warning, and nothing is said of them here but the id.  The two \<^verbatim>\<open>SELECT\<close>s find rows of
  the table.  \<open>db_deletes\<close> is what it says of the \<^verbatim>\<open>DELETE\<close> with a limit: some of the rows that are too old, at most
  as many as the limit.  Lists with \<open>listDb\<close> satisfy both.
\<close>

section \<open>The database\<close>

text \<open>A message that the columns of the table hold: \<^verbatim>\<open>BINARY(16)\<close>, \<^verbatim>\<open>VARCHAR(50)\<close>, \<^verbatim>\<open>TEXT\<close> in \<^verbatim>\<open>utf8mb4\<close>, \<^verbatim>\<open>BLOB\<close>.\<close>

definition fits :: "message_info \<Rightarrow> bool" where
  "fits m \<longleftrightarrow> length (miID m) = 16 \<and> length (miType m) \<le> 50 \<and> length (miContent m) \<le> 65535 \<and> length (miData m) \<le> 65535 \<and>
     utf8_Valid (go_bytes (miType m)) \<and> utf8_Valid (go_bytes (miContent m))"

definition record_of :: "message_info \<Rightarrow> message_record \<Rightarrow> bool" where
  "record_of m r \<longleftrightarrow> mrecMessage r = binary16 (miID m) \<and>
     (fits m \<longrightarrow> mrecUser r = miUser m \<and> mrecRoom r = miRoom m \<and> mrecLogin r = miLogin m \<and>
        mrecType r = miType m \<and> mrecContent r = miContent m \<and> mrecData r = miData m)"

definition hasRow :: "bytes \<Rightarrow> message_record list \<Rightarrow> bool" where
  "hasRow i rs \<longleftrightarrow> (\<exists>r \<in> set rs. mrecMessage r = i)"

definition db_contract :: "'d db_ops \<Rightarrow> ('d \<Rightarrow> message_record list) \<Rightarrow> bool" where
  "db_contract D rows \<longleftrightarrow>
     (\<forall>m d d'. dbInsert D m d = (d', None) \<longrightarrow>
        (if hasRow (binary16 (miID m)) (rows d) then rows d' = rows d else (\<exists>r. record_of m r \<and> rows d' = rows d @ [r]))) \<and>
     (\<forall>m d d' e. dbInsert D m d = (d', Some e) \<longrightarrow> rows d' = rows d) \<and>
     (\<forall>i d x. dbFind D i d = Inr x \<longrightarrow> x = find (\<lambda>r. mrecMessage r = i) (rows d)) \<and>
     (\<forall>room start limit d rs. dbRoom D room start limit d = Inr rs \<longrightarrow> (\<forall>r \<in> set rs. r \<in> set (rows d) \<and> start \<le> mrecTime r))"

text \<open>The insert of a message does not fail, in whatever state the database is.\<close>

definition insertable :: "'d db_ops \<Rightarrow> message_info \<Rightarrow> bool" where
  "insertable D m \<longleftrightarrow> (\<forall>d. snd (dbInsert D m d) = None)"

lemma binary16_id [simp]: "length i = 16 \<Longrightarrow> binary16 i = i"
  by (simp add: binary16_def)

lemma fits_id [simp]: "fits m \<Longrightarrow> binary16 (miID m) = miID m"
  by (simp add: fits_def)

lemma hasRow_image: "hasRow i rs \<longleftrightarrow> i \<in> mrecMessage ` set rs"
  by (auto simp: hasRow_def)

lemma listDb_insert:
  assumes "dbInsert listDb m d = (d', e)"
  shows "e = None \<and> (if hasRow (binary16 (miID m)) d then d' = d else \<exists>r. record_of m r \<and> d' = d @ [r])"
proof (cases "binary16 (miID m) \<in> mrecMessage ` set d")
  case True
  then show ?thesis using assms unfolding hasRow_image by (simp add: listDb_def)
next
  case False
  let ?r = "\<lparr>mrecID = int (length d), mrecMessage = binary16 (miID m), mrecUser = miUser m, mrecRoom = miRoom m, mrecLogin = miLogin m,
    mrecType = miType m, mrecContent = miContent m, mrecData = miData m, mrecTime = miTime m div 1000 * 1000\<rparr>"
  have "d' = d @ [?r] \<and> e = None" using assms False by (simp add: listDb_def)
  moreover have "record_of m ?r" by (simp add: record_of_def)
  ultimately show ?thesis using False unfolding hasRow_image by auto
qed

lemma listDb_insertable [simp]: "insertable listDb m"
  unfolding insertable_def using listDb_insert [OF surjective_pairing] by blast

lemma listDb_find: "dbFind listDb i d = Inr x \<Longrightarrow> x = find (\<lambda>r. mrecMessage r = i) d"
  by (simp add: listDb_def)

lemma listDb_room: "dbRoom listDb room start limit d = Inr rs \<Longrightarrow> r \<in> set rs \<Longrightarrow> r \<in> set d \<and> start \<le> mrecTime r"
  by (auto simp: listDb_def dest: in_set_takeD)

lemma listDb_contract: "db_contract listDb (\<lambda>d. d)"
  unfolding db_contract_def
proof (intro conjI allI impI ballI)
  fix m d d' assume "dbInsert listDb m d = (d', None)"
  then show "if hasRow (binary16 (miID m)) d then d' = d else \<exists>r. record_of m r \<and> d' = d @ [r]" using listDb_insert by blast
next
  fix m d d' e assume "dbInsert listDb m d = (d', Some e)"
  then show "d' = d" using listDb_insert by blast
next
  fix i d x assume "dbFind listDb i d = Inr x"
  then show "x = find (\<lambda>r. mrecMessage r = i) d" by (rule listDb_find)
qed (use listDb_room in blast)+

text \<open>What one insert, and what a batch of inserts, does to the rows.\<close>

lemma insert_cases:
  assumes "db_contract D rows"
  obtains (same) "rows (fst (dbInsert D m d)) = rows d" "snd (dbInsert D m d) = None \<Longrightarrow> hasRow (binary16 (miID m)) (rows d)"
  | (new) r where "rows (fst (dbInsert D m d)) = rows d @ [r]" "record_of m r" "\<not> hasRow (binary16 (miID m)) (rows d)"
proof (cases "snd (dbInsert D m d)")
  case None
  have "if hasRow (binary16 (miID m)) (rows d) then rows (fst (dbInsert D m d)) = rows d
      else \<exists>r. record_of m r \<and> rows (fst (dbInsert D m d)) = rows d @ [r]"
    using assms None unfolding db_contract_def by (metis prod.collapse)
  then show thesis using same new None by (cases "hasRow (binary16 (miID m)) (rows d)") auto
next
  case (Some e)
  have "rows (fst (dbInsert D m d)) = rows d" using assms Some unfolding db_contract_def by (metis prod.collapse)
  then show thesis using same Some by simp
qed

text \<open>The rows of a table have different ids.\<close>

definition distinctRows :: "message_record list \<Rightarrow> bool" where
  "distinctRows rs \<longleftrightarrow> distinct (map mrecMessage rs)"

text \<open>The rows are those of the start and new ones, which are the records of some of the messages \<open>ms\<close>; every
  message whose insert works has one.\<close>

definition stored_rows :: "'d db_ops \<Rightarrow> message_record list \<Rightarrow> persist_message list \<Rightarrow> message_record list \<Rightarrow> bool" where
  "stored_rows D rs0 ms rs \<longleftrightarrow>
     (\<exists>new. rs = rs0 @ new \<and> (\<forall>r \<in> set new. \<exists>q \<in> set ms. record_of (pmInfo q) r)) \<and>
     (\<forall>q \<in> set ms. insertable D (pmInfo q) \<longrightarrow> hasRow (binary16 (miID (pmInfo q))) rs) \<and>
     (distinctRows rs0 \<longrightarrow> distinctRows rs)"

lemma stored_rows_start: "stored_rows D rs [] rs"
  by (simp add: stored_rows_def)

lemma stored_rows_insert:
  assumes "db_contract D rows" "stored_rows D rs0 ms (rows d)"
  shows "stored_rows D rs0 (ms @ [q]) (rows (fst (dbInsert D (pmInfo q) d)))"
  using assms(1)
proof (cases rule: insert_cases [where m = "pmInfo q" and d = d])
  case same
  then show ?thesis using assms(2) unfolding stored_rows_def by (auto simp: insertable_def)
next
  case (new r)
  have d: "distinctRows (rows d) \<Longrightarrow> distinctRows (rows d @ [r])"
    using new(2,3) by (auto simp: distinctRows_def hasRow_image record_of_def simp del: distinct_map)
  have "hasRow (binary16 (miID (pmInfo q))) (rows d @ [r])" using new(2) by (simp add: hasRow_def record_of_def)
  then show ?thesis using assms(2) d new(1,2) unfolding stored_rows_def by (auto simp: hasRow_def)
qed

lemma stored_rows_all:
  assumes "db_contract D rows"
  shows "stored_rows D rs0 ms (rows d) \<Longrightarrow> stored_rows D rs0 (ms @ batch) (rows (insertAll D batch d))"
  unfolding insertAll_def
proof (induction batch arbitrary: ms d)
  case (Cons q batch)
  from Cons.IH [OF stored_rows_insert [OF assms Cons.prems]] show ?case by simp
qed simp

lemma stored_rows_perm: "set ms' = set ms \<Longrightarrow> stored_rows D rs0 ms rs \<Longrightarrow> stored_rows D rs0 ms' rs"
  by (simp add: stored_rows_def)

lemma one_row:
  assumes "distinctRows rs" "hasRow i rs"
  shows "length (filter (\<lambda>r. mrecMessage r = i) rs) = 1"
proof -
  obtain r us vs where r: "rs = us @ r # vs" "mrecMessage r = i" using assms(2) by (auto simp: hasRow_def dest: split_list)
  then have "filter (\<lambda>r. mrecMessage r = i) us = []" "filter (\<lambda>r. mrecMessage r = i) vs = []"
    using assms(1) by (auto simp: distinctRows_def filter_empty_conv image_iff)
  with r show ?thesis by simp
qed

text \<open>An insert that fails does not show: the batch is reported as stored, counted, and the message is not there.\<close>

lemma failed_insert_is_silent:
  assumes "db_contract D rows" "\<And>d. snd (dbInsert D (pmInfo pm) d) \<noteq> None" "\<not> hasRow (binary16 (miID (pmInfo pm))) (rows (msDb st))"
  shows "\<exists>st1. BatchInsertMessages D None None [pm] st = (st1, None) \<and> dmInserts st1 = dmInserts st + 1 \<and>
    \<not> hasRow (binary16 (miID (pmInfo pm))) (rows (msDb st1))"
proof -
  obtain d e where "dbInsert D (pmInfo pm) (msDb st) = (d, Some e)" using assms(2) by (metis not_None_eq prod.collapse)
  moreover from this have "rows d = rows (msDb st)" using assms(1) unfolding db_contract_def by blast
  ultimately show ?thesis using assms(3) by (simp add: BatchInsertMessages_def insertAll_def)
qed

section \<open>Expiry\<close>

definition db_deletes :: "'d db_ops \<Rightarrow> ('d \<Rightarrow> message_record list) \<Rightarrow> bool" where
  "db_deletes D rows \<longleftrightarrow>
     (\<forall>t n d d' e. dbDeleteBefore D t n d = (d', e) \<longrightarrow>
        subseq (rows d') (rows d) \<and> length (rows d) \<le> length (rows d') + n \<and>
        filter (\<lambda>r. t \<le> mrecTime r) (rows d') = filter (\<lambda>r. t \<le> mrecTime r) (rows d))"

lemma dropOld_law:
  "subseq (dropOld t n rs) rs \<and> length rs \<le> length (dropOld t n rs) + n \<and>
   filter (\<lambda>r. t \<le> mrecTime r) (dropOld t n rs) = filter (\<lambda>r. t \<le> mrecTime r) rs"
proof (induction rs arbitrary: n)
  case (Cons r rs)
  from Cons.IH [of n] Cons.IH [of "n - 1"] show ?case by auto
qed simp

lemma listDb_deletes: "db_deletes listDb (\<lambda>d. d)"
  unfolding db_deletes_def using dropOld_law by (auto simp: listDb_def)

lemma delete_distinct:
  assumes "db_deletes D rows" "distinctRows (rows d)"
  shows "distinctRows (rows (fst (dbDeleteBefore D t n d)))"
proof -
  have "subseq (rows (fst (dbDeleteBefore D t n d))) (rows d)" using assms(1) unfolding db_deletes_def by (metis prod.collapse)
  then have "subseq (map mrecMessage (rows (fst (dbDeleteBefore D t n d)))) (map mrecMessage (rows d))" by (rule subseq_map)
  then show ?thesis using assms(2) unfolding distinctRows_def by (induction rule: list_emb.induct) (auto dest: list_emb_set)
qed

section \<open>The rows under the steps of the message manager\<close>

definition keeping :: "store_event \<Rightarrow> bool" where
  "keeping x \<longleftrightarrow> (case x of SeExpire _ \<Rightarrow> False | _ \<Rightarrow> True)"

lemma write_rows:
  assumes "db_contract (ceDb E) rows" "stored_rows (ceDb E) rs0 ms (rows (msDb st))"
    and "batchWriteToDatabase E b c batch st = (st1, eff)"
  shows "stored_rows (ceDb E) rs0 (ms @ storedOf eff) (rows (msDb st1))"
proof -
  consider (empty) "st1 = st\<lparr>mmBatches := mmBatches st + 1, ssWrites := ssWrites st + of_nat (length batch)\<rparr>" "eff = [Stored []]"
    | (failed) "msDb st1 = msDb st" "eff = [StoreFailed batch]"
    | (stored) "msDb st1 = insertAll (ceDb E) batch (msDb st)" "eff = [Stored batch]"
    using assms(3) by (auto simp: batchWriteToDatabase_def BatchInsertMessages_def split: if_splits option.splits)
  then show ?thesis
  proof cases
    case stored
    then show ?thesis using stored_rows_all [OF assms(1,2), of batch] by simp
  qed (use assms(2) in simp_all)
qed

lemma store_step_rows:
  assumes "db_contract (ceDb E) rows" "storeStep E x st = Ret (st1, eff)"
    and "stored_rows (ceDb E) rs0 ms (rows (msDb st))" "keeping x"
  shows "stored_rows (ceDb E) rs0 (ms @ storedOf eff) (rows (msDb st1))"
proof (cases x)
  case (SePersist now e)
  have "msDb st1 = msDb st \<and> storedOf eff = []" by (cases rule: persist_step [OF assms(2) [unfolded SePersist]]) auto
  then show ?thesis using assms(3) by simp
next
  case SeProcess
  then have "messageProcessLoop E st = (st1, eff)" using assms(2) by simp
  then have "msDb st1 = msDb st \<and> storedOf eff = []" by (cases rule: process_step) (auto simp: process_fields)
  then show ?thesis using assms(3) by simp
next
  case (SeKafka i)
  then have "msDb st1 = msDb st \<and> storedOf eff = []" using assms(2) by (auto simp: sendToKafka_fields split: if_splits option.splits)
  then show ?thesis using assms(3) by simp
next
  case SeTick
  then have "msDb st1 = msDb st \<and> storedOf eff = []" using assms(2) by (auto simp: triggerBatchWrite_def)
  then show ?thesis using assms(3) by simp
next
  case (SeWrite i b c)
  let ?st = "st\<lparr>goWrites := without i (goWrites st)\<rparr>"
  have "stored_rows (ceDb E) rs0 ms (rows (msDb ?st))" using assms(3) by simp
  from write_rows [OF assms(1) this] show ?thesis using assms(2,3) SeWrite by (auto split: if_splits)
next
  case SeKafkaTick
  then have "msDb st1 = msDb st \<and> storedOf eff = []" using assms(2) by (auto simp: triggerBatchSend_def)
  then show ?thesis using assms(3) by simp
next
  case (SeSend i w)
  then have "msDb st1 = msDb st \<and> storedOf eff = []" using assms(2) by (auto simp: sendBatchToKafka_def split: if_splits option.splits)
  then show ?thesis using assms(3) by simp
next
  case (SeKafkaClean w)
  then have "msDb st1 = msDb st \<and> storedOf eff = []" using assms(2)
    by (auto simp: km_Cleanup_def km_flushBatch_def sendBatchToKafka_def split: if_splits option.splits)
  then show ?thesis using assms(3) by simp
next
  case (SeExpire t)
  then show ?thesis using assms(4) by (simp add: keeping_def)
next
  case (SeStop b c)
  let ?st = "st\<lparr>mmQueue := (mmQueue st)\<lparr>chClosed := True\<rparr>\<rparr>"
  have ok: "stored_rows (ceDb E) rs0 ms (rows (msDb ?st))" using assms(3) by simp
  have s: "mm_flushBatch E b c ?st = (st1, eff)" using assms(2) SeStop by (simp add: mm_Stop_def close_chan_def split: if_splits)
  show ?thesis
  proof (cases "mmBatch st = []")
    case True
    then show ?thesis using s ok by (auto simp: mm_flushBatch_def)
  next
    case False
    then obtain st2 where "batchWriteToDatabase E b c (mmBatch st) ?st = (st2, eff)" "msDb st1 = msDb st2"
      using s by (auto simp: mm_flushBatch_def split: prod.splits)
    from write_rows [OF assms(1) ok this(1)] this(2) show ?thesis by simp
  qed
qed

lemma store_run_rows:
  assumes "db_contract (ceDb E) rows"
  shows "storeRun E xs (st, es) = Ret (st1, es1) \<Longrightarrow> \<forall>x \<in> set xs. keeping x \<Longrightarrow>
    stored_rows (ceDb E) rs0 (storedOf es) (rows (msDb st)) \<Longrightarrow> stored_rows (ceDb E) rs0 (storedOf es1) (rows (msDb st1))"
proof (induction xs arbitrary: st es)
  case (Cons x xs)
  obtain st2 eff where s: "storeStep E x st = Ret (st2, eff)" using Cons.prems(1) by (auto split: outcome.splits)
  have "stored_rows (ceDb E) rs0 (storedOf (es @ eff)) (rows (msDb st2))"
    using store_step_rows [OF assms s Cons.prems(3)] Cons.prems(2) by simp
  then show ?case using Cons.IH [of st2 "es @ eff"] Cons.prems s by simp
qed simp

text \<open>Expiry keeps the ids of the rows different, too.\<close>

lemma store_step_distinct:
  assumes "db_contract (ceDb E) rows" "db_deletes (ceDb E) rows" "storeStep E x st = Ret (st1, eff)" "distinctRows (rows (msDb st))"
  shows "distinctRows (rows (msDb st1))"
proof (cases "keeping x")
  case True
  from store_step_rows [OF assms(1,3) stored_rows_start True] assms(4) show ?thesis by (simp add: stored_rows_def)
next
  case False
  then obtain t where "x = SeExpire t" by (auto simp: keeping_def split: store_event.splits)
  then show ?thesis using assms(3) delete_distinct [OF assms(2,4)] by (auto simp: CleanupExpiredMessages_def)
qed

end
