(* ===== verification/MessageCenterCorrect.thy ===== *)
theory MessageCenterCorrect
  imports MessageCenter MessageDatabase
begin

text \<open>
  What the message center promises to those who ask it: a stored message can be fetched, what a room query without a
  time finds, and what becomes of reliable messages that fail.
\<close>

section \<open>What is stored can be fetched\<close>

text \<open>What the cache holds is in the database.\<close>

definition cache_ok :: "('d \<Rightarrow> message_record list) \<Rightarrow> ('d, 'g) center_server \<Rightarrow> bool" where
  "cache_ok rows st \<longleftrightarrow>
     (\<forall>i r t. qmMessages st (hex_string i) = Some (r, t) \<longrightarrow> mrecMessage r = i \<and> r \<in> set (rows (msDb st)))"

lemma cache_ok_cong: "qmMessages st1 = qmMessages st \<Longrightarrow> msDb st1 = msDb st \<Longrightarrow> cache_ok rows st1 = cache_ok rows st"
  by (simp add: cache_ok_def)

lemma queryMessage_found:
  assumes "db_contract (ceDb E) rows" "cache_ok rows st" "queryMessage E now i st = (st1, Inr x)"
  shows "(case x of Some r \<Rightarrow> mrecMessage r = i \<and> r \<in> set (rows (msDb st)) | None \<Rightarrow> \<not> hasRow i (rows (msDb st))) \<and> cache_ok rows st1"
proof -
  have f: "dbFind (ceDb E) i (msDb st) = Inr y \<Longrightarrow> y = find (\<lambda>r. mrecMessage r = i) (rows (msDb st))" for y
    using assms(1) by (simp add: db_contract_def)
  have found: "find (\<lambda>r. mrecMessage r = i) rs = Some r \<Longrightarrow> mrecMessage r = i \<and> r \<in> set rs" for rs r
    by (auto simp: find_Some_iff)
  show ?thesis
  proof (cases "\<exists>r t. qmMessages st (hex_string i) = Some (r, t) \<and> fresh now t")
    case True
    then obtain r t where c: "qmMessages st (hex_string i) = Some (r, t)" "fresh now t" by blast
    have "mrecMessage r = i \<and> r \<in> set (rows (msDb st))" using assms(2) c(1) unfolding cache_ok_def by blast
    then show ?thesis using assms(2,3) c cache_ok_cong [of "st\<lparr>qmHits := qmHits st + 1\<rparr>" st rows] by (auto simp: queryMessage_def Let_def)
  next
    case False
    then have d: "dbFind (ceDb E) i (msDb st) = Inr x \<and>
        st1 = (let s = st\<lparr>qmMisses := qmMisses st + 1, dmQueries := dmQueries st + 1\<rparr>
               in case x of None \<Rightarrow> s | Some r \<Rightarrow> s\<lparr>qmMessages := (qmMessages st)(hex_string i \<mapsto> (r, now))\<rparr>)"
      using assms(3) by (auto simp: queryMessage_def QueryMessage_def Let_def split: option.splits sum.splits)
    note x = f [OF d [THEN conjunct1]]
    show ?thesis
    proof (cases x)
      case None
      then have "\<not> hasRow i (rows (msDb st))" using x by (simp add: hasRow_def find_None_iff)
      then show ?thesis using d None assms(2) by (simp add: cache_ok_def Let_def)
    next
      case (Some r)
      then have "mrecMessage r = i \<and> r \<in> set (rows (msDb st))" using x found [of "rows (msDb st)" r] by simp
      then show ?thesis using d Some assms(2) by (auto simp: cache_ok_def Let_def)
    qed
  qed
qed

lemma queryMessage_answers:
  assumes "dbFind (ceDb E) i (msDb st) = Inr x"
  shows "\<exists>st1 y. queryMessage E now i st = (st1, Inr y)"
proof (cases "qmMessages st (hex_string i)")
  case None
  then show ?thesis using assms by (cases x) (simp_all add: queryMessage_def QueryMessage_def)
next
  case (Some c)
  then show ?thesis using assms by (cases c; cases x) (simp_all add: queryMessage_def QueryMessage_def)
qed

text \<open>C17: a message that is in a batch reported as stored can be fetched, if it fits the columns of its table and its
  insert works - an insert that fails inside a batch is only logged, and the batch is reported as stored all the
  same (\<open>failed_insert_is_silent\<close>).  However the goroutines ran since the center started, whatever became of the
  other messages, and as long as nothing has expired: a fetch request for its id is answered, when the database answers
  the query, with a response that says it exists and has its sender, its room and its text, whether the answer comes from
  the cache or from the database.  (Ids are unique: no other message that was stored and no earlier row has this one.)\<close>

theorem stored_message_is_found:
  assumes "db_contract (ceDb E) rows" "insertable (ceDb E) (pmInfo pm)" "fits (pmInfo pm)" "\<forall>x \<in> set xs. keeping x"
    and "storeRun E xs (NewMessageStore d0, []) = Ret (st, es)" "pm \<in> set (storedOf es)"
    and "\<not> hasRow (miID (pmInfo pm)) (rows d0)"
    and "\<forall>q \<in> set (storedOf es). binary16 (miID (pmInfo q)) = miID (pmInfo pm) \<longrightarrow> q = pm"
    and "msDb srv = msDb st" "cache_ok rows srv" "mfr_message_id req = miID (pmInfo pm)"
    and "dbFind (ceDb E) (miID (pmInfo pm)) (msDb st) = Inr x"
  shows "\<exists>srv1 resp c. HandleMessageFetchRequest E now a req srv =
      queried (server_sendResponse E now a (MessageFetchResponse resp) srv1) \<and>
    mfs_exists resp \<and> mfs_content resp = Some c \<and> mc_message_id c = miID (pmInfo pm) \<and> mc_content c = miContent (pmInfo pm) \<and>
    mc_user_id c = ucast (miUser (pmInfo pm)) \<and> mc_room_id c = ucast (miRoom (pmInfo pm))"
proof -
  let ?i = "miID (pmInfo pm)"
  let ?srv = "onRouter a IncrementQueriesProcessed srv"
  have "stored_rows (ceDb E) (rows d0) (storedOf []) (rows (msDb (NewMessageStore d0)))"
    by (simp add: stored_rows_start NewMessageStore_def)
  from store_run_rows [OF assms(1,5,4) this] have ok: "stored_rows (ceDb E) (rows d0) (storedOf es) (rows (msDb st))" .
  have s: "msDb ?srv = msDb st" "cache_ok rows ?srv" using assms(9,10) by (simp_all add: onRouter_def cache_ok_def)
  obtain srv1 y where q: "queryMessage E now ?i ?srv = (srv1, Inr y)"
    using queryMessage_answers [of E ?i ?srv x now] assms(12) s(1) by auto
  have h: "hasRow ?i (rows (msDb st))" using ok assms(2,3,6) unfolding stored_rows_def by auto
  from queryMessage_found [OF assms(1) s(2) q] h obtain r where r: "y = Some r" "mrecMessage r = ?i" "r \<in> set (rows (msDb st))"
    unfolding s(1) by (cases y) auto
  have "r \<notin> set (rows d0)" using r assms(7) by (auto simp: hasRow_def)
  moreover obtain new where "rows (msDb st) = rows d0 @ new" "\<forall>r \<in> set new. \<exists>q \<in> set (storedOf es). record_of (pmInfo q) r"
    using ok unfolding stored_rows_def by blast
  ultimately obtain p where p: "p \<in> set (storedOf es)" "record_of (pmInfo p) r" using r(3) by auto
  then have "p = pm" using assms(8) r(2) by (auto simp: record_of_def)
  then have rec: "mrecUser r = miUser (pmInfo pm)" "mrecRoom r = miRoom (pmInfo pm)" "mrecContent r = miContent (pmInfo pm)"
    using p(2) assms(3) by (simp_all add: record_of_def)
  have "HandleMessageFetchRequest E now a req srv =
      queried (server_sendResponse E now a (MessageFetchResponse (fetchResponse ?i (Some r))) srv1)"
    using q r(1) assms(11) by (simp add: HandleMessageFetchRequest_def)
  then show ?thesis using rec r(2)
    by (intro exI [of _ srv1] exI [of _ "fetchResponse ?i (Some r)"] exI [of _ "recordToMessageContent r"])
      (simp add: fetchResponse_def recordToMessageContent_def)
qed

text \<open>One message on its way into an empty list of rows.\<close>

definition sampleEvents :: "store_event list" where
  "sampleEvents = [SePersist sampleNow sampleEnvelope, SeProcess, SeTick, SeWrite 0 None None]"

lemma sample_run:
  obtains st es pm where "storeRun demoCenter sampleEvents (NewMessageStore [], []) = Ret (st, es)" "storedOf es = [pm]"
    "fits (pmInfo pm)"
proof -
  have m: "sampleNow div 1000000 = Epoch + 5" by (simp add: sampleNow_def)
  obtain info where x: "extractMessageInfo demoCenter (Epoch + 5) sampleEnvelope = Inr info" "fits info"
    using sample_accepted by (auto simp: extractMessageInfo_def ExtractMessageInfo_def sampleEnvelope_def FromBytes_def ToBytes_def
        wf_buildID [unfolded wf_id_def] fits_def messageType_def messageText_def go_bytes_def demoCenter_def Serialize_def GlobalIDLength_def
        split: sum.splits)
  have b: "ceBatch demoCenter = 2" by (simp add: demoCenter_def)
  have "\<exists>st es pm. storeRun demoCenter sampleEvents (NewMessageStore [], []) = Ret (st, es) \<and> storedOf es = [pm] \<and>
      fits (pmInfo pm)"
    by (simp add: sampleEvents_def mm_PersistMessage_def m x NewMessageStore_def make_chan_def try_send_def messageProcessLoop_def
        receive_def process_fields triggerBatchWrite_def batchWriteToDatabase_def BatchInsertMessages_def b without_def Let_def effect_defs)
  then show thesis using that by blast
qed

theorem stored_message_is_found_witness:
  "\<exists>st es pm srv1 resp. storeRun demoCenter sampleEvents (NewMessageStore [], []) = Ret (st, es) \<and> storedOf es = [pm] \<and>
    HandleMessageFetchRequest demoCenter 0 0 \<lparr>mfr_message_id = miID (pmInfo pm), mfr_timestamp = 0\<rparr> (NewMessageCenterServer (msDb st) ()) =
      queried (server_sendResponse demoCenter 0 0 (MessageFetchResponse resp) srv1) \<and> mfs_exists resp"
proof -
  obtain st es pm where r: "storeRun demoCenter sampleEvents (NewMessageStore [], []) = Ret (st, es)" "storedOf es = [pm]"
    "fits (pmInfo pm)" by (rule sample_run)
  let ?i = "miID (pmInfo pm)"
  have D: "ceDb demoCenter = listDb" by (simp add: demoCenter_def)
  have c: "db_contract (ceDb demoCenter) (\<lambda>d. d)" unfolding D by (rule listDb_contract)
  have w: "insertable (ceDb demoCenter) (pmInfo pm)" unfolding D by simp
  have k: "\<forall>x \<in> set sampleEvents. keeping x" by (simp add: sampleEvents_def keeping_def)
  have f: "dbFind (ceDb demoCenter) ?i (msDb st) = Inr (find (\<lambda>r. mrecMessage r = ?i) (msDb st))" unfolding D by (simp add: listDb_def)
  have o: "cache_ok (\<lambda>d. d) (NewMessageCenterServer (msDb st) ())" "msDb (NewMessageCenterServer (msDb st) ()) = msDb st"
    by (simp_all add: cache_ok_def NewMessageCenterServer_def NewMessageStore_def message_store.defs)
  have "\<exists>srv1 resp cc. HandleMessageFetchRequest demoCenter 0 0 \<lparr>mfr_message_id = ?i, mfr_timestamp = 0\<rparr>
        (NewMessageCenterServer (msDb st) ()) = queried (server_sendResponse demoCenter 0 0 (MessageFetchResponse resp) srv1) \<and>
      mfs_exists resp \<and> mfs_content resp = Some cc \<and> mc_message_id cc = ?i \<and> mc_content cc = miContent (pmInfo pm) \<and>
      mc_user_id cc = ucast (miUser (pmInfo pm)) \<and> mc_room_id cc = ucast (miRoom (pmInfo pm))"
    by (rule stored_message_is_found [OF c w r(3) k r(1) _ _ _ o(2,1) _ f]) (simp_all add: r(2) hasRow_def)
  then show ?thesis using r by blast
qed

section \<open>The default of a room query\<close>

text \<open>A room query that gives no time finds nothing.  Its default is the present, and the database returns what
  is not older than that: with every stored message older than the request, the response is a success with no
  messages, however many the room has.\<close>

theorem default_room_query_empty:
  assumes "db_contract (ceDb E) rows" "rfr_since_timestamp req = 0" "0 \<le> now" "now div 1000000 < 2 ^ 63"
    and "\<forall>r \<in> set (rows (msDb st)). mrecTime r < now div 1000000"
    and "qmRooms st (rfr_room_id req) = None"
    and "dbRoom (ceDb E) (rfr_room_id req) (now div 1000000) (queryLimit (rfr_limit req)) (msDb st) = Inr rs"
  shows "\<exists>st1 resp. HandleRoomMessageFetchRequest E now a req st =
      queried (server_sendResponse E now a (RoomMessageFetchResponse resp) st1) \<and>
    rfs_messages resp = [] \<and> rfs_status resp = ROOM_MESSAGE_FETCH_SUCCESS"
proof -
  have s: "queryStart now (rfr_since_timestamp req) = now div 1000000"
  proof -
    have "0 \<le> now div 1000000" using assms(3) by simp
    then have "signed_take_bit 63 (now div 1000000) = now div 1000000" by (intro signed_take_bit_int_eq_self) (use assms(4) in auto)
    then show ?thesis using assms(2) by (simp add: queryStart_def signed_of_int)
  qed
  have "rs = []"
  proof (rule ccontr)
    assume "rs \<noteq> []"
    then obtain r where "r \<in> set rs" by (cases rs) auto
    then have "r \<in> set (rows (msDb st)) \<and> now div 1000000 \<le> mrecTime r" using assms(1,7) by (auto simp: db_contract_def)
    then show False using assms(5) by force
  qed
  then obtain st1 where q: "queryRoomMessages E now (rfr_room_id req) (queryStart now (rfr_since_timestamp req)) (queryLimit (rfr_limit req))
      (onRouter a IncrementQueriesProcessed st) = (st1, Inr [])"
    using assms(6,7) by (auto simp: s queryRoomMessages_def roomHit_def QueryRoomMessages_def onRouter_def)
  show ?thesis
    by (rule exI [of _ st1], rule exI [of _ "roomResponse (rfr_room_id req) []"])
      (simp add: HandleRoomMessageFetchRequest_def q, simp add: roomResponse_def recordsToMessageContents_def)
qed

theorem default_room_query_empty_witness:
  "\<exists>st1 resp. HandleRoomMessageFetchRequest demoCenter sampleNow 0
      \<lparr>rfr_room_id = 7, rfr_before_message_id = 0, rfr_limit = 50, rfr_since_timestamp = 0\<rparr>
      (NewMessageCenterServer [\<lparr>mrecID = 0, mrecMessage = [1], mrecUser = 3, mrecRoom = 7, mrecLogin = 1, mrecType = ''chat'',
         mrecContent = ''hi'', mrecData = [], mrecTime = Epoch\<rparr>] ()) =
      queried (server_sendResponse demoCenter sampleNow 0 (RoomMessageFetchResponse resp) st1) \<and> rfs_messages resp = []"
proof -
  let ?req = "\<lparr>rfr_room_id = 7, rfr_before_message_id = 0, rfr_limit = 50, rfr_since_timestamp = 0\<rparr>"
  let ?srv = "NewMessageCenterServer [\<lparr>mrecID = 0, mrecMessage = [1], mrecUser = 3, mrecRoom = 7, mrecLogin = 1, mrecType = ''chat'',
         mrecContent = ''hi'', mrecData = [], mrecTime = Epoch\<rparr>] ()"
  have D: "ceDb demoCenter = listDb" by (simp add: demoCenter_def)
  have c: "db_contract (ceDb demoCenter) (\<lambda>d. d)" unfolding D by (rule listDb_contract)
  have m: "sampleNow div 1000000 = Epoch + 5" by (simp add: sampleNow_def)
  have q: "dbRoom (ceDb demoCenter) (rfr_room_id ?req) (sampleNow div 1000000) (queryLimit (rfr_limit ?req)) (msDb ?srv) = Inr []"
    unfolding D m by (simp add: listDb_def NewMessageCenterServer_def NewMessageStore_def message_store.defs)
  from default_room_query_empty [OF c _ _ _ _ _ q, of 0] show ?thesis
    by (simp add: m sampleNow_def Epoch_def NewMessageCenterServer_def NewMessageStore_def message_store.defs) blast
qed

section \<open>Messages that fail\<close>

datatype cr_event =
    CrSend rel_kind "string option" int "codec_error + bytes" nat envelope
  | CrAck envelope
  | CrTimeout int "string option" string
  | CrClean int int

fun crStep :: "cr_event \<Rightarrow> ('d, 'z) center_rel_scheme \<times> nat \<Rightarrow> ('d, 'z) center_rel_scheme \<times> nat" where
  "crStep (CrSend kind w now data a e) (st, n) = (fst (cr_send kind w now data a e st), n)"
| "crStep (CrAck e) (st, n) = (fst (cr_HandleACK e st), n)"
| "crStep (CrTimeout m w k) (st, n) =
     (case cr_handleMessageTimeout m w k st of (st1, pr) \<Rightarrow> (st1, if pr = CrBlocked then Suc n else n))"
| "crStep (CrClean ttl now) (st, n) = (cr_Cleanup ttl now st, n)"

definition crCounts :: "('d, 'z) center_rel_scheme \<times> nat \<Rightarrow> i64 \<times> i64 \<times> nat" where
  "crCounts s = (crFailed (fst s), crFetches (fst s), snd s)"

lemma cr_frame [simp]:
  "crFailed (cr_put k p st) = crFailed st" "crFetches (cr_put k p st) = crFetches st"
  "crFailed (fst (cr_removePendingMessage k st)) = crFailed st" "crFetches (fst (cr_removePendingMessage k st)) = crFetches st"
  "crFailed (fst (cr_sync w a d st)) = crFailed st" "crFetches (fst (cr_sync w a d st)) = crFetches st"
  by (simp_all add: cr_put_def cr_removePendingMessage_def cr_sync_def split: prod.split)

lemma cr_send_frame:
  "crFailed (fst (cr_send kind w now data a e st)) = crFailed st \<and> crFetches (fst (cr_send kind w now data a e st)) = crFetches st"
proof (cases data)
  case (Inr d)
  let ?p = "\<lparr>cpID = MessageId e, cpData = d, cpTarget = a, cpSent = now, cpRetries = 0, cpTimer = False, cpKind = kind\<rparr>"
  obtain st1 err where s: "cr_sync w a d (cr_put (cr_getMessageKey e) ?p st) = (st1, err)" by (rule prod.exhaust)
  then have "crFailed st1 = crFailed st" "crFetches st1 = crFetches st"
    using cr_frame(5,6) [of w a d "cr_put (cr_getMessageKey e) ?p st"] by simp_all
  then show ?thesis using Inr s by (cases err) (simp_all add: cr_send_def Let_def)
qed (simp add: cr_send_def)

lemma cr_step_counts:
  assumes "crCounts s = (0, of_nat n, n)"
  shows "\<exists>m. crCounts (crStep x s) = (0, of_nat m, m)"
proof -
  obtain st k where s: "s = (st, k)" by (cases s)
  then have c: "crFailed st = 0" "crFetches st = of_nat n" "k = n" using assms by (simp_all add: crCounts_def)
  show ?thesis
  proof (cases x)
    case (CrSend kind w now data a e)
    then show ?thesis using cr_send_frame [of kind w now data a e st] s c by (auto simp: crCounts_def)
  next
    case (CrAck e)
    have "crFailed (fst (cr_HandleACK e st)) = crFailed st \<and> crFetches (fst (cr_HandleACK e st)) = crFetches st"
      by (auto simp: cr_HandleACK_def cr_removePendingMessage_def split: option.splits)
    then show ?thesis using CrAck s c by (auto simp: crCounts_def)
  next
    case (CrTimeout m w key)
    obtain st1 pr where t: "cr_handleMessageTimeout m w key st = (st1, pr)" by (rule prod.exhaust)
    then have "crFailed st1 = 0 \<and> crFetches st1 = (if pr = CrBlocked then of_nat (Suc n) else of_nat n)"
    proof (cases "map_of (crPending st) key")
      case None
      then show ?thesis using t c by (auto simp: cr_handleMessageTimeout_def)
    next
      case (Some p)
      then show ?thesis using t c
        by (auto simp: cr_handleMessageTimeout_def attemptAlternativeHandling_def cr_handleMessageFailure_def cr_removePendingMessage_def
            cr_put_def cr_sync_def AList.update_conv' Let_def split: if_splits prod.splits option.splits)
    qed
    then show ?thesis using CrTimeout s t c(3) by (auto simp: crCounts_def)
  next
    case (CrClean ttl now)
    then show ?thesis using s c by (auto simp: crCounts_def cr_Cleanup_def cr_cleanup_def)
  qed
qed

text \<open>Whatever is sent, confirmed, timed out and cleaned up: no failure is ever counted; instead, each message that
  is given up leaves a goroutine that waits for the mutex of the message, which it holds itself.\<close>

lemma center_failures_block:
  "\<exists>n. crCounts (fold crStep xs (st\<lparr>crFailed := 0, crFetches := 0\<rparr>, 0)) = (0, of_nat n, n)"
proof -
  have "crCounts s = (0, of_nat n, n) \<Longrightarrow> \<exists>m. crCounts (fold crStep xs s) = (0, of_nat m, m)" for s n
  proof (induction xs arbitrary: s n)
    case (Cons x xs)
    from cr_step_counts [OF Cons.prems] obtain m where "crCounts (crStep x s) = (0, of_nat m, m)" by blast
    from Cons.IH [OF this] show ?case by simp
  qed auto
  from this [of "(st\<lparr>crFailed := 0, crFetches := 0\<rparr>, 0)" 0] show ?thesis by (simp add: crCounts_def)
qed

end
