(* ===== verification/KafkaConsumer.thy ===== *)
theory KafkaConsumer
  imports MessageDatabase
begin

text \<open>
  The consumer of \<^verbatim>\<open>msgcenter/kafka_consumer.go\<close>: it reads back from Kafka what the Kafka manager sent, stores it in
  batches and then commits the offsets.  It runs beside the message manager on the same database, so its state
  extends the one of \<open>MessageStore\<close>.  What the reader delivers, the JSON decoder, and the results of transactions and
  of commits are arguments; the calls that commit an offset are effects.
\<close>

section \<open>Records\<close>

record kafka_record =
  krPartition :: int
  krOffset :: int
  krValue :: bytes

record batch_entry =
  bePersist :: persist_message
  beKafka :: kafka_record

record 'd kafka_consumer = "'d message_store" +
  kcBatch :: "batch_entry list"
  goPersists :: "batch_entry list list"
  kcConsumed :: i64
  kcPersisted :: i64
  kcFailed :: i64

datatype consumer_effect =
    Manager "store_effect list"
  | Consumed batch_entry
  | Unreadable kafka_record
  | Persisted "batch_entry list"
  | PersistFailed "batch_entry list"
  | Commit kafka_record "string option"

definition NewKafkaConsumer :: "'d \<Rightarrow> 'd kafka_consumer" where
  "NewKafkaConsumer d = message_store.extend (NewMessageStore d)
     \<lparr>kcBatch = [], goPersists = [], kcConsumed = 0, kcPersisted = 0, kcFailed = 0\<rparr>"

section \<open>Parsing\<close>

text \<open>\<^verbatim>\<open>hex.DecodeString\<close>\<close>

definition hexVal :: "char \<Rightarrow> nat option" where
  "hexVal c = map_of (zip ''0123456789abcdef'' [0..<16] @ zip ''ABCDEF'' [10..<16]) c"

fun hexDecode :: "string \<Rightarrow> bytes option" where
  "hexDecode [] = Some []"
| "hexDecode [_] = None"
| "hexDecode (a # b # cs) =
     (case (hexVal a, hexVal b, hexDecode cs) of
        (Some x, Some y, Some bs) \<Rightarrow> Some (word_of_nat (16 * x + y) # bs)
      | _ \<Rightarrow> None)"

definition parseKafkaMessage :: "(bytes \<Rightarrow> kafka_value option) \<Rightarrow> int \<Rightarrow> bytes \<Rightarrow> ('d, 'z) kafka_consumer_scheme
    \<Rightarrow> ('d, 'z) kafka_consumer_scheme \<times> persist_message option" where
  "parseKafkaMessage U now data st =
     (case U data of
        None \<Rightarrow> (st\<lparr>kcFailed := kcFailed st + 1\<rparr>, None)
      | Some v \<Rightarrow>
          (case hexDecode (kvID v) of
             None \<Rightarrow> (st\<lparr>kcFailed := kcFailed st + 1\<rparr>, None)
           | Some i \<Rightarrow>
               (st, Some \<lparr>pmEnvelope = None, pmReceived = now,
                  pmInfo = \<lparr>miID = i, miUser = kvUser v, miRoom = kvRoom v, miLogin = kvLogin v, miTime = kvTime v,
                    miType = kvType v, miContent = kvContent v, miData = kvData v\<rparr>\<rparr>)))"

section \<open>Batches\<close>

definition kc_addToBatch :: "('d, 'g) center_env \<Rightarrow> batch_entry \<Rightarrow> ('d, 'z) kafka_consumer_scheme \<Rightarrow> ('d, 'z) kafka_consumer_scheme" where
  "kc_addToBatch E b st =
     (let st1 = st\<lparr>kcBatch := kcBatch st @ [b]\<rparr>
      in if int (length (kcBatch st1)) \<ge> ceBatch E then st1\<lparr>kcBatch := [], goPersists := goPersists st1 @ [kcBatch st1]\<rparr> else st1)"

text \<open>\<open>w i\<close> is the result of the commit of the \<open>i\<close>-th entry.\<close>

definition persistBatch :: "('d, 'g) center_env \<Rightarrow> string option \<Rightarrow> string option \<Rightarrow> (nat \<Rightarrow> string option) \<Rightarrow> batch_entry list
    \<Rightarrow> ('d, 'z) kafka_consumer_scheme \<Rightarrow> ('d, 'z) kafka_consumer_scheme \<times> consumer_effect list" where
  "persistBatch E begun committed w batch st =
     (case BatchInsertMessages (ceDb E) begun committed (map bePersist batch) st of
        (st1, Some _) \<Rightarrow> (st1\<lparr>kcFailed := kcFailed st1 + of_nat (length batch)\<rparr>, [PersistFailed batch])
      | (st1, None) \<Rightarrow>
          (st1\<lparr>kcPersisted := kcPersisted st1 + of_nat (length batch)\<rparr>,
           Persisted batch # map (\<lambda>i. Commit (beKafka (batch ! i)) (w i)) [0..<length batch]))"

definition kc_flushBatch :: "('d, 'g) center_env \<Rightarrow> string option \<Rightarrow> string option \<Rightarrow> (nat \<Rightarrow> string option)
    \<Rightarrow> ('d, 'z) kafka_consumer_scheme \<Rightarrow> ('d, 'z) kafka_consumer_scheme \<times> consumer_effect list" where
  "kc_flushBatch E begun committed w st =
     (if kcBatch st = [] then (st, []) else persistBatch E begun committed w (kcBatch st) (st\<lparr>kcBatch := []\<rparr>))"

definition kc_Stop :: "('d, 'g) center_env \<Rightarrow> string option \<Rightarrow> string option \<Rightarrow> (nat \<Rightarrow> string option)
    \<Rightarrow> ('d, 'z) kafka_consumer_scheme \<Rightarrow> ('d, 'z) kafka_consumer_scheme \<times> consumer_effect list" where
  "kc_Stop E begun committed w st = kc_flushBatch E begun committed w st"

text \<open>One round of the loop: what the reader delivers is an error (\<open>None\<close>; \<open>expired\<close> for a timeout or a
  cancellation), or a record.  \<open>w\<close> is the result of the commit of one that cannot be parsed.\<close>

definition consumeLoop :: "('d, 'g) center_env \<Rightarrow> (bytes \<Rightarrow> kafka_value option) \<Rightarrow> bool \<Rightarrow> int \<Rightarrow> string option \<Rightarrow> kafka_record option
    \<Rightarrow> ('d, 'z) kafka_consumer_scheme \<Rightarrow> ('d, 'z) kafka_consumer_scheme \<times> consumer_effect list" where
  "consumeLoop E U expired now w k st =
     (case k of
        None \<Rightarrow> (if expired then st else st\<lparr>kcFailed := kcFailed st + 1\<rparr>, [])
      | Some r \<Rightarrow>
          (case parseKafkaMessage U now (krValue r) st of
             (st1, None) \<Rightarrow> (st1, [Unreadable r, Commit r w])
           | (st1, Some pm) \<Rightarrow>
               (let b = \<lparr>bePersist = pm, beKafka = r\<rparr>
                in (kc_addToBatch E b (st1\<lparr>kcConsumed := kcConsumed st1 + 1\<rparr>), [Consumed b]))))"

section \<open>Runs\<close>

text \<open>A step of the message manager, or one of the consumer; \<open>KcPersist i\<close> runs the \<open>i\<close>-th of the goroutines that store.\<close>

datatype consumer_event =
    KcStore store_event
  | KcFetch bool int "string option" "kafka_record option"
  | KcPersist nat "string option" "string option" "nat \<Rightarrow> string option"
  | KcFlush "string option" "string option" "nat \<Rightarrow> string option"
  | KcStop "string option" "string option" "nat \<Rightarrow> string option"

fun consumerStep :: "('d, 'g) center_env \<Rightarrow> (bytes \<Rightarrow> kafka_value option) \<Rightarrow> consumer_event \<Rightarrow> ('d, 'z) kafka_consumer_scheme
    \<Rightarrow> (('d, 'z) kafka_consumer_scheme \<times> consumer_effect list) outcome" where
  "consumerStep E U (KcStore x) st = (case storeStep E x st of Panic \<Rightarrow> Panic | Ret (st1, eff) \<Rightarrow> Ret (st1, [Manager eff]))"
| "consumerStep E U (KcFetch expired now w k) st = Ret (consumeLoop E U expired now w k st)"
| "consumerStep E U (KcPersist i b c w) st =
     Ret (if i < length (goPersists st) then persistBatch E b c w (goPersists st ! i) (st\<lparr>goPersists := without i (goPersists st)\<rparr>)
          else (st, []))"
| "consumerStep E U (KcFlush b c w) st = Ret (kc_flushBatch E b c w st)"
| "consumerStep E U (KcStop b c w) st = Ret (kc_Stop E b c w st)"

fun consumerRun :: "('d, 'g) center_env \<Rightarrow> (bytes \<Rightarrow> kafka_value option) \<Rightarrow> consumer_event list
    \<Rightarrow> ('d, 'z) kafka_consumer_scheme \<times> consumer_effect list \<Rightarrow> (('d, 'z) kafka_consumer_scheme \<times> consumer_effect list) outcome" where
  "consumerRun E U [] s = Ret s"
| "consumerRun E U (x # xs) s =
     (case consumerStep E U x (fst s) of Panic \<Rightarrow> Panic | Ret (st1, eff) \<Rightarrow> consumerRun E U xs (st1, snd s @ eff))"

definition consumedOf :: "consumer_effect list \<Rightarrow> batch_entry list" where
  "consumedOf es = concat (map (\<lambda>e. case e of Consumed b \<Rightarrow> [b] | _ \<Rightarrow> []) es)"

definition persistedOf :: "consumer_effect list \<Rightarrow> batch_entry list" where
  "persistedOf es = concat (map (\<lambda>e. case e of Persisted bs \<Rightarrow> bs | _ \<Rightarrow> []) es)"

definition lostOf :: "consumer_effect list \<Rightarrow> batch_entry list" where
  "lostOf es = concat (map (\<lambda>e. case e of PersistFailed bs \<Rightarrow> bs | _ \<Rightarrow> []) es)"

definition committedOf :: "consumer_effect list \<Rightarrow> kafka_record list" where
  "committedOf es = concat (map (\<lambda>e. case e of Commit r _ \<Rightarrow> [r] | _ \<Rightarrow> []) es)"

definition unreadableOf :: "consumer_effect list \<Rightarrow> kafka_record list" where
  "unreadableOf es = concat (map (\<lambda>e. case e of Unreadable r \<Rightarrow> [r] | _ \<Rightarrow> []) es)"

lemmas consumer_effect_defs = consumedOf_def persistedOf_def lostOf_def committedOf_def unreadableOf_def

lemma consumer_effects [simp]:
  "consumedOf (es @ fs) = consumedOf es @ consumedOf fs" "persistedOf (es @ fs) = persistedOf es @ persistedOf fs"
  "lostOf (es @ fs) = lostOf es @ lostOf fs" "committedOf (es @ fs) = committedOf es @ committedOf fs"
  "unreadableOf (es @ fs) = unreadableOf es @ unreadableOf fs"
  "consumedOf [] = []" "persistedOf [] = []" "lostOf [] = []" "committedOf [] = []" "unreadableOf [] = []"
  "consumedOf (e # es) = (case e of Consumed b \<Rightarrow> [b] | _ \<Rightarrow> []) @ consumedOf es"
  "persistedOf (e # es) = (case e of Persisted bs \<Rightarrow> bs | _ \<Rightarrow> []) @ persistedOf es"
  "lostOf (e # es) = (case e of PersistFailed bs \<Rightarrow> bs | _ \<Rightarrow> []) @ lostOf es"
  "committedOf (e # es) = (case e of Commit r _ \<Rightarrow> [r] | _ \<Rightarrow> []) @ committedOf es"
  "unreadableOf (e # es) = (case e of Unreadable r \<Rightarrow> [r] | _ \<Rightarrow> []) @ unreadableOf es"
  by (simp_all add: consumer_effect_defs)

lemma effects_commits [simp]:
  "consumedOf (map (\<lambda>i. Commit (f i) (w i)) is) = []" "persistedOf (map (\<lambda>i. Commit (f i) (w i)) is) = []"
  "lostOf (map (\<lambda>i. Commit (f i) (w i)) is) = []" "unreadableOf (map (\<lambda>i. Commit (f i) (w i)) is) = []"
  "committedOf (map (\<lambda>i. Commit (f i) (w i)) is) = map f is"
  by (induction "is") simp_all

section \<open>What is sent is what is read\<close>

lemma hexVal_digit: "n < 16 \<Longrightarrow> hexVal (hex_digit n) = Some n"
proof -
  assume "n < 16"
  then have "n \<in> set [0..<16]" by simp
  moreover have "\<forall>n \<in> set [0..<16]. hexVal (hex_digit n) = Some n" by (simp add: hexVal_def hex_digit_def upt_conv_Cons)
  ultimately show ?thesis by blast
qed

lemma hexDecode_byte: "hexDecode (hex_byte b @ cs) = map_option ((#) b) (hexDecode cs)"
proof -
  have "unat b div 16 < 16" by (simp add: less_mult_imp_div_less)
  moreover have "word_of_nat (16 * (unat b div 16) + unat b mod 16) = b" by simp
  ultimately show ?thesis by (simp add: hex_byte_def hexVal_digit split: option.split)
qed

lemma hexDecode_hex_string: "hexDecode (hex_string bs) = Some bs"
  by (induction bs) (simp_all add: hex_string_Cons hexDecode_byte)

text \<open>What the consumer reads of a message that the Kafka manager sent is that message.  Whatever message was
  accepted, if the JSON decoder reads back what the encoder wrote, the parsed value has the id, the sender, the room, the
  login, the type, the text, the data and the time of the original, and no failure is counted.\<close>

theorem kafka_roundtrip:
  assumes "createKafkaMessage E pm = Some k" "\<forall>v json. ceJson E v = Some json \<longrightarrow> U json = Some v"
  shows "parseKafkaMessage U now (kgValue k) st = (st, Some \<lparr>pmEnvelope = None, pmReceived = now, pmInfo = pmInfo pm\<rparr>)"
proof -
  obtain json where "ceJson E (kafkaValue (pmInfo pm)) = Some json" "kgValue k = json"
    using assms(1) by (auto simp: createKafkaMessage_def Let_def split: option.splits)
  then have "U (kgValue k) = Some (kafkaValue (pmInfo pm))" using assms(2) by blast
  then show ?thesis by (simp add: parseKafkaMessage_def kafkaValue_def hexDecode_hex_string)
qed

definition sampleInfo :: message_info where
  "sampleInfo = \<lparr>miID = [1, 171] @ replicate 14 0, miUser = 3, miRoom = 7, miLogin = 1, miTime = Epoch, miType = ''chat'', miContent = ''hi'', miData = [9]\<rparr>"

definition sampleRecord :: "int \<Rightarrow> kafka_record" where
  "sampleRecord n = \<lparr>krPartition = 0, krOffset = n, krValue = [2]\<rparr>"

definition demoJson :: "bytes \<Rightarrow> kafka_value option" where
  "demoJson json = Some (kafkaValue sampleInfo)"

theorem kafka_roundtrip_witness:
  "\<exists>k. createKafkaMessage (demoCenter\<lparr>ceJson := \<lambda>v. if v = kafkaValue sampleInfo then Some [2] else None\<rparr>)
      \<lparr>pmEnvelope = None, pmReceived = 0, pmInfo = sampleInfo\<rparr> = Some k \<and>
    parseKafkaMessage demoJson 5 (kgValue k) (NewKafkaConsumer ()) =
      (NewKafkaConsumer (), Some \<lparr>pmEnvelope = None, pmReceived = 5, pmInfo = sampleInfo\<rparr>)"
proof -
  let ?E = "demoCenter\<lparr>ceJson := \<lambda>v. if v = kafkaValue sampleInfo then Some [2] else None\<rparr>"
  let ?pm = "\<lparr>pmEnvelope = None, pmReceived = 0, pmInfo = sampleInfo\<rparr>"
  obtain k where k: "createKafkaMessage ?E ?pm = Some k" by (simp add: createKafkaMessage_def Let_def)
  have "\<forall>v json. ceJson ?E v = Some json \<longrightarrow> demoJson json = Some v" by (simp add: demoJson_def)
  from kafka_roundtrip [OF k this, of 5 "NewKafkaConsumer ()"] k show ?thesis by simp
qed

section \<open>The consumer\<close>

text \<open>A commit follows the transaction that stored its record, or the record could not be parsed.\<close>

definition commitsFollow :: "consumer_effect list \<Rightarrow> bool" where
  "commitsFollow es \<longleftrightarrow>
     (\<forall>us r w vs. es = us @ Commit r w # vs \<longrightarrow> r \<in> set (unreadableOf us) \<or> r \<in> beKafka ` set (persistedOf us))"

lemma commitsFollow_append:
  assumes "commitsFollow es" "\<And>us r w vs. eff = us @ Commit r w # vs \<Longrightarrow> r \<in> set (unreadableOf us) \<or> r \<in> beKafka ` set (persistedOf us)"
  shows "commitsFollow (es @ eff)"
  unfolding commitsFollow_def
proof (intro allI impI)
  fix us r w vs
  assume "es @ eff = us @ Commit r w # vs"
  then consider vs' where "es = us @ Commit r w # vs'" | us' where "us = es @ us'" "eff = us' @ Commit r w # vs"
    by (auto simp: append_eq_append_conv2 append_eq_Cons_conv Cons_eq_append_conv)
  then show "r \<in> set (unreadableOf us) \<or> r \<in> beKafka ` set (persistedOf us)"
  proof cases
    case 1
    then show ?thesis using assms(1) unfolding commitsFollow_def by blast
  next
    case 2
    then show ?thesis using assms(2) [OF 2(2)] by auto
  qed
qed

lemma commitsFollow_quiet: "commitsFollow es \<Longrightarrow> committedOf eff = [] \<Longrightarrow> commitsFollow (es @ eff)"
  by (rule commitsFollow_append) simp_all

lemma commitsFollow_persisted:
  assumes "commitsFollow es"
  shows "commitsFollow (es @ Persisted batch # map (\<lambda>i. Commit (beKafka (batch ! i)) (w i)) [0..<length batch])"
proof (rule commitsFollow_append [OF assms])
  fix us r w' vs
  assume e: "Persisted batch # map (\<lambda>i. Commit (beKafka (batch ! i)) (w i)) [0..<length batch] = us @ Commit r w' # vs"
  then obtain us' where u: "us = Persisted batch # us'" by (cases us) auto
  have "r \<in> set (committedOf (us @ Commit r w' # vs))" by simp
  then have "r \<in> set (map (\<lambda>i. beKafka (batch ! i)) [0..<length batch])" unfolding e [symmetric] by simp
  then have "r \<in> beKafka ` set batch" by (auto intro!: imageI nth_mem)
  then show "r \<in> set (unreadableOf us) \<or> r \<in> beKafka ` set (persistedOf us)" unfolding u by auto
qed

lemma commitsFollow_unreadable: "commitsFollow es \<Longrightarrow> commitsFollow (es @ [Unreadable r, Commit r w])"
  by (rule commitsFollow_append) (auto simp: Cons_eq_append_conv)

definition consumer_way :: "('d, 'z) kafka_consumer_scheme \<Rightarrow> consumer_effect list \<Rightarrow> bool" where
  "consumer_way st es \<longleftrightarrow>
     mset (consumedOf es) = mset (kcBatch st) + mset (concat (goPersists st)) + mset (persistedOf es) + mset (lostOf es) \<and>
     kcConsumed st = of_nat (length (consumedOf es)) \<and> kcPersisted st = of_nat (length (persistedOf es)) \<and> commitsFollow es"

lemma store_keeps_consumer:
  assumes "storeStep E x st = Ret (st1, eff)"
  shows "kcBatch st1 = kcBatch st \<and> goPersists st1 = goPersists st \<and> kcConsumed st1 = kcConsumed st \<and> kcPersisted st1 = kcPersisted st"
proof (cases x)
  case (SePersist now e)
  from persist_step [OF assms [unfolded SePersist]] show ?thesis by cases simp_all
next
  case SeProcess
  then have "messageProcessLoop E st = (st1, eff)" using assms by simp
  then show ?thesis by (cases rule: process_step) (simp_all add: process_fields)
next
  case (SeKafka i)
  then show ?thesis using assms by (auto simp: sendToKafka_fields split: if_splits option.splits)
next
  case (SeWrite i b c)
  show ?thesis using assms SeWrite
    by (cases rule: write_fields [of E b c "goWrites st ! i" "st\<lparr>goWrites := without i (goWrites st)\<rparr>"]) (auto split: if_splits)
next
  case (SeSend i w)
  show ?thesis using assms SeSend
    by (cases rule: send_fields [of w "goSends st ! i" "st\<lparr>goSends := without i (goSends st)\<rparr>"]) (auto split: if_splits)
next
  case (SeKafkaClean w)
  show ?thesis using assms SeKafkaClean
    by (cases rule: send_fields [of w "kmBatch st" st]) (auto simp: km_Cleanup_def km_flushBatch_def split: if_splits)
next
  case (SeStop b c)
  let ?st = "st\<lparr>mmQueue := (mmQueue st)\<lparr>chClosed := True\<rparr>\<rparr>"
  have "mm_flushBatch E b c ?st = (st1, eff)" using assms SeStop by (simp add: mm_Stop_def close_chan_def split: if_splits)
  then show ?thesis by (cases rule: write_fields [of E b c "mmBatch st" ?st]) (auto simp: mm_flushBatch_def split: if_splits)
qed (use assms in \<open>auto simp: triggerBatchWrite_def triggerBatchSend_def CleanupExpiredMessages_def\<close>)

lemma BatchInsert_fields:
  obtains (stored) d i t where "BatchInsertMessages D b c batch st = (st\<lparr>msDb := d, dmInserts := i, dmTransactions := t\<rparr>, None)"
    "d = msDb st \<or> d = insertAll D batch (msDb st)"
  | (failed) e where "BatchInsertMessages D b c batch st = (st, Some e)"
proof (cases "batch = []")
  case True
  then show thesis using stored [where d = "msDb st" and i = "dmInserts st" and t = "dmTransactions st"] by (simp add: BatchInsertMessages_def)
next
  case False
  then show thesis
    using stored [where d = "insertAll D batch (msDb st)" and i = "dmInserts st + of_nat (length batch)" and t = "dmTransactions st + 1"] failed
    by (cases b; cases c) (auto simp: BatchInsertMessages_def)
qed

lemma persist_way:
  assumes "persistBatch E b c w batch st = (st1, eff)" "commitsFollow es"
    and "mset (consumedOf es) = mset batch + mset (kcBatch st) + mset (concat (goPersists st)) + mset (persistedOf es) + mset (lostOf es)"
    and "kcConsumed st = of_nat (length (consumedOf es))" "kcPersisted st = of_nat (length (persistedOf es))"
  shows "consumer_way st1 (es @ eff)"
proof (cases rule: BatchInsert_fields [of "ceDb E" b c "map bePersist batch" st])
  case (stored d i t)
  then have e: "eff = Persisted batch # map (\<lambda>i. Commit (beKafka (batch ! i)) (w i)) [0..<length batch]"
    "st1 = st\<lparr>msDb := d, dmInserts := i, dmTransactions := t, kcPersisted := kcPersisted st + of_nat (length batch)\<rparr>"
    using assms(1) by (simp_all add: persistBatch_def)
  show ?thesis using commitsFollow_persisted [OF assms(2), of batch w] assms(3-5) e by (simp add: consumer_way_def)
next
  case (failed err)
  then have e: "eff = [PersistFailed batch]" "st1 = st\<lparr>kcFailed := kcFailed st + of_nat (length batch)\<rparr>"
    using assms(1) by (simp_all add: persistBatch_def)
  show ?thesis using commitsFollow_quiet [OF assms(2), of eff] assms(3-5) e by (simp add: consumer_way_def)
qed

lemma flush_way:
  assumes "kc_flushBatch E b c w st = (st1, eff)" "consumer_way st es"
  shows "consumer_way st1 (es @ eff)"
proof (cases "kcBatch st = []")
  case False
  then show ?thesis using assms by (intro persist_way [of E b c w "kcBatch st" "st\<lparr>kcBatch := []\<rparr>"]) (simp_all add: kc_flushBatch_def consumer_way_def)
qed (use assms in \<open>simp add: kc_flushBatch_def\<close>)

lemma consume_way:
  assumes "consumeLoop E U x now w k st = (st1, eff)" "consumer_way st es"
  shows "consumer_way st1 (es @ eff)"
proof (cases k)
  case None
  then show ?thesis using assms by (auto simp: consumeLoop_def consumer_way_def split: if_splits)
next
  case (Some r)
  obtain st2 pm where p: "parseKafkaMessage U now (krValue r) st = (st2, pm)" by (rule prod.exhaust)
  then have f: "kcBatch st2 = kcBatch st \<and> goPersists st2 = goPersists st \<and> kcConsumed st2 = kcConsumed st \<and> kcPersisted st2 = kcPersisted st"
    by (auto simp: parseKafkaMessage_def split: option.splits)
  show ?thesis
  proof (cases pm)
    case None
    then show ?thesis using assms Some p f commitsFollow_unreadable [of es r w] by (auto simp: consumeLoop_def consumer_way_def)
  next
    fix q assume q: "pm = Some q"
    have "commitsFollow (es @ [Consumed \<lparr>bePersist = q, beKafka = r\<rparr>])"
      using assms(2) commitsFollow_quiet [of es "[Consumed \<lparr>bePersist = q, beKafka = r\<rparr>]"] by (simp add: consumer_way_def)
    then show ?thesis using assms Some p f q by (auto simp: consumeLoop_def consumer_way_def kc_addToBatch_def Let_def)
  qed
qed

lemma consumer_step_way:
  assumes "consumerStep E U x st = Ret (st1, eff)" "consumer_way st es"
  shows "consumer_way st1 (es @ eff)"
proof (cases x)
  case (KcStore y)
  then obtain eff' where s: "storeStep E y st = Ret (st1, eff')" "eff = [Manager eff']" using assms(1) by (auto split: outcome.splits)
  have "commitsFollow (es @ [Manager eff'])" using assms(2) commitsFollow_quiet [of es "[Manager eff']"] by (simp add: consumer_way_def)
  then show ?thesis using store_keeps_consumer [OF s(1)] assms(2) s(2) by (simp add: consumer_way_def)
next
  case (KcFetch e now w k)
  then show ?thesis using assms consume_way by simp
next
  case (KcPersist i b c w)
  show ?thesis
  proof (cases "i < length (goPersists st)")
    case True
    note m = mset_concat_without [OF True]
    show ?thesis
      by (rule persist_way [of E b c w "goPersists st ! i" "st\<lparr>goPersists := without i (goPersists st)\<rparr>"])
        (use assms True m KcPersist in \<open>simp_all add: consumer_way_def\<close>)
  qed (use assms KcPersist in simp)
next
  case (KcFlush b c w)
  then show ?thesis using assms flush_way by simp
next
  case (KcStop b c w)
  then show ?thesis using assms flush_way by (simp add: kc_Stop_def)
qed

text \<open>C34: the consumer stores first and commits then.  In every run of the consumer beside the message manager, in any
  order of their goroutines and with any failures: each record that was parsed is in exactly one of the batch, the
  batches about to be stored, the batches whose insert was reported as done and those whose insert failed (which nothing
  tries again, see \<open>failed_batch_is_skipped\<close>); the counters say how many were parsed and how many were in batches
  reported as done; and each commit of an offset comes after the insert of the batch with its record was reported as
  done, unless the record could not be parsed.  (What the database then holds is the next claim.)\<close>

theorem consumer_commits_after_store:
  assumes "consumerRun E U xs (NewKafkaConsumer d, []) = Ret (st, es)"
  shows "mset (consumedOf es) = mset (kcBatch st) + mset (concat (goPersists st)) + mset (persistedOf es) + mset (lostOf es) \<and>
    kcConsumed st = of_nat (length (consumedOf es)) \<and> kcPersisted st = of_nat (length (persistedOf es)) \<and> commitsFollow es"
proof -
  have "consumerRun E U xs (st0, es0) = Ret (st, es) \<Longrightarrow> consumer_way st0 es0 \<Longrightarrow> consumer_way st es" for st0 es0
  proof (induction xs arbitrary: st0 es0)
    case (Cons x xs)
    obtain st2 eff where s: "consumerStep E U x st0 = Ret (st2, eff)" using Cons.prems(1) by (auto split: outcome.splits)
    from consumer_step_way [OF s Cons.prems(2)] Cons show ?case using s by simp
  qed simp
  from this [OF assms] have "consumer_way st es" by (simp add: consumer_way_def NewKafkaConsumer_def message_store.defs commitsFollow_def)
  then show ?thesis by (simp add: consumer_way_def)
qed

lemma sample_parse:
  "parseKafkaMessage demoJson t data st = (st, Some \<lparr>pmEnvelope = None, pmReceived = t, pmInfo = sampleInfo\<rparr>)"
  by (simp add: parseKafkaMessage_def demoJson_def kafkaValue_def hexDecode_hex_string)

theorem consumer_commits_after_store_witness:
  "\<exists>st es. consumerRun demoCenter demoJson [KcFetch False 5 None (Some (sampleRecord 4)), KcFlush None None (\<lambda>_. None)]
      (NewKafkaConsumer [], []) = Ret (st, es) \<and> commitsFollow es \<and> Commit (sampleRecord 4) None \<in> set es"
proof -
  have b: "ceBatch demoCenter = 2" by (simp add: demoCenter_def)
  obtain st es where r: "consumerRun demoCenter demoJson [KcFetch False 5 None (Some (sampleRecord 4)), KcFlush None None (\<lambda>_. None)]
      (NewKafkaConsumer [], []) = Ret (st, es)" "Commit (sampleRecord 4) None \<in> set es"
    by (simp add: consumeLoop_def sample_parse kc_addToBatch_def kc_flushBatch_def persistBatch_def BatchInsertMessages_def b Let_def
        NewKafkaConsumer_def message_store.defs)
  from consumer_commits_after_store [OF r(1)] r show ?thesis by blast
qed

section \<open>The database of both paths\<close>

text \<open>The messages of the batches that either path reported as stored.\<close>

definition storedBy :: "consumer_effect list \<Rightarrow> persist_message list" where
  "storedBy es = concat (map (\<lambda>e. case e of Persisted bs \<Rightarrow> map bePersist bs | Manager fs \<Rightarrow> storedOf fs | _ \<Rightarrow> []) es)"

lemma storedBy_simps [simp]:
  "storedBy [] = []" "storedBy (es @ fs) = storedBy es @ storedBy fs" "storedBy (map (\<lambda>i. Commit (f i) (w i)) is) = []"
  "storedBy (e # es) = (case e of Persisted bs \<Rightarrow> map bePersist bs | Manager fs \<Rightarrow> storedOf fs | _ \<Rightarrow> []) @ storedBy es"
proof -
  show "storedBy (map (\<lambda>i. Commit (f i) (w i)) is) = []" by (induction "is") (simp_all add: storedBy_def)
qed (simp_all add: storedBy_def)

lemma persist_db:
  assumes "persistBatch E b c w batch st = (st1, eff)"
  shows "msDb st1 = insertAll (ceDb E) (storedBy eff) (msDb st)"
  using assms by (auto simp: persistBatch_def BatchInsertMessages_def insertAll_def split: if_splits option.splits)

lemma flush_db:
  assumes "kc_flushBatch E b c w st = (st1, eff)"
  shows "msDb st1 = insertAll (ceDb E) (storedBy eff) (msDb st)"
proof (cases "kcBatch st = []")
  case False
  then have "persistBatch E b c w (kcBatch st) (st\<lparr>kcBatch := []\<rparr>) = (st1, eff)" using assms by (simp add: kc_flushBatch_def)
  from persist_db [OF this] show ?thesis by simp
qed (use assms in \<open>simp add: kc_flushBatch_def insertAll_def\<close>)

text \<open>A step of the message manager, or one that inserts what it reports.\<close>

lemma consumer_db:
  assumes "consumerStep E U x st = Ret (st1, eff)"
  obtains (manager) y eff' where "x = KcStore y" "storeStep E y st = Ret (st1, eff')" "eff = [Manager eff']"
  | (inserts) "msDb st1 = insertAll (ceDb E) (storedBy eff) (msDb st)"
proof (cases x)
  case (KcStore y)
  then show thesis using assms manager by (auto split: outcome.splits)
next
  case (KcFetch e now w k)
  then have "msDb st1 = msDb st \<and> storedBy eff = []" using assms
    by (auto simp: consumeLoop_def parseKafkaMessage_def kc_addToBatch_def Let_def split: option.splits if_splits)
  then show thesis by (intro inserts) (simp add: insertAll_def)
next
  case (KcPersist i b c w)
  show thesis
  proof (cases "i < length (goPersists st)")
    case True
    then have "persistBatch E b c w (goPersists st ! i) (st\<lparr>goPersists := without i (goPersists st)\<rparr>) = (st1, eff)"
      using assms KcPersist by simp
    from persist_db [OF this] show thesis by (intro inserts) simp
  next
    case False
    then show thesis using assms KcPersist by (intro inserts) (simp add: insertAll_def)
  qed
next
  case (KcFlush b c w)
  then have "kc_flushBatch E b c w st = (st1, eff)" using assms by simp
  from flush_db [OF this] show thesis by (rule inserts)
next
  case (KcStop b c w)
  then have "kc_flushBatch E b c w st = (st1, eff)" using assms by (simp add: kc_Stop_def)
  from flush_db [OF this] show thesis by (rule inserts)
qed

definition noExpiry :: "consumer_event \<Rightarrow> bool" where
  "noExpiry x \<longleftrightarrow> (case x of KcStore y \<Rightarrow> keeping y | _ \<Rightarrow> True)"

lemma consumer_step_rows:
  assumes "db_contract (ceDb E) rows" "consumerStep E U x st = Ret (st1, eff)"
    and "stored_rows (ceDb E) rs0 ms (rows (msDb st))" "noExpiry x"
  shows "stored_rows (ceDb E) rs0 (ms @ storedBy eff) (rows (msDb st1))"
  using assms(2)
proof (cases rule: consumer_db)
  case (manager y eff')
  from store_step_rows [OF assms(1) manager(2) assms(3)] assms(4) manager show ?thesis by (simp add: noExpiry_def)
next
  case inserts
  from stored_rows_all [OF assms(1,3)] show ?thesis unfolding inserts .
qed

lemma consumer_step_distinct:
  assumes "db_contract (ceDb E) rows" "db_deletes (ceDb E) rows" "consumerStep E U x st = Ret (st1, eff)" "distinctRows (rows (msDb st))"
  shows "distinctRows (rows (msDb st1))"
  using assms(3)
proof (cases rule: consumer_db)
  case (manager y eff')
  from store_step_distinct [OF assms(1,2) manager(2) assms(4)] show ?thesis .
next
  case inserts
  from stored_rows_all [OF assms(1) stored_rows_start] assms(4) show ?thesis unfolding inserts by (simp add: stored_rows_def)
qed

lemma consumer_run_rows:
  assumes "db_contract (ceDb E) rows" "db_deletes (ceDb E) rows"
  shows "consumerRun E U xs (st0, es0) = Ret (st, es) \<Longrightarrow> distinctRows (rows (msDb st0)) \<Longrightarrow>
    distinctRows (rows (msDb st)) \<and>
    ((\<forall>x \<in> set xs. noExpiry x) \<longrightarrow> stored_rows (ceDb E) rs0 (storedBy es0) (rows (msDb st0)) \<longrightarrow>
       stored_rows (ceDb E) rs0 (storedBy es) (rows (msDb st)))"
proof (induction xs arbitrary: st0 es0)
  case (Cons x xs)
  obtain st2 eff where s: "consumerStep E U x st0 = Ret (st2, eff)" using Cons.prems(1) by (auto split: outcome.splits)
  then have r: "consumerRun E U xs (st2, es0 @ eff) = Ret (st, es)" using Cons.prems(1) by simp
  have d: "distinctRows (rows (msDb st2))" by (rule consumer_step_distinct [OF assms s Cons.prems(2)])
  have t: "stored_rows (ceDb E) rs0 (storedBy (es0 @ eff)) (rows (msDb st2))"
    if "noExpiry x" "stored_rows (ceDb E) rs0 (storedBy es0) (rows (msDb st0))"
    using consumer_step_rows [OF assms(1) s that(2,1)] by simp
  from Cons.IH [OF r d] t show ?case by auto
qed simp

text \<open>C24: what the table holds after any run of the message manager and the consumer beside each other.  The manager
  writes each message directly, and the consumer writes it again when it comes back from Kafka, possibly more than once;
  the goroutines run in any order, transactions fail, inserts fail, messages expire.  No two rows have the same id.  And as
  long as nothing expires: every message of a batch that either path reported as stored has exactly one row, if its
  insert works, and every row is the record of such a message, with its sender, room, text and data if it fits the
  columns.\<close>

theorem one_row_per_message:
  assumes "db_contract (ceDb E) rows" "db_deletes (ceDb E) rows" "rows d = []"
    and "consumerRun E U xs (NewKafkaConsumer d, []) = Ret (st, es)"
  shows "distinctRows (rows (msDb st)) \<and>
    ((\<forall>x \<in> set xs. noExpiry x) \<longrightarrow>
      (\<forall>pm \<in> set (storedBy es). insertable (ceDb E) (pmInfo pm) \<longrightarrow>
         length (filter (\<lambda>r. mrecMessage r = binary16 (miID (pmInfo pm))) (rows (msDb st))) = 1) \<and>
      (\<forall>r \<in> set (rows (msDb st)). \<exists>pm \<in> set (storedBy es). record_of (pmInfo pm) r))"
proof -
  have start: "rows (msDb (NewKafkaConsumer d)) = []" using assms(3) by (simp add: NewKafkaConsumer_def message_store.defs NewMessageStore_def)
  then have "distinctRows (rows (msDb (NewKafkaConsumer d)))" by (simp add: distinctRows_def)
  note run = consumer_run_rows [OF assms(1,2,4) this, of "[]"]
  show ?thesis
  proof (intro conjI impI)
    show d: "distinctRows (rows (msDb st))" using run by blast
    assume "\<forall>x \<in> set xs. noExpiry x"
    then have s: "stored_rows (ceDb E) [] (storedBy es) (rows (msDb st))" using run start stored_rows_start [of "ceDb E" "[]"] by simp
    then show "\<forall>pm \<in> set (storedBy es). insertable (ceDb E) (pmInfo pm) \<longrightarrow>
         length (filter (\<lambda>r. mrecMessage r = binary16 (miID (pmInfo pm))) (rows (msDb st))) = 1"
      using one_row [OF d] unfolding stored_rows_def by blast
    show "\<forall>r \<in> set (rows (msDb st)). \<exists>pm \<in> set (storedBy es). record_of (pmInfo pm) r"
      using s unfolding stored_rows_def by auto
  qed
qed

text \<open>The consumer gets the same record twice, because the first commit was lost.\<close>

theorem one_row_per_message_witness:
  "\<exists>st es. consumerRun demoCenter demoJson [KcFetch False 5 None (Some (sampleRecord 4)), KcFlush None None (\<lambda>_. Some ''lost''),
        KcFetch False 6 None (Some (sampleRecord 4)), KcFlush None None (\<lambda>_. None)] (NewKafkaConsumer [], []) = Ret (st, es) \<and>
      distinctRows (msDb st) \<and> length (filter (\<lambda>r. mrecMessage r = binary16 (miID sampleInfo)) (msDb st)) = 1"
proof -
  let ?xs = "[KcFetch False 5 None (Some (sampleRecord 4)), KcFlush None None (\<lambda>_. Some ''lost''),
        KcFetch False 6 None (Some (sampleRecord 4)), KcFlush None None (\<lambda>_. None)]"
  have b: "ceBatch demoCenter = 2" by (simp add: demoCenter_def)
  have D: "ceDb demoCenter = listDb" by (simp add: demoCenter_def)
  have "\<exists>st es pm. consumerRun demoCenter demoJson ?xs (NewKafkaConsumer [], []) = Ret (st, es) \<and>
      pm \<in> set (storedBy es) \<and> pmInfo pm = sampleInfo"
    by (simp add: consumeLoop_def sample_parse kc_addToBatch_def kc_flushBatch_def persistBatch_def BatchInsertMessages_def b Let_def
        NewKafkaConsumer_def message_store.defs) (metis persist_message.select_convs(3))
  then obtain st es pm where r: "consumerRun demoCenter demoJson ?xs (NewKafkaConsumer [], []) = Ret (st, es)"
    "pm \<in> set (storedBy es)" "pmInfo pm = sampleInfo" by blast
  have c: "db_contract (ceDb demoCenter) (\<lambda>d. d)" "db_deletes (ceDb demoCenter) (\<lambda>d. d)"
    unfolding D by (rule listDb_contract, rule listDb_deletes)
  have w: "insertable (ceDb demoCenter) (pmInfo pm)" unfolding D by simp
  have n: "\<forall>x \<in> set ?xs. noExpiry x" by (simp add: noExpiry_def)
  note th = one_row_per_message [OF c refl r(1)]
  from th n r(2) w have "length (filter (\<lambda>r. mrecMessage r = binary16 (miID (pmInfo pm))) (msDb st)) = 1" by blast
  then show ?thesis using th r(1,3) by auto
qed

section \<open>A batch that failed\<close>

lemma new_consumer [simp]: "kcBatch (NewKafkaConsumer d) = []" "goPersists (NewKafkaConsumer d) = []"
  by (simp_all add: NewKafkaConsumer_def message_store.defs)

lemma fetch_one:
  assumes "U (krValue r) = Some v" "hexDecode (kvID v) = Some i" "kcBatch st = []" "1 < ceBatch E"
  obtains b where "consumeLoop E U x t w (Some r) st = (st\<lparr>kcConsumed := kcConsumed st + 1, kcBatch := [b]\<rparr>, [Consumed b])" "beKafka b = r"
  using assms by (simp add: consumeLoop_def parseKafkaMessage_def kc_addToBatch_def Let_def)

lemma flush_one_failed:
  "kcBatch st = [b] \<Longrightarrow> kc_flushBatch E (Some e) c w st = (st\<lparr>kcBatch := [], kcFailed := kcFailed st + 1\<rparr>, [PersistFailed [b]])"
  by (simp add: kc_flushBatch_def persistBatch_def BatchInsertMessages_def)

lemma flush_one_stored:
  assumes "kcBatch st = [b]"
  obtains st1 where "kc_flushBatch E None None w st = (st1, [Persisted [b], Commit (beKafka b) (w 0)])" "kcBatch st1 = []"
    "goPersists st1 = goPersists st"
  using assms by (simp add: kc_flushBatch_def persistBatch_def BatchInsertMessages_def)

text \<open>A batch that could not be stored is not stored later.  When the batch with one record fails and a batch with a
  later record of the partition is stored, the offset of the later record is committed: the earlier one is in no batch any
  more, it is not among what is stored, and a reader that starts from the committed offset does not get it again.\<close>

theorem failed_batch_is_skipped:
  assumes "parseKafkaMessage U t1 (krValue r1) (NewKafkaConsumer d) = (NewKafkaConsumer d, Some p1)"
    and "U (krValue r2) = Some v2" "hexDecode (kvID v2) = Some i2"
    and "krPartition r1 = krPartition r2" "krOffset r1 < krOffset r2" "1 < ceBatch E"
  shows "\<exists>st es. consumerRun E U [KcFetch False t1 None (Some r1), KcFlush (Some err) None w, KcFetch False t2 None (Some r2),
        KcFlush None None (\<lambda>_. None)] (NewKafkaConsumer d, []) = Ret (st, es) \<and>
      Commit r2 None \<in> set es \<and> r1 \<notin> beKafka ` set (persistedOf es) \<and> r1 \<notin> set (committedOf es) \<and>
      kcBatch st = [] \<and> goPersists st = []"
proof -
  have ne: "r1 \<noteq> r2" using assms(5) by auto
  obtain v1 i1 where p: "U (krValue r1) = Some v1" "hexDecode (kvID v1) = Some i1"
  proof (cases "U (krValue r1)")
    case None
    then show thesis using assms(1) by (simp add: parseKafkaMessage_def)
  next
    fix v assume v: "U (krValue r1) = Some v"
    then show thesis using assms(1) that by (cases "hexDecode (kvID v)") (simp_all add: parseKafkaMessage_def)
  qed
  let ?st = "NewKafkaConsumer d"
  obtain b1 where b1: "consumeLoop E U False t1 None (Some r1) ?st = (?st\<lparr>kcConsumed := kcConsumed ?st + 1, kcBatch := [b1]\<rparr>, [Consumed b1])"
    "beKafka b1 = r1" by (rule fetch_one [of U r1 v1 i1 ?st E False t1 None]) (simp_all add: p assms(6))
  let ?st1 = "?st\<lparr>kcConsumed := kcConsumed ?st + 1, kcBatch := [], kcFailed := kcFailed ?st + 1\<rparr>"
  have f1: "kc_flushBatch E (Some err) None w (?st\<lparr>kcConsumed := kcConsumed ?st + 1, kcBatch := [b1]\<rparr>) = (?st1, [PersistFailed [b1]])"
    by (simp add: flush_one_failed)
  obtain b2 where b2: "consumeLoop E U False t2 None (Some r2) ?st1 = (?st1\<lparr>kcConsumed := kcConsumed ?st1 + 1, kcBatch := [b2]\<rparr>, [Consumed b2])"
    "beKafka b2 = r2" by (rule fetch_one [of U r2 v2 i2 ?st1 E False t2 None]) (simp_all add: assms(2,3,6))
  obtain st where f2: "kc_flushBatch E None None (\<lambda>_. None) (?st1\<lparr>kcConsumed := kcConsumed ?st1 + 1, kcBatch := [b2]\<rparr>) =
      (st, [Persisted [b2], Commit r2 None])" "kcBatch st = []" "goPersists st = []"
    by (rule flush_one_stored [of "?st1\<lparr>kcConsumed := kcConsumed ?st1 + 1, kcBatch := [b2]\<rparr>" b2 E "\<lambda>_. None"]) (simp_all add: b2(2))
  have run: "consumerRun E U [KcFetch False t1 None (Some r1), KcFlush (Some err) None w, KcFetch False t2 None (Some r2),
      KcFlush None None (\<lambda>_. None)] (?st, []) = Ret (st, [Consumed b1, PersistFailed [b1], Consumed b2, Persisted [b2], Commit r2 None])"
    by (simp only: consumerRun.simps consumerStep.simps b1(1) b2(1) f1 f2(1) outcome.case prod.case fst_conv snd_conv append.simps)
  show ?thesis
    by (rule exI [of _ st], rule exI [of _ "[Consumed b1, PersistFailed [b1], Consumed b2, Persisted [b2], Commit r2 None]"], intro conjI, rule run)
      (use f2(2,3) b2(2) ne in simp_all)
qed

theorem failed_batch_is_skipped_witness:
  "\<exists>st es. consumerRun demoCenter demoJson [KcFetch False 5 None (Some (sampleRecord 4)), KcFlush (Some ''down'') None (\<lambda>_. None),
        KcFetch False 6 None (Some (sampleRecord 5)), KcFlush None None (\<lambda>_. None)] (NewKafkaConsumer [], []) = Ret (st, es) \<and>
      Commit (sampleRecord 5) None \<in> set es \<and> sampleRecord 4 \<notin> beKafka ` set (persistedOf es)"
proof -
  have v: "demoJson (krValue (sampleRecord 5)) = Some (kafkaValue sampleInfo)" by (simp add: demoJson_def)
  have h: "hexDecode (kvID (kafkaValue sampleInfo)) = Some (miID sampleInfo)" by (simp add: kafkaValue_def hexDecode_hex_string sampleInfo_def)
  have "krPartition (sampleRecord 4) = krPartition (sampleRecord 5)" "krOffset (sampleRecord 4) < krOffset (sampleRecord 5)"
    "1 < ceBatch demoCenter" by (simp_all add: sampleRecord_def demoCenter_def)
  from failed_batch_is_skipped [OF sample_parse v h this, where d = "[]" and ?t1.0 = 5 and err = "''down''" and w = "\<lambda>_. None" and ?t2.0 = 6] show ?thesis by blast
qed

end
