(* ===== verification/MessageProcessor.thy ===== *)
theory MessageProcessor
  imports Envelope SendQueue "HOL-Library.Multiset"
begin

text \<open>
  The client's \<^verbatim>\<open>client/message_processor.go\<close>: duplicates are ignored, messages wait in a channel and then, sorted by
  id, in a buffer until they are 50 ms old.  Handling a message is writing log lines; they are values here.  The sort
  (\<^verbatim>\<open>sort.Slice\<close>, not stable) and the order of a walk over the map of seen messages are arguments.
\<close>

section \<open>State\<close>

datatype mp_log =
    LogInvalidID
  | LogChat u32 u32 string int
  | LogJoined u64
  | LogJoinFailed u64 string
  | LogLeft u64
  | LogLeaveFailed u64 string
  | LogFetched nat u64
  | LogHistory u64 string u64
  | LogFetchFailed u64 string
  | LogGeneric u32 u32 int

record processor =
  mpChan :: "envelope chan"
  mpBuffer :: "envelope list"
  mpMax :: nat
  mpSeen :: "bytes list"
  mpDone :: bool

datatype mp_effect =
    Duplicate envelope
  | Taken envelope
  | Handled envelope "mp_log list"
  | Evicted envelope
  | Skipped envelope
  | Cancelled envelope

definition NewMessageProcessor :: "nat \<Rightarrow> processor" where
  "NewMessageProcessor n = \<lparr>mpChan = make_chan n, mpBuffer = [], mpMax = n, mpSeen = [], mpDone = False\<rparr>"

section \<open>Handling\<close>

definition mp_handleChatMessage :: "envelope \<Rightarrow> string \<Rightarrow> mp_log list" where
  "mp_handleChatMessage e content =
     (case FromBytes (MessageId e) of
        Inl _ \<Rightarrow> [LogInvalidID]
      | Inr i \<Rightarrow> [LogChat (ExtractUserID i) (ExtractRoomID i) content (ExtractTimestamp i)])"

definition mp_handleJoinRoomAck :: "u64 \<Rightarrow> JoinRoomStatus \<Rightarrow> string \<Rightarrow> mp_log list" where
  "mp_handleJoinRoomAck room st reason = (if st = JOIN_ROOM_SUCCESS then [LogJoined room] else [LogJoinFailed room reason])"

definition mp_handleLeaveRoomAck :: "u64 \<Rightarrow> LeaveRoomStatus \<Rightarrow> string \<Rightarrow> mp_log list" where
  "mp_handleLeaveRoomAck room st reason = (if st = LEAVE_ROOM_SUCCESS then [LogLeft room] else [LogLeaveFailed room reason])"

definition handleHistoryMessage :: "MessageContentMsg \<Rightarrow> mp_log" where
  "handleHistoryMessage m = LogHistory (mc_user_id m) (mc_content m) (mc_timestamp m)"

definition mp_handleRoomMessageFetchResponse :: "RoomMessageFetchResponseMsg \<Rightarrow> mp_log list" where
  "mp_handleRoomMessageFetchResponse r =
     (if rfs_status r = ROOM_MESSAGE_FETCH_SUCCESS
      then LogFetched (length (rfs_messages r)) (rfs_room_id r) # map handleHistoryMessage (rfs_messages r)
      else [LogFetchFailed (rfs_room_id r) (rfs_reason r)])"

definition handleGenericMessage :: "envelope \<Rightarrow> mp_log list" where
  "handleGenericMessage e =
     (case FromBytes (MessageId e) of
        Inl _ \<Rightarrow> []
      | Inr i \<Rightarrow> [LogGeneric (ExtractUserID i) (ExtractRoomID i) (ExtractTimestamp i)])"

definition handleMessage :: "envelope \<Rightarrow> mp_log list" where
  "handleMessage e =
     (case Message e of
        Some (ChatMessage msg) \<Rightarrow> mp_handleChatMessage e (cm_content msg)
      | Some (JoinRoomAck room st reason _ _) \<Rightarrow> mp_handleJoinRoomAck room st reason
      | Some (LeaveRoomAck room st reason) \<Rightarrow> mp_handleLeaveRoomAck room st reason
      | Some (RoomMessageFetchResponse r) \<Rightarrow> mp_handleRoomMessageFetchResponse r
      | _ \<Rightarrow> handleGenericMessage e)"

section \<open>Duplicates\<close>

text \<open>\<^verbatim>\<open>string(rune(n))\<close>: the conversion to 32 bits, and the replacement character for what is no code point.\<close>

definition runeString :: "u64 \<Rightarrow> bytes" where
  "runeString n =
     (let r = sint (ucast n :: 32 word)
      in if r < 0 \<or> r > 0x10FFFF \<or> (0xD800 \<le> r \<and> r \<le> 0xDFFF) then [0xEF, 0xBF, 0xBD]
         else if r < 0x80 then [word_of_int r]
         else if r < 0x800 then [word_of_int (0xC0 + r div 64), word_of_int (0x80 + r mod 64)]
         else if r < 0x10000 then [word_of_int (0xE0 + r div 4096), word_of_int (0x80 + r div 64 mod 64), word_of_int (0x80 + r mod 64)]
         else [word_of_int (0xF0 + r div 262144), word_of_int (0x80 + r div 4096 mod 64), word_of_int (0x80 + r div 64 mod 64),
               word_of_int (0x80 + r mod 64)])"

definition mp_getMessageKey :: "envelope \<Rightarrow> bytes" where
  "mp_getMessageKey e = MessageId e @ [0x3A] @ runeString (ConnectionSeqId e)"

definition isDuplicateMessage :: "envelope \<Rightarrow> processor \<Rightarrow> bool" where
  "isDuplicateMessage e st \<longleftrightarrow> mp_getMessageKey e \<in> set (mpSeen st)"

definition markMessageSeen :: "envelope \<Rightarrow> processor \<Rightarrow> processor" where
  "markMessageSeen e st = st\<lparr>mpSeen := List.insert (mp_getMessageKey e) (mpSeen st)\<rparr>"

text \<open>What follows when the message was not seen.  With a full channel the message is handled at once; \<open>pick\<close> is the choice
  of the \<^verbatim>\<open>select\<close> when the channel has room and the context is cancelled.  The check and the mark take the lock
  separately: \<open>ProcessMessage\<close> is what one goroutine does undisturbed, \<open>duplicate_race\<close> what two can do.\<close>

definition markThenSend :: "bool \<Rightarrow> envelope \<Rightarrow> processor \<Rightarrow> processor \<times> mp_effect list" where
  "markThenSend pick e st =
     (let st1 = markMessageSeen e st;
          room = length (items (mpChan st1)) < capacity (mpChan st1)
      in if room \<and> (\<not> mpDone st1 \<or> pick)
         then (st1\<lparr>mpChan := (mpChan st1)\<lparr>items := items (mpChan st1) @ [e]\<rparr>\<rparr>, [Taken e])
         else if mpDone st1 then (st1, [Taken e, Cancelled e])
         else (st1, [Taken e, Handled e (handleMessage e)]))"

definition ProcessMessage :: "bool \<Rightarrow> envelope \<Rightarrow> processor \<Rightarrow> processor \<times> mp_effect list" where
  "ProcessMessage pick e st = (if isDuplicateMessage e st then (st, [Duplicate e]) else markThenSend pick e st)"

text \<open>Deleting while \<open>cnt\<close> is below half of what is left; \<open>keys\<close> is the order of the walk.\<close>

fun forgetSeen :: "bytes list \<Rightarrow> nat \<Rightarrow> bytes list \<Rightarrow> bytes list \<times> nat" where
  "forgetSeen [] cnt seen = (seen, cnt)"
| "forgetSeen (k # keys) cnt seen =
     (let seen1 = removeAll k seen; cnt1 = cnt + 1
      in if cnt1 \<ge> length seen1 div 2 then (seen1, cnt1) else forgetSeen keys cnt1 seen1)"

definition cleanupSeenMessages :: "(bytes list \<Rightarrow> bytes list) \<Rightarrow> processor \<Rightarrow> processor" where
  "cleanupSeenMessages order st =
     (if length (mpSeen st) > 10000 then st\<lparr>mpSeen := fst (forgetSeen (order (mpSeen st)) 0 (mpSeen st))\<rparr> else st)"

section \<open>The buffer\<close>

text \<open>An id of the wrong length is the zero id.\<close>

definition mpID :: "envelope \<Rightarrow> global_id" where
  "mpID e = (case FromBytes (MessageId e) of Inl _ \<Rightarrow> GlobalID (replicate GlobalIDLength 0) | Inr i \<Rightarrow> i)"

definition mp_less :: "envelope \<Rightarrow> envelope \<Rightarrow> bool" where
  "mp_less a b \<longleftrightarrow> Compare (mpID a) (mpID b) < 0"

definition addToBuffer :: "(envelope list \<Rightarrow> envelope list) \<Rightarrow> envelope \<Rightarrow> processor \<Rightarrow> (processor \<times> mp_effect list) outcome" where
  "addToBuffer srt e st =
     (if length (mpBuffer st) \<ge> mpMax st
      then case mpBuffer st of
             [] \<Rightarrow> Panic
           | b # bs \<Rightarrow> Ret (st\<lparr>mpBuffer := srt (bs @ [e])\<rparr>, [Evicted b])
      else Ret (st\<lparr>mpBuffer := srt (mpBuffer st @ [e])\<rparr>, []))"

text \<open>The loop: \<open>i\<close> is the index of the head; the result is the number to remove and the messages handled.\<close>

fun scanBuffer :: "int \<Rightarrow> nat \<Rightarrow> nat \<Rightarrow> envelope list \<Rightarrow> nat \<times> envelope list" where
  "scanBuffer now i processed [] = (processed, [])"
| "scanBuffer now i processed (e # es) =
     (case FromBytes (MessageId e) of
        Inl _ \<Rightarrow> scanBuffer now (Suc i) processed es
      | Inr g \<Rightarrow>
          if now - ExtractTimestamp g < 50 then (processed, [])
          else case scanBuffer now (Suc i) (i + 1) es of (p, hs) \<Rightarrow> (p, e # hs))"

definition processBufferedMessages :: "int \<Rightarrow> processor \<Rightarrow> processor \<times> mp_effect list" where
  "processBufferedMessages now st =
     (case scanBuffer now 0 0 (mpBuffer st) of
        (p, hs) \<Rightarrow> (st\<lparr>mpBuffer := (if p > 0 then drop p (mpBuffer st) else mpBuffer st)\<rparr>,
                    map (\<lambda>e. Handled e (handleMessage e)) hs @
                    map Skipped (filter (\<lambda>e. length (MessageId e) \<noteq> GlobalIDLength) (take p (mpBuffer st)))))"

definition mp_GetStats :: "processor \<Rightarrow> nat \<times> nat" where
  "mp_GetStats st = (length (mpBuffer st), length (mpSeen st))"

section \<open>Runs\<close>

datatype mp_event =
    MpReceive bool envelope
  | MpTake
  | MpTick int
  | MpClean
  | MpCancel

fun mpStep :: "(envelope list \<Rightarrow> envelope list) \<Rightarrow> (bytes list \<Rightarrow> bytes list) \<Rightarrow> mp_event \<Rightarrow> processor
    \<Rightarrow> (processor \<times> mp_effect list) outcome" where
  "mpStep srt order (MpReceive pick e) st = Ret (ProcessMessage pick e st)"
| "mpStep srt order MpTake st =
     (case receive (mpChan st) of
        Some (ch, Some e) \<Rightarrow> addToBuffer srt e (st\<lparr>mpChan := ch\<rparr>)
      | _ \<Rightarrow> Ret (st, []))"
| "mpStep srt order (MpTick now) st = Ret (processBufferedMessages now st)"
| "mpStep srt order MpClean st = Ret (cleanupSeenMessages order st, [])"
| "mpStep srt order MpCancel st = Ret (st\<lparr>mpDone := True\<rparr>, [])"

fun mpRun :: "(envelope list \<Rightarrow> envelope list) \<Rightarrow> (bytes list \<Rightarrow> bytes list) \<Rightarrow> mp_event list \<Rightarrow> processor \<times> mp_effect list
    \<Rightarrow> (processor \<times> mp_effect list) outcome" where
  "mpRun srt order [] s = Ret s"
| "mpRun srt order (x # xs) s =
     (case mpStep srt order x (fst s) of Panic \<Rightarrow> Panic | Ret (st1, eff) \<Rightarrow> mpRun srt order xs (st1, snd s @ eff))"

definition takenOf :: "mp_effect list \<Rightarrow> envelope list" where
  "takenOf es = concat (map (\<lambda>x. case x of Taken e \<Rightarrow> [e] | _ \<Rightarrow> []) es)"

text \<open>What a message that was taken has become: handled, evicted, skipped or cancelled.\<close>

definition leftOf :: "mp_effect list \<Rightarrow> envelope list" where
  "leftOf es = concat (map (\<lambda>x. case x of Handled e _ \<Rightarrow> [e] | Evicted e \<Rightarrow> [e] | Skipped e \<Rightarrow> [e] | Cancelled e \<Rightarrow> [e] | _ \<Rightarrow> []) es)"

definition handledOf :: "mp_effect list \<Rightarrow> envelope list" where
  "handledOf es = concat (map (\<lambda>x. case x of Handled e _ \<Rightarrow> [e] | _ \<Rightarrow> []) es)"

lemmas mp_effect_defs = takenOf_def leftOf_def handledOf_def

lemma mp_effects [simp]:
  "takenOf (es @ fs) = takenOf es @ takenOf fs" "leftOf (es @ fs) = leftOf es @ leftOf fs" "handledOf (es @ fs) = handledOf es @ handledOf fs"
  "takenOf [] = []" "leftOf [] = []" "handledOf [] = []"
  "takenOf (x # es) = (case x of Taken e \<Rightarrow> [e] | _ \<Rightarrow> []) @ takenOf es"
  "leftOf (x # es) = (case x of Handled e _ \<Rightarrow> [e] | Evicted e \<Rightarrow> [e] | Skipped e \<Rightarrow> [e] | Cancelled e \<Rightarrow> [e] | _ \<Rightarrow> []) @ leftOf es"
  "handledOf (x # es) = (case x of Handled e _ \<Rightarrow> [e] | _ \<Rightarrow> []) @ handledOf es"
  by (simp_all add: mp_effect_defs)

lemma mp_effects_map [simp]:
  "takenOf (map (\<lambda>e. Handled e (f e)) hs) = []" "leftOf (map (\<lambda>e. Handled e (f e)) hs) = hs" "handledOf (map (\<lambda>e. Handled e (f e)) hs) = hs"
  "takenOf (map Skipped hs) = []" "leftOf (map Skipped hs) = hs" "handledOf (map Skipped hs) = []"
  by (induction hs) simp_all

lemma subset_add_mset: "A \<subseteq># B \<Longrightarrow> A \<subseteq># add_mset x B"
  by (auto simp: subseteq_mset_def intro: le_SucI)

lemma distinct_subset:
  assumes "mset xs \<subseteq># mset ys" "distinct ys"
  shows "distinct xs"
  unfolding distinct_count_atmost_1
proof
  fix a
  have "count (mset xs) a \<le> count (mset ys) a" using assms(1) by (simp add: subseteq_mset_def)
  also have "\<dots> \<le> 1" using assms(2) [unfolded distinct_count_atmost_1] by simp
  finally have "count (mset xs) a \<le> 1" .
  moreover have "a \<in> set xs \<Longrightarrow> 1 \<le> count (mset xs) a" by (simp add: Suc_le_eq)
  moreover have "a \<notin> set xs \<Longrightarrow> count (mset xs) a = 0" by simp
  ultimately show "count (mset xs) a = (if a \<in> set xs then 1 else 0)" using le_antisym by presburger
qed

lemma handled_subset: "mset (handledOf es) \<subseteq># mset (leftOf es)"
proof (induction es)
  case (Cons x es)
  then show ?case by (cases x) (simp_all add: subset_add_mset)
qed simp

section \<open>Each message once\<close>

text \<open>What \<^verbatim>\<open>sort.Slice\<close> promises for this comparison.\<close>

definition in_order :: "envelope list \<Rightarrow> bool" where
  "in_order es \<longleftrightarrow> sorted_wrt (\<lambda>a b. \<not> mp_less b a) es"

definition sorts :: "(envelope list \<Rightarrow> envelope list) \<Rightarrow> bool" where
  "sorts srt \<longleftrightarrow> (\<forall>es. mset (srt es) = mset es \<and> in_order (srt es))"

definition mp_rank :: "envelope \<Rightarrow> nat" where
  "mp_rank e = be_dec (id_bytes (mpID e))"

lemma wf_mpID: "wf_id (mpID e)"
  by (simp add: mpID_def FromBytes_def wf_id_def)

lemma mp_less_rank: "mp_less a b \<longleftrightarrow> mp_rank a < mp_rank b"
  unfolding mp_less_def mp_rank_def Compare_num [OF wf_mpID wf_mpID] by (simp add: sgn_if)

lemma sorts_sort_key: "sorts (sort_key mp_rank)"
proof -
  have "sorted_wrt (\<lambda>a b. mp_rank a \<le> mp_rank b) (sort_key mp_rank es)" for es
    using sorted_sort_key [of mp_rank es] by (simp add: sorted_map)
  then show ?thesis by (simp add: sorts_def in_order_def mp_less_rank not_less)
qed

lemma in_order_drop: "in_order es \<Longrightarrow> in_order (drop n es)"
  by (simp add: in_order_def sorted_wrt_drop)

lemma scanBuffer_result:
  assumes "scanBuffer now i p es = (p', hs)"
  shows "(p' = p \<and> hs = []) \<or>
    (i < p' \<and> p' \<le> i + length es \<and> hs = filter (\<lambda>e. length (MessageId e) = GlobalIDLength) (take (p' - i) es))"
  using assms
proof (induction es arbitrary: i p p' hs)
  case (Cons e es)
  show ?case
  proof (cases "length (MessageId e) = GlobalIDLength")
    case False
    then have "scanBuffer now (Suc i) p es = (p', hs)" using Cons.prems by (simp add: FromBytes_def)
    from Cons.IH [OF this] show ?thesis
    proof
      assume a: "Suc i < p' \<and> p' \<le> Suc i + length es \<and> hs = filter (\<lambda>e. length (MessageId e) = GlobalIDLength) (take (p' - Suc i) es)"
      then have "p' - i = Suc (p' - Suc i)" by arith
      then show ?thesis using a False by simp
    qed simp
  next
    case True
    show ?thesis
    proof (cases "now - ExtractTimestamp (GlobalID (MessageId e)) < 50")
      case True
      then show ?thesis using Cons.prems \<open>length (MessageId e) = GlobalIDLength\<close> by (simp add: FromBytes_def)
    next
      case False
      obtain q gs where r: "scanBuffer now (Suc i) (i + 1) es = (q, gs)" by (rule prod.exhaust)
      then have "p' = q" "hs = e # gs" using Cons.prems False True by (simp_all add: FromBytes_def)
      with Cons.IH [OF r] show ?thesis
      proof (elim disjE)
        assume a: "Suc i < q \<and> q \<le> Suc i + length es \<and> gs = filter (\<lambda>e. length (MessageId e) = GlobalIDLength) (take (q - Suc i) es)"
        then have "q - i = Suc (q - Suc i)" by arith
        then show ?thesis using a True \<open>p' = q\<close> \<open>hs = e # gs\<close> by simp
      qed (use True in simp)
    qed
  qed
qed simp

lemma tick_effects:
  assumes "processBufferedMessages now st = (st1, eff)"
  obtains p where "st1 = st\<lparr>mpBuffer := drop p (mpBuffer st)\<rparr>" "takenOf eff = []" "mset (leftOf eff) = mset (take p (mpBuffer st))"
proof -
  obtain p hs where s: "scanBuffer now 0 0 (mpBuffer st) = (p, hs)" by (rule prod.exhaust)
  have h: "hs = filter (\<lambda>e. length (MessageId e) = GlobalIDLength) (take p (mpBuffer st))" using scanBuffer_result [OF s] by auto
  have e: "st1 = st\<lparr>mpBuffer := drop p (mpBuffer st)\<rparr>"
    "eff = map (\<lambda>e. Handled e (handleMessage e)) hs @ map Skipped (filter (\<lambda>e. length (MessageId e) \<noteq> GlobalIDLength) (take p (mpBuffer st)))"
    using assms s by (auto simp: processBufferedMessages_def)
  show thesis by (rule that [OF e(1)]) (simp_all add: e(2) h)
qed

definition mp_ok :: "nat \<Rightarrow> processor \<Rightarrow> mp_effect list \<Rightarrow> bool" where
  "mp_ok n st es \<longleftrightarrow>
     distinct (map mp_getMessageKey (takenOf es)) \<and> mp_getMessageKey ` set (takenOf es) \<subseteq> set (mpSeen st) \<and>
     mset (takenOf es) = mset (items (mpChan st)) + mset (mpBuffer st) + mset (leftOf es) \<and>
     length (items (mpChan st)) \<le> n \<and> capacity (mpChan st) = n \<and> mpMax st = n \<and> length (mpBuffer st) \<le> n \<and> in_order (mpBuffer st)"

definition keepsSeen :: "mp_event \<Rightarrow> bool" where
  "keepsSeen x \<longleftrightarrow> (case x of MpClean \<Rightarrow> False | _ \<Rightarrow> True)"

lemma receive_ok:
  assumes "mp_ok n st es" "ProcessMessage pick e st = (st1, eff)"
  shows "mp_ok n st1 (es @ eff)"
proof (cases "isDuplicateMessage e st")
  case True
  then show ?thesis using assms by (auto simp: ProcessMessage_def markThenSend_def mp_ok_def)
next
  case False
  let ?room = "length (items (mpChan st)) < capacity (mpChan st)"
  have new: "mp_getMessageKey e \<notin> set (mpSeen st)" using False by (simp add: isDuplicateMessage_def)
  then have k: "mp_getMessageKey e \<notin> mp_getMessageKey ` set (takenOf es)" using assms(1) unfolding mp_ok_def by blast
  have "(st1 = (markMessageSeen e st)\<lparr>mpChan := (mpChan st)\<lparr>items := items (mpChan st) @ [e]\<rparr>\<rparr> \<and> eff = [Taken e] \<and> ?room) \<or>
      (st1 = markMessageSeen e st \<and> takenOf eff = [e] \<and> leftOf eff = [e])"
    using assms(2) False by (auto simp: ProcessMessage_def markThenSend_def markMessageSeen_def Let_def split: if_splits)
  then show ?thesis
  proof
    assume a: "st1 = (markMessageSeen e st)\<lparr>mpChan := (mpChan st)\<lparr>items := items (mpChan st) @ [e]\<rparr>\<rparr> \<and> eff = [Taken e] \<and> ?room"
    then show ?thesis using assms(1) k by (auto simp: mp_ok_def markMessageSeen_def)
  next
    assume a: "st1 = markMessageSeen e st \<and> takenOf eff = [e] \<and> leftOf eff = [e]"
    then show ?thesis using assms(1) k by (auto simp: mp_ok_def markMessageSeen_def)
  qed
qed

lemma add_ok:
  assumes "mp_ok n st es" "sorts srt" "0 < n" "receive (mpChan st) = Some (ch, Some e)"
  shows "\<exists>st1 eff. addToBuffer srt e (st\<lparr>mpChan := ch\<rparr>) = Ret (st1, eff) \<and> mp_ok n st1 (es @ eff)"
proof -
  note r = receive_facts [OF assms(4)]
  have m: "mset (srt xs) = mset xs" "in_order (srt xs)" for xs using assms(2) by (simp_all add: sorts_def)
  have l: "length (srt xs) = length xs" for xs using m(1) [of xs] by (metis size_mset)
  show ?thesis
  proof (cases "mpBuffer st")
    case Nil
    then show ?thesis using assms(1,3) r m l by (auto simp: addToBuffer_def mp_ok_def)
  next
    fix b bs assume b: "mpBuffer st = b # bs"
    show ?thesis
    proof (cases "length (mpBuffer st) \<ge> mpMax st")
      case True
      then show ?thesis using assms(1) b r m l by (auto simp: addToBuffer_def mp_ok_def)
    next
      case False
      then show ?thesis using assms(1) b r m l by (auto simp: addToBuffer_def mp_ok_def)
    qed
  qed
qed

lemma mp_step_ok:
  assumes "mp_ok n st es" "sorts srt" "0 < n" "keepsSeen x"
  shows "\<exists>st1 eff. mpStep srt order x st = Ret (st1, eff) \<and> mp_ok n st1 (es @ eff)"
proof (cases x)
  case (MpReceive pick e)
  obtain st1 eff where p: "ProcessMessage pick e st = (st1, eff)" by (rule prod.exhaust)
  show ?thesis using receive_ok [OF assms(1) p] MpReceive p by simp
next
  case MpTake
  show ?thesis
  proof (cases "\<exists>ch e. receive (mpChan st) = Some (ch, Some e)")
    case True
    then obtain ch e where r: "receive (mpChan st) = Some (ch, Some e)" by blast
    show ?thesis using add_ok [OF assms(1-3) r] MpTake r by simp
  next
    case False
    then have "mpStep srt order x st = Ret (st, [])" using MpTake by (auto split: option.split)
    then show ?thesis using assms(1) by simp
  qed
next
  case (MpTick now)
  obtain st1 eff where t: "processBufferedMessages now st = (st1, eff)" by (rule prod.exhaust)
  then show ?thesis
  proof (cases rule: tick_effects)
    case (1 p)
    have "mset (mpBuffer st) = mset (take p (mpBuffer st)) + mset (drop p (mpBuffer st))" by (metis append_take_drop_id mset_append)
    then show ?thesis using assms(1) MpTick t 1 in_order_drop by (auto simp: mp_ok_def)
  qed
next
  case MpClean
  then show ?thesis using assms(4) by (simp add: keepsSeen_def)
next
  case MpCancel
  then show ?thesis using assms(1) by (simp add: mp_ok_def)
qed

text \<open>Two goroutines that receive the same message, each with its check before the other's mark: both put it into the
  channel.  With the second check after the first mark it would have been a duplicate.\<close>

lemma duplicate_race:
  assumes "\<not> isDuplicateMessage e st" "\<not> mpDone st" "Suc (length (items (mpChan st))) < capacity (mpChan st)"
  shows "isDuplicateMessage e (fst (markThenSend p e st)) \<and>
    items (mpChan (fst (markThenSend q e (fst (markThenSend p e st))))) = items (mpChan st) @ [e, e] \<and>
    snd (markThenSend p e st) = [Taken e] \<and> snd (markThenSend q e (fst (markThenSend p e st))) = [Taken e]"
  using assms by (simp add: markThenSend_def markMessageSeen_def isDuplicateMessage_def Let_def)

text \<open>C21: until old keys are cleaned up, the client handles no message twice and loses none without a trace.  In every
  order of arrivals (each received undisturbed, see \<open>duplicate_race\<close>), rounds of the loop and ticks, with a buffer size that is not 0, the processor does not panic; no
  two handled messages have the same key; each message that was not a duplicate is in the channel, in the buffer, or it
  was handled, evicted from a full buffer, skipped because its id is malformed, or dropped because the client stopped;
  channel and buffer stay within their size, and the buffer is sorted by id.\<close>

theorem processor_handles_once:
  assumes "sorts srt" "0 < n" "\<forall>x \<in> set xs. keepsSeen x"
  shows "\<exists>st es. mpRun srt order xs (NewMessageProcessor n, []) = Ret (st, es) \<and>
    distinct (map mp_getMessageKey (handledOf es)) \<and>
    mset (takenOf es) = mset (items (mpChan st)) + mset (mpBuffer st) + mset (leftOf es) \<and>
    length (items (mpChan st)) \<le> n \<and> length (mpBuffer st) \<le> n \<and> in_order (mpBuffer st)"
proof -
  have "mp_ok n st0 es0 \<Longrightarrow> \<forall>x \<in> set xs. keepsSeen x \<Longrightarrow> \<exists>st es. mpRun srt order xs (st0, es0) = Ret (st, es) \<and> mp_ok n st es" for st0 es0
  proof (induction xs arbitrary: st0 es0)
    case (Cons x xs)
    obtain st1 eff where s: "mpStep srt order x st0 = Ret (st1, eff)" "mp_ok n st1 (es0 @ eff)"
      using mp_step_ok [OF Cons.prems(1) assms(1,2), of x order] Cons.prems(2) by auto
    from Cons.IH [OF s(2)] Cons.prems(2) s(1) show ?case by simp
  qed simp
  from this [of "NewMessageProcessor n" "[]"] assms(3) obtain st es where
    r: "mpRun srt order xs (NewMessageProcessor n, []) = Ret (st, es)" "mp_ok n st es"
    by (auto simp: mp_ok_def NewMessageProcessor_def make_chan_def in_order_def)
  have "mset (leftOf es) \<subseteq># mset (takenOf es)" using r(2) unfolding mp_ok_def by simp
  then have "mset (handledOf es) \<subseteq># mset (takenOf es)" using handled_subset subset_mset.order_trans by blast
  then have "image_mset mp_getMessageKey (mset (handledOf es)) \<subseteq># image_mset mp_getMessageKey (mset (takenOf es))"
    by (rule image_mset_subseteq_mono)
  then have "mset (map mp_getMessageKey (handledOf es)) \<subseteq># mset (map mp_getMessageKey (takenOf es))" by simp
  then have "distinct (map mp_getMessageKey (handledOf es))" using r(2) distinct_subset unfolding mp_ok_def by blast
  then show ?thesis using r unfolding mp_ok_def by blast
qed

theorem processor_handles_once_witness:
  "\<exists>st es. mpRun (sort_key mp_rank) id [MpReceive True sampleEnvelope, MpReceive True sampleEnvelope, MpTake, MpTick (Epoch + 100)]
      (NewMessageProcessor 2, []) = Ret (st, es) \<and> distinct (map mp_getMessageKey (handledOf es)) \<and> in_order (mpBuffer st)"
proof -
  have "\<forall>x \<in> set [MpReceive True sampleEnvelope, MpReceive True sampleEnvelope, MpTake, MpTick (Epoch + 100)]. keepsSeen x"
    by (simp add: keepsSeen_def)
  from processor_handles_once [OF sorts_sort_key _ this, of 2 id] show ?thesis by auto
qed

section \<open>A tick\<close>

definition mp_old :: "int \<Rightarrow> envelope \<Rightarrow> bool" where
  "mp_old now e \<longleftrightarrow> \<not> now - ExtractTimestamp (mpID e) < 50"

lemma in_order_times: "in_order es \<Longrightarrow> sorted_wrt (\<lambda>a b. ExtractTimestamp (mpID a) \<le> ExtractTimestamp (mpID b)) es"
  unfolding in_order_def by (erule sorted_wrt_mono_rel [rotated]) (auto simp: mp_less_def Compare_def Let_def split: if_splits)

lemma scanBuffer_takeWhile:
  "\<forall>e \<in> set es. length (MessageId e) = GlobalIDLength \<Longrightarrow> scanBuffer now i p es =
     (if takeWhile (mp_old now) es = [] then p else i + length (takeWhile (mp_old now) es), takeWhile (mp_old now) es)"
  by (induction es arbitrary: i p) (simp_all add: mp_old_def mpID_def FromBytes_def)

lemma takeWhile_filter:
  "sorted_wrt (\<lambda>a b. P b \<longrightarrow> P a) xs \<Longrightarrow> takeWhile P xs = filter P xs \<and> dropWhile P xs = filter (\<lambda>x. \<not> P x) xs"
proof (induction xs)
  case (Cons x xs)
  show ?case
  proof (cases "P x")
    case False
    then have "\<forall>y \<in> set xs. \<not> P y" using Cons.prems by auto
    then show ?thesis using False by (simp add: filter_empty_conv)
  qed (use Cons in simp)
qed simp

text \<open>C35: a tick splits the buffer by age.  With the buffer in the order of its ids, as it always is, and ids of the right
  length: the messages that are at least 50 ms old are handled, in the order of their ids, and exactly those that are
  younger stay.\<close>

theorem tick_splits_by_age:
  assumes "in_order (mpBuffer st)" "\<forall>e \<in> set (mpBuffer st). length (MessageId e) = GlobalIDLength"
  shows "processBufferedMessages now st =
      (st\<lparr>mpBuffer := filter (\<lambda>e. \<not> mp_old now e) (mpBuffer st)\<rparr>,
       map (\<lambda>e. Handled e (handleMessage e)) (filter (mp_old now) (mpBuffer st))) \<and>
    in_order (filter (mp_old now) (mpBuffer st))"
proof -
  let ?b = "mpBuffer st" and ?n = "length (takeWhile (mp_old now) (mpBuffer st))"
  have "sorted_wrt (\<lambda>a b. mp_old now b \<longrightarrow> mp_old now a) ?b"
    by (rule sorted_wrt_mono_rel [OF _ in_order_times [OF assms(1)]]) (auto simp: mp_old_def)
  note w = takeWhile_filter [OF this]
  have f: "filter (\<lambda>e. length (MessageId e) \<noteq> GlobalIDLength) (take k ?b) = []" for k
    using assms(2) by (auto simp: filter_empty_conv dest: in_set_takeD)
  have d: "drop ?n ?b = filter (\<lambda>e. \<not> mp_old now e) ?b" unfolding dropWhile_eq_drop [symmetric] using w by blast
  have "processBufferedMessages now st = (st\<lparr>mpBuffer := drop ?n ?b\<rparr>, map (\<lambda>e. Handled e (handleMessage e)) (takeWhile (mp_old now) ?b))"
    unfolding processBufferedMessages_def scanBuffer_takeWhile [OF assms(2)] by (simp add: f)
  moreover have "in_order (filter (mp_old now) ?b)" using assms(1) sorted_wrt_filter unfolding in_order_def by blast
  ultimately show ?thesis using w d by simp
qed

theorem tick_splits_by_age_witness:
  "processBufferedMessages (Epoch + 100) ((NewMessageProcessor 2)\<lparr>mpBuffer := [sampleEnvelope]\<rparr>) =
     ((NewMessageProcessor 2)\<lparr>mpBuffer := []\<rparr>, [Handled sampleEnvelope (handleMessage sampleEnvelope)])"
proof -
  let ?st = "(NewMessageProcessor 2)\<lparr>mpBuffer := [sampleEnvelope]\<rparr>"
  have l: "length (MessageId sampleEnvelope) = GlobalIDLength" by (simp add: sampleEnvelope_def ToBytes_def wf_buildID [unfolded wf_id_def])
  have "mpID sampleEnvelope = buildIDWithSeq (Epoch + 5) 1 2 3 0 4" using l by (simp add: mpID_def FromBytes_def) (simp add: sampleEnvelope_def ToBytes_def)
  then have o: "mp_old (Epoch + 100) sampleEnvelope" by (simp add: mp_old_def ExtractTimestamp_build clamp_exact)
  have "in_order (mpBuffer ?st)" "\<forall>e \<in> set (mpBuffer ?st). length (MessageId e) = GlobalIDLength" using l by (simp_all add: in_order_def)
  from tick_splits_by_age [OF this, of "Epoch + 100"] show ?thesis using o by simp
qed

section \<open>What is forgotten\<close>

lemma forgetSeen_result:
  "distinct keys \<Longrightarrow> distinct seen \<Longrightarrow> set keys = set seen \<Longrightarrow> seen \<noteq> [] \<Longrightarrow>
     snd (forgetSeen keys c seen) = max (c + 1) ((length seen + c + 1) div 3) \<and>
     length (fst (forgetSeen keys c seen)) + snd (forgetSeen keys c seen) = length seen + c"
proof (induction keys arbitrary: c seen)
  case (Cons k keys)
  let ?s = "removeAll k seen"
  have "k \<in> set seen" using Cons.prems(3) by auto
  then have l: "length ?s + 1 = length seen" using Cons.prems(2,4)
    by (simp add: distinct_remove1_removeAll [symmetric] length_remove1)
  show ?case
  proof (cases "c + 1 \<ge> length ?s div 2")
    case True
    then have "(length seen + c + 1) div 3 \<le> c + 1" using l by linarith
    then show ?thesis using True l by (simp add: Let_def)
  next
    case False
    then have ne: "?s \<noteq> []" by auto
    have "distinct keys" "distinct ?s" "set keys = set ?s" using Cons.prems(1-3) by (auto simp: distinct_removeAll)
    from Cons.IH [OF this ne, of "c + 1"] have ih: "snd (forgetSeen keys (c + 1) ?s) = max (c + 1 + 1) ((length ?s + (c + 1) + 1) div 3)"
      "length (fst (forgetSeen keys (c + 1) ?s)) + snd (forgetSeen keys (c + 1) ?s) = length ?s + (c + 1)" by auto
    have "c + 1 + 1 \<le> (length seen + c + 1) div 3" using False l by linarith
    then show ?thesis using False ih l by (simp add: Let_def)
  qed
qed simp

text \<open>C38: the clean-up of seen messages forgets a third of them, not half: of more than 10000 keys it removes one third,
  whatever the order in which the map is walked, because the number it counts up to is half of what is left.\<close>

theorem cleanup_forgets_a_third:
  assumes "distinct (mpSeen st)" "10000 < length (mpSeen st)" "distinct (order (mpSeen st))" "set (order (mpSeen st)) = set (mpSeen st)"
  shows "length (mpSeen (cleanupSeenMessages order st)) = length (mpSeen st) - (length (mpSeen st) + 1) div 3"
proof -
  have "mpSeen st \<noteq> []" using assms(2) by auto
  from forgetSeen_result [OF assms(3,1,4) this, of 0]
  have r: "snd (forgetSeen (order (mpSeen st)) 0 (mpSeen st)) = max 1 ((length (mpSeen st) + 1) div 3)"
    "length (fst (forgetSeen (order (mpSeen st)) 0 (mpSeen st))) + snd (forgetSeen (order (mpSeen st)) 0 (mpSeen st)) = length (mpSeen st)" by simp_all
  have "1 \<le> (length (mpSeen st) + 1) div 3" using assms(2) by linarith
  then show ?thesis using r assms(2) by (simp add: cleanupSeenMessages_def)
qed

theorem cleanup_forgets_a_third_witness:
  "length (mpSeen (cleanupSeenMessages id ((NewMessageProcessor 2)\<lparr>mpSeen := map (\<lambda>n. replicate n 0) [0..<10001]\<rparr>))) = 6667"
proof -
  define keys :: "bytes list" where "keys = map (\<lambda>n. replicate n 0) [0..<10001]"
  have "inj_on (\<lambda>n. replicate n (0 :: u8)) (set [0..<10001])" by (rule inj_onI) (metis length_replicate)
  then have d: "distinct keys" unfolding keys_def by (simp only: distinct_map distinct_upt simp_thms)
  have l: "length keys = 10001" unfolding keys_def by (simp only: length_map length_upt)
  have "length (mpSeen (cleanupSeenMessages id ((NewMessageProcessor 2)\<lparr>mpSeen := keys\<rparr>))) = length keys - (length keys + 1) div 3"
    using cleanup_forgets_a_third [of "(NewMessageProcessor 2)\<lparr>mpSeen := keys\<rparr>" id] d l by simp
  then show ?thesis unfolding l keys_def by simp
qed

end
