(* ===== verification/NetClient.thy ===== *)
theory NetClient
  imports Prelude
begin

text \<open>
  The network client of \<^verbatim>\<open>util/net/api/client.go\<close>: a connection, its read loop, and automatic reconnection.  What the
  operating system answers to a connect, what reading gives in a round, and the results of writes are arguments; a
  connection is a number.  \<^verbatim>\<open>Connect\<close> ends with a call of \<^verbatim>\<open>OnConnected\<close>, which is left to the theory of its user.
\<close>

section \<open>The network client\<close>

datatype api_error = ApiAlreadyConnected | ApiSocket string | ApiConnect string | ApiKeepAlive string | ApiNotConnected | ApiNil | ApiSend string

datatype os_dial = NoSocket string | NoConnect string | NoKeepAlive string | Dialed nat

datatype api_event = ApiMessage bytes | ApiDisconnected | ApiError | ApiReconnected nat

text \<open>\<open>acReaders\<close>: the connections whose read loop has not ended.\<close>

record api_client =
  acConn :: "nat option"
  acConnected :: bool
  acDone :: bool
  acReaders :: "nat list"
  acSent :: i64
  acBytes :: i64
  acReceived :: i64
  acReconnects :: i64

definition NewClient :: api_client where
  "NewClient = \<lparr>acConn = None, acConnected = False, acDone = False, acReaders = [], acSent = 0, acBytes = 0, acReceived = 0, acReconnects = 0\<rparr>"

text \<open>What \<^verbatim>\<open>Connect\<close> does before it calls \<^verbatim>\<open>OnConnected\<close>.\<close>

definition ac_Connect :: "os_dial \<Rightarrow> api_client \<Rightarrow> api_client \<times> api_error option" where
  "ac_Connect dial c =
     (if acConnected c then (c, Some ApiAlreadyConnected)
      else case dial of
             NoSocket e \<Rightarrow> (c, Some (ApiSocket e))
           | NoConnect e \<Rightarrow> (c, Some (ApiConnect e))
           | NoKeepAlive e \<Rightarrow> (c, Some (ApiKeepAlive e))
           | Dialed k \<Rightarrow> (c\<lparr>acConn := Some k, acConnected := True, acReaders := acReaders c @ [k]\<rparr>, None))"

text \<open>The callbacks of a connection.\<close>

definition ac_onMessage :: "bytes \<Rightarrow> api_client \<Rightarrow> api_client \<times> api_event list" where
  "ac_onMessage payload c = (c\<lparr>acReceived := acReceived c + 1\<rparr>, [ApiMessage payload])"

definition ac_onClose :: "api_client \<Rightarrow> api_client \<times> api_event list" where
  "ac_onClose c = (c\<lparr>acConnected := False\<rparr>, [ApiDisconnected])"

text \<open>A round of the read loop: what it waited for, and what reading gave.  \<open>RdFailed closed\<close>: an error, and whether
  the connection is closed.\<close>

datatype read_round = RdNothing | RdMessages "bytes list" | RdFailed bool

definition readLoop :: "nat \<Rightarrow> read_round \<Rightarrow> api_client \<Rightarrow> api_client \<times> api_event list" where
  "readLoop k r c =
     (if k \<notin> set (acReaders c) then (c, [])
      else if acDone c \<or> \<not> acConnected c then (c\<lparr>acReaders := remove1 k (acReaders c)\<rparr>, [])
      else case r of
             RdNothing \<Rightarrow> (c, [])
           | RdMessages ps \<Rightarrow> foldl (\<lambda>(c, evs) p. case ac_onMessage p c of (c1, ev) \<Rightarrow> (c1, evs @ ev)) (c, []) ps
           | RdFailed closed \<Rightarrow>
               (let c1 = c\<lparr>acReaders := remove1 k (acReaders c)\<rparr>
                in if closed then (c1, []) else (c1\<lparr>acConnected := False\<rparr>, [ApiError])))"

text \<open>\<open>open_conn\<close>: closing the connection runs its callback.\<close>

definition ac_Disconnect :: "bool \<Rightarrow> api_client \<Rightarrow> api_client \<times> api_error option \<times> api_event list" where
  "ac_Disconnect open_conn c =
     (if \<not> acConnected c then (c, Some ApiNotConnected, [])
      else let c1 = c\<lparr>acConnected := False, acDone := True\<rparr>
           in if acConn c1 \<noteq> None \<and> open_conn then (case ac_onClose c1 of (c2, ev) \<Rightarrow> (c2, None, ev)) else (c1, None, []))"

definition ac_Send :: "string option \<Rightarrow> bytes \<Rightarrow> api_client \<Rightarrow> api_client \<times> api_error option" where
  "ac_Send w data c =
     (if \<not> acConnected c then (c, Some ApiNotConnected)
      else if acConn c = None then (c, Some ApiNil)
      else case w of
             Some e \<Rightarrow> (c, Some (ApiSend e))
           | None \<Rightarrow> (c\<lparr>acSent := acSent c + 1, acBytes := acBytes c + of_nat (length data)\<rparr>, None))"

text \<open>The attempts that are left, with the number of the first; without a connection object they only wait.\<close>

fun attemptReconnect :: "nat \<Rightarrow> os_dial list \<Rightarrow> api_client \<Rightarrow> api_client \<times> api_event list" where
  "attemptReconnect n [] c = (c, [ApiError])"
| "attemptReconnect n (dial # dials) c =
     (if acDone c then (c, [])
      else if acConn c = None then attemptReconnect (Suc n) dials c
      else case ac_Connect dial c of
             (c1, None) \<Rightarrow> (c1\<lparr>acReconnects := acReconnects c1 + 1\<rparr>, [ApiReconnected n])
           | (c1, Some _) \<Rightarrow> attemptReconnect (Suc n) dials c1)"

definition handleConnection :: "bool \<Rightarrow> os_dial list \<Rightarrow> api_client \<Rightarrow> api_client \<times> api_event list" where
  "handleConnection enabled dials c =
     (if acDone c \<or> acConnected c then (c, []) else if enabled then attemptReconnect 1 dials c else (c, []))"

datatype api_call =
    AcConnect os_dial
  | AcSend "string option" bytes
  | AcRead nat read_round
  | AcClosed
  | AcDisconnect bool
  | AcReconnect "os_dial list"

fun apiStep :: "api_call \<Rightarrow> api_client \<times> api_event list \<Rightarrow> api_client \<times> api_event list" where
  "apiStep (AcConnect dial) (c, es) = (fst (ac_Connect dial c), es)"
| "apiStep (AcSend w data) (c, es) = (fst (ac_Send w data c), es)"
| "apiStep (AcRead k r) (c, es) = (case readLoop k r c of (c1, ev) \<Rightarrow> (c1, es @ ev))"
| "apiStep AcClosed (c, es) = (case ac_onClose c of (c1, ev) \<Rightarrow> (c1, es @ ev))"
| "apiStep (AcDisconnect b) (c, es) = (case ac_Disconnect b c of (c1, _, ev) \<Rightarrow> (c1, es @ ev))"
| "apiStep (AcReconnect dials) (c, es) = (case handleConnection True dials c of (c1, ev) \<Rightarrow> (c1, es @ ev))"

lemma api_step_done:
  assumes "acDone c" "apiStep x (c, es) = (c1, es1)"
  shows "acDone c1 \<and> (\<forall>p. ApiMessage p \<in> set es1 \<longrightarrow> ApiMessage p \<in> set es)"
proof (cases x)
  case (AcConnect dial)
  then show ?thesis using assms by (cases dial) (auto simp: ac_Connect_def split: if_splits)
next
  case (AcRead k r)
  then show ?thesis using assms by (auto simp: readLoop_def split: if_splits)
next
  case (AcReconnect dials)
  then show ?thesis using assms by (auto simp: handleConnection_def)
qed (use assms in \<open>auto simp: ac_Send_def ac_onClose_def ac_Disconnect_def Let_def split: if_splits option.splits\<close>)

text \<open>A network client that was disconnected never receives again.  \<^verbatim>\<open>Disconnect\<close> cancels the context of the client and
  nothing renews it: whatever is called afterwards, with connects that succeed, no message reaches the event handler,
  because each read loop ends in its first round.\<close>

theorem disconnected_client_is_deaf:
  assumes "acConnected c" "ac_Disconnect b c = (c0, e, ev)" "fold apiStep xs (c0, []) = (c1, es)"
  shows "\<forall>p. ApiMessage p \<notin> set es"
proof -
  have d: "acDone c0" using assms(1,2) by (auto simp: ac_Disconnect_def ac_onClose_def Let_def split: if_splits)
  have "acDone c' \<Longrightarrow> fold apiStep xs (c', es') = (c1, es) \<Longrightarrow> \<forall>p. ApiMessage p \<in> set es \<longrightarrow> ApiMessage p \<in> set es'" for c' es'
  proof (induction xs arbitrary: c' es')
    case (Cons x xs)
    obtain c2 es2 where s: "apiStep x (c', es') = (c2, es2)" by (rule prod.exhaust)
    from api_step_done [OF Cons.prems(1) s] Cons.IH [of c2 es2] Cons.prems(2) s show ?case by auto
  qed simp
  from this [OF d assms(3)] show ?thesis by simp
qed

theorem disconnected_client_is_deaf_witness:
  "\<exists>c0 c1 es. ac_Disconnect True (fst (ac_Connect (Dialed 1) NewClient)) = (c0, None, [ApiDisconnected]) \<and>
    fold apiStep [AcRead 1 RdNothing, AcConnect (Dialed 2), AcRead 2 (RdMessages [[1, 2]])] (c0, []) = (c1, es) \<and>
    acConnected c1 \<and> (\<forall>p. ApiMessage p \<notin> set es)"
proof -
  let ?c = "fst (ac_Connect (Dialed 1) NewClient)"
  let ?xs = "[AcRead 1 RdNothing, AcConnect (Dialed 2), AcRead 2 (RdMessages [[1, 2]])]"
  obtain c0 where d: "ac_Disconnect True ?c = (c0, None, [ApiDisconnected])"
    by (simp add: ac_Connect_def NewClient_def ac_Disconnect_def ac_onClose_def)
  then have c0: "c0 = NewClient\<lparr>acConn := Some 1, acDone := True, acReaders := [1]\<rparr>"
    by (simp add: ac_Connect_def NewClient_def ac_Disconnect_def ac_onClose_def)
  have "acConnected (fst (fold apiStep ?xs (c0, [])))"
    unfolding c0 by (simp add: ac_Connect_def NewClient_def readLoop_def)
  moreover obtain c1 es where f: "fold apiStep ?xs (c0, []) = (c1, es)" by (rule prod.exhaust)
  ultimately have r: "fold apiStep ?xs (c0, []) = (c1, es)" "acConnected c1" by (metis fst_conv)+
  have "acConnected ?c" by (simp add: ac_Connect_def NewClient_def)
  from disconnected_client_is_deaf [OF this d r(1)] show ?thesis using d r by blast
qed

end
