(* ===== verification/LiveChatClient.thy ===== *)
theory LiveChatClient
  imports ClientReliability MessageProcessor NetClient
begin

text \<open>
  The chat client: \<^verbatim>\<open>client/client.go\<close> with \<^verbatim>\<open>client/event_handler.go\<close>, on top of the network client, the reliability
  manager and the message processor.  The mutex \<^verbatim>\<open>connMutex\<close> is
  a flag of the state: it is set while a call holds it for writing, and it stays set when that call waits for ever.
  A call runs up to its end or up to where it waits for the mutex.  What the operating system answers, the clock, the
  ticks of the id generator and the protobuf library are arguments.
\<close>

section \<open>The state of the chat client\<close>

datatype chat_event =
    ChConnected string
  | ChDisconnected string
  | ChSwitched string string
  | ChError
  | ChWire nat bytes

record chat_node =
  cnAddr :: string
  cnApi :: api_client
  cnLink :: "nat option"
  cnUp :: bool

record chat_net =
  cnNodes :: "chat_node list"
  cnActive :: int
  cnConnected :: bool
  cnLocked :: bool
  cnLog :: "chat_event list"

record chat_client =
  ccRel :: "chat_net reliability"
  ccProc :: processor
  ccUser :: u32
  ccLogin :: u8
  ccRoom :: u32
  ccGen :: id_gen
  ccSeq :: conn_seq_gen
  ccStarted :: bool
  ccSyncing :: bool
  ccSyncs :: "u32 list"
  ccLosses :: nat
  ccReconnecting :: nat
  ccHandler :: bool
  ccReceived :: i64
  ccSwitches :: i64
  ccBytes :: i64

text \<open>A call returns, or waits for the mutex for ever.\<close>

datatype 'r ran = Back 'r | Waits

datatype chat_error =
    ClAlreadyStarted | ClNotStarted | ClNoServer | ClNoConnection | ClDial string api_error | ClNotConnected
  | ClEnvelope codec_error | ClTicks | ClSerialize codec_error | ClReliability rm_error | ClDeserialize codec_error

definition theNet :: "chat_client \<Rightarrow> chat_net" where
  "theNet st = net (ccRel st)"

definition onNet :: "(chat_net \<Rightarrow> chat_net) \<Rightarrow> chat_client \<Rightarrow> chat_client" where
  "onNet f st = st\<lparr>ccRel := (ccRel st)\<lparr>net := f (net (ccRel st))\<rparr>\<rparr>"

definition atNode :: "nat \<Rightarrow> (chat_node \<Rightarrow> chat_node) \<Rightarrow> chat_net \<Rightarrow> chat_net" where
  "atNode i f n = n\<lparr>cnNodes := (cnNodes n)[i := f (cnNodes n ! i)]\<rparr>"

definition tell :: "chat_event \<Rightarrow> chat_client \<Rightarrow> chat_client" where
  "tell ev st = (if ccHandler st then onNet (\<lambda>n. n\<lparr>cnLog := cnLog n @ [ev]\<rparr>) st else st)"

definition initConnections :: "string list \<Rightarrow> chat_node list" where
  "initConnections addrs = map (\<lambda>a. \<lparr>cnAddr = a, cnApi = NewClient, cnLink = None, cnUp = False\<rparr>) addrs"

definition NewLiveChatClient :: "u32 \<Rightarrow> u8 \<Rightarrow> string list \<Rightarrow> nat \<Rightarrow> int \<Rightarrow> bool \<Rightarrow> id_gen \<Rightarrow> chat_client" where
  "NewLiveChatClient user login addrs bufferSize maxRetries handler g =
     \<lparr>ccRel = NewReliabilityManager maxRetries handler
        \<lparr>cnNodes = initConnections addrs, cnActive = 0, cnConnected = False, cnLocked = False, cnLog = []\<rparr>,
      ccProc = NewMessageProcessor bufferSize, ccUser = user, ccLogin = login, ccRoom = 0, ccGen = g, ccSeq = NewConnSeqGenerator,
      ccStarted = False, ccSyncing = False, ccSyncs = [], ccLosses = 0, ccReconnecting = 0, ccHandler = handler,
      ccReceived = 0, ccSwitches = 0, ccBytes = 0\<rparr>"

section \<open>Events of the network\<close>

text \<open>The read lock cannot be had while a call holds the mutex for writing, also for that call itself.\<close>

definition isActiveNode :: "nat \<Rightarrow> chat_client \<Rightarrow> bool ran" where
  "isActiveNode i st =
     (if cnLocked (theNet st) then Waits
      else Back (0 \<le> cnActive (theNet st) \<and> nat (cnActive (theNet st)) < length (cnNodes (theNet st)) \<and> nat (cnActive (theNet st)) = i))"

definition ch_OnConnected :: "nat \<Rightarrow> chat_client \<Rightarrow> chat_client \<times> unit ran" where
  "ch_OnConnected i st =
     (let st1 = onNet (atNode i (\<lambda>nd. nd\<lparr>cnLink := acConn (cnApi nd), cnUp := True\<rparr>)) st
      in case isActiveNode i st1 of
           Waits \<Rightarrow> (st1, Waits)
         | Back False \<Rightarrow> (st1, Back ())
         | Back True \<Rightarrow> (tell (ChConnected (cnAddr (cnNodes (theNet st1) ! i))) (onNet (\<lambda>n. n\<lparr>cnConnected := True\<rparr>) st1), Back ()))"

definition ch_OnDisconnected :: "nat \<Rightarrow> chat_client \<Rightarrow> chat_client \<times> unit ran" where
  "ch_OnDisconnected i st =
     (let st1 = onNet (atNode i (\<lambda>nd. nd\<lparr>cnLink := None, cnUp := False\<rparr>)) st
      in case isActiveNode i st1 of
           Waits \<Rightarrow> (st1, Waits)
         | Back False \<Rightarrow> (st1, Back ())
         | Back True \<Rightarrow>
             (let st2 = tell (ChDisconnected (cnAddr (cnNodes (theNet st1) ! i))) (onNet (\<lambda>n. n\<lparr>cnConnected := False\<rparr>) st1)
              in (st2\<lparr>ccLosses := ccLosses st2 + 1\<rparr>, Back ())))"

definition ch_OnReconnected :: "nat \<Rightarrow> chat_client \<Rightarrow> chat_client \<times> unit ran" where
  "ch_OnReconnected i st =
     (let st1 = onNet (atNode i (\<lambda>nd. nd\<lparr>cnLink := acConn (cnApi nd), cnUp := True\<rparr>)) st
      in case isActiveNode i st1 of
           Waits \<Rightarrow> (st1, Waits)
         | Back False \<Rightarrow> (st1, Back ())
         | Back True \<Rightarrow> (onNet (\<lambda>n. n\<lparr>cnConnected := True\<rparr>) st1, Back ()))"

definition ch_OnError :: "nat \<Rightarrow> chat_client \<Rightarrow> chat_client \<times> unit ran" where
  "ch_OnError i st =
     (let st1 = tell ChError st
      in case isActiveNode i st1 of
           Waits \<Rightarrow> (st1, Waits)
         | Back False \<Rightarrow> (st1, Back ())
         | Back True \<Rightarrow> (st1\<lparr>ccLosses := ccLosses st1 + 1\<rparr>, Back ()))"

section \<open>Connecting\<close>

definition connectToNode :: "(nat \<Rightarrow> os_dial) \<Rightarrow> nat \<Rightarrow> chat_client \<Rightarrow> chat_client \<times> chat_error option ran" where
  "connectToNode dials i st =
     (let nd = cnNodes (theNet st) ! i
      in if cnUp nd then (st, Back None)
         else case ac_Connect (dials i) (cnApi nd) of
                (api, Some e) \<Rightarrow> (onNet (atNode i (\<lambda>nd. nd\<lparr>cnApi := api\<rparr>)) st, Back (Some (ClDial (cnAddr nd) e)))
              | (api, None) \<Rightarrow>
                  (case ch_OnConnected i (onNet (atNode i (\<lambda>nd. nd\<lparr>cnApi := api\<rparr>)) st) of
                     (st1, Waits) \<Rightarrow> (st1, Waits)
                   | (st1, Back _) \<Rightarrow> (onNet (atNode i (\<lambda>nd. nd\<lparr>cnUp := True\<rparr>)) st1, Back None)))"

text \<open>The loop over the nodes that are tried, in their order: the node that is connected.\<close>

fun tryNodes :: "(nat \<Rightarrow> os_dial) \<Rightarrow> nat list \<Rightarrow> chat_client \<Rightarrow> chat_client \<times> nat option ran" where
  "tryNodes dials [] st = (st, Back None)"
| "tryNodes dials (i # is) st =
     (case connectToNode dials i st of
        (st1, Waits) \<Rightarrow> (st1, Waits)
      | (st1, Back None) \<Rightarrow> (st1, Back (Some i))
      | (st1, Back (Some _)) \<Rightarrow> tryNodes dials is st1)"

definition lockNet :: "chat_client \<Rightarrow> chat_client" where
  "lockNet st = onNet (\<lambda>n. n\<lparr>cnLocked := True\<rparr>) st"

definition unlockNet :: "chat_client \<Rightarrow> chat_client" where
  "unlockNet st = onNet (\<lambda>n. n\<lparr>cnLocked := False\<rparr>) st"

definition connectToAvailableServer :: "(nat \<Rightarrow> os_dial) \<Rightarrow> chat_client \<Rightarrow> chat_client \<times> chat_error option ran" where
  "connectToAvailableServer dials st =
     (if cnLocked (theNet st) then (st, Waits)
      else case tryNodes dials [0..<length (cnNodes (theNet st))] (lockNet st) of
             (st1, Waits) \<Rightarrow> (st1, Waits)
           | (st1, Back None) \<Rightarrow> (unlockNet st1, Back (Some ClNoServer))
           | (st1, Back (Some i)) \<Rightarrow>
               (unlockNet (tell (ChConnected (cnAddr (cnNodes (theNet st1) ! i)))
                  (onNet (\<lambda>n. n\<lparr>cnActive := int i, cnConnected := True\<rparr>) st1)), Back None))"

definition syncRoomAfterReconnect :: "chat_client \<Rightarrow> chat_client" where
  "syncRoomAfterReconnect st =
     (if ccRoom st = 0 \<or> \<not> cnConnected (theNet st) then st
      else if ccSyncing st then st
      else st\<lparr>ccSyncing := True, ccSyncs := ccSyncs st @ [ccRoom st]\<rparr>)"

text \<open>There is at least one node: only the events of a node lead here.\<close>

definition switchToNextAvailableConnection :: "(nat \<Rightarrow> os_dial) \<Rightarrow> chat_client \<Rightarrow> chat_client \<times> chat_error option ran" where
  "switchToNextAvailableConnection dials st =
     (if cnLocked (theNet st) then (st, Waits)
      else let cur = nat (cnActive (theNet st)); len = length (cnNodes (theNet st)); oldAddr = cnAddr (cnNodes (theNet st) ! cur)
           in case tryNodes dials (map (\<lambda>i. (cur + i + 1) mod len) [0..<len]) (lockNet st) of
                (st1, Waits) \<Rightarrow> (st1, Waits)
              | (st1, Back None) \<Rightarrow> (unlockNet (onNet (\<lambda>n. n\<lparr>cnConnected := False\<rparr>) st1), Back (Some ClNoConnection))
              | (st1, Back (Some i)) \<Rightarrow>
                  (let st2 = onNet (\<lambda>n. n\<lparr>cnActive := int i\<rparr>) st1;
                       st3 = tell (ChSwitched oldAddr (cnAddr (cnNodes (theNet st1) ! i))) (st2\<lparr>ccSwitches := ccSwitches st2 + 1\<rparr>)
                   in (unlockNet (syncRoomAfterReconnect st3), Back None)))"

definition handleConnectionLoss :: "(nat \<Rightarrow> os_dial) \<Rightarrow> chat_client \<Rightarrow> chat_client \<times> unit ran" where
  "handleConnectionLoss dials st =
     (if \<not> ccStarted st then (st, Back ())
      else case switchToNextAvailableConnection dials st of
             (st1, Waits) \<Rightarrow> (st1, Waits)
           | (st1, Back None) \<Rightarrow> (st1, Back ())
           | (st1, Back (Some _)) \<Rightarrow> (st1\<lparr>ccReconnecting := ccReconnecting st1 + 1\<rparr>, Back ()))"

text \<open>A tick of a reconnect loop that runs.\<close>

definition reconnectLoop :: "(nat \<Rightarrow> os_dial) \<Rightarrow> chat_client \<Rightarrow> chat_client \<times> unit ran" where
  "reconnectLoop dials st =
     (if \<not> cnConnected (theNet st) \<and> ccStarted st
      then case connectToAvailableServer dials st of
             (st1, Waits) \<Rightarrow> (st1, Waits)
           | (st1, Back None) \<Rightarrow> ((syncRoomAfterReconnect st1)\<lparr>ccReconnecting := ccReconnecting st1 - 1\<rparr>, Back ())
           | (st1, Back (Some _)) \<Rightarrow> (st1, Back ())
      else (st\<lparr>ccReconnecting := ccReconnecting st - 1\<rparr>, Back ()))"

section \<open>Starting and stopping\<close>

definition cl_Start :: "(nat \<Rightarrow> os_dial) \<Rightarrow> chat_client \<Rightarrow> chat_client \<times> chat_error option ran" where
  "cl_Start dials st =
     (if ccStarted st then (st, Back (Some ClAlreadyStarted))
      else case connectToAvailableServer dials (st\<lparr>ccStarted := True\<rparr>) of
             (st1, Waits) \<Rightarrow> (st1, Waits)
           | (st1, Back (Some e)) \<Rightarrow> (st1\<lparr>ccStarted := False\<rparr>, Back (Some e))
           | (st1, Back None) \<Rightarrow> (st1, Back None))"

fun disconnectNodes :: "nat list \<Rightarrow> chat_client \<Rightarrow> chat_client \<times> unit ran" where
  "disconnectNodes [] st = (st, Back ())"
| "disconnectNodes (i # is) st =
     (let nd = cnNodes (theNet st) ! i
      in if \<not> cnUp nd then disconnectNodes is st
         else case ac_Disconnect True (cnApi nd) of
                (api, _, ev) \<Rightarrow>
                  (let st1 = onNet (atNode i (\<lambda>nd. nd\<lparr>cnApi := api\<rparr>)) st
                   in if ApiDisconnected \<in> set ev
                      then case ch_OnDisconnected i st1 of (st2, Waits) \<Rightarrow> (st2, Waits) | (st2, Back _) \<Rightarrow> disconnectNodes is st2
                      else disconnectNodes is st1))"

definition cl_Stop :: "chat_client \<Rightarrow> chat_client \<times> chat_error option ran" where
  "cl_Stop st =
     (if \<not> ccStarted st then (st, Back (Some ClNotStarted))
      else let st1 = st\<lparr>ccStarted := False, ccProc := (ccProc st)\<lparr>mpDone := True\<rparr>\<rparr>
           in if cnLocked (theNet st1) then (st1, Waits)
              else case disconnectNodes [0..<length (cnNodes (theNet st1))] (lockNet st1) of
                     (st2, Waits) \<Rightarrow> (st2, Waits)
                   | (st2, Back _) \<Rightarrow> (onNet (\<lambda>n. n\<lparr>cnConnected := False\<rparr>) (unlockNet st2), Back None))"

section \<open>Sending\<close>

definition getActiveConnection :: "chat_net \<Rightarrow> nat option ran" where
  "getActiveConnection n =
     (if \<not> cnConnected n then Back None
      else if cnLocked n then Waits
      else if 0 \<le> cnActive n \<and> nat (cnActive n) < length (cnNodes n) \<and> cnUp (cnNodes n ! nat (cnActive n))
           then Back (Some (nat (cnActive n)))
      else Back None)"

text \<open>\<^verbatim>\<open>sendToActiveConnection\<close> of the reliability manager, when the mutex is free; \<open>w\<close> is the result of the write.\<close>

definition clientSend :: "string option \<Rightarrow> chat_net \<Rightarrow> bytes \<Rightarrow> chat_net \<times> bool" where
  "clientSend w n data =
     (case getActiveConnection n of
        Back (Some i) \<Rightarrow>
          (case (cnLink (cnNodes n ! i), w) of
             (Some k, None) \<Rightarrow> (n\<lparr>cnLog := cnLog n @ [ChWire k data]\<rparr>, True)
           | _ \<Rightarrow> (n, False))
      | _ \<Rightarrow> (n, False))"

text \<open>\<^verbatim>\<open>SendMessage\<close> of the reliability manager, which waits where it looks for the active connection.\<close>

definition reliableSend :: "chat_net Net \<Rightarrow> string option \<Rightarrow> int \<Rightarrow> envelope \<Rightarrow> bytes \<Rightarrow> chat_client \<Rightarrow> chat_client \<times> chat_error option ran" where
  "reliableSend N w now e data st =
     (if getActiveConnection (theNet st) = Waits
      then (case Message e of
              Some (Heartbeat _) \<Rightarrow> st
            | _ \<Rightarrow> st\<lparr>ccRel := enqueueForACKMatching e (getMessageKey e)
                     (setPending (getMessageKey e) \<lparr>pEnvelope = e, pData = data, sentTime = now, retries = 0, hasTimer = False\<rparr> (ccRel st))\<rparr>,
            Waits)
      else case SendMessage (N\<lparr>nsend := clientSend w\<rparr>) now (ccRel st) e data of
             (rm, Inl err) \<Rightarrow> (st\<lparr>ccRel := rm\<rparr>, Back (Some (ClReliability err)))
           | (rm, Inr _) \<Rightarrow> (st\<lparr>ccRel := rm\<rparr>, Back None))"

text \<open>\<open>now\<close> in nanoseconds.\<close>

record chat_env =
  ceNet :: "chat_net Net"
  ceProto :: "envelope \<Rightarrow> bytes option"
  ceParse :: "bytes \<Rightarrow> envelope option"
  ceFetchBatch :: u32

definition cl_SendMessage :: "chat_env \<Rightarrow> int list \<Rightarrow> string option \<Rightarrow> int \<Rightarrow> content \<Rightarrow> chat_client \<Rightarrow> chat_client \<times> chat_error option ran" where
  "cl_SendMessage E ticks w now c st =
     (if \<not> cnConnected (theNet st) then (st, Back (Some ClNotConnected))
      else let (sq, connSeq) = SeqNext (ccSeq st); st1 = st\<lparr>ccSeq := sq\<rparr>
           in case CreateEnvelope ticks (ccGen st1) (ccUser st1) (ccRoom st1) (ccLogin st1) connSeq c of
                None \<Rightarrow> (st1, Back (Some ClTicks))
              | Some (g, Inl err) \<Rightarrow> (st1\<lparr>ccGen := g\<rparr>, Back (Some (ClEnvelope err)))
              | Some (g, Inr e) \<Rightarrow>
                  (case Serialize (ceProto E) (now div 1000000) (Some e) of
                     Inl err \<Rightarrow> (st1\<lparr>ccGen := g\<rparr>, Back (Some (ClSerialize err)))
                   | Inr data \<Rightarrow> reliableSend (ceNet E) w now e data (st1\<lparr>ccGen := g\<rparr>)))"

text \<open>The calls of the application.  Two of them set the current room before they send.\<close>

datatype chat_request =
    RqAllocateRoomID
  | RqCreateRoom u64 string u32 string
  | RqJoinRoom u64 string
  | RqLeaveRoom
  | RqCloseRoom
  | RqSendChatMessage string ContentType u64
  | RqFetchMessage bytes
  | RqFetchRoomMessages u64 u32 u64
  | RqSendHeartbeat

fun cl_request :: "chat_env \<Rightarrow> int list \<Rightarrow> string option \<Rightarrow> int \<Rightarrow> chat_request \<Rightarrow> chat_client \<Rightarrow> chat_client \<times> chat_error option ran" where
  "cl_request E ticks w now RqAllocateRoomID st = cl_SendMessage E ticks w now (Known AllocateRoomId) st"
| "cl_request E ticks w now (RqCreateRoom room name members password) st =
     cl_SendMessage E ticks w now
       (Known (CreateRoom \<lparr>cr_room_id = room, cr_name = name, cr_max_members = members, cr_password = password\<rparr>))
       (st\<lparr>ccRoom := ucast room\<rparr>)"
| "cl_request E ticks w now (RqJoinRoom room password) st =
     cl_SendMessage E ticks w now (Known (JoinRoom password)) (st\<lparr>ccRoom := ucast room\<rparr>)"
| "cl_request E ticks w now RqLeaveRoom st = cl_SendMessage E ticks w now (Known LeaveRoom) st"
| "cl_request E ticks w now RqCloseRoom st = cl_SendMessage E ticks w now (Known CloseRoom) st"
| "cl_request E ticks w now (RqSendChatMessage text kind reply) st =
     cl_SendMessage E ticks w now (Known (ChatMessage \<lparr>cm_content = text, cm_type = kind, cm_reply_to = reply\<rparr>)) st"
| "cl_request E ticks w now (RqFetchMessage i) st =
     cl_SendMessage E ticks w now (Known (MessageFetchRequest \<lparr>mfr_message_id = i, mfr_timestamp = word_of_int (now div 1000000)\<rparr>)) st"
| "cl_request E ticks w now (RqFetchRoomMessages before limit since) st =
     cl_SendMessage E ticks w now (Known (RoomMessageFetchRequest
       \<lparr>rfr_room_id = ucast (ccRoom st), rfr_before_message_id = before, rfr_limit = limit, rfr_since_timestamp = since\<rparr>)) st"
| "cl_request E ticks w now RqSendHeartbeat st =
     cl_SendMessage E ticks w now (Known (Heartbeat (word_of_int (now div 1000000)))) st"

text \<open>A tick of the heartbeat loop.\<close>

definition heartbeatTick :: "chat_env \<Rightarrow> int list \<Rightarrow> string option \<Rightarrow> int \<Rightarrow> chat_client \<Rightarrow> chat_client \<times> unit ran" where
  "heartbeatTick E ticks w now st =
     (if cnConnected (theNet st)
      then case cl_request E ticks w now RqSendHeartbeat st of (st1, Waits) \<Rightarrow> (st1, Waits) | (st1, Back _) \<Rightarrow> (st1, Back ())
      else (st, Back ()))"

text \<open>The goroutine that joins the room again, after its pause.\<close>

definition syncRoom :: "chat_env \<Rightarrow> int list \<Rightarrow> int list \<Rightarrow> string option \<Rightarrow> string option \<Rightarrow> int \<Rightarrow> u32 \<Rightarrow> chat_client \<Rightarrow> chat_client \<times> unit ran" where
  "syncRoom E ticks1 ticks2 w1 w2 now room st =
     (case cl_request E ticks1 w1 now (RqJoinRoom (ucast room) []) st of
        (st1, Waits) \<Rightarrow> (st1, Waits)
      | (st1, Back (Some _)) \<Rightarrow> (st1\<lparr>ccSyncing := False\<rparr>, Back ())
      | (st1, Back None) \<Rightarrow>
          (case cl_request E ticks2 w2 now (RqFetchRoomMessages 0 (if ceFetchBatch E = 0 then 50 else ceFetchBatch E) 0) st1 of
             (st2, Waits) \<Rightarrow> (st2, Waits)
           | (st2, Back _) \<Rightarrow> (st2\<lparr>ccSyncing := False\<rparr>, Back ())))"

section \<open>Receiving\<close>

definition handleIncomingMessage :: "chat_env \<Rightarrow> bool \<Rightarrow> int \<Rightarrow> bytes \<Rightarrow> chat_client \<Rightarrow> chat_client \<times> chat_error option ran \<times> mp_effect list" where
  "handleIncomingMessage E pick now data st =
     (case Deserialize (ceParse E) (now div 1000000) data of
        Inl err \<Rightarrow> (st, Back (Some (ClDeserialize err)), [])
      | Inr e \<Rightarrow>
          (let st1 = st\<lparr>ccReceived := ccReceived st + 1\<rparr>
           in case HandleACK (ccRel st1) e of
                (rm, _, BlockedForever) \<Rightarrow> (st1\<lparr>ccRel := rm\<rparr>, Waits, [])
              | (rm, True, Finished) \<Rightarrow> (st1\<lparr>ccRel := rm\<rparr>, Back None, [])
              | (rm, False, Finished) \<Rightarrow>
                  (case ProcessMessage pick e (ccProc st1) of
                     (mp, eff) \<Rightarrow> (st1\<lparr>ccRel := rm, ccProc := mp\<rparr>, Back None, eff))))"

definition ch_OnMessageReceived :: "chat_env \<Rightarrow> bool \<Rightarrow> int \<Rightarrow> bytes \<Rightarrow> chat_client \<Rightarrow> chat_client \<times> chat_error option ran \<times> mp_effect list" where
  "ch_OnMessageReceived E pick now payload st =
     (case handleIncomingMessage E pick now payload st of
        (st1, Waits, eff) \<Rightarrow> (st1, Waits, eff)
      | (st1, Back (Some e), eff) \<Rightarrow> (tell ChError st1, Back (Some e), eff)
      | (st1, Back None, eff) \<Rightarrow> (st1\<lparr>ccBytes := ccBytes st1 + of_nat (length payload)\<rparr>, Back None, eff))"

section \<open>Runs\<close>

text \<open>Calls of the application, goroutines of the client, and what its connections do; \<^verbatim>\<open>OnReconnected\<close> is not among
  them, because the client creates its network clients with automatic reconnection switched off.\<close>

datatype chat_call =
    CcStart "nat \<Rightarrow> os_dial"
  | CcStop
  | CcRequest "int list" "string option" int chat_request
  | CcMessage bool int bytes
  | CcDisconnected nat
  | CcError nat
  | CcLoss "nat \<Rightarrow> os_dial"
  | CcReconnect "nat \<Rightarrow> os_dial"
  | CcHeartbeat "int list" "string option" int
  | CcSync "int list" "int list" "string option" "string option" int u32

datatype chat_result = CrUnit "unit ran" | CrError "chat_error option ran"

fun chatStep :: "chat_env \<Rightarrow> chat_call \<Rightarrow> chat_client \<Rightarrow> chat_client \<times> chat_result" where
  "chatStep E (CcStart dials) st = map_prod id CrError (cl_Start dials st)"
| "chatStep E CcStop st = map_prod id CrError (cl_Stop st)"
| "chatStep E (CcRequest ticks w now r) st = map_prod id CrError (cl_request E ticks w now r st)"
| "chatStep E (CcMessage pick now data) st = map_prod id (CrError o fst) (ch_OnMessageReceived E pick now data st)"
| "chatStep E (CcDisconnected i) st = map_prod id CrUnit (ch_OnDisconnected i st)"
| "chatStep E (CcError i) st = map_prod id CrUnit (ch_OnError i st)"
| "chatStep E (CcLoss dials) st = map_prod id CrUnit (handleConnectionLoss dials st)"
| "chatStep E (CcReconnect dials) st = map_prod id CrUnit (reconnectLoop dials st)"
| "chatStep E (CcHeartbeat ticks w now) st = map_prod id CrUnit (heartbeatTick E ticks w now st)"
| "chatStep E (CcSync t1 t2 w1 w2 now room) st = map_prod id CrUnit (syncRoom E t1 t2 w1 w2 now room st)"

fun chatRun :: "chat_env \<Rightarrow> chat_call list \<Rightarrow> chat_client \<Rightarrow> chat_client \<times> (chat_call \<times> chat_result) list" where
  "chatRun E [] st = (st, [])"
| "chatRun E (x # xs) st =
     (case chatStep E x st of (st1, r) \<Rightarrow> case chatRun E xs st1 of (st2, rs) \<Rightarrow> (st2, (x, r) # rs))"

section \<open>The client never connects\<close>

lemma theNet_simps [simp]:
  "theNet (onNet f st) = f (theNet st)"
  "theNet (st\<lparr>ccProc := a\<rparr>) = theNet st" "theNet (st\<lparr>ccRoom := b\<rparr>) = theNet st" "theNet (st\<lparr>ccGen := c\<rparr>) = theNet st"
  "theNet (st\<lparr>ccSeq := d\<rparr>) = theNet st" "theNet (st\<lparr>ccStarted := e\<rparr>) = theNet st" "theNet (st\<lparr>ccSyncing := f'\<rparr>) = theNet st"
  "theNet (st\<lparr>ccSyncs := g\<rparr>) = theNet st" "theNet (st\<lparr>ccLosses := h\<rparr>) = theNet st" "theNet (st\<lparr>ccReconnecting := i\<rparr>) = theNet st"
  "theNet (st\<lparr>ccReceived := j\<rparr>) = theNet st" "theNet (st\<lparr>ccSwitches := k\<rparr>) = theNet st" "theNet (st\<lparr>ccBytes := l\<rparr>) = theNet st"
  "theNet (st\<lparr>ccRel := r\<rparr>) = net r"
  by (simp_all add: theNet_def onNet_def)

lemma tell_net [simp]:
  "cnConnected (theNet (tell ev st)) = cnConnected (theNet st)" "cnLocked (theNet (tell ev st)) = cnLocked (theNet st)"
  "cnNodes (theNet (tell ev st)) = cnNodes (theNet st)"
  by (simp_all add: tell_def)

lemma lock_net [simp]:
  "cnConnected (theNet (lockNet st)) = cnConnected (theNet st)" "cnLocked (theNet (lockNet st))" "cnNodes (theNet (lockNet st)) = cnNodes (theNet st)"
  "cnConnected (theNet (unlockNet st)) = cnConnected (theNet st)" "\<not> cnLocked (theNet (unlockNet st))"
  "cnNodes (theNet (unlockNet st)) = cnNodes (theNet st)"
  by (simp_all add: lockNet_def unlockNet_def)

lemma atNode_simps [simp]:
  "cnConnected (atNode i f n) = cnConnected n" "cnLocked (atNode i f n) = cnLocked n" "length (cnNodes (atNode i f n)) = length (cnNodes n)"
  by (simp_all add: atNode_def)

definition allDown :: "chat_net \<Rightarrow> bool" where
  "allDown n \<longleftrightarrow> (\<forall>nd \<in> set (cnNodes n). \<not> cnUp nd)"

lemma allDown_atNode: "allDown n \<Longrightarrow> i < length (cnNodes n) \<Longrightarrow> \<not> cnUp (f (cnNodes n ! i)) \<Longrightarrow> allDown (atNode i f n)"
  by (auto simp: allDown_def atNode_def dest: set_update_subset_insert [THEN subsetD])

text \<open>Not connected, and no node is up unless a call waits with the mutex.\<close>

definition offline :: "chat_client \<Rightarrow> bool" where
  "offline st \<longleftrightarrow> \<not> cnConnected (theNet st) \<and> (cnLocked (theNet st) \<or> allDown (theNet st))"

lemma connectToNode_locked:
  assumes "cnLocked (theNet st)" "\<not> cnConnected (theNet st)" "allDown (theNet st)" "i < length (cnNodes (theNet st))"
    "connectToNode dials i st = (st1, r)"
  shows "cnLocked (theNet st1) \<and> \<not> cnConnected (theNet st1) \<and> length (cnNodes (theNet st1)) = length (cnNodes (theNet st)) \<and>
    (r = Waits \<or> (\<exists>e. r = Back (Some e)) \<and> allDown (theNet st1))"
proof -
  let ?nd = "cnNodes (theNet st) ! i"
  have d: "\<not> cnUp ?nd" using assms(3,4) by (simp add: allDown_def)
  obtain api e where a: "ac_Connect (dials i) (cnApi ?nd) = (api, e)" by (rule prod.exhaust)
  show ?thesis
  proof (cases e)
    case None
    then have "r = Waits \<and> cnLocked (theNet st1) \<and> \<not> cnConnected (theNet st1) \<and> length (cnNodes (theNet st1)) = length (cnNodes (theNet st))"
      using assms(1,2,5) d a by (auto simp: connectToNode_def ch_OnConnected_def isActiveNode_def Let_def)
    then show ?thesis by simp
  next
    case (Some err)
    then have "st1 = onNet (atNode i (\<lambda>nd. nd\<lparr>cnApi := api\<rparr>)) st \<and> r = Back (Some (ClDial (cnAddr ?nd) err))"
      using assms(5) d a by (simp add: connectToNode_def Let_def)
    moreover have "allDown (atNode i (\<lambda>nd. nd\<lparr>cnApi := api\<rparr>) (theNet st))" using assms(3,4) d by (intro allDown_atNode) simp_all
    ultimately show ?thesis using assms(1,2) by simp
  qed
qed

lemma tryNodes_locked:
  assumes "tryNodes dials is st = (st1, r)" "cnLocked (theNet st)" "\<not> cnConnected (theNet st)" "allDown (theNet st)"
    "set is \<subseteq> {..<length (cnNodes (theNet st))}"
  shows "cnLocked (theNet st1) \<and> \<not> cnConnected (theNet st1) \<and> (r = Waits \<or> r = Back None \<and> allDown (theNet st1))"
  using assms
proof (induction "is" arbitrary: st)
  case (Cons i "is")
  obtain st2 q where c: "connectToNode dials i st = (st2, q)" by (rule prod.exhaust)
  from connectToNode_locked [OF Cons.prems(2-4) _ c] Cons.prems(5)
  have f: "cnLocked (theNet st2) \<and> \<not> cnConnected (theNet st2) \<and> length (cnNodes (theNet st2)) = length (cnNodes (theNet st)) \<and>
    (q = Waits \<or> (\<exists>e. q = Back (Some e)) \<and> allDown (theNet st2))" by simp
  show ?case
  proof (cases q)
    case Waits
    then show ?thesis using f c Cons.prems(1) by simp
  next
    case (Back e)
    then obtain err where "q = Back (Some err)" "allDown (theNet st2)" using f by auto
    then show ?thesis using Cons.IH [of st2] f c Cons.prems by simp
  qed
qed simp

lemma available_offline:
  assumes "offline st" "connectToAvailableServer dials st = (st1, r)"
  shows "offline st1 \<and> r \<noteq> Back None"
proof (cases "cnLocked (theNet st)")
  case True
  then show ?thesis using assms by (simp add: connectToAvailableServer_def)
next
  case False
  obtain st2 q where t: "tryNodes dials [0..<length (cnNodes (theNet st))] (lockNet st) = (st2, q)" by (rule prod.exhaust)
  have "cnLocked (theNet st2) \<and> \<not> cnConnected (theNet st2) \<and> (q = Waits \<or> q = Back None \<and> allDown (theNet st2))"
    by (rule tryNodes_locked [OF t]) (use assms(1) False in \<open>auto simp: offline_def allDown_def\<close>)
  then show ?thesis using assms(2) False t by (auto simp: connectToAvailableServer_def offline_def allDown_def)
qed

lemma switch_offline:
  assumes "offline st" "switchToNextAvailableConnection dials st = (st1, r)"
  shows "offline st1 \<and> r \<noteq> Back None"
proof (cases "cnLocked (theNet st)")
  case True
  then show ?thesis using assms by (simp add: switchToNextAvailableConnection_def)
next
  case False
  let ?len = "length (cnNodes (theNet st))"
  let ?is = "map (\<lambda>i. (nat (cnActive (theNet st)) + i + 1) mod ?len) [0..<?len]"
  obtain st2 q where t: "tryNodes dials ?is (lockNet st) = (st2, q)" by (rule prod.exhaust)
  have "set ?is \<subseteq> {..<?len}" by (auto intro!: mod_less_divisor)
  then have "cnLocked (theNet st2) \<and> \<not> cnConnected (theNet st2) \<and> (q = Waits \<or> q = Back None \<and> allDown (theNet st2))"
    by (intro tryNodes_locked [OF t]) (use assms(1) False in \<open>auto simp: offline_def allDown_def\<close>)
  then show ?thesis using assms(2) False t by (auto simp: switchToNextAvailableConnection_def offline_def allDown_def Let_def)
qed

lemma stop_offline:
  assumes "offline st" "cl_Stop st = (st1, r)"
  shows "offline st1"
proof -
  have d: "allDown (theNet st') \<Longrightarrow> set is \<subseteq> {..<length (cnNodes (theNet st'))} \<Longrightarrow> disconnectNodes is st' = (st', Back ())" for "is" st'
    by (induction "is") (auto simp: allDown_def Let_def)
  show ?thesis
  proof (cases "\<not> ccStarted st \<or> cnLocked (theNet st)")
    case True
    then show ?thesis using assms by (auto simp: cl_Stop_def offline_def split: if_splits)
  next
    case False
    let ?st = "lockNet (st\<lparr>ccStarted := False, ccProc := (ccProc st)\<lparr>mpDone := True\<rparr>\<rparr>)"
    have e: "disconnectNodes [0..<length (cnNodes (theNet st))] ?st = (?st, Back ())"
      by (rule d) (use assms(1) False in \<open>auto simp: offline_def allDown_def\<close>)
    show ?thesis using assms False by (simp add: cl_Stop_def offline_def allDown_def Let_def e) (auto simp: allDown_def)
  qed
qed

lemma rel_net_simps [simp]:
  "net (emit ev rm) = net rm" "net (notify ev rm) = net rm" "net (stopTimer p k rm) = net rm" "net (confirmMessage p k rm) = net rm"
  by (simp_all add: emit_def notify_def stopTimer_def confirmMessage_def)

lemma dequeue_net [simp]: "net (dequeue e k rm) = net rm"
proof (cases "Message e")
  case (Some m)
  then show ?thesis by (cases m) (simp_all add: dequeue_def split: option.split)
qed (simp add: dequeue_def split: option.split)

lemma remove_net [simp]: "net (fst (removePendingMessage rm k)) = net rm"
  by (simp add: removePendingMessage_def split: option.split)

lemma removeAndConfirm_net [simp]: "net (removeAndConfirm rm k) = net rm"
  using remove_net [of rm k] by (cases "removePendingMessage rm k") (simp add: removeAndConfirm_def split: option.split)

lemma fetchResponse_net: "net (fst (handleMessageFetchResponse rm resp)) = net rm"
proof -
  have "net (fst (handleMessageFailure False rm k err)) = net rm" for k err
    using remove_net [of rm k] by (cases "removePendingMessage rm k") (simp add: handleMessageFailure_def split: option.split)
  then show ?thesis by (simp add: handleMessageFetchResponse_def Let_def split: option.split)
qed

lemma originalKey_net: "net (fst (getOriginalMessageKey rm e)) = net rm"
proof (cases "Message e")
  case (Some m)
  then show ?thesis by (cases m) (simp_all add: getOriginalMessageKey_def split: option.split list.split)
qed (simp add: getOriginalMessageKey_def split: option.split list.split)

lemma HandleACK_net: "net (fst (HandleACK rm e)) = net rm"
proof -
  have r: "net (fst (case getOriginalMessageKey rm e of (rm1, key) \<Rightarrow>
      if key = [] then (rm1, True, Finished) else (removeAndConfirm rm1 key, True, Finished))) = net rm"
    using originalKey_net [of rm e] by (cases "getOriginalMessageKey rm e") simp
  have f: "handleMessageFetchResponse rm resp = (a, b) \<Longrightarrow> net a = net rm" for resp a b using fetchResponse_net [of rm resp] by simp
  show ?thesis
  proof (cases "Message e")
    case (Some m)
    then show ?thesis using r
      by (cases m) (auto simp: HandleACK_def handleRoomFetchResponse_def Let_def dest: f split: prod.splits)
  qed (use r in \<open>simp add: HandleACK_def split: prod.splits\<close>)
qed

lemma request_offline:
  assumes "\<not> cnConnected (theNet st)"
  shows "\<exists>room. cl_request E ticks w now r st = (st\<lparr>ccRoom := room\<rparr>, Back (Some ClNotConnected))"
proof -
  have m: "\<not> cnConnected (theNet st') \<Longrightarrow> cl_SendMessage E ticks w now c st' = (st', Back (Some ClNotConnected))" for st' c
    by (simp add: cl_SendMessage_def)
  show ?thesis using assms by (cases r) (auto simp: m intro: exI [of _ "ccRoom st"])
qed

lemma message_offline:
  assumes "ch_OnMessageReceived E pick now data st = (st1, r, eff)"
  shows "cnConnected (theNet st1) = cnConnected (theNet st) \<and> cnLocked (theNet st1) = cnLocked (theNet st) \<and>
    cnNodes (theNet st1) = cnNodes (theNet st)"
proof -
  obtain st2 q eff2 where h: "handleIncomingMessage E pick now data st = (st2, q, eff2)" by (rule prod_cases3)
  have "theNet st2 = theNet st"
  proof (cases "Deserialize (ceParse E) (now div 1000000) data")
    case (Inr e)
    obtain rm ack pr where a: "HandleACK (ccRel (st\<lparr>ccReceived := ccReceived st + 1\<rparr>)) e = (rm, ack, pr)" by (rule prod_cases3)
    then have "net rm = theNet st" using HandleACK_net [of "ccRel st" e] by (simp add: theNet_def)
    then show ?thesis using h Inr a
      by (cases ack; cases pr) (auto simp: handleIncomingMessage_def Let_def split: prod.splits)
  qed (use h in \<open>simp add: handleIncomingMessage_def\<close>)
  then show ?thesis using assms h by (auto simp: ch_OnMessageReceived_def split: ran.splits option.splits)
qed

text \<open>Requests are refused, and \<^verbatim>\<open>Start\<close> fails or does not return.\<close>

fun refused :: "chat_call \<times> chat_result \<Rightarrow> bool" where
  "refused (CcRequest _ _ _ _, r) \<longleftrightarrow> r = CrError (Back (Some ClNotConnected))"
| "refused (CcStart _, r) \<longleftrightarrow> r \<noteq> CrError (Back None)"
| "refused _ \<longleftrightarrow> True"

lemma offline_simps [simp]:
  "offline (st\<lparr>ccRoom := a\<rparr>) = offline st" "offline (st\<lparr>ccStarted := b\<rparr>) = offline st" "offline (st\<lparr>ccLosses := c\<rparr>) = offline st"
  "offline (st\<lparr>ccReconnecting := d\<rparr>) = offline st" "offline (st\<lparr>ccSyncing := e\<rparr>) = offline st" "offline (tell ev st) = offline st"
  by (simp_all add: offline_def allDown_def)

lemma disconnected_offline:
  assumes "offline st"
  shows "offline (fst (ch_OnDisconnected i st))"
proof -
  let ?st = "onNet (atNode i (\<lambda>nd. nd\<lparr>cnLink := None, cnUp := False\<rparr>)) st"
  have "allDown (theNet st) \<Longrightarrow> allDown (theNet ?st)"
    by (auto simp: allDown_def atNode_def dest: set_update_subset_insert [THEN subsetD])
  then have o: "offline ?st" using assms by (auto simp: offline_def)
  then have "offline (onNet (\<lambda>n. n\<lparr>cnConnected := False\<rparr>) ?st)" by (simp add: offline_def allDown_def)
  then show ?thesis using o by (auto simp: ch_OnDisconnected_def Let_def split: ran.split bool.split)
qed

lemma chat_step_offline:
  assumes "offline st" "chatStep E x st = (st1, r)"
  shows "offline st1 \<and> refused (x, r)"
proof (cases x)
  case (CcStart dials)
  obtain st2 q where a: "connectToAvailableServer dials (st\<lparr>ccStarted := True\<rparr>) = (st2, q)" by (rule prod.exhaust)
  have "offline st2 \<and> q \<noteq> Back None" using available_offline [OF _ a] assms(1) by simp
  then show ?thesis using assms CcStart a by (auto simp: cl_Start_def split: if_splits ran.splits option.splits)
next
  case CcStop
  obtain st2 q where s: "cl_Stop st = (st2, q)" by (rule prod.exhaust)
  then show ?thesis using stop_offline [OF assms(1) s] assms(2) CcStop by simp
next
  case (CcRequest ticks w now rq)
  obtain room where "cl_request E ticks w now rq st = (st\<lparr>ccRoom := room\<rparr>, Back (Some ClNotConnected))"
    using request_offline [of st] assms(1) unfolding offline_def by blast
  then show ?thesis using assms CcRequest by auto
next
  case (CcMessage pick now data)
  obtain st2 q eff where m: "ch_OnMessageReceived E pick now data st = (st2, q, eff)" by (rule prod_cases3)
  then show ?thesis using message_offline [OF m] assms CcMessage by (auto simp: offline_def allDown_def)
next
  case (CcDisconnected i)
  then show ?thesis using assms disconnected_offline [OF assms(1), of i] by (cases "ch_OnDisconnected i st") auto
next
  case (CcError i)
  then show ?thesis using assms by (auto simp: ch_OnError_def Let_def split: ran.splits bool.splits)
next
  case (CcLoss dials)
  obtain st2 q where s: "switchToNextAvailableConnection dials st = (st2, q)" by (rule prod.exhaust)
  then show ?thesis using switch_offline [OF assms(1) s] assms CcLoss
    by (auto simp: handleConnectionLoss_def split: if_splits ran.splits option.splits)
next
  case (CcReconnect dials)
  obtain st2 q where s: "connectToAvailableServer dials st = (st2, q)" by (rule prod.exhaust)
  then show ?thesis using available_offline [OF assms(1) s] assms CcReconnect
    by (auto simp: reconnectLoop_def split: if_splits ran.splits option.splits)
next
  case (CcHeartbeat ticks w now)
  then show ?thesis using assms by (auto simp: heartbeatTick_def offline_def)
next
  case (CcSync t1 t2 w1 w2 now room)
  obtain room' where "cl_request E t1 w1 now (RqJoinRoom (ucast room) []) st = (st\<lparr>ccRoom := room'\<rparr>, Back (Some ClNotConnected))"
    using request_offline [of st] assms(1) unfolding offline_def by blast
  then show ?thesis using assms CcSync by (auto simp: syncRoom_def)
qed

text \<open>C4: the chat client never gets connected.  \<^verbatim>\<open>connectToAvailableServer\<close> holds the write lock of \<^verbatim>\<open>connMutex\<close> when the
  network client calls \<^verbatim>\<open>OnConnected\<close>, which asks for the read lock.  In every run of the calls of the application, the
  goroutines of the client and the events of its connections, with servers that can be reached or not: the client does
  not become connected, each request is answered with the error that it is not connected, and no \<^verbatim>\<open>Start\<close> succeeds.\<close>

theorem client_never_connects:
  assumes "chatRun E xs (NewLiveChatClient user login addrs bufferSize maxRetries handler g) = (st, rs)"
  shows "\<not> cnConnected (theNet st) \<and> (\<forall>p \<in> set rs. refused p)"
proof -
  have "offline st0 \<Longrightarrow> chatRun E xs st0 = (st, rs) \<Longrightarrow> offline st \<and> (\<forall>p \<in> set rs. refused p)" for st0
  proof (induction xs arbitrary: st0 rs)
    case (Cons x xs)
    obtain st2 r where s: "chatStep E x st0 = (st2, r)" by (rule prod.exhaust)
    obtain st3 rs' where t: "chatRun E xs st2 = (st3, rs')" by (rule prod.exhaust)
    from chat_step_offline [OF Cons.prems(1) s] Cons.IH [of st2 rs'] Cons.prems(2) s t show ?case by auto
  qed simp
  from this [OF _ assms] show ?thesis
    by (auto simp: offline_def allDown_def NewLiveChatClient_def NewReliabilityManager_def theNet_def initConnections_def)
qed

definition noNet :: "chat_net Net" where
  "noNet = \<lparr>nsend = (\<lambda>n _. (n, False)), nswitch = (\<lambda>n. (n, False)), nfetch = (\<lambda>n _ _. (n, Inl SendFailed))\<rparr>"

definition demoChat :: chat_env where
  "demoChat = \<lparr>ceNet = noNet, ceProto = (\<lambda>_. Some [1]), ceParse = (\<lambda>_. None), ceFetchBatch = 50\<rparr>"

definition demoClient :: chat_client where
  "demoClient = NewLiveChatClient 7 1 [''a:1'', ''b:1''] 10 3 True NewGlobalIDGenerator"

theorem client_never_connects_witness:
  "\<exists>st rs. chatRun demoChat [CcStart (\<lambda>i. Dialed i), CcRequest [] None 0 (RqJoinRoom 5 [])] demoClient = (st, rs) \<and>
    \<not> cnConnected (theNet st) \<and> (\<forall>p \<in> set rs. refused p) \<and> ccRoom st = 5"
proof -
  let ?xs = "[CcStart (\<lambda>i. Dialed i), CcRequest [] None 0 (RqJoinRoom 5 [])]"
  obtain st rs where r: "chatRun demoChat ?xs demoClient = (st, rs)" by (rule prod.exhaust)
  have c: "\<not> cnConnected (theNet st) \<and> (\<forall>p \<in> set rs. refused p)" by (rule client_never_connects [OF r [unfolded demoClient_def]])
  obtain st1 q where s: "chatStep demoChat (CcStart (\<lambda>i. Dialed i)) demoClient = (st1, q)" by (rule prod.exhaust)
  have "offline demoClient"
    by (simp add: offline_def allDown_def demoClient_def NewLiveChatClient_def NewReliabilityManager_def theNet_def initConnections_def)
  then have "\<not> cnConnected (theNet st1)" using chat_step_offline [OF _ s] offline_def by blast
  then have "ccRoom st = 5" using r s by (auto simp: cl_SendMessage_def)
  then show ?thesis using r c by blast
qed

lemma connectToNode_waits:
  assumes "cnLocked (theNet st)" "i < length (cnNodes (theNet st))" "\<not> cnUp (cnNodes (theNet st) ! i)"
    "\<not> acConnected (cnApi (cnNodes (theNet st) ! i))" "dials i = Dialed k"
  shows "\<exists>st1. connectToNode dials i st = (st1, Waits)"
  using assms by (simp add: connectToNode_def ac_Connect_def ch_OnConnected_def isActiveNode_def Let_def)

lemma connectToNode_refused:
  assumes "i < length (cnNodes (theNet st))" "\<not> cnUp (cnNodes (theNet st) ! i)"
    "\<not> acConnected (cnApi (cnNodes (theNet st) ! i))" "\<forall>k. dials i \<noteq> Dialed k"
  shows "\<exists>e. connectToNode dials i st = (onNet (atNode i (\<lambda>nd. nd\<lparr>cnApi := cnApi (cnNodes (theNet st) ! i)\<rparr>)) st, Back (Some e))"
  using assms by (cases "dials i") (auto simp: connectToNode_def ac_Connect_def Let_def)

definition fresh_nodes :: "chat_net \<Rightarrow> bool" where
  "fresh_nodes n \<longleftrightarrow> (\<forall>nd \<in> set (cnNodes n). \<not> cnUp nd \<and> \<not> acConnected (cnApi nd))"

lemma tryNodes_waits:
  "cnLocked (theNet st) \<Longrightarrow> fresh_nodes (theNet st) \<Longrightarrow> set is \<subseteq> {..<length (cnNodes (theNet st))} \<Longrightarrow> i \<in> set is \<Longrightarrow>
     dials i = Dialed k \<Longrightarrow> \<exists>st1. tryNodes dials is st = (st1, Waits)"
proof (induction "is" arbitrary: st)
  case (Cons j "is")
  let ?nd = "cnNodes (theNet st) ! j"
  have j: "j < length (cnNodes (theNet st))" "\<not> cnUp ?nd" "\<not> acConnected (cnApi ?nd)" using Cons.prems(2,3) by (auto simp: fresh_nodes_def)
  show ?case
  proof (cases "\<exists>k. dials j = Dialed k")
    case True
    then obtain k' where "dials j = Dialed k'" by blast
    from connectToNode_waits [OF Cons.prems(1) j, of dials k', OF this] show ?thesis by auto
  next
    case False
    let ?st = "onNet (atNode j (\<lambda>nd. nd\<lparr>cnApi := cnApi ?nd\<rparr>)) st"
    obtain e where c: "connectToNode dials j st = (?st, Back (Some e))" using connectToNode_refused [of j st dials] j False by blast
    have i: "i \<in> set is" using Cons.prems(4,5) False by auto
    have "fresh_nodes (theNet ?st)" using Cons.prems(2) j
      by (auto simp: fresh_nodes_def atNode_def dest!: set_update_subset_insert [THEN subsetD])
    from Cons.IH [OF _ this _ i Cons.prems(5)] Cons.prems(1,3) show ?thesis using c by simp
  qed
qed simp

text \<open>C25: \<^verbatim>\<open>Start\<close> returns only when no server can be reached.  On a new client the call waits for ever when the connection
  to one of the configured addresses is established, whatever becomes of the ones before it.\<close>

theorem start_hangs_when_reachable:
  assumes "i < length addrs" "dials i = Dialed k"
  shows "snd (cl_Start dials (NewLiveChatClient user login addrs bufferSize maxRetries handler g)) = Waits"
proof -
  let ?st = "(NewLiveChatClient user login addrs bufferSize maxRetries handler g)\<lparr>ccStarted := True\<rparr>"
  have n: "theNet ?st = \<lparr>cnNodes = initConnections addrs, cnActive = 0, cnConnected = False, cnLocked = False, cnLog = []\<rparr>"
    by (simp add: theNet_def NewLiveChatClient_def NewReliabilityManager_def)
  have "\<exists>st1. tryNodes dials [0..<length addrs] (lockNet ?st) = (st1, Waits)"
    by (rule tryNodes_waits [where i = i]) (use assms n in \<open>auto simp: lockNet_def fresh_nodes_def initConnections_def NewClient_def\<close>)
  then have "\<exists>st1. connectToAvailableServer dials ?st = (st1, Waits)" using n by (auto simp: connectToAvailableServer_def initConnections_def)
  moreover have "\<not> ccStarted (NewLiveChatClient user login addrs bufferSize maxRetries handler g)" by (simp add: NewLiveChatClient_def)
  ultimately show ?thesis by (auto simp: cl_Start_def)
qed

theorem start_hangs_when_reachable_witness:
  "snd (cl_Start (\<lambda>i. if i = 1 then Dialed 3 else NoConnect ''refused'') demoClient) = Waits"
  using start_hangs_when_reachable [of 1 "[''a:1'', ''b:1'']" "\<lambda>i. if i = 1 then Dialed 3 else NoConnect ''refused''" 3]
  by (simp add: demoClient_def)

end
