(* ===== verification/Spec2Isabelle.thy ===== *)
theory Spec2Isabelle
  imports GlobalId Envelope Classifier RingBuffer BufferUtils BufferPool WebSocket TimerWheel RoomManager ClientReliability HttpRoundtrip
    NetConnection NetEngine LoadBalancer ConnectionNodeCorrect LiveRoomManager RouterLink NodeLink CenterConnection RouterNodeCorrect
    MessageCenterCorrect KafkaConsumer LiveChatClient
begin

text \<open>
  Verification of liveChatRoom, a distributed live chat server in Go.

  \<^bold>\<open>The program.\<close>  Chat clients hold TCP connections to \<^emph>\<open>connection nodes\<close> (\<^verbatim>\<open>src/connection\<close>), which keep
  the rooms and answer the clients.  A node forwards what concerns other nodes to a \<^emph>\<open>router\<close> (\<^verbatim>\<open>src/router\<close>), which
  knows the nodes of each room through Redis, balances load, and hands what must be kept to a \<^emph>\<open>message center\<close>
  (\<^verbatim>\<open>src/msgcenter\<close>), which stores messages in MySQL, sends them through Kafka and answers queries.  All of them talk in
  envelopes of protocol buffers with 128-bit ids (\<^verbatim>\<open>src/message\<close>) over a network library of their own
  (\<^verbatim>\<open>src/util/net\<close>).  The client library is \<^verbatim>\<open>src/client\<close>.

  \<^bold>\<open>Parts and theories.\<close>  A theory has the data, the operations and mostly the lemmas of one part, under the names of the
  code; a struct is a record, a tagged union a datatype, a method a function from state to state with its result.

  \<^item> \<open>Prelude\<close>: machine integers, bytes, big-endian numbers, the result type \<open>outcome\<close> (\<open>Ret\<close> or \<open>Panic\<close>), maps as
    association lists.  \<open>GoStrings\<close>, \<open>GoCrypto\<close>: what the code uses of Go's \<^verbatim>\<open>strings\<close>, \<^verbatim>\<open>strconv\<close>, \<^verbatim>\<open>bufio\<close>,
    \<^verbatim>\<open>unicode/utf8\<close>, \<^verbatim>\<open>crypto/sha1\<close> and \<^verbatim>\<open>encoding/base64\<close>.
  \<^item> \<open>GlobalId\<close> (\<^verbatim>\<open>message/idgen.go\<close>): packing and order of ids; the generator as a machine of atomic steps.
    \<open>Envelope\<close> (\<^verbatim>\<open>message/message.proto\<close>, \<^verbatim>\<open>codec.go\<close>): messages, validation, the codec over an abstract encoding.
  \<^item> \<open>RingBuffer\<close>, \<open>BufferUtils\<close>, \<open>BufferPool\<close> (\<^verbatim>\<open>util/net/base/buffer\<close>): the ring buffer against a queue of bytes, with
    the loop of \<^verbatim>\<open>Write\<close> that may not end; frames over any buffer; the pool.
    \<open>TimerWheel\<close> (\<^verbatim>\<open>util/net/base/timer\<close>): the heap of timers, the tick, and the goroutines of starting and stopping.
  \<^item> \<open>Protocol\<close>, \<open>Http\<close>, \<open>HttpCorrect\<close>, \<open>HttpBuilder\<close>, \<open>HttpRoundtrip\<close>, \<open>WebSocket\<close> (\<^verbatim>\<open>util/net/protocol\<close>): detection,
    the two parsers and builders, round trips, and how the cuts of a stream matter.
  \<^item> \<open>NetConnection\<close>, \<open>NetEngine\<close> (\<^verbatim>\<open>util/net/net\<close>): a connection with its read loop, and how listener, engine, reactor
    and manager accept and forget connections.  \<open>NetClient\<close> (\<^verbatim>\<open>util/net/api/client.go\<close>): the client's side of it.
  \<^item> \<open>SendQueue\<close>: Go's channels and the wrapper of a connection with a buffered channel and a send loop, which exists three
    times: \<open>ClientConnection\<close> (\<^verbatim>\<open>connection/client_connection.go\<close>), \<open>NodeConnection\<close> (\<^verbatim>\<open>router/node_connection.go\<close>),
    \<open>CenterConnection\<close> (\<^verbatim>\<open>msgcenter/router_connection.go\<close>).
  \<^item> Connection node: \<open>RoomManager\<close>, \<open>ConnectionManager\<close>, \<open>LiveRoomManager\<close>, \<open>ConnectionNode\<close> (handlers, server and
    network events), \<open>ConnectionNodeCorrect\<close>; its link to the routers is \<open>RouterLink\<close>, and \<open>NodeLink\<close> puts both together.
  \<^item> Router: \<open>Classifier\<close>, \<open>NodeManager\<close>, \<open>LoadBalancer\<close>, \<open>RoomMapping\<close> (Redis), \<open>RouterReliability\<close>, \<open>RouterNode\<close>,
    \<open>RouterNodeCorrect\<close>.
  \<^item> Message center: \<open>MessageStore\<close> (message, Kafka and database manager), \<open>MessageDatabase\<close> (what is relied on of MySQL),
    \<open>KafkaConsumer\<close>, \<open>MessageCenter\<close> (reliability, queries, server), \<open>MessageCenterCorrect\<close>.
  \<^item> Client: \<open>ClientReliability\<close>, \<open>MessageProcessor\<close>, \<open>LiveChatClient\<close>.

  \<^bold>\<open>How the parts meet.\<close>  A connection node draws ids from \<open>GlobalId\<close>, parses and builds with \<open>Envelope\<close>, keeps its
  connections in \<open>ConnectionManager\<close> as addresses into a store of \<open>ClientConnection\<close>s, because Go's pointers are shared
  between the maps and the handlers, and calls the link through a function of its environment, of which \<open>NodeLink\<close> is the
  instance with the link of the code.  The router's state contains the node manager (with its \<open>NodeConnection\<close>s), the
  balancer, the pending messages and the cache of rooms.  The consumer works on the state of the message manager, with which
  it shares the database.  The chat client contains the network client, the reliability manager and the processor.

  \<^bold>\<open>Interfaces.\<close>  A locale states what a user of several implementations relies on, and each is interpreted on the model:
  \<open>send_queue\<close> (what was accepted is sent in order, under every interleaving of senders and loop) on the three connection
  wrappers; \<open>stream_parser\<close> (a stream may be cut anywhere as long as nothing fails) on the HTTP and the WebSocket parser;
  \<open>fifo_buffer\<close> (reading a buffer is reading a queue) on the ring buffer, for the utilities that work on any buffer;
  \<open>priority_queue\<close> on the heap of timers.  Go's \<^verbatim>\<open>container/heap\<close> is defined, since it is part of the language's library.

  \<^bold>\<open>What the lemmas show.\<close>  Invariants of every reachable state (ids, rooms and members, connections, pending messages,
  timers, maps of the router, messages in the center); refinement of the ring buffer, the room backlogs and the send loops to
  queues; round trips of ids, codec, HTTP, WebSocket and Kafka records; exact results of broadcasts, ticks, selections and
  clean-ups, failures included; termination of retransmission; and where the code does not do what it means to, the
  reachable state in which it fails: a write to the ring buffer that never ends, a client that never connects, a link that
  blocks itself, a wheel that cannot be stopped, rooms that are stuck or can be closed by anyone, batches that are skipped,
  a listener that fills up for good.

  \<^bold>\<open>What is assumed.\<close>  Code that is not in the repository is an argument, and its documented behaviour a named hypothesis
  with an instance: \<open>redis_contract\<close> (a key holds what was written last, or nothing), \<open>db_contract\<close> and \<open>db_deletes\<close>
  (\<^verbatim>\<open>INSERT IGNORE\<close> never makes a second row of an id, which the column pads or cuts to 16 bytes; it stores a message exactly
  only if it fits its columns, may adjust it otherwise, and may fail; a delete removes expired rows, at most its limit),
  \<open>sorts\<close> (a sort permutes and orders).  The encoding of protocol buffers is a pair of functions with the round trip where
  one is needed.  Results of writes, dials, commits and timers, the order of each walk over a Go map, the choice of a
  \<^verbatim>\<open>select\<close> and all clock readings are arguments, so a statement holds for every one of them.

  \<^bold>\<open>Granularity.\<close>  Operations under one lock, and handlers of events where no interleaving is claimed, are one step; runs are
  lists of such steps in any order.  Where a claim depends on interleaving the steps are finer: the id generator (each atomic
  load and compare-and-swap), the connection wrappers (\<open>send_close_race\<close>: a send between the check and the close panics), the
  wheel (its goroutines and locks), the message manager and the consumer (each goroutine they start runs later, in any
  order), the check and the mark of a duplicate (\<open>duplicate_race\<close>).  A claim on a whole node says that its events are handled
  one after the other.

  \<^bold>\<open>Bounds and loops.\<close>  Loops that end are total functions; the loop of \<^verbatim>\<open>Write\<close> and the read loop of a connection are partial
  functions with \<open>None\<close> for a call that does not return.  No fuel is used.  Integers keep their width where the code can
  reach the end of it; lengths of Go slices and times in nanoseconds are unbounded.

  \<^bold>\<open>Not modelled.\<close>  System calls, dialling, the drivers of Redis, MySQL and Kafka, the generated codec, reading the
  configuration, starting and stopping of servers, log lines and measured times; the code that nothing calls: the pools of
  connections and goroutines, \<^verbatim>\<open>connection/reliability_guarantor.go\<close> (a copy of the scheme of \<open>ClientReliability\<close>).
\<close>

end
